(* ===== verification/Prelude.thy ===== *)
theory Prelude
  imports Main "HOL-Library.Word" "HOL-Library.Monad_Syntax" "HOL-Library.Multiset" "HOL-Library.AList"
begin

text \<open>
  Shared vocabulary of the development: the machine integers of the Rust sources,
  the error types every crate uses (\<^verbatim>\<open>OutOfMemoryError\<close>, \<^verbatim>\<open>InvalidValue\<close>,
  \<^verbatim>\<open>nb::Error\<close>), and the generic lemmas on lists, options and words that the
  component theories rest on.

  Conventions used everywhere:
  \<^item> a Rust function that can panic returns an \<open>option\<close>; \<open>None\<close> is the panic;
  \<^item> a Rust \<^verbatim>\<open>Result<T, E>\<close> is the sum \<open>'e + 't\<close>, with \<open>Inl\<close> the error;
  \<^item> \<^verbatim>\<open>usize\<close> values that count bytes, frames or list positions are \<open>nat\<close>; every
    fixed-width integer whose wrap-around or masking matters is a \<open>word\<close>;
  \<^item> a \<^verbatim>\<open>&mut self\<close> method takes the record of the state and returns the updated one.
\<close>

unbundle bit_operations_syntax

type_synonym u8 = "8 word"
type_synonym u16 = "16 word"
type_synonym u32 = "32 word"
type_synonym u64 = "64 word"

section \<open>Error values shared by all crates\<close>

text \<open>The unit structs \<^verbatim>\<open>OutOfMemoryError\<close> and \<^verbatim>\<open>InvalidValue\<close> of canadensis\_core.\<close>

datatype out_of_memory_error = OutOfMemoryError

datatype invalid_value = InvalidValue

text \<open>The error type of the \<^verbatim>\<open>nb\<close> convention the transport traits return.\<close>

datatype 'e nb_error = WouldBlock | Other 'e

text \<open>\<^verbatim>\<open>core::cmp::Ordering\<close>.\<close>

datatype ordering = Less | Equal | Greater

text \<open>\<^verbatim>\<open>Result::expect\<close> and \<^verbatim>\<open>Result::unwrap\<close>: an error is a panic. \<^verbatim>\<open>Result::ok\<close> is the same map.\<close>

fun expect :: "'e + 'a \<Rightarrow> 'a option" where
  "expect (Inl _) = None"
| "expect (Inr a) = Some a"

section \<open>Automation\<close>

named_theorems wf_intros \<open>preservation of the well-formedness invariants\<close>
named_theorems range_simps \<open>numeric ranges of identifiers and word fields\<close>

section \<open>Words\<close>

lemma and_mask_eq_0_iff_lt:
  fixes x :: "'a::len word"
  assumes "n \<le> LENGTH('a)"
  shows "x AND NOT (mask n) = 0 \<longleftrightarrow> unat x < 2 ^ n"
proof -
  have "x AND NOT (mask n) = 0 \<longleftrightarrow> take_bit n x = x"
    by (auto simp: bit_eq_iff bit_simps)
  also have "\<dots> \<longleftrightarrow> take_bit n (unat x) = unat x"
    by (simp add: word_unat_eq_iff unsigned_take_bit_eq)
  also have "\<dots> \<longleftrightarrow> unat x < 2 ^ n"
    by (simp add: take_bit_nat_eq_self_iff)
  finally show ?thesis .
qed

lemma unat_and_mask:
  fixes x :: "'a::len word"
  shows "unat (x AND mask n) = unat x mod 2 ^ n"
proof -
  have "unat (x AND mask n) = unat (take_bit n x)"
    by (simp only: take_bit_eq_mask)
  also have "\<dots> = take_bit n (unat x)"
    by (rule unsigned_take_bit_eq)
  finally show ?thesis by (simp only: take_bit_eq_mod)
qed

lemma unat_ucast_up:
  fixes x :: "'a::len word"
  assumes "LENGTH('a) \<le> LENGTH('b::len)"
  shows "unat (ucast x :: 'b word) = unat x"
proof -
  have "unat x < 2 ^ LENGTH('a)" by (rule unsigned_less)
  also have "\<dots> \<le> 2 ^ LENGTH('b)" using assms by simp
  finally show ?thesis by (simp add: unsigned_ucast_eq take_bit_nat_eq_self)
qed

lemma unat_minus_mod:
  fixes a b :: "'a::len word"
  shows "unat (a - b) = (unat a + 2 ^ LENGTH('a) - unat b) mod 2 ^ LENGTH('a)"
proof (cases "unat b \<le> unat a")
  case True
  moreover have "unat a < 2 ^ LENGTH('a)" by (rule unsigned_less)
  ultimately show ?thesis
    by (simp add: unat_sub_if' less_imp_diff_less mod_if)
next
  case False
  moreover have "unat b < 2 ^ LENGTH('a)" by (rule unsigned_less)
  ultimately have "unat a + 2 ^ LENGTH('a) - unat b < 2 ^ LENGTH('a)" by linarith
  with False show ?thesis by (simp add: unat_sub_if')
qed

lemma bit_below:
  fixes x :: "'a::len word"
  assumes "unat x < 2 ^ k" and "bit x n"
  shows "n < k"
proof (rule ccontr)
  assume "\<not> n < k"
  have "take_bit k x = x"
    using assms(1) by (simp add: word_unat_eq_iff unsigned_take_bit_eq take_bit_nat_eq_self)
  then have "bit (take_bit k x) n" using assms(2) by simp
  with \<open>\<not> n < k\<close> show False by (simp add: bit_simps)
qed

lemma below_bit:
  fixes x :: "'a::len word"
  assumes "\<And>n. bit x n \<Longrightarrow> n < k"
  shows "unat x < 2 ^ k"
proof -
  have "take_bit k x = x" using assms by (auto simp: bit_eq_iff bit_simps)
  then have "unat x = take_bit k (unat x)" by (metis unsigned_take_bit_eq)
  then show ?thesis by (metis take_bit_nat_less_exp)
qed

section \<open>Integers as little-endian bytes\<close>

text \<open>\<^verbatim>\<open>to_le_bytes\<close> and \<^verbatim>\<open>from_le_bytes\<close>; the first argument is the size of the integer in bytes.\<close>

definition le_bytes :: "nat \<Rightarrow> 'a::len word \<Rightarrow> u8 list" where
  "le_bytes n w = map (\<lambda>i. ucast (drop_bit (8 * i) w)) [0..<n]"

fun of_le_bytes :: "u8 list \<Rightarrow> 'a::len word" where
  "of_le_bytes [] = 0"
| "of_le_bytes (b # bs) = ucast b OR push_bit 8 (of_le_bytes bs)"

lemma length_le_bytes [simp]: "length (le_bytes n w) = n"
  by (simp add: le_bytes_def)

lemma bit_of_le_bytes:
  "bit (of_le_bytes bs :: 'a::len word) k \<longleftrightarrow> k < LENGTH('a) \<and> k div 8 < length bs \<and> bit (bs ! (k div 8)) (k mod 8)"
proof (induction bs arbitrary: k)
  case (Cons b bs)
  show ?case
  proof (cases "k < 8")
    case False
    then obtain j where j: "k = j + 8" by (metis le_add_diff_inverse2 not_less)
    then have "k div 8 = Suc (j div 8)" "k mod 8 = j mod 8" by simp_all
    then show ?thesis using Cons [of j] j bit_imp_le_length [of b "j + 8"] by (auto simp: bit_simps)
  qed (auto simp: bit_simps)
qed simp

lemma of_le_bytes_le_bytes:
  assumes "LENGTH('a::len) \<le> 8 * n"
  shows "of_le_bytes (le_bytes n (w :: 'a word)) = w"
proof (rule bit_word_eqI)
  fix k assume "k < LENGTH('a)"
  moreover from this have "k div 8 < n" using assms by linarith
  ultimately show "bit (of_le_bytes (le_bytes n w) :: 'a word) k = bit w k"
    by (simp add: bit_of_le_bytes le_bytes_def bit_simps)
qed

section \<open>Arithmetic modulo a ring size\<close>

lemma wrap_diff:
  fixes x y m :: nat
  assumes "x < m" and "y < m"
  shows "(x + m - y) mod m = (if y \<le> x then x - y else x + m - y)"
proof (cases "y \<le> x")
  case True
  then have "x + m - y = (x - y) + m" by simp
  then have "(x + m - y) mod m = (x - y) mod m" by (simp only: mod_add_self2)
  with True assms show ?thesis by (simp add: less_imp_diff_less)
next
  case False
  with assms have "x + m - y < m" by linarith
  with False show ?thesis by simp
qed

lemma wrap_add:
  fixes x y m :: nat
  assumes "x < m" and "y < m"
  shows "(x + y) mod m = (if x + y < m then x + y else x + y - m)"
  using assms by (auto simp: mod_if)

section \<open>List operations of the standard library\<close>

text \<open>\<^verbatim>\<open>Iterator::position\<close> and \<^verbatim>\<open>Vec::swap_remove\<close>; the index of the latter is in range at every use.\<close>

fun position :: "('a \<Rightarrow> bool) \<Rightarrow> 'a list \<Rightarrow> nat option" where
  "position P [] = None"
| "position P (x # xs) = (if P x then Some 0 else map_option Suc (position P xs))"

definition swap_remove :: "nat \<Rightarrow> 'a list \<Rightarrow> 'a \<times> 'a list" where
  "swap_remove i xs = (xs ! i, (butlast xs)[i := last xs])"

lemma position_Some:
  "position P xs = Some i \<Longrightarrow> i < length xs \<and> P (xs ! i) \<and> (\<forall>j < i. \<not> P (xs ! j))"
  by (induction xs arbitrary: i) (auto split: if_splits simp: less_Suc_eq_0_disj)

lemma position_None: "position P xs = None \<longleftrightarrow> (\<forall>x \<in> set xs. \<not> P x)"
  by (induction xs) auto

lemma mset_swap_remove:
  assumes "i < length xs"
  shows "add_mset (fst (swap_remove i xs)) (mset (snd (swap_remove i xs))) = mset xs"
proof (cases "i = length xs - 1")
  case True
  moreover from assms have "xs \<noteq> []" by auto
  ultimately have "xs \<noteq> []" "xs ! i = last xs" by (simp_all add: last_conv_nth)
  then have "mset xs = mset (butlast xs @ [last xs])" by simp
  with True \<open>xs ! i = last xs\<close> show ?thesis by (simp add: swap_remove_def list_update_beyond)
next
  case False
  with assms have i: "i < length (butlast xs)" and ne: "xs \<noteq> []" by auto
  have "mset xs = mset (butlast xs @ [last xs])" using ne by simp
  then have "mset xs = add_mset (last xs) (mset (butlast xs))" by (simp only: mset_append) simp
  moreover have "mset ((butlast xs)[i := last xs])
      = add_mset (last xs) (mset (butlast xs) - {#butlast xs ! i#})"
    by (rule mset_update [OF i])
  moreover have "butlast xs ! i = xs ! i" using i by (rule nth_butlast)
  moreover have "xs ! i \<in># mset (butlast xs)" using i \<open>butlast xs ! i = xs ! i\<close> by (metis nth_mem_mset)
  ultimately show ?thesis by (simp add: swap_remove_def)
qed

lemma map_of_cong_mset:
  assumes "distinct (map fst xs)" and "mset xs = mset ys"
  shows "map_of xs = map_of ys"
proof -
  have "distinct (map fst ys)" using assms by (metis mset_map mset_eq_imp_distinct_iff)
  moreover have "set xs = set ys" using assms(2) by (rule mset_eq_setD)
  ultimately show ?thesis using assms(1) by (intro map_of_inject_set [THEN iffD2])
qed

lemma swap_remove_alist:
  assumes "distinct (map fst xs)" and "i < length xs"
  shows "distinct (map fst (snd (swap_remove i xs)))"
    and "map_of (snd (swap_remove i xs)) = (map_of xs)(fst (xs ! i) := None)"
proof -
  let ?x = "xs ! i" and ?r = "snd (swap_remove i xs)"
  have m: "mset (?x # ?r) = mset xs"
    using mset_swap_remove [OF assms(2)] by (simp add: swap_remove_def)
  then have d: "distinct (map fst (?x # ?r))"
    using assms(1) by (metis mset_map mset_eq_imp_distinct_iff)
  then show "distinct (map fst ?r)" by simp
  have "map_of xs = map_of (?x # ?r)" using map_of_cong_mset [OF d m] by simp
  also have "\<dots> = (map_of ?r)(fst ?x \<mapsto> snd ?x)" by (cases ?x) simp
  finally have "(map_of xs)(fst ?x := None) = (map_of ?r)(fst ?x := None)" by simp
  moreover have "map_of ?r (fst ?x) = None" using d by (simp add: map_of_eq_None_iff)
  ultimately show "map_of ?r = (map_of xs)(fst ?x := None)" by (simp add: fun_upd_idem)
qed

section \<open>Bounded vectors\<close>

text \<open>
  A \<^verbatim>\<open>heapless::Vec\<close> is a third-party bounded vector. It is represented by the list of its elements, and its fallible
  operations \<^verbatim>\<open>push\<close> and \<^verbatim>\<open>from_slice\<close> are the parameter \<open>hv\<close> of the operations that use them; \<open>hvec_law\<close> is their documented
  behaviour.
\<close>

record 'a hvec_ops =
  hv_push :: "'a list \<Rightarrow> 'a \<Rightarrow> 'a list option"
  hv_from_slice :: "'a list \<Rightarrow> 'a list option"

definition hvec_law :: "nat \<Rightarrow> 'a hvec_ops \<Rightarrow> bool" where
  "hvec_law capacity hv \<longleftrightarrow>
     (\<forall>xs x. hv_push hv xs x = (if length xs < capacity then Some (xs @ [x]) else None)) \<and>
     (\<forall>xs. hv_from_slice hv xs = (if length xs \<le> capacity then Some xs else None))"

lemma hvec_lawD:
  assumes "hvec_law capacity hv"
  shows "length xs < capacity \<Longrightarrow> hv_push hv xs x = Some (xs @ [x])"
    and "length ys \<le> capacity \<Longrightarrow> hv_from_slice hv ys = Some ys"
    and "capacity < length ys \<Longrightarrow> hv_from_slice hv ys = None"
  using assms by (simp_all add: hvec_law_def)

text \<open>A concrete vector with that behaviour, at which the hypothesis is instantiated.\<close>

definition list_hvec :: "nat \<Rightarrow> 'a hvec_ops" where
  "list_hvec capacity =
     \<lparr>hv_push = (\<lambda>xs x. if length xs < capacity then Some (xs @ [x]) else None),
      hv_from_slice = (\<lambda>xs. if length xs \<le> capacity then Some xs else None)\<rparr>"

lemma list_hvec_law [simp]: "hvec_law capacity (list_hvec capacity)"
  by (simp add: hvec_law_def list_hvec_def)

section \<open>Bounded maps\<close>

text \<open>
  \<^verbatim>\<open>FnvIndexMap\<close> and \<^verbatim>\<open>LinearMap\<close> of the \<^verbatim>\<open>heapless\<close> crate, represented by the list of their entries in the order of
  iteration; insertion, which replaces the value of a key that is present and fails when the map is full, and removal are
  parameters, with \<open>index_map_law\<close> as their documented behaviour.
\<close>

record ('k, 'v) index_map =
  im_insert :: "'k \<Rightarrow> 'v \<Rightarrow> ('k \<times> 'v) list \<Rightarrow> ('k \<times> 'v) list option"
  im_remove :: "'k \<Rightarrow> ('k \<times> 'v) list \<Rightarrow> ('k \<times> 'v) list"

definition index_map_law :: "nat \<Rightarrow> ('k, 'v) index_map \<Rightarrow> bool" where
  "index_map_law capacity im \<longleftrightarrow>
     (\<forall>k v m. distinct (map fst m) \<longrightarrow>
       (case im_insert im k v m of
          None \<Rightarrow> capacity \<le> length m \<and> map_of m k = None
        | Some m' \<Rightarrow> distinct (map fst m') \<and> map_of m' = (map_of m)(k \<mapsto> v))) \<and>
     (\<forall>k m. distinct (map fst m) \<longrightarrow>
       distinct (map fst (im_remove im k m)) \<and> map_of (im_remove im k m) = (map_of m)(k := None))"

lemma index_map_lawD:
  assumes "index_map_law capacity im" and "distinct (map fst m)"
  shows "im_insert im k v m = Some m' \<Longrightarrow> distinct (map fst m') \<and> map_of m' = (map_of m)(k \<mapsto> v)"
    and "im_insert im k v m = None \<Longrightarrow> capacity \<le> length m \<and> map_of m k = None"
    and "distinct (map fst (im_remove im k m))" and "map_of (im_remove im k m) = (map_of m)(k := None)"
proof -
  have law: "case im_insert im k v m of None \<Rightarrow> capacity \<le> length m \<and> map_of m k = None
      | Some m' \<Rightarrow> distinct (map fst m') \<and> map_of m' = (map_of m)(k \<mapsto> v)"
    using assms unfolding index_map_law_def by blast
  show "im_insert im k v m = Some m' \<Longrightarrow> distinct (map fst m') \<and> map_of m' = (map_of m)(k \<mapsto> v)"
    and "im_insert im k v m = None \<Longrightarrow> capacity \<le> length m \<and> map_of m k = None"
    using law by auto
  show "distinct (map fst (im_remove im k m))" and "map_of (im_remove im k m) = (map_of m)(k := None)"
    using assms unfolding index_map_law_def by blast+
qed

text \<open>A concrete map with that behaviour.\<close>

definition list_index_map :: "nat \<Rightarrow> ('k, 'v) index_map" where
  "list_index_map capacity =
     \<lparr>im_insert = (\<lambda>k v m. if map_of m k \<noteq> None \<or> length m < capacity then Some (AList.update k v m) else None),
      im_remove = AList.delete\<rparr>"

lemma list_index_map_law [simp]: "index_map_law capacity (list_index_map capacity)"
  by (auto simp: index_map_law_def list_index_map_def distinct_update distinct_delete update_conv' delete_conv' map_of_eq_None_iff
      split: option.split)

end
