(* ===== verification/Core_Time.thy ===== *)
theory Core_Time
  imports Prelude
begin

text \<open>
  Instants and durations (canadensis\_core: \<^verbatim>\<open>time.rs\<close>, \<^verbatim>\<open>time/u48.rs\<close>): the 48-bit
  integer, the 32-, 48- and 64-bit microsecond durations and instants, and the
  \<^verbatim>\<open>Instant\<close> trait as the locale \<open>instant\<close>,
  interpreted on the three widths.

  The flag \<open>dbg\<close> of an operation is the build's \<^verbatim>\<open>debug_assertions\<close> setting: an
  arithmetic overflow panics (\<open>None\<close>) when it is set and wraps otherwise.
\<close>

section \<open>The 48-bit unsigned integer\<close>

definition U48_MASK :: u64 where
  "U48_MASK = 0x0000ffffffffffff"

datatype U48 = U48 (u48_raw: u64)

text \<open>The invariant stated at the struct: the 16 most significant bits are zero.\<close>

definition u48_wf :: "U48 \<Rightarrow> bool" where
  "u48_wf x \<longleftrightarrow> u48_raw x AND NOT U48_MASK = 0"

definition u48_MIN :: U48 where
  "u48_MIN = U48 0"

definition u48_MAX :: U48 where
  "u48_MAX = U48 U48_MASK"

definition u48_wrapping_add :: "U48 \<Rightarrow> U48 \<Rightarrow> U48" where
  "u48_wrapping_add a b = U48 ((u48_raw a + u48_raw b) AND U48_MASK)"

definition u48_wrapping_sub :: "U48 \<Rightarrow> U48 \<Rightarrow> U48" where
  "u48_wrapping_sub a b = U48 ((u48_raw a - u48_raw b) AND U48_MASK)"

definition u48_from_u8 :: "u8 \<Rightarrow> U48" where
  "u48_from_u8 small = U48 (ucast small)"

definition u48_from_u16 :: "u16 \<Rightarrow> U48" where
  "u48_from_u16 small = U48 (ucast small)"

definition u48_from_u32 :: "u32 \<Rightarrow> U48" where
  "u48_from_u32 small = U48 (ucast small)"

text \<open>The three signed conversions fail exactly on negative values.\<close>

definition u48_try_from_signed :: "'a::len word \<Rightarrow> U48 option" where
  "u48_try_from_signed small = (if sint small < 0 then None else Some (U48 (ucast small)))"

definition u48_try_from_u64 :: "u64 \<Rightarrow> invalid_value + U48" where
  "u48_try_from_u64 value =
     (if value AND NOT U48_MASK = 0 then Inr (U48 value) else Inl InvalidValue)"

definition u64_from_u48 :: "U48 \<Rightarrow> u64" where
  "u64_from_u48 small = u48_raw small"

definition u32_try_from_u48 :: "U48 \<Rightarrow> invalid_value + u32" where
  "u32_try_from_u48 value =
     (if u48_raw value AND NOT (0xffffffff :: u64) = 0 then Inr (ucast (u48_raw value))
      else Inl InvalidValue)"

text \<open>
  Checked 64-bit arithmetic of the build: with \<open>dbg\<close> an overflowing operation panics.
\<close>

definition add_u64 :: "bool \<Rightarrow> u64 \<Rightarrow> u64 \<Rightarrow> u64 option" where
  "add_u64 dbg a b = (if dbg \<and> unat a + unat b \<ge> 2 ^ 64 then None else Some (a + b))"

definition sub_u64 :: "bool \<Rightarrow> u64 \<Rightarrow> u64 \<Rightarrow> u64 option" where
  "sub_u64 dbg a b = (if dbg \<and> unat a < unat b then None else Some (a - b))"

definition mul_u64 :: "bool \<Rightarrow> u64 \<Rightarrow> u64 \<Rightarrow> u64 option" where
  "mul_u64 dbg a b = (if dbg \<and> unat a * unat b \<ge> 2 ^ 64 then None else Some (a * b))"

definition add_u32 :: "bool \<Rightarrow> u32 \<Rightarrow> u32 \<Rightarrow> u32 option" where
  "add_u32 dbg a b = (if dbg \<and> unat a + unat b \<ge> 2 ^ 32 then None else Some (a + b))"

text \<open>The common end of \<^verbatim>\<open>Add\<close>, \<^verbatim>\<open>Sub\<close> and \<^verbatim>\<open>Mul\<close>: panic or mask when a high bit is set.\<close>

definition u48_finish :: "bool \<Rightarrow> u64 \<Rightarrow> U48 option" where
  "u48_finish dbg inner =
     (if dbg then (if inner AND NOT U48_MASK \<noteq> 0 then None else Some (U48 inner))
      else Some (U48 (inner AND U48_MASK)))"

definition u48_add :: "bool \<Rightarrow> U48 \<Rightarrow> U48 \<Rightarrow> U48 option" where
  "u48_add dbg a b = Option.bind (add_u64 dbg (u48_raw a) (u48_raw b)) (u48_finish dbg)"

definition u48_sub :: "bool \<Rightarrow> U48 \<Rightarrow> U48 \<Rightarrow> U48 option" where
  "u48_sub dbg a b = Option.bind (sub_u64 dbg (u48_raw a) (u48_raw b)) (u48_finish dbg)"

definition u48_mul :: "bool \<Rightarrow> U48 \<Rightarrow> u32 \<Rightarrow> U48 option" where
  "u48_mul dbg a b = Option.bind (mul_u64 dbg (u48_raw a) (ucast b)) (u48_finish dbg)"

definition u48_div :: "U48 \<Rightarrow> u32 \<Rightarrow> U48 option" where
  "u48_div a b = (if b = 0 then None else Some (U48 (u48_raw a div ucast b)))"

definition u48_rem :: "U48 \<Rightarrow> u32 \<Rightarrow> U48 option" where
  "u48_rem a b = (if b = 0 then None else Some (U48 (u48_raw a mod ucast b)))"

text \<open>A shift by 64 or more panics with \<open>dbg\<close>; otherwise the amount is taken modulo 64.\<close>

definition u48_shr :: "bool \<Rightarrow> U48 \<Rightarrow> u32 \<Rightarrow> U48 option" where
  "u48_shr dbg a b =
     (if dbg \<and> unat b \<ge> 64 then None else Some (U48 (drop_bit (unat b mod 64) (u48_raw a))))"

subsection \<open>Values of 48-bit integers\<close>

abbreviation u48_val :: "U48 \<Rightarrow> nat" where
  "u48_val x \<equiv> unat (u48_raw x)"

lemma U48_MASK_mask: "U48_MASK = mask 48"
  by (simp add: U48_MASK_def mask_eq_exp_minus_1)

lemma u48_wf_iff: "u48_wf x \<longleftrightarrow> u48_val x < 2 ^ 48"
  unfolding u48_wf_def U48_MASK_mask by (rule and_mask_eq_0_iff_lt) simp

lemma u48_eq_iff: "x = y \<longleftrightarrow> u48_val x = u48_val y"
  by (cases x; cases y) (simp add: word_unat_eq_iff)

lemma u48_wrapping_add_val:
  "u48_val (u48_wrapping_add a b) = (u48_val a + u48_val b) mod 2 ^ 48"
  by (simp add: u48_wrapping_add_def U48_MASK_mask unat_and_mask unat_word_ariths mod_mod_cancel)

lemma u48_wrapping_sub_val:
  assumes "u48_wf b"
  shows "u48_val (u48_wrapping_sub a b) = (u48_val a + 2 ^ 48 - u48_val b) mod 2 ^ 48"
proof -
  have b: "u48_val b < 2 ^ 48" using assms by (simp add: u48_wf_iff)
  have "(u48_val a + 2 ^ 64 - u48_val b) mod 2 ^ 48
      = (u48_val a + 2 ^ 48 - u48_val b + (2 ^ 16 - 1) * 2 ^ 48) mod 2 ^ 48"
    using b by (intro arg_cong [where f = "\<lambda>x. x mod 2 ^ 48"]) simp
  also have "\<dots> = (u48_val a + 2 ^ 48 - u48_val b) mod 2 ^ 48"
    by (rule mod_mult_self1)
  finally show ?thesis
    by (simp add: u48_wrapping_sub_def U48_MASK_mask unat_and_mask unat_minus_mod mod_mod_cancel)
qed

lemma u48_finish_masked: "u48_wf (U48 (x AND U48_MASK))"
  by (simp add: u48_wf_iff U48_MASK_mask unat_and_mask)

lemma u48_finish_wf: "u48_finish dbg x = Some r \<Longrightarrow> u48_wf r"
  by (cases dbg) (auto simp: u48_finish_def u48_finish_masked simp flip: u48_wf_def [of "U48 x", simplified]
      split: if_splits)

lemma u48_MIN_wf [wf_intros]: "u48_wf u48_MIN"
  by (simp add: u48_wf_def u48_MIN_def)

lemma u48_MAX_wf [wf_intros]: "u48_wf u48_MAX"
  by (simp add: u48_wf_def u48_MAX_def)

lemma u48_wrapping_add_wf [wf_intros]: "u48_wf (u48_wrapping_add a b)"
  by (simp add: u48_wrapping_add_def u48_finish_masked)

lemma u48_wrapping_sub_wf [wf_intros]: "u48_wf (u48_wrapping_sub a b)"
  by (simp add: u48_wrapping_sub_def u48_finish_masked)

lemma u48_div_wf [wf_intros]: "u48_wf a \<Longrightarrow> u48_div a b = Some r \<Longrightarrow> u48_wf r"
  by (auto simp: u48_div_def u48_wf_iff unat_div intro: le_less_trans [OF div_le_dividend]
      split: if_splits)

lemma u48_rem_wf [wf_intros]: "u48_wf a \<Longrightarrow> u48_rem a b = Some r \<Longrightarrow> u48_wf r"
  by (auto simp: u48_rem_def u48_wf_iff unat_mod intro: le_less_trans [OF mod_less_eq_dividend]
      split: if_splits)

subsection \<open>Order\<close>

text \<open>\<^verbatim>\<open>U48\<close> derives \<^verbatim>\<open>Ord\<close>, the order of the wrapped integer.\<close>

instantiation U48 :: linorder
begin

definition less_eq_U48 :: "U48 \<Rightarrow> U48 \<Rightarrow> bool" where
  "less_eq_U48 a b \<longleftrightarrow> u48_raw a \<le> u48_raw b"

definition less_U48 :: "U48 \<Rightarrow> U48 \<Rightarrow> bool" where
  "less_U48 a b \<longleftrightarrow> u48_raw a < u48_raw b"

instance
  by standard (auto simp: less_eq_U48_def less_U48_def intro: U48.expand)

end

section \<open>Durations and instants\<close>

definition checked_mul_u32 :: "u32 \<Rightarrow> u32 \<Rightarrow> u32 option" where
  "checked_mul_u32 a b = (if unat a * unat b < 2 ^ 32 then Some (a * b) else None)"

definition checked_mul_u64 :: "u64 \<Rightarrow> u64 \<Rightarrow> u64 option" where
  "checked_mul_u64 a b = (if unat a * unat b < 2 ^ 64 then Some (a * b) else None)"

subsection \<open>32 bits\<close>

datatype MicrosecondDuration32 = MicrosecondDuration32 (dur32: u32)

definition from_millis32 :: "u32 \<Rightarrow> MicrosecondDuration32 option" where
  "from_millis32 millis = map_option MicrosecondDuration32 (checked_mul_u32 millis 1000)"

definition as_secs32 :: "MicrosecondDuration32 \<Rightarrow> u64" where
  "as_secs32 d = ucast (dur32 d div 1000000)"

definition subsec_nanos32 :: "MicrosecondDuration32 \<Rightarrow> u32" where
  "subsec_nanos32 d = (dur32 d mod 1000000) * 1000"

definition duration_add32 ::
  "bool \<Rightarrow> MicrosecondDuration32 \<Rightarrow> MicrosecondDuration32 \<Rightarrow> MicrosecondDuration32 option" where
  "duration_add32 dbg a b = map_option MicrosecondDuration32 (add_u32 dbg (dur32 a) (dur32 b))"

datatype Microseconds32 = Microseconds32 (us32: u32)

definition instant_add32 ::
  "bool \<Rightarrow> MicrosecondDuration32 \<Rightarrow> Microseconds32 \<Rightarrow> Microseconds32 option" where
  "instant_add32 dbg d i = map_option Microseconds32 (add_u32 dbg (dur32 d) (us32 i))"

definition duration_since32 :: "Microseconds32 \<Rightarrow> Microseconds32 \<Rightarrow> MicrosecondDuration32" where
  "duration_since32 self other = MicrosecondDuration32 (us32 self - us32 other)"

definition overflow_safe_compare32 :: "Microseconds32 \<Rightarrow> Microseconds32 \<Rightarrow> ordering" where
  "overflow_safe_compare32 self other =
     (let half_max = (0xffffffff :: u32) div 2 in
      if us32 self = us32 other then Equal
      else let subtract_result = us32 other - us32 self in
           if subtract_result \<le> half_max then Less else Greater)"

subsection \<open>48 bits\<close>

datatype MicrosecondDuration48 = MicrosecondDuration48 (dur48: U48)

definition from_millis48 :: "u32 \<Rightarrow> MicrosecondDuration48 option" where
  "from_millis48 millis =
     (case checked_mul_u64 (ucast millis) 1000 of
        None \<Rightarrow> None
      | Some microseconds \<Rightarrow>
          (case u48_try_from_u64 microseconds of
             Inl _ \<Rightarrow> None
           | Inr m48 \<Rightarrow> Some (MicrosecondDuration48 m48)))"

definition as_secs48 :: "MicrosecondDuration48 \<Rightarrow> u64 option" where
  "as_secs48 d = map_option u64_from_u48 (u48_div (dur48 d) 1000000)"

definition subsec_nanos48 :: "bool \<Rightarrow> MicrosecondDuration48 \<Rightarrow> u32 option" where
  "subsec_nanos48 dbg d =
     (case u48_rem (dur48 d) 1000000 of
        None \<Rightarrow> None
      | Some microseconds \<Rightarrow>
          (case u48_mul dbg microseconds 1000 of
             None \<Rightarrow> None
           | Some nanos \<Rightarrow>
               (case u32_try_from_u48 nanos of Inl _ \<Rightarrow> None | Inr n \<Rightarrow> Some n)))"

definition duration_add48 ::
  "bool \<Rightarrow> MicrosecondDuration48 \<Rightarrow> MicrosecondDuration48 \<Rightarrow> MicrosecondDuration48 option" where
  "duration_add48 dbg a b = map_option MicrosecondDuration48 (u48_add dbg (dur48 a) (dur48 b))"

datatype Microseconds48 = Microseconds48 (us48: U48)

definition instant_add48 ::
  "bool \<Rightarrow> MicrosecondDuration48 \<Rightarrow> Microseconds48 \<Rightarrow> Microseconds48 option" where
  "instant_add48 dbg d i = map_option Microseconds48 (u48_add dbg (dur48 d) (us48 i))"

definition duration_since48 :: "Microseconds48 \<Rightarrow> Microseconds48 \<Rightarrow> MicrosecondDuration48" where
  "duration_since48 self other = MicrosecondDuration48 (u48_wrapping_sub (us48 self) (us48 other))"

text \<open>\<^verbatim>\<open>U48::MAX / 2\<close> divides by the literal 2, so the division never panics.\<close>

definition overflow_safe_compare48 :: "Microseconds48 \<Rightarrow> Microseconds48 \<Rightarrow> ordering" where
  "overflow_safe_compare48 self other =
     (let half_max = U48 (u48_raw u48_MAX div 2) in
      if us48 self = us48 other then Equal
      else let subtract_result = u48_wrapping_sub (us48 other) (us48 self) in
           if subtract_result \<le> half_max then Less else Greater)"

subsection \<open>64 bits\<close>

datatype MicrosecondDuration64 = MicrosecondDuration64 (dur64: u64)

definition from_millis64 :: "u32 \<Rightarrow> MicrosecondDuration64 option" where
  "from_millis64 millis = map_option MicrosecondDuration64 (checked_mul_u64 (ucast millis) 1000)"

definition as_secs64 :: "MicrosecondDuration64 \<Rightarrow> u64" where
  "as_secs64 d = dur64 d div 1000000"

definition subsec_nanos64 :: "MicrosecondDuration64 \<Rightarrow> u32" where
  "subsec_nanos64 d = ucast ((dur64 d mod 1000000) * 1000)"

definition duration_add64 ::
  "bool \<Rightarrow> MicrosecondDuration64 \<Rightarrow> MicrosecondDuration64 \<Rightarrow> MicrosecondDuration64 option" where
  "duration_add64 dbg a b = map_option MicrosecondDuration64 (add_u64 dbg (dur64 a) (dur64 b))"

datatype Microseconds64 = Microseconds64 (us64: u64)

definition instant_add64 ::
  "bool \<Rightarrow> MicrosecondDuration64 \<Rightarrow> Microseconds64 \<Rightarrow> Microseconds64 option" where
  "instant_add64 dbg d i = map_option Microseconds64 (add_u64 dbg (dur64 d) (us64 i))"

definition duration_since64 :: "Microseconds64 \<Rightarrow> Microseconds64 \<Rightarrow> MicrosecondDuration64" where
  "duration_since64 self other = MicrosecondDuration64 (us64 self - us64 other)"

definition overflow_safe_compare64 :: "Microseconds64 \<Rightarrow> Microseconds64 \<Rightarrow> ordering" where
  "overflow_safe_compare64 self other =
     (let half_max = (0xffffffffffffffff :: u64) div 2 in
      if us64 self = us64 other then Equal
      else let subtract_result = us64 other - us64 self in
           if subtract_result \<le> half_max then Less else Greater)"

subsection \<open>Derived orders of the duration types\<close>

instantiation MicrosecondDuration32 :: linorder
begin

definition less_eq_MicrosecondDuration32 :: "MicrosecondDuration32 \<Rightarrow> MicrosecondDuration32 \<Rightarrow> bool" where
  "less_eq_MicrosecondDuration32 a b \<longleftrightarrow> dur32 a \<le> dur32 b"

definition less_MicrosecondDuration32 :: "MicrosecondDuration32 \<Rightarrow> MicrosecondDuration32 \<Rightarrow> bool" where
  "less_MicrosecondDuration32 a b \<longleftrightarrow> dur32 a < dur32 b"

instance
  by standard (auto simp: less_eq_MicrosecondDuration32_def less_MicrosecondDuration32_def intro: MicrosecondDuration32.expand)

end

instantiation MicrosecondDuration48 :: linorder
begin

definition less_eq_MicrosecondDuration48 :: "MicrosecondDuration48 \<Rightarrow> MicrosecondDuration48 \<Rightarrow> bool" where
  "less_eq_MicrosecondDuration48 a b \<longleftrightarrow> dur48 a \<le> dur48 b"

definition less_MicrosecondDuration48 :: "MicrosecondDuration48 \<Rightarrow> MicrosecondDuration48 \<Rightarrow> bool" where
  "less_MicrosecondDuration48 a b \<longleftrightarrow> dur48 a < dur48 b"

instance
  by standard (auto simp: less_eq_MicrosecondDuration48_def less_MicrosecondDuration48_def intro: MicrosecondDuration48.expand)

end

instantiation MicrosecondDuration64 :: linorder
begin

definition less_eq_MicrosecondDuration64 :: "MicrosecondDuration64 \<Rightarrow> MicrosecondDuration64 \<Rightarrow> bool" where
  "less_eq_MicrosecondDuration64 a b \<longleftrightarrow> dur64 a \<le> dur64 b"

definition less_MicrosecondDuration64 :: "MicrosecondDuration64 \<Rightarrow> MicrosecondDuration64 \<Rightarrow> bool" where
  "less_MicrosecondDuration64 a b \<longleftrightarrow> dur64 a < dur64 b"

instance
  by standard (auto simp: less_eq_MicrosecondDuration64_def less_MicrosecondDuration64_def intro: MicrosecondDuration64.expand)

end

section \<open>The Instant interface\<close>

text \<open>
  The contract of the \<^verbatim>\<open>Instant\<close> trait over its documentation: an instant reads a clock
  of \<open>2 * half\<close> ticks that may have overflowed once, \<^verbatim>\<open>duration_since\<close> is the distance
  travelled by that clock, and \<^verbatim>\<open>overflow_safe_compare\<close> compares by the shorter way
  round. \<open>valid\<close> is the representation invariant (only \<^verbatim>\<open>U48\<close> has one).
\<close>

locale instant =
  fixes duration_since :: "'i \<Rightarrow> 'i \<Rightarrow> 'd::linorder"
    and overflow_safe_compare :: "'i \<Rightarrow> 'i \<Rightarrow> ordering"
    and valid :: "'i \<Rightarrow> bool"
    and ticks :: "'i \<Rightarrow> nat"
    and dticks :: "'d \<Rightarrow> nat"
    and half :: nat
  assumes half_pos: "0 < half"
    and ticks_bound: "valid i \<Longrightarrow> ticks i < 2 * half"
    and ticks_inject: "ticks a = ticks b \<Longrightarrow> a = b"
    and dticks_less: "d < d' \<longleftrightarrow> dticks d < dticks d'"
    and since_ticks: "valid a \<Longrightarrow> valid b \<Longrightarrow>
      dticks (duration_since a b) = (ticks a + 2 * half - ticks b) mod (2 * half)"
    and compare_ticks: "valid a \<Longrightarrow> valid b \<Longrightarrow>
      overflow_safe_compare a b =
        (if ticks a = ticks b then Equal
         else if (ticks b + 2 * half - ticks a) mod (2 * half) < half then Less else Greater)"
begin

lemma since_cases:
  assumes "valid a" and "valid b"
  shows "dticks (duration_since a b) =
    (if ticks b \<le> ticks a then ticks a - ticks b else ticks a + 2 * half - ticks b)"
  using assms by (simp add: since_ticks wrap_diff ticks_bound)

lemma compare_cases:
  assumes "valid a" and "valid b"
  shows "overflow_safe_compare a b =
    (if ticks a = ticks b then Equal
     else if (if ticks a \<le> ticks b then ticks b - ticks a
              else ticks b + 2 * half - ticks a) < half then Less else Greater)"
  using assms by (simp add: compare_ticks wrap_diff ticks_bound)

lemma since_self: "valid a \<Longrightarrow> dticks (duration_since a a) = 0"
  by (simp add: since_cases)

lemma since_bound: "valid a \<Longrightarrow> valid b \<Longrightarrow> dticks (duration_since a b) < 2 * half"
  using half_pos by (simp add: since_ticks)

text \<open>The elapsed time is measured correctly when the clock has overflowed at most once.\<close>

lemma since_elapsed:
  assumes "valid a" and "valid b" and "k < 2 * half" and "ticks b = (ticks a + k) mod (2 * half)"
  shows "dticks (duration_since b a) = k"
  using assms ticks_bound [OF assms(1)] ticks_bound [OF assms(2)]
  by (auto simp: since_cases wrap_add split: if_splits)

text \<open>An instant less than half the range after another is later, overflow or not.\<close>

lemma compare_elapsed:
  assumes "valid a" and "valid b" and "0 < k" and "k < half"
    and "ticks b = (ticks a + k) mod (2 * half)"
  shows "overflow_safe_compare a b = Less" and "overflow_safe_compare b a = Greater"
  using assms ticks_bound [OF assms(1)] ticks_bound [OF assms(2)]
  by (auto simp: compare_cases wrap_add split: if_splits)

lemma compare_equal_iff:
  "valid a \<Longrightarrow> valid b \<Longrightarrow> overflow_safe_compare a b = Equal \<longleftrightarrow> a = b"
  by (auto simp: compare_cases dest: ticks_inject)

text \<open>At exactly half the range the order is ambiguous: each side is later than the other.\<close>

lemma compare_antipodal:
  assumes "valid a" and "valid b" and "ticks b = (ticks a + half) mod (2 * half)"
  shows "overflow_safe_compare a b = Greater" and "overflow_safe_compare b a = Greater"
  using assms ticks_bound [OF assms(1)] ticks_bound [OF assms(2)] half_pos
  by (auto simp: compare_cases wrap_add split: if_splits)

lemma compare_less_iff:
  assumes "valid a" and "valid b"
  shows "overflow_safe_compare a b = Less \<longleftrightarrow>
    0 < dticks (duration_since b a) \<and> dticks (duration_since b a) < half"
  using assms ticks_bound [OF assms(1)] ticks_bound [OF assms(2)]
  by (auto simp: compare_cases since_cases split: if_splits)

lemma compare_asym:
  "valid a \<Longrightarrow> valid b \<Longrightarrow> overflow_safe_compare a b = Less \<Longrightarrow> overflow_safe_compare b a = Greater"
  using ticks_bound [of a] ticks_bound [of b]
  by (auto simp: compare_cases split: if_splits)

end

lemma word_le_half_iff:
  fixes x y :: "'a::len word"
  assumes "Suc (unat y) = h"
  shows "x \<le> y \<longleftrightarrow> unat x < h"
  using assms by (auto simp: word_le_nat_alt)

interpretation us32: instant duration_since32 overflow_safe_compare32 "\<lambda>_. True"
  "\<lambda>i. unat (us32 i)" "\<lambda>d. unat (dur32 d)" "2 ^ 31"
proof unfold_locales
  fix a b :: Microseconds32
  have h: "x \<le> 0x7fffffff \<longleftrightarrow> unat x < 2 ^ 31" for x :: u32
    by (rule word_le_half_iff) simp
  show "overflow_safe_compare32 a b =
      (if unat (us32 a) = unat (us32 b) then Equal
       else if (unat (us32 b) + 2 * 2 ^ 31 - unat (us32 a)) mod (2 * 2 ^ 31) < 2 ^ 31
            then Less else Greater)"
    by (simp add: overflow_safe_compare32_def word_unat_eq_iff [of "us32 a"] h unat_minus_mod)
qed (auto simp: duration_since32_def unat_minus_mod less_MicrosecondDuration32_def word_less_nat_alt
      word_unat_eq_iff
      intro!: Microseconds32.expand intro: order.strict_trans2 [OF unsigned_less])

interpretation us64: instant duration_since64 overflow_safe_compare64 "\<lambda>_. True"
  "\<lambda>i. unat (us64 i)" "\<lambda>d. unat (dur64 d)" "2 ^ 63"
proof unfold_locales
  fix a b :: Microseconds64
  have h: "x \<le> 0x7fffffffffffffff \<longleftrightarrow> unat x < 2 ^ 63" for x :: u64
    by (rule word_le_half_iff) simp
  show "overflow_safe_compare64 a b =
      (if unat (us64 a) = unat (us64 b) then Equal
       else if (unat (us64 b) + 2 * 2 ^ 63 - unat (us64 a)) mod (2 * 2 ^ 63) < 2 ^ 63
            then Less else Greater)"
    by (simp add: overflow_safe_compare64_def word_unat_eq_iff [of "us64 a"] h unat_minus_mod)
qed (auto simp: duration_since64_def unat_minus_mod less_MicrosecondDuration64_def word_less_nat_alt
      word_unat_eq_iff
      intro!: Microseconds64.expand intro: order.strict_trans2 [OF unsigned_less])

interpretation us48: instant duration_since48 overflow_safe_compare48 "\<lambda>i. u48_wf (us48 i)"
  "\<lambda>i. u48_val (us48 i)" "\<lambda>d. u48_val (dur48 d)" "2 ^ 47"
proof unfold_locales
  fix a b :: Microseconds48
  assume wf: "u48_wf (us48 a)" "u48_wf (us48 b)"
  have h: "x \<le> U48 0x7fffffffffff \<longleftrightarrow> u48_val x < 2 ^ 47" for x
    by (simp add: less_eq_U48_def word_le_half_iff [where h = "2 ^ 47"])
  show "overflow_safe_compare48 a b =
      (if u48_val (us48 a) = u48_val (us48 b) then Equal
       else if (u48_val (us48 b) + 2 * 2 ^ 47 - u48_val (us48 a)) mod (2 * 2 ^ 47) < 2 ^ 47
            then Less else Greater)"
    using wf
    by (simp add: overflow_safe_compare48_def u48_eq_iff [of "us48 a"] u48_MAX_def U48_MASK_def h
        u48_wrapping_sub_val)
qed (auto simp: duration_since48_def u48_wrapping_sub_val less_MicrosecondDuration48_def less_U48_def
      word_less_nat_alt u48_wf_iff u48_eq_iff intro!: Microseconds48.expand)

section \<open>Arithmetic of durations\<close>

lemma u48_finish_small:
  assumes "unat x < 2 ^ 48"
  shows "u48_finish dbg x = Some (U48 x)"
proof -
  have high: "x AND NOT U48_MASK = 0"
    unfolding U48_MASK_mask using assms by (subst and_mask_eq_0_iff_lt) simp_all
  have "x AND U48_MASK = x"
    using assms by (simp add: word_unat_eq_iff U48_MASK_mask unat_and_mask)
  with high show ?thesis by (simp add: u48_finish_def)
qed

lemma u48_finish_large: "2 ^ 48 \<le> unat x \<Longrightarrow> u48_finish True x = None"
  unfolding u48_finish_def U48_MASK_mask by (simp add: and_mask_eq_0_iff_lt not_less)

lemma u48_add_raw:
  assumes "u48_wf a" and "u48_wf b"
  shows "add_u64 dbg (u48_raw a) (u48_raw b) = Some (u48_raw a + u48_raw b)"
    and "unat (u48_raw a + u48_raw b) = u48_val a + u48_val b"
  using assms by (auto simp: add_u64_def u48_wf_iff unat_word_ariths)

lemma u48_add_release:
  "u48_wf a \<Longrightarrow> u48_wf b \<Longrightarrow> u48_add False a b = Some (u48_wrapping_add a b)"
  by (simp add: u48_add_def u48_add_raw u48_finish_def u48_wrapping_add_def)

lemma u48_add_debug:
  "u48_wf a \<Longrightarrow> u48_wf b \<Longrightarrow>
   u48_add True a b = (if u48_val a + u48_val b < 2 ^ 48 then Some (u48_wrapping_add a b) else None)"
  by (auto simp: u48_add_def u48_add_raw u48_finish_small u48_finish_large not_less u48_eq_iff
      u48_wrapping_add_val)

lemma u48_wrapping_add_sub:
  assumes "u48_wf d" and "u48_wf i"
  shows "u48_wrapping_sub (u48_wrapping_add d i) i = d"
  using assms
  by (auto simp: u48_eq_iff u48_wrapping_sub_val u48_wrapping_add_val u48_wf_iff wrap_add wrap_diff
      split: if_splits)

text \<open>
  A deadline is computed as duration plus instant. In a release build the sum wraps
  with the clock, and measuring back from the deadline gives the duration; in a debug
  build the same sum panics exactly when the clock would overflow before the deadline.
\<close>

lemma deadline48_roundtrip:
  assumes "u48_wf (dur48 d)" and "u48_wf (us48 i)"
  shows "(\<exists>j. instant_add48 False d i = Some j \<and> u48_wf (us48 j) \<and> duration_since48 j i = d)
    \<and> (instant_add48 True d i = None \<longleftrightarrow> 2 ^ 48 \<le> u48_val (dur48 d) + u48_val (us48 i))"
proof
  show "\<exists>j. instant_add48 False d i = Some j \<and> u48_wf (us48 j) \<and> duration_since48 j i = d"
    using assms u48_wrapping_add_wf [of "dur48 d" "us48 i"]
    by (simp add: instant_add48_def duration_since48_def u48_add_release u48_wrapping_add_sub)
  show "instant_add48 True d i = None \<longleftrightarrow> 2 ^ 48 \<le> u48_val (dur48 d) + u48_val (us48 i)"
    using assms by (simp add: instant_add48_def u48_add_debug not_less)
qed

text \<open>
  C17: What comparing 48-bit instants and measuring between them give for every pair, also across an overflow of the clock.
  If \<open>b\<close> lies \<open>k\<close> microseconds after \<open>a\<close> on the clock, the duration from \<open>a\<close> to \<open>b\<close> is \<open>k\<close>. Comparing \<open>a\<close> with \<open>b\<close> gives Equal for \<open>k = 0\<close>, Less for
  \<open>k\<close> below half the range, and Greater otherwise; comparing \<open>b\<close> with \<open>a\<close> gives the opposite, except at exactly half the
  range, where both comparisons give Greater. This is the order in time, and not what the documentation of
  the trait asks for: where the other instant is larger by at most half the maximum, the documentation asks for Greater, and the
  code returns Less.
\<close>

theorem compare48_across_overflow:
  assumes "u48_wf (us48 a)" and "u48_wf (us48 b)" and "k < 2 ^ 48"
    and "u48_val (us48 b) = (u48_val (us48 a) + k) mod 2 ^ 48"
  shows "u48_val (dur48 (duration_since48 b a)) = k
    \<and> overflow_safe_compare48 a b = (if k = 0 then Equal else if k < 2 ^ 47 then Less else Greater)
    \<and> overflow_safe_compare48 b a = (if k = 0 then Equal else if k \<le> 2 ^ 47 then Greater else Less)
    \<and> (u48_val (us48 a) < u48_val (us48 b) \<and> u48_val (us48 b) - u48_val (us48 a) \<le> (2 ^ 48 - 1) div 2 \<longrightarrow>
       overflow_safe_compare48 a b = Less)"
proof -
  have bounds: "u48_val (us48 a) < 2 ^ 48" "u48_val (us48 b) < 2 ^ 48" using assms(1,2) by (simp_all add: u48_wf_iff)
  have "u48_val (dur48 (duration_since48 b a)) = k" using us48.since_elapsed [of a b k] assms by simp
  moreover have "overflow_safe_compare48 a b = (if k = 0 then Equal else if k < 2 ^ 47 then Less else Greater)"
    and "overflow_safe_compare48 b a = (if k = 0 then Equal else if k \<le> 2 ^ 47 then Greater else Less)"
    using assms bounds by (auto simp: us48.compare_cases wrap_add split: if_splits)
  moreover have "u48_val (us48 a) < u48_val (us48 b) \<and> u48_val (us48 b) - u48_val (us48 a) \<le> (2 ^ 48 - 1) div 2 \<longrightarrow>
      overflow_safe_compare48 a b = Less"
    using assms(1,2) by (auto simp: us48.compare_cases)
  ultimately show ?thesis by blast
qed

theorem compare48_across_overflow_witness:
  "overflow_safe_compare48 (Microseconds48 (U48 0xfffffffffffe)) (Microseconds48 (U48 3)) = Less \<and>
   overflow_safe_compare48 (Microseconds48 (U48 3)) (Microseconds48 (U48 0xfffffffffffe)) = Greater \<and>
   u48_val (dur48 (duration_since48 (Microseconds48 (U48 3)) (Microseconds48 (U48 0xfffffffffffe)))) = 5"
proof -
  have wf: "u48_wf (U48 0xfffffffffffe)" "u48_wf (U48 3)" by (simp_all add: u48_wf_iff)
  then show ?thesis
    using compare48_across_overflow
      [of "Microseconds48 (U48 0xfffffffffffe)" "Microseconds48 (U48 3)" 5]
    by simp
qed

text \<open>
  When the other instant is numerically larger by at most half the maximum value, the comparison returns
  Less. (The documentation of the trait asks for Greater in this case.)
\<close>

lemma compare32_larger_other_is_less:
  assumes "us32 self < us32 other" and "unat (us32 other) - unat (us32 self) \<le> (2 ^ 32 - 1) div 2"
  shows "overflow_safe_compare32 self other = Less"
  using assms by (auto simp: us32.compare_cases word_less_nat_alt)

text \<open>
  The seconds and nanoseconds of a 48-bit duration are computed without a panic and
  together give back the duration exactly.
\<close>

lemma secs_and_nanos48:
  assumes "u48_wf (dur48 d)"
  shows "\<exists>s n. as_secs48 d = Some s \<and> subsec_nanos48 dbg d = Some n \<and> unat n < 10 ^ 9
    \<and> unat s * 10 ^ 9 + unat n = u48_val (dur48 d) * 1000"
proof -
  let ?v = "u48_val (dur48 d)"
  let ?r = "u48_raw (dur48 d) mod 1000000"
  have r: "unat ?r = ?v mod 1000000" by (simp add: unat_mod)
  have bound: "?v mod 1000000 < 1000000" by simp
  have m: "unat (?r * 1000) = (?v mod 1000000) * 1000"
    using r bound by (subst unat_mult_lem [THEN iffD1]) simp_all
  have small: "unat (?r * 1000) < 10 ^ 9" using m bound by simp
  have "unat ?r * 1000 < 1000000 * 1000" using r bound by linarith
  then have "\<not> 2 ^ 64 \<le> unat ?r * 1000" by simp
  then have "mul_u64 dbg ?r (ucast (1000 :: u32)) = Some (?r * 1000)"
    by (simp add: mul_u64_def)
  then have mul: "u48_mul dbg (U48 ?r) 1000 = Some (U48 (?r * 1000))"
    using small by (simp add: u48_mul_def u48_finish_small)
  have "(0xffffffff :: u64) = mask 32" by (simp add: mask_eq_exp_minus_1)
  then have "u32_try_from_u48 (U48 (?r * 1000)) = Inr (ucast (?r * 1000))"
    using small and_mask_eq_0_iff_lt [of 32 "?r * 1000"] by (simp add: u32_try_from_u48_def)
  then have nanos: "subsec_nanos48 dbg d = Some (ucast (?r * 1000))"
    using mul by (simp add: subsec_nanos48_def u48_rem_def)
  have n: "unat (ucast (?r * 1000) :: u32) = (?v mod 1000000) * 1000"
    using small m by (simp only: unsigned_ucast_eq) (simp add: take_bit_nat_eq_self)
  have secs: "as_secs48 d = Some (u48_raw (dur48 d) div 1000000)"
    by (simp add: as_secs48_def u48_div_def u64_from_u48_def)
  have "?v = ?v div 1000000 * 1000000 + ?v mod 1000000" by (rule div_mult_mod_eq [symmetric])
  then have "?v div 1000000 * 1000000000 + (?v mod 1000000) * 1000 = ?v * 1000" by linarith
  moreover have "unat (u48_raw (dur48 d) div 1000000) = ?v div 1000000" by (simp add: unat_div)
  ultimately show ?thesis
    using nanos secs n bound by (intro exI conjI) (assumption, assumption, simp_all)
qed

end
