(* ===== verification/Core_Ids.thy ===== *)
theory Core_Ids
  imports Prelude
begin

text \<open>
  Port identifiers and priorities (canadensis\_core: \<^verbatim>\<open>lib.rs\<close>): \<^verbatim>\<open>SubjectId\<close>, \<^verbatim>\<open>ServiceId\<close>,
  \<^verbatim>\<open>PortId\<close> and \<^verbatim>\<open>Priority\<close> with their conversions, their range invariants and the
  derived order of priorities.
\<close>

section \<open>Subject identifiers\<close>

datatype SubjectId = SubjectId (subject_bits: u16)

definition VALID_SUBJECT_IDS_end :: u16 where
  "VALID_SUBJECT_IDS_end = 8191"

definition subject_wf :: "SubjectId \<Rightarrow> bool" where
  "subject_wf s \<longleftrightarrow> subject_bits s \<le> VALID_SUBJECT_IDS_end"

definition subject_from_truncating :: "u16 \<Rightarrow> SubjectId" where
  "subject_from_truncating value = SubjectId (value AND VALID_SUBJECT_IDS_end)"

definition subject_try_from :: "u16 \<Rightarrow> invalid_value + SubjectId" where
  "subject_try_from value =
     (if value \<le> VALID_SUBJECT_IDS_end then Inr (SubjectId value) else Inl InvalidValue)"

text \<open>
  \<^verbatim>\<open>str::parse::<u16>\<close>: an optional plus sign, then at least one decimal digit, with the
  accumulator checked against the 16-bit range after every digit.
\<close>

fun parse_digits :: "nat \<Rightarrow> string \<Rightarrow> nat option" where
  "parse_digits acc [] = Some acc"
| "parse_digits acc (c # cs) =
     (let d = of_char c :: nat in
      if 48 \<le> d \<and> d \<le> 57 then
        (let acc' = acc * 10 + (d - 48) in
         if acc' < 2 ^ 16 then parse_digits acc' cs else None)
      else None)"

definition parse_u16 :: "string \<Rightarrow> u16 option" where
  "parse_u16 s =
     (let digits = (case s of c # cs \<Rightarrow> if c = CHR ''+'' then cs else s | [] \<Rightarrow> s) in
      if digits = [] then None else map_option of_nat (parse_digits 0 digits))"

definition subject_from_str :: "string \<Rightarrow> invalid_value + SubjectId" where
  "subject_from_str s =
     (case parse_u16 s of None \<Rightarrow> Inl InvalidValue | Some value \<Rightarrow> subject_try_from value)"

section \<open>Service identifiers\<close>

datatype ServiceId = ServiceId (service_bits: u16)

definition VALID_SERVICE_IDS_end :: u16 where
  "VALID_SERVICE_IDS_end = 511"

definition service_wf :: "ServiceId \<Rightarrow> bool" where
  "service_wf s \<longleftrightarrow> service_bits s \<le> VALID_SERVICE_IDS_end"

definition service_from_truncating :: "u16 \<Rightarrow> ServiceId" where
  "service_from_truncating value = ServiceId (value AND VALID_SERVICE_IDS_end)"

definition service_try_from :: "u16 \<Rightarrow> invalid_value + ServiceId" where
  "service_try_from value =
     (if value \<le> VALID_SERVICE_IDS_end then Inr (ServiceId value) else Inl InvalidValue)"

section \<open>Port identifiers\<close>

datatype PortId = PortId (port_bits: u16)

definition port_from_subject :: "SubjectId \<Rightarrow> PortId" where
  "port_from_subject subject = PortId (subject_bits subject)"

definition subject_try_from_port :: "PortId \<Rightarrow> invalid_value + SubjectId" where
  "subject_try_from_port port = subject_try_from (port_bits port)"

definition port_from_service :: "ServiceId \<Rightarrow> PortId" where
  "port_from_service service = PortId (service_bits service)"

definition service_try_from_port :: "PortId \<Rightarrow> invalid_value + ServiceId" where
  "service_try_from_port port = service_try_from (port_bits port)"

section \<open>Priorities\<close>

datatype Priority = Exceptional | Immediate | Fast | High | Nominal | Low | Slow | Optional

definition priority_default :: Priority where
  "priority_default = Nominal"

fun u8_from_priority :: "Priority \<Rightarrow> u8" where
  "u8_from_priority Exceptional = 0"
| "u8_from_priority Immediate = 1"
| "u8_from_priority Fast = 2"
| "u8_from_priority High = 3"
| "u8_from_priority Nominal = 4"
| "u8_from_priority Low = 5"
| "u8_from_priority Slow = 6"
| "u8_from_priority Optional = 7"

definition priority_try_from :: "u8 \<Rightarrow> invalid_value + Priority" where
  "priority_try_from value =
     (if value = 0 then Inr Exceptional
      else if value = 1 then Inr Immediate
      else if value = 2 then Inr Fast
      else if value = 3 then Inr High
      else if value = 4 then Inr Nominal
      else if value = 5 then Inr Low
      else if value = 6 then Inr Slow
      else if value = 7 then Inr Optional
      else Inl InvalidValue)"

text \<open>\<^verbatim>\<open>Priority\<close> derives \<^verbatim>\<open>Ord\<close>: the order of the discriminants.\<close>

lemma u8_from_priority_inject: "u8_from_priority a = u8_from_priority b \<longleftrightarrow> a = b"
  by (cases a; cases b) simp_all

instantiation Priority :: linorder
begin

definition less_eq_Priority :: "Priority \<Rightarrow> Priority \<Rightarrow> bool" where
  "less_eq_Priority a b \<longleftrightarrow> u8_from_priority a \<le> u8_from_priority b"

definition less_Priority :: "Priority \<Rightarrow> Priority \<Rightarrow> bool" where
  "less_Priority a b \<longleftrightarrow> u8_from_priority a < u8_from_priority b"

instance
  by standard (auto simp: less_eq_Priority_def less_Priority_def u8_from_priority_inject
      dest: order.antisym)

end

section \<open>Ranges and round trips\<close>

lemma subject_from_truncating_wf [wf_intros]: "subject_wf (subject_from_truncating v)"
  by (simp add: subject_wf_def subject_from_truncating_def word_and_le1)

lemma service_from_truncating_wf [wf_intros]: "service_wf (service_from_truncating v)"
  by (simp add: service_wf_def service_from_truncating_def word_and_le1)

lemma subject_try_from_wf: "subject_try_from v = Inr s \<Longrightarrow> subject_wf s \<and> subject_bits s = v"
  by (auto simp: subject_try_from_def subject_wf_def split: if_splits)

lemma service_try_from_wf: "service_try_from v = Inr s \<Longrightarrow> service_wf s \<and> service_bits s = v"
  by (auto simp: service_try_from_def service_wf_def split: if_splits)

lemma subject_port_roundtrip [simp]:
  "subject_wf s \<Longrightarrow> subject_try_from_port (port_from_subject s) = Inr s"
  by (cases s) (simp add: subject_try_from_port_def port_from_subject_def subject_try_from_def
      subject_wf_def)

lemma service_port_roundtrip [simp]:
  "service_wf s \<Longrightarrow> service_try_from_port (port_from_service s) = Inr s"
  by (cases s) (simp add: service_try_from_port_def port_from_service_def service_try_from_def
      service_wf_def)

lemma port_from_subject_inject [simp]: "port_from_subject a = port_from_subject b \<longleftrightarrow> a = b"
  by (cases a; cases b) (simp add: port_from_subject_def)

lemma port_from_service_inject [simp]: "port_from_service a = port_from_service b \<longleftrightarrow> a = b"
  by (cases a; cases b) (simp add: port_from_service_def)

lemma priority_roundtrip [simp]: "priority_try_from (u8_from_priority p) = Inr p"
  by (cases p) (simp_all add: priority_try_from_def)

lemma u8_from_priority_lt: "u8_from_priority p < 8"
  by (cases p) simp_all

lemma priority_try_from_total:
  assumes "v < 8"
  shows "\<exists>p. priority_try_from v = Inr p"
proof -
  have "unat v < 8" using assms by (simp add: word_less_nat_alt)
  then have "unat v \<in> {0,1,2,3,4,5,6,7}" by auto
  then have "v \<in> {0,1,2,3,4,5,6,7}" by (auto simp: word_unat_eq_iff)
  then show ?thesis by (auto simp: priority_try_from_def)
qed

end
