(* ===== verification/Core_Transfer.thy ===== *)
theory Core_Transfer
  imports Core_Ids
begin

text \<open>
  Transfer headers and transfers (canadensis\_core: \<^verbatim>\<open>transfer.rs\<close>, \<^verbatim>\<open>error.rs\<close>). The types
  are generic in the instant \<open>'i\<close> and in the three associated types of a transport: its
  transfer identifiers \<open>'t\<close>, priorities \<open>'p\<close> and node identifiers \<open>'n\<close>. The derived
  equality and \<^verbatim>\<open>Clone\<close> implementations are HOL equality and identity.
\<close>

datatype 'e ServiceSubscribeError = Anonymous | Transport 'e

record ('i, 't, 'p, 'n) MessageHeader =
  mh_timestamp :: 'i
  mh_transfer_id :: 't
  mh_priority :: 'p
  mh_subject :: SubjectId
  mh_source :: "'n option"

record ('i, 't, 'p, 'n) ServiceHeader =
  sh_timestamp :: 'i
  sh_transfer_id :: 't
  sh_priority :: 'p
  sh_service :: ServiceId
  sh_source :: 'n
  sh_destination :: 'n

datatype ('i, 't, 'p, 'n) Header =
  Message "('i, 't, 'p, 'n) MessageHeader"
| Request "('i, 't, 'p, 'n) ServiceHeader"
| Response "('i, 't, 'p, 'n) ServiceHeader"

fun header_timestamp :: "('i, 't, 'p, 'n) Header \<Rightarrow> 'i" where
  "header_timestamp (Message m) = mh_timestamp m"
| "header_timestamp (Request s) = sh_timestamp s"
| "header_timestamp (Response s) = sh_timestamp s"

fun set_timestamp :: "'i \<Rightarrow> ('i, 't, 'p, 'n) Header \<Rightarrow> ('i, 't, 'p, 'n) Header" where
  "set_timestamp timestamp (Message m) = Message (m\<lparr>mh_timestamp := timestamp\<rparr>)"
| "set_timestamp timestamp (Request s) = Request (s\<lparr>sh_timestamp := timestamp\<rparr>)"
| "set_timestamp timestamp (Response s) = Response (s\<lparr>sh_timestamp := timestamp\<rparr>)"

fun header_priority :: "('i, 't, 'p, 'n) Header \<Rightarrow> 'p" where
  "header_priority (Message m) = mh_priority m"
| "header_priority (Request s) = sh_priority s"
| "header_priority (Response s) = sh_priority s"

fun set_priority :: "'p \<Rightarrow> ('i, 't, 'p, 'n) Header \<Rightarrow> ('i, 't, 'p, 'n) Header" where
  "set_priority priority (Message m) = Message (m\<lparr>mh_priority := priority\<rparr>)"
| "set_priority priority (Request s) = Request (s\<lparr>sh_priority := priority\<rparr>)"
| "set_priority priority (Response s) = Response (s\<lparr>sh_priority := priority\<rparr>)"

fun header_source :: "('i, 't, 'p, 'n) Header \<Rightarrow> 'n option" where
  "header_source (Message m) = mh_source m"
| "header_source (Request s) = Some (sh_source s)"
| "header_source (Response s) = Some (sh_source s)"

fun header_port_id :: "('i, 't, 'p, 'n) Header \<Rightarrow> PortId" where
  "header_port_id (Message m) = port_from_subject (mh_subject m)"
| "header_port_id (Request s) = port_from_service (sh_service s)"
| "header_port_id (Response s) = port_from_service (sh_service s)"

fun header_transfer_id :: "('i, 't, 'p, 'n) Header \<Rightarrow> 't" where
  "header_transfer_id (Message m) = mh_transfer_id m"
| "header_transfer_id (Request s) = sh_transfer_id s"
| "header_transfer_id (Response s) = sh_transfer_id s"

record ('a, 'i, 't, 'p, 'n) Transfer =
  tr_header :: "('i, 't, 'p, 'n) Header"
  tr_payload :: 'a

section \<open>Well-formed headers and the effect of the setters\<close>

text \<open>The subject or service identifier of a header is within its documented range.\<close>

fun header_port_wf :: "('i, 't, 'p, 'n) Header \<Rightarrow> bool" where
  "header_port_wf (Message m) = subject_wf (mh_subject m)"
| "header_port_wf (Request s) = service_wf (sh_service s)"
| "header_port_wf (Response s) = service_wf (sh_service s)"

lemma set_timestamp_fields [simp]:
  "header_timestamp (set_timestamp i h) = i"
  "header_priority (set_timestamp i h) = header_priority h"
  "header_source (set_timestamp i h) = header_source h"
  "header_port_id (set_timestamp i h) = header_port_id h"
  "header_transfer_id (set_timestamp i h) = header_transfer_id h"
  "header_port_wf (set_timestamp i h) = header_port_wf h"
  by (cases h; simp)+

lemma set_priority_fields [simp]:
  "header_priority (set_priority p h) = p"
  "header_timestamp (set_priority p h) = header_timestamp h"
  "header_source (set_priority p h) = header_source h"
  "header_port_id (set_priority p h) = header_port_id h"
  "header_transfer_id (set_priority p h) = header_transfer_id h"
  by (cases h; simp)+

lemma set_timestamp_same [simp]: "set_timestamp (header_timestamp h) h = h"
  by (cases h) simp_all

lemma set_timestamp_twice [simp]: "set_timestamp i (set_timestamp j h) = set_timestamp i h"
  by (cases h) simp_all

end
