(* ===== verification/Core_Subscription.thy ===== *)
theory Core_Subscription
  imports Core_Transfer
begin

text \<open>
  Subscription management (canadensis\_core: \<^verbatim>\<open>subscription.rs\<close>): the
  \<^verbatim>\<open>DynamicSubscriptionManager\<close> with its three association vectors, the trait
  \<^verbatim>\<open>SubscriptionManager\<close> as the locale \<open>port_subscriptions\<close> of one kind of port, and its
  interpretations for messages, requests and responses.

  The growth of a vector by \<^verbatim>\<open>try_push\<close> can fail; whether it does is the argument \<open>mem\<close>.
\<close>

datatype Subscription =
  SubMessage SubjectId
| SubRequest ServiceId
| SubResponse ServiceId

section \<open>One association vector\<close>

definition try_push :: "bool \<Rightarrow> 'a list \<Rightarrow> 'a \<Rightarrow> (out_of_memory_error + unit) \<times> 'a list" where
  "try_push mem xs x = (if mem then (Inr (), xs @ [x]) else (Inl OutOfMemoryError, xs))"

definition vec_unsubscribe :: "'k \<Rightarrow> ('k \<times> 's) list \<Rightarrow> 's option \<times> ('k \<times> 's) list" where
  "vec_unsubscribe port subs =
     (case position (\<lambda>(stored, _). stored = port) subs of
        Some index \<Rightarrow> (let ((_, subscription), rest) = swap_remove index subs in (Some subscription, rest))
      | None \<Rightarrow> (None, subs))"

definition vec_subscribe ::
  "bool \<Rightarrow> 'k \<Rightarrow> 's \<Rightarrow> ('k \<times> 's) list \<Rightarrow> (out_of_memory_error + unit) \<times> ('k \<times> 's) list" where
  "vec_subscribe mem port subscription subs =
     (let (_, subs) = vec_unsubscribe port subs in try_push mem subs (port, subscription))"

definition vec_find :: "'k \<Rightarrow> ('k \<times> 's) list \<Rightarrow> 's option" where
  "vec_find port subs = map_option snd (find (\<lambda>(stored, _). stored = port) subs)"

text \<open>A mutable reference to the first matching subscription, used to replace it by \<open>f\<close> of it.\<close>

fun vec_modify :: "'k \<Rightarrow> ('s \<Rightarrow> 's) \<Rightarrow> ('k \<times> 's) list \<Rightarrow> ('k \<times> 's) list" where
  "vec_modify port f [] = []"
| "vec_modify port f ((stored, s) # subs) =
     (if stored = port then (stored, f s) # subs else (stored, s) # vec_modify port f subs)"

definition vec_for_each :: "('s \<Rightarrow> 's) \<Rightarrow> ('k \<times> 's) list \<Rightarrow> ('k \<times> 's) list" where
  "vec_for_each operation subs = map (\<lambda>(port, s). (port, operation s)) subs"

section \<open>The manager\<close>

record 's DynamicSubscriptionManager =
  message_subscriptions :: "(SubjectId \<times> 's) list"
  request_subscriptions :: "(ServiceId \<times> 's) list"
  response_subscriptions :: "(ServiceId \<times> 's) list"

definition subscription_manager_default :: "'s DynamicSubscriptionManager" where
  "subscription_manager_default =
     \<lparr>message_subscriptions = [], request_subscriptions = [], response_subscriptions = []\<rparr>"

definition subscribe_message ::
  "bool \<Rightarrow> SubjectId \<Rightarrow> 's \<Rightarrow> 's DynamicSubscriptionManager
   \<Rightarrow> (out_of_memory_error + unit) \<times> 's DynamicSubscriptionManager" where
  "subscribe_message mem subject subscription m =
     (let (r, v) = vec_subscribe mem subject subscription (message_subscriptions m) in
      (r, m\<lparr>message_subscriptions := v\<rparr>))"

definition unsubscribe_message ::
  "SubjectId \<Rightarrow> 's DynamicSubscriptionManager \<Rightarrow> 's option \<times> 's DynamicSubscriptionManager" where
  "unsubscribe_message subject m =
     (let (r, v) = vec_unsubscribe subject (message_subscriptions m) in
      (r, m\<lparr>message_subscriptions := v\<rparr>))"

definition subscribe_request ::
  "bool \<Rightarrow> ServiceId \<Rightarrow> 's \<Rightarrow> 's DynamicSubscriptionManager
   \<Rightarrow> (out_of_memory_error + unit) \<times> 's DynamicSubscriptionManager" where
  "subscribe_request mem service subscription m =
     (let (r, v) = vec_subscribe mem service subscription (request_subscriptions m) in
      (r, m\<lparr>request_subscriptions := v\<rparr>))"

definition unsubscribe_request ::
  "ServiceId \<Rightarrow> 's DynamicSubscriptionManager \<Rightarrow> 's option \<times> 's DynamicSubscriptionManager" where
  "unsubscribe_request service m =
     (let (r, v) = vec_unsubscribe service (request_subscriptions m) in
      (r, m\<lparr>request_subscriptions := v\<rparr>))"

definition subscribe_response ::
  "bool \<Rightarrow> ServiceId \<Rightarrow> 's \<Rightarrow> 's DynamicSubscriptionManager
   \<Rightarrow> (out_of_memory_error + unit) \<times> 's DynamicSubscriptionManager" where
  "subscribe_response mem service subscription m =
     (let (r, v) = vec_subscribe mem service subscription (response_subscriptions m) in
      (r, m\<lparr>response_subscriptions := v\<rparr>))"

definition unsubscribe_response ::
  "ServiceId \<Rightarrow> 's DynamicSubscriptionManager \<Rightarrow> 's option \<times> 's DynamicSubscriptionManager" where
  "unsubscribe_response service m =
     (let (r, v) = vec_unsubscribe service (response_subscriptions m) in
      (r, m\<lparr>response_subscriptions := v\<rparr>))"

definition find_message_subscription :: "SubjectId \<Rightarrow> 's DynamicSubscriptionManager \<Rightarrow> 's option" where
  "find_message_subscription subject m = vec_find subject (message_subscriptions m)"

definition find_request_subscription :: "ServiceId \<Rightarrow> 's DynamicSubscriptionManager \<Rightarrow> 's option" where
  "find_request_subscription service m = vec_find service (request_subscriptions m)"

definition find_response_subscription :: "ServiceId \<Rightarrow> 's DynamicSubscriptionManager \<Rightarrow> 's option" where
  "find_response_subscription service m = vec_find service (response_subscriptions m)"

fun find_subscription :: "('i, 't, 'p, 'n) Header \<Rightarrow> 's DynamicSubscriptionManager \<Rightarrow> 's option" where
  "find_subscription (Message h) m = find_message_subscription (mh_subject h) m"
| "find_subscription (Request h) m = find_request_subscription (sh_service h) m"
| "find_subscription (Response h) m = find_response_subscription (sh_service h) m"

fun modify_subscription ::
  "('i, 't, 'p, 'n) Header \<Rightarrow> ('s \<Rightarrow> 's) \<Rightarrow> 's DynamicSubscriptionManager
   \<Rightarrow> 's DynamicSubscriptionManager" where
  "modify_subscription (Message h) f m =
     m\<lparr>message_subscriptions := vec_modify (mh_subject h) f (message_subscriptions m)\<rparr>"
| "modify_subscription (Request h) f m =
     m\<lparr>request_subscriptions := vec_modify (sh_service h) f (request_subscriptions m)\<rparr>"
| "modify_subscription (Response h) f m =
     m\<lparr>response_subscriptions := vec_modify (sh_service h) f (response_subscriptions m)\<rparr>"

definition for_each_message_subscription ::
  "('s \<Rightarrow> 's) \<Rightarrow> 's DynamicSubscriptionManager \<Rightarrow> 's DynamicSubscriptionManager" where
  "for_each_message_subscription operation m =
     m\<lparr>message_subscriptions := vec_for_each operation (message_subscriptions m)\<rparr>"

definition for_each_request_subscription ::
  "('s \<Rightarrow> 's) \<Rightarrow> 's DynamicSubscriptionManager \<Rightarrow> 's DynamicSubscriptionManager" where
  "for_each_request_subscription operation m =
     m\<lparr>request_subscriptions := vec_for_each operation (request_subscriptions m)\<rparr>"

definition for_each_response_subscription ::
  "('s \<Rightarrow> 's) \<Rightarrow> 's DynamicSubscriptionManager \<Rightarrow> 's DynamicSubscriptionManager" where
  "for_each_response_subscription operation m =
     m\<lparr>response_subscriptions := vec_for_each operation (response_subscriptions m)\<rparr>"

section \<open>The vectors as finite maps\<close>

definition subs_wf :: "('k \<times> 's) list \<Rightarrow> bool" where
  "subs_wf subs \<longleftrightarrow> distinct (map fst subs)"

lemma vec_find_map_of: "vec_find port subs = map_of subs port"
  by (induction subs) (auto simp: vec_find_def)

lemma vec_unsubscribe_map:
  assumes "subs_wf subs"
  shows "fst (vec_unsubscribe port subs) = map_of subs port"
    and "subs_wf (snd (vec_unsubscribe port subs))"
    and "map_of (snd (vec_unsubscribe port subs)) = (map_of subs)(port := None)"
proof -
  have "fst (vec_unsubscribe port subs) = map_of subs port
    \<and> subs_wf (snd (vec_unsubscribe port subs))
    \<and> map_of (snd (vec_unsubscribe port subs)) = (map_of subs)(port := None)"
  proof (cases "position (\<lambda>(stored, _). stored = port) subs")
    case None
    then have "map_of subs port = None" by (auto simp: position_None map_of_eq_None_iff)
    with None assms show ?thesis by (auto simp: vec_unsubscribe_def)
  next
    case (Some i)
    then have i: "i < length subs" and port: "fst (subs ! i) = port"
      using position_Some [OF Some] by auto
    have "map_of subs port = Some (snd (subs ! i))"
      using assms i port by (auto simp: subs_wf_def intro!: map_of_is_SomeI)
    with Some i port swap_remove_alist [OF assms [unfolded subs_wf_def] i] show ?thesis
      by (auto simp: vec_unsubscribe_def swap_remove_def subs_wf_def split: prod.splits)
  qed
  then show "fst (vec_unsubscribe port subs) = map_of subs port"
    and "subs_wf (snd (vec_unsubscribe port subs))"
    and "map_of (snd (vec_unsubscribe port subs)) = (map_of subs)(port := None)" by blast+
qed

lemma vec_subscribe_map:
  assumes "subs_wf subs"
  shows "fst (vec_subscribe mem port s subs) = (if mem then Inr () else Inl OutOfMemoryError)"
    and "subs_wf (snd (vec_subscribe mem port s subs))"
    and "map_of (snd (vec_subscribe mem port s subs)) = (map_of subs)(port := if mem then Some s else None)"
proof -
  obtain r v where u: "vec_unsubscribe port subs = (r, v)" by (cases "vec_unsubscribe port subs")
  have v: "subs_wf v" "map_of v = (map_of subs)(port := None)"
    using vec_unsubscribe_map [OF assms, of port] u by simp_all
  then have n: "map_of v port = None" by simp
  then have new: "map_of (v @ [(port, s)]) = (map_of v)(port \<mapsto> s)" "subs_wf (v @ [(port, s)])"
    using v(1) by (auto simp: subs_wf_def map_add_def fun_eq_iff split: option.split)
  show "fst (vec_subscribe mem port s subs) = (if mem then Inr () else Inl OutOfMemoryError)"
    by (simp add: vec_subscribe_def u try_push_def)
  show "subs_wf (snd (vec_subscribe mem port s subs))"
    using new(2) v(1) by (simp add: vec_subscribe_def u try_push_def)
  show "map_of (snd (vec_subscribe mem port s subs)) = (map_of subs)(port := if mem then Some s else None)"
    using new(1) v(2) by (simp add: vec_subscribe_def u try_push_def)
qed

lemma vec_modify_map:
  "map_of (vec_modify port f subs) = (map_of subs)(port := map_option f (map_of subs port))"
  "map fst (vec_modify port f subs) = map fst subs"
  by (induction port f subs rule: vec_modify.induct) (auto simp: fun_eq_iff)

section \<open>The interface\<close>

text \<open>The laws of \<^verbatim>\<open>SubscriptionManager\<close> for one kind of port.\<close>

locale port_subscriptions =
  fixes subscribe :: "bool \<Rightarrow> 'k \<Rightarrow> 's \<Rightarrow> 'm \<Rightarrow> (out_of_memory_error + unit) \<times> 'm"
    and unsubscribe :: "'k \<Rightarrow> 'm \<Rightarrow> 's option \<times> 'm"
    and find_port :: "'k \<Rightarrow> 'm \<Rightarrow> 's option"
    and inv :: "'m \<Rightarrow> bool"
  assumes inv_subscribe: "inv m \<Longrightarrow> inv (snd (subscribe mem k s m))"
    and inv_unsubscribe: "inv m \<Longrightarrow> inv (snd (unsubscribe k m))"
    and subscribe_result: "inv m \<Longrightarrow>
      fst (subscribe mem k s m) = (if mem then Inr () else Inl OutOfMemoryError)"
    and find_subscribe: "inv m \<Longrightarrow>
      find_port k' (snd (subscribe mem k s m)) =
        (if k' = k then if mem then Some s else None else find_port k' m)"
    and unsubscribe_result: "inv m \<Longrightarrow> fst (unsubscribe k m) = find_port k m"
    and find_unsubscribe: "inv m \<Longrightarrow>
      find_port k' (snd (unsubscribe k m)) = (if k' = k then None else find_port k' m)"
begin

lemma subscribe_then_unsubscribe:
  assumes "inv m"
  shows "fst (unsubscribe k (snd (subscribe True k s m))) = Some s"
    and "find_port k (snd (unsubscribe k (snd (subscribe True k s m)))) = None"
  using assms by (simp_all add: unsubscribe_result find_unsubscribe inv_subscribe find_subscribe)

lemma resubscribe_replaces:
  assumes "inv m"
  shows "find_port k (snd (subscribe True k s' (snd (subscribe True k s m)))) = Some s'"
  using assms by (simp add: find_subscribe inv_subscribe)

text \<open>The ports after any sequence of successful subscriptions and removals.\<close>

lemma subscribe_commutes:
  assumes "inv m" and "k \<noteq> k'"
  shows "find_port j (snd (subscribe True k s (snd (subscribe True k' s' m))))
    = find_port j (snd (subscribe True k' s' (snd (subscribe True k s m))))"
  using assms by (simp add: find_subscribe inv_subscribe)

end

lemmas vec_map_simps = vec_find_map_of vec_unsubscribe_map vec_subscribe_map

interpretation message_ports: port_subscriptions subscribe_message unsubscribe_message
  find_message_subscription "\<lambda>m. subs_wf (message_subscriptions m)"
  by unfold_locales (auto simp: subscribe_message_def unsubscribe_message_def
      find_message_subscription_def vec_map_simps case_prod_beta)

interpretation request_ports: port_subscriptions subscribe_request unsubscribe_request
  find_request_subscription "\<lambda>m. subs_wf (request_subscriptions m)"
  by unfold_locales (auto simp: subscribe_request_def unsubscribe_request_def
      find_request_subscription_def vec_map_simps case_prod_beta)

interpretation response_ports: port_subscriptions subscribe_response unsubscribe_response
  find_response_subscription "\<lambda>m. subs_wf (response_subscriptions m)"
  by unfold_locales (auto simp: subscribe_response_def unsubscribe_response_def
      find_response_subscription_def vec_map_simps case_prod_beta)

text \<open>
  After a successful subscription the stored value is found and every other subject is
  as before; unsubscribing returns it and leaves the subject without a subscription. When
  the allocation of a repeated subscription fails, the error is reported and the previous
  subscription of that subject is gone.
\<close>

lemma message_subscription_laws:
  assumes "subs_wf (message_subscriptions m)"
  shows "find_message_subscription k' (snd (subscribe_message True k s m))
      = (if k' = k then Some s else find_message_subscription k' m)
    \<and> fst (unsubscribe_message k (snd (subscribe_message True k s m))) = Some s
    \<and> find_message_subscription k (snd (unsubscribe_message k (snd (subscribe_message True k s m)))) = None
    \<and> subscribe_message False k s m = (Inl OutOfMemoryError, snd (unsubscribe_message k m))"
proof (intro conjI)
  show "subscribe_message False k s m = (Inl OutOfMemoryError, snd (unsubscribe_message k m))"
    by (simp add: subscribe_message_def unsubscribe_message_def vec_subscribe_def try_push_def
        case_prod_beta)
qed (simp_all add: assms message_ports.find_subscribe message_ports.subscribe_then_unsubscribe)

end
