(* ===== verification/Can_Types.thy ===== *)
theory Can_Types
  imports Core_Transfer
begin

text \<open>
  Data types of the CAN transport (canadensis\_can: \<^verbatim>\<open>data.rs\<close>, \<^verbatim>\<open>types.rs\<close>, the traits of
  \<^verbatim>\<open>driver.rs\<close>), with the \<^verbatim>\<open>can-fd\<close> feature enabled: 29-bit identifiers, MTU values,
  frames, 7-bit node identifiers, 5-bit transfer identifiers and transport errors.

  The frame data is a \<^verbatim>\<open>heapless::Vec\<close>, a third-party bounded vector. It is represented by
  the list of its elements, and its fallible operations \<^verbatim>\<open>push\<close> and \<^verbatim>\<open>from_slice\<close> are the
  parameter \<open>hv\<close> of the operations that use them; \<open>hvec_law\<close> is its documented behaviour.
\<close>

section \<open>CAN identifiers, MTU and frames\<close>

definition CAN_ID_MASK :: u32 where
  "CAN_ID_MASK = 0x1fffffff"

datatype CanId = CanId (can_id_bits: u32)

definition can_id_wf :: "CanId \<Rightarrow> bool" where
  "can_id_wf i \<longleftrightarrow> can_id_bits i AND NOT CAN_ID_MASK = 0"

definition can_id_try_from :: "u32 \<Rightarrow> invalid_value + CanId" where
  "can_id_try_from value =
     (if value AND NOT CAN_ID_MASK = 0 then Inr (CanId value) else Inl InvalidValue)"

text \<open>\<^verbatim>\<open>CanId\<close> derives \<^verbatim>\<open>Ord\<close>; a smaller identifier wins the arbitration of the bus.\<close>

instantiation CanId :: linorder
begin

definition less_eq_CanId :: "CanId \<Rightarrow> CanId \<Rightarrow> bool" where
  "less_eq_CanId a b \<longleftrightarrow> can_id_bits a \<le> can_id_bits b"

definition less_CanId :: "CanId \<Rightarrow> CanId \<Rightarrow> bool" where
  "less_CanId a b \<longleftrightarrow> can_id_bits a < can_id_bits b"

instance
  by standard (auto simp: less_eq_CanId_def less_CanId_def intro: CanId.expand)

end

datatype Mtu = Can8 | CanFd64

fun mtu_as_bytes :: "Mtu \<Rightarrow> nat" where
  "mtu_as_bytes Can8 = 8"
| "mtu_as_bytes CanFd64 = 64"

definition FRAME_CAPACITY :: nat where
  "FRAME_CAPACITY = 64"

record 'i Frame =
  fr_timestamp :: 'i
  fr_id :: CanId
  fr_data :: "u8 list"

definition frame_new :: "u8 hvec_ops \<Rightarrow> 'i \<Rightarrow> CanId \<Rightarrow> u8 list \<Rightarrow> 'i Frame option" where
  "frame_new hv timestamp can_id data =
     map_option (\<lambda>v. \<lparr>fr_timestamp = timestamp, fr_id = can_id, fr_data = v\<rparr>)
       (hv_from_slice hv data)"

section \<open>Node identifiers\<close>

definition VALID_NODE_IDS_end :: u8 where
  "VALID_NODE_IDS_end = 127"

datatype CanNodeId = CanNodeId (node_bits: u8)

definition node_wf :: "CanNodeId \<Rightarrow> bool" where
  "node_wf n \<longleftrightarrow> node_bits n \<le> VALID_NODE_IDS_end"

definition node_MIN :: CanNodeId where
  "node_MIN = CanNodeId 0"

definition node_MAX :: CanNodeId where
  "node_MAX = CanNodeId VALID_NODE_IDS_end"

definition node_from_truncating :: "u8 \<Rightarrow> CanNodeId" where
  "node_from_truncating value = CanNodeId (value AND VALID_NODE_IDS_end)"

definition is_diagnostic_reserved :: "CanNodeId \<Rightarrow> bool" where
  "is_diagnostic_reserved n \<longleftrightarrow> node_bits n \<ge> VALID_NODE_IDS_end - 1"

definition node_try_from_u8 :: "u8 \<Rightarrow> invalid_value + CanNodeId" where
  "node_try_from_u8 bits =
     (if bits \<le> VALID_NODE_IDS_end then Inr (CanNodeId bits) else Inl InvalidValue)"

definition node_try_from_u16 :: "u16 \<Rightarrow> invalid_value + CanNodeId" where
  "node_try_from_u16 value =
     (if value \<le> ucast VALID_NODE_IDS_end then Inr (CanNodeId (ucast value)) else Inl InvalidValue)"

definition u32_from_node :: "CanNodeId \<Rightarrow> u32" where
  "u32_from_node n = ucast (node_bits n)"

definition usize_from_node :: "CanNodeId \<Rightarrow> nat" where
  "usize_from_node n = unat (node_bits n)"

section \<open>Transfer identifiers\<close>

definition VALID_TRANSFER_IDS_end :: u8 where
  "VALID_TRANSFER_IDS_end = 31"

datatype CanTransferId = CanTransferId (tid_bits: u8)

definition tid_wf :: "CanTransferId \<Rightarrow> bool" where
  "tid_wf t \<longleftrightarrow> tid_bits t \<le> VALID_TRANSFER_IDS_end"

definition tid_const_default :: CanTransferId where
  "tid_const_default = CanTransferId 0"

definition tid_increment :: "CanTransferId \<Rightarrow> CanTransferId" where
  "tid_increment t =
     (if tid_bits t = VALID_TRANSFER_IDS_end then CanTransferId 0
      else CanTransferId (tid_bits t + 1))"

definition tid_try_from :: "u8 \<Rightarrow> invalid_value + CanTransferId" where
  "tid_try_from value =
     (if value \<le> VALID_TRANSFER_IDS_end then Inr (CanTransferId value) else Inl InvalidValue)"

text \<open>The array of next transfer identifiers, one per node, all starting at zero.\<close>

definition can_transfer_ids_default :: "CanTransferId list" where
  "can_transfer_ids_default = replicate (unat VALID_NODE_IDS_end + 1) tid_const_default"

type_synonym 'i can_header = "('i, CanTransferId, Priority, CanNodeId) Header"
type_synonym ('a, 'i) can_transfer = "('a, 'i, CanTransferId, Priority, CanNodeId) Transfer"

datatype 'e can_error = Memory out_of_memory_error | Driver 'e

section \<open>The driver traits\<close>

text \<open>
  The operations of a \<^verbatim>\<open>TransmitDriver\<close> with state \<open>'d\<close> and errors \<open>'e\<close>. Flushing may panic or
  not return, which is \<open>None\<close>.
\<close>

record ('d, 'i, 'e) transmit_driver =
  td_try_reserve :: "nat \<Rightarrow> 'd \<Rightarrow> (out_of_memory_error + unit) \<times> 'd"
  td_transmit :: "'i Frame \<Rightarrow> 'i \<Rightarrow> 'd \<Rightarrow> ('e nb_error + 'i Frame option) \<times> 'd"
  td_flush :: "'i \<Rightarrow> 'd \<Rightarrow> (('e nb_error + unit) \<times> 'd) option"

section \<open>Ranges\<close>

lemma CAN_ID_MASK_mask: "CAN_ID_MASK = mask 29"
  by (simp add: CAN_ID_MASK_def mask_eq_exp_minus_1)

lemma can_id_wf_iff: "can_id_wf i \<longleftrightarrow> unat (can_id_bits i) < 2 ^ 29"
  unfolding can_id_wf_def CAN_ID_MASK_mask by (rule and_mask_eq_0_iff_lt) simp

lemma node_wf_iff: "node_wf n \<longleftrightarrow> unat (node_bits n) < 128"
  by (auto simp: node_wf_def VALID_NODE_IDS_end_def word_le_nat_alt)

lemma tid_wf_iff: "tid_wf t \<longleftrightarrow> unat (tid_bits t) < 32"
  by (auto simp: tid_wf_def VALID_TRANSFER_IDS_end_def word_le_nat_alt)

lemma usize_from_node_lt: "node_wf n \<Longrightarrow> usize_from_node n < 128"
  by (simp add: usize_from_node_def node_wf_iff)

lemma usize_from_node_inject [simp]: "usize_from_node a = usize_from_node b \<longleftrightarrow> a = b"
  by (cases a; cases b) (simp add: usize_from_node_def word_unat_eq_iff)

lemma node_from_truncating_wf [wf_intros]: "node_wf (node_from_truncating v)"
  by (simp add: node_wf_def node_from_truncating_def word_and_le1)

lemma tid_increment_val:
  assumes "tid_wf t"
  shows "unat (tid_bits (tid_increment t)) = (unat (tid_bits t) + 1) mod 32"
proof (cases "tid_bits t = 31")
  case False
  with assms have "unat (tid_bits t) < 31"
    by (auto simp: tid_wf_iff word_unat_eq_iff)
  with False show ?thesis
    by (simp add: tid_increment_def VALID_TRANSFER_IDS_end_def unat_word_ariths)
qed (simp add: tid_increment_def VALID_TRANSFER_IDS_end_def)

lemma tid_increment_wf [wf_intros]: "tid_wf t \<Longrightarrow> tid_wf (tid_increment t)"
  by (simp add: tid_wf_iff [of "tid_increment t"] tid_increment_val)

lemma mtu_as_bytes_cases: "mtu_as_bytes m = 8 \<or> mtu_as_bytes m = 64"
  by (cases m) simp_all

text \<open>A CAN header whose identifiers are all within their documented ranges.\<close>

fun can_header_wf :: "'i can_header \<Rightarrow> bool" where
  "can_header_wf (Message m) \<longleftrightarrow>
     subject_wf (mh_subject m) \<and> tid_wf (mh_transfer_id m) \<and> (case mh_source m of None \<Rightarrow> True | Some n \<Rightarrow> node_wf n)"
| "can_header_wf (Request s) \<longleftrightarrow>
     service_wf (sh_service s) \<and> tid_wf (sh_transfer_id s) \<and> node_wf (sh_source s) \<and> node_wf (sh_destination s)"
| "can_header_wf (Response s) \<longleftrightarrow>
     service_wf (sh_service s) \<and> tid_wf (sh_transfer_id s) \<and> node_wf (sh_source s) \<and> node_wf (sh_destination s)"

end
