(* ===== verification/Can_Id.thy ===== *)
theory Can_Id
  imports Can_Types
begin

text \<open>
  The CAN identifier and the tail byte (canadensis\_can: \<^verbatim>\<open>make_can_id\<close> and
  \<^verbatim>\<open>make_pseudo_id\<close> of \<^verbatim>\<open>tx.rs\<close>, \<^verbatim>\<open>make_tail_byte\<close> of \<^verbatim>\<open>tx/breakdown.rs\<close>, \<^verbatim>\<open>parse_can_id\<close>,
  \<^verbatim>\<open>GetBits\<close> and \<^verbatim>\<open>TailByte\<close> of \<^verbatim>\<open>rx.rs\<close>), and that parsing inverts making.
\<close>

section \<open>Making identifiers\<close>

text \<open>The loop of \<^verbatim>\<open>make_pseudo_id\<close> that leaves the reserved identifiers.\<close>

function skip_reserved :: "CanNodeId \<Rightarrow> CanNodeId" where
  "skip_reserved i =
     (if is_diagnostic_reserved i then skip_reserved (node_from_truncating (node_bits i - 1)) else i)"
  by auto

termination
proof (relation "measure (\<lambda>i. unat (node_bits i))")
  fix i
  assume "is_diagnostic_reserved i"
  then have r: "126 \<le> unat (node_bits i)"
    by (simp add: is_diagnostic_reserved_def VALID_NODE_IDS_end_def word_le_nat_alt)
  have "node_bits (node_from_truncating (node_bits i - 1)) \<le> node_bits i - 1"
    by (simp add: node_from_truncating_def word_and_le2)
  then have "unat (node_bits (node_from_truncating (node_bits i - 1))) \<le> unat (node_bits i - 1)"
    by (simp add: word_le_nat_alt)
  also have "\<dots> < unat (node_bits i)" using r by (simp add: unat_sub_if')
  finally show "(node_from_truncating (node_bits i - 1), i) \<in> measure (\<lambda>i. unat (node_bits i))" by simp
qed simp

declare skip_reserved.simps [simp del]

definition make_pseudo_id :: "u8 list \<Rightarrow> CanNodeId" where
  "make_pseudo_id payload =
     skip_reserved (node_from_truncating (foldl (\<lambda>state byte. state XOR byte) 0x55 payload))"

definition encode_common_service_fields ::
  "('i, CanTransferId, Priority, CanNodeId) ServiceHeader \<Rightarrow> u32" where
  "encode_common_service_fields s =
     push_bit 14 (ucast (service_bits (sh_service s)))
     OR push_bit 7 (ucast (node_bits (sh_destination s)))
     OR push_bit 25 1"

definition make_can_id :: "'i can_header \<Rightarrow> u8 list \<Rightarrow> CanId option" where
  "make_can_id header payload =
     (let bits = push_bit 26 (ucast (u8_from_priority (header_priority header)));
          source_node = (case header_source header of None \<Rightarrow> make_pseudo_id payload | Some n \<Rightarrow> n);
          bits = bits OR u32_from_node source_node;
          bits = (case header of
              Message m \<Rightarrow>
                bits OR push_bit 8 (ucast (subject_bits (mh_subject m)))
                     OR (push_bit 21 1 OR push_bit 22 1)
                     OR (if mh_source m = None then push_bit 24 1 else 0)
            | Request s \<Rightarrow> bits OR encode_common_service_fields s OR push_bit 24 1
            | Response s \<Rightarrow> bits OR encode_common_service_fields s)
      in expect (can_id_try_from bits))"

definition make_tail_byte :: "bool \<Rightarrow> bool \<Rightarrow> bool \<Rightarrow> CanTransferId \<Rightarrow> u8" where
  "make_tail_byte start end' toggle transfer_id =
     push_bit 7 (of_bool start) OR push_bit 6 (of_bool end') OR push_bit 5 (of_bool toggle)
     OR tid_bits transfer_id"

section \<open>Parsing identifiers\<close>

definition bit_set :: "'a::len word \<Rightarrow> nat \<Rightarrow> bool" where
  "bit_set w offset \<longleftrightarrow> drop_bit offset w AND 1 = 1"

definition get_u8 :: "u32 \<Rightarrow> nat \<Rightarrow> u8" where
  "get_u8 w offset = ucast (drop_bit offset w)"

definition get_u16 :: "u32 \<Rightarrow> nat \<Rightarrow> u16" where
  "get_u16 w offset = ucast (drop_bit offset w)"

datatype CanIdParseError = Bit23Set | Bit7Set

definition parse_can_id ::
  "CanId \<Rightarrow> 'i \<Rightarrow> CanTransferId \<Rightarrow> (CanIdParseError + 'i can_header) option" where
  "parse_can_id can_id timestamp transfer_id =
     (let bits = can_id_bits can_id in
      if bit_set bits 23 then Some (Inl Bit23Set)
      else do {
        priority \<leftarrow> expect (priority_try_from (get_u8 bits 26));
        source_id \<leftarrow> expect (node_try_from_u8 (get_u8 bits 0 AND 0x7f));
        if bit_set bits 25 then do {
          service \<leftarrow> expect (service_try_from (get_u16 bits 14 AND 0x1ff));
          destination \<leftarrow> expect (node_try_from_u8 (get_u8 bits 7 AND 0x7f));
          let service_header = \<lparr>sh_timestamp = timestamp, sh_transfer_id = transfer_id,
              sh_priority = priority, sh_service = service, sh_source = source_id,
              sh_destination = destination\<rparr>;
          Some (Inr (if bit_set bits 24 then Request service_header else Response service_header))
        } else if bit_set bits 7 then Some (Inl Bit7Set)
        else do {
          let anonymous = bit_set bits 24;
          let message_source_id = (if anonymous then None else Some source_id);
          subject \<leftarrow> expect (subject_try_from (get_u16 bits 8 AND 0x1fff));
          Some (Inr (Message \<lparr>mh_timestamp = timestamp, mh_transfer_id = transfer_id,
              mh_priority = priority, mh_subject = subject, mh_source = message_source_id\<rparr>))
        }
      })"

record TailByte =
  tb_start :: bool
  tb_end :: bool
  tb_toggle :: bool
  tb_transfer_id :: CanTransferId

definition tail_byte_parse :: "u8 \<Rightarrow> TailByte option" where
  "tail_byte_parse bits =
     map_option (\<lambda>transfer_id. \<lparr>tb_start = bit_set bits 7, tb_end = bit_set bits 6,
         tb_toggle = bit_set bits 5, tb_transfer_id = transfer_id\<rparr>)
       (expect (tid_try_from (bits AND 0x1f)))"

section \<open>Bits of the fields\<close>

lemma bit_set_iff: "bit_set w n \<longleftrightarrow> bit w n"
  by (simp add: bit_set_def and_one_eq bit_iff_odd_drop_bit odd_iff_mod_2_eq_one)

lemma field_masks:
  "(0x1f :: u8) = mask 5" "(0x7f :: u8) = mask 7" "(0x1ff :: u16) = mask 9" "(0x1fff :: u16) = mask 13"
  by (simp_all add: mask_eq_exp_minus_1)

lemma tid_bit: "tid_wf t \<Longrightarrow> bit (tid_bits t) n \<Longrightarrow> n < 5"
  by (rule bit_below [of _ 5]) (simp_all add: tid_wf_iff)

lemma node_bit: "node_wf t \<Longrightarrow> bit (node_bits t) n \<Longrightarrow> n < 7"
  by (rule bit_below [of _ 7]) (simp_all add: node_wf_iff)

lemma subject_bit: "subject_wf t \<Longrightarrow> bit (subject_bits t) n \<Longrightarrow> n < 13"
  by (rule bit_below [of _ 13])
    (simp_all add: subject_wf_def VALID_SUBJECT_IDS_end_def word_le_nat_alt)

lemma service_bit: "service_wf t \<Longrightarrow> bit (service_bits t) n \<Longrightarrow> n < 9"
  by (rule bit_below [of _ 9])
    (simp_all add: service_wf_def VALID_SERVICE_IDS_end_def word_le_nat_alt)

lemma priority_bit: "bit (u8_from_priority p) n \<Longrightarrow> n < 3"
  by (rule bit_below [of _ 3]) (use u8_from_priority_lt [of p] in \<open>simp_all add: word_less_nat_alt\<close>)

lemmas field_bits = tid_bit node_bit subject_bit service_bit priority_bit

section \<open>The tail byte\<close>

lemma tid_try_from_masked: "tid_try_from (v AND 0x1f) = Inr (CanTransferId (v AND 0x1f))"
  by (simp add: tid_try_from_def VALID_TRANSFER_IDS_end_def word_and_le1)

lemma tail_byte_parse_total: "\<exists>t. tail_byte_parse v = Some t \<and> tid_wf (tb_transfer_id t)"
  by (simp add: tail_byte_parse_def tid_try_from_masked tid_wf_def VALID_TRANSFER_IDS_end_def word_and_le1)

lemma tail_byte_roundtrip:
  assumes "tid_wf t"
  shows "tail_byte_parse (make_tail_byte s e g t) =
    Some \<lparr>tb_start = s, tb_end = e, tb_toggle = g, tb_transfer_id = t\<rparr>"
proof -
  let ?b = "make_tail_byte s e g t"
  have low: "\<not> bit (tid_bits t) n" if "5 \<le> n" for n using tid_bit [OF assms, of n] that by auto
  have "?b AND mask 5 = tid_bits t"
    by (rule bit_eqI) (auto simp: make_tail_byte_def bit_simps dest: tid_bit [OF assms])
  then have "CanTransferId (?b AND 0x1f) = t" unfolding field_masks by (cases t) simp
  moreover have "bit ?b 7 = s" "bit ?b 6 = e" "bit ?b 5 = g"
    using low by (auto simp: make_tail_byte_def bit_simps)
  ultimately show ?thesis
    by (simp add: tail_byte_parse_def tid_try_from_masked bit_set_iff)
qed

section \<open>The pseudo identifier\<close>

lemma skip_reserved_result: "\<not> is_diagnostic_reserved (skip_reserved i)"
  by (induction i rule: skip_reserved.induct) (subst skip_reserved.simps, simp)

lemma skip_reserved_wf: "node_wf i \<Longrightarrow> node_wf (skip_reserved i)"
  by (induction i rule: skip_reserved.induct)
    (subst skip_reserved.simps, simp add: node_from_truncating_wf)

lemma make_pseudo_id_wf: "node_wf (make_pseudo_id payload)"
  unfolding make_pseudo_id_def by (intro skip_reserved_wf node_from_truncating_wf)

section \<open>Fields of a message identifier\<close>

definition message_bits :: "Priority \<Rightarrow> CanNodeId \<Rightarrow> SubjectId \<Rightarrow> bool \<Rightarrow> u32" where
  "message_bits p n s anonymous =
     push_bit 26 (ucast (u8_from_priority p)) OR ucast (node_bits n)
     OR push_bit 8 (ucast (subject_bits s)) OR (push_bit 21 1 OR push_bit 22 1)
     OR push_bit 24 (of_bool anonymous)"

definition service_bits32 :: "Priority \<Rightarrow> CanNodeId \<Rightarrow> ServiceId \<Rightarrow> CanNodeId \<Rightarrow> bool \<Rightarrow> u32" where
  "service_bits32 p n s d request =
     push_bit 26 (ucast (u8_from_priority p)) OR ucast (node_bits n)
     OR (push_bit 14 (ucast (service_bits s)) OR push_bit 7 (ucast (node_bits d)) OR push_bit 25 1)
     OR push_bit 24 (of_bool request)"

lemma message_bits_bit:
  "bit (message_bits p n s a) k \<longleftrightarrow> k < 32 \<and>
     (26 \<le> k \<and> bit (u8_from_priority p) (k - 26) \<or> bit (node_bits n) k
      \<or> 8 \<le> k \<and> bit (subject_bits s) (k - 8) \<or> k = 21 \<or> k = 22 \<or> k = 24 \<and> a)"
  unfolding message_bits_def by (simp only: bit_simps) auto

lemma service_bits32_bit:
  "bit (service_bits32 p n s d r) k \<longleftrightarrow> k < 32 \<and>
     (26 \<le> k \<and> bit (u8_from_priority p) (k - 26) \<or> bit (node_bits n) k
      \<or> 14 \<le> k \<and> bit (service_bits s) (k - 14) \<or> 7 \<le> k \<and> bit (node_bits d) (k - 7)
      \<or> k = 25 \<or> k = 24 \<and> r)"
  unfolding service_bits32_def by (simp only: bit_simps) auto

lemma message_bits_fields:
  assumes "node_wf n" and "subject_wf s"
  shows "unat (message_bits p n s a) < 2 ^ 29"
    and "\<not> bit (message_bits p n s a) 23" and "\<not> bit (message_bits p n s a) 25"
    and "\<not> bit (message_bits p n s a) 7" and "bit (message_bits p n s a) 24 = a"
    and "get_u8 (message_bits p n s a) 26 = u8_from_priority p"
    and "get_u8 (message_bits p n s a) 0 AND 0x7f = node_bits n"
    and "get_u16 (message_bits p n s a) 8 AND 0x1fff = subject_bits s"
  unfolding field_masks
  by (rule below_bit,
      auto simp: message_bits_bit get_u8_def get_u16_def bit_simps intro!: bit_eqI
        dest: priority_bit node_bit [OF assms(1)] subject_bit [OF assms(2)])
    (fastforce dest: priority_bit node_bit [OF assms(1)] subject_bit [OF assms(2)])+

lemma service_bits32_fields:
  assumes "node_wf n" and "service_wf s" and "node_wf d"
  shows "unat (service_bits32 p n s d r) < 2 ^ 29"
    and "\<not> bit (service_bits32 p n s d r) 23" and "bit (service_bits32 p n s d r) 25"
    and "bit (service_bits32 p n s d r) 24 = r"
    and "get_u8 (service_bits32 p n s d r) 26 = u8_from_priority p"
    and "get_u8 (service_bits32 p n s d r) 0 AND 0x7f = node_bits n"
    and "get_u8 (service_bits32 p n s d r) 7 AND 0x7f = node_bits d"
    and "get_u16 (service_bits32 p n s d r) 14 AND 0x1ff = service_bits s"
  unfolding field_masks
  by (rule below_bit,
      auto simp: service_bits32_bit get_u8_def get_u16_def bit_simps intro!: bit_eqI
        dest: priority_bit node_bit [OF assms(1)] service_bit [OF assms(2)] node_bit [OF assms(3)])
    (fastforce dest: priority_bit node_bit [OF assms(1)] service_bit [OF assms(2)] node_bit [OF assms(3)])+

section \<open>Round trip\<close>

lemma try_from_wf:
  "node_wf n \<Longrightarrow> node_try_from_u8 (node_bits n) = Inr n"
  "service_wf s \<Longrightarrow> service_try_from (service_bits s) = Inr s"
  "subject_wf t \<Longrightarrow> subject_try_from (subject_bits t) = Inr t"
  by (simp_all add: node_try_from_u8_def node_wf_def service_try_from_def service_wf_def
      subject_try_from_def subject_wf_def)

lemma can_id_try_from_small: "unat v < 2 ^ 29 \<Longrightarrow> can_id_try_from v = Inr (CanId v)"
  using can_id_wf_iff [of "CanId v"] by (simp add: can_id_try_from_def can_id_wf_def)

text \<open>The node whose identifier is placed in the frames of a transfer.\<close>

definition tx_source :: "'i can_header \<Rightarrow> u8 list \<Rightarrow> CanNodeId" where
  "tx_source h payload = (case header_source h of None \<Rightarrow> make_pseudo_id payload | Some n \<Rightarrow> n)"

lemma tx_source_wf: "can_header_wf h \<Longrightarrow> node_wf (tx_source h payload)"
  by (cases h) (auto simp: tx_source_def make_pseudo_id_wf split: option.splits)

fun header_bits :: "'i can_header \<Rightarrow> u8 list \<Rightarrow> u32" where
  "header_bits (Message m) payload =
     message_bits (mh_priority m) (tx_source (Message m) payload) (mh_subject m) (mh_source m = None)"
| "header_bits (Request s) payload =
     service_bits32 (sh_priority s) (sh_source s) (sh_service s) (sh_destination s) True"
| "header_bits (Response s) payload =
     service_bits32 (sh_priority s) (sh_source s) (sh_service s) (sh_destination s) False"

lemma make_can_id_bits:
  assumes "can_header_wf h"
  shows "make_can_id h payload = Some (CanId (header_bits h payload))"
    and "can_id_wf (CanId (header_bits h payload))"
proof -
  have "unat (header_bits h payload) < 2 ^ 29"
    using assms tx_source_wf [OF assms, of payload]
    by (cases h) (simp_all only: header_bits.simps can_header_wf.simps message_bits_fields(1)
        service_bits32_fields(1))
  then show "can_id_wf (CanId (header_bits h payload))" by (simp add: can_id_wf_iff)
  have "make_can_id h payload = expect (can_id_try_from (header_bits h payload))"
    by (cases h) (simp_all add: make_can_id_def Let_def tx_source_def u32_from_node_def message_bits_def
        service_bits32_def encode_common_service_fields_def ac_simps)
  then show "make_can_id h payload = Some (CanId (header_bits h payload))"
    using \<open>unat _ < 2 ^ 29\<close> by (simp add: can_id_try_from_small)
qed

lemma parse_header_bits:
  assumes "can_header_wf h"
  shows "parse_can_id (CanId (header_bits h payload)) (header_timestamp h) (header_transfer_id h)
    = Some (Inr h)"
  using assms tx_source_wf [OF assms, of payload]
  by (cases h) (auto simp: parse_can_id_def Let_def bit_set_iff message_bits_fields
      service_bits32_fields try_from_wf tx_source_def)

section \<open>Parsing is total\<close>

lemma masked_try_from:
  "node_try_from_u8 (v AND 0x7f) = Inr (CanNodeId (v AND 0x7f))"
  "service_try_from (w AND 0x1ff) = Inr (ServiceId (w AND 0x1ff))"
  "subject_try_from (w AND 0x1fff) = Inr (SubjectId (w AND 0x1fff))"
  by (simp_all add: node_try_from_u8_def VALID_NODE_IDS_end_def service_try_from_def
      VALID_SERVICE_IDS_end_def subject_try_from_def VALID_SUBJECT_IDS_end_def word_and_le1)

lemma masked_wf:
  "node_wf (CanNodeId (v AND 0x7f))" "service_wf (ServiceId (w AND 0x1ff))"
  "subject_wf (SubjectId (w AND 0x1fff))"
  by (simp_all add: node_wf_def VALID_NODE_IDS_end_def service_wf_def VALID_SERVICE_IDS_end_def
      subject_wf_def VALID_SUBJECT_IDS_end_def word_and_le1)

lemma get_priority:
  assumes "can_id_wf c"
  shows "\<exists>p. priority_try_from (get_u8 (can_id_bits c) 26) = Inr p"
proof -
  have b: "k < 29" if "bit (can_id_bits c) k" for k
    using assms that bit_below [of "can_id_bits c" 29 k] by (simp add: can_id_wf_iff)
  have "unat (get_u8 (can_id_bits c) 26) < 2 ^ 3"
    by (rule below_bit) (auto simp: get_u8_def bit_simps dest: b)
  then show ?thesis by (intro priority_try_from_total) (simp add: word_less_nat_alt)
qed

lemma parse_can_id_cases:
  assumes "can_id_wf c" and "tid_wf t"
  shows "\<exists>r. parse_can_id c i t = Some r \<and> (\<forall>h. r = Inr h \<longrightarrow> can_header_wf h
    \<and> header_timestamp h = i \<and> header_transfer_id h = t)"
  using get_priority [OF assms(1)] assms(2)
  by (auto simp: parse_can_id_def Let_def masked_try_from masked_wf)

section \<open>Properties\<close>

text \<open>
  C4: making a CAN identifier from a header with valid fields never panics, gives a 29-bit
  value, and parsing that identifier with the header's timestamp and transfer identifier
  gives back exactly the header: message, request or response, anonymous or not.
\<close>

theorem can_id_roundtrip:
  assumes "can_header_wf h"
  shows "\<exists>c. make_can_id h payload = Some c \<and> can_id_wf c
    \<and> parse_can_id c (header_timestamp h) (header_transfer_id h) = Some (Inr h)"
  using make_can_id_bits [OF assms, of payload] parse_header_bits [OF assms, of payload] by blast

theorem can_id_roundtrip_witness:
  "\<exists>c. make_can_id (Message \<lparr>mh_timestamp = (5 :: nat), mh_transfer_id = CanTransferId 31,
        mh_priority = Optional, mh_subject = SubjectId 8191, mh_source = None\<rparr>) [0x2a] = Some c
    \<and> can_id_wf c \<and> parse_can_id c (5 :: nat) (CanTransferId 31)
      = Some (Inr (Message \<lparr>mh_timestamp = 5, mh_transfer_id = CanTransferId 31,
        mh_priority = Optional, mh_subject = SubjectId 8191, mh_source = None\<rparr>))"
  using can_id_roundtrip [of "Message \<lparr>mh_timestamp = (5 :: nat), mh_transfer_id = CanTransferId 31,
        mh_priority = Optional, mh_subject = SubjectId 8191, mh_source = None\<rparr>" "[0x2a]"]
  by (simp add: subject_wf_def VALID_SUBJECT_IDS_end_def tid_wf_def VALID_TRANSFER_IDS_end_def)

text \<open>
  C14: parsing an arbitrary 29-bit identifier never panics: none of the \<^verbatim>\<open>expect\<close> calls can
  fail. The result is one of the two documented errors, exactly when bit 23 is set or bit 7
  of a message identifier is set, or a header all of whose fields are in range.
\<close>

theorem parse_can_id_total:
  assumes "can_id_wf c" and "tid_wf t"
  shows "(\<exists>h. parse_can_id c i t = Some (Inr h) \<and> can_header_wf h
        \<and> \<not> bit (can_id_bits c) 23 \<and> (bit (can_id_bits c) 25 \<or> \<not> bit (can_id_bits c) 7))
    \<or> (parse_can_id c i t = Some (Inl Bit23Set) \<and> bit (can_id_bits c) 23)
    \<or> (parse_can_id c i t = Some (Inl Bit7Set) \<and> \<not> bit (can_id_bits c) 23
        \<and> \<not> bit (can_id_bits c) 25 \<and> bit (can_id_bits c) 7)"
  using get_priority [OF assms(1)] assms(2)
  by (cases "bit (can_id_bits c) 23"; cases "bit (can_id_bits c) 25"; cases "bit (can_id_bits c) 7")
    (auto simp: parse_can_id_def Let_def masked_try_from masked_wf bit_set_iff)

theorem parse_can_id_total_witness:
  "can_id_wf (CanId 0x107d552a) \<and> (\<exists>h. parse_can_id (CanId 0x107d552a) (0 :: nat) (CanTransferId 0)
      = Some (Inr h) \<and> can_header_wf h)"
proof -
  have wf: "can_id_wf (CanId 0x107d552a)" "tid_wf (CanTransferId 0)"
    by (simp_all add: can_id_wf_iff tid_wf_def)
  have "\<not> bit (0x107d552a :: u32) 23" "\<not> bit (0x107d552a :: u32) 7" by (simp_all add: bit_numeral_rec)
  then show ?thesis using parse_can_id_total [OF wf, of "0 :: nat"] wf by auto
qed

text \<open>
  The pseudo identifier of an anonymous message is computed for every payload (the loop
  ends) and is below the two values reserved for diagnostic tools.
\<close>

lemma pseudo_id_unreserved: "unat (node_bits (make_pseudo_id payload)) < 126"
  using skip_reserved_result [of "node_from_truncating (foldl (\<lambda>state byte. state XOR byte) 0x55 payload)"]
  by (simp add: make_pseudo_id_def is_diagnostic_reserved_def VALID_NODE_IDS_end_def word_le_nat_alt)

end
