(* ===== verification/Can_Crc.thy ===== *)
theory Can_Crc
  imports Prelude
begin

text \<open>
  The CRC of multi-frame CAN transfers (canadensis\_can: \<^verbatim>\<open>crc.rs\<close>). Besides the code's
  operations this theory shows the two algebraic facts the receiver rests on: appending
  the CRC to the data gives the residue zero, and a zero residue needs at least two bytes.
\<close>

definition TRANSFER_CRC_INIT :: u16 where
  "TRANSFER_CRC_INIT = 0xffff"

definition TRANSFER_CRC_POLY :: u16 where
  "TRANSFER_CRC_POLY = 0x1021"

datatype TransferCrc = TransferCrc (crc_get: u16)

definition crc_new :: TransferCrc where
  "crc_new = TransferCrc TRANSFER_CRC_INIT"

text \<open>One iteration of the bit loop in \<^verbatim>\<open>add\<close>.\<close>

definition crc_bit :: "u16 \<Rightarrow> u16" where
  "crc_bit value =
     (if value AND 0x8000 \<noteq> 0 then push_bit 1 value XOR TRANSFER_CRC_POLY else push_bit 1 value)"

definition crc_add :: "TransferCrc \<Rightarrow> u8 \<Rightarrow> TransferCrc" where
  "crc_add crc byte =
     TransferCrc ((crc_bit ^^ 8) (crc_get crc XOR push_bit 8 (ucast byte)))"

definition crc_add_bytes :: "TransferCrc \<Rightarrow> u8 list \<Rightarrow> TransferCrc" where
  "crc_add_bytes crc bytes = foldl crc_add crc bytes"

text \<open>The two CRC bytes of the transmitter, most significant first.\<close>

definition crc_bytes :: "TransferCrc \<Rightarrow> u8 list" where
  "crc_bytes crc = [ucast (drop_bit 8 (crc_get crc)), ucast (crc_get crc)]"

section \<open>Bytes of a 16-bit value\<close>

lemma word16_top_bit: "(v :: u16) AND 0x8000 \<noteq> 0 \<longleftrightarrow> bit v 15"
  using and_exp_eq_0_iff_not_bit [of v 15] by simp

lemma crc_bit_bit:
  "crc_bit v = (if bit v 15 then push_bit 1 v XOR TRANSFER_CRC_POLY else push_bit 1 v)"
  by (simp only: crc_bit_def word16_top_bit)

lemma crc_bit_zero [simp]: "crc_bit 0 = 0"
  by (simp add: crc_bit_bit)

lemma crc_bits_zero [simp]: "(crc_bit ^^ n) 0 = 0"
  by (induction n) simp_all

text \<open>The bit step never maps a non-zero value to zero: the polynomial is odd.\<close>

lemma crc_bit_eq_0: "crc_bit v = 0 \<longleftrightarrow> v = 0"
proof
  assume z: "crc_bit v = 0"
  have "\<not> bit v 15"
  proof
    assume "bit v 15"
    with z have "bit (push_bit 1 v XOR TRANSFER_CRC_POLY) 0 = bit (0 :: u16) 0"
      by (simp add: crc_bit_bit)
    then show False by (simp add: bit_0 even_xor_iff TRANSFER_CRC_POLY_def)
  qed
  with z have sh: "push_bit 1 v = 0" by (simp add: crc_bit_bit)
  have "\<not> bit v n" for n
  proof (cases "n < 15")
    case True
    have "bit (push_bit 1 v) (Suc n) = bit v n"
      using True bit_push_bit_iff [of 1 v "Suc n"] by auto
    with sh show ?thesis by simp
  next
    case False
    with \<open>\<not> bit v 15\<close> show ?thesis
      by (cases "n = 15") (auto dest: bit_imp_le_length)
  qed
  then show "v = 0" by (simp add: bit_eq_iff)
qed simp

lemma crc_bits_eq_0: "(crc_bit ^^ n) v = 0 \<longleftrightarrow> v = 0"
  by (induction n) (simp_all add: crc_bit_eq_0)

lemma crc_bits_low:
  assumes "\<forall>k. bit v k \<longrightarrow> k + n < 16"
  shows "(crc_bit ^^ n) v = push_bit n v"
  using assms
proof (induction n)
  case (Suc n)
  have "\<forall>k. bit v k \<longrightarrow> k + n < 16" using Suc.prems by fastforce
  then have "(crc_bit ^^ n) v = push_bit n v" by (rule Suc.IH)
  moreover have "\<not> bit (push_bit n v) 15"
  proof
    assume "bit (push_bit n v) 15"
    then have "bit v (15 - n)" and "n \<le> 15" by (simp_all add: bit_simps)
    with Suc.prems show False by fastforce
  qed
  ultimately have "crc_bit ((crc_bit ^^ n) v) = push_bit 1 (push_bit n v)"
    by (simp only: crc_bit_bit [of "push_bit n v"] if_False)
  then show ?case by (simp only: funpow.simps comp_apply push_bit_push_bit plus_1_eq_Suc)
qed simp

section \<open>Residue\<close>

lemma crc_get_add: "crc_get (crc_add crc b) = (crc_bit ^^ 8) (crc_get crc XOR push_bit 8 (ucast b))"
  by (simp add: crc_add_def)

lemma crc_low_byte:
  "(v :: u16) XOR push_bit 8 (ucast (ucast (drop_bit 8 v) :: u8)) = take_bit 8 v"
proof (rule bit_eqI)
  fix n
  assume "possible_bit TYPE(16 word) n"
  then show "bit (v XOR push_bit 8 (ucast (ucast (drop_bit 8 v) :: u8))) n = bit (take_bit 8 v) n"
    by (auto simp: bit_simps)
qed

lemma crc_residue: "crc_get (crc_add_bytes crc (crc_bytes crc)) = 0"
proof -
  let ?v = "crc_get crc"
  let ?hi = "ucast (drop_bit 8 ?v) :: u8"
  have "(crc_bit ^^ 8) (?v XOR push_bit 8 (ucast ?hi)) = push_bit 8 (take_bit 8 ?v)"
    unfolding crc_low_byte by (rule crc_bits_low) (auto simp: bit_simps)
  moreover have "push_bit 8 (take_bit 8 ?v) XOR push_bit 8 (ucast (ucast ?v :: u8)) = 0"
    by (rule bit_eqI) (auto simp: bit_simps)
  ultimately show ?thesis
    by (simp only: crc_add_bytes_def crc_bytes_def foldl.simps crc_get_add crc_bits_zero)
qed

lemma crc_add_bytes_append:
  "crc_add_bytes crc (xs @ ys) = crc_add_bytes (crc_add_bytes crc xs) ys"
  by (simp add: crc_add_bytes_def)

text \<open>The CRC of data followed by its own CRC, most significant byte first, is zero.\<close>

lemma crc_appended:
  "crc_get (crc_add_bytes crc (xs @ crc_bytes (crc_add_bytes crc xs))) = 0"
  by (simp only: crc_add_bytes_append crc_residue)

text \<open>A new calculation reaches zero only after two bytes.\<close>

lemma crc_zero_length:
  assumes "crc_get (crc_add_bytes crc_new xs) = 0"
  shows "2 \<le> length xs"
proof (rule ccontr)
  assume "\<not> 2 \<le> length xs"
  then consider "xs = []" | b where "xs = [b]"
    by (cases xs; cases "tl xs") auto
  then show False
  proof cases
    case 1
    with assms show False by (simp add: crc_add_bytes_def crc_new_def TRANSFER_CRC_INIT_def)
  next
    case 2
    have "bit ((0xffff :: u16) XOR push_bit 8 (ucast b)) 0" by (simp add: bit_simps)
    then have "(0xffff :: u16) XOR push_bit 8 (ucast b) \<noteq> 0" by auto
    with 2 assms show False
      by (simp add: crc_add_bytes_def crc_new_def TRANSFER_CRC_INIT_def crc_get_add crc_bits_eq_0
          del: funpow.simps)
  qed
qed

end
