(* ===== verification/Can_Stats.thy ===== *)
theory Can_Stats
  imports Can_Types
begin

text \<open>
  How a payload is laid out in frames (canadensis\_can: \<^verbatim>\<open>lib.rs\<close>,
  \<^verbatim>\<open>add_padding_and_crc_space\<close> of \<^verbatim>\<open>rx/subscription.rs\<close>): the number of frames, the padding
  that gives the last frame a CAN FD length, and the receiver's size limit.
\<close>

section \<open>Definitions\<close>

definition round_up_frame_length :: "nat \<Rightarrow> nat option" where
  "round_up_frame_length len =
     (if len \<le> 8 then Some len
      else if len \<le> 12 then Some 12
      else if len \<le> 16 then Some 16
      else if len \<le> 20 then Some 20
      else if len \<le> 24 then Some 24
      else if len \<le> 32 then Some 32
      else if len \<le> 48 then Some 48
      else if len \<le> 64 then Some 64
      else None)"

record FrameStats =
  st_frames :: nat
  st_last_frame_padding :: nat

definition calculate_frame_stats :: "nat \<Rightarrow> nat \<Rightarrow> FrameStats option" where
  "calculate_frame_stats payload_length mtu =
     (if \<not> mtu \<le> 64 then None
      else if \<not> mtu > 1 then None
      else
        (let mtu_without_tail = mtu - 1;
             crc_length = (if payload_length \<le> mtu_without_tail then 0 else 2);
             tail_bytes = max 1 ((payload_length + crc_length + (mtu_without_tail - 1)) div mtu_without_tail);
             total_length = payload_length + crc_length + tail_bytes;
             frames = (total_length + mtu - 1) div mtu;
             last_frame_length = total_length mod mtu
         in case round_up_frame_length last_frame_length of
              None \<Rightarrow> None
            | Some last_frame_rounded_length \<Rightarrow>
                Some \<lparr>st_frames = frames,
                      st_last_frame_padding = last_frame_rounded_length - last_frame_length\<rparr>))"

definition add_padding_and_crc_space :: "nat \<Rightarrow> Mtu \<Rightarrow> nat option" where
  "add_padding_and_crc_space payload_size_max mtu =
     (case calculate_frame_stats payload_size_max (mtu_as_bytes mtu) of
        None \<Rightarrow> None
      | Some stats \<Rightarrow>
          Some (payload_size_max + st_last_frame_padding stats + (if st_frames stats > 1 then 2 else 0)))"

section \<open>Lengths a CAN FD frame can have\<close>

abbreviation dlc_length :: "nat \<Rightarrow> bool" where
  "dlc_length n \<equiv> round_up_frame_length n = Some n"

lemma round_up_exists: "n \<le> 64 \<Longrightarrow> \<exists>r. round_up_frame_length n = Some r"
  by (simp add: round_up_frame_length_def)

lemma round_up_ge: "round_up_frame_length n = Some r \<Longrightarrow> n \<le> r"
  by (auto simp: round_up_frame_length_def split: if_splits)

lemma round_up_le64: "round_up_frame_length n = Some r \<Longrightarrow> r \<le> 64"
  by (auto simp: round_up_frame_length_def split: if_splits)

lemma round_up_dlc: "round_up_frame_length n = Some r \<Longrightarrow> dlc_length r"
  by (auto simp: round_up_frame_length_def split: if_splits)

lemma round_up_mono:
  "n \<le> k \<Longrightarrow> round_up_frame_length n = Some r \<Longrightarrow> round_up_frame_length k = Some s \<Longrightarrow> r \<le> s"
  by (auto simp: round_up_frame_length_def split: if_splits)

lemma dlc_mtu: "dlc_length (mtu_as_bytes mtu)"
  by (cases mtu) (simp_all add: round_up_frame_length_def)

section \<open>Number of frames\<close>

lemma div_up_bounds:
  fixes l m t :: nat
  assumes "0 < m" and "t = max 1 ((l + (m - 1)) div m)"
  shows "l \<le> t * m" and "1 \<le> t" and "1 < t \<Longrightarrow> (t - 1) * m < l"
proof -
  let ?q = "(l + (m - 1)) div m"
  have q: "l + (m - 1) = ?q * m + (l + (m - 1)) mod m" by (rule div_mult_mod_eq [symmetric])
  have r: "(l + (m - 1)) mod m < m" using assms(1) by simp
  have "l \<le> ?q * m" using q r assms(1) by linarith
  also have "\<dots> \<le> t * m" using assms(2) by (intro mult_right_mono) auto
  finally show "l \<le> t * m" .
  show "1 \<le> t" using assms(2) by simp
  assume "1 < t"
  then have "t = ?q" using assms(2) by linarith
  moreover have "(t - 1) * m + m = t * m" using \<open>1 < t\<close> by (cases t) simp_all
  ultimately have "(t - 1) * m + m = ?q * m" by simp
  then show "(t - 1) * m < l" using q r assms(1) by linarith
qed

lemma div_up_unique:
  fixes total mtu t :: nat
  assumes "0 < mtu" and "(t - 1) * mtu < total" and "total \<le> t * mtu" and "1 \<le> t"
  shows "(total + mtu - 1) div mtu = t"
proof (rule div_nat_eqI)
  have "(t - 1) * mtu = t * mtu - mtu" by (simp add: diff_mult_distrib)
  moreover have "mtu \<le> t * mtu" using assms(4) by simp
  ultimately show "mtu * t \<le> total + mtu - 1" using assms(2) by (simp add: mult.commute)
  show "total + mtu - 1 < mtu * Suc t" using assms(1, 3) by (simp add: mult.commute)
qed

text \<open>
  The layout: with \<open>B\<close> bytes of payload, padding and CRC, the frames of \<open>mtu - 1\<close> bytes are
  full except for the last, which has a length CAN FD can represent.
\<close>

lemma frame_layout:
  fixes n mtu :: nat
  assumes "1 < mtu" and "dlc_length mtu"
  defines "c \<equiv> if n \<le> mtu - 1 then 0 else 2"
  shows "\<exists>t p. calculate_frame_stats n mtu = Some \<lparr>st_frames = t, st_last_frame_padding = p\<rparr>
    \<and> 1 \<le> t \<and> (1 < t \<longleftrightarrow> mtu - 1 < n) \<and> n + c + p \<le> t * (mtu - 1)
    \<and> (1 < t \<longrightarrow> (t - 1) * (mtu - 1) < n + c)
    \<and> round_up_frame_length (n + c - (t - 1) * (mtu - 1) + 1)
         = Some (n + c + p - (t - 1) * (mtu - 1) + 1)"
proof -
  let ?m = "mtu - 1"
  define t where "t = max 1 ((n + c + (?m - 1)) div ?m)"
  have m: "0 < ?m" using assms(1) by simp
  have mtu64: "mtu \<le> 64" using round_up_le64 [OF assms(2)] .
  note b = div_up_bounds [OF m t_def]
  let ?total = "n + c + t"
  have tm: "k * mtu = k * ?m + k" for k using assms(1) by (cases mtu) simp_all
  have low: "(t - 1) * mtu < ?total"
    using b(2) b(3) tm [of "t - 1"] by (cases "t = 1") auto
  have high: "?total \<le> t * mtu" using b(1) tm [of t] by simp
  have frames: "(?total + mtu - 1) div mtu = t"
    using div_up_unique [OF _ low high b(2)] assms(1) by simp
  obtain u where u: "t = Suc u" using b(2) by (cases t) simp_all
  obtain r where total: "?total = r + u * mtu" using low u le_Suc_ex [of "u * mtu" ?total] by auto
  have r: "1 \<le> r" "r \<le> mtu" using low high total u by simp_all
  have lastmod: "?total mod mtu = r mod mtu"
    unfolding total by (rule mod_mult_self1)
  obtain rr where rr: "round_up_frame_length r = Some rr"
    using round_up_exists [of r] r(2) mtu64 by auto
  have rr_le: "rr \<le> mtu" by (rule round_up_mono [OF r(2) rr assms(2)])
  obtain p where p: "rr = r + p" using round_up_ge [OF rr] le_Suc_ex by blast
  have "mtu \<le> 64 \<longleftrightarrow> True" "1 < mtu \<longleftrightarrow> True" using mtu64 assms(1) by simp_all
  then have calc: "calculate_frame_stats n mtu =
      (case round_up_frame_length (?total mod mtu) of None \<Rightarrow> None
       | Some l \<Rightarrow> Some \<lparr>st_frames = t, st_last_frame_padding = l - ?total mod mtu\<rparr>)"
    unfolding calculate_frame_stats_def Let_def c_def [symmetric] t_def [symmetric] frames
    by (simp only: not_True_eq_False if_False)
  have stats: "calculate_frame_stats n mtu = Some \<lparr>st_frames = t, st_last_frame_padding = p\<rparr>"
  proof (cases "r = mtu")
    case True
    then have "?total mod mtu = 0" using lastmod by simp
    then show ?thesis
      using calc True rr_le p by (simp add: round_up_frame_length_def [of 0])
  next
    case False
    then have "?total mod mtu = r" using lastmod r(2) by simp
    then show ?thesis using calc rr p by simp
  qed
  have iff: "1 < t \<longleftrightarrow> ?m < n"
  proof
    assume t: "1 < t"
    then have "?m \<le> (t - 1) * ?m" by (cases t) auto
    then have "?m < n + c" using b(3) [OF t] by linarith
    then show "?m < n" by (simp add: c_def split: if_splits)
  next
    assume "?m < n"
    then have "?m < t * ?m" using b(1) by linarith
    then show "1 < t" by simp
  qed
  have "n + c + 1 = r + u * ?m" using total tm [of u] u by simp
  then have "n + c - (t - 1) * ?m + 1 = r" "n + c + p - (t - 1) * ?m + 1 = rr"
    using r(1) p u by simp_all
  with rr have last: "round_up_frame_length (n + c - (t - 1) * ?m + 1)
      = Some (n + c + p - (t - 1) * ?m + 1)" by (simp only:)
  have "n + c + p \<le> t * ?m"
    using p rr_le total tm [of u] u assms(1) by simp
  then show ?thesis using stats b(2, 3) iff last by blast
qed

lemma mtu_gt_1: "1 < mtu_as_bytes mtu"
  by (cases mtu) simp_all

lemma stats_exist: "\<exists>s. calculate_frame_stats n (mtu_as_bytes mtu) = Some s"
  using frame_layout [OF mtu_gt_1 dlc_mtu, of n mtu] by blast

section \<open>The receiver's size limit\<close>

lemma padded_size:
  assumes "1 < mtu" and "dlc_length mtu" and "calculate_frame_stats n mtu = Some s"
  defines "b \<equiv> n + (if 1 < st_frames s then 2 else 0)"
  shows "1 \<le> st_frames s" and "1 < st_frames s \<longleftrightarrow> mtu - 1 < n"
    and "b + st_last_frame_padding s \<le> st_frames s * (mtu - 1)"
    and "1 < st_frames s \<Longrightarrow> (st_frames s - 1) * (mtu - 1) < b"
    and "round_up_frame_length (b - (st_frames s - 1) * (mtu - 1) + 1)
      = Some (b + st_last_frame_padding s - (st_frames s - 1) * (mtu - 1) + 1)"
proof -
  let ?c = "if n \<le> mtu - 1 then 0 else 2 :: nat"
  obtain t p where calc: "calculate_frame_stats n mtu = Some \<lparr>st_frames = t, st_last_frame_padding = p\<rparr>"
    and l:
      "1 \<le> t" "1 < t \<longleftrightarrow> mtu - 1 < n" "n + ?c + p \<le> t * (mtu - 1)"
      "1 < t \<longrightarrow> (t - 1) * (mtu - 1) < n + ?c"
      "round_up_frame_length (n + ?c - (t - 1) * (mtu - 1) + 1)
         = Some (n + ?c + p - (t - 1) * (mtu - 1) + 1)"
    using frame_layout [OF assms(1, 2), of n] by blast
  have t: "st_frames s = t" "st_last_frame_padding s = p" using calc assms(3) by simp_all
  have "n + ?c = b"
    unfolding b_def t(1) using l(2) by (cases "1 < t") simp_all
  note l = l [unfolded this]
  show "1 \<le> st_frames s" "1 < st_frames s \<longleftrightarrow> mtu - 1 < n"
    "b + st_last_frame_padding s \<le> st_frames s * (mtu - 1)"
    "round_up_frame_length (b - (st_frames s - 1) * (mtu - 1) + 1)
      = Some (b + st_last_frame_padding s - (st_frames s - 1) * (mtu - 1) + 1)"
    unfolding t by (fact l)+
  show "1 < st_frames s \<Longrightarrow> (st_frames s - 1) * (mtu - 1) < b" unfolding t using l(4) by blast
qed

text \<open>A larger maximum payload never gives a smaller limit.\<close>

lemma padded_size_mono:
  assumes mtu: "1 < mtu" "dlc_length mtu"
    and s: "calculate_frame_stats n mtu = Some s" and s': "calculate_frame_stats n' mtu = Some s'"
    and le: "n \<le> n'"
  shows "n + (if 1 < st_frames s then 2 else 0) + st_last_frame_padding s
      \<le> n' + (if 1 < st_frames s' then 2 else 0) + st_last_frame_padding s'"
proof -
  let ?m = "mtu - 1" and ?t = "st_frames s" and ?t' = "st_frames s'"
  define b where "b = n + (if 1 < ?t then 2 else 0)"
  define b' where "b' = n' + (if 1 < ?t' then 2 else 0)"
  note p = padded_size [OF mtu s, folded b_def] and p' = padded_size [OF mtu s', folded b'_def]
  have "1 < ?t \<Longrightarrow> 1 < ?t'" using p(2) p'(2) le by linarith
  then have bb: "b \<le> b'" using le by (simp add: b_def b'_def)
  consider "?t < ?t'" | "?t' < ?t" | "?t = ?t'" by linarith
  then have "b + st_last_frame_padding s \<le> b' + st_last_frame_padding s'"
  proof cases
    case 1
    then have "?t * ?m \<le> (?t' - 1) * ?m" by (intro mult_right_mono) simp_all
    with 1 p(1, 3) p'(4) show ?thesis by linarith
  next
    case 2
    then have "?t' * ?m \<le> (?t - 1) * ?m" by (intro mult_right_mono) simp_all
    with 2 bb p(1, 4) p'(1, 3) show ?thesis by linarith
  next
    case 3
    let ?k = "(?t - 1) * ?m"
    have "b - ?k + 1 \<le> b' - ?k + 1" using bb by simp
    from round_up_mono [OF this p(5) p'(5) [folded 3]]
    have "b + st_last_frame_padding s - ?k \<le> b' + st_last_frame_padding s' - ?k" by simp
    moreover have "?k \<le> b" using p(1, 4) by (cases "1 < ?t") auto
    ultimately show ?thesis using bb by linarith
  qed
  then show ?thesis by (simp only: b_def b'_def)
qed

end
