(* ===== verification/Can_Tx.thy ===== *)
theory Can_Tx
  imports Can_Id Can_Crc Can_Stats
begin

text \<open>
  Transmission (canadensis\_can: \<^verbatim>\<open>tx/breakdown.rs\<close>, \<^verbatim>\<open>tx.rs\<close>): the \<^verbatim>\<open>Breakdown\<close> that cuts a
  byte stream into frames with tail bytes, and the transmitter that pads a payload,
  appends its CRC and hands the frames to a driver. The frames of a transfer are also
  given as a list function, and the transmitter is shown to refine it.

  The driver is an argument, the record \<open>transmit_driver\<close> of its operations.
\<close>

section \<open>Breakdown\<close>

record Breakdown =
  bd_mtu :: nat
  bd_transfer_id :: CanTransferId
  bd_start :: bool
  bd_toggle :: bool
  bd_frame :: "u8 list"

definition TOGGLE_INIT :: bool where
  "TOGGLE_INIT = True"

definition breakdown_new :: "nat \<Rightarrow> CanTransferId \<Rightarrow> Breakdown" where
  "breakdown_new mtu transfer_id =
     \<lparr>bd_mtu = mtu, bd_transfer_id = transfer_id, bd_start = True, bd_toggle = TOGGLE_INIT,
      bd_frame = []\<rparr>"

definition breakdown_add ::
  "u8 hvec_ops \<Rightarrow> Breakdown \<Rightarrow> u8 \<Rightarrow> (u8 list option \<times> Breakdown) option" where
  "breakdown_add hv self byte = do {
     (ret_frame, self) \<leftarrow>
       (if length (bd_frame self) = bd_mtu self - 1 then do {
          frame \<leftarrow> hv_push hv (bd_frame self)
            (make_tail_byte (bd_start self) False (bd_toggle self) (bd_transfer_id self));
          Some (Some frame, self\<lparr>bd_start := False, bd_toggle := \<not> bd_toggle self, bd_frame := []\<rparr>)
        } else Some (None, self));
     frame \<leftarrow> hv_push hv (bd_frame self) byte;
     Some (ret_frame, self\<lparr>bd_frame := frame\<rparr>)
   }"

definition breakdown_finish :: "u8 hvec_ops \<Rightarrow> Breakdown \<Rightarrow> u8 list option" where
  "breakdown_finish hv self =
     hv_push hv (bd_frame self)
       (make_tail_byte (bd_start self) True (bd_toggle self) (bd_transfer_id self))"

section \<open>Transmitter\<close>

record CanTransmitter =
  tx_mtu :: nat
  tx_transfer_count :: u64
  tx_error_count :: u64

definition can_transmitter_new :: "Mtu \<Rightarrow> CanTransmitter" where
  "can_transmitter_new mtu = \<lparr>tx_mtu = mtu_as_bytes mtu, tx_transfer_count = 0, tx_error_count = 0\<rparr>"

definition set_mtu :: "Mtu \<Rightarrow> CanTransmitter \<Rightarrow> CanTransmitter" where
  "set_mtu mtu tx = tx\<lparr>tx_mtu := mtu_as_bytes mtu\<rparr>"

definition transmitter_mtu :: "CanTransmitter \<Rightarrow> nat" where
  "transmitter_mtu tx = tx_mtu tx - 1"

definition push_frame ::
  "u8 hvec_ops \<Rightarrow> ('d, 'i, 'e) transmit_driver \<Rightarrow> 'i \<Rightarrow> CanId \<Rightarrow> u8 list \<Rightarrow> 'i \<Rightarrow> 'd
   \<Rightarrow> (('e nb_error + unit) \<times> 'd) option" where
  "push_frame hv drv timestamp can_id data now driver = do {
     frame \<leftarrow> frame_new hv timestamp can_id data;
     let (result, driver) = td_transmit drv frame now driver;
     Some (map_sum id (\<lambda>_. ()) result, driver)
   }"

text \<open>
  The two byte loops of \<^verbatim>\<open>push_inner\<close>. The second one does not count frames; its count is
  not used.
\<close>

fun push_bytes ::
  "u8 hvec_ops \<Rightarrow> ('d, 'i, 'e) transmit_driver \<Rightarrow> 'i \<Rightarrow> CanId \<Rightarrow> 'i \<Rightarrow> u8 list \<Rightarrow> Breakdown \<Rightarrow> nat \<Rightarrow> 'd
   \<Rightarrow> (('e can_error nb_error + Breakdown \<times> nat) \<times> 'd) option" where
  "push_bytes hv drv timestamp can_id now [] breakdown frames driver =
     Some (Inr (breakdown, frames), driver)"
| "push_bytes hv drv timestamp can_id now (byte # bytes) breakdown frames driver =
     (case breakdown_add hv breakdown byte of
        None \<Rightarrow> None
      | Some (None, breakdown) \<Rightarrow>
          push_bytes hv drv timestamp can_id now bytes breakdown frames driver
      | Some (Some frame_data, breakdown) \<Rightarrow>
          (case push_frame hv drv timestamp can_id frame_data now driver of
             None \<Rightarrow> None
           | Some (Inl e, driver) \<Rightarrow> Some (Inl (map_nb_error Driver e), driver)
           | Some (Inr _, driver) \<Rightarrow>
               push_bytes hv drv timestamp can_id now bytes breakdown (frames + 1) driver))"

definition push_inner ::
  "u8 hvec_ops \<Rightarrow> ('d, 'i, 'e) transmit_driver \<Rightarrow> CanTransmitter \<Rightarrow> (u8 list, 'i) can_transfer \<Rightarrow> 'i
   \<Rightarrow> 'd \<Rightarrow> (('e can_error nb_error + unit) \<times> 'd) option" where
  "push_inner hv drv tx transfer now driver = do {
     let header = tr_header transfer;
     let payload = tr_payload transfer;
     frame_stats \<leftarrow> calculate_frame_stats (length payload) (tx_mtu tx);
     case td_try_reserve drv (st_frames frame_stats) driver of
       (Inl oom, driver) \<Rightarrow> Some (Inl (Other (Memory oom)), driver)
     | (Inr _, driver) \<Rightarrow> do {
         let payload_and_padding = payload @ replicate (st_last_frame_padding frame_stats) 0;
         let crc = crc_add_bytes crc_new payload_and_padding;
         can_id \<leftarrow> make_can_id header payload;
         let breakdown = breakdown_new (tx_mtu tx) (header_transfer_id header);
         first \<leftarrow> push_bytes hv drv (header_timestamp header) can_id now payload_and_padding
             breakdown 0 driver;
         case first of
           (Inl e, driver) \<Rightarrow> Some (Inl e, driver)
         | (Inr (breakdown, frames), driver) \<Rightarrow> do {
             second \<leftarrow> (if frames \<noteq> 0
               then push_bytes hv drv (header_timestamp header) can_id now (crc_bytes crc) breakdown 0
                 driver
               else Some (Inr (breakdown, 0), driver));
             case second of
               (Inl e, driver) \<Rightarrow> Some (Inl e, driver)
             | (Inr (breakdown, _), driver) \<Rightarrow> do {
                 last_frame_data \<leftarrow> breakdown_finish hv breakdown;
                 (result, driver) \<leftarrow> push_frame hv drv (header_timestamp header) can_id last_frame_data
                   now driver;
                 Some (map_sum (map_nb_error Driver) id result, driver)
               }
           }
       }
   }"

text \<open>\<^verbatim>\<open>push\<close> reads the clock once; \<open>now\<close> is that reading.\<close>

definition transmitter_push ::
  "u8 hvec_ops \<Rightarrow> ('d, 'i, 'e) transmit_driver \<Rightarrow> CanTransmitter \<Rightarrow> (u8 list, 'i) can_transfer \<Rightarrow> 'i
   \<Rightarrow> 'd \<Rightarrow> (('e can_error nb_error + unit) \<times> CanTransmitter \<times> 'd) option" where
  "transmitter_push hv drv tx transfer now driver = do {
     (result, driver) \<leftarrow> push_inner hv drv tx transfer now driver;
     case result of
       Inr _ \<Rightarrow> Some (Inr (), tx\<lparr>tx_transfer_count := tx_transfer_count tx + 1\<rparr>, driver)
     | Inl e \<Rightarrow> Some (Inl e, tx\<lparr>tx_error_count := tx_error_count tx + 1\<rparr>, driver)
   }"

definition transmitter_flush ::
  "('d, 'i, 'e) transmit_driver \<Rightarrow> 'i \<Rightarrow> 'd \<Rightarrow> (('e can_error nb_error + unit) \<times> 'd) option" where
  "transmitter_flush drv now driver =
     map_option (\<lambda>(result, driver). (map_sum (map_nb_error Driver) id result, driver))
       (td_flush drv now driver)"

section \<open>The frames of a transfer as a list\<close>

text \<open>Frame payloads of at most \<open>m\<close> bytes, each followed by its tail byte.\<close>

function frames_of :: "nat \<Rightarrow> CanTransferId \<Rightarrow> bool \<Rightarrow> bool \<Rightarrow> u8 list \<Rightarrow> u8 list list" where
  "frames_of m t start toggle bytes =
     (if m = 0 \<or> length bytes \<le> m then [bytes @ [make_tail_byte start True toggle t]]
      else (take m bytes @ [make_tail_byte start False toggle t])
           # frames_of m t False (\<not> toggle) (drop m bytes))"
  by auto

termination by (relation "measure (\<lambda>(m, t, s, g, bytes). length bytes)") auto

declare frames_of.simps [simp del]

text \<open>Payload, padding and, when it does not fit into one frame, the CRC.\<close>

definition transfer_bytes :: "nat \<Rightarrow> nat \<Rightarrow> u8 list \<Rightarrow> u8 list" where
  "transfer_bytes mtu padding payload =
     (let padded = payload @ replicate padding 0 in
      if length payload \<le> mtu - 1 then padded
      else padded @ crc_bytes (crc_add_bytes crc_new padded))"

definition mk_frame :: "'i \<Rightarrow> CanId \<Rightarrow> u8 list \<Rightarrow> 'i Frame" where
  "mk_frame timestamp can_id data = \<lparr>fr_timestamp = timestamp, fr_id = can_id, fr_data = data\<rparr>"

definition transfer_data :: "nat \<Rightarrow> 'i can_header \<Rightarrow> u8 list \<Rightarrow> u8 list list" where
  "transfer_data mtu h payload =
     (case calculate_frame_stats (length payload) mtu of
        None \<Rightarrow> []
      | Some stats \<Rightarrow> frames_of (mtu - 1) (header_transfer_id h) True True
          (transfer_bytes mtu (st_last_frame_padding stats) payload))"

definition transfer_frames :: "nat \<Rightarrow> 'i can_header \<Rightarrow> u8 list \<Rightarrow> 'i Frame list" where
  "transfer_frames mtu h payload =
     map (mk_frame (header_timestamp h) (CanId (header_bits h payload))) (transfer_data mtu h payload)"

text \<open>Handing frames to a driver one by one until it reports an error.\<close>

fun transmit_all ::
  "('d, 'i, 'e) transmit_driver \<Rightarrow> 'i \<Rightarrow> 'i Frame list \<Rightarrow> 'd \<Rightarrow> ('e can_error nb_error + unit) \<times> 'd" where
  "transmit_all drv now [] driver = (Inr (), driver)"
| "transmit_all drv now (f # fs) driver =
     (case td_transmit drv f now driver of
        (Inl e, driver) \<Rightarrow> (Inl (map_nb_error Driver e), driver)
      | (Inr _, driver) \<Rightarrow> transmit_all drv now fs driver)"

lemma transmit_all_append:
  "transmit_all drv now (xs @ ys) d =
     (case transmit_all drv now xs d of
        (Inl e, d') \<Rightarrow> (Inl e, d')
      | (Inr _, d') \<Rightarrow> transmit_all drv now ys d')"
  by (induction xs arbitrary: d) (auto split: prod.splits sum.splits)

section \<open>Breakdown without panics\<close>

definition bd_wf :: "Breakdown \<Rightarrow> bool" where
  "bd_wf bd \<longleftrightarrow> 1 < bd_mtu bd \<and> bd_mtu bd \<le> 64 \<and> length (bd_frame bd) < bd_mtu bd"

definition bd_step :: "Breakdown \<Rightarrow> u8 \<Rightarrow> u8 list list \<times> Breakdown" where
  "bd_step bd b =
     (if length (bd_frame bd) = bd_mtu bd - 1
      then ([bd_frame bd @ [make_tail_byte (bd_start bd) False (bd_toggle bd) (bd_transfer_id bd)]],
            bd\<lparr>bd_start := False, bd_toggle := \<not> bd_toggle bd, bd_frame := [b]\<rparr>)
      else ([], bd\<lparr>bd_frame := bd_frame bd @ [b]\<rparr>))"

fun bd_run :: "Breakdown \<Rightarrow> u8 list \<Rightarrow> u8 list list \<times> Breakdown" where
  "bd_run bd [] = ([], bd)"
| "bd_run bd (b # bs) =
     (let (out, bd) = bd_step bd b; (outs, bd) = bd_run bd bs in (out @ outs, bd))"

lemma breakdown_new_wf: "1 < mtu \<Longrightarrow> mtu \<le> 64 \<Longrightarrow> bd_wf (breakdown_new mtu t)"
  by (simp add: bd_wf_def breakdown_new_def)

lemma bd_step_wf: "bd_wf bd \<Longrightarrow> bd_wf (snd (bd_step bd b))"
  by (auto simp: bd_wf_def bd_step_def)

lemma bd_run_wf: "bd_wf bd \<Longrightarrow> bd_wf (snd (bd_run bd bs))"
  by (induction bs arbitrary: bd) (simp_all add: Let_def case_prod_beta bd_step_wf)

lemma bd_run_append:
  "bd_run bd (xs @ ys) =
     (let (o1, bd1) = bd_run bd xs; (o2, bd2) = bd_run bd1 ys in (o1 @ o2, bd2))"
  by (induction xs arbitrary: bd) (auto simp: Let_def split: prod.splits)

lemma breakdown_add_step:
  assumes "hvec_law 64 hv" and "bd_wf bd"
  shows "breakdown_add hv bd b =
    Some (case bd_step bd b of (out, bd') \<Rightarrow> (if out = [] then None else Some (hd out), bd'))"
  using assms by (auto simp: breakdown_add_def bd_step_def bd_wf_def hvec_lawD)

lemma breakdown_finish_step:
  assumes "hvec_law 64 hv" and "bd_wf bd"
  shows "breakdown_finish hv bd =
    Some (bd_frame bd @ [make_tail_byte (bd_start bd) True (bd_toggle bd) (bd_transfer_id bd)])"
  using assms by (simp add: breakdown_finish_def bd_wf_def hvec_lawD)

text \<open>A breakdown produces the reference frames.\<close>

lemma bd_run_frames:
  assumes "bd_wf bd"
  shows "(case bd_run bd bs of (outs, bd') \<Rightarrow>
      outs @ [bd_frame bd' @ [make_tail_byte (bd_start bd') True (bd_toggle bd') (bd_transfer_id bd')]])
    = frames_of (bd_mtu bd - 1) (bd_transfer_id bd) (bd_start bd) (bd_toggle bd) (bd_frame bd @ bs)"
  using assms
proof (induction bs arbitrary: bd)
  case Nil
  then show ?case by (auto simp: bd_wf_def frames_of.simps [where bytes = "bd_frame bd"])
next
  case (Cons b bs)
  note IH = Cons.IH [OF bd_step_wf [OF Cons.prems], of b]
  show ?case
  proof (cases "length (bd_frame bd) = bd_mtu bd - 1")
    case True
    then have "frames_of (bd_mtu bd - 1) (bd_transfer_id bd) (bd_start bd) (bd_toggle bd)
          (bd_frame bd @ b # bs)
        = (bd_frame bd @ [make_tail_byte (bd_start bd) False (bd_toggle bd) (bd_transfer_id bd)])
          # frames_of (bd_mtu bd - 1) (bd_transfer_id bd) False (\<not> bd_toggle bd) (b # bs)"
      using Cons.prems by (subst frames_of.simps) (simp add: bd_wf_def)
    with True IH show ?thesis by (auto simp: bd_step_def split: prod.splits)
  next
    case False
    with IH show ?thesis by (auto simp: bd_step_def split: prod.splits)
  qed
qed

section \<open>The transmitter refines the list of frames\<close>

lemma frames_of_sizes:
  assumes "0 < m"
  shows "\<forall>f \<in> set (frames_of m t s g bytes). 0 < length f \<and> length f \<le> m + 1"
  using assms
proof (induction m t s g bytes rule: frames_of.induct)
  case (1 m t s g bytes)
  then show ?case by (subst frames_of.simps) auto
qed

lemma bd_step_out: "bd_wf bd \<Longrightarrow> f \<in> set (fst (bd_step bd b)) \<Longrightarrow> length f \<le> 64"
  by (auto simp: bd_step_def bd_wf_def split: if_splits)

lemma push_frame_ok:
  assumes "hvec_law 64 hv" and "length data \<le> 64"
  shows "push_frame hv drv i c data now d =
    Some (case td_transmit drv (mk_frame i c data) now d of (r, d') \<Rightarrow> (map_sum id (\<lambda>_. ()) r, d'))"
  using assms by (simp add: push_frame_def frame_new_def hvec_lawD mk_frame_def case_prod_beta)

lemma push_frame_last:
  assumes "hvec_law 64 hv" and "length data \<le> 64"
  shows "Option.bind (push_frame hv drv i c data now d)
      (\<lambda>(result, d'). Some (map_sum (map_nb_error Driver) id result, d'))
    = Some (transmit_all drv now [mk_frame i c data] d)"
  by (auto simp: push_frame_ok [OF assms] split: prod.splits sum.splits)

lemma push_bytes_run:
  assumes "hvec_law 64 hv" and "bd_wf bd"
  shows "push_bytes hv drv i c now bs bd n d =
    Some (case bd_run bd bs of (outs, bd') \<Rightarrow>
      (case transmit_all drv now (map (mk_frame i c) outs) d of
         (Inl e, d') \<Rightarrow> (Inl e, d')
       | (Inr _, d') \<Rightarrow> (Inr (bd', n + length outs), d')))"
  using assms(2)
proof (induction bs arbitrary: bd n d)
  case (Cons b bs)
  obtain out bd1 where st: "bd_step bd b = (out, bd1)" by (cases "bd_step bd b")
  obtain outs bd2 where run: "bd_run bd1 bs = (outs, bd2)" by (cases "bd_run bd1 bs")
  have wf1: "bd_wf bd1" using bd_step_wf [OF Cons.prems, of b] st by simp
  note add = breakdown_add_step [OF assms(1) Cons.prems, of b, unfolded st, simplified]
  note IH = Cons.IH [OF wf1, unfolded run, simplified]
  show ?case
  proof (cases "out = []")
    case True
    then show ?thesis by (simp add: add IH st run)
  next
    case False
    then obtain f where f: "out = [f]" using st by (auto simp: bd_step_def split: if_splits)
    have "length f \<le> 64" using bd_step_out [OF Cons.prems, of f b] st f by simp
    with f show ?thesis
      by (auto simp: add IH st run push_frame_ok [OF assms(1)] split: prod.splits sum.splits)
  qed
qed simp

lemma transfer_bytes_count:
  assumes "1 < mtu" and "dlc_length mtu" and "calculate_frame_stats (length payload) mtu = Some s"
  shows "length (transfer_bytes mtu (st_last_frame_padding s) payload)
      = length payload + (if 1 < st_frames s then 2 else 0) + st_last_frame_padding s"
  using padded_size [OF assms] by (auto simp: transfer_bytes_def Let_def crc_bytes_def)

lemma bd_run_emits:
  assumes "bd_wf bd"
  shows "fst (bd_run bd bs) = [] \<longleftrightarrow> length (bd_frame bd) + length bs < bd_mtu bd"
  using assms
proof (induction bs arbitrary: bd)
  case (Cons b bs)
  from Cons.IH [OF bd_step_wf [OF Cons.prems], of b] Cons.prems
  show ?case by (auto simp: bd_step_def bd_wf_def split: prod.splits if_splits)
qed (simp add: bd_wf_def)

lemma transfer_data_run:
  fixes h :: "'i can_header"
  assumes mtu: "1 < mtu" "dlc_length mtu" and s: "calculate_frame_stats (length p) mtu = Some s"
    and r1: "bd_run (breakdown_new mtu (header_transfer_id h)) (p @ replicate (st_last_frame_padding s) 0)
      = (o1, bd1)"
    and r2: "bd_run bd1 (crc_bytes (crc_add_bytes crc_new (p @ replicate (st_last_frame_padding s) 0)))
      = (o2, bd2)"
    and bd': "bd' = (if o1 = [] then bd1 else bd2)"
  shows "transfer_data mtu h p = (if o1 = [] then [] else o1 @ o2)
    @ [bd_frame bd' @ [make_tail_byte (bd_start bd') True (bd_toggle bd') (bd_transfer_id bd')]]"
proof -
  let ?pp = "p @ replicate (st_last_frame_padding s) 0"
  let ?bd = "breakdown_new mtu (header_transfer_id h)"
  let ?crc = "crc_bytes (crc_add_bytes crc_new ?pp)"
  have bd: "bd_wf ?bd" using mtu round_up_le64 by (intro breakdown_new_wf) auto
  note st = padded_size [OF mtu s]
  have single: "st_frames s = 1" if "\<not> 1 < st_frames s" using that st(1) by simp
  have one: "o1 = [] \<longleftrightarrow> length p \<le> mtu - 1"
    using bd_run_emits [OF bd, of ?pp] r1 st(2, 3) mtu(1) single
    by (cases "1 < st_frames s") (auto simp: breakdown_new_def)
  have r12: "bd_run ?bd (?pp @ ?crc) = (o1 @ o2, bd2)"
    by (simp only: bd_run_append [of ?bd ?pp ?crc] r1 r2 Let_def case_prod_conv)
  show ?thesis
    using bd_run_frames [OF bd, of ?pp, unfolded r1] bd_run_frames [OF bd, of "?pp @ ?crc", unfolded r12]
      one bd' s
    by (auto simp: transfer_data_def transfer_bytes_def Let_def breakdown_new_def TOGGLE_INIT_def)
qed

lemma push_inner_transmits:
  assumes hv: "hvec_law 64 hv" and wf: "can_header_wf (tr_header tr)"
    and mtu: "1 < tx_mtu tx" "dlc_length (tx_mtu tx)"
    and s: "calculate_frame_stats (length (tr_payload tr)) (tx_mtu tx) = Some s"
    and res: "td_try_reserve drv (st_frames s) d = (Inr u, d0)"
  shows "push_inner hv drv tx tr now d =
    Some (transmit_all drv now (transfer_frames (tx_mtu tx) (tr_header tr) (tr_payload tr)) d0)"
proof -
  let ?h = "tr_header tr" and ?p = "tr_payload tr"
  let ?pp = "?p @ replicate (st_last_frame_padding s) 0"
  let ?bd = "breakdown_new (tx_mtu tx) (header_transfer_id ?h)"
  let ?crc = "crc_bytes (crc_add_bytes crc_new ?pp)"
  have bd: "bd_wf ?bd" using mtu round_up_le64 by (intro breakdown_new_wf) auto
  obtain o1 bd1 where r1: "bd_run ?bd ?pp = (o1, bd1)" by (cases "bd_run ?bd ?pp")
  obtain o2 bd2 where r2: "bd_run bd1 ?crc = (o2, bd2)" by (cases "bd_run bd1 ?crc")
  have bd1: "bd_wf bd1" using bd_run_wf [OF bd, of ?pp] r1 by simp
  have bd2: "bd_wf bd2" using bd_run_wf [OF bd1, of ?crc] r2 by simp
  have len: "length (bd_frame bd1) < 64" "length (bd_frame bd2) < 64"
    using bd1 bd2 by (auto simp: bd_wf_def)
  note run1 = push_bytes_run [OF hv bd, of _ _ _ _ ?pp, unfolded r1]
    and run2 = push_bytes_run [OF hv bd1, of _ _ _ _ ?crc, unfolded r2]
    and data = transfer_data_run [OF mtu s r1 r2]
  show ?thesis
  proof (cases "o1 = []")
    case True
    then show ?thesis
      using res s len make_can_id_bits(1) [OF wf, of ?p]
      by (simp add: push_inner_def Let_def run1 breakdown_finish_step [OF hv bd1]
          push_frame_last [OF hv] data transfer_frames_def)
  next
    case False
    then show ?thesis
      using res s len make_can_id_bits(1) [OF wf, of ?p]
      by (simp add: push_inner_def Let_def run1 run2 breakdown_finish_step [OF hv bd2]
          push_frame_last [OF hv] data transfer_frames_def transmit_all_append
          split: prod.split sum.split)
  qed
qed

section \<open>Number and size of the frames\<close>

lemma frames_of_layout:
  assumes "0 < m" and "1 \<le> n" and "length bytes \<le> n * m" and "1 < n \<Longrightarrow> (n - 1) * m < length bytes"
  shows "length (frames_of m t s g bytes) = n
    \<and> (\<forall>f \<in> set (butlast (frames_of m t s g bytes)). length f = m + 1)
    \<and> length (last (frames_of m t s g bytes)) = length bytes - (n - 1) * m + 1"
  using assms(2-4)
proof (induction n arbitrary: bytes s g rule: nat_induct_at_least)
  case base
  then show ?case by (simp add: frames_of.simps)
next
  case (Suc n)
  have big: "m < length bytes"
  proof -
    have "m \<le> n * m" using Suc.hyps by simp
    moreover have "n * m < length bytes" using Suc.prems(2) Suc.hyps by simp
    ultimately show ?thesis by (rule le_less_trans)
  qed
  have "(n - 1) * m + m = n * m" using Suc.hyps by (cases n) simp_all
  then have "1 < n \<Longrightarrow> (n - 1) * m < length (drop m bytes)"
    using Suc.prems(2) Suc.hyps by simp
  moreover have "length (drop m bytes) \<le> n * m" using Suc.prems(1) by simp
  ultimately have IH: "length (frames_of m t False (\<not> g) (drop m bytes)) = n
      \<and> (\<forall>f \<in> set (butlast (frames_of m t False (\<not> g) (drop m bytes))). length f = m + 1)
      \<and> length (last (frames_of m t False (\<not> g) (drop m bytes)))
        = length (drop m bytes) - (n - 1) * m + 1" by (rule Suc.IH [rotated])
  then have "frames_of m t False (\<not> g) (drop m bytes) \<noteq> []" using Suc.hyps by auto
  with IH big \<open>(n - 1) * m + m = n * m\<close> assms(1) show ?case
    by (subst (1 2 3) frames_of.simps) auto
qed

lemma transfer_data_layout:
  assumes mtu: "1 < mtu" "dlc_length mtu" and s: "calculate_frame_stats (length p) mtu = Some s"
  shows "length (transfer_data mtu h p) = st_frames s"
    and "f \<in> set (butlast (transfer_data mtu h p)) \<Longrightarrow> length f = mtu"
    and "f \<in> set (transfer_data mtu h p) \<Longrightarrow> dlc_length (length f) \<and> length f \<le> mtu"
proof -
  let ?b = "transfer_bytes mtu (st_last_frame_padding s) p" and ?n = "st_frames s"
  let ?fs = "transfer_data mtu h p"
  note st = padded_size [OF mtu s] and len = transfer_bytes_count [OF mtu s]
  have fs: "?fs = frames_of (mtu - 1) (header_transfer_id h) True True ?b"
    using s by (simp add: transfer_data_def)
  have "0 < mtu - 1" "length ?b \<le> ?n * (mtu - 1)" "1 < ?n \<Longrightarrow> (?n - 1) * (mtu - 1) < length ?b"
    using mtu(1) st(3, 4) unfolding len by simp_all
  note lay = frames_of_layout [OF this(1) st(1) this(2, 3), of "header_transfer_id h" True True, folded fs]
  then show n: "length ?fs = ?n" by blast
  have but: "length f = mtu" if "f \<in> set (butlast ?fs)" for f
    using lay mtu(1) that by auto
  have last: "length (last ?fs) = length ?b - (?n - 1) * (mtu - 1) + 1" using lay by blast
  have "dlc_length (length (last ?fs))"
    unfolding last len using round_up_dlc [OF st(5)] by simp
  moreover have "length (last ?fs) \<le> mtu"
    using frames_of_sizes [OF \<open>0 < mtu - 1\<close>, of "header_transfer_id h" True True ?b] n st(1) mtu(1)
      last_in_set [of ?fs]
    unfolding fs [symmetric] by (cases "?fs = []") auto
  moreover have "set ?fs = set (butlast ?fs @ [last ?fs])"
    using n st(1) by (cases "?fs = []") simp_all
  ultimately show "f \<in> set ?fs \<Longrightarrow> dlc_length (length f) \<and> length f \<le> mtu"
    using but mtu(2) by auto
  show "f \<in> set (butlast ?fs) \<Longrightarrow> length f = mtu" by (rule but)
qed

text \<open>A driver that records every frame, at which the driver parameter is instantiated.\<close>

definition log_driver :: "('i Frame list, 'i, unit) transmit_driver" where
  "log_driver = \<lparr>td_try_reserve = (\<lambda>n d. (Inr (), d)), td_transmit = (\<lambda>f now d. (Inr None, d @ [f])),
     td_flush = (\<lambda>now d. Some (Inr (), d))\<rparr>"

lemma log_driver_ops:
  "td_try_reserve log_driver n d = (Inr (), d)" "td_transmit log_driver f now d = (Inr None, d @ [f])"
  by (simp_all add: log_driver_def)

definition example_header :: "nat can_header" where
  "example_header = Message \<lparr>mh_timestamp = 9, mh_transfer_id = CanTransferId 3,
     mh_priority = Nominal, mh_subject = SubjectId 7509, mh_source = Some (CanNodeId 42)\<rparr>"

lemma example_header_wf: "can_header_wf example_header"
  by (simp add: example_header_def subject_wf_def VALID_SUBJECT_IDS_end_def tid_wf_def
      VALID_TRANSFER_IDS_end_def node_wf_def VALID_NODE_IDS_end_def)

lemma transmitter_push_frames:
  assumes "hvec_law 64 hv" and "can_header_wf (tr_header tr)" and "tx_mtu tx = mtu_as_bytes mtu"
  defines "frames \<equiv> transfer_frames (tx_mtu tx) (tr_header tr) (tr_payload tr)"
  shows "transmitter_push hv drv tx tr now d =
    Some (case td_try_reserve drv (length frames) d of
        (Inl oom, d') \<Rightarrow>
          (Inl (Other (Memory oom)), tx\<lparr>tx_error_count := tx_error_count tx + 1\<rparr>, d')
      | (Inr _, d') \<Rightarrow>
          (case transmit_all drv now frames d' of
             (Inl e, d'') \<Rightarrow> (Inl e, tx\<lparr>tx_error_count := tx_error_count tx + 1\<rparr>, d'')
           | (Inr _, d'') \<Rightarrow> (Inr (), tx\<lparr>tx_transfer_count := tx_transfer_count tx + 1\<rparr>, d'')))"
proof -
  have mtu: "1 < tx_mtu tx" "dlc_length (tx_mtu tx)"
    using mtu_as_bytes_cases [of mtu] dlc_mtu [of mtu] unfolding assms(3) by auto
  obtain s where s: "calculate_frame_stats (length (tr_payload tr)) (tx_mtu tx) = Some s"
    using frame_layout [OF mtu] by blast
  have n: "length frames = st_frames s"
    using transfer_data_layout(1) [OF mtu s] by (simp add: frames_def transfer_frames_def)
  show ?thesis
  proof (cases "td_try_reserve drv (st_frames s) d")
    case (Pair r d0)
    show ?thesis
    proof (cases r)
      case (Inl oom)
      with Pair s n show ?thesis by (simp add: transmitter_push_def push_inner_def)
    next
      case (Inr u)
      show ?thesis
        unfolding transmitter_push_def push_inner_transmits [OF assms(1, 2) mtu s Pair [unfolded Inr]] n
        using Pair Inr by (simp add: frames_def split: prod.split sum.split)
    qed
  qed
qed

section \<open>Properties\<close>

text \<open>
  C2: pushing a transfer, for a header with valid fields and either MTU, never panics. It
  first reserves room for exactly the number of frames it then transmits. When the
  reservation fails nothing is transmitted and the error is returned; otherwise the
  driver is given the frames of the transfer in order until it reports an error. The
  transfer or the error counter goes up by one.
\<close>

theorem push_refines_frame_list:
  assumes "hvec_law 64 hv" and "can_header_wf (tr_header tr)" and "tx_mtu tx = mtu_as_bytes mtu"
  defines "frames \<equiv> transfer_frames (tx_mtu tx) (tr_header tr) (tr_payload tr)"
  shows "transmitter_push hv drv tx tr now d =
    Some (case td_try_reserve drv (length frames) d of
        (Inl oom, d') \<Rightarrow>
          (Inl (Other (Memory oom)), tx\<lparr>tx_error_count := tx_error_count tx + 1\<rparr>, d')
      | (Inr _, d') \<Rightarrow>
          (case transmit_all drv now frames d' of
             (Inl e, d'') \<Rightarrow> (Inl e, tx\<lparr>tx_error_count := tx_error_count tx + 1\<rparr>, d'')
           | (Inr _, d'') \<Rightarrow> (Inr (), tx\<lparr>tx_transfer_count := tx_transfer_count tx + 1\<rparr>, d'')))"
  unfolding frames_def by (rule transmitter_push_frames [OF assms(1-3)])

theorem push_refines_frame_list_witness:
  "map_option (\<lambda>(r, tx, d). (r, map fr_data d))
     (transmitter_push (list_hvec 64) log_driver (can_transmitter_new Can8)
       \<lparr>tr_header = example_header, tr_payload = [1, 2, 3]\<rparr> 0 [])
   = Some (Inr (), [[1, 2, 3, 0xe3]])"
proof -
  have "transfer_data 8 example_header [1, 2, 3]
      = [[1, 2, 3, 0xe3]]"
    by code_simp
  then show ?thesis
    using push_refines_frame_list [OF list_hvec_law, of
        "\<lparr>tr_header = example_header, tr_payload = [1, 2, 3]\<rparr>"
        "can_transmitter_new Can8" Can8 log_driver 0 "[]"]
    by (simp add: example_header_wf can_transmitter_new_def log_driver_ops
        transfer_frames_def mk_frame_def comp_def)
qed

text \<open>
  The frames of a transfer are as many as the frame statistics announce, every frame has
  a length that a CAN FD data length code can express and that does not exceed the MTU,
  and all frames before the last are full.
\<close>

lemma transfer_frames_layout:
  fixes h :: "'i can_header"
  assumes "calculate_frame_stats (length payload) (mtu_as_bytes mtu) = Some s"
  defines "fs \<equiv> transfer_frames (mtu_as_bytes mtu) h payload"
  shows "length fs = st_frames s
    \<and> (\<forall>f \<in> set fs. dlc_length (length (fr_data f)) \<and> length (fr_data f) \<le> mtu_as_bytes mtu)
    \<and> (\<forall>f \<in> set (butlast fs). length (fr_data f) = mtu_as_bytes mtu)"
proof -
  have mtu: "1 < mtu_as_bytes mtu" "dlc_length (mtu_as_bytes mtu)"
    using mtu_as_bytes_cases [of mtu] dlc_mtu [of mtu] by auto
  show ?thesis
    using transfer_data_layout [OF mtu assms(1), where h = h]
    by (auto simp: fs_def transfer_frames_def mk_frame_def map_butlast [symmetric])
qed

end
