(* ===== verification/Can_Rx.thy ===== *)
theory Can_Rx
  imports Can_Id Can_Crc Can_Stats Core_Subscription
begin

text \<open>
  Reception (canadensis\_can: \<^verbatim>\<open>rx/buildup.rs\<close>, \<^verbatim>\<open>rx/session.rs\<close>, \<^verbatim>\<open>rx/subscription.rs\<close>,
  \<^verbatim>\<open>rx.rs\<close>): reassembly of frames into transfers, one session per source node of a
  subscription, and the receiver with its three subscription lists.

  Log messages are left out. The instant type enters through \<open>since\<close>, its
  \<^verbatim>\<open>duration_since\<close>. Memory allocation can fail; the outcomes for one frame are the record
  \<open>alloc\<close>, an argument of the operations that allocate.
\<close>

record alloc =
  al_capacity :: "nat \<Rightarrow> bool"  \<comment> \<open>\<^verbatim>\<open>try_with_capacity(n)\<close> succeeds\<close>
  al_box :: bool  \<comment> \<open>\<^verbatim>\<open>FallibleBox::try_new\<close> succeeds\<close>
  al_extend :: "nat \<Rightarrow> bool"  \<comment> \<open>growing a full vector by \<open>n\<close> bytes succeeds\<close>

text \<open>\<^verbatim>\<open>try_extend_from_slice\<close> on a vector with some capacity and length: within the capacity nothing is allocated.\<close>

definition try_extend :: "alloc \<Rightarrow> nat \<Rightarrow> nat \<Rightarrow> nat \<Rightarrow> bool" where
  "try_extend al capacity len n \<longleftrightarrow> len + n \<le> capacity \<or> al_extend al n"

section \<open>Buildup\<close>

record Buildup =
  bu_transfer_id :: CanTransferId
  bu_frames :: nat
  bu_expect_start :: bool
  bu_expect_toggle :: bool
  bu_transfer :: "u8 list"
  bu_capacity :: nat  \<comment> \<open>of the vector \<^verbatim>\<open>transfer\<close>\<close>

datatype BuildupError = OutOfMemory | InvalidStart | InvalidToggle

definition buildup_new :: "alloc \<Rightarrow> CanTransferId \<Rightarrow> nat \<Rightarrow> out_of_memory_error + Buildup" where
  "buildup_new al transfer_id max_payload_length =
     (if al_capacity al max_payload_length
      then Inr \<lparr>bu_transfer_id = transfer_id, bu_frames = 0, bu_expect_start = True,
                bu_expect_toggle = True, bu_transfer = [], bu_capacity = max_payload_length\<rparr>
      else Inl OutOfMemoryError)"

definition buildup_add ::
  "alloc \<Rightarrow> Buildup \<Rightarrow> u8 list \<Rightarrow> ((BuildupError + u8 list option) \<times> Buildup) option" where
  "buildup_add al self frame_data =
     (let self = self\<lparr>bu_frames := bu_frames self + 1\<rparr> in
      if frame_data = [] then None
      else do {
        tail \<leftarrow> tail_byte_parse (last frame_data);
        if tb_start tail \<noteq> bu_expect_start self then Some (Inl InvalidStart, self)
        else if tb_toggle tail \<noteq> bu_expect_toggle self then Some (Inl InvalidToggle, self)
        else if tb_transfer_id tail \<noteq> bu_transfer_id self then None
        else
          (let self = self\<lparr>bu_expect_start := False, bu_expect_toggle := \<not> bu_expect_toggle self\<rparr>;
               frame_without_tail = butlast frame_data in
           if try_extend al (bu_capacity self) (length (bu_transfer self)) (length frame_without_tail)
           then
             (let data = bu_transfer self @ frame_without_tail in
              if tb_end tail then Some (Inr (Some data), self\<lparr>bu_transfer := [], bu_capacity := 0\<rparr>)
              else Some (Inr None, self\<lparr>bu_transfer := data, bu_capacity := max (bu_capacity self) (length data)\<rparr>))
           else Some (Inl OutOfMemory, self))
      })"

section \<open>Session\<close>

record 'i Session =
  se_transfer_timestamp :: 'i
  se_buildup :: Buildup

datatype SessionError = Crc | PayloadLength | Timeout | Buildup BuildupError
  | SessionMemory out_of_memory_error

definition session_new ::
  "alloc \<Rightarrow> 'i \<Rightarrow> CanTransferId \<Rightarrow> nat \<Rightarrow> out_of_memory_error + 'i Session" where
  "session_new al transfer_timestamp transfer_id max_payload_length =
     map_sum id (\<lambda>b. \<lparr>se_transfer_timestamp = transfer_timestamp, se_buildup = b\<rparr>)
       (buildup_new al transfer_id max_payload_length)"

text \<open>Truncating to \<^verbatim>\<open>len - 2\<close> panics when there are fewer than two bytes.\<close>

definition handle_transfer_data ::
  "'i Session \<Rightarrow> u8 list \<Rightarrow> 'i can_header
   \<Rightarrow> (SessionError + (u8 list, 'i) can_transfer option) option" where
  "handle_transfer_data self transfer_data frame_header =
     (let finish = (\<lambda>data. Some (Inr (Some
            \<lparr>tr_header = set_timestamp (se_transfer_timestamp self) frame_header, tr_payload = data\<rparr>))) in
      if bu_frames (se_buildup self) > 1 then
        (if crc_get (crc_add_bytes crc_new transfer_data) \<noteq> 0 then Some (Inl Crc)
         else if length transfer_data < 2 then None
         else finish (take (length transfer_data - 2) transfer_data))
      else finish transfer_data)"

definition session_accept ::
  "('i \<Rightarrow> 'i \<Rightarrow> 'd::linorder) \<Rightarrow> alloc \<Rightarrow> 'i Session \<Rightarrow> 'i Frame \<Rightarrow> 'i can_header \<Rightarrow> TailByte \<Rightarrow> nat \<Rightarrow> 'd
   \<Rightarrow> ((SessionError + (u8 list, 'i) can_transfer option) \<times> 'i Session) option" where
  "session_accept since al self frame frame_header tail max_payload_length transfer_timeout =
     (if tb_transfer_id tail \<noteq> bu_transfer_id (se_buildup self) then Some (Inr None, self)
      else if fr_data frame = [] then None
      else if length (bu_transfer (se_buildup self)) + (length (fr_data frame) - 1) > max_payload_length
      then Some (Inl PayloadLength, self)
      else if since (fr_timestamp frame) (se_transfer_timestamp self) > transfer_timeout
      then Some (Inl Timeout, self)
      else do {
        (status, buildup) \<leftarrow> buildup_add al (se_buildup self) (fr_data frame);
        let self = self\<lparr>se_buildup := buildup\<rparr>;
        case status of
          Inl e \<Rightarrow> Some (Inl (Buildup e), self)
        | Inr (Some transfer_data) \<Rightarrow> do {
            r \<leftarrow> handle_transfer_data self transfer_data frame_header;
            Some (r, self)
          }
        | Inr None \<Rightarrow> Some (Inr None, self)
      })"

section \<open>Subscription\<close>

definition RX_SESSIONS_PER_SUBSCRIPTION :: nat where
  "RX_SESSIONS_PER_SUBSCRIPTION = unat (node_bits node_MAX) + 1"

record ('i, 'd) RxSubscription =
  sub_sessions :: "'i Session option list"
  sub_timeout :: 'd
  sub_payload_size_max :: nat
  sub_port_id :: PortId

datatype SubscriptionError = NotStart | SessionErr SessionError | SubMemory out_of_memory_error

definition init_rx_sessions :: "'i Session option list" where
  "init_rx_sessions = replicate RX_SESSIONS_PER_SUBSCRIPTION None"

definition subscription_new :: "'d \<Rightarrow> nat \<Rightarrow> PortId \<Rightarrow> Mtu \<Rightarrow> ('i, 'd) RxSubscription option" where
  "subscription_new timeout payload_size_max port_id mtu =
     map_option (\<lambda>size. \<lparr>sub_sessions = init_rx_sessions, sub_timeout = timeout,
         sub_payload_size_max = size, sub_port_id = port_id\<rparr>)
       (add_padding_and_crc_space payload_size_max mtu)"

type_synonym ('i, 'd) sub_result =
  "((SubscriptionError + (u8 list, 'i) can_transfer option) \<times> ('i, 'd) RxSubscription) option"

text \<open>The session in the slot of the source node, or a new one for the first frame of a transfer.\<close>

definition session_for_frame ::
  "alloc \<Rightarrow> ('i, 'd) RxSubscription \<Rightarrow> nat \<Rightarrow> 'i can_header \<Rightarrow> TailByte \<Rightarrow> SubscriptionError + 'i Session" where
  "session_for_frame al self slot frame_header tail =
     (case sub_sessions self ! slot of
        Some session \<Rightarrow> Inr session
      | None \<Rightarrow>
          if \<not> tb_start tail then Inl NotStart
          else (case session_new al (header_timestamp frame_header) (tb_transfer_id tail)
                    (sub_payload_size_max self) of
                  Inl oom \<Rightarrow> Inl (SubMemory oom)
                | Inr session \<Rightarrow>
                    if al_box al then Inr session else Inl (SubMemory OutOfMemoryError)))"

definition put_session :: "nat \<Rightarrow> 'i Session option \<Rightarrow> ('i, 'd) RxSubscription \<Rightarrow> ('i, 'd) RxSubscription" where
  "put_session slot s self = self\<lparr>sub_sessions := (sub_sessions self)[slot := s]\<rparr>"

text \<open>What becomes of the slot: a finished or failed session is deleted.\<close>

fun conclude_accept ::
  "('i, 'd) RxSubscription \<Rightarrow> nat \<Rightarrow> (SessionError + (u8 list, 'i) can_transfer option) \<times> 'i Session
   \<Rightarrow> (SubscriptionError + (u8 list, 'i) can_transfer option) \<times> ('i, 'd) RxSubscription" where
  "conclude_accept self slot (Inr (Some transfer), session) = (Inr (Some transfer), put_session slot None self)"
| "conclude_accept self slot (Inr None, session) = (Inr None, put_session slot (Some session) self)"
| "conclude_accept self slot (Inl e, session) = (Inl (SessionErr e), put_session slot None self)"

definition accept_with_session ::
  "('i \<Rightarrow> 'i \<Rightarrow> 'd::linorder) \<Rightarrow> alloc \<Rightarrow> ('i, 'd) RxSubscription \<Rightarrow> 'i Frame \<Rightarrow> 'i can_header \<Rightarrow> CanNodeId
   \<Rightarrow> TailByte \<Rightarrow> ('i, 'd) sub_result" where
  "accept_with_session since al self frame frame_header source_node tail =
     (let slot = usize_from_node source_node in
      if \<not> slot < length (sub_sessions self) then None
      else case session_for_frame al self slot frame_header tail of
             Inl e \<Rightarrow> Some (Inl e, self)
           | Inr session \<Rightarrow>
               map_option (conclude_accept self slot)
                 (session_accept since al session frame frame_header tail (sub_payload_size_max self)
                   (sub_timeout self)))"

text \<open>The payload of a frame without its tail byte; slicing an empty frame panics.\<close>

definition single_frame ::
  "alloc \<Rightarrow> ('i, 'd) RxSubscription \<Rightarrow> 'i Frame \<Rightarrow> 'i can_header \<Rightarrow> ('i, 'd) sub_result" where
  "single_frame al self frame frame_header =
     (if fr_data frame = [] then None
      else if try_extend al 0 0 (length (fr_data frame) - 1)
      then Some (Inr (Some \<lparr>tr_header = frame_header, tr_payload = butlast (fr_data frame)\<rparr>), self)
      else Some (Inl (SubMemory OutOfMemoryError), self))"

definition accept_non_anonymous ::
  "('i \<Rightarrow> 'i \<Rightarrow> 'd::linorder) \<Rightarrow> alloc \<Rightarrow> ('i, 'd) RxSubscription \<Rightarrow> 'i Frame \<Rightarrow> 'i can_header \<Rightarrow> CanNodeId
   \<Rightarrow> TailByte \<Rightarrow> ('i, 'd) sub_result" where
  "accept_non_anonymous since al self frame frame_header source_node tail =
     (if tb_start tail \<and> tb_end tail then
        (if length (fr_data frame) > sub_payload_size_max self + 1
         then Some (Inl (SessionErr PayloadLength), self)
         else single_frame al self frame frame_header)
      else accept_with_session since al self frame frame_header source_node tail)"

definition accept_anonymous ::
  "alloc \<Rightarrow> ('i, 'd) RxSubscription \<Rightarrow> 'i Frame \<Rightarrow> 'i can_header \<Rightarrow> ('i, 'd) sub_result" where
  "accept_anonymous al self frame frame_header = single_frame al self frame frame_header"

definition subscription_accept ::
  "('i \<Rightarrow> 'i \<Rightarrow> 'd::linorder) \<Rightarrow> alloc \<Rightarrow> ('i, 'd) RxSubscription \<Rightarrow> 'i Frame \<Rightarrow> 'i can_header \<Rightarrow> TailByte
   \<Rightarrow> ('i, 'd) sub_result" where
  "subscription_accept since al self frame frame_header tail =
     (case header_source frame_header of
        Some source_node \<Rightarrow> accept_non_anonymous since al self frame frame_header source_node tail
      | None \<Rightarrow> accept_anonymous al self frame frame_header)"

section \<open>Receiver\<close>

datatype TransferKind = KindMessage | KindRequest | KindResponse

fun kind_from_header :: "'i can_header \<Rightarrow> TransferKind" where
  "kind_from_header (Message _) = KindMessage"
| "kind_from_header (Request _) = KindRequest"
| "kind_from_header (Response _) = KindResponse"

record ('i, 'd) CanReceiver =
  subscriptions_message :: "('i, 'd) RxSubscription list"
  subscriptions_response :: "('i, 'd) RxSubscription list"
  subscriptions_request :: "('i, 'd) RxSubscription list"
  rx_id :: "CanNodeId option"
  rx_mtu :: Mtu
  rx_transfer_count :: u64
  rx_error_count :: u64

definition can_receiver_new_inner :: "CanNodeId option \<Rightarrow> Mtu \<Rightarrow> ('i, 'd) CanReceiver" where
  "can_receiver_new_inner node mtu =
     \<lparr>subscriptions_message = [], subscriptions_response = [], subscriptions_request = [],
      rx_id = node, rx_mtu = mtu, rx_transfer_count = 0, rx_error_count = 0\<rparr>"

definition can_receiver_new :: "CanNodeId \<Rightarrow> Mtu \<Rightarrow> ('i, 'd) CanReceiver" where
  "can_receiver_new node mtu = can_receiver_new_inner (Some node) mtu"

definition can_receiver_new_anonymous :: "Mtu \<Rightarrow> ('i, 'd) CanReceiver" where
  "can_receiver_new_anonymous mtu = can_receiver_new_inner None mtu"

definition set_id :: "CanNodeId option \<Rightarrow> ('i, 'd) CanReceiver \<Rightarrow> ('i, 'd) CanReceiver" where
  "set_id node self = self\<lparr>rx_id := node\<rparr>"

fun subscriptions_for_kind ::
  "TransferKind \<Rightarrow> ('i, 'd) CanReceiver \<Rightarrow> ('i, 'd) RxSubscription list" where
  "subscriptions_for_kind KindMessage self = subscriptions_message self"
| "subscriptions_for_kind KindResponse self = subscriptions_response self"
| "subscriptions_for_kind KindRequest self = subscriptions_request self"

text \<open>Writing through the mutable reference that \<^verbatim>\<open>subscriptions_for_kind\<close> returns.\<close>

fun put_subscriptions ::
  "TransferKind \<Rightarrow> ('i, 'd) RxSubscription list \<Rightarrow> ('i, 'd) CanReceiver \<Rightarrow> ('i, 'd) CanReceiver" where
  "put_subscriptions KindMessage subs self = self\<lparr>subscriptions_message := subs\<rparr>"
| "put_subscriptions KindResponse subs self = self\<lparr>subscriptions_response := subs\<rparr>"
| "put_subscriptions KindRequest subs self = self\<lparr>subscriptions_request := subs\<rparr>"

definition increment_transfer_count :: "('i, 'd) CanReceiver \<Rightarrow> ('i, 'd) CanReceiver" where
  "increment_transfer_count self = self\<lparr>rx_transfer_count := rx_transfer_count self + 1\<rparr>"

definition increment_error_count :: "('i, 'd) CanReceiver \<Rightarrow> ('i, 'd) CanReceiver" where
  "increment_error_count self = self\<lparr>rx_error_count := rx_error_count self + 1\<rparr>"

subsection \<open>Frames\<close>

definition frame_sanity_check :: "'i Frame \<Rightarrow> ('i can_header \<times> TailByte) option option" where
  "frame_sanity_check frame =
     (if fr_data frame = [] then Some None
      else do {
        tail_byte \<leftarrow> tail_byte_parse (last (fr_data frame));
        parsed \<leftarrow> parse_can_id (fr_id frame) (fr_timestamp frame) (tb_transfer_id tail_byte);
        case parsed of
          Inl _ \<Rightarrow> Some None
        | Inr header \<Rightarrow>
            (case header of
               Message message_header \<Rightarrow>
                 if mh_source message_header = None
                    \<and> \<not> (tb_toggle tail_byte \<and> tb_start tail_byte \<and> tb_end tail_byte)
                 then Some None else Some (Some (header, tail_byte))
             | _ \<Rightarrow> Some (Some (header, tail_byte)))
      })"

type_synonym ('i, 'd) rx_result =
  "((out_of_memory_error + (u8 list, 'i) can_transfer option) \<times> ('i, 'd) CanReceiver) option"

definition accept_sane_frame ::
  "('i \<Rightarrow> 'i \<Rightarrow> 'd::linorder) \<Rightarrow> alloc \<Rightarrow> ('i, 'd) CanReceiver \<Rightarrow> 'i Frame \<Rightarrow> 'i can_header \<Rightarrow> TailByte
   \<Rightarrow> ('i, 'd) rx_result" where
  "accept_sane_frame since al self frame frame_header tail =
     (let kind = kind_from_header frame_header;
          subscriptions = subscriptions_for_kind kind self in
      case position (\<lambda>subscription. sub_port_id subscription = header_port_id frame_header) subscriptions of
        None \<Rightarrow> Some (Inr None, self)
      | Some index \<Rightarrow> do {
          (status, subscription) \<leftarrow>
            subscription_accept since al (subscriptions ! index) frame frame_header tail;
          let self = put_subscriptions kind (subscriptions[index := subscription]) self;
          case status of
            Inr (Some transfer) \<Rightarrow> Some (Inr (Some transfer), increment_transfer_count self)
          | Inr None \<Rightarrow> Some (Inr None, self)
          | Inl e \<Rightarrow>
              (let self = increment_error_count self in
               case e of
                 SessionErr (SessionMemory oom) \<Rightarrow> Some (Inl oom, self)
               | SubMemory oom \<Rightarrow> Some (Inl oom, self)
               | _ \<Rightarrow> Some (Inr None, self))
        })"

text \<open>The node a service frame is addressed to; messages are addressed to every node.\<close>

fun header_destination :: "'i can_header \<Rightarrow> CanNodeId option" where
  "header_destination (Message _) = None"
| "header_destination (Request s) = Some (sh_destination s)"
| "header_destination (Response s) = Some (sh_destination s)"

definition accept_frame ::
  "('i \<Rightarrow> 'i \<Rightarrow> 'd::linorder) \<Rightarrow> alloc \<Rightarrow> ('i, 'd) CanReceiver \<Rightarrow> 'i Frame \<Rightarrow> ('i, 'd) rx_result" where
  "accept_frame since al self frame = do {
     checked \<leftarrow> frame_sanity_check frame;
     case checked of
       None \<Rightarrow> Some (Inr None, increment_error_count self)
     | Some (frame_header, tail) \<Rightarrow>
         (case header_destination frame_header of
            Some destination \<Rightarrow>
              (case rx_id self of
                 Some this_id \<Rightarrow>
                   if destination \<noteq> this_id then Some (Inr None, self)
                   else accept_sane_frame since al self frame frame_header tail
               | None \<Rightarrow> Some (Inr None, self))
          | None \<Rightarrow> accept_sane_frame since al self frame frame_header tail)
   }"

subsection \<open>Expired sessions\<close>

definition clean_session ::
  "('i \<Rightarrow> 'i \<Rightarrow> 'd::linorder) \<Rightarrow> 'd \<Rightarrow> 'i \<Rightarrow> 'i Session option \<Rightarrow> 'i Session option" where
  "clean_session since timeout now slot =
     (case slot of
        Some session \<Rightarrow>
          if since now (se_transfer_timestamp session) > timeout then None else Some session
      | None \<Rightarrow> None)"

definition clean_sessions_from_subscriptions ::
  "('i \<Rightarrow> 'i \<Rightarrow> 'd::linorder) \<Rightarrow> ('i, 'd) RxSubscription list \<Rightarrow> 'i \<Rightarrow> ('i, 'd) RxSubscription list" where
  "clean_sessions_from_subscriptions since subs now =
     map (\<lambda>sub. sub\<lparr>sub_sessions := map (clean_session since (sub_timeout sub) now) (sub_sessions sub)\<rparr>) subs"

definition clean_expired_sessions ::
  "('i \<Rightarrow> 'i \<Rightarrow> 'd::linorder) \<Rightarrow> 'i \<Rightarrow> ('i, 'd) CanReceiver \<Rightarrow> ('i, 'd) CanReceiver" where
  "clean_expired_sessions since now self =
     self\<lparr>subscriptions_message := clean_sessions_from_subscriptions since (subscriptions_message self) now,
          subscriptions_request := clean_sessions_from_subscriptions since (subscriptions_request self) now,
          subscriptions_response := clean_sessions_from_subscriptions since (subscriptions_response self) now\<rparr>"

subsection \<open>Subscribing\<close>

text \<open>The operations of a \<^verbatim>\<open>ReceiveDriver\<close> with state \<open>'s\<close> and errors \<open>'e\<close>.\<close>

record ('s, 'i, 'e) receive_driver =
  rd_receive :: "'i \<Rightarrow> 's \<Rightarrow> ('e nb_error + 'i Frame) \<times> 's"
  rd_apply_filters :: "CanNodeId option \<Rightarrow> Subscription list \<Rightarrow> 's \<Rightarrow> 's"
  rd_apply_accept_all :: "'s \<Rightarrow> 's"

definition unsubscribe :: "TransferKind \<Rightarrow> PortId \<Rightarrow> ('i, 'd) CanReceiver \<Rightarrow> ('i, 'd) CanReceiver" where
  "unsubscribe kind port_id self =
     put_subscriptions kind
       (filter (\<lambda>sub. sub_port_id sub \<noteq> port_id) (subscriptions_for_kind kind self)) self"

definition subscribe ::
  "bool \<Rightarrow> TransferKind \<Rightarrow> PortId \<Rightarrow> nat \<Rightarrow> 'd \<Rightarrow> ('i, 'd) CanReceiver
   \<Rightarrow> ((out_of_memory_error + unit) \<times> ('i, 'd) CanReceiver) option" where
  "subscribe mem kind port_id payload_size_max timeout self = do {
     let self = unsubscribe kind port_id self;
     new_subscription \<leftarrow> subscription_new timeout payload_size_max port_id (rx_mtu self);
     let (result, subscriptions) = try_push mem (subscriptions_for_kind kind self) new_subscription;
     Some (result, put_subscriptions kind subscriptions self)
   }"

definition apply_frame_filters ::
  "('s, 'i, 'e) receive_driver \<Rightarrow> ('i, 'd) CanReceiver \<Rightarrow> 's \<Rightarrow> 's option" where
  "apply_frame_filters drv self driver = do {
     messages \<leftarrow> those (map (\<lambda>sub. map_option SubMessage (expect (subject_try_from_port (sub_port_id sub))))
       (subscriptions_message self));
     requests \<leftarrow> those (map (\<lambda>sub. map_option SubRequest (expect (service_try_from_port (sub_port_id sub))))
       (subscriptions_request self));
     responses \<leftarrow> those (map (\<lambda>sub. map_option SubResponse (expect (service_try_from_port (sub_port_id sub))))
       (subscriptions_response self));
     Some (rd_apply_filters drv (rx_id self) (messages @ requests @ responses) driver)
   }"

definition rx_subscribe_message ::
  "('s, 'i, 'e) receive_driver \<Rightarrow> bool \<Rightarrow> SubjectId \<Rightarrow> nat \<Rightarrow> 'd \<Rightarrow> ('i, 'd) CanReceiver \<Rightarrow> 's
   \<Rightarrow> (('e can_error + unit) \<times> ('i, 'd) CanReceiver \<times> 's) option" where
  "rx_subscribe_message drv mem subject payload_size_max timeout self driver = do {
     (result, self) \<leftarrow> subscribe mem KindMessage (port_from_subject subject) payload_size_max timeout self;
     case result of
       Inl oom \<Rightarrow> Some (Inl (Memory oom), self, driver)
     | Inr _ \<Rightarrow> do { driver \<leftarrow> apply_frame_filters drv self driver; Some (Inr (), self, driver) }
   }"

definition rx_unsubscribe_message ::
  "('s, 'i, 'e) receive_driver \<Rightarrow> SubjectId \<Rightarrow> ('i, 'd) CanReceiver \<Rightarrow> 's
   \<Rightarrow> (('i, 'd) CanReceiver \<times> 's) option" where
  "rx_unsubscribe_message drv subject self driver = do {
     let self = unsubscribe KindMessage (port_from_subject subject) self;
     driver \<leftarrow> apply_frame_filters drv self driver;
     Some (self, driver)
   }"

text \<open>\<^verbatim>\<open>subscribe_request\<close> and \<^verbatim>\<open>subscribe_response\<close> differ only in the kind.\<close>

definition rx_subscribe_service ::
  "('s, 'i, 'e) receive_driver \<Rightarrow> bool \<Rightarrow> TransferKind \<Rightarrow> ServiceId \<Rightarrow> nat \<Rightarrow> 'd \<Rightarrow> ('i, 'd) CanReceiver \<Rightarrow> 's
   \<Rightarrow> (('e can_error ServiceSubscribeError + unit) \<times> ('i, 'd) CanReceiver \<times> 's) option" where
  "rx_subscribe_service drv mem kind service payload_size_max timeout self driver =
     (if rx_id self \<noteq> None then do {
        (result, self) \<leftarrow> subscribe mem kind (port_from_service service) payload_size_max timeout self;
        case result of
          Inl oom \<Rightarrow> Some (Inl (Transport (Memory oom)), self, driver)
        | Inr _ \<Rightarrow> do { driver \<leftarrow> apply_frame_filters drv self driver; Some (Inr (), self, driver) }
      } else Some (Inl Anonymous, self, driver))"

definition rx_subscribe_request where
  "rx_subscribe_request drv mem = rx_subscribe_service drv mem KindRequest"

definition rx_subscribe_response where
  "rx_subscribe_response drv mem = rx_subscribe_service drv mem KindResponse"

definition rx_unsubscribe_service ::
  "('s, 'i, 'e) receive_driver \<Rightarrow> TransferKind \<Rightarrow> ServiceId \<Rightarrow> ('i, 'd) CanReceiver \<Rightarrow> 's
   \<Rightarrow> (('i, 'd) CanReceiver \<times> 's) option" where
  "rx_unsubscribe_service drv kind service self driver = do {
     let self = unsubscribe kind (port_from_service service) self;
     driver \<leftarrow> apply_frame_filters drv self driver;
     Some (self, driver)
   }"

definition rx_unsubscribe_request where
  "rx_unsubscribe_request drv = rx_unsubscribe_service drv KindRequest"

definition rx_unsubscribe_response where
  "rx_unsubscribe_response drv = rx_unsubscribe_service drv KindResponse"

subsection \<open>The receive loop\<close>

text \<open>
  The loop runs until the driver has no frame, reports an error, or a transfer is complete.
  It need not end, so \<open>None\<close> also stands for not returning; \<open>al n\<close> is the allocation outcome
  of the n-th frame handled.
\<close>

partial_function (option) receive_loop ::
  "('s, 'i, 'e) receive_driver \<Rightarrow> ('i \<Rightarrow> 'i \<Rightarrow> 'd::linorder) \<Rightarrow> (nat \<Rightarrow> alloc) \<Rightarrow> 'i \<Rightarrow> nat
   \<Rightarrow> ('i, 'd) CanReceiver \<Rightarrow> 's
   \<Rightarrow> (('e can_error + (u8 list, 'i) can_transfer option) \<times> ('i, 'd) CanReceiver \<times> 's) option" where
  "receive_loop drv since al now n self driver =
     (case rd_receive drv now driver of
        (Inr frame, driver) \<Rightarrow>
          (case accept_frame since (al n) self frame of
             None \<Rightarrow> None
           | Some (Inr (Some transfer), self) \<Rightarrow> Some (Inr (Some transfer), self, driver)
           | Some (Inr None, self) \<Rightarrow> receive_loop drv since al now (Suc n) self driver
           | Some (Inl oom, self) \<Rightarrow> Some (Inl (Memory oom), self, driver))
      | (Inl WouldBlock, driver) \<Rightarrow> Some (Inr None, self, driver)
      | (Inl (Other e), driver) \<Rightarrow> Some (Inl (Driver e), self, driver))"

definition receive ::
  "('s, 'i, 'e) receive_driver \<Rightarrow> ('i \<Rightarrow> 'i \<Rightarrow> 'd::linorder) \<Rightarrow> (nat \<Rightarrow> alloc) \<Rightarrow> 'i
   \<Rightarrow> ('i, 'd) CanReceiver \<Rightarrow> 's
   \<Rightarrow> (('e can_error + (u8 list, 'i) can_transfer option) \<times> ('i, 'd) CanReceiver \<times> 's) option" where
  "receive drv since al now self driver =
     receive_loop drv since al now 0 (clean_expired_sessions since now self) driver"

section \<open>The receiver never panics\<close>

definition session_wf :: "'i Session \<Rightarrow> bool" where
  "session_wf s \<longleftrightarrow> 1 \<le> bu_frames (se_buildup s) \<and> \<not> bu_expect_start (se_buildup s)"

definition sub_wf :: "('i, 'd) RxSubscription \<Rightarrow> bool" where
  "sub_wf sub \<longleftrightarrow> length (sub_sessions sub) = RX_SESSIONS_PER_SUBSCRIPTION
     \<and> (\<forall>s. Some s \<in> set (sub_sessions sub) \<longrightarrow> session_wf s)"

text \<open>The port of a subscription is a subject or a service identifier, according to its kind.\<close>

fun kind_port_wf :: "TransferKind \<Rightarrow> PortId \<Rightarrow> bool" where
  "kind_port_wf KindMessage port \<longleftrightarrow> subject_wf (SubjectId (port_bits port))"
| "kind_port_wf KindRequest port \<longleftrightarrow> service_wf (ServiceId (port_bits port))"
| "kind_port_wf KindResponse port \<longleftrightarrow> service_wf (ServiceId (port_bits port))"

definition rx_wf :: "('i, 'd) CanReceiver \<Rightarrow> bool" where
  "rx_wf r \<longleftrightarrow> (\<forall>kind. \<forall>sub \<in> set (subscriptions_for_kind kind r).
     sub_wf sub \<and> kind_port_wf kind (sub_port_id sub))"

lemma subscriptions_put [simp]:
  "subscriptions_for_kind k (put_subscriptions k' xs r) =
     (if k = k' then xs else subscriptions_for_kind k r)"
  by (cases k; cases k') simp_all

lemma put_subscriptions_put [simp]:
  "put_subscriptions k xs (put_subscriptions k ys r) = put_subscriptions k xs r"
  "put_subscriptions k (subscriptions_for_kind k r) r = r"
  by (cases k; simp)+

lemma put_subscriptions_fields [simp]:
  "rx_id (put_subscriptions k xs r) = rx_id r" "rx_mtu (put_subscriptions k xs r) = rx_mtu r"
  by (cases k; simp)+

lemma subscriptions_increment [simp]:
  "subscriptions_for_kind k (increment_error_count r) = subscriptions_for_kind k r"
  "subscriptions_for_kind k (increment_transfer_count r) = subscriptions_for_kind k r"
  by (cases k; simp add: increment_error_count_def increment_transfer_count_def)+

lemma rx_wf_increment [simp]:
  "rx_wf (increment_error_count r) = rx_wf r" "rx_wf (increment_transfer_count r) = rx_wf r"
  by (simp_all add: rx_wf_def)

lemma rx_wf_put:
  assumes "rx_wf r" and "\<And>sub. sub \<in> set xs \<Longrightarrow> sub_wf sub \<and> kind_port_wf k (sub_port_id sub)"
  shows "rx_wf (put_subscriptions k xs r)"
  using assms by (auto simp: rx_wf_def)

lemma sessions_per_subscription: "RX_SESSIONS_PER_SUBSCRIPTION = 128"
  by (simp add: RX_SESSIONS_PER_SUBSCRIPTION_def node_MAX_def VALID_NODE_IDS_end_def)

lemma buildup_add_total:
  assumes "data \<noteq> []" and "tail_byte_parse (last data) = Some tail"
    and "tb_transfer_id tail = bu_transfer_id b"
  shows "\<exists>r b'. buildup_add al b data = Some (r, b') \<and> bu_frames b' = Suc (bu_frames b)
    \<and> (\<forall>x. r = Inr x \<longrightarrow> \<not> bu_expect_start b')"
  using assms by (auto simp: buildup_add_def Let_def)

lemma handle_transfer_data_total: "\<exists>r. handle_transfer_data s data h = Some r \<and> r \<noteq> Inr None"
  using crc_zero_length [of data] by (force simp: handle_transfer_data_def Let_def)

lemma session_accept_total:
  assumes "fr_data f \<noteq> []" and "tail_byte_parse (last (fr_data f)) = Some tail"
  shows "\<exists>r s'. session_accept since al s f h tail limit timeout = Some (r, s')
    \<and> (r = Inr None \<longrightarrow> s' = s \<and> tb_transfer_id tail \<noteq> bu_transfer_id (se_buildup s) \<or> session_wf s')"
proof (cases "tb_transfer_id tail = bu_transfer_id (se_buildup s)")
  case True
  obtain r b where b: "buildup_add al (se_buildup s) (fr_data f) = Some (r, b)"
      "bu_frames b = Suc (bu_frames (se_buildup s))" "\<forall>x. r = Inr x \<longrightarrow> \<not> bu_expect_start b"
    using buildup_add_total [OF assms True] by blast
  have "\<forall>data. \<exists>r. handle_transfer_data (s\<lparr>se_buildup := b\<rparr>) data h = Some r \<and> r \<noteq> Inr None"
    by (intro allI handle_transfer_data_total)
  from choice [OF this] obtain q where
    q: "\<forall>data. handle_transfer_data (s\<lparr>se_buildup := b\<rparr>) data h = Some (q data) \<and> q data \<noteq> Inr None" ..
  show ?thesis
    using True assms(1) b q
    by (auto simp: session_accept_def session_wf_def Let_def split: sum.split option.split)
qed (simp add: session_accept_def)

lemma sub_wf_put:
  assumes "sub_wf sub" and "\<And>s. x = Some s \<Longrightarrow> session_wf s"
  shows "sub_wf (put_session n x sub)"
  using assms by (auto simp: sub_wf_def put_session_def dest!: set_update_subset_insert [THEN subsetD])

lemma conclude_accept_wf:
  assumes "sub_wf sub" and "fst x = Inr None \<Longrightarrow> session_wf (snd x)"
  shows "sub_wf (snd (conclude_accept sub n x))"
    and "sub_port_id (snd (conclude_accept sub n x)) = sub_port_id sub"
  using assms(2) sub_wf_put [OF assms(1)]
  by (induction sub n x rule: conclude_accept.induct) (auto simp: put_session_def)

lemma session_for_frame_cases:
  assumes "sub_wf sub" and "n < length (sub_sessions sub)" and "session_for_frame al sub n h tail = Inr s"
  shows "session_wf s \<or> tb_transfer_id tail = bu_transfer_id (se_buildup s)"
proof (cases "sub_sessions sub ! n")
  case (Some s')
  then have "session_wf s'" using assms(1) nth_mem [OF assms(2)] by (auto simp: sub_wf_def)
  with Some assms(3) show ?thesis by (simp add: session_for_frame_def)
next
  case None
  with assms(3) show ?thesis
    by (auto simp: session_for_frame_def session_new_def buildup_new_def split: if_splits sum.splits)
qed

lemma accept_with_session_total:
  assumes "sub_wf sub" and "node_wf n" and "fr_data f \<noteq> []"
    and "tail_byte_parse (last (fr_data f)) = Some tail"
  shows "\<exists>r sub'. accept_with_session since al sub f h n tail = Some (r, sub') \<and> sub_wf sub'
    \<and> sub_port_id sub' = sub_port_id sub"
proof -
  let ?n = "usize_from_node n"
  have slot: "?n < length (sub_sessions sub)"
    using assms(1, 2) by (simp add: sub_wf_def sessions_per_subscription usize_from_node_lt)
  show ?thesis
  proof (cases "session_for_frame al sub ?n h tail")
    case (Inl e)
    with slot assms(1) show ?thesis by (simp add: accept_with_session_def)
  next
    case (Inr s)
    obtain r s' where acc: "session_accept since al s f h tail (sub_payload_size_max sub) (sub_timeout sub)
          = Some (r, s')" "r = Inr None \<longrightarrow> session_wf s'"
      using session_accept_total [OF assms(3, 4), of since al s h] session_for_frame_cases [OF assms(1) slot Inr]
      by blast
    have "accept_with_session since al sub f h n tail = Some (conclude_accept sub ?n (r, s'))"
      using slot Inr acc(1) by (simp add: accept_with_session_def)
    moreover note conclude_accept_wf [OF assms(1), of "(r, s')" ?n]
    ultimately show ?thesis using acc(2) by (cases "conclude_accept sub ?n (r, s')") simp
  qed
qed

lemma subscription_accept_total:
  assumes "sub_wf sub" and "can_header_wf h" and "fr_data f \<noteq> []"
    and "tail_byte_parse (last (fr_data f)) = Some tail"
  shows "\<exists>r sub'. subscription_accept since al sub f h tail = Some (r, sub') \<and> sub_wf sub'
    \<and> sub_port_id sub' = sub_port_id sub"
proof (cases "header_source h")
  case (Some n)
  then have "node_wf n" using assms(2) by (cases h) auto
  then show ?thesis
    using accept_with_session_total [OF assms(1) _ assms(3, 4), of n since al h] Some assms(1, 3)
    by (simp add: subscription_accept_def accept_non_anonymous_def single_frame_def)
qed (use assms(1, 3) in \<open>simp add: subscription_accept_def accept_anonymous_def single_frame_def\<close>)

lemma frame_sanity_check_total:
  assumes "can_id_wf (fr_id f)"
  shows "\<exists>x. frame_sanity_check f = Some x \<and> (\<forall>h tail. x = Some (h, tail) \<longrightarrow>
    fr_data f \<noteq> [] \<and> tail_byte_parse (last (fr_data f)) = Some tail \<and> can_header_wf h
    \<and> header_timestamp h = fr_timestamp f)"
proof (cases "fr_data f = []")
  case False
  obtain t where t: "tail_byte_parse (last (fr_data f)) = Some t" "tid_wf (tb_transfer_id t)"
    using tail_byte_parse_total by blast
  obtain r where r: "parse_can_id (fr_id f) (fr_timestamp f) (tb_transfer_id t) = Some r"
      "\<forall>h. r = Inr h \<longrightarrow> can_header_wf h \<and> header_timestamp h = fr_timestamp f
        \<and> header_transfer_id h = tb_transfer_id t"
    using parse_can_id_cases [OF assms t(2), of "fr_timestamp f"]
    by (elim exE conjE) (rule that)
  show ?thesis
    using False t(1) r by (auto simp: frame_sanity_check_def split: sum.split Header.split)
qed (simp add: frame_sanity_check_def)

lemma accept_sane_frame_total:
  assumes "rx_wf r" and "can_header_wf h" and "fr_data f \<noteq> []"
    and "tail_byte_parse (last (fr_data f)) = Some tail"
  shows "\<exists>x r'. accept_sane_frame since al r f h tail = Some (x, r') \<and> rx_wf r'"
proof -
  let ?k = "kind_from_header h"
  let ?subs = "subscriptions_for_kind ?k r"
  show ?thesis
  proof (cases "position (\<lambda>sub. sub_port_id sub = header_port_id h) ?subs")
    case None
    with assms(1) show ?thesis by (simp add: accept_sane_frame_def)
  next
    case (Some i)
    then have i: "?subs ! i \<in> set ?subs" using position_Some [OF Some] by simp
    then have sub: "sub_wf (?subs ! i)" "kind_port_wf ?k (sub_port_id (?subs ! i))"
      using assms(1) by (auto simp: rx_wf_def)
    obtain st sub' where acc: "subscription_accept since al (?subs ! i) f h tail = Some (st, sub')"
        "sub_wf sub'" "sub_port_id sub' = sub_port_id (?subs ! i)"
      using subscription_accept_total [OF sub(1) assms(2-4)] by blast
    have "rx_wf (put_subscriptions ?k (?subs[i := sub']) r)"
      using assms(1) acc sub
      by (intro rx_wf_put) (auto simp: rx_wf_def dest!: set_update_subset_insert [THEN subsetD])
    then show ?thesis
      using Some acc(1)
      by (auto simp: accept_sane_frame_def Let_def split: sum.split option.split SubscriptionError.split SessionError.split)
  qed
qed

lemma accept_frame_total:
  assumes "rx_wf r" and "can_id_wf (fr_id f)"
  shows "\<exists>x r'. accept_frame since al r f = Some (x, r') \<and> rx_wf r'"
proof -
  obtain x where x: "frame_sanity_check f = Some x" "\<And>h tail. x = Some (h, tail) \<Longrightarrow>
      \<exists>y r'. accept_sane_frame since al r f h tail = Some (y, r') \<and> rx_wf r'"
    using frame_sanity_check_total [OF assms(2)] accept_sane_frame_total [OF assms(1)] by blast
  then show ?thesis
    using assms(1) by (auto simp: accept_frame_def split: option.split)
qed

section \<open>Invariant of the other operations\<close>

lemma new_receiver_empty: "subscriptions_for_kind k (can_receiver_new_inner node mtu) = []"
  by (cases k) (simp_all add: can_receiver_new_inner_def)

lemma new_receiver_wf: "rx_wf (can_receiver_new_inner node mtu)"
  by (simp add: rx_wf_def new_receiver_empty)

lemma clean_sub_wf:
  assumes "sub_wf sub"
  shows "sub_wf (sub\<lparr>sub_sessions := map (clean_session since t now) (sub_sessions sub)\<rparr>)"
  using assms by (auto simp: sub_wf_def clean_session_def split: option.splits if_splits)

lemma subscriptions_clean:
  "subscriptions_for_kind k (clean_expired_sessions since now r)
     = clean_sessions_from_subscriptions since (subscriptions_for_kind k r) now"
  by (cases k) (simp_all add: clean_expired_sessions_def)

lemma clean_expired_sessions_wf: "rx_wf r \<Longrightarrow> rx_wf (clean_expired_sessions since now r)"
  by (auto simp: rx_wf_def subscriptions_clean clean_sessions_from_subscriptions_def clean_sub_wf)

lemma unsubscribe_wf: "rx_wf r \<Longrightarrow> rx_wf (unsubscribe k port r)"
  unfolding unsubscribe_def by (rule rx_wf_put) (auto simp: rx_wf_def)

lemma subscription_new_total:
  "\<exists>sub. subscription_new timeout maxlen port mtu = Some sub \<and> sub_wf sub \<and> sub_port_id sub = port"
proof -
  have mtu: "1 < mtu_as_bytes mtu" "dlc_length (mtu_as_bytes mtu)"
    using mtu_as_bytes_cases [of mtu] dlc_mtu [of mtu] by auto
  obtain s where "calculate_frame_stats maxlen (mtu_as_bytes mtu) = Some s"
    using frame_layout [OF mtu] by blast
  then show ?thesis
    by (auto simp: subscription_new_def add_padding_and_crc_space_def sub_wf_def init_rx_sessions_def)
qed

lemma subscribe_total:
  fixes r :: "('i, 'd) CanReceiver"
  assumes "rx_wf r" and "kind_port_wf k port"
  shows "\<exists>res r'. subscribe mem k port maxlen timeout r = Some (res, r') \<and> rx_wf r'"
proof -
  let ?r = "unsubscribe k port r"
  obtain sub :: "('i, 'd) RxSubscription" where
    sub: "subscription_new timeout maxlen port (rx_mtu ?r) = Some sub" "sub_wf sub" "sub_port_id sub = port"
    using subscription_new_total [of timeout maxlen port "rx_mtu ?r"] by metis
  have wf: "rx_wf ?r" by (rule unsubscribe_wf [OF assms(1)])
  then have "rx_wf (put_subscriptions k (subscriptions_for_kind k ?r @ [sub]) ?r)"
    using sub assms(2) by (intro rx_wf_put) (auto simp: rx_wf_def)
  with sub(1) wf show ?thesis by (cases mem) (simp_all add: subscribe_def try_push_def Let_def)
qed

section \<open>Termination of the receive loop\<close>

text \<open>A driver state from which at most \<open>n\<close> more frames can be received, all with valid identifiers.\<close>

fun drains :: "('s, 'i, 'e) receive_driver \<Rightarrow> 'i \<Rightarrow> nat \<Rightarrow> 's \<Rightarrow> bool" where
  "drains drv now n driver \<longleftrightarrow>
     (case rd_receive drv now driver of
        (Inl _, _) \<Rightarrow> True
      | (Inr frame, driver') \<Rightarrow>
          (case n of 0 \<Rightarrow> False | Suc m \<Rightarrow> can_id_wf (fr_id frame) \<and> drains drv now m driver'))"

declare drains.simps [simp del]

lemma receive_loop_returns:
  assumes "rx_wf r" and "drains drv now k d"
  shows "\<exists>x r' d'. receive_loop drv since al now n r d = Some (x, r', d') \<and> rx_wf r'"
  using assms
proof (induction k arbitrary: n r d)
  case (Suc k)
  show ?case
  proof (cases "rd_receive drv now d")
    case (Pair y d')
    show ?thesis
    proof (cases y)
      case (Inl e)
      with Pair Suc.prems(1) show ?thesis
        by (subst receive_loop.simps) (simp split: nb_error.split)
    next
      case (Inr f)
      then have f: "can_id_wf (fr_id f)" "drains drv now k d'"
        using Suc.prems(2) Pair by (simp_all add: drains.simps [of drv now "Suc k"])
      obtain x r' where acc: "accept_frame since (al n) r f = Some (x, r')" "rx_wf r'"
        using accept_frame_total [OF Suc.prems(1) f(1), of since "al n"] by blast
      show ?thesis
        using Suc.IH [OF acc(2) f(2), of "Suc n"] Pair Inr acc
        by (subst receive_loop.simps) (auto split: sum.split option.split)
    qed
  qed
next
  case 0
  then show ?case
    by (subst receive_loop.simps) (auto simp: drains.simps [of drv now 0] split: prod.splits sum.splits nb_error.split)
qed

section \<open>Properties\<close>

text \<open>A receiver with one message subscription, at which the properties are instantiated.\<close>

definition example_rx :: "(nat, nat) CanReceiver" where
  "example_rx = put_subscriptions KindMessage
     [\<lparr>sub_sessions = init_rx_sessions, sub_timeout = 100, sub_payload_size_max = 10,
       sub_port_id = PortId 7509\<rparr>] (can_receiver_new_anonymous Can8)"

lemma example_rx_wf: "rx_wf example_rx"
  unfolding example_rx_def can_receiver_new_anonymous_def
  by (intro rx_wf_put new_receiver_wf)
    (auto simp: sub_wf_def init_rx_sessions_def subject_wf_def VALID_SUBJECT_IDS_end_def)

definition example_frame :: "nat Frame" where
  "example_frame = \<lparr>fr_timestamp = 5, fr_id = CanId 0x107d552a, fr_data = [1, 2, 3, 0xe0]\<rparr>"

text \<open>
  C3: whatever frame arrives and whichever allocations fail, handling it does not panic: no
  \<^verbatim>\<open>expect\<close>, assertion, slice index or length subtraction on the path can fail. In
  particular the removal of the two CRC bytes is safe, since the CRC of fewer than two
  bytes is never zero. The receiver's invariant is kept.
\<close>

theorem receiver_never_panics:
  assumes "rx_wf r" and "can_id_wf (fr_id f)"
  shows "\<exists>x r'. accept_frame since al r f = Some (x, r') \<and> rx_wf r'"
  by (rule accept_frame_total [OF assms])

theorem receiver_never_panics_witness:
  "\<exists>x r'. accept_frame (-) \<lparr>al_capacity = (\<lambda>_. False), al_box = False, al_extend = (\<lambda>_. False)\<rparr>
     example_rx example_frame = Some (x, r') \<and> rx_wf r'"
  by (rule receiver_never_panics [OF example_rx_wf]) (simp add: example_frame_def can_id_wf_iff)

text \<open>
  C5: receiving ends. If the driver delivers at most \<open>k\<close> more frames before it blocks or
  fails, the receive loop returns a result, and the receiver keeps its invariant.
\<close>

theorem receive_returns:
  assumes "rx_wf r" and "drains drv now k d"
  shows "\<exists>x r' d'. receive drv since al now r d = Some (x, r', d') \<and> rx_wf r'"
  unfolding receive_def by (rule receive_loop_returns [OF clean_expired_sessions_wf [OF assms(1)] assms(2)])

definition list_receive_driver :: "(nat Frame list, nat, unit) receive_driver" where
  "list_receive_driver = \<lparr>rd_receive = (\<lambda>now fs. case fs of [] \<Rightarrow> (Inl WouldBlock, []) | f # fs \<Rightarrow> (Inr f, fs)),
     rd_apply_filters = (\<lambda>_ _ fs. fs), rd_apply_accept_all = (\<lambda>fs. fs)\<rparr>"

theorem receive_returns_witness:
  "\<exists>x r' d'. receive list_receive_driver (-) (\<lambda>_. \<lparr>al_capacity = (\<lambda>_. True), al_box = True, al_extend = (\<lambda>_. True)\<rparr>)
     9 example_rx [example_frame, example_frame] = Some (x, r', d') \<and> rx_wf r'"
  by (rule receive_returns [OF example_rx_wf, of _ _ "Suc (Suc 0)"])
    (simp add: drains.simps list_receive_driver_def example_frame_def can_id_wf_iff)

text \<open>
  A single frame with start and end set is delivered at once, whether or not a session of
  its source is open, and leaves the sessions alone. A frame of an identified node longer
  than the limit is refused; an anonymous frame is delivered whatever its length, although
  the subscription's documentation says that longer transfers are dropped.
\<close>

lemma single_frame_delivery:
  assumes "tb_start tail" and "tb_end tail" and "fr_data f \<noteq> []" and "try_extend al 0 0 (length (fr_data f) - 1)"
  shows "subscription_accept since al sub f h tail =
    (if header_source h = None \<or> length (fr_data f) \<le> sub_payload_size_max sub + 1
     then Some (Inr (Some \<lparr>tr_header = h, tr_payload = butlast (fr_data f)\<rparr>), sub)
     else Some (Inl (SessionErr PayloadLength), sub))"
  using assms
  by (cases "header_source h") (auto simp: subscription_accept_def accept_non_anonymous_def
      accept_anonymous_def single_frame_def)

end
