(* ===== verification/Can_RoundTrip.thy ===== *)
theory Can_RoundTrip
  imports Can_Tx Can_Rx Core_Time
begin

text \<open>
  Transmitter and receiver together: the frames that a transmitter makes of a transfer are
  reassembled by a subscribed receiver into the same header and payload. The receiver gives
  every frame its own reception timestamp.
\<close>

section \<open>Frames of a known transfer at the receiver\<close>

definition routes :: "('i, 'd) CanReceiver \<Rightarrow> 'i can_header \<Rightarrow> nat \<Rightarrow> bool" where
  "routes r h i \<longleftrightarrow>
     (case header_destination h of None \<Rightarrow> True | Some d \<Rightarrow> rx_id r = Some d)
     \<and> position (\<lambda>sub. sub_port_id sub = header_port_id h)
          (subscriptions_for_kind (kind_from_header h) r) = Some i"

lemma set_timestamp_can [simp]:
  "header_destination (set_timestamp i h) = header_destination h"
  "kind_from_header (set_timestamp i h) = kind_from_header h"
  "can_header_wf (set_timestamp i h) = can_header_wf h"
  "header_bits (set_timestamp i h) payload = header_bits h payload"
  by (cases h; simp add: tx_source_def)+

lemma can_header_wf_tid: "can_header_wf h \<Longrightarrow> tid_wf (header_transfer_id h)"
  by (cases h) simp_all

lemma can_header_wf_source: "can_header_wf h \<Longrightarrow> header_source h = Some n \<Longrightarrow> node_wf n"
  by (cases h) auto

lemma sanity_of_transfer_frame:
  assumes "can_header_wf h" and "fr_id f = CanId (header_bits h payload)"
    and "fr_data f = d @ [make_tail_byte s e g (header_transfer_id h)]"
    and "header_source h = None \<longrightarrow> s \<and> e \<and> g"
  shows "frame_sanity_check f = Some (Some (set_timestamp (fr_timestamp f) h,
    \<lparr>tb_start = s, tb_end = e, tb_toggle = g, tb_transfer_id = header_transfer_id h\<rparr>))"
proof -
  let ?h = "set_timestamp (fr_timestamp f) h"
  have "parse_can_id (fr_id f) (fr_timestamp f) (header_transfer_id h) = Some (Inr ?h)"
    using parse_header_bits [of ?h payload] assms(1, 2) by simp
  moreover have "tail_byte_parse (last (fr_data f)) =
      Some \<lparr>tb_start = s, tb_end = e, tb_toggle = g, tb_transfer_id = header_transfer_id h\<rparr>"
    using tail_byte_roundtrip [OF can_header_wf_tid [OF assms(1)]] assms(3) by simp
  ultimately show ?thesis
    using assms(3, 4) by (cases h) (auto simp: frame_sanity_check_def)
qed

lemma accept_transfer_frame:
  assumes "can_header_wf h" and "fr_id f = CanId (header_bits h payload)"
    and "fr_data f = d @ [make_tail_byte s e g (header_transfer_id h)]"
    and "header_source h = None \<longrightarrow> s \<and> e \<and> g" and "routes r h i"
  shows "accept_frame since al r f = accept_sane_frame since al r f (set_timestamp (fr_timestamp f) h)
    \<lparr>tb_start = s, tb_end = e, tb_toggle = g, tb_transfer_id = header_transfer_id h\<rparr>"
  using sanity_of_transfer_frame [OF assms(1-4)] assms(5)
  by (simp add: accept_frame_def routes_def split: option.splits)

text \<open>The receiver after writing \<open>sub\<close> back to the list it was found in.\<close>

definition put_sub :: "'i can_header \<Rightarrow> nat \<Rightarrow> ('i, 'd) RxSubscription \<Rightarrow> ('i, 'd) CanReceiver \<Rightarrow> ('i, 'd) CanReceiver" where
  "put_sub h i sub r = put_subscriptions (kind_from_header h)
     ((subscriptions_for_kind (kind_from_header h) r)[i := sub]) r"

definition get_sub :: "'i can_header \<Rightarrow> nat \<Rightarrow> ('i, 'd) CanReceiver \<Rightarrow> ('i, 'd) RxSubscription" where
  "get_sub h i r = subscriptions_for_kind (kind_from_header h) r ! i"

lemma put_sub_same: "put_sub h i (get_sub h i r) r = r"
  by (simp add: put_sub_def get_sub_def)

lemma put_sub_twice: "put_sub h i s (put_sub h i s' r) = put_sub h i s r"
  by (simp add: put_sub_def)

lemma routes_bound: "routes r h i \<Longrightarrow> i < length (subscriptions_for_kind (kind_from_header h) r)"
  by (auto simp: routes_def dest: position_Some)

lemma get_put_sub: "routes r h i \<Longrightarrow> get_sub h i (put_sub h i s r) = s"
  using routes_bound [of r h i] by (simp add: put_sub_def get_sub_def)

lemma position_update:
  assumes "position P xs = Some i" and "P y"
  shows "position P (xs[i := y]) = Some i"
  using assms by (induction xs arbitrary: i) (auto split: if_splits)

lemma routes_put_sub:
  assumes "routes r h i" and "sub_port_id s = header_port_id h"
  shows "routes (put_sub h i s r) h i"
  using assms by (auto simp: routes_def put_sub_def position_update split: option.splits)

lemma routes_port: "routes r h i \<Longrightarrow> sub_port_id (get_sub h i r) = header_port_id h"
  by (auto simp: routes_def get_sub_def dest: position_Some)

lemma accept_sane_routed:
  assumes "routes r h i" and "subscription_accept since al (get_sub h i r) f (set_timestamp t h) tail = Some (st, sub)"
  shows "accept_sane_frame since al r f (set_timestamp t h) tail =
    (case st of
       Inr (Some transfer) \<Rightarrow> Some (Inr (Some transfer), increment_transfer_count (put_sub h i sub r))
     | Inr None \<Rightarrow> Some (Inr None, put_sub h i sub r)
     | Inl e \<Rightarrow> (case e of
           SessionErr (SessionMemory oom) \<Rightarrow> Some (Inl oom, increment_error_count (put_sub h i sub r))
         | SubMemory oom \<Rightarrow> Some (Inl oom, increment_error_count (put_sub h i sub r))
         | _ \<Rightarrow> Some (Inr None, increment_error_count (put_sub h i sub r))))"
  using assms
  by (simp add: accept_sane_frame_def routes_def get_sub_def put_sub_def Let_def
      split: sum.split option.split SubscriptionError.split SessionError.split)

section \<open>Feeding a list of frames\<close>

fun accept_all ::
  "('i \<Rightarrow> 'i \<Rightarrow> 'd::linorder) \<Rightarrow> (nat \<Rightarrow> alloc) \<Rightarrow> nat \<Rightarrow> ('i, 'd) CanReceiver \<Rightarrow> 'i Frame list
   \<Rightarrow> ((out_of_memory_error + (u8 list, 'i) can_transfer option) list \<times> ('i, 'd) CanReceiver) option" where
  "accept_all since al n r [] = Some ([], r)"
| "accept_all since al n r (f # fs) = do {
     (x, r) \<leftarrow> accept_frame since (al n) r f;
     (xs, r) \<leftarrow> accept_all since al (Suc n) r fs;
     Some (x # xs, r)
   }"

text \<open>Frames with their reception timestamps.\<close>

definition received :: "CanId \<Rightarrow> 'i list \<Rightarrow> u8 list list \<Rightarrow> 'i Frame list" where
  "received c ts ds = map2 (\<lambda>t d. mk_frame t c d) ts ds"

text \<open>An allocator that never fails.\<close>

definition alloc_ok :: "alloc \<Rightarrow> bool" where
  "alloc_ok al \<longleftrightarrow> (\<forall>n. al_capacity al n) \<and> al_box al \<and> (\<forall>n. al_extend al n)"

lemma alloc_okD: "alloc_ok al \<Longrightarrow> al_capacity al n" "alloc_ok al \<Longrightarrow> al_box al" "alloc_ok al \<Longrightarrow> al_extend al n"
  by (simp_all add: alloc_ok_def)

lemma alloc_ok_extend: "alloc_ok al \<Longrightarrow> try_extend al c l n"
  by (simp add: alloc_okD try_extend_def)

text \<open>A session that has reserved \<open>c\<close> bytes.\<close>

abbreviation session_state :: "nat \<Rightarrow> 'i \<Rightarrow> CanTransferId \<Rightarrow> nat \<Rightarrow> bool \<Rightarrow> u8 list \<Rightarrow> 'i Session" where
  "session_state c t0 t k g acc \<equiv>
     \<lparr>se_transfer_timestamp = t0,
      se_buildup = \<lparr>bu_transfer_id = t, bu_frames = k, bu_expect_start = False, bu_expect_toggle = g,
        bu_transfer = acc, bu_capacity = c\<rparr>\<rparr>"

text \<open>The first frame of a multi-frame transfer opens a session.\<close>

lemma first_frame:
  assumes "alloc_ok al" and "tid_wf (header_transfer_id h)" and "header_source h = Some n"
    and "usize_from_node n < length (sub_sessions sub)" and "sub_sessions sub ! usize_from_node n = None"
    and "fr_data f = d @ [make_tail_byte True False True (header_transfer_id h)]"
    and "length d \<le> sub_payload_size_max sub"
    and "\<not> sub_timeout sub < since (fr_timestamp f) (fr_timestamp f)"
  shows "subscription_accept since al sub f (set_timestamp (fr_timestamp f) h)
      \<lparr>tb_start = True, tb_end = False, tb_toggle = True, tb_transfer_id = header_transfer_id h\<rparr>
    = Some (Inr None, put_session (usize_from_node n)
        (Some (session_state (sub_payload_size_max sub) (fr_timestamp f) (header_transfer_id h) 1 False d)) sub)"
  using assms
  by (simp add: subscription_accept_def accept_non_anonymous_def accept_with_session_def Let_def
      session_for_frame_def session_new_def buildup_new_def alloc_okD alloc_ok_extend session_accept_def
      buildup_add_def tail_byte_roundtrip)

text \<open>A later frame extends the session.\<close>

lemma middle_frame:
  assumes "alloc_ok al" and "tid_wf (header_transfer_id h)" and "header_source h = Some n"
    and "usize_from_node n < length (sub_sessions sub)"
    and "sub_sessions sub ! usize_from_node n = Some (session_state (sub_payload_size_max sub) t0 (header_transfer_id h) k g acc)"
    and "fr_data f = d @ [make_tail_byte False False g (header_transfer_id h)]"
    and "length (acc @ d) \<le> sub_payload_size_max sub"
    and "\<not> sub_timeout sub < since (fr_timestamp f) t0"
  shows "subscription_accept since al sub f (set_timestamp (fr_timestamp f) h)
      \<lparr>tb_start = False, tb_end = False, tb_toggle = g, tb_transfer_id = header_transfer_id h\<rparr>
    = Some (Inr None, put_session (usize_from_node n)
        (Some (session_state (sub_payload_size_max sub) t0 (header_transfer_id h) (k + 1) (\<not> g) (acc @ d))) sub)"
  using assms
  by (simp add: subscription_accept_def accept_non_anonymous_def accept_with_session_def Let_def
      session_for_frame_def alloc_okD alloc_ok_extend session_accept_def buildup_add_def tail_byte_roundtrip)

text \<open>The last frame completes the transfer when the CRC is right.\<close>

lemma last_frame:
  assumes "alloc_ok al" and "tid_wf (header_transfer_id h)" and "header_source h = Some n"
    and "usize_from_node n < length (sub_sessions sub)"
    and "sub_sessions sub ! usize_from_node n = Some (session_state (sub_payload_size_max sub) t0 (header_transfer_id h) k g acc)"
    and "fr_data f = d @ [make_tail_byte False True g (header_transfer_id h)]"
    and "length (acc @ d) \<le> sub_payload_size_max sub"
    and "\<not> sub_timeout sub < since (fr_timestamp f) t0"
    and "1 \<le> k" and "crc_get (crc_add_bytes crc_new (acc @ d)) = 0"
  shows "subscription_accept since al sub f (set_timestamp (fr_timestamp f) h)
      \<lparr>tb_start = False, tb_end = True, tb_toggle = g, tb_transfer_id = header_transfer_id h\<rparr>
    = Some (Inr (Some \<lparr>tr_header = set_timestamp t0 h, tr_payload = take (length (acc @ d) - 2) (acc @ d)\<rparr>),
        put_session (usize_from_node n) None sub)"
proof -
  have "\<not> length (acc @ d) < 2" using crc_zero_length [OF assms(10)] by simp
  then show ?thesis
    using assms
    by (simp add: subscription_accept_def accept_non_anonymous_def accept_with_session_def Let_def
        session_for_frame_def alloc_okD alloc_ok_extend session_accept_def buildup_add_def tail_byte_roundtrip
        handle_transfer_data_def)
qed

section \<open>A whole transfer\<close>

lemma put_session_simps [simp]:
  "sub_timeout (put_session n x sub) = sub_timeout sub"
  "sub_payload_size_max (put_session n x sub) = sub_payload_size_max sub"
  "sub_port_id (put_session n x sub) = sub_port_id sub"
  "length (sub_sessions (put_session n x sub)) = length (sub_sessions sub)"
  "n < length (sub_sessions sub) \<Longrightarrow> sub_sessions (put_session n x sub) ! n = x"
  "put_session n y (put_session n x sub) = put_session n y sub"
  by (simp_all add: put_session_def)

lemma put_session_same: "sub_sessions sub ! n = x \<Longrightarrow> put_session n x sub = sub"
  by (auto simp: put_session_def)

lemma mk_frame_simps [simp]:
  "fr_timestamp (mk_frame t c d) = t" "fr_id (mk_frame t c d) = c" "fr_data (mk_frame t c d) = d"
  by (simp_all add: mk_frame_def)

lemma received_Cons: "received c (t # ts) (d # ds) = mk_frame t c d # received c ts ds"
  by (simp add: received_def)

lemma frames_of_nonempty: "frames_of m t s g bytes \<noteq> []"
  by (subst frames_of.simps) simp

text \<open>The remaining frames of a transfer, once its session is open.\<close>

lemma session_frames:
  assumes "0 < m" and wf: "can_header_wf h" and src: "header_source h = Some n"
    and al: "\<And>j. alloc_ok (al j)"
    and "routes r h i" and "usize_from_node n < length (sub_sessions (get_sub h i r))"
    and "sub_sessions (get_sub h i r) ! usize_from_node n
      = Some (session_state (sub_payload_size_max (get_sub h i r)) t0 (header_transfer_id h) k g acc)"
    and "1 \<le> k" and "crc_get (crc_add_bytes crc_new (acc @ bytes)) = 0"
    and "length (acc @ bytes) \<le> sub_payload_size_max (get_sub h i r)"
    and "length ts = length (frames_of m (header_transfer_id h) False g bytes)"
    and "\<And>t. t \<in> set ts \<Longrightarrow> \<not> sub_timeout (get_sub h i r) < since t t0"
  shows "accept_all since al j r
      (received (CanId (header_bits h payload)) ts (frames_of m (header_transfer_id h) False g bytes))
    = Some (replicate (length ts - 1) (Inr None) @
        [Inr (Some \<lparr>tr_header = set_timestamp t0 h,
                    tr_payload = take (length (acc @ bytes) - 2) (acc @ bytes)\<rparr>)],
        increment_transfer_count (put_sub h i (put_session (usize_from_node n) None (get_sub h i r)) r))"
  using assms(5-)
proof (induction "length bytes" arbitrary: bytes r k g acc ts j rule: less_induct)
  case less
  note tid = can_header_wf_tid [OF wf] and port = routes_port [OF less.prems(1)]
  let ?t = "header_transfer_id h" and ?slot = "usize_from_node n" and ?sub = "get_sub h i r"
  show ?case
  proof (cases "length bytes \<le> m")
    case True
    then have ds: "frames_of m ?t False g bytes = [bytes @ [make_tail_byte False True g ?t]]"
      by (subst frames_of.simps) simp
    then obtain t where ts: "ts = [t]" using less.prems(7) by (auto simp: length_Suc_conv)
    let ?f = "mk_frame t (CanId (header_bits h payload)) (bytes @ [make_tail_byte False True g ?t])"
    have late: "\<not> sub_timeout ?sub < since (fr_timestamp ?f) t0" using less.prems(8) ts by simp
    note acc = last_frame [where f = ?f and since = since, OF al [of j] tid src less.prems(2, 3) _ less.prems(6) late less.prems(4, 5), simplified]
    show ?thesis
      by (simp add: ts ds received_Cons accept_transfer_frame [OF wf _ _ _ less.prems(1)] src
          accept_sane_routed [OF less.prems(1) acc])
        (simp add: received_def)
  next
    case False
    let ?d = "take m bytes @ [make_tail_byte False False g ?t]"
    have ds: "frames_of m ?t False g bytes = ?d # frames_of m ?t False (\<not> g) (drop m bytes)"
      using False assms(1) by (subst frames_of.simps) simp
    then obtain t ts' where ts: "ts = t # ts'" using less.prems(7) by (cases ts) auto
    let ?f = "mk_frame t (CanId (header_bits h payload)) ?d"
    let ?sub' = "put_session ?slot (Some (session_state (sub_payload_size_max (get_sub h i r)) t0 ?t (k + 1) (\<not> g) (acc @ take m bytes))) ?sub"
    let ?r' = "put_sub h i ?sub' r"
    have late: "\<not> sub_timeout ?sub < since (fr_timestamp ?f) t0" using less.prems(8) ts by simp
    have len: "length (acc @ take m bytes) \<le> sub_payload_size_max ?sub" using less.prems(6) by simp
    note mid = middle_frame [where f = ?f and since = since, OF al [of j] tid src less.prems(2, 3) _ len late, simplified]
    have routes': "routes ?r' h i" using less.prems(1) port by (intro routes_put_sub) simp_all
    note get' = get_put_sub [OF less.prems(1)]
    have "accept_all since al (Suc j) ?r'
        (received (CanId (header_bits h payload)) ts' (frames_of m ?t False (\<not> g) (drop m bytes)))
      = Some (replicate (length ts' - 1) (Inr None) @
          [Inr (Some \<lparr>tr_header = set_timestamp t0 h,
                      tr_payload = take (length ((acc @ take m bytes) @ drop m bytes) - 2) ((acc @ take m bytes) @ drop m bytes)\<rparr>)],
          increment_transfer_count (put_sub h i (put_session ?slot None (get_sub h i ?r')) ?r'))"
      by (rule less.hyps [where k = "k + 1"])
        (use False assms(1) less.prems ts ds routes' in \<open>auto simp: get'\<close>)
    moreover have "ts' \<noteq> []" using less.prems(7) ts ds frames_of_nonempty by auto
    ultimately show ?thesis
      by (simp add: ts ds received_Cons accept_transfer_frame [OF wf _ _ _ less.prems(1)] src
          accept_sane_routed [OF less.prems(1) mid] get' put_sub_twice Cons_replicate_eq)
  qed
qed

lemma limit_admits:
  assumes "add_padding_and_crc_space maxlen mtu = Some limit" and "n \<le> maxlen"
    and "calculate_frame_stats n (mtu_as_bytes mtu) = Some s"
  shows "n + (if 1 < st_frames s then 2 else 0) + st_last_frame_padding s \<le> limit"
proof -
  have mtu: "1 < mtu_as_bytes mtu" "dlc_length (mtu_as_bytes mtu)"
    using mtu_as_bytes_cases [of mtu] dlc_mtu [of mtu] by auto
  obtain s' where s': "calculate_frame_stats maxlen (mtu_as_bytes mtu) = Some s'"
    using frame_layout [OF mtu] by blast
  then have "limit = maxlen + (if 1 < st_frames s' then 2 else 0) + st_last_frame_padding s'"
    using assms(1) by (auto simp: add_padding_and_crc_space_def)
  then show ?thesis using padded_size_mono [OF mtu assms(3) s' assms(2)] by simp
qed

lemma single_frame_roundtrip:
  assumes wf: "can_header_wf h" and "routes r h i" and "alloc_ok al"
    and "length bytes \<le> sub_payload_size_max (get_sub h i r)"
  shows "accept_frame since al r
      (mk_frame t (CanId (header_bits h payload)) (bytes @ [make_tail_byte True True True (header_transfer_id h)]))
    = Some (Inr (Some \<lparr>tr_header = set_timestamp t h, tr_payload = bytes\<rparr>), increment_transfer_count r)"
proof -
  let ?f = "mk_frame t (CanId (header_bits h payload)) (bytes @ [make_tail_byte True True True (header_transfer_id h)])"
  let ?tail = "\<lparr>tb_start = True, tb_end = True, tb_toggle = True, tb_transfer_id = header_transfer_id h\<rparr>"
  have "subscription_accept since al (get_sub h i r) ?f (set_timestamp t h) ?tail
      = Some (Inr (Some \<lparr>tr_header = set_timestamp t h, tr_payload = bytes\<rparr>), get_sub h i r)"
    using assms(3, 4)
    by (simp add: subscription_accept_def accept_anonymous_def accept_non_anonymous_def
        single_frame_def alloc_ok_extend split: option.split)
  from accept_sane_routed [OF assms(2) this] show ?thesis
    by (simp add: accept_transfer_frame [OF wf _ _ _ assms(2)] put_sub_same)
qed

lemma multi_frame_roundtrip:
  assumes "0 < m" and wf: "can_header_wf h" and src: "header_source h = Some n"
    and al: "\<And>j. alloc_ok (al j)" and r: "routes r h i"
    and slot: "usize_from_node n < length (sub_sessions (get_sub h i r))"
    and free: "sub_sessions (get_sub h i r) ! usize_from_node n = None"
    and "m < length bytes" and crc: "crc_get (crc_add_bytes crc_new bytes) = 0"
    and limit: "length bytes \<le> sub_payload_size_max (get_sub h i r)"
    and ts: "length ts = length (frames_of m (header_transfer_id h) True True bytes)"
    and time: "\<And>t. t \<in> set ts \<Longrightarrow> \<not> sub_timeout (get_sub h i r) < since t (hd ts)"
  shows "accept_all since al j r
      (received (CanId (header_bits h payload)) ts (frames_of m (header_transfer_id h) True True bytes))
    = Some (replicate (length ts - 1) (Inr None) @
        [Inr (Some \<lparr>tr_header = set_timestamp (hd ts) h, tr_payload = take (length bytes - 2) bytes\<rparr>)],
        increment_transfer_count r)"
proof -
  let ?t = "header_transfer_id h" and ?slot = "usize_from_node n" and ?sub = "get_sub h i r"
  let ?d = "take m bytes @ [make_tail_byte True False True ?t]"
  have ds: "frames_of m ?t True True bytes = ?d # frames_of m ?t False False (drop m bytes)"
    using assms(1, 8) by (subst frames_of.simps) simp
  then obtain t0 ts' where t0: "ts = t0 # ts'" using ts by (cases ts) auto
  let ?f = "mk_frame t0 (CanId (header_bits h payload)) ?d"
  let ?r' = "put_sub h i (put_session ?slot (Some (session_state (sub_payload_size_max (get_sub h i r)) t0 ?t 1 False (take m bytes))) ?sub) r"
  have "length (take m bytes) \<le> sub_payload_size_max ?sub" using limit by simp
  moreover have "\<not> sub_timeout ?sub < since (fr_timestamp ?f) (fr_timestamp ?f)" using time [of t0] t0 by simp
  ultimately have first: "subscription_accept since (al j) ?sub ?f (set_timestamp t0 h)
      \<lparr>tb_start = True, tb_end = False, tb_toggle = True, tb_transfer_id = ?t\<rparr>
    = Some (Inr None, put_session ?slot (Some (session_state (sub_payload_size_max (get_sub h i r)) t0 ?t 1 False (take m bytes))) ?sub)"
    using first_frame [where f = ?f and since = since, OF al [of j] can_header_wf_tid [OF wf] src slot free] by simp
  have get': "get_sub h i ?r' = put_session ?slot (Some (session_state (sub_payload_size_max (get_sub h i r)) t0 ?t 1 False (take m bytes))) ?sub"
    by (rule get_put_sub [OF r])
  have "accept_all since al (Suc j) ?r'
      (received (CanId (header_bits h payload)) ts' (frames_of m ?t False False (drop m bytes)))
    = Some (replicate (length ts' - 1) (Inr None) @
        [Inr (Some \<lparr>tr_header = set_timestamp t0 h,
           tr_payload = take (length (take m bytes @ drop m bytes) - 2) (take m bytes @ drop m bytes)\<rparr>)],
        increment_transfer_count (put_sub h i (put_session ?slot None (get_sub h i ?r')) ?r'))"
  proof (rule session_frames [OF assms(1) wf src al])
    show "routes ?r' h i" using r routes_port [OF r] by (intro routes_put_sub) simp_all
  qed (use slot crc limit ts ds t0 time in \<open>simp_all only: get', auto\<close>)
  moreover have "put_session ?slot None ?sub = ?sub" by (rule put_session_same [OF free])
  moreover have "ts' \<noteq> []" using ts t0 ds frames_of_nonempty by auto
  ultimately show ?thesis
    by (simp add: t0 ds received_Cons accept_transfer_frame [OF wf _ _ _ r] src
        accept_sane_routed [OF r first] get_put_sub [OF r] put_sub_twice put_sub_same Cons_replicate_eq)
qed

section \<open>Properties\<close>

text \<open>Frames as they come from the bus, with the receiver's timestamps.\<close>

definition stamp :: "'i list \<Rightarrow> 'i Frame list \<Rightarrow> 'i Frame list" where
  "stamp ts fs = map2 (\<lambda>t f. f\<lparr>fr_timestamp := t\<rparr>) ts fs"

lemma stamp_received:
  "stamp ts (transfer_frames mtu h p) = received (CanId (header_bits h p)) ts (transfer_data mtu h p)"
  by (simp add: stamp_def received_def transfer_frames_def zip_map2 comp_def case_prod_beta' mk_frame_def)

text \<open>All frames of a transfer, for a receiver with no open session of the source.\<close>

lemma transfer_received:
  assumes wf: "can_header_wf h" and r: "routes r h i" and "rx_wf r"
    and s: "calculate_frame_stats (length payload) (mtu_as_bytes mtu) = Some s"
    and limit: "add_padding_and_crc_space maxlen mtu = Some (sub_payload_size_max (get_sub h i r))"
    and "length payload \<le> maxlen"
    and al: "\<And>j. alloc_ok (al j)"
    and ts: "length ts = length (transfer_frames (mtu_as_bytes mtu) h payload)"
    and time: "\<And>t. t \<in> set ts \<Longrightarrow> since t (hd ts) \<le> sub_timeout (get_sub h i r)"
    and free: "case header_source h of
        None \<Rightarrow> length payload < mtu_as_bytes mtu
      | Some n \<Rightarrow> sub_sessions (get_sub h i r) ! usize_from_node n = None"
  shows "accept_all since al 0 r (stamp ts (transfer_frames (mtu_as_bytes mtu) h payload))
    = Some (replicate (length ts - 1) (Inr None) @
        [Inr (Some \<lparr>tr_header = set_timestamp (hd ts) h,
                    tr_payload = payload @ replicate (st_last_frame_padding s) 0\<rparr>)],
        increment_transfer_count r)"
proof -
  let ?m = "mtu_as_bytes mtu - 1" and ?pp = "payload @ replicate (st_last_frame_padding s) 0"
  have mtu: "1 < mtu_as_bytes mtu" "dlc_length (mtu_as_bytes mtu)"
    using mtu_as_bytes_cases [of mtu] dlc_mtu [of mtu] by auto
  note st = padded_size [OF mtu s] and adm = limit_admits [OF limit assms(6) s]
  let ?bytes = "transfer_bytes (mtu_as_bytes mtu) (st_last_frame_padding s) payload"
  have data: "transfer_data (mtu_as_bytes mtu) h payload
      = frames_of ?m (header_transfer_id h) True True ?bytes"
    using s by (simp add: transfer_data_def)
  have len: "length ts = length (transfer_data (mtu_as_bytes mtu) h payload)"
    using ts by (simp add: transfer_frames_def)
  have size: "length ?bytes \<le> sub_payload_size_max (get_sub h i r)"
    using adm transfer_bytes_count [OF mtu s] by simp
  show ?thesis
  proof (cases "length payload \<le> ?m")
    case True
    then have one: "st_frames s = 1" and bytes: "?bytes = ?pp"
      using st(1, 2) by (auto simp: transfer_bytes_def)
    then have "length ?bytes \<le> ?m" using st(3) by simp
    then have ds: "transfer_data (mtu_as_bytes mtu) h payload
        = [?pp @ [make_tail_byte True True True (header_transfer_id h)]]"
      unfolding data bytes by (subst frames_of.simps) simp
    then obtain t where t: "ts = [t]" using len by (auto simp: length_Suc_conv)
    show ?thesis
      using single_frame_roundtrip [OF wf r al [of 0], of ?pp since t payload] size
      by (simp add: stamp_received ds t received_Cons bytes) (simp add: received_def)
  next
    case False
    then have bytes: "?bytes = ?pp @ crc_bytes (crc_add_bytes crc_new ?pp)"
      by (simp add: transfer_bytes_def)
    obtain n where n: "header_source h = Some n" using free False by (cases "header_source h") auto
    have "get_sub h i r \<in> set (subscriptions_for_kind (kind_from_header h) r)"
      using routes_bound [OF r] by (simp add: get_sub_def)
    then have "sub_wf (get_sub h i r)" using assms(3) by (auto simp: rx_wf_def)
    then have slot: "usize_from_node n < length (sub_sessions (get_sub h i r))"
      using can_header_wf_source [OF wf n] by (simp add: sub_wf_def sessions_per_subscription usize_from_node_lt)
    have crc: "crc_get (crc_add_bytes crc_new ?bytes) = 0" unfolding bytes by (rule crc_appended)
    have take: "take (length ?bytes - 2) ?bytes = ?pp" unfolding bytes by (simp add: crc_bytes_def)
    have "?m < length ?bytes" using False by (simp add: bytes)
    from multi_frame_roundtrip [where since = since and al = al and j = 0 and payload = payload,
        OF _ wf n al r slot _ this crc size len [unfolded data]]
    show ?thesis using mtu(1) free n time take by (simp add: stamp_received data not_less)
  qed
qed

text \<open>
  C1: a transfer sent by the transmitter and received frame by frame is delivered. Let a
  receiver have a subscription for the transfer's port whose maximum payload size is at
  least that of the transfer (and, for a service transfer, be its destination), let no
  session of the source node be open, let all frames arrive within the timeout and let
  memory suffice. Then every frame but the last gives nothing, and the last gives the
  transfer with the sender's header, the timestamp of the first frame, and the payload
  followed by the zero bytes of padding. The receiver is as before, with one more transfer
  counted. Anonymous transfers are covered when they fit into one frame.
\<close>

theorem can_transfer_roundtrip:
  assumes "can_header_wf h" and "routes r h i" and "rx_wf r"
    and "calculate_frame_stats (length payload) (mtu_as_bytes mtu) = Some s"
    and "add_padding_and_crc_space maxlen mtu = Some (sub_payload_size_max (get_sub h i r))"
    and "length payload \<le> maxlen"
    and "\<And>j. alloc_ok (al j)"
    and "length ts = length (transfer_frames (mtu_as_bytes mtu) h payload)"
    and "\<And>t. t \<in> set ts \<Longrightarrow> since t (hd ts) \<le> sub_timeout (get_sub h i r)"
    and "case header_source h of
        None \<Rightarrow> length payload < mtu_as_bytes mtu
      | Some n \<Rightarrow> sub_sessions (get_sub h i r) ! usize_from_node n = None"
  shows "accept_all since al 0 r (stamp ts (transfer_frames (mtu_as_bytes mtu) h payload))
    = Some (replicate (length ts - 1) (Inr None) @
        [Inr (Some \<lparr>tr_header = set_timestamp (hd ts) h,
                    tr_payload = payload @ replicate (st_last_frame_padding s) 0\<rparr>)],
        increment_transfer_count r)"
  using assms by (rule transfer_received)

definition example_sub :: "(Microseconds32, MicrosecondDuration32) RxSubscription" where
  "example_sub = \<lparr>sub_sessions = init_rx_sessions, sub_timeout = MicrosecondDuration32 1000,
     sub_payload_size_max = 10, sub_port_id = PortId 7509\<rparr>"

definition example_receiver :: "(Microseconds32, MicrosecondDuration32) CanReceiver" where
  "example_receiver = (can_receiver_new_anonymous Can8)\<lparr>subscriptions_message := [example_sub]\<rparr>"

definition example_message :: "Microseconds32 can_header" where
  "example_message = Message \<lparr>mh_timestamp = Microseconds32 9, mh_transfer_id = CanTransferId 3,
     mh_priority = Nominal, mh_subject = SubjectId 7509, mh_source = Some (CanNodeId 42)\<rparr>"

lemma example_message_wf: "can_header_wf example_message"
  by (simp add: example_message_def subject_wf_def VALID_SUBJECT_IDS_end_def tid_wf_def
      VALID_TRANSFER_IDS_end_def node_wf_def VALID_NODE_IDS_end_def)

lemma example_routes: "routes example_receiver example_message 0"
  by (simp add: routes_def example_receiver_def example_message_def example_sub_def
      port_from_subject_def)

lemma example_get_sub: "get_sub example_message 0 example_receiver = example_sub"
  by (simp add: get_sub_def example_receiver_def example_message_def)

lemma example_receiver_wf: "rx_wf example_receiver"
proof -
  have "sub_wf example_sub" by (simp add: sub_wf_def example_sub_def init_rx_sessions_def)
  then have "rx_wf (put_subscriptions KindMessage [example_sub] (can_receiver_new_anonymous Can8))"
    by (intro rx_wf_put) (auto simp: new_receiver_wf can_receiver_new_anonymous_def example_sub_def
        subject_wf_def VALID_SUBJECT_IDS_end_def)
  then show ?thesis by (simp add: example_receiver_def)
qed

definition plenty :: alloc where
  "plenty = \<lparr>al_capacity = (\<lambda>_. True), al_box = True, al_extend = (\<lambda>_. True)\<rparr>"

theorem can_transfer_roundtrip_witness:
  "accept_all duration_since32 (\<lambda>_. plenty) 0 example_receiver
     (stamp [Microseconds32 0xfffffff0, Microseconds32 8]
       (transfer_frames (mtu_as_bytes Can8) example_message [1, 2, 3, 4, 5, 6, 7, 8]))
   = Some ([Inr None, Inr (Some \<lparr>tr_header = set_timestamp (Microseconds32 0xfffffff0) example_message,
              tr_payload = [1, 2, 3, 4, 5, 6, 7, 8]\<rparr>)],
       increment_transfer_count example_receiver)"
proof -
  let ?p = "[1, 2, 3, 4, 5, 6, 7, 8] :: u8 list" and ?s = "\<lparr>st_frames = 2, st_last_frame_padding = 0\<rparr>"
  let ?ts = "[Microseconds32 0xfffffff0, Microseconds32 8]"
  have s: "calculate_frame_stats (length ?p) (mtu_as_bytes Can8) = Some ?s"
    by (simp add: calculate_frame_stats_def round_up_frame_length_def)
  have limit: "add_padding_and_crc_space 8 Can8
      = Some (sub_payload_size_max (get_sub example_message 0 example_receiver))"
    by (simp add: example_get_sub example_sub_def add_padding_and_crc_space_def calculate_frame_stats_def
        round_up_frame_length_def)
  have "length (transfer_data (mtu_as_bytes Can8) example_message ?p) = 2"
    using transfer_data_layout(1) [OF _ dlc_mtu s] by simp
  then have len: "length ?ts = length (transfer_frames (mtu_as_bytes Can8) example_message ?p)"
    by (simp add: transfer_frames_def)
  have src: "header_source example_message = Some (CanNodeId 42)" by (simp add: example_message_def)
  have free: "case header_source example_message of None \<Rightarrow> length ?p < mtu_as_bytes Can8
      | Some n \<Rightarrow> sub_sessions (get_sub example_message 0 example_receiver) ! usize_from_node n = None"
    by (simp add: src example_get_sub example_sub_def init_rx_sessions_def
        sessions_per_subscription usize_from_node_def)
  have time: "duration_since32 t (hd ?ts) \<le> sub_timeout (get_sub example_message 0 example_receiver)"
    if "t \<in> set ?ts" for t
    using that by (auto simp: example_get_sub example_sub_def duration_since32_def
        less_eq_MicrosecondDuration32_def)
  show ?thesis
    using can_transfer_roundtrip [where since = duration_since32 and al = "\<lambda>_. plenty" and ts = ?ts
        and payload = ?p, OF example_message_wf example_routes example_receiver_wf s limit _ _ len time free]
    by (simp add: plenty_def alloc_ok_def)
qed

lemma frames_of_tails:
  assumes "d \<in> set (frames_of m t s g bytes)" and "0 < m" and "s \<Longrightarrow> m < length bytes"
  shows "\<exists>x s' e g'. d = x @ [make_tail_byte s' e g' t] \<and> \<not> (s' \<and> e)"
  using assms
proof (induction m t s g bytes rule: frames_of.induct)
  case (1 m t s g bytes)
  show ?case
  proof (cases "length bytes \<le> m")
    case True
    with 1(2-4) have "d = bytes @ [make_tail_byte s True g t]" "\<not> s"
      by (auto simp: frames_of.simps [of m t s g bytes])
    then show ?thesis by blast
  next
    case False
    then consider "d = take m bytes @ [make_tail_byte s False g t]"
      | "d \<in> set (frames_of m t False (\<not> g) (drop m bytes))"
      using 1(2, 3) by (auto simp: frames_of.simps [of m t s g bytes])
    then show ?thesis using 1(1) False 1(3) by cases blast+
  qed
qed

text \<open>
  The transmitter does not refuse an anonymous transfer that needs several frames, but no
  receiver ever delivers it: each of its frames is dropped and counted as an error.
\<close>

lemma anonymous_multi_frame_dropped:
  assumes "can_header_wf h" and "header_source h = None" and "mtu_as_bytes mtu \<le> length payload"
    and "f \<in> set (transfer_frames (mtu_as_bytes mtu) h payload)"
  shows "accept_frame since al r (f\<lparr>fr_timestamp := t\<rparr>) = Some (Inr None, increment_error_count r)"
proof -
  obtain stats where stats: "calculate_frame_stats (length payload) (mtu_as_bytes mtu) = Some stats"
    using stats_exist by blast
  let ?m = "mtu_as_bytes mtu - 1" and ?h = "set_timestamp t h"
  let ?bytes = "transfer_bytes (mtu_as_bytes mtu) (st_last_frame_padding stats) payload"
  have m: "0 < ?m" "?m < length ?bytes"
    using assms(3) mtu_as_bytes_cases [of mtu] by (auto simp: transfer_bytes_def Let_def)
  obtain d where f: "f = mk_frame (header_timestamp h) (CanId (header_bits h payload)) d"
      and "d \<in> set (frames_of ?m (header_transfer_id h) True True ?bytes)"
    using assms(4) stats by (auto simp: transfer_frames_def transfer_data_def)
  then obtain x s e g where d: "d = x @ [make_tail_byte s e g (header_transfer_id h)]" "\<not> (s \<and> e)"
    using frames_of_tails [OF _ m(1), of d] m(2) by blast
  have "tail_byte_parse (last d) =
      Some \<lparr>tb_start = s, tb_end = e, tb_toggle = g, tb_transfer_id = header_transfer_id h\<rparr>"
    using tail_byte_roundtrip [OF can_header_wf_tid [OF assms(1)]] d(1) by simp
  moreover have "parse_can_id (fr_id f) t (header_transfer_id h) = Some (Inr ?h)"
    using parse_header_bits [of ?h payload] assms(1) f by simp
  ultimately have "frame_sanity_check (f\<lparr>fr_timestamp := t\<rparr>) = Some None"
    using d assms(2) by (cases h) (auto simp: frame_sanity_check_def f mk_frame_def)
  then show ?thesis by (simp add: accept_frame_def)
qed

end
