(* ===== verification/Can_Sessions.thy ===== *)
theory Can_Sessions
  imports Can_RoundTrip
begin

text \<open>
  The sessions of the CAN receiver over time. Expired sessions make room for new transfers, and an open session has reserved all
  memory that its reassembly needs.
\<close>

section \<open>Cleaning\<close>

lemma position_map: "position P (map f xs) = position (\<lambda>x. P (f x)) xs"
  by (induction xs) auto

lemma clean_routes [simp]: "routes (clean_expired_sessions since now r) h i = routes r h i"
proof -
  have "rx_id (clean_expired_sessions since now r) = rx_id r" by (simp add: clean_expired_sessions_def)
  then show ?thesis
    by (cases "header_destination h") (simp_all add: routes_def subscriptions_clean clean_sessions_from_subscriptions_def position_map)
qed

text \<open>The session in a slot of a subscription.\<close>

definition session_at :: "('i, 'd) CanReceiver \<Rightarrow> TransferKind \<Rightarrow> nat \<Rightarrow> nat \<Rightarrow> 'i Session option" where
  "session_at r kind i slot = sub_sessions (subscriptions_for_kind kind r ! i) ! slot"

definition has_slot :: "('i, 'd) CanReceiver \<Rightarrow> TransferKind \<Rightarrow> nat \<Rightarrow> nat \<Rightarrow> bool" where
  "has_slot r kind i slot \<longleftrightarrow> i < length (subscriptions_for_kind kind r) \<and>
     slot < length (sub_sessions (subscriptions_for_kind kind r ! i))"

lemma session_at_increment [simp]:
  "session_at (increment_transfer_count r) = session_at r" "session_at (increment_error_count r) = session_at r"
  by (simp_all add: session_at_def fun_eq_iff)

lemma clean_sub:
  assumes "i < length (subscriptions_for_kind kind r)"
  shows "subscriptions_for_kind kind (clean_expired_sessions since now r) ! i =
    (let sub = subscriptions_for_kind kind r ! i in
     sub\<lparr>sub_sessions := map (clean_session since (sub_timeout sub) now) (sub_sessions sub)\<rparr>)"
  using assms by (simp add: subscriptions_clean clean_sessions_from_subscriptions_def Let_def)

lemma clean_session_Some:
  "clean_session since timeout now slot = Some s \<longleftrightarrow> slot = Some s \<and> since now (se_transfer_timestamp s) \<le> timeout"
  by (auto simp: clean_session_def not_less split: option.splits)

lemma clean_session_at:
  assumes "has_slot r kind i slot"
  shows "session_at (clean_expired_sessions since now r) kind i slot = Some s \<longleftrightarrow>
    session_at r kind i slot = Some s \<and> since now (se_transfer_timestamp s) \<le> sub_timeout (subscriptions_for_kind kind r ! i)"
  using assms by (simp add: session_at_def has_slot_def clean_sub Let_def clean_session_Some)

section \<open>A driver with frames\<close>

text \<open>The driver gives these frames, one by one.\<close>

fun delivers :: "('s, 'i, 'e) receive_driver \<Rightarrow> 'i \<Rightarrow> 's \<Rightarrow> 'i Frame list \<Rightarrow> 's \<Rightarrow> bool" where
  "delivers drv now d [] d' \<longleftrightarrow> d' = d"
| "delivers drv now d (f # fs) d' \<longleftrightarrow>
     (case rd_receive drv now d of (Inr f', d1) \<Rightarrow> f' = f \<and> delivers drv now d1 fs d' | _ \<Rightarrow> False)"

lemma receive_loop_delivers:
  assumes "accept_all since al n r fs = Some (replicate k (Inr None) @ [Inr (Some transfer)], r')"
    and "delivers drv now d fs d'"
  shows "receive_loop drv since al now n r d = Some (Inr (Some transfer), r', d')"
  using assms
proof (induction fs arbitrary: n r k d)
  case (Cons f fs)
  obtain d1 where d1: "rd_receive drv now d = (Inr f, d1)" "delivers drv now d1 fs d'"
    using Cons.prems(2) by (auto split: prod.splits sum.splits)
  obtain x r1 xs where x: "accept_frame since (al n) r f = Some (x, r1)" "accept_all since al (Suc n) r1 fs = Some (xs, r')"
    "x # xs = replicate k (Inr None) @ [Inr (Some transfer)]"
    using Cons.prems(1) by (auto simp: bind_eq_Some_conv)
  show ?case
  proof (cases k)
    case 0
    with x(3) have "x = Inr (Some transfer)" "fs = []" using x(2) by (cases fs; auto simp: bind_eq_Some_conv)+
    then show ?thesis using x(1,2) d1 by (subst receive_loop.simps) simp
  next
    case (Suc k')
    with x(3) have "x = Inr None" "xs = replicate k' (Inr None) @ [Inr (Some transfer)]" by simp_all
    then show ?thesis using x(1,2) d1 Cons.IH [of "Suc n" r1 k' d1] by (subst receive_loop.simps) simp
  qed
qed simp

section \<open>Reserved memory\<close>

text \<open>Every open session has reserved the maximum payload size of its subscription.\<close>

definition sub_reserved :: "('i, 'd) RxSubscription \<Rightarrow> bool" where
  "sub_reserved sub \<longleftrightarrow>
     (\<forall>s. Some s \<in> set (sub_sessions sub) \<longrightarrow> sub_payload_size_max sub \<le> bu_capacity (se_buildup s))"

definition rx_reserved :: "('i, 'd) CanReceiver \<Rightarrow> bool" where
  "rx_reserved r \<longleftrightarrow> (\<forall>kind. \<forall>sub \<in> set (subscriptions_for_kind kind r). sub_reserved sub)"

lemma rx_reserved_increment [simp]:
  "rx_reserved (increment_error_count r) = rx_reserved r" "rx_reserved (increment_transfer_count r) = rx_reserved r"
  by (simp_all add: rx_reserved_def)

lemma rx_reserved_put:
  assumes "rx_reserved r" and "\<And>sub. sub \<in> set xs \<Longrightarrow> sub_reserved sub"
  shows "rx_reserved (put_subscriptions k xs r)"
  using assms by (auto simp: rx_reserved_def)

lemma new_receiver_reserved: "rx_reserved (can_receiver_new_inner node mtu)"
  by (simp add: rx_reserved_def new_receiver_empty)

lemma clean_reserved: "rx_reserved r \<Longrightarrow> rx_reserved (clean_expired_sessions since now r)"
  by (auto simp: rx_reserved_def sub_reserved_def subscriptions_clean clean_sessions_from_subscriptions_def
      clean_session_Some eq_commute [of "Some _" "clean_session _ _ _ _"])

lemma unsubscribe_reserved: "rx_reserved r \<Longrightarrow> rx_reserved (unsubscribe k port r)"
  unfolding unsubscribe_def by (rule rx_reserved_put) (auto simp: rx_reserved_def)

lemma subscribe_reserved:
  assumes "rx_reserved r" and "subscribe mem k port maxlen timeout r = Some (res, r')"
  shows "rx_reserved r'"
proof -
  have "sub_reserved sub" if "subscription_new timeout maxlen port mtu = Some sub" for sub :: "('a, 'b) RxSubscription" and mtu
    using that by (auto simp: subscription_new_def sub_reserved_def init_rx_sessions_def)
  then show ?thesis
    using assms(2) unsubscribe_reserved [OF assms(1), of k port]
    by (cases mem) (auto simp: subscribe_def try_push_def Let_def bind_eq_Some_conv rx_reserved_def split: if_splits)
qed

text \<open>With reserved memory, reassembly does not depend on the allocator.\<close>

lemma buildup_add_reserved:
  assumes "length (bu_transfer b) + (length data - 1) \<le> bu_capacity b"
  shows "buildup_add al b data = buildup_add al' b data"
    and "buildup_add al b data = Some (Inr None, b') \<Longrightarrow> bu_capacity b \<le> bu_capacity b'"
proof -
  obtain tail where tail: "tail_byte_parse (last data) = Some tail" using tail_byte_parse_total by blast
  have "try_extend al (bu_capacity b) (length (bu_transfer b)) (length data - Suc 0)" for al
    using assms by (simp add: try_extend_def)
  then show "buildup_add al b data = buildup_add al' b data"
    and "buildup_add al b data = Some (Inr None, b') \<Longrightarrow> bu_capacity b \<le> bu_capacity b'"
    using tail by (cases b, auto simp: buildup_add_def Let_def split: if_splits)+
qed

lemma status_cases:
  obtains e where "st = Inl e" | "st = Inr None" | d where "st = Inr (Some d)"
  by (metis not_Some_eq obj_sumE)

lemma session_accept_cases:
  assumes "session_accept since al s f h tail limit timeout = Some (r, s')"
  obtains "r = Inr None" and "s' = s" | "r = Inl PayloadLength" | "r = Inl Timeout"
  | st b where "length (bu_transfer (se_buildup s)) + (length (fr_data f) - 1) \<le> limit"
    and "buildup_add al (se_buildup s) (fr_data f) = Some (st, b)" and "s' = s\<lparr>se_buildup := b\<rparr>"
    and "\<And>e. st = Inl e \<Longrightarrow> r = Inl (Buildup e)" and "st = Inr None \<Longrightarrow> r = Inr None"
    and "\<And>d. st = Inr (Some d) \<Longrightarrow> handle_transfer_data s' d h = Some r"
proof (cases "tb_transfer_id tail = bu_transfer_id (se_buildup s) \<and> fr_data f \<noteq> []
    \<and> length (bu_transfer (se_buildup s)) + (length (fr_data f) - 1) \<le> limit \<and> \<not> timeout < since (fr_timestamp f) (se_transfer_timestamp s)")
  case False
  with assms that(1-3) show thesis by (simp add: session_accept_def not_less split: if_splits)
next
  case True
  with assms have acc: "do {
        (status, buildup) \<leftarrow> buildup_add al (se_buildup s) (fr_data f);
        let self = s\<lparr>se_buildup := buildup\<rparr>;
        case status of
          Inl e \<Rightarrow> Some (Inl (Buildup e), self)
        | Inr (Some d) \<Rightarrow> do { r \<leftarrow> handle_transfer_data self d h; Some (r, self) }
        | Inr None \<Rightarrow> Some (Inr None, self)
      } = Some (r, s')" by (simp add: session_accept_def)
  have "buildup_add al (se_buildup s) (fr_data f) \<noteq> None"
  proof
    assume "buildup_add al (se_buildup s) (fr_data f) = None"
    with acc show False by simp
  qed
  then obtain st b where st: "buildup_add al (se_buildup s) (fr_data f) = Some (st, b)" by (metis not_Some_eq prod.exhaust)
  let ?s = "s\<lparr>se_buildup := b\<rparr>"
  have acc: "(case st of Inl e \<Rightarrow> Some (Inl (Buildup e), ?s)
      | Inr (Some d) \<Rightarrow> do { r \<leftarrow> handle_transfer_data ?s d h; Some (r, ?s) } | Inr None \<Rightarrow> Some (Inr None, ?s)) = Some (r, s')"
    using acc unfolding st by (simp only: Option.bind.bind_lunit prod.case Let_def)
  have s': "s' = ?s" using acc by (cases st rule: status_cases) (auto simp: bind_eq_Some_conv)
  show thesis
  proof (rule that(4) [OF _ st s'])
    show "length (bu_transfer (se_buildup s)) + (length (fr_data f) - 1) \<le> limit" using True by blast
    show "handle_transfer_data s' d h = Some r" if "st = Inr (Some d)" for d
      using acc that s' by (auto simp: bind_eq_Some_conv)
  qed (use acc in simp_all)
qed

lemma handle_transfer_data_result:
  "handle_transfer_data x d h \<noteq> Some (Inr None)" "handle_transfer_data x d h \<noteq> Some (Inl (SessionMemory e))"
  by (simp_all add: handle_transfer_data_def Let_def)

lemma session_accept_reserved:
  assumes "limit \<le> bu_capacity (se_buildup s)"
  shows "session_accept since al s f h tail limit timeout = session_accept since al' s f h tail limit timeout"
    and "session_accept since al s f h tail limit timeout = Some (Inr None, s') \<Longrightarrow> limit \<le> bu_capacity (se_buildup s')"
    and "session_accept since al s f h tail limit timeout \<noteq> Some (Inl (SessionMemory e), s')"
proof -
  have same: "buildup_add al (se_buildup s) (fr_data f) = buildup_add al' (se_buildup s) (fr_data f)"
    if "\<not> limit < length (bu_transfer (se_buildup s)) + (length (fr_data f) - 1)"
    by (rule buildup_add_reserved(1)) (use that assms in simp)
  show "session_accept since al s f h tail limit timeout = session_accept since al' s f h tail limit timeout"
    unfolding session_accept_def by (intro if_cong refl) (subst same, assumption, rule refl)
  show "limit \<le> bu_capacity (se_buildup s')" if "session_accept since al s f h tail limit timeout = Some (Inr None, s')"
    using that
  proof (cases rule: session_accept_cases)
    case (4 st b)
    then have "st = Inr None" using handle_transfer_data_result(1) by (cases st rule: status_cases) auto
    then show ?thesis using 4(1-3) buildup_add_reserved(2) [of "se_buildup s" "fr_data f" al b] assms by simp
  qed (use assms in simp_all)
  show "session_accept since al s f h tail limit timeout \<noteq> Some (Inl (SessionMemory e), s')"
  proof
    assume "session_accept since al s f h tail limit timeout = Some (Inl (SessionMemory e), s')"
    then show False
    proof (cases rule: session_accept_cases)
      case (4 st b)
      then show False using handle_transfer_data_result(2) by (cases st rule: status_cases) auto
    qed simp_all
  qed
qed

text \<open>
  The memory that a frame needs: a transfer of one frame needs a vector for its payload, the first frame of a transfer needs
  the buffer of a new session and its box, and later frames need nothing.
\<close>

definition memory_suffices :: "alloc \<Rightarrow> ('i, 'd) RxSubscription \<Rightarrow> 'i Frame \<Rightarrow> 'i can_header \<Rightarrow> TailByte \<Rightarrow> bool" where
  "memory_suffices al sub f h tail \<longleftrightarrow>
     (case header_source h of
        None \<Rightarrow> try_extend al 0 0 (length (fr_data f) - 1)
      | Some n \<Rightarrow>
          if tb_start tail \<and> tb_end tail then
            sub_payload_size_max sub + 1 < length (fr_data f) \<or> try_extend al 0 0 (length (fr_data f) - 1)
          else if sub_sessions sub ! usize_from_node n = None \<and> tb_start tail then
            al_capacity al (sub_payload_size_max sub) \<and> al_box al
          else True)"

lemma sub_reserved_put:
  assumes "sub_reserved sub" and "\<And>s. x = Some s \<Longrightarrow> sub_payload_size_max sub \<le> bu_capacity (se_buildup s)"
  shows "sub_reserved (put_session n x sub)"
  using assms by (auto simp: sub_reserved_def put_session_def dest!: set_update_subset_insert [THEN subsetD])

lemma session_for_frame_memory:
  assumes "sub_reserved sub" and "slot < length (sub_sessions sub)"
    and "sub_sessions sub ! slot = None \<and> tb_start tail \<longrightarrow> al_capacity al (sub_payload_size_max sub) \<and> al_box al"
  shows "session_for_frame al sub slot h tail =
      (case sub_sessions sub ! slot of Some s \<Rightarrow> Inr s
       | None \<Rightarrow> if tb_start tail then Inr \<lparr>se_transfer_timestamp = header_timestamp h, se_buildup =
           \<lparr>bu_transfer_id = tb_transfer_id tail, bu_frames = 0, bu_expect_start = True, bu_expect_toggle = True,
            bu_transfer = [], bu_capacity = sub_payload_size_max sub\<rparr>\<rparr> else Inl NotStart)"
    and "session_for_frame al sub slot h tail = Inr s \<Longrightarrow> sub_payload_size_max sub \<le> bu_capacity (se_buildup s)"
proof -
  show eq: "session_for_frame al sub slot h tail =
      (case sub_sessions sub ! slot of Some s \<Rightarrow> Inr s
       | None \<Rightarrow> if tb_start tail then Inr \<lparr>se_transfer_timestamp = header_timestamp h, se_buildup =
           \<lparr>bu_transfer_id = tb_transfer_id tail, bu_frames = 0, bu_expect_start = True, bu_expect_toggle = True,
            bu_transfer = [], bu_capacity = sub_payload_size_max sub\<rparr>\<rparr> else Inl NotStart)"
    using assms(3) by (auto simp: session_for_frame_def session_new_def buildup_new_def split: option.split)
  show "session_for_frame al sub slot h tail = Inr s \<Longrightarrow> sub_payload_size_max sub \<le> bu_capacity (se_buildup s)"
    using assms(1) nth_mem [OF assms(2)] unfolding eq by (auto simp: sub_reserved_def split: option.splits if_splits)
qed

lemma accept_with_session_memory:
  assumes "sub_reserved sub" and "usize_from_node n < length (sub_sessions sub)"
    and "sub_sessions sub ! usize_from_node n = None \<and> tb_start tail \<longrightarrow> al_capacity al (sub_payload_size_max sub) \<and> al_box al"
    and "accept_with_session since al sub f h n tail = Some (r, sub')"
  shows "sub_reserved sub'" and "r \<noteq> Inl (SubMemory e)" and "r \<noteq> Inl (SessionErr (SessionMemory e))"
proof -
  let ?slot = "usize_from_node n"
  note sess = session_for_frame_memory [OF assms(1-3), where h = h]
  have "sub_reserved sub' \<and> r \<noteq> Inl (SubMemory e) \<and> r \<noteq> Inl (SessionErr (SessionMemory e))"
  proof (cases "session_for_frame al sub ?slot h tail")
    case (Inl e')
    then have "e' = NotStart" using sess(1) by (auto split: option.splits if_splits)
    then show ?thesis using Inl assms(1,2,4) by (auto simp: accept_with_session_def)
  next
    case (Inr s)
    then obtain st s' where acc: "session_accept since al s f h tail (sub_payload_size_max sub) (sub_timeout sub) = Some (st, s')"
      and r: "(r, sub') = conclude_accept sub ?slot (st, s')" using assms(2,4) by (auto simp: accept_with_session_def)
    note res = session_accept_reserved(2,3) [OF sess(2) [OF Inr], where since = since and al = al and f = f and h = h and tail = tail and timeout = "sub_timeout sub"]
    show ?thesis using r acc res(1) [of s'] res(2) [of _ s'] sub_reserved_put [OF assms(1), where n = ?slot]
      by (cases st rule: status_cases) auto
  qed
  then show "sub_reserved sub'" and "r \<noteq> Inl (SubMemory e)" and "r \<noteq> Inl (SessionErr (SessionMemory e))" by simp_all
qed

lemma accept_with_session_same:
  assumes "sub_reserved sub" and "usize_from_node n < length (sub_sessions sub)"
    and "sub_sessions sub ! usize_from_node n = None \<and> tb_start tail \<longrightarrow> al_capacity al (sub_payload_size_max sub) \<and> al_box al"
    and "sub_sessions sub ! usize_from_node n = None \<and> tb_start tail \<longrightarrow> al_capacity al' (sub_payload_size_max sub) \<and> al_box al'"
  shows "accept_with_session since al sub f h n tail = accept_with_session since al' sub f h n tail"
proof -
  let ?slot = "usize_from_node n"
  have eq: "session_for_frame al sub ?slot h tail = session_for_frame al' sub ?slot h tail"
    using session_for_frame_memory(1) [OF assms(1,2)] assms(3,4) by simp
  have "session_accept since al s f h tail (sub_payload_size_max sub) (sub_timeout sub)
      = session_accept since al' s f h tail (sub_payload_size_max sub) (sub_timeout sub)"
    if "session_for_frame al' sub ?slot h tail = Inr s" for s
    by (rule session_accept_reserved(1) [OF session_for_frame_memory(2) [OF assms(1,2,4) that]])
  then show ?thesis
    using assms(2) by (cases "session_for_frame al' sub ?slot h tail") (simp_all add: accept_with_session_def eq)
qed

lemma subscription_accept_memory:
  assumes "sub_wf sub" and "sub_reserved sub" and "can_header_wf h" and "fr_data f \<noteq> []"
  shows "\<not> memory_suffices al sub f h tail \<Longrightarrow> subscription_accept since al sub f h tail = Some (Inl (SubMemory OutOfMemoryError), sub)"
    and "memory_suffices al sub f h tail \<Longrightarrow> memory_suffices al' sub f h tail \<Longrightarrow>
      subscription_accept since al sub f h tail = subscription_accept since al' sub f h tail"
    and "memory_suffices al sub f h tail \<Longrightarrow> subscription_accept since al sub f h tail = Some (r, sub') \<Longrightarrow>
      sub_reserved sub' \<and> r \<noteq> Inl (SubMemory e) \<and> r \<noteq> Inl (SessionErr (SessionMemory e))"
proof (atomize (full), cases "header_source h")
  case None
  then show "(\<not> memory_suffices al sub f h tail \<longrightarrow> subscription_accept since al sub f h tail = Some (Inl (SubMemory OutOfMemoryError), sub)) \<and>
      (memory_suffices al sub f h tail \<longrightarrow> memory_suffices al' sub f h tail \<longrightarrow>
        subscription_accept since al sub f h tail = subscription_accept since al' sub f h tail) \<and>
      (memory_suffices al sub f h tail \<longrightarrow> subscription_accept since al sub f h tail = Some (r, sub') \<longrightarrow>
        sub_reserved sub' \<and> r \<noteq> Inl (SubMemory e) \<and> r \<noteq> Inl (SessionErr (SessionMemory e)))"
    using assms(2,4) by (auto simp: memory_suffices_def subscription_accept_def accept_anonymous_def single_frame_def)
next
  case (Some n)
  have slot: "usize_from_node n < length (sub_sessions sub)"
    using assms(1) can_header_wf_source [OF assms(3) Some] by (simp add: sub_wf_def sessions_per_subscription usize_from_node_lt)
  have accept: "subscription_accept since al sub f h tail = accept_non_anonymous since al sub f h n tail" for al
    using Some by (simp add: subscription_accept_def)
  show "(\<not> memory_suffices al sub f h tail \<longrightarrow> subscription_accept since al sub f h tail = Some (Inl (SubMemory OutOfMemoryError), sub)) \<and>
      (memory_suffices al sub f h tail \<longrightarrow> memory_suffices al' sub f h tail \<longrightarrow>
        subscription_accept since al sub f h tail = subscription_accept since al' sub f h tail) \<and>
      (memory_suffices al sub f h tail \<longrightarrow> subscription_accept since al sub f h tail = Some (r, sub') \<longrightarrow>
        sub_reserved sub' \<and> r \<noteq> Inl (SubMemory e) \<and> r \<noteq> Inl (SessionErr (SessionMemory e)))"
  proof (cases "tb_start tail \<and> tb_end tail")
    case True
    then show ?thesis using Some assms(2,4) by (auto simp: accept memory_suffices_def accept_non_anonymous_def single_frame_def)
  next
    case False
    then have m: "memory_suffices al sub f h tail \<longleftrightarrow>
        (sub_sessions sub ! usize_from_node n = None \<and> tb_start tail \<longrightarrow> al_capacity al (sub_payload_size_max sub) \<and> al_box al)" for al
      using Some by (auto simp: memory_suffices_def)
    have acc: "subscription_accept since al sub f h tail = accept_with_session since al sub f h n tail" for al
      using False by (auto simp: accept accept_non_anonymous_def)
    have "\<not> memory_suffices al sub f h tail \<longrightarrow> subscription_accept since al sub f h tail = Some (Inl (SubMemory OutOfMemoryError), sub)"
      using slot unfolding m acc by (auto simp: accept_with_session_def session_for_frame_def session_new_def buildup_new_def)
    moreover note accept_with_session_same [OF assms(2) slot, of tail al al' since f h]
      accept_with_session_memory [OF assms(2) slot, of tail al since f h r sub']
    ultimately show ?thesis unfolding m acc by blast
  qed
qed

section \<open>Whole frames\<close>

definition out_of_memory :: "alloc \<Rightarrow> ('i, 'd) CanReceiver \<Rightarrow> 'i Frame \<Rightarrow> bool" where
  "out_of_memory al r f \<longleftrightarrow>
     (case frame_sanity_check f of
        Some (Some (h, tail)) \<Rightarrow> \<exists>i. routes r h i \<and> \<not> memory_suffices al (get_sub h i r) f h tail
      | _ \<Rightarrow> False)"

lemma accept_frame_unrouted:
  assumes "frame_sanity_check f = Some x" and "\<And>h tail i. x = Some (h, tail) \<Longrightarrow> \<not> routes r h i"
  shows "\<exists>r' \<in> {r, increment_error_count r}. \<forall>al. accept_frame since al r f = Some (Inr None, r')"
proof (cases x)
  case (Some y)
  obtain h tail where y: "y = (h, tail)" by fastforce
  then have "\<forall>i. \<not> routes r h i" using assms(2) Some by simp
  then have "accept_frame since al r f = Some (Inr None, r)" for al
    using assms(1) Some y
    by (auto simp: accept_frame_def accept_sane_frame_def routes_def Let_def split: option.splits)
  then show ?thesis by simp
qed (use assms(1) in \<open>simp add: accept_frame_def\<close>)

lemma accept_frame_routed:
  assumes "frame_sanity_check f = Some (Some (h, tail))" and "routes r h i"
    and "subscription_accept since al (get_sub h i r) f h tail = Some (st, sub)"
  shows "accept_frame since al r f = (case st of
       Inr (Some transfer) \<Rightarrow> Some (Inr (Some transfer), increment_transfer_count (put_sub h i sub r))
     | Inr None \<Rightarrow> Some (Inr None, put_sub h i sub r)
     | Inl e \<Rightarrow> (case e of
           SessionErr (SessionMemory oom) \<Rightarrow> Some (Inl oom, increment_error_count (put_sub h i sub r))
         | SubMemory oom \<Rightarrow> Some (Inl oom, increment_error_count (put_sub h i sub r))
         | _ \<Rightarrow> Some (Inr None, increment_error_count (put_sub h i sub r))))"
proof -
  have "accept_frame since al r f = accept_sane_frame since al r f h tail"
    using assms(1,2) by (cases "header_destination h") (simp_all add: accept_frame_def routes_def)
  moreover have "set_timestamp (header_timestamp h) h = h" by (cases h) simp_all
  ultimately show ?thesis using accept_sane_routed [OF assms(2), where t = "header_timestamp h"] assms(3) by simp
qed

lemma accept_frame_memory:
  assumes "rx_wf r" and "rx_reserved r" and "frame_sanity_check f = Some (Some (h, tail))" and "routes r h i"
    and "can_header_wf h" and "fr_data f \<noteq> []" and "tail_byte_parse (last (fr_data f)) = Some tail"
  shows "\<not> memory_suffices al (get_sub h i r) f h tail \<Longrightarrow> accept_frame since al r f = Some (Inl OutOfMemoryError, increment_error_count r)"
    and "memory_suffices al (get_sub h i r) f h tail \<Longrightarrow> \<exists>y r'. accept_frame since al r f = Some (Inr y, r') \<and> rx_reserved r' \<and>
      (\<forall>al'. memory_suffices al' (get_sub h i r) f h tail \<longrightarrow> accept_frame since al' r f = Some (Inr y, r'))"
proof -
  let ?sub = "get_sub h i r"
  have "?sub \<in> set (subscriptions_for_kind (kind_from_header h) r)" using routes_bound [OF assms(4)] by (simp add: get_sub_def)
  then have sub: "sub_wf ?sub" "sub_reserved ?sub" using assms(1,2) by (auto simp: rx_wf_def rx_reserved_def)
  note mem = subscription_accept_memory [OF sub assms(5,6), where since = since and tail = tail]
  show "accept_frame since al r f = Some (Inl OutOfMemoryError, increment_error_count r)" if "\<not> memory_suffices al ?sub f h tail"
    using accept_frame_routed [OF assms(3,4) mem(1) [OF that]] by (simp add: put_sub_same)
  assume ok: "memory_suffices al ?sub f h tail"
  obtain st sub' where acc: "subscription_accept since al ?sub f h tail = Some (st, sub')"
    using subscription_accept_total [OF sub(1) assms(5-7)] by blast
  note res = mem(3) [OF ok acc]
  have "subscription_accept since al' ?sub f h tail = Some (st, sub')" if "memory_suffices al' ?sub f h tail" for al'
    using mem(2) [OF ok that] acc by simp
  then have same: "accept_frame since al' r f = accept_frame since al r f" if "memory_suffices al' ?sub f h tail" for al'
    using accept_frame_routed [OF assms(3,4)] acc that by simp
  have "rx_reserved (put_sub h i sub' r)"
    using assms(2) res by (auto simp: put_sub_def rx_reserved_def dest!: set_update_subset_insert [THEN subsetD] split: if_splits)
  then have "\<exists>y r'. accept_frame since al r f = Some (Inr y, r') \<and> rx_reserved r'"
    using accept_frame_routed [OF assms(3,4) acc] res by (auto split: sum.split option.split SubscriptionError.split SessionError.split)
  with same show "\<exists>y r'. accept_frame since al r f = Some (Inr y, r') \<and> rx_reserved r' \<and>
      (\<forall>al'. memory_suffices al' ?sub f h tail \<longrightarrow> accept_frame since al' r f = Some (Inr y, r'))" by metis
qed

section \<open>Properties\<close>

text \<open>
  C16: Failed allocations are reported, and nothing else depends on the allocator. In a receiver whose open sessions have reserved
  their memory, which every operation maintains, handling a frame with a 29-bit identifier gives the out-of-memory error exactly when
  the frame reaches a subscription and the memory it needs there cannot be allocated: the payload of a transfer
  of one frame, or the buffer and box of a new session. A frame of an open session needs none. With that error only the error counter has
  changed; otherwise the result is the same for all allocators that provide the memory.
\<close>

theorem allocation_failures_reported:
  assumes "rx_wf r" and "rx_reserved r" and "can_id_wf (fr_id f)"
  shows "\<exists>x r'. accept_frame since al r f = Some (x, r') \<and> rx_reserved r' \<and>
    (x = Inl OutOfMemoryError \<longleftrightarrow> out_of_memory al r f) \<and>
    (x = Inl OutOfMemoryError \<longrightarrow> r' = increment_error_count r) \<and>
    (\<forall>al'. \<not> out_of_memory al r f \<longrightarrow> \<not> out_of_memory al' r f \<longrightarrow> accept_frame since al' r f = Some (x, r'))"
proof -
  obtain x where x: "frame_sanity_check f = Some x" "\<And>h tail. x = Some (h, tail) \<Longrightarrow>
      fr_data f \<noteq> [] \<and> tail_byte_parse (last (fr_data f)) = Some tail \<and> can_header_wf h"
    using frame_sanity_check_total [OF assms(3)] by blast
  show ?thesis
  proof (cases "\<exists>h tail i. x = Some (h, tail) \<and> routes r h i")
    case True
    then obtain h tail i where h: "frame_sanity_check f = Some (Some (h, tail))" "routes r h i" and
      f: "can_header_wf h" "fr_data f \<noteq> []" "tail_byte_parse (last (fr_data f)) = Some tail" using x by blast
    have oom: "out_of_memory al r f \<longleftrightarrow> \<not> memory_suffices al (get_sub h i r) f h tail" for al
      using h by (auto simp: out_of_memory_def routes_def)
    note mem = accept_frame_memory [OF assms(1,2) h f, of al since]
    show ?thesis
    proof (cases "memory_suffices al (get_sub h i r) f h tail")
      case True
      from mem(2) [OF this] obtain y r' where acc: "accept_frame since al r f = Some (Inr y, r')" "rx_reserved r'"
        and same: "\<forall>al'. memory_suffices al' (get_sub h i r) f h tail \<longrightarrow> accept_frame since al' r f = Some (Inr y, r')" by blast
      show ?thesis unfolding oom using True acc same by (intro exI [of _ "Inr y"] exI [of _ r']) simp
    next
      case False
      then show ?thesis unfolding oom using mem(1) [OF False] assms(2)
        by (intro exI [of _ "Inl OutOfMemoryError"] exI [of _ "increment_error_count r"]) simp
    qed
  next
    case False
    then have unrouted: "\<not> routes r h i" if "x = Some (h, tail)" for h tail i using that by blast
    then have oom: "\<not> out_of_memory al r f" for al using x(1) by (auto simp: out_of_memory_def split: option.splits)
    obtain r' where r': "r' \<in> {r, increment_error_count r}" "\<forall>al. accept_frame since al r f = Some (Inr None, r')"
      using accept_frame_unrouted [OF x(1), where r = r and since = since] unrouted by auto
    then have "rx_reserved r'" using assms(2) by auto
    with r'(2) oom show ?thesis by (intro exI [of _ "Inr None"] exI [of _ r']) simp
  qed
qed

definition no_memory :: alloc where
  "no_memory = \<lparr>al_capacity = (\<lambda>_. False), al_box = False, al_extend = (\<lambda>_. False)\<rparr>"

text \<open>The example receiver with an open session of node 42, and the last frame of its transfer.\<close>

definition example_open :: "(nat, nat) CanReceiver" where
  "example_open = put_subscriptions KindMessage
     [put_session 42 (Some \<lparr>se_transfer_timestamp = 3, se_buildup = \<lparr>bu_transfer_id = CanTransferId 0, bu_frames = 1,
         bu_expect_start = False, bu_expect_toggle = False, bu_transfer = [1, 2, 3, 4, 5, 6, 7], bu_capacity = 10\<rparr>\<rparr>)
       (hd (subscriptions_message example_rx))] example_rx"

lemma example_open_wf: "rx_wf example_open" "rx_reserved example_open"
proof -
  let ?sub = "hd (subscriptions_message example_rx)"
  have sub: "sub_wf ?sub" "kind_port_wf KindMessage (sub_port_id ?sub)" "sub_reserved ?sub" "sub_payload_size_max ?sub = 10"
    by (simp_all add: example_rx_def sub_wf_def sub_reserved_def init_rx_sessions_def subject_wf_def VALID_SUBJECT_IDS_end_def)
  then show "rx_wf example_open" unfolding example_open_def
    by (intro rx_wf_put example_rx_wf) (auto simp: session_wf_def intro: sub_wf_put)
  have "rx_reserved example_rx" using sub(3) unfolding example_rx_def can_receiver_new_anonymous_def
    by (intro rx_reserved_put new_receiver_reserved) auto
  then show "rx_reserved example_open" unfolding example_open_def
    using sub by (intro rx_reserved_put) (auto intro!: sub_reserved_put)
qed

lemma example_sanity:
  "frame_sanity_check example_frame = Some (Some (Message \<lparr>mh_timestamp = 5, mh_transfer_id = CanTransferId 0, mh_priority = Nominal,
     mh_subject = SubjectId 7509, mh_source = Some (CanNodeId 42)\<rparr>,
     \<lparr>tb_start = True, tb_end = True, tb_toggle = True, tb_transfer_id = CanTransferId 0\<rparr>))"
  "frame_sanity_check (example_frame\<lparr>fr_data := [8, 0]\<rparr>) = Some (Some (Message \<lparr>mh_timestamp = 5, mh_transfer_id = CanTransferId 0, mh_priority = Nominal,
     mh_subject = SubjectId 7509, mh_source = Some (CanNodeId 42)\<rparr>,
     \<lparr>tb_start = False, tb_end = False, tb_toggle = False, tb_transfer_id = CanTransferId 0\<rparr>))"
  by code_simp+

theorem allocation_failures_reported_witness:
  "accept_frame (-) no_memory example_open example_frame = Some (Inl OutOfMemoryError, increment_error_count example_open) \<and>
   accept_frame (-) no_memory example_open (example_frame\<lparr>fr_data := [8, 0]\<rparr>)
     = accept_frame (-) plenty example_open (example_frame\<lparr>fr_data := [8, 0]\<rparr>)"
proof -
  let ?f = "example_frame\<lparr>fr_data := [8, 0]\<rparr>"
  let ?h = "Message \<lparr>mh_timestamp = 5, mh_transfer_id = CanTransferId 0, mh_priority = Nominal,
     mh_subject = SubjectId 7509, mh_source = Some (CanNodeId 42)\<rparr> :: nat can_header"
  have routes: "routes example_open ?h i \<longleftrightarrow> i = 0" for i
    by (auto simp: routes_def example_open_def example_rx_def put_session_def port_from_subject_def)
  have sub: "sub_payload_size_max (get_sub ?h 0 example_open) = 10" "sub_sessions (get_sub ?h 0 example_open) ! 42 \<noteq> None"
    by (simp_all add: get_sub_def example_open_def example_rx_def put_session_def init_rx_sessions_def sessions_per_subscription)
  have "length (fr_data example_frame) = 4" by (simp add: example_frame_def)
  then have "out_of_memory no_memory example_open example_frame"
    by (simp add: out_of_memory_def example_sanity routes memory_suffices_def sub try_extend_def no_memory_def)
  moreover have "\<not> out_of_memory al example_open ?f" for al
    using sub(2) by (simp add: out_of_memory_def example_sanity routes memory_suffices_def usize_from_node_def)
  moreover have "can_id_wf (fr_id example_frame)" "can_id_wf (fr_id ?f)" by (simp_all add: example_frame_def can_id_wf_iff)
  ultimately show ?thesis
    using allocation_failures_reported [OF example_open_wf, of example_frame "(-)" no_memory]
      allocation_failures_reported [OF example_open_wf, of ?f "(-)" no_memory] by auto
qed

text \<open>
  C15: Receiving recovers from interrupted transfers, and forgets nothing else. Let a receiver have a subscription for the port of a transfer
  that fits it, as in the property of whole transfers, but let the source node possibly have a session open, in any state, whose first frame
  is older than the subscription's timeout. If the driver now has the frames of the transfer, received within the timeout, then one
  call of \<^verbatim>\<open>receive\<close> returns the transfer. Afterwards, in every subscription and for every node, a session is open exactly if it was open before and its first
  frame is not older than the timeout of its subscription.
\<close>

theorem interrupted_transfer_replaced:
  assumes "can_header_wf h" and "routes r h i" and "rx_wf r"
    and "calculate_frame_stats (length payload) (mtu_as_bytes mtu) = Some s"
    and "add_padding_and_crc_space maxlen mtu = Some (sub_payload_size_max (get_sub h i r))"
    and "length payload \<le> maxlen"
    and "\<And>j. alloc_ok (al j)"
    and "length ts = length (transfer_frames (mtu_as_bytes mtu) h payload)"
    and "\<And>t. t \<in> set ts \<Longrightarrow> since t (hd ts) \<le> sub_timeout (get_sub h i r)"
    and "case header_source h of
        None \<Rightarrow> length payload < mtu_as_bytes mtu
      | Some n \<Rightarrow> \<forall>old. sub_sessions (get_sub h i r) ! usize_from_node n = Some old \<longrightarrow>
          sub_timeout (get_sub h i r) < since now (se_transfer_timestamp old)"
    and "delivers drv now d (stamp ts (transfer_frames (mtu_as_bytes mtu) h payload)) d'"
  shows "\<exists>r'. receive drv since al now r d
      = Some (Inr (Some \<lparr>tr_header = set_timestamp (hd ts) h, tr_payload = payload @ replicate (st_last_frame_padding s) 0\<rparr>), r', d') \<and>
    rx_transfer_count r' = rx_transfer_count r + 1 \<and>
    (\<forall>kind j slot old. has_slot r kind j slot \<longrightarrow> (session_at r' kind j slot = Some old \<longleftrightarrow>
       session_at r kind j slot = Some old \<and> since now (se_transfer_timestamp old) \<le> sub_timeout (subscriptions_for_kind kind r ! j)))"
proof -
  let ?r = "clean_expired_sessions since now r" and ?sub = "get_sub h i r"
  have sub: "get_sub h i ?r = ?sub\<lparr>sub_sessions := map (clean_session since (sub_timeout ?sub) now) (sub_sessions ?sub)\<rparr>"
    using clean_sub [OF routes_bound [OF assms(2)]] by (simp add: get_sub_def Let_def)
  have "?sub \<in> set (subscriptions_for_kind (kind_from_header h) r)" using routes_bound [OF assms(2)] by (simp add: get_sub_def)
  then have wf: "sub_wf ?sub" using assms(3) by (auto simp: rx_wf_def)
  have free: "case header_source h of None \<Rightarrow> length payload < mtu_as_bytes mtu
      | Some n \<Rightarrow> sub_sessions (get_sub h i ?r) ! usize_from_node n = None"
  proof (cases "header_source h")
    case (Some n)
    have slot: "usize_from_node n < length (sub_sessions ?sub)"
      using wf can_header_wf_source [OF assms(1) Some] by (simp add: sub_wf_def sessions_per_subscription usize_from_node_lt)
    then have "sub_sessions (get_sub h i ?r) ! usize_from_node n \<noteq> Some old" for old
      using assms(10) Some by (auto simp: sub clean_session_Some not_le)
    with Some show ?thesis by auto
  qed (use assms(10) in simp)
  have "accept_all since al 0 ?r (stamp ts (transfer_frames (mtu_as_bytes mtu) h payload))
      = Some (replicate (length ts - 1) (Inr None) @ [Inr (Some \<lparr>tr_header = set_timestamp (hd ts) h,
          tr_payload = payload @ replicate (st_last_frame_padding s) 0\<rparr>)], increment_transfer_count ?r)"
    by (rule transfer_received) (use assms(1-9) free clean_expired_sessions_wf in \<open>auto simp: sub\<close>)
  from receive_loop_delivers [OF this assms(11)] show ?thesis
    using clean_session_at [of r] by (simp add: receive_def) (simp add: increment_transfer_count_def clean_expired_sessions_def)
qed

definition frames_driver :: "('i Frame list, 'i, unit) receive_driver" where
  "frames_driver = \<lparr>rd_receive = (\<lambda>now fs. case fs of [] \<Rightarrow> (Inl WouldBlock, []) | f # fs \<Rightarrow> (Inr f, fs)),
     rd_apply_filters = (\<lambda>_ _ fs. fs), rd_apply_accept_all = (\<lambda>fs. fs)\<rparr>"

lemma frames_driver_delivers: "delivers frames_driver now fs fs []"
  by (induction fs) (simp_all add: frames_driver_def)

text \<open>The example receiver with a transfer of node 42 that was interrupted long ago.\<close>

definition stale_session :: "Microseconds32 Session" where
  "stale_session = session_state 10 (Microseconds32 0xfffff000) (CanTransferId 2) 1 False [7, 7, 7]"

definition stale_receiver :: "(Microseconds32, MicrosecondDuration32) CanReceiver" where
  "stale_receiver = put_subscriptions KindMessage [put_session 42 (Some stale_session) example_sub] example_receiver"

lemma stale_receiver:
  "rx_wf stale_receiver" "routes stale_receiver example_message 0" "has_slot stale_receiver KindMessage 0 42"
  "get_sub example_message 0 stale_receiver = put_session 42 (Some stale_session) example_sub"
proof -
  have "sub_wf example_sub" by (simp add: sub_wf_def example_sub_def init_rx_sessions_def)
  then have "sub_wf (put_session 42 (Some stale_session) example_sub)"
    by (rule sub_wf_put) (auto simp: session_wf_def stale_session_def)
  moreover have "kind_port_wf KindMessage (sub_port_id example_sub)"
    by (simp add: example_sub_def subject_wf_def VALID_SUBJECT_IDS_end_def)
  ultimately show "rx_wf stale_receiver" unfolding stale_receiver_def by (intro rx_wf_put example_receiver_wf) auto
  show "routes stale_receiver example_message 0" "has_slot stale_receiver KindMessage 0 42"
    "get_sub example_message 0 stale_receiver = put_session 42 (Some stale_session) example_sub"
    by (simp_all add: routes_def has_slot_def get_sub_def stale_receiver_def example_message_def example_sub_def
        port_from_subject_def init_rx_sessions_def sessions_per_subscription)
qed

theorem interrupted_transfer_replaced_witness:
  "\<exists>r'. receive frames_driver duration_since32 (\<lambda>_. plenty) (Microseconds32 16) stale_receiver
     (stamp [Microseconds32 0xfffffff0, Microseconds32 8] (transfer_frames (mtu_as_bytes Can8) example_message [1, 2, 3, 4, 5, 6, 7, 8]))
   = Some (Inr (Some \<lparr>tr_header = set_timestamp (Microseconds32 0xfffffff0) example_message, tr_payload = [1, 2, 3, 4, 5, 6, 7, 8]\<rparr>), r', []) \<and>
   session_at r' KindMessage 0 42 = None"
proof -
  let ?p = "[1, 2, 3, 4, 5, 6, 7, 8] :: u8 list" and ?s = "\<lparr>st_frames = 2, st_last_frame_padding = 0\<rparr>"
  let ?ts = "[Microseconds32 0xfffffff0, Microseconds32 8]" and ?sub = "get_sub example_message 0 stale_receiver"
  have s: "calculate_frame_stats (length ?p) (mtu_as_bytes Can8) = Some ?s"
    by (simp add: calculate_frame_stats_def round_up_frame_length_def)
  have sub: "sub_payload_size_max ?sub = 10" "sub_timeout ?sub = MicrosecondDuration32 1000" "sub_sessions ?sub ! 42 = Some stale_session"
    by (simp_all add: stale_receiver(4)) (simp_all add: example_sub_def put_session_def init_rx_sessions_def sessions_per_subscription)
  have limit: "add_padding_and_crc_space 8 Can8 = Some (sub_payload_size_max ?sub)"
    by (simp add: sub add_padding_and_crc_space_def calculate_frame_stats_def round_up_frame_length_def)
  have "length (transfer_data (mtu_as_bytes Can8) example_message ?p) = 2"
    using transfer_data_layout(1) [OF _ dlc_mtu s] by simp
  then have len: "length ?ts = length (transfer_frames (mtu_as_bytes Can8) example_message ?p)" by (simp add: transfer_frames_def)
  have time: "duration_since32 t (hd ?ts) \<le> sub_timeout ?sub" if "t \<in> set ?ts" for t
    using that by (auto simp: sub duration_since32_def less_eq_MicrosecondDuration32_def)
  have late: "\<not> duration_since32 (Microseconds32 16) (se_transfer_timestamp stale_session) \<le> MicrosecondDuration32 1000"
    by (simp add: stale_session_def duration_since32_def less_eq_MicrosecondDuration32_def)
  have stale: "case header_source example_message of None \<Rightarrow> length ?p < mtu_as_bytes Can8
      | Some n \<Rightarrow> \<forall>old. sub_sessions ?sub ! usize_from_node n = Some old \<longrightarrow>
          sub_timeout ?sub < duration_since32 (Microseconds32 16) (se_transfer_timestamp old)"
    using sub late by (simp add: example_message_def usize_from_node_def not_le)
  obtain r' where r': "receive frames_driver duration_since32 (\<lambda>_. plenty) (Microseconds32 16) stale_receiver
        (stamp ?ts (transfer_frames (mtu_as_bytes Can8) example_message ?p))
      = Some (Inr (Some \<lparr>tr_header = set_timestamp (Microseconds32 0xfffffff0) example_message, tr_payload = ?p\<rparr>), r', [])"
    and "\<forall>old. session_at r' KindMessage 0 42 = Some old \<longleftrightarrow> session_at stale_receiver KindMessage 0 42 = Some old \<and>
      duration_since32 (Microseconds32 16) (se_transfer_timestamp old) \<le> sub_timeout (subscriptions_for_kind KindMessage stale_receiver ! 0)"
    using interrupted_transfer_replaced [where since = duration_since32 and al = "\<lambda>_. plenty" and ts = ?ts and now = "Microseconds32 16"
        and payload = ?p, OF example_message_wf stale_receiver(2,1) s limit _ _ len time stale frames_driver_delivers] stale_receiver(3)
    by (auto simp: plenty_def alloc_ok_def)
  moreover have "subscriptions_for_kind KindMessage stale_receiver ! 0 = ?sub" by (simp add: get_sub_def example_message_def)
  ultimately have "session_at r' KindMessage 0 42 = None" using sub late by (simp add: session_at_def not_Some_eq [symmetric] del: not_Some_eq)
  with r' show ?thesis by blast
qed

end
