(* ===== verification/Can_Queue.thy ===== *)
theory Can_Queue
  imports Can_Tx Can_Rx
begin

text \<open>
  Queues of outgoing frames (canadensis\_can: \<^verbatim>\<open>queue/\<close>): the \<^verbatim>\<open>FrameQueue\<close> trait as the
  locale \<open>frame_queue\<close>, the ring buffer \<^verbatim>\<open>ArrayQueue\<close> and \<^verbatim>\<open>SingleFrameQueue\<close> as its
  interpretations, flushing a queue to a driver, and the drivers made of queues.

  The loops that sift a frame through the ring buffer take as many steps as the buffer has
  slots at most; that number is their fuel.
\<close>

section \<open>The ring buffer\<close>

definition frame_default :: "'i \<Rightarrow> 'i Frame" where
  "frame_default i = \<lparr>fr_timestamp = i, fr_id = CanId 0, fr_data = []\<rparr>"

record 'i ArrayQueue =
  aq_items :: "'i Frame list"
  aq_head :: nat
  aq_length :: nat

text \<open>The const parameter \<^verbatim>\<open>N\<close> is the length of the array.\<close>

abbreviation aq_N :: "'i ArrayQueue \<Rightarrow> nat" where
  "aq_N q \<equiv> length (aq_items q)"

definition array_queue_new :: "'i \<Rightarrow> nat \<Rightarrow> 'i ArrayQueue" where
  "array_queue_new dflt N = \<lparr>aq_items = replicate N (frame_default dflt), aq_head = 0, aq_length = 0\<rparr>"

definition increment_head :: "'i ArrayQueue \<Rightarrow> 'i ArrayQueue" where
  "increment_head q = (if aq_N q \<noteq> 0 then q\<lparr>aq_head := (aq_head q + 1) mod aq_N q\<rparr> else q)"

definition decrement_head :: "'i ArrayQueue \<Rightarrow> 'i ArrayQueue" where
  "decrement_head q = (if aq_N q \<noteq> 0 then q\<lparr>aq_head := (aq_head q + (aq_N q - 1)) mod aq_N q\<rparr> else q)"

definition aq_try_reserve :: "nat \<Rightarrow> 'i ArrayQueue \<Rightarrow> (out_of_memory_error + unit) \<times> 'i ArrayQueue" where
  "aq_try_reserve additional q =
     (let free_capacity = aq_N q - aq_length q in
      if free_capacity \<ge> additional then (Inr (), q) else (Inl OutOfMemoryError, q))"

definition swap_items :: "'a list \<Rightarrow> nat \<Rightarrow> nat \<Rightarrow> 'a list" where
  "swap_items xs i j = xs[i := xs ! j, j := xs ! i]"

fun sift_up :: "nat \<Rightarrow> nat \<Rightarrow> CanId \<Rightarrow> nat \<Rightarrow> 'i Frame list \<Rightarrow> 'i Frame list" where
  "sift_up 0 head inserted_frame_id inserted_index items = items"
| "sift_up (Suc fuel) head inserted_frame_id inserted_index items =
     (if inserted_index \<noteq> head then
        (let N = length items; ahead_of_inserted_index = (inserted_index + (N - 1)) mod N in
         if fr_id (items ! ahead_of_inserted_index) \<le> inserted_frame_id then items
         else sift_up fuel head inserted_frame_id ahead_of_inserted_index
                (swap_items items inserted_index ahead_of_inserted_index))
      else items)"

definition aq_push_frame :: "'i Frame \<Rightarrow> 'i ArrayQueue \<Rightarrow> (out_of_memory_error + unit) \<times> 'i ArrayQueue" where
  "aq_push_frame frame q =
     (if aq_length q = aq_N q then (Inl OutOfMemoryError, q)
      else
        (let tail_index = (aq_head q + aq_length q) mod aq_N q;
             q = q\<lparr>aq_items := (aq_items q)[tail_index := frame], aq_length := aq_length q + 1\<rparr> in
         (Inr (), q\<lparr>aq_items := sift_up (aq_N q) (aq_head q) (fr_id frame) tail_index (aq_items q)\<rparr>)))"

definition aq_peek_frame :: "'i ArrayQueue \<Rightarrow> 'i Frame option" where
  "aq_peek_frame q = (if aq_length q \<noteq> 0 then Some (aq_items q ! aq_head q) else None)"

definition aq_pop_frame :: "'i \<Rightarrow> 'i ArrayQueue \<Rightarrow> 'i Frame option \<times> 'i ArrayQueue" where
  "aq_pop_frame dflt q =
     (if aq_length q \<noteq> 0 then
        (let frame = aq_items q ! aq_head q;
             q = q\<lparr>aq_items := (aq_items q)[aq_head q := frame_default dflt]\<rparr>;
             q = increment_head q in
         (Some frame, q\<lparr>aq_length := aq_length q - 1\<rparr>))
      else (None, q))"

fun sift_down :: "nat \<Rightarrow> nat \<Rightarrow> CanId \<Rightarrow> nat \<Rightarrow> 'i Frame list \<Rightarrow> 'i Frame list" where
  "sift_down 0 tail inserted_frame_id inserted_index items = items"
| "sift_down (Suc fuel) tail inserted_frame_id inserted_index items =
     (if inserted_index \<noteq> tail then
        (let N = length items; behind_inserted_index = (inserted_index + 1) mod N in
         if fr_id (items ! behind_inserted_index) \<ge> inserted_frame_id then items
         else sift_down fuel tail inserted_frame_id behind_inserted_index
                (swap_items items inserted_index behind_inserted_index))
      else items)"

definition aq_return_frame :: "'i Frame \<Rightarrow> 'i ArrayQueue \<Rightarrow> (out_of_memory_error + unit) \<times> 'i ArrayQueue" where
  "aq_return_frame frame q =
     (if aq_length q = aq_N q then (Inl OutOfMemoryError, q)
      else
        (let q = decrement_head q;
             q = q\<lparr>aq_items := (aq_items q)[aq_head q := frame], aq_length := aq_length q + 1\<rparr>;
             tail = (aq_head q + (aq_length q - 1)) mod aq_N q in
         (Inr (), q\<lparr>aq_items := sift_down (aq_N q) tail (fr_id frame) (aq_head q) (aq_items q)\<rparr>)))"

section \<open>The queue of one frame\<close>

datatype 'i SingleFrameQueue = SingleFrameQueue (sfq_frame: "'i Frame option")

definition single_frame_queue_new :: "'i SingleFrameQueue" where
  "single_frame_queue_new = SingleFrameQueue None"

definition sfq_try_reserve ::
  "nat \<Rightarrow> 'i SingleFrameQueue \<Rightarrow> (out_of_memory_error + unit) \<times> 'i SingleFrameQueue" where
  "sfq_try_reserve additional q =
     (if sfq_frame q = None \<and> additional = 1 then (Inr (), q) else (Inl OutOfMemoryError, q))"

definition sfq_push_frame ::
  "'i Frame \<Rightarrow> 'i SingleFrameQueue \<Rightarrow> (out_of_memory_error + unit) \<times> 'i SingleFrameQueue" where
  "sfq_push_frame frame q =
     (if sfq_frame q = None then (Inr (), SingleFrameQueue (Some frame)) else (Inl OutOfMemoryError, q))"

definition sfq_peek_frame :: "'i SingleFrameQueue \<Rightarrow> 'i Frame option" where
  "sfq_peek_frame q = sfq_frame q"

definition sfq_pop_frame :: "'i SingleFrameQueue \<Rightarrow> 'i Frame option \<times> 'i SingleFrameQueue" where
  "sfq_pop_frame q = (sfq_frame q, SingleFrameQueue None)"

definition sfq_return_frame ::
  "'i Frame \<Rightarrow> 'i SingleFrameQueue \<Rightarrow> (out_of_memory_error + unit) \<times> 'i SingleFrameQueue" where
  "sfq_return_frame frame q =
     (if sfq_frame q \<noteq> None then (Inl OutOfMemoryError, q) else (Inr (), SingleFrameQueue (Some frame)))"

section \<open>Flushing a queue\<close>

text \<open>The operations of a \<^verbatim>\<open>FrameQueue\<close>.\<close>

record ('q, 'i) frame_queue_ops =
  fq_try_reserve :: "nat \<Rightarrow> 'q \<Rightarrow> (out_of_memory_error + unit) \<times> 'q"
  fq_push_frame :: "'i Frame \<Rightarrow> 'q \<Rightarrow> (out_of_memory_error + unit) \<times> 'q"
  fq_peek_frame :: "'q \<Rightarrow> 'i Frame option"
  fq_pop_frame :: "'q \<Rightarrow> 'i Frame option \<times> 'q"
  fq_return_frame :: "'i Frame \<Rightarrow> 'q \<Rightarrow> (out_of_memory_error + unit) \<times> 'q"

definition array_queue_ops :: "'i \<Rightarrow> ('i ArrayQueue, 'i) frame_queue_ops" where
  "array_queue_ops dflt =
     \<lparr>fq_try_reserve = aq_try_reserve, fq_push_frame = aq_push_frame, fq_peek_frame = aq_peek_frame,
      fq_pop_frame = aq_pop_frame dflt, fq_return_frame = aq_return_frame\<rparr>"

definition single_frame_queue_ops :: "('i SingleFrameQueue, 'i) frame_queue_ops" where
  "single_frame_queue_ops =
     \<lparr>fq_try_reserve = sfq_try_reserve, fq_push_frame = sfq_push_frame, fq_peek_frame = sfq_peek_frame,
      fq_pop_frame = sfq_pop_frame, fq_return_frame = sfq_return_frame\<rparr>"

definition frame_is_expired :: "('i \<Rightarrow> 'i \<Rightarrow> ordering) \<Rightarrow> 'i Frame \<Rightarrow> 'i \<Rightarrow> bool" where
  "frame_is_expired compare frame now \<longleftrightarrow> compare (fr_timestamp frame) now = Less"

text \<open>
  The loop ends when the queue is empty, the driver blocks or fails. A driver that displaces
  a frame for every frame it takes can keep it running forever; \<open>None\<close> stands for that and
  for the panics of the two \<^verbatim>\<open>expect\<close> calls.
\<close>

partial_function (option) flush_single_queue ::
  "('q, 'i) frame_queue_ops \<Rightarrow> ('d, 'i, 'e) transmit_driver \<Rightarrow> ('i \<Rightarrow> 'i \<Rightarrow> ordering) \<Rightarrow> 'i \<Rightarrow> 'q \<Rightarrow> 'd
   \<Rightarrow> (('e nb_error + unit) \<times> 'q \<times> 'd) option" where
  "flush_single_queue fq drv compare now queue driver =
     (case fq_pop_frame fq queue of
        (None, queue) \<Rightarrow> Some (Inr (), queue, driver)
      | (Some frame, queue) \<Rightarrow>
          if frame_is_expired compare frame now
          then flush_single_queue fq drv compare now queue driver
          else
            (case td_transmit drv frame now driver of
               (Inr None, driver) \<Rightarrow> flush_single_queue fq drv compare now queue driver
             | (Inr (Some removed_frame), driver) \<Rightarrow>
                 if \<not> frame_is_expired compare removed_frame now then
                   (case fq_return_frame fq removed_frame queue of
                      (Inl _, queue) \<Rightarrow> None
                    | (Inr _, queue) \<Rightarrow> flush_single_queue fq drv compare now queue driver)
                 else flush_single_queue fq drv compare now queue driver
             | (Inl WouldBlock, driver) \<Rightarrow>
                 (case fq_return_frame fq frame queue of
                    (Inl _, queue) \<Rightarrow> None
                  | (Inr _, queue) \<Rightarrow> Some (Inl WouldBlock, queue, driver))
             | (Inl (Other e), driver) \<Rightarrow> Some (Inl (Other e), queue, driver)))"

section \<open>Drivers made of queues\<close>

record ('q, 'd) SingleQueueDriver =
  sqd_queue :: 'q
  sqd_driver :: 'd

definition single_queue_driver_new :: "'q \<Rightarrow> 'd \<Rightarrow> ('q, 'd) SingleQueueDriver" where
  "single_queue_driver_new queue driver = \<lparr>sqd_queue = queue, sqd_driver = driver\<rparr>"

text \<open>\<^verbatim>\<open>impl TransmitDriver for SingleQueueDriver\<close>.\<close>

definition single_queue_transmit ::
  "('q, 'i) frame_queue_ops \<Rightarrow> ('d, 'i, 'e) transmit_driver \<Rightarrow> ('i \<Rightarrow> 'i \<Rightarrow> ordering)
   \<Rightarrow> (('q, 'd) SingleQueueDriver, 'i, 'e) transmit_driver" where
  "single_queue_transmit fq drv compare =
     \<lparr>td_try_reserve = (\<lambda>frames self.
        let (r, queue) = fq_try_reserve fq frames (sqd_queue self) in (r, self\<lparr>sqd_queue := queue\<rparr>)),
      td_transmit = (\<lambda>frame _ self.
        let (r, queue) = fq_push_frame fq frame (sqd_queue self) in
        (map_sum (\<lambda>_. WouldBlock) (\<lambda>_. None) r, self\<lparr>sqd_queue := queue\<rparr>)),
      td_flush = (\<lambda>now self.
        map_option (\<lambda>(r, queue, driver). (r, \<lparr>sqd_queue = queue, sqd_driver = driver\<rparr>))
          (flush_single_queue fq drv compare now (sqd_queue self) (sqd_driver self)))\<rparr>"

text \<open>\<^verbatim>\<open>impl ReceiveDriver for SingleQueueDriver\<close>: everything is passed to the inner driver.\<close>

definition single_queue_receive ::
  "('d, 'i, 'e) receive_driver \<Rightarrow> (('q, 'd) SingleQueueDriver, 'i, 'e) receive_driver" where
  "single_queue_receive drv =
     \<lparr>rd_receive = (\<lambda>now self.
        let (r, driver) = rd_receive drv now (sqd_driver self) in (r, self\<lparr>sqd_driver := driver\<rparr>)),
      rd_apply_filters = (\<lambda>local_node subs self.
        self\<lparr>sqd_driver := rd_apply_filters drv local_node subs (sqd_driver self)\<rparr>),
      rd_apply_accept_all = (\<lambda>self. self\<lparr>sqd_driver := rd_apply_accept_all drv (sqd_driver self)\<rparr>)\<rparr>"

text \<open>
  The receive queue of \<^verbatim>\<open>QueueOnlyDriver\<close> is a \<^verbatim>\<open>heapless::Deque\<close>, represented by the list of
  its elements; its two operations are the parameter \<open>dq\<close>.
\<close>

record 'a deque_ops =
  dq_push_back :: "'a list \<Rightarrow> 'a \<Rightarrow> 'a list option"
  dq_pop_front :: "'a list \<Rightarrow> ('a \<times> 'a list) option"

record 'i QueueOnlyDriver =
  qo_tx_queue :: "'i ArrayQueue"
  qo_rx_queue :: "'i Frame list"
  qo_subscriptions :: "Subscription list option"

definition queue_only_new :: "'i \<Rightarrow> nat \<Rightarrow> 'i QueueOnlyDriver" where
  "queue_only_new dflt TC =
     \<lparr>qo_tx_queue = array_queue_new dflt TC, qo_rx_queue = [], qo_subscriptions = None\<rparr>"

definition push_rx_frame ::
  "'i Frame deque_ops \<Rightarrow> 'i Frame \<Rightarrow> 'i QueueOnlyDriver \<Rightarrow> (out_of_memory_error + unit) \<times> 'i QueueOnlyDriver" where
  "push_rx_frame dq frame self =
     (case dq_push_back dq (qo_rx_queue self) frame of
        Some queue \<Rightarrow> (Inr (), self\<lparr>qo_rx_queue := queue\<rparr>)
      | None \<Rightarrow> (Inl OutOfMemoryError, self))"

definition pop_tx_frame :: "'i \<Rightarrow> 'i QueueOnlyDriver \<Rightarrow> 'i Frame option \<times> 'i QueueOnlyDriver" where
  "pop_tx_frame dflt self =
     (let (r, queue) = aq_pop_frame dflt (qo_tx_queue self) in (r, self\<lparr>qo_tx_queue := queue\<rparr>))"

definition return_tx_frame ::
  "'i Frame \<Rightarrow> 'i QueueOnlyDriver \<Rightarrow> (out_of_memory_error + unit) \<times> 'i QueueOnlyDriver" where
  "return_tx_frame frame self =
     (let (r, queue) = aq_return_frame frame (qo_tx_queue self) in (r, self\<lparr>qo_tx_queue := queue\<rparr>))"

text \<open>The error type \<^verbatim>\<open>Infallible\<close> has no values; the model leaves the error type open.\<close>

definition queue_only_transmit :: "('i QueueOnlyDriver, 'i, 'e) transmit_driver" where
  "queue_only_transmit =
     \<lparr>td_try_reserve = (\<lambda>frames self.
        let (r, queue) = aq_try_reserve frames (qo_tx_queue self) in (r, self\<lparr>qo_tx_queue := queue\<rparr>)),
      td_transmit = (\<lambda>frame _ self.
        let (r, queue) = aq_push_frame frame (qo_tx_queue self) in
        (map_sum (\<lambda>_. WouldBlock) (\<lambda>_. None) r, self\<lparr>qo_tx_queue := queue\<rparr>)),
      td_flush = (\<lambda>_ self. Some (Inr (), self))\<rparr>"

text \<open>
  Collecting the new subscriptions; \<open>mem n\<close> tells whether the n-th \<^verbatim>\<open>try_push\<close> succeeds. The
  first result is whether the loop ran to its end.
\<close>

fun collect_subscriptions ::
  "(nat \<Rightarrow> bool) \<Rightarrow> nat \<Rightarrow> Subscription list \<Rightarrow> Subscription list \<Rightarrow> bool \<times> Subscription list" where
  "collect_subscriptions mem n subscriptions [] = (True, subscriptions)"
| "collect_subscriptions mem n subscriptions (s # new_subscriptions) =
     (case try_push (mem n) subscriptions s of
        (Inr _, subscriptions) \<Rightarrow> collect_subscriptions mem (Suc n) subscriptions new_subscriptions
      | (Inl _, subscriptions) \<Rightarrow> (False, subscriptions))"

definition queue_only_apply_filters ::
  "(nat \<Rightarrow> bool) \<Rightarrow> Subscription list \<Rightarrow> 'i QueueOnlyDriver \<Rightarrow> 'i QueueOnlyDriver" where
  "queue_only_apply_filters mem new_subscriptions self =
     (case qo_subscriptions self of
        Some _ \<Rightarrow>
          (let (complete, subscriptions) = collect_subscriptions mem 0 [] new_subscriptions in
           self\<lparr>qo_subscriptions := if complete then Some subscriptions else None\<rparr>)
      | None \<Rightarrow>
          (let (complete, subscriptions) = collect_subscriptions mem 0 [] new_subscriptions;
               self = (if complete then self else self\<lparr>qo_subscriptions := None\<rparr>) in
           self\<lparr>qo_subscriptions := Some subscriptions\<rparr>))"

definition queue_only_receive ::
  "'i Frame deque_ops \<Rightarrow> (nat \<Rightarrow> bool) \<Rightarrow> ('i QueueOnlyDriver, 'i, 'e) receive_driver" where
  "queue_only_receive dq mem =
     \<lparr>rd_receive = (\<lambda>_ self.
        case dq_pop_front dq (qo_rx_queue self) of
          Some (frame, queue) \<Rightarrow> (Inr frame, self\<lparr>qo_rx_queue := queue\<rparr>)
        | None \<Rightarrow> (Inl WouldBlock, self)),
      rd_apply_filters = (\<lambda>_ subs self. queue_only_apply_filters mem subs self),
      rd_apply_accept_all = (\<lambda>self. self\<lparr>qo_subscriptions := None\<rparr>)\<rparr>"

section \<open>Frames of the ring buffer as a list\<close>

definition ring :: "'a list \<Rightarrow> nat \<Rightarrow> nat \<Rightarrow> 'a list" where
  "ring items h l = map (\<lambda>k. items ! ((h + k) mod length items)) [0..<l]"

definition aq_frames :: "'i ArrayQueue \<Rightarrow> 'i Frame list" where
  "aq_frames q = ring (aq_items q) (aq_head q) (aq_length q)"

definition aq_wf :: "'i ArrayQueue \<Rightarrow> bool" where
  "aq_wf q \<longleftrightarrow> aq_length q \<le> aq_N q \<and> (aq_N q = 0 \<or> aq_head q < aq_N q)"

lemma length_ring [simp]: "length (ring items h l) = l"
  by (simp add: ring_def)

lemma ring_nth: "k < l \<Longrightarrow> ring items h l ! k = items ! ((h + k) mod length items)"
  by (simp add: ring_def)

lemma ring_index_inj:
  fixes h j k n :: nat
  assumes "j < n" and "k < n" and "(h + j) mod n = (h + k) mod n"
  shows "j = k"
  using assms
proof (induction j k rule: linorder_wlog)
  case (le j k)
  then have "n dvd (h + k) - (h + j)" by (subst mod_eq_dvd_iff_nat [symmetric]) simp_all
  then have "n dvd k - j" by simp
  moreover have "k - j < n" using le by simp
  ultimately show ?case using le(1) by (auto dest: nat_dvd_not_less)
qed simp

lemma ring_update:
  assumes "k < l" and "l \<le> length items"
  shows "ring (items[(h + k) mod length items := x]) h l = (ring items h l)[k := x]"
proof (rule nth_equalityI)
  fix i
  assume "i < length (ring (items[(h + k) mod length items := x]) h l)"
  then have i: "i < l" by simp
  have "0 < length items" using assms by linarith
  then have "(h + k) mod length items < length items" by (rule mod_less_divisor)
  then show "ring (items[(h + k) mod length items := x]) h l ! i = (ring items h l)[k := x] ! i"
    using i assms ring_index_inj [of k "length items" i h]
    by (cases "i = k") (auto simp: ring_nth nth_list_update)
qed simp

lemma ring_swap:
  assumes "j < l" and "k < l" and "l \<le> length items"
  shows "ring (swap_items items ((h + j) mod length items) ((h + k) mod length items)) h l
    = swap_items (ring items h l) j k"
proof -
  let ?N = "length items"
  let ?items = "items[(h + j) mod ?N := items ! ((h + k) mod ?N)]"
  have "ring (?items[(h + k) mod length ?items := items ! ((h + j) mod ?N)]) h l
      = (ring ?items h l)[k := items ! ((h + j) mod ?N)]"
    using assms(2, 3) by (intro ring_update) simp_all
  also have "ring ?items h l = (ring items h l)[j := items ! ((h + k) mod ?N)]"
    using assms(1, 3) by (rule ring_update)
  finally show ?thesis using assms(1, 2) by (simp add: swap_items_def ring_nth)
qed

lemma length_swap_items [simp]: "length (swap_items xs i j) = length xs"
  by (simp add: swap_items_def)

text \<open>The loops on the list of queued frames.\<close>

fun up_list :: "CanId \<Rightarrow> nat \<Rightarrow> 'i Frame list \<Rightarrow> 'i Frame list" where
  "up_list c 0 xs = xs"
| "up_list c (Suc k) xs = (if fr_id (xs ! k) \<le> c then xs else up_list c k (swap_items xs (Suc k) k))"

fun down_list :: "CanId \<Rightarrow> nat \<Rightarrow> nat \<Rightarrow> 'i Frame list \<Rightarrow> 'i Frame list" where
  "down_list c k 0 xs = xs"
| "down_list c k (Suc n) xs =
     (if fr_id (xs ! Suc k) \<ge> c then xs else down_list c (Suc k) n (swap_items xs k (Suc k)))"

lemma index_ahead:
  fixes h k n :: nat
  assumes "0 < n"
  shows "((h + Suc k) mod n + (n - 1)) mod n = (h + k) mod n"
proof -
  have "((h + Suc k) mod n + (n - 1)) mod n = (h + Suc k + (n - 1)) mod n" by (rule mod_add_left_eq)
  also have "h + Suc k + (n - 1) = h + k + n" using assms by simp
  finally show ?thesis by simp
qed

lemma length_sift_up [simp]: "length (sift_up fuel h c i items) = length items"
  by (induction fuel h c i items rule: sift_up.induct) (auto simp: Let_def)

lemma length_sift_down [simp]: "length (sift_down fuel t c i items) = length items"
  by (induction fuel t c i items rule: sift_down.induct) (auto simp: Let_def)

lemma sift_up_ring:
  assumes "k < l" and "l \<le> length items" and "h < length items" and "k \<le> fuel"
  shows "ring (sift_up fuel h c ((h + k) mod length items) items) h l = up_list c k (ring items h l)"
  using assms
proof (induction k arbitrary: fuel items)
  case 0
  then show ?case by (cases fuel) simp_all
next
  case (Suc k)
  let ?N = "length items"
  obtain f where f: "fuel = Suc f" using Suc.prems(4) by (cases fuel) simp_all
  have pos: "0 < ?N" using Suc.prems by linarith
  have ne: "(h + Suc k) mod ?N \<noteq> h"
    using ring_index_inj [of "Suc k" ?N 0 h] Suc.prems pos by fastforce
  have sw: "ring (swap_items items ((h + Suc k) mod ?N) ((h + k) mod ?N)) h l
      = swap_items (ring items h l) (Suc k) k"
    using Suc.prems by (intro ring_swap) simp_all
  let ?items = "swap_items items ((h + Suc k) mod ?N) ((h + k) mod ?N)"
  have step: "sift_up (Suc f) h c ((h + Suc k) mod ?N) items =
      (if fr_id (items ! ((h + k) mod ?N)) \<le> c then items else sift_up f h c ((h + k) mod ?N) ?items)"
    using ne by (simp only: sift_up.simps Let_def index_ahead [OF pos] if_True not_False_eq_True)
  have "ring (sift_up f h c ((h + k) mod ?N) ?items) h l = up_list c k (swap_items (ring items h l) (Suc k) k)"
    using Suc.IH [of ?items f] Suc.prems f unfolding sw by simp
  then show ?case
    unfolding f step using Suc.prems by (simp add: ring_nth)
qed

lemma sift_down_ring:
  assumes "k + n = l - 1" and "0 < l" and "l \<le> length items" and "h < length items" and "n \<le> fuel"
  shows "ring (sift_down fuel ((h + (l - 1)) mod length items) c ((h + k) mod length items) items) h l
    = down_list c k n (ring items h l)"
  using assms
proof (induction n arbitrary: k fuel items)
  case 0
  then show ?case by (cases fuel) simp_all
next
  case (Suc n)
  let ?N = "length items"
  obtain f where f: "fuel = Suc f" using Suc.prems(5) by (cases fuel) simp_all
  have lt: "k < l" "Suc k < l" using Suc.prems by linarith+
  have pos: "0 < ?N" using Suc.prems by linarith
  have ne: "(h + k) mod ?N \<noteq> (h + (l - 1)) mod ?N"
    using ring_index_inj [of k ?N "l - 1" h] Suc.prems by fastforce
  have sw: "ring (swap_items items ((h + k) mod ?N) ((h + Suc k) mod ?N)) h l
      = swap_items (ring items h l) k (Suc k)"
    using Suc.prems lt by (intro ring_swap) simp_all
  have behind: "((h + k) mod ?N + 1) mod ?N = (h + Suc k) mod ?N"
    using mod_add_left_eq [of "h + k" ?N 1] by simp
  let ?items = "swap_items items ((h + k) mod ?N) ((h + Suc k) mod ?N)" and ?t = "(h + (l - 1)) mod ?N"
  have step: "sift_down (Suc f) ?t c ((h + k) mod ?N) items =
      (if c \<le> fr_id (items ! ((h + Suc k) mod ?N)) then items else sift_down f ?t c ((h + Suc k) mod ?N) ?items)"
    using ne by (simp only: sift_down.simps Let_def behind if_True not_False_eq_True)
  have "ring (sift_down f ?t c ((h + Suc k) mod ?N) ?items) h l
      = down_list c (Suc k) n (swap_items (ring items h l) k (Suc k))"
    using Suc.IH [of "Suc k" ?items f] Suc.prems f unfolding sw by simp
  then show ?case
    unfolding f step using lt by (simp add: ring_nth)
qed

section \<open>Insertion in order\<close>

lemma up_list_append:
  "up_list (fr_id f) (length xs) (xs @ f # ys) =
     rev (dropWhile (\<lambda>g. fr_id f < fr_id g) (rev xs)) @ f # rev (takeWhile (\<lambda>g. fr_id f < fr_id g) (rev xs)) @ ys"
proof (induction xs arbitrary: ys rule: rev_induct)
  case (snoc x xs)
  have "swap_items (xs @ x # f # ys) (Suc (length xs)) (length xs) = xs @ f # x # ys"
    by (simp add: swap_items_def list_update_append nth_append)
  with snoc [of "x # ys"] show ?case by (auto simp: nth_append not_le)
qed simp

lemma down_list_append:
  "down_list (fr_id f) (length xs) (length ys) (xs @ f # ys) =
     xs @ takeWhile (\<lambda>g. fr_id g < fr_id f) ys @ f # dropWhile (\<lambda>g. fr_id g < fr_id f) ys"
proof (induction ys arbitrary: xs)
  case (Cons y ys)
  have "swap_items (xs @ f # y # ys) (length xs) (Suc (length xs)) = (xs @ [y]) @ f # ys"
    by (simp add: swap_items_def list_update_append nth_append)
  with Cons [of "xs @ [y]"] show ?case by (auto simp: nth_append not_le)
qed simp

text \<open>On a queue ordered by identifier the two insertions split it as the trait's documentation says.\<close>

lemma ordered_insert_back:
  assumes "sorted (map fr_id xs)"
  shows "rev (dropWhile (\<lambda>g. fr_id f < fr_id g) (rev xs)) @ f # rev (takeWhile (\<lambda>g. fr_id f < fr_id g) (rev xs))
    = filter (\<lambda>g. fr_id g \<le> fr_id f) xs @ f # filter (\<lambda>g. fr_id f < fr_id g) xs"
  using assms
proof (induction xs rule: rev_induct)
  case (snoc x xs)
  show ?case
  proof (cases "fr_id f < fr_id x")
    case True
    with snoc show ?thesis by (simp add: sorted_append not_le)
  next
    case False
    then have "\<forall>g \<in> set xs. fr_id g \<le> fr_id f" using snoc.prems by (auto simp: sorted_append)
    then have "filter (\<lambda>g. fr_id g \<le> fr_id f) xs = xs" "filter (\<lambda>g. fr_id f < fr_id g) xs = []"
      by (auto simp: filter_empty_conv filter_id_conv)
    with False show ?thesis by simp
  qed
qed simp

lemma ordered_insert_front:
  assumes "sorted (map fr_id xs)"
  shows "takeWhile (\<lambda>g. fr_id g < fr_id f) xs @ f # dropWhile (\<lambda>g. fr_id g < fr_id f) xs
    = filter (\<lambda>g. fr_id g < fr_id f) xs @ f # filter (\<lambda>g. fr_id f \<le> fr_id g) xs"
  using assms
proof (induction xs)
  case (Cons x xs)
  show ?case
  proof (cases "fr_id x < fr_id f")
    case False
    then have "\<forall>g \<in> set xs. fr_id f \<le> fr_id g" using Cons.prems by auto
    then have "filter (\<lambda>g. fr_id f \<le> fr_id g) xs = xs" "filter (\<lambda>g. fr_id g < fr_id f) xs = []"
      by (auto simp: filter_empty_conv filter_id_conv)
    with False show ?thesis by simp
  qed (use Cons in simp)
qed simp

lemma filter_key:
  "filter (\<lambda>g. fr_id g \<le> c \<and> k = fr_id g) xs = (if k \<le> c then filter (\<lambda>g. k = fr_id g) xs else [])"
  "filter (\<lambda>g. fr_id g < c \<and> k = fr_id g) xs = (if k < c then filter (\<lambda>g. k = fr_id g) xs else [])"
  "filter (\<lambda>g. c \<le> fr_id g \<and> k = fr_id g) xs = (if c \<le> k then filter (\<lambda>g. k = fr_id g) xs else [])"
  "filter (\<lambda>g. c < fr_id g \<and> k = fr_id g) xs = (if c < k then filter (\<lambda>g. k = fr_id g) xs else [])"
  by (induction xs) auto

lemma sort_key_sorted_append: "sort_key k (sort_key k xs @ ys) = sort_key k (xs @ ys)"
proof (rule properties_for_sort_key)
  have stable: "filter (\<lambda>y. c = k y) (sort_key k zs) = filter (\<lambda>y. c = k y) zs" for c zs
    using sort_key_stable [of k c zs] by (simp only: eq_commute [of c])
  show "filter (\<lambda>y. k x = k y) (sort_key k (xs @ ys)) = filter (\<lambda>y. k x = k y) (sort_key k xs @ ys)" for x
    by (simp only: stable filter_append)
qed simp_all

section \<open>Flushing in order\<close>

text \<open>
  What a flush does to the list of queued frames when the driver displaces none: expired
  frames are dropped and the others are handed over in order; when the driver blocks, that
  frame and the rest stay; when it fails, that frame is lost and the rest stays.
\<close>

fun flush_list ::
  "('d, 'i, 'e) transmit_driver \<Rightarrow> ('i \<Rightarrow> 'i \<Rightarrow> ordering) \<Rightarrow> 'i \<Rightarrow> 'i Frame list \<Rightarrow> 'd
   \<Rightarrow> ('e nb_error + unit) \<times> 'i Frame list \<times> 'd" where
  "flush_list drv compare now [] d = (Inr (), [], d)"
| "flush_list drv compare now (f # fs) d =
     (if frame_is_expired compare f now then flush_list drv compare now fs d
      else (case td_transmit drv f now d of
          (Inr _, d) \<Rightarrow> flush_list drv compare now fs d
        | (Inl WouldBlock, d) \<Rightarrow> (Inl WouldBlock, f # fs, d)
        | (Inl (Other e), d) \<Rightarrow> (Inl (Other e), fs, d)))"

section \<open>The interface\<close>

text \<open>
  The contract of \<^verbatim>\<open>FrameQueue\<close> over the list of queued frames and the number of frames
  there is room for: reserved pushes succeed, a pushed frame goes behind all frames with a
  lesser or equal identifier, a returned frame goes in front of all frames with a greater
  or equal one, and the front is peeked and popped.
\<close>

locale frame_queue =
  fixes fq :: "('q, 'i) frame_queue_ops"
    and inv :: "'q \<Rightarrow> bool" and frames :: "'q \<Rightarrow> 'i Frame list" and room :: "'q \<Rightarrow> nat"
  assumes reserve_law: "inv q \<Longrightarrow> fq_try_reserve fq n q = (r, q') \<Longrightarrow>
      q' = q \<and> (r = Inr () \<longrightarrow> n \<le> room q) \<and> (\<forall>e. r = Inl e \<longrightarrow> room q < n \<or> n = 0)"
    and push_law: "inv q \<Longrightarrow> fq_push_frame fq f q = (r, q') \<Longrightarrow>
      (if 0 < room q
       then r = Inr () \<and> inv q' \<and> Suc (room q') = room q
         \<and> frames q' = filter (\<lambda>g. fr_id g \<le> fr_id f) (frames q) @ f # filter (\<lambda>g. fr_id f < fr_id g) (frames q)
       else r = Inl OutOfMemoryError \<and> q' = q)"
    and peek_law: "inv q \<Longrightarrow> fq_peek_frame fq q = (case frames q of [] \<Rightarrow> None | f # _ \<Rightarrow> Some f)"
    and pop_law: "inv q \<Longrightarrow> fq_pop_frame fq q = (x, q') \<Longrightarrow>
      inv q' \<and> (case frames q of
          [] \<Rightarrow> x = None \<and> frames q' = [] \<and> room q' = room q
        | f # fs \<Rightarrow> x = Some f \<and> frames q' = fs \<and> room q' = Suc (room q))"
    and return_law: "inv q \<Longrightarrow> fq_return_frame fq f q = (r, q') \<Longrightarrow>
      (if 0 < room q
       then r = Inr () \<and> inv q' \<and> Suc (room q') = room q
         \<and> frames q' = filter (\<lambda>g. fr_id g < fr_id f) (frames q) @ f # filter (\<lambda>g. fr_id f \<le> fr_id g) (frames q)
       else r = Inl OutOfMemoryError \<and> q' = q)"
    and ordered: "inv q \<Longrightarrow> sorted (map fr_id (frames q))"
begin

text \<open>In terms of a stable sort: a pushed frame comes last, a returned frame first.\<close>

lemma push_sorts:
  assumes "inv q" and "0 < room q"
  shows "\<exists>q'. fq_push_frame fq f q = (Inr (), q') \<and> inv q' \<and> Suc (room q') = room q
    \<and> frames q' = sort_key fr_id (frames q @ [f])"
proof -
  obtain r q' where p: "fq_push_frame fq f q = (r, q')" by (cases "fq_push_frame fq f q")
  note l = push_law [OF assms(1) p]
  have "sort_key fr_id (frames q @ [f])
      = filter (\<lambda>g. fr_id g \<le> fr_id f) (frames q) @ f # filter (\<lambda>g. fr_id f < fr_id g) (frames q)"
  proof (rule properties_for_sort_key)
    have "mset (filter (\<lambda>g. fr_id g \<le> fr_id f) (frames q)) + mset (filter (\<lambda>g. \<not> fr_id g \<le> fr_id f) (frames q))
        = mset (frames q)" by (simp only: mset_filter multiset_partition [symmetric])
    then show "mset (filter (\<lambda>g. fr_id g \<le> fr_id f) (frames q) @ f # filter (\<lambda>g. fr_id f < fr_id g) (frames q))
        = mset (frames q @ [f])" by (simp add: not_le del: mset_filter)
    show "filter (\<lambda>g. fr_id k = fr_id g) (filter (\<lambda>g. fr_id g \<le> fr_id f) (frames q) @ f # filter (\<lambda>g. fr_id f < fr_id g) (frames q))
        = filter (\<lambda>g. fr_id k = fr_id g) (frames q @ [f])" for k
      by (cases "fr_id k" "fr_id f" rule: linorder_cases) (auto simp: filter_key)
    show "sorted (map fr_id (filter (\<lambda>g. fr_id g \<le> fr_id f) (frames q) @ f # filter (\<lambda>g. fr_id f < fr_id g) (frames q)))"
      using sorted_filter [OF ordered [OF assms(1)]] by (auto simp: sorted_append)
  qed
  with l p assms(2) show ?thesis by simp
qed

lemma return_sorts:
  assumes "inv q" and "0 < room q"
  shows "\<exists>q'. fq_return_frame fq f q = (Inr (), q') \<and> inv q' \<and> Suc (room q') = room q
    \<and> frames q' = sort_key fr_id (f # frames q)"
proof -
  obtain r q' where p: "fq_return_frame fq f q = (r, q')" by (cases "fq_return_frame fq f q")
  note l = return_law [OF assms(1) p]
  have "sort_key fr_id (f # frames q)
      = filter (\<lambda>g. fr_id g < fr_id f) (frames q) @ f # filter (\<lambda>g. fr_id f \<le> fr_id g) (frames q)"
  proof (rule properties_for_sort_key)
    have "mset (filter (\<lambda>g. fr_id g < fr_id f) (frames q)) + mset (filter (\<lambda>g. \<not> fr_id g < fr_id f) (frames q))
        = mset (frames q)" by (simp only: mset_filter multiset_partition [symmetric])
    then show "mset (filter (\<lambda>g. fr_id g < fr_id f) (frames q) @ f # filter (\<lambda>g. fr_id f \<le> fr_id g) (frames q))
        = mset (f # frames q)" by (simp add: not_less del: mset_filter)
    show "filter (\<lambda>g. fr_id k = fr_id g) (filter (\<lambda>g. fr_id g < fr_id f) (frames q) @ f # filter (\<lambda>g. fr_id f \<le> fr_id g) (frames q))
        = filter (\<lambda>g. fr_id k = fr_id g) (f # frames q)" for k
      by (cases "fr_id k" "fr_id f" rule: linorder_cases) (auto simp: filter_key)
    show "sorted (map fr_id (filter (\<lambda>g. fr_id g < fr_id f) (frames q) @ f # filter (\<lambda>g. fr_id f \<le> fr_id g) (frames q)))"
      using sorted_filter [OF ordered [OF assms(1)]] by (auto simp: sorted_append)
  qed
  with l p assms(2) show ?thesis by simp
qed

text \<open>A list of frames pushed through \<^verbatim>\<open>SingleQueueDriver\<close>.\<close>

lemma push_all:
  assumes "inv q" and "length fs \<le> room q"
  shows "\<exists>q'. transmit_all (single_queue_transmit fq drv compare) now fs \<lparr>sqd_queue = q, sqd_driver = d\<rparr>
      = (Inr (), \<lparr>sqd_queue = q', sqd_driver = d\<rparr>)
    \<and> inv q' \<and> room q' + length fs = room q \<and> frames q' = sort_key fr_id (frames q @ fs)"
  using assms
proof (induction fs arbitrary: q)
  case Nil
  then show ?case using ordered [of q] by (auto simp: sort_key_id_if_sorted)
next
  case (Cons f fs)
  then obtain q1 where q1: "fq_push_frame fq f q = (Inr (), q1)" "inv q1" "Suc (room q1) = room q"
      "frames q1 = sort_key fr_id (frames q @ [f])"
    using push_sorts [of q f] by auto
  from q1(3) Cons.prems(2) have "length fs \<le> room q1" by simp
  from Cons.IH [OF q1(2) this] obtain q2 where q2:
      "transmit_all (single_queue_transmit fq drv compare) now fs \<lparr>sqd_queue = q1, sqd_driver = d\<rparr>
        = (Inr (), \<lparr>sqd_queue = q2, sqd_driver = d\<rparr>)"
      "inv q2" "room q2 + length fs = room q1" "frames q2 = sort_key fr_id (frames q1 @ fs)"
    by auto
  have "frames q2 = sort_key fr_id (frames q @ f # fs)"
    unfolding q2(4) q1(4) sort_key_sorted_append by simp
  with q1 q2 show ?case by (auto simp: single_queue_transmit_def)
qed

text \<open>One round of the flush loop.\<close>

lemma flush_empty:
  assumes "inv q" and "frames q = []"
  obtains q' where "flush_single_queue fq drv compare now q d = Some (Inr (), q', d)" and "inv q'"
    and "frames q' = []" and "room q' = room q"
proof -
  obtain x q' where pop: "fq_pop_frame fq q = (x, q')" by (cases "fq_pop_frame fq q")
  from pop_law [OF assms(1) pop] assms(2) have "inv q'" "x = None" "frames q' = []" "room q' = room q" by auto
  with pop that show thesis by (simp add: flush_single_queue.simps [of fq drv compare now q d])
qed

lemma pop_cons:
  assumes "inv q" and "frames q = f # fs"
  obtains q1 where "fq_pop_frame fq q = (Some f, q1)" and "inv q1" and "frames q1 = fs" and "room q1 = Suc (room q)"
proof -
  obtain x q1 where pop: "fq_pop_frame fq q = (x, q1)" by (cases "fq_pop_frame fq q")
  from pop_law [OF assms(1) pop] assms(2)
  have "inv q1" "x = Some f" "frames q1 = fs" "room q1 = Suc (room q)" by auto
  with pop show thesis by (intro that) simp_all
qed

text \<open>
  The loop ends, and without a panic, when the driver has a measure that goes down with
  every displaced frame, such as the number of frames it can still displace.
\<close>

lemma flush_round:
  assumes "inv q"
    and rest: "\<And>q2 d2 g. inv q2 \<Longrightarrow> length (frames q2) + room q2 = length (frames q) + room q \<Longrightarrow>
      d2 = d \<and> length (frames q2) < length (frames q)
      \<or> td_transmit drv g now d = (Inr None, d2) \<and> length (frames q2) < length (frames q)
      \<or> (\<exists>x. td_transmit drv g now d = (Inr (Some x), d2)) \<Longrightarrow>
      \<exists>r q' d'. flush_single_queue fq drv compare now q2 d2 = Some (r, q', d') \<and> P r q' d'"
    and empty: "\<And>q2. inv q2 \<Longrightarrow> frames q2 = [] \<Longrightarrow> room q2 = length (frames q) + room q \<Longrightarrow> P (Inr ()) q2 d"
    and stop: "\<And>q2 d2 e. inv q2 \<Longrightarrow> length (frames q2) + room q2 = length (frames q) + room q \<Longrightarrow> P (Inl e) q2 d2"
  shows "\<exists>r q' d'. flush_single_queue fq drv compare now q d = Some (r, q', d') \<and> P r q' d'"
proof (cases "frames q")
  case Nil
  obtain q' where "flush_single_queue fq drv compare now q d = Some (Inr (), q', d)" "inv q'" "frames q' = []"
      "room q' = room q" by (rule flush_empty [OF assms(1) Nil])
  with empty [of q'] Nil show ?thesis by simp
next
  case (Cons f fs)
  obtain q1 where pop: "fq_pop_frame fq q = (Some f, q1)" and q1: "inv q1" "frames q1 = fs" "room q1 = Suc (room q)"
    by (rule pop_cons [OF assms(1) Cons])
  note step = flush_single_queue.simps [of fq drv compare now q d, unfolded pop]
  have return: "\<exists>q2. fq_return_frame fq g q1 = (Inr (), q2) \<and> inv q2
      \<and> length (frames q2) + room q2 = length (frames q) + room q" for g
    using return_sorts [OF q1(1), of g] q1 Cons by auto
  show ?thesis
  proof (cases "frame_is_expired compare f now")
    case True
    then show ?thesis unfolding step using rest [of q1 d] q1 Cons by simp
  next
    case False
    obtain t d2 where t: "td_transmit drv f now d = (t, d2)" by (cases "td_transmit drv f now d")
    consider "t = Inr None" | g where "t = Inr (Some g)" | "t = Inl WouldBlock" | e where "t = Inl (Other e)"
      by (cases t; (cases "projl t" | cases "projr t")) auto
    then show ?thesis
    proof cases
      case 1
      then show ?thesis unfolding step using False t rest [of q1 d2 f] q1 Cons by simp
    next
      case (2 g)
      obtain q2 where "fq_return_frame fq g q1 = (Inr (), q2)" "inv q2"
        "length (frames q2) + room q2 = length (frames q) + room q" using return [of g] by blast
      with 2 show ?thesis
        unfolding step using False t rest [of q2 d2 f] rest [of q1 d2 f] q1 Cons by simp
    next
      case 3
      obtain q2 where "fq_return_frame fq f q1 = (Inr (), q2)" "inv q2"
        "length (frames q2) + room q2 = length (frames q) + room q" using return [of f] by blast
      with 3 show ?thesis unfolding step using False t stop [of q2] by simp
    next
      case (4 e)
      then show ?thesis unfolding step using False t stop [of q1] q1 Cons by simp
    qed
  qed
qed

lemma flush_total:
  fixes \<mu> :: "'d \<Rightarrow> nat"
  assumes "inv q"
    and displaces: "\<And>f d g d'. td_transmit drv f now d = (Inr (Some g), d') \<Longrightarrow> \<mu> d' < \<mu> d"
    and accepts: "\<And>f d d'. td_transmit drv f now d = (Inr None, d') \<Longrightarrow> \<mu> d' \<le> \<mu> d"
  shows "\<exists>r q' d'. flush_single_queue fq drv compare now q d = Some (r, q', d')
    \<and> (inv q' \<and> (r = Inr () \<longrightarrow> frames q' = []) \<and> length (frames q') + room q' = length (frames q) + room q)"
  using assms(1)
proof (induction "(\<mu> d, length (frames q))" arbitrary: q d
    rule: wf_induct_rule [OF wf_lex_prod [OF wf_less_than wf_less_than]])
  case 1
  show ?case
  proof (rule flush_round [OF 1(2)])
    fix q2 d2 g
    assume q2: "inv q2" "length (frames q2) + room q2 = length (frames q) + room q"
      and "d2 = d \<and> length (frames q2) < length (frames q)
      \<or> td_transmit drv g now d = (Inr None, d2) \<and> length (frames q2) < length (frames q)
      \<or> (\<exists>x. td_transmit drv g now d = (Inr (Some x), d2))"
    then have "\<mu> d2 < \<mu> d \<or> \<mu> d2 = \<mu> d \<and> length (frames q2) < length (frames q)"
      using displaces [of g d] accepts [of g d d2] by (auto simp: le_less)
    then have "((\<mu> d2, length (frames q2)), (\<mu> d, length (frames q))) \<in> less_than <*lex*> less_than" by auto
    from 1(1) [OF this q2(1)] q2(2)
    show "\<exists>r q' d'. flush_single_queue fq drv compare now q2 d2 = Some (r, q', d')
      \<and> (inv q' \<and> (r = Inr () \<longrightarrow> frames q' = []) \<and> length (frames q') + room q' = length (frames q) + room q)"
      by simp
  qed simp_all
qed

lemma flush_in_order:
  assumes "inv q" and "\<And>f d g d'. td_transmit drv f now d \<noteq> (Inr (Some g), d')"
    and "flush_list drv compare now (frames q) d = (r, fs, d')"
  shows "\<exists>q'. flush_single_queue fq drv compare now q d = Some (r, q', d') \<and> inv q' \<and> frames q' = fs"
  using assms(1, 3)
proof (induction "frames q" arbitrary: q d)
  case Nil
  obtain q' where "flush_single_queue fq drv compare now q d = Some (Inr (), q', d)" "inv q'" "frames q' = []"
      "room q' = room q" using Nil.hyps Nil.prems(1) by (metis flush_empty)
  with Nil show ?case by auto
next
  case (Cons f gs)
  obtain q1 where pop: "fq_pop_frame fq q = (Some f, q1)" and q1: "inv q1" "frames q1 = gs" "room q1 = Suc (room q)"
    by (rule pop_cons [OF Cons.prems(1) Cons.hyps(2) [symmetric]])
  note step = flush_single_queue.simps [of fq drv compare now q d, unfolded pop]
    and IH = Cons.hyps(1) [OF q1(2) [symmetric] q1(1)]
  obtain q2 where return: "fq_return_frame fq f q1 = (Inr (), q2)" "inv q2" "frames q2 = sort_key fr_id (f # gs)"
    using return_sorts [OF q1(1), of f] q1 by auto
  have "sort_key fr_id (f # gs) = f # gs"
    using ordered [OF Cons.prems(1)] Cons.hyps(2) by (metis sort_key_id_if_sorted)
  with return(3) have fs: "frames q2 = f # gs" by simp
  note prems = Cons.prems(2) [folded Cons.hyps(2)]
  obtain t d2 where t: "td_transmit drv f now d = (t, d2)" by (cases "td_transmit drv f now d")
  consider "frame_is_expired compare f now" | "\<not> frame_is_expired compare f now" "t = Inr None"
    | "\<not> frame_is_expired compare f now" "t = Inl WouldBlock"
    | e where "\<not> frame_is_expired compare f now" "t = Inl (Other e)"
    using assms(2) [of f d _ d2] t by (cases t; (cases "projl t" | cases "projr t")) auto
  then show ?case
    by cases (unfold step, use prems t return fs q1 IH in simp_all)
qed

end

section \<open>The queues keep the contract\<close>

lemma ring_snoc:
  assumes "l < length items"
  shows "ring (items[(h + l) mod length items := f]) h (Suc l) = ring items h l @ [f]"
proof -
  have "ring (items[(h + l) mod length items := f]) h (Suc l) = (ring items h (Suc l))[l := f]"
    using assms by (intro ring_update) simp_all
  also have "\<dots> = ring items h l @ [f]"
    by (simp add: ring_def list_update_append)
  finally show ?thesis .
qed

lemma aq_push_frame_list:
  assumes "aq_wf q" and "aq_length q < aq_N q"
  obtains q' where "aq_push_frame f q = (Inr (), q')" and "aq_wf q'" and "aq_length q' = Suc (aq_length q)"
    and "aq_N q' = aq_N q"
    and "aq_frames q' = rev (dropWhile (\<lambda>g. fr_id f < fr_id g) (rev (aq_frames q))) @ f #
      rev (takeWhile (\<lambda>g. fr_id f < fr_id g) (rev (aq_frames q)))"
proof -
  let ?N = "aq_N q" and ?t = "(aq_head q + aq_length q) mod aq_N q"
  let ?items = "(aq_items q)[?t := f]"
  define q' where "q' = q\<lparr>aq_items := sift_up ?N (aq_head q) (fr_id f) ?t ?items, aq_length := Suc (aq_length q)\<rparr>"
  have push: "aq_push_frame f q = (Inr (), q')"
    using assms(2) by (simp add: aq_push_frame_def q'_def Let_def)
  have h: "aq_head q < ?N" using assms by (auto simp: aq_wf_def)
  have "aq_frames q' = up_list (fr_id f) (aq_length q) (ring ?items (aq_head q) (Suc (aq_length q)))"
    using sift_up_ring [of "aq_length q" "Suc (aq_length q)" ?items "aq_head q" ?N "fr_id f"] assms(2) h
    by (simp add: aq_frames_def q'_def)
  also have "\<dots> = up_list (fr_id f) (length (aq_frames q)) (aq_frames q @ [f])"
    using ring_snoc [OF assms(2)] by (simp add: aq_frames_def)
  finally have "aq_frames q' = rev (dropWhile (\<lambda>g. fr_id f < fr_id g) (rev (aq_frames q))) @ f #
      rev (takeWhile (\<lambda>g. fr_id f < fr_id g) (rev (aq_frames q)))"
    unfolding up_list_append by simp
  moreover have "aq_wf q'" using assms(2) h by (simp add: q'_def aq_wf_def)
  ultimately show thesis using push by (intro that) (simp_all add: q'_def)
qed

lemma ring_Cons:
  assumes "h < length items"
  shows "ring items h (Suc l) = items ! h # ring items ((h + 1) mod length items) l"
proof -
  have "(h + Suc k) mod length items = ((h + 1) mod length items + k) mod length items" for k
    by (simp add: mod_add_left_eq)
  then show ?thesis using assms by (simp only: ring_def map_upt_Suc) simp
qed

lemma aq_return_frame_list:
  assumes "aq_wf q" and "aq_length q < aq_N q"
  obtains q' where "aq_return_frame f q = (Inr (), q')" and "aq_wf q'" and "aq_length q' = Suc (aq_length q)"
    and "aq_N q' = aq_N q"
    and "aq_frames q' = takeWhile (\<lambda>g. fr_id g < fr_id f) (aq_frames q) @ f #
      dropWhile (\<lambda>g. fr_id g < fr_id f) (aq_frames q)"
proof -
  let ?N = "aq_N q" and ?l = "aq_length q"
  define h where "h = (aq_head q + (aq_N q - 1)) mod aq_N q"
  let ?items = "(aq_items q)[h := f]"
  define q' where "q' = q\<lparr>aq_head := h, aq_length := Suc ?l,
      aq_items := sift_down ?N ((h + ?l) mod ?N) (fr_id f) h ?items\<rparr>"
  have ret: "aq_return_frame f q = (Inr (), q')"
    using assms(2) by (auto simp: aq_return_frame_def decrement_head_def q'_def h_def Let_def)
  have pos: "0 < ?N" using assms(2) by linarith
  have h: "aq_head q < ?N" "h < ?N" using assms pos by (simp_all add: aq_wf_def h_def)
  obtain n where n: "?N = Suc n" using h by (cases ?N) simp_all
  have "(h + 1) mod ?N = (aq_head q + n + 1) mod Suc n"
    using mod_add_left_eq [of "aq_head q + n" "Suc n" 1] by (simp add: h_def n)
  also have "\<dots> = (aq_head q + Suc n) mod Suc n" by simp
  also have "\<dots> = aq_head q" using h(1) n by (simp only: mod_add_self2 mod_less)
  finally have succ: "(h + 1) mod ?N = aq_head q" .
  have "ring ?items h (Suc ?l) = (ring (aq_items q) h (Suc ?l))[0 := f]"
    using ring_update [of 0 "Suc ?l" "aq_items q" h f] assms(2) h by simp
  also have "\<dots> = f # aq_frames q"
    using ring_Cons [OF h(2), of ?l] by (simp only: succ aq_frames_def list_update_code)
  finally have ring: "ring ?items h (Suc ?l) = f # aq_frames q" .
  have "aq_frames q' = down_list (fr_id f) 0 ?l (ring ?items h (Suc ?l))"
    using sift_down_ring [of 0 ?l "Suc ?l" ?items h ?N "fr_id f"] assms(2) h
    by (simp add: aq_frames_def q'_def)
  also have "\<dots> = takeWhile (\<lambda>g. fr_id g < fr_id f) (aq_frames q) @ f # dropWhile (\<lambda>g. fr_id g < fr_id f) (aq_frames q)"
    using down_list_append [of f "[]" "aq_frames q"] unfolding ring by (simp add: aq_frames_def)
  finally show thesis using ret assms(2) h by (intro that) (simp_all add: q'_def aq_wf_def)
qed

lemma aq_pop_frame_list:
  assumes "aq_wf q" and "aq_length q = Suc l"
  obtains q' where "aq_pop_frame dflt q = (Some (aq_items q ! aq_head q), q')" and "aq_wf q'"
    and "aq_length q' = l" and "aq_N q' = aq_N q" and "aq_frames q = aq_items q ! aq_head q # aq_frames q'"
proof -
  let ?N = "aq_N q" and ?items = "(aq_items q)[aq_head q := frame_default dflt]"
  define q' where "q' = q\<lparr>aq_items := ?items, aq_head := (aq_head q + 1) mod ?N, aq_length := l\<rparr>"
  have h: "aq_head q < ?N" "0 < ?N" "l < ?N" using assms by (auto simp: aq_wf_def)
  then have pop: "aq_pop_frame dflt q = (Some (aq_items q ! aq_head q), q')"
    using assms(2) by (simp add: aq_pop_frame_def increment_head_def q'_def Let_def)
  have "ring ?items (aq_head q) (Suc l) = (ring (aq_items q) (aq_head q) (Suc l))[0 := frame_default dflt]"
    using ring_update [of 0 "Suc l" "aq_items q" "aq_head q" "frame_default dflt"] h by simp
  then have "ring ?items ((aq_head q + 1) mod ?N) l = ring (aq_items q) ((aq_head q + 1) mod ?N) l"
    using ring_Cons [of "aq_head q" ?items l] ring_Cons [of "aq_head q" "aq_items q" l] h by simp
  then have "aq_frames q = aq_items q ! aq_head q # aq_frames q'"
    using ring_Cons [of "aq_head q" "aq_items q" l] h by (simp add: aq_frames_def assms(2) q'_def)
  with pop h show thesis by (intro that) (simp_all add: q'_def aq_wf_def)
qed

text \<open>The invariant of the ring buffer: well-formed, and in order of the identifiers.\<close>

definition aq_inv :: "'i ArrayQueue \<Rightarrow> bool" where
  "aq_inv q \<longleftrightarrow> aq_wf q \<and> sorted (map fr_id (aq_frames q))"

definition aq_room :: "'i ArrayQueue \<Rightarrow> nat" where
  "aq_room q = aq_N q - aq_length q"

lemma aq_push_law:
  assumes "aq_inv q" and "0 < aq_room q"
  shows "\<exists>q'. aq_push_frame f q = (Inr (), q') \<and> aq_inv q' \<and> Suc (aq_room q') = aq_room q
    \<and> aq_frames q' = filter (\<lambda>g. fr_id g \<le> fr_id f) (aq_frames q) @ f # filter (\<lambda>g. fr_id f < fr_id g) (aq_frames q)"
proof -
  have wf: "aq_wf q" "aq_length q < aq_N q" and sorted: "sorted (map fr_id (aq_frames q))"
    using assms by (simp_all add: aq_inv_def aq_room_def)
  from wf obtain q' where q': "aq_push_frame f q = (Inr (), q')" "aq_wf q'" "aq_length q' = Suc (aq_length q)"
      "aq_N q' = aq_N q"
      "aq_frames q' = rev (dropWhile (\<lambda>g. fr_id f < fr_id g) (rev (aq_frames q))) @ f #
        rev (takeWhile (\<lambda>g. fr_id f < fr_id g) (rev (aq_frames q)))"
    by (rule aq_push_frame_list [of q f])
  have fs: "aq_frames q' = filter (\<lambda>g. fr_id g \<le> fr_id f) (aq_frames q) @ f # filter (\<lambda>g. fr_id f < fr_id g) (aq_frames q)"
    unfolding q'(5) by (rule ordered_insert_back [OF sorted])
  moreover have "sorted (map fr_id (aq_frames q'))"
    using sorted_filter [OF sorted] unfolding fs by (auto simp: sorted_append)
  ultimately show ?thesis using q' wf by (auto simp: aq_inv_def aq_room_def)
qed

lemma aq_return_law:
  assumes "aq_inv q" and "0 < aq_room q"
  shows "\<exists>q'. aq_return_frame f q = (Inr (), q') \<and> aq_inv q' \<and> Suc (aq_room q') = aq_room q
    \<and> aq_frames q' = filter (\<lambda>g. fr_id g < fr_id f) (aq_frames q) @ f # filter (\<lambda>g. fr_id f \<le> fr_id g) (aq_frames q)"
proof -
  have wf: "aq_wf q" "aq_length q < aq_N q" and sorted: "sorted (map fr_id (aq_frames q))"
    using assms by (simp_all add: aq_inv_def aq_room_def)
  from wf obtain q' where q': "aq_return_frame f q = (Inr (), q')" "aq_wf q'" "aq_length q' = Suc (aq_length q)"
      "aq_N q' = aq_N q"
      "aq_frames q' = takeWhile (\<lambda>g. fr_id g < fr_id f) (aq_frames q) @ f #
        dropWhile (\<lambda>g. fr_id g < fr_id f) (aq_frames q)"
    by (rule aq_return_frame_list [of q f])
  have fs: "aq_frames q' = filter (\<lambda>g. fr_id g < fr_id f) (aq_frames q) @ f # filter (\<lambda>g. fr_id f \<le> fr_id g) (aq_frames q)"
    unfolding q'(5) by (rule ordered_insert_front [OF sorted])
  moreover have "sorted (map fr_id (aq_frames q'))"
    using sorted_filter [OF sorted] unfolding fs by (auto simp: sorted_append)
  ultimately show ?thesis using q' wf by (auto simp: aq_inv_def aq_room_def)
qed

lemma aq_pop_law:
  assumes "aq_inv q" and "aq_pop_frame dflt q = (x, q')"
  shows "aq_inv q' \<and> (case aq_frames q of
      [] \<Rightarrow> x = None \<and> aq_frames q' = [] \<and> aq_room q' = aq_room q
    | f # fs \<Rightarrow> x = Some f \<and> aq_frames q' = fs \<and> aq_room q' = Suc (aq_room q))"
proof (cases "aq_length q")
  case 0
  with assms show ?thesis by (simp add: aq_pop_frame_def aq_frames_def ring_def)
next
  case (Suc l)
  have wf: "aq_wf q" using assms(1) by (simp add: aq_inv_def)
  then obtain q'' where "aq_pop_frame dflt q = (Some (aq_items q ! aq_head q), q'')" "aq_wf q''"
      "aq_length q'' = l" "aq_N q'' = aq_N q" "aq_frames q = aq_items q ! aq_head q # aq_frames q''"
    using Suc by (rule aq_pop_frame_list [of q l dflt])
  with assms Suc wf show ?thesis by (auto simp: aq_inv_def aq_room_def aq_wf_def)
qed

lemma aq_peek_law:
  assumes "aq_inv q"
  shows "aq_peek_frame q = (case aq_frames q of [] \<Rightarrow> None | f # _ \<Rightarrow> Some f)"
proof (cases "aq_length q")
  case (Suc l)
  with assms have "aq_head q < aq_N q" by (auto simp: aq_inv_def aq_wf_def)
  then show ?thesis
    using Suc ring_Cons [of "aq_head q" "aq_items q" l] by (simp add: aq_peek_frame_def aq_frames_def)
qed (simp add: aq_peek_frame_def aq_frames_def ring_def)

lemma aq_full:
  assumes "aq_inv q" and "\<not> 0 < aq_room q"
  shows "aq_push_frame f q = (Inl OutOfMemoryError, q)" "aq_return_frame f q = (Inl OutOfMemoryError, q)"
  using assms by (simp_all add: aq_inv_def aq_wf_def aq_room_def aq_push_frame_def aq_return_frame_def)

lemma aq_push_contract:
  assumes "aq_inv q" and "aq_push_frame f q = (r, q')"
  shows "if 0 < aq_room q
    then r = Inr () \<and> aq_inv q' \<and> Suc (aq_room q') = aq_room q
      \<and> aq_frames q' = filter (\<lambda>g. fr_id g \<le> fr_id f) (aq_frames q) @ f # filter (\<lambda>g. fr_id f < fr_id g) (aq_frames q)
    else r = Inl OutOfMemoryError \<and> q' = q"
  using aq_push_law [OF assms(1), of f] aq_full(1) [OF assms(1), of f] unfolding assms(2) by auto

lemma aq_return_contract:
  assumes "aq_inv q" and "aq_return_frame f q = (r, q')"
  shows "if 0 < aq_room q
    then r = Inr () \<and> aq_inv q' \<and> Suc (aq_room q') = aq_room q
      \<and> aq_frames q' = filter (\<lambda>g. fr_id g < fr_id f) (aq_frames q) @ f # filter (\<lambda>g. fr_id f \<le> fr_id g) (aq_frames q)
    else r = Inl OutOfMemoryError \<and> q' = q"
  using aq_return_law [OF assms(1), of f] aq_full(2) [OF assms(1), of f] unfolding assms(2) by auto

lemma aq_reserve_contract:
  assumes "aq_try_reserve n q = (r, q')"
  shows "q' = q \<and> (r = Inr () \<longrightarrow> n \<le> aq_room q) \<and> (\<forall>e. r = Inl e \<longrightarrow> aq_room q < n \<or> n = 0)"
  using assms by (auto simp: aq_try_reserve_def aq_room_def Let_def split: if_splits)

lemma array_queue_ops_simps [simp]:
  "fq_try_reserve (array_queue_ops dflt) = aq_try_reserve" "fq_push_frame (array_queue_ops dflt) = aq_push_frame"
  "fq_peek_frame (array_queue_ops dflt) = aq_peek_frame" "fq_pop_frame (array_queue_ops dflt) = aq_pop_frame dflt"
  "fq_return_frame (array_queue_ops dflt) = aq_return_frame"
  by (simp_all add: array_queue_ops_def)

lemma aq_push_capacity: "aq_N (snd (aq_push_frame f q)) = aq_N q"
  by (simp add: aq_push_frame_def Let_def)

lemma aq_return_capacity: "aq_N (snd (aq_return_frame f q)) = aq_N q"
  by (simp add: aq_return_frame_def decrement_head_def Let_def)

lemma aq_pop_capacity: "aq_N (snd (aq_pop_frame dflt q)) = aq_N q"
  by (simp add: aq_pop_frame_def increment_head_def Let_def)

interpretation array_queue: frame_queue "array_queue_ops dflt" aq_inv aq_frames aq_room
  by (unfold_locales; (unfold array_queue_ops_simps)?)
    (erule aq_reserve_contract | erule (1) aq_push_contract | erule aq_peek_law | erule (1) aq_pop_law
     | erule (1) aq_return_contract | simp add: aq_inv_def)+

definition sfq_frames :: "'i SingleFrameQueue \<Rightarrow> 'i Frame list" where
  "sfq_frames q = (case sfq_frame q of None \<Rightarrow> [] | Some f \<Rightarrow> [f])"

definition sfq_room :: "'i SingleFrameQueue \<Rightarrow> nat" where
  "sfq_room q = (if sfq_frame q = None then 1 else 0)"

interpretation single_frame_queue: frame_queue single_frame_queue_ops "\<lambda>_. True" sfq_frames sfq_room
  by unfold_locales
    (auto simp: single_frame_queue_ops_def sfq_try_reserve_def sfq_push_frame_def sfq_peek_frame_def sfq_pop_frame_def
      sfq_return_frame_def sfq_frames_def sfq_room_def split: option.splits if_splits)

section \<open>Transfers in the queue\<close>

lemma sort_key_block:
  fixes xs fs :: "'i Frame list"
  assumes "sorted (map fr_id xs)" and "\<And>f. f \<in> set fs \<Longrightarrow> fr_id f = c"
  shows "sort_key fr_id (xs @ fs) = filter (\<lambda>g. fr_id g \<le> c) xs @ fs @ filter (\<lambda>g. c < fr_id g) xs"
proof (rule properties_for_sort_key)
  have "mset (filter (\<lambda>g. fr_id g \<le> c) xs) + mset (filter (\<lambda>g. \<not> fr_id g \<le> c) xs) = mset xs"
    by (simp only: mset_filter multiset_partition [symmetric])
  then show "mset (filter (\<lambda>g. fr_id g \<le> c) xs @ fs @ filter (\<lambda>g. c < fr_id g) xs) = mset (xs @ fs)"
    by (simp add: not_le ac_simps del: mset_filter)
  have same: "filter (\<lambda>g. fr_id k = fr_id g) fs = (if fr_id k = c then fs else [])" for k :: "'i Frame"
    using assms(2) by (auto simp: filter_empty_conv filter_id_conv)
  show "filter (\<lambda>g. fr_id k = fr_id g) (filter (\<lambda>g. fr_id g \<le> c) xs @ fs @ filter (\<lambda>g. c < fr_id g) xs)
      = filter (\<lambda>g. fr_id k = fr_id g) (xs @ fs)" for k :: "'i Frame"
    using same [of k] by (cases "fr_id k" c rule: linorder_cases) (auto simp: filter_key)
  show "sorted (map fr_id (filter (\<lambda>g. fr_id g \<le> c) xs @ fs @ filter (\<lambda>g. c < fr_id g) xs))"
  proof -
    have "map fr_id fs = map (\<lambda>_. c) fs" using assms(2) by (intro map_cong) simp_all
    then have "sorted (map fr_id fs)" by (simp add: map_replicate_const)
    with sorted_filter [OF assms(1)] assms(2) show ?thesis by (fastforce simp: sorted_append)
  qed
qed

lemma transfer_frames_id:
  "f \<in> set (transfer_frames mtu h payload) \<Longrightarrow> fr_id f = CanId (header_bits h payload)"
  by (auto simp: transfer_frames_def mk_frame_def)

text \<open>A driver that takes two frames and then blocks.\<close>

definition two_slots :: "('i Frame list, 'i, unit) transmit_driver" where
  "two_slots = \<lparr>td_try_reserve = (\<lambda>n d. (Inr (), d)),
     td_transmit = (\<lambda>f now d. if length d < 2 then (Inr None, d @ [f]) else (Inl WouldBlock, d)),
     td_flush = (\<lambda>now d. Some (Inr (), d))\<rparr>"

definition queued_frame :: "u32 \<Rightarrow> nat \<Rightarrow> nat Frame" where
  "queued_frame c t = \<lparr>fr_timestamp = t, fr_id = CanId c, fr_data = [0xe3]\<rparr>"

definition example_queue :: "nat ArrayQueue" where
  "example_queue = \<lparr>aq_items = [queued_frame 9 30, queued_frame 9 40, frame_default 0, queued_frame 5 20],
     aq_head = 3, aq_length = 3\<rparr>"

lemma example_queue_frames:
  "aq_frames example_queue = [queued_frame 5 20, queued_frame 9 30, queued_frame 9 40]"
  by code_simp

lemma example_queue_inv: "aq_inv example_queue" "aq_room example_queue = 1"
  unfolding aq_inv_def aq_wf_def example_queue_frames
  by (simp_all add: example_queue_def queued_frame_def less_eq_CanId_def aq_room_def)

definition compare_nat :: "nat \<Rightarrow> nat \<Rightarrow> ordering" where
  "compare_nat a b = (if a < b then Less else if a = b then Equal else Greater)"

text \<open>A driver with one mailbox, in which a frame displaces a frame with a greater identifier.\<close>

definition mailbox :: "(nat Frame option, nat, unit) transmit_driver" where
  "mailbox = \<lparr>td_try_reserve = (\<lambda>n d. (Inr (), d)),
     td_transmit = (\<lambda>f now d. case d of
        None \<Rightarrow> (Inr None, Some f)
      | Some g \<Rightarrow> if fr_id f < fr_id g then (Inr (Some g), Some f) else (Inl WouldBlock, d)),
     td_flush = (\<lambda>now d. Some (Inr (), d))\<rparr>"

definition mailbox_measure :: "nat Frame option \<Rightarrow> nat" where
  "mailbox_measure d = (case d of None \<Rightarrow> 2 ^ 32 | Some g \<Rightarrow> unat (can_id_bits (fr_id g)))"

lemma mailbox_displaces:
  "td_transmit mailbox f now d = (Inr (Some g), d') \<Longrightarrow> mailbox_measure d' < mailbox_measure d"
  by (auto simp: mailbox_def mailbox_measure_def less_CanId_def word_less_nat_alt split: option.splits if_splits)

lemma mailbox_accepts:
  "td_transmit mailbox f now d = (Inr None, d') \<Longrightarrow> mailbox_measure d' \<le> mailbox_measure d"
  using unsigned_less [of "can_id_bits (fr_id f)", where 'a = nat]
  by (auto simp: mailbox_def mailbox_measure_def split: option.splits if_splits)

text \<open>How many of the new subscriptions fit before an allocation fails.\<close>

lemma collect_subscriptions_take:
  "collect_subscriptions mem n acc subs =
     (list_all mem [n..<n + length subs], acc @ take (length (takeWhile mem [n..<n + length subs])) subs)"
proof (induction subs arbitrary: n acc)
  case (Cons s subs)
  have "[n..<n + length (s # subs)] = n # [Suc n..<Suc n + length subs]" by (simp add: upt_rec)
  with Cons [of "Suc n" "acc @ [s]"] show ?case by (auto simp: try_push_def)
qed simp

section \<open>Properties\<close>

text \<open>
  C19: the ring buffer \<^verbatim>\<open>ArrayQueue\<close> is a stable priority queue. Its frames, read from the
  head, stay sorted by identifier; a pushed frame goes behind the frames with an equal
  identifier and a returned frame in front of them; the front frame is peeked and popped;
  a full queue refuses a frame and does not change; reserving succeeds exactly when there
  is room.
\<close>

theorem array_queue_sorts:
  assumes "aq_inv q"
  shows "aq_try_reserve n q = (if n \<le> aq_room q then Inr () else Inl OutOfMemoryError, q)
    \<and> (case aq_push_frame f q of (r, q') \<Rightarrow>
        aq_inv q' \<and> aq_N q' = aq_N q
        \<and> (if aq_room q = 0 then r = Inl OutOfMemoryError \<and> q' = q
           else r = Inr () \<and> aq_frames q' = sort_key fr_id (aq_frames q @ [f])))
    \<and> (case aq_return_frame f q of (r, q') \<Rightarrow>
        aq_inv q' \<and> aq_N q' = aq_N q
        \<and> (if aq_room q = 0 then r = Inl OutOfMemoryError \<and> q' = q
           else r = Inr () \<and> aq_frames q' = sort_key fr_id (f # aq_frames q)))
    \<and> (case aq_pop_frame dflt q of (x, q') \<Rightarrow>
        aq_inv q' \<and> aq_N q' = aq_N q \<and> aq_peek_frame q = x
        \<and> aq_frames q = (case x of None \<Rightarrow> [] | Some g \<Rightarrow> [g]) @ aq_frames q')"
proof (intro conjI)
  show "aq_try_reserve n q = (if n \<le> aq_room q then Inr () else Inl OutOfMemoryError, q)"
    by (simp add: aq_try_reserve_def aq_room_def)
  show "case aq_push_frame f q of (r, q') \<Rightarrow> aq_inv q' \<and> aq_N q' = aq_N q
      \<and> (if aq_room q = 0 then r = Inl OutOfMemoryError \<and> q' = q
         else r = Inr () \<and> aq_frames q' = sort_key fr_id (aq_frames q @ [f]))"
    using array_queue.push_sorts [OF assms, of dflt f] aq_full(1) [OF assms, of f] aq_push_capacity [of f q] assms
    by (cases "aq_room q = 0") auto
  show "case aq_return_frame f q of (r, q') \<Rightarrow> aq_inv q' \<and> aq_N q' = aq_N q
      \<and> (if aq_room q = 0 then r = Inl OutOfMemoryError \<and> q' = q
         else r = Inr () \<and> aq_frames q' = sort_key fr_id (f # aq_frames q))"
    using array_queue.return_sorts [OF assms, of dflt f] aq_full(2) [OF assms, of f] aq_return_capacity [of f q] assms
    by (cases "aq_room q = 0") auto
  show "case aq_pop_frame dflt q of (x, q') \<Rightarrow> aq_inv q' \<and> aq_N q' = aq_N q \<and> aq_peek_frame q = x
      \<and> aq_frames q = (case x of None \<Rightarrow> [] | Some g \<Rightarrow> [g]) @ aq_frames q'"
    using aq_pop_law [OF assms, of dflt] aq_peek_law [OF assms] aq_pop_capacity [of dflt q]
    by (cases "aq_pop_frame dflt q") (auto split: list.splits)
qed

theorem array_queue_sorts_witness:
  "aq_inv example_queue
   \<and> (case aq_return_frame (queued_frame 9 99) example_queue of (r, q') \<Rightarrow>
       r = Inr () \<and> map fr_timestamp (aq_frames q') = [20, 99, 30, 40])"
  using array_queue_sorts [OF example_queue_inv(1), of 0 "queued_frame 9 99" 0]
  by (auto simp: example_queue_inv example_queue_frames queued_frame_def insort_key.simps less_eq_CanId_def)

text \<open>
  C18: a transfer is queued as a whole or not at all. Pushing a transfer through a
  \<^verbatim>\<open>SingleQueueDriver\<close> over an \<^verbatim>\<open>ArrayQueue\<close> puts all its frames into the queue, next to each
  other and in order, behind the frames with a lesser or equal identifier and in front of
  the others; when they do not all fit, the queue stays as it was and the result is the
  out-of-memory error.
\<close>

theorem transfer_queued_atomically:
  assumes "hvec_law 64 hv" and "can_header_wf (tr_header tr)" and "tx_mtu tx = mtu_as_bytes mtu" and "aq_inv q"
  defines "fs \<equiv> transfer_frames (tx_mtu tx) (tr_header tr) (tr_payload tr)"
    and "c \<equiv> CanId (header_bits (tr_header tr) (tr_payload tr))"
  shows "\<exists>r tx' q'.
    transmitter_push hv (single_queue_transmit (array_queue_ops dflt) drv compare) tx tr now
      (single_queue_driver_new q d) = Some (r, tx', single_queue_driver_new q' d)
    \<and> (if length fs \<le> aq_room q
       then r = Inr () \<and> aq_inv q'
         \<and> aq_frames q' = filter (\<lambda>g. fr_id g \<le> c) (aq_frames q) @ fs @ filter (\<lambda>g. c < fr_id g) (aq_frames q)
       else r = Inl (Other (Memory OutOfMemoryError)) \<and> q' = q)"
proof -
  note push = transmitter_push_frames [OF assms(1-3), of "single_queue_transmit (array_queue_ops dflt) drv compare"
      now "single_queue_driver_new q d", folded fs_def]
  have "sort_key fr_id (aq_frames q @ fs)
      = filter (\<lambda>g. fr_id g \<le> c) (aq_frames q) @ fs @ filter (\<lambda>g. c < fr_id g) (aq_frames q)"
    using assms(4) by (intro sort_key_block) (auto simp: aq_inv_def fs_def c_def dest: transfer_frames_id)
  then show ?thesis
    unfolding push using array_queue.push_all [OF assms(4), of fs dflt drv compare now d]
    by (auto simp: single_queue_transmit_def single_queue_driver_new_def aq_try_reserve_def aq_room_def)
qed

theorem transfer_queued_atomically_witness:
  "\<exists>r tx' q'.
    transmitter_push (list_hvec 64) (single_queue_transmit (array_queue_ops 0) log_driver compare_nat)
      (can_transmitter_new Can8) \<lparr>tr_header = example_header, tr_payload = [1, 2, 3]\<rparr> 0
      (single_queue_driver_new example_queue []) = Some (r, tx', single_queue_driver_new q' [])
    \<and> r = Inr () \<and> map fr_data (aq_frames q') = [[0xe3], [0xe3], [0xe3], [1, 2, 3, 0xe3]]"
proof -
  let ?tr = "\<lparr>tr_header = example_header, tr_payload = [1, 2, 3]\<rparr>"
  have data: "transfer_data 8 example_header [1, 2, 3] = [[1, 2, 3, 0xe3]]"
      "header_bits example_header [1, 2, 3] = 0x107d552a"
    by code_simp+
  have "can_header_wf (tr_header ?tr)" "tx_mtu (can_transmitter_new Can8) = mtu_as_bytes Can8"
    by (simp_all add: example_header_wf can_transmitter_new_def)
  from transfer_queued_atomically [OF list_hvec_law this example_queue_inv(1), of 0 log_driver compare_nat 0 "[]"]
  show ?thesis
    by (elim ex_forward) (auto simp: data can_transmitter_new_def transfer_frames_def mk_frame_def comp_def
        example_queue_inv example_queue_frames queued_frame_def less_eq_CanId_def less_CanId_def)
qed

text \<open>
  Flushing the queue of a \<^verbatim>\<open>SingleQueueDriver\<close> returns, and without a panic, for every
  driver with a measure that a displaced frame lowers and an accepted frame does not raise
  (such as the identifier of the frame in its only mailbox). The queue keeps its order and
  its capacity, and is empty when the result is \<^verbatim>\<open>Ok\<close>.
\<close>

lemma flush_returns:
  fixes \<mu> :: "'d \<Rightarrow> nat"
  assumes "aq_inv q"
    and "\<And>f d g d'. td_transmit drv f now d = (Inr (Some g), d') \<Longrightarrow> \<mu> d' < \<mu> d"
    and "\<And>f d d'. td_transmit drv f now d = (Inr None, d') \<Longrightarrow> \<mu> d' \<le> \<mu> d"
  shows "\<exists>r q' d'.
    td_flush (single_queue_transmit (array_queue_ops dflt) drv compare) now (single_queue_driver_new q d)
      = Some (r, single_queue_driver_new q' d')
    \<and> aq_inv q' \<and> aq_length q' + aq_room q' = aq_length q + aq_room q
    \<and> (r = Inr () \<longrightarrow> aq_frames q' = [])"
proof -
  obtain r q' d' where "flush_single_queue (array_queue_ops dflt) drv compare now q d = Some (r, q', d')" "aq_inv q'"
      "r = Inr () \<longrightarrow> aq_frames q' = []"
      "length (aq_frames q') + aq_room q' = length (aq_frames q) + aq_room q"
    using array_queue.flush_total [of q drv now \<mu> dflt compare d] assms by blast
  then show ?thesis
    by (intro exI [of _ r] exI [of _ q'] exI [of _ d'])
      (simp add: single_queue_transmit_def single_queue_driver_new_def aq_frames_def)
qed

text \<open>
  C20: flushing a queue to a driver that displaces no frames handles the frames in queue
  order: expired frames are dropped and the others are transmitted until the queue is empty
  or the driver blocks or fails. A frame on which the driver blocks goes back to the front.
\<close>

theorem flush_follows_queue_order:
  assumes "aq_inv q" and "\<And>f d g d'. td_transmit drv f now d \<noteq> (Inr (Some g), d')"
    and "flush_list drv compare now (aq_frames q) d = (r, fs, d')"
  shows "\<exists>q'. flush_single_queue (array_queue_ops dflt) drv compare now q d = Some (r, q', d')
    \<and> aq_inv q' \<and> aq_frames q' = fs"
  using assms by (rule array_queue.flush_in_order)

theorem flush_follows_queue_order_witness:
  "\<exists>q'. flush_single_queue (array_queue_ops 0) two_slots compare_nat 25 example_queue [queued_frame 1 50]
      = Some (Inl WouldBlock, q', [queued_frame 1 50, queued_frame 9 30])
    \<and> aq_inv q' \<and> aq_frames q' = [queued_frame 9 40]"
proof -
  have "flush_list two_slots compare_nat 25 (aq_frames example_queue) [queued_frame 1 50]
      = (Inl WouldBlock, [queued_frame 9 40], [queued_frame 1 50, queued_frame 9 30])"
    by (simp add: example_queue_frames two_slots_def frame_is_expired_def compare_nat_def queued_frame_def)
  then show ?thesis
    using flush_follows_queue_order [OF example_queue_inv(1), of two_slots 25 compare_nat "[queued_frame 1 50]"
        "Inl WouldBlock" "[queued_frame 9 40]" "[queued_frame 1 50, queued_frame 9 30]" 0]
    by (simp add: two_slots_def)
qed

text \<open>
  The subscriptions a \<^verbatim>\<open>QueueOnlyDriver\<close> stores. When all allocations succeed they are the
  new ones. When one fails, a driver that had subscriptions stores none (and so accepts
  everything), but a driver that had none stores the part it collected, although its
  documentation says that it then has none.
\<close>

lemma queue_only_filters_after_oom:
  "qo_subscriptions (rd_apply_filters (queue_only_receive dq mem) local_node subs self) =
     (let ok = takeWhile mem [0..<length subs] in
      if length ok = length subs then Some subs
      else if qo_subscriptions self = None then Some (take (length ok) subs) else None)"
proof -
  have "list_all mem [0..<length subs] \<longleftrightarrow> length (takeWhile mem [0..<length subs]) = length subs"
    by (metis length_upt minus_nat.diff_0 list.pred_set takeWhile_eq_all_conv takeWhile_eq_take take_all_iff
        order_refl)
  then show ?thesis
    by (auto simp: queue_only_receive_def queue_only_apply_filters_def collect_subscriptions_take Let_def
        split: option.splits)
qed

end
