(* ===== verification/Can_Redundant.thy ===== *)
theory Can_Redundant
  imports Can_Queue
begin

text \<open>
  Redundant transports (canadensis\_can: \<^verbatim>\<open>redundant/\<close>): the \<^verbatim>\<open>Deduplicator\<close> of incoming frames
  and the \<^verbatim>\<open>RedundantDriver\<close> that sends every frame to two drivers.
\<close>

section \<open>Deduplicator\<close>

datatype 'i TransportState = TransportState (last_frame_time: "'i option")

definition transport_state_default :: "'i TransportState" where
  "transport_state_default = TransportState None"

record ('i, 'd) Deduplicator =
  dd_states :: "'i TransportState list"
  dd_active_index :: nat
  dd_timeout :: 'd

text \<open>\<open>None\<close> is the panic of \<^verbatim>\<open>assert_ne!\<close> and of an index out of bounds.\<close>

definition deduplicator_new :: "nat \<Rightarrow> 'd \<Rightarrow> ('i, 'd) Deduplicator option" where
  "deduplicator_new N timeout =
     (if N = 0 then None
      else Some \<lparr>dd_states = replicate N transport_state_default, dd_active_index = 0, dd_timeout = timeout\<rparr>)"

definition active_transport_timed_out ::
  "('i \<Rightarrow> 'i \<Rightarrow> 'd::linorder) \<Rightarrow> 'i \<Rightarrow> ('i, 'd) Deduplicator \<Rightarrow> bool option" where
  "active_transport_timed_out since now self =
     (if dd_active_index self < length (dd_states self) then
        Some (case last_frame_time (dd_states self ! dd_active_index self) of
            Some active_last_frame \<Rightarrow> since now active_last_frame > dd_timeout self
          | None \<Rightarrow> True)
      else None)"

definition deduplicator_accept ::
  "('i \<Rightarrow> 'i \<Rightarrow> 'd::linorder) \<Rightarrow> 'i Frame \<Rightarrow> nat \<Rightarrow> ('i, 'd) Deduplicator \<Rightarrow> (bool \<times> ('i, 'd) Deduplicator) option" where
  "deduplicator_accept since frame index self =
     (if index < length (dd_states self) then
        do {
          let self = self\<lparr>dd_states := (dd_states self)[index := TransportState (Some (fr_timestamp frame))]\<rparr>;
          timed_out \<leftarrow> active_transport_timed_out since (fr_timestamp frame) self;
          let self = (if timed_out then self\<lparr>dd_active_index := index\<rparr> else self);
          Some (index = dd_active_index self, self)
        }
      else None)"

section \<open>Redundant driver\<close>

datatype ('e0, 'e1) RedundantError = Driver0 'e0 | Driver1 'e1 | Both 'e0 'e1

record ('d0, 'd1) RedundantDriver =
  rd_driver0 :: 'd0
  rd_driver1 :: 'd1
  rd_status0 :: "out_of_memory_error + unit"
  rd_status1 :: "out_of_memory_error + unit"

definition redundant_driver_new :: "'d0 \<Rightarrow> 'd1 \<Rightarrow> ('d0, 'd1) RedundantDriver" where
  "redundant_driver_new driver0 driver1 =
     \<lparr>rd_driver0 = driver0, rd_driver1 = driver1, rd_status0 = Inr (), rd_status1 = Inr ()\<rparr>"

text \<open>The last four arms of the two matches on the results of both drivers.\<close>

fun redundant_error :: "'e0 nb_error \<Rightarrow> 'e1 nb_error \<Rightarrow> ('e0, 'e1) RedundantError nb_error" where
  "redundant_error WouldBlock WouldBlock = WouldBlock"
| "redundant_error (Other e0) (Other e1) = Other (Both e0 e1)"
| "redundant_error (Other e) WouldBlock = Other (Driver0 e)"
| "redundant_error WouldBlock (Other e) = Other (Driver1 e)"

definition redundant_try_reserve ::
  "('d0, 'i, 'e0) transmit_driver \<Rightarrow> ('d1, 'i, 'e1) transmit_driver \<Rightarrow> nat \<Rightarrow> ('d0, 'd1) RedundantDriver
   \<Rightarrow> (out_of_memory_error + unit) \<times> ('d0, 'd1) RedundantDriver" where
  "redundant_try_reserve drv0 drv1 additional self =
     (let (status0, driver0) = td_try_reserve drv0 additional (rd_driver0 self);
          (status1, driver1) = td_try_reserve drv1 additional (rd_driver1 self);
          self = \<lparr>rd_driver0 = driver0, rd_driver1 = driver1, rd_status0 = status0, rd_status1 = status1\<rparr> in
      (case rd_status0 self of Inr _ \<Rightarrow> Inr () | Inl _ \<Rightarrow> rd_status1 self, self))"

definition redundant_transmit_frame ::
  "('d0, 'i, 'e0) transmit_driver \<Rightarrow> ('d1, 'i, 'e1) transmit_driver \<Rightarrow> 'i Frame \<Rightarrow> 'i \<Rightarrow> ('d0, 'd1) RedundantDriver
   \<Rightarrow> (('e0, 'e1) RedundantError nb_error + 'i Frame option) \<times> ('d0, 'd1) RedundantDriver" where
  "redundant_transmit_frame drv0 drv1 frame now self =
     (let (push_status_0, driver0) =
            (if rd_status0 self = Inr () then td_transmit drv0 frame now (rd_driver0 self)
             else (Inl WouldBlock, rd_driver0 self));
          (push_status_1, driver1) =
            (if rd_status1 self = Inr () then td_transmit drv1 frame now (rd_driver1 self)
             else (Inl WouldBlock, rd_driver1 self)) in
      (case (push_status_0, push_status_1) of
         (Inr returned0, Inr returned1) \<Rightarrow> Inr returned0
       | (Inr returned, _) \<Rightarrow> Inr returned
       | (_, Inr returned) \<Rightarrow> Inr returned
       | (Inl e0, Inl e1) \<Rightarrow> Inl (redundant_error e0 e1),
       self\<lparr>rd_driver0 := driver0, rd_driver1 := driver1\<rparr>))"

definition redundant_flush ::
  "('d0, 'i, 'e0) transmit_driver \<Rightarrow> ('d1, 'i, 'e1) transmit_driver \<Rightarrow> 'i \<Rightarrow> ('d0, 'd1) RedundantDriver
   \<Rightarrow> ((('e0, 'e1) RedundantError nb_error + unit) \<times> ('d0, 'd1) RedundantDriver) option" where
  "redundant_flush drv0 drv1 now self =
     do {
       (flush_status_0, driver0) \<leftarrow> td_flush drv0 now (rd_driver0 self);
       (flush_status_1, driver1) \<leftarrow> td_flush drv1 now (rd_driver1 self);
       Some (case (flush_status_0, flush_status_1) of
           (Inr _, _) \<Rightarrow> Inr ()
         | (_, Inr _) \<Rightarrow> Inr ()
         | (Inl e0, Inl e1) \<Rightarrow> Inl (redundant_error e0 e1),
         self\<lparr>rd_driver0 := driver0, rd_driver1 := driver1\<rparr>)
     }"

text \<open>\<^verbatim>\<open>impl TransmitDriver for RedundantDriver\<close>.\<close>

definition redundant_transmit ::
  "('d0, 'i, 'e0) transmit_driver \<Rightarrow> ('d1, 'i, 'e1) transmit_driver
   \<Rightarrow> (('d0, 'd1) RedundantDriver, 'i, ('e0, 'e1) RedundantError) transmit_driver" where
  "redundant_transmit drv0 drv1 =
     \<lparr>td_try_reserve = redundant_try_reserve drv0 drv1, td_transmit = redundant_transmit_frame drv0 drv1,
      td_flush = redundant_flush drv0 drv1\<rparr>"

section \<open>Deduplication as a function of the history\<close>

fun dedup_run ::
  "('i \<Rightarrow> 'i \<Rightarrow> 'd::linorder) \<Rightarrow> ('i Frame \<times> nat) list \<Rightarrow> ('i, 'd) Deduplicator \<Rightarrow> (bool list \<times> ('i, 'd) Deduplicator) option" where
  "dedup_run since [] dd = Some ([], dd)"
| "dedup_run since ((frame, index) # events) dd =
     do {
       (ok, dd) \<leftarrow> deduplicator_accept since frame index dd;
       (oks, dd) \<leftarrow> dedup_run since events dd;
       Some (ok # oks, dd)
     }"

text \<open>
  What the documentation describes: a frame is accepted when no frame was accepted before,
  when it comes from the transport of the last accepted frame, or when the last frame on
  that transport (accepted or not) is more than the timeout ago. \<open>hist\<close> holds the events so
  far, the latest first.
\<close>

definition dedup_ok ::
  "('i \<Rightarrow> 'i \<Rightarrow> 'd::linorder) \<Rightarrow> 'd \<Rightarrow> nat option \<Rightarrow> (nat \<times> 'i) list \<Rightarrow> 'i Frame \<Rightarrow> nat \<Rightarrow> bool" where
  "dedup_ok since timeout active hist frame index \<longleftrightarrow> (case active of
      None \<Rightarrow> True
    | Some a \<Rightarrow> index = a
        \<or> (case map_of hist a of None \<Rightarrow> True | Some t \<Rightarrow> timeout < since (fr_timestamp frame) t))"

fun dedup_spec ::
  "('i \<Rightarrow> 'i \<Rightarrow> 'd::linorder) \<Rightarrow> 'd \<Rightarrow> nat option \<Rightarrow> (nat \<times> 'i) list \<Rightarrow> ('i Frame \<times> nat) list \<Rightarrow> bool list" where
  "dedup_spec since timeout active hist [] = []"
| "dedup_spec since timeout active hist ((frame, index) # events) =
     (let ok = dedup_ok since timeout active hist frame index in
      ok # dedup_spec since timeout (if ok then Some index else active) ((index, fr_timestamp frame) # hist) events)"

text \<open>The state a history leads to.\<close>

definition dedup_rel :: "nat option \<Rightarrow> (nat \<times> 'i) list \<Rightarrow> ('i, 'd) Deduplicator \<Rightarrow> bool" where
  "dedup_rel active hist dd \<longleftrightarrow>
     dd_active_index dd < length (dd_states dd)
     \<and> (\<forall>i < length (dd_states dd). last_frame_time (dd_states dd ! i) = map_of hist i)
     \<and> (case active of None \<Rightarrow> hist = [] | Some a \<Rightarrow> dd_active_index dd = a)"

lemma accept_history:
  assumes rel: "dedup_rel active hist dd" and "index < length (dd_states dd)"
    and "since (fr_timestamp frame) (fr_timestamp frame) \<le> dd_timeout dd"
  defines "ok \<equiv> dedup_ok since (dd_timeout dd) active hist frame index"
  obtains dd' where "deduplicator_accept since frame index dd = Some (ok, dd')"
    and "dedup_rel (if ok then Some index else active) ((index, fr_timestamp frame) # hist) dd'"
    and "length (dd_states dd') = length (dd_states dd)" and "dd_timeout dd' = dd_timeout dd"
proof -
  let ?dd = "dd\<lparr>dd_states := (dd_states dd)[index := TransportState (Some (fr_timestamp frame))]\<rparr>"
  let ?a = "dd_active_index dd"
  have a: "?a < length (dd_states dd)" using rel by (simp add: dedup_rel_def)
  define timed_out where "timed_out \<longleftrightarrow> (if index = ?a then False
      else case map_of hist ?a of None \<Rightarrow> True | Some t \<Rightarrow> dd_timeout dd < since (fr_timestamp frame) t)"
  have t: "active_transport_timed_out since (fr_timestamp frame) ?dd = Some timed_out"
    using a assms(1-3)
    by (auto simp: active_transport_timed_out_def timed_out_def dedup_rel_def nth_list_update split: option.splits)
  define dd' where "dd' = (if timed_out then ?dd\<lparr>dd_active_index := index\<rparr> else ?dd)"
  have ok: "(index = dd_active_index dd') = ok"
    using rel by (auto simp: dd'_def ok_def dedup_ok_def timed_out_def dedup_rel_def split: option.splits)
  have "deduplicator_accept since frame index dd = Some (index = dd_active_index dd', dd')"
    using assms(2) t by (simp add: deduplicator_accept_def dd'_def Let_def)
  moreover have "dedup_rel (if ok then Some index else active) ((index, fr_timestamp frame) # hist) dd'"
    using rel assms(2) ok by (auto simp: dedup_rel_def dd'_def nth_list_update ok_def dedup_ok_def split: option.splits if_splits)
  ultimately show thesis using ok by (intro that [of dd']) (simp_all add: dd'_def)
qed

lemma dedup_run_history:
  assumes "dedup_rel active hist dd" and "list_all (\<lambda>(_, i). i < length (dd_states dd)) events"
    and "\<And>t. since t t \<le> dd_timeout dd"
  shows "\<exists>dd'. dedup_run since events dd = Some (dedup_spec since (dd_timeout dd) active hist events, dd')"
  using assms
proof (induction events arbitrary: active hist dd)
  case (Cons e events)
  obtain frame index where e: "e = (frame, index)" by (cases e)
  from Cons.prems e have "index < length (dd_states dd)" by simp
  let ?ok = "dedup_ok since (dd_timeout dd) active hist frame index"
  obtain dd1 where dd1: "deduplicator_accept since frame index dd = Some (?ok, dd1)"
      "dedup_rel (if ?ok then Some index else active) ((index, fr_timestamp frame) # hist) dd1"
      "length (dd_states dd1) = length (dd_states dd)" "dd_timeout dd1 = dd_timeout dd"
    by (rule accept_history [OF Cons.prems(1) \<open>index < length (dd_states dd)\<close> Cons.prems(3)])
  then obtain dd2 where "dedup_run since events dd1 = Some (dedup_spec since (dd_timeout dd)
      (if ?ok then Some index else active) ((index, fr_timestamp frame) # hist) events, dd2)"
    using Cons.IH [OF dd1(2)] Cons.prems(2, 3) by auto
  with dd1(1) show ?case unfolding e by (simp add: Let_def)
qed simp

section \<open>Transfers on both drivers\<close>

text \<open>Frames that each driver with a good reservation takes reach all of these drivers.\<close>

lemma transmit_all_redundant:
  assumes "rd_status0 d = Inr () \<or> rd_status1 d = Inr ()"
    and "if rd_status0 d = Inr () then transmit_all drv0 now fs (rd_driver0 d) = (Inr (), d0') else d0' = rd_driver0 d"
    and "if rd_status1 d = Inr () then transmit_all drv1 now fs (rd_driver1 d) = (Inr (), d1') else d1' = rd_driver1 d"
  shows "transmit_all (redundant_transmit drv0 drv1) now fs d = (Inr (), d\<lparr>rd_driver0 := d0', rd_driver1 := d1'\<rparr>)"
  using assms
proof (induction fs arbitrary: d)
  case (Cons f fs)
  obtain r0 e0 where t0: "(if rd_status0 d = Inr () then td_transmit drv0 f now (rd_driver0 d)
      else (Inl WouldBlock, rd_driver0 d)) = (r0, e0)" by fastforce
  obtain r1 e1 where t1: "(if rd_status1 d = Inr () then td_transmit drv1 f now (rd_driver1 d)
      else (Inl WouldBlock, rd_driver1 d)) = (r1, e1)" by fastforce
  let ?d = "d\<lparr>rd_driver0 := e0, rd_driver1 := e1\<rparr>"
  have ok0: "if rd_status0 d = Inr () then \<not> isl r0 \<and> transmit_all drv0 now fs e0 = (Inr (), d0') else d0' = e0"
    using Cons.prems(2) t0 by (auto split: if_splits prod.splits sum.splits)
  have ok1: "if rd_status1 d = Inr () then \<not> isl r1 \<and> transmit_all drv1 now fs e1 = (Inr (), d1') else d1' = e1"
    using Cons.prems(3) t1 by (auto split: if_splits prod.splits sum.splits)
  have "transmit_all (redundant_transmit drv0 drv1) now fs ?d = (Inr (), ?d\<lparr>rd_driver0 := d0', rd_driver1 := d1'\<rparr>)"
    using Cons.prems(1) ok0 ok1 by (intro Cons.IH) (auto split: if_splits)
  moreover have "\<exists>x. td_transmit (redundant_transmit drv0 drv1) f now d = (Inr x, ?d)"
    using Cons.prems(1) ok0 ok1 t0 t1
    by (cases r0; cases r1) (auto simp: redundant_transmit_def redundant_transmit_frame_def split: if_splits)
  ultimately show ?case by auto
qed (auto split: if_splits)

definition dedup_events :: "(nat Frame \<times> nat) list" where
  "dedup_events = map (\<lambda>(t, i). (mk_frame t (CanId 0) [], i))
     [(0, 1), (3, 0), (5, 1), (900, 0), (1005, 0), (1006, 0), (1006, 1)]"

section \<open>Properties\<close>

text \<open>
  C22: the deduplicator never panics on transports below \<^verbatim>\<open>N\<close>, and which frames it accepts
  is what its documentation says of the history of received frames: the first frame, frames
  from the transport of the last accepted frame, and frames that arrive when the last frame
  of that transport is more than the timeout ago.
\<close>

theorem deduplicator_follows_history:
  assumes "0 < N" and "list_all (\<lambda>(_, i). i < N) events" and "\<And>t. since t t \<le> timeout"
  shows "\<exists>dd dd'. deduplicator_new N timeout = Some dd
    \<and> dedup_run since events dd = Some (dedup_spec since timeout None [] events, dd')"
proof -
  define dd :: "('a, 'b) Deduplicator" where
    "dd = \<lparr>dd_states = replicate N transport_state_default, dd_active_index = 0, dd_timeout = timeout\<rparr>"
  have "dedup_rel None [] dd"
    using assms(1) by (simp add: dedup_rel_def dd_def transport_state_default_def)
  from dedup_run_history [OF this, of events since] assms
  show ?thesis by (auto simp: deduplicator_new_def dd_def)
qed

theorem deduplicator_follows_history_witness:
  "\<exists>dd dd'. deduplicator_new 2 (1000 :: nat) = Some dd
    \<and> dedup_run (-) dedup_events dd = Some ([True, False, True, False, False, True, False], dd')"
proof -
  have "dedup_spec (-) 1000 None [] dedup_events = [True, False, True, False, False, True, False]"
    by (simp add: dedup_events_def dedup_ok_def mk_frame_def)
  then show ?thesis
    using deduplicator_follows_history [of 2 dedup_events "(-)" "1000 :: nat"]
    by (simp add: dedup_events_def)
qed

text \<open>
  A transfer pushed through a \<^verbatim>\<open>RedundantDriver\<close> over two queues is put, as a whole and in
  order, into every queue that has room for all its frames, and does not touch a queue
  that has not; the push succeeds exactly when at least one queue has room.
\<close>

lemma redundant_transfer_reaches_queues:
  fixes drv0 :: "('d0, 'i, 'e0) transmit_driver" and drv1 :: "('d1, 'i, 'e1) transmit_driver"
    and dflt0 dflt1 :: 'i and compare0 compare1 :: "'i \<Rightarrow> 'i \<Rightarrow> ordering"
  assumes "hvec_law 64 hv" and "can_header_wf (tr_header tr)" and "tx_mtu tx = mtu_as_bytes mtu"
    and "aq_inv q0" and "aq_inv q1"
  defines "fs \<equiv> transfer_frames (tx_mtu tx) (tr_header tr) (tr_payload tr)"
    and "red \<equiv> redundant_transmit (single_queue_transmit (array_queue_ops dflt0) drv0 compare0)
                 (single_queue_transmit (array_queue_ops dflt1) drv1 compare1)"
  shows "\<exists>r tx' d' q0' q1'.
    transmitter_push hv red tx tr now
      (redundant_driver_new (single_queue_driver_new q0 d0) (single_queue_driver_new q1 d1)) = Some (r, tx', d')
    \<and> rd_driver0 d' = single_queue_driver_new q0' d0 \<and> rd_driver1 d' = single_queue_driver_new q1' d1
    \<and> r = (if length fs \<le> aq_room q0 \<or> length fs \<le> aq_room q1 then Inr () else Inl (Other (Memory OutOfMemoryError)))
    \<and> (if length fs \<le> aq_room q0 then aq_inv q0' \<and> aq_frames q0' = sort_key fr_id (aq_frames q0 @ fs) else q0' = q0)
    \<and> (if length fs \<le> aq_room q1 then aq_inv q1' \<and> aq_frames q1' = sort_key fr_id (aq_frames q1 @ fs) else q1' = q1)"
proof -
  let ?s = "\<lambda>q. fst (aq_try_reserve (length fs) q)"
  let ?T0 = "single_queue_transmit (array_queue_ops dflt0) drv0 compare0"
  let ?T1 = "single_queue_transmit (array_queue_ops dflt1) drv1 compare1"
  define rd where "rd = \<lparr>rd_driver0 = single_queue_driver_new q0 d0, rd_driver1 = single_queue_driver_new q1 d1,
    rd_status0 = ?s q0, rd_status1 = ?s q1\<rparr>"
  have s: "?s q = Inr () \<longleftrightarrow> length fs \<le> aq_room q" for q :: "'i ArrayQueue"
    by (simp add: aq_try_reserve_def aq_room_def)
  obtain q0' where q0': "if ?s q0 = Inr () then transmit_all ?T0 now fs (single_queue_driver_new q0 d0)
        = (Inr (), single_queue_driver_new q0' d0) \<and> aq_inv q0' \<and> aq_frames q0' = sort_key fr_id (aq_frames q0 @ fs)
      else q0' = q0"
    using array_queue.push_all [OF assms(4), of fs dflt0 drv0 compare0 now d0]
    by (cases "?s q0 = Inr ()") (auto simp: s single_queue_driver_new_def)
  obtain q1' where q1': "if ?s q1 = Inr () then transmit_all ?T1 now fs (single_queue_driver_new q1 d1)
        = (Inr (), single_queue_driver_new q1' d1) \<and> aq_inv q1' \<and> aq_frames q1' = sort_key fr_id (aq_frames q1 @ fs)
      else q1' = q1"
    using array_queue.push_all [OF assms(5), of fs dflt1 drv1 compare1 now d1]
    by (cases "?s q1 = Inr ()") (auto simp: s single_queue_driver_new_def)
  have reserve: "td_try_reserve red (length fs)
      (redundant_driver_new (single_queue_driver_new q0 d0) (single_queue_driver_new q1 d1))
    = (if ?s q0 = Inr () \<or> ?s q1 = Inr () then Inr () else Inl OutOfMemoryError, rd)"
    by (auto simp: red_def redundant_transmit_def redundant_try_reserve_def redundant_driver_new_def rd_def
        single_queue_transmit_def single_queue_driver_new_def aq_try_reserve_def Let_def)
  have all: "transmit_all red now fs rd = (Inr (), rd\<lparr>rd_driver0 := single_queue_driver_new q0' d0,
      rd_driver1 := single_queue_driver_new q1' d1\<rparr>)" if "?s q0 = Inr () \<or> ?s q1 = Inr ()"
    unfolding red_def using that q0' q1' by (intro transmit_all_redundant) (simp_all add: rd_def)
  have "\<exists>r tx' d'.
    transmitter_push hv red tx tr now
      (redundant_driver_new (single_queue_driver_new q0 d0) (single_queue_driver_new q1 d1)) = Some (r, tx', d')
    \<and> rd_driver0 d' = single_queue_driver_new q0' d0 \<and> rd_driver1 d' = single_queue_driver_new q1' d1
    \<and> r = (if ?s q0 = Inr () \<or> ?s q1 = Inr () then Inr () else Inl (Other (Memory OutOfMemoryError)))"
    unfolding transmitter_push_frames [OF assms(1-3), folded fs_def] reserve
    using all q0' q1' by (cases "?s q0 = Inr () \<or> ?s q1 = Inr ()") (auto simp: rd_def)
  with q0' q1' show ?thesis
    unfolding s by (elim ex_forward) (intro exI [of _ q0'] exI [of _ q1'], simp split: if_splits)
qed

end
