(* ===== verification/Can_Filter.thy ===== *)
theory Can_Filter
  imports Can_Id Core_Subscription
begin

text \<open>
  Acceptance filters: the crate canadensis\_filter\_config (\<^verbatim>\<open>Filter\<close>, \<^verbatim>\<open>merge\<close>, \<^verbatim>\<open>optimize\<close>) and the
  functions of canadensis\_can's \<^verbatim>\<open>driver.rs\<close> that make filters for subscriptions. The main
  result is that optimised filters lose no frame of a subscription.
\<close>

section \<open>Filters\<close>

definition EXTENDED_ID_MASK :: u32 where
  "EXTENDED_ID_MASK = 0x1fffffff"

definition VALID_BIT :: u32 where
  "VALID_BIT = 0x80000000"

record Filter =
  fl_mask :: u32
  fl_id_and_valid :: u32

definition filter_new :: "u32 \<Rightarrow> u32 \<Rightarrow> Filter" where
  "filter_new msk i = \<lparr>fl_mask = msk AND EXTENDED_ID_MASK, fl_id_and_valid = (i AND EXTENDED_ID_MASK) OR VALID_BIT\<rparr>"

definition exact_match :: "u32 \<Rightarrow> Filter" where
  "exact_match i = filter_new EXTENDED_ID_MASK i"

definition filter_id :: "Filter \<Rightarrow> u32" where
  "filter_id f = fl_id_and_valid f AND EXTENDED_ID_MASK"

definition is_valid :: "Filter \<Rightarrow> bool" where
  "is_valid f \<longleftrightarrow> fl_id_and_valid f AND VALID_BIT \<noteq> 0"

definition invalidate :: "Filter \<Rightarrow> Filter" where
  "invalidate f = f\<lparr>fl_mask := 0, fl_id_and_valid := 0\<rparr>"

text \<open>\<^verbatim>\<open>u32::count_ones\<close>.\<close>

definition filter_rank :: "Filter \<Rightarrow> nat" where
  "filter_rank f = length (filter (bit (fl_mask f)) [0..<32])"

definition accepts :: "Filter \<Rightarrow> u32 \<Rightarrow> bool" where
  "accepts f i \<longleftrightarrow> fl_mask f AND i = fl_mask f AND filter_id f"

definition merge_masks :: "Filter \<Rightarrow> Filter \<Rightarrow> u32" where
  "merge_masks a b = fl_mask a AND fl_mask b AND NOT (filter_id a XOR filter_id b)"

definition merge_filter :: "Filter \<Rightarrow> Filter \<Rightarrow> Filter" where
  "merge_filter a b = (let msk = merge_masks a b in filter_new msk (filter_id a AND msk))"

section \<open>Merging down to a number of filters\<close>

text \<open>The body of the two nested loops that look for the best pair.\<close>

definition consider_pair :: "Filter list \<Rightarrow> nat \<times> nat \<Rightarrow> nat \<times> nat \<times> nat \<Rightarrow> nat \<times> nat \<times> nat" where
  "consider_pair fs ij best =
     (case ij of (i, j) \<Rightarrow>
      if is_valid (fs ! i) \<and> is_valid (fs ! j) then
        (let rank = filter_rank (merge_filter (fs ! i) (fs ! j)) in if rank \<ge> fst best then (rank, i, j) else best)
      else best)"

definition best_pair :: "Filter list \<Rightarrow> nat \<times> nat" where
  "best_pair fs =
     snd (fold (\<lambda>i best. fold (\<lambda>j best. consider_pair fs (i, j) best) [i + 1..<length fs] best)
       [0..<length fs] (0, 0, 0))"

definition count_valid :: "Filter list \<Rightarrow> nat" where
  "count_valid fs = length (filter is_valid fs)"

text \<open>
  The loop of \<^verbatim>\<open>merge_filters\<close>. \<open>dbg\<close> tells whether \<^verbatim>\<open>debug_assert_eq!\<close> is compiled in; \<open>None\<close> is
  its panic and that of an index out of bounds.
\<close>

fun merge_loop :: "bool \<Rightarrow> nat \<Rightarrow> nat \<Rightarrow> Filter list \<Rightarrow> Filter list option" where
  "merge_loop dbg max_filters valid_filters fs =
     (if valid_filters > max_filters then
        (let (i, j) = best_pair fs in
         if i < length fs \<and> j < length fs then
           (let fs = fs[i := merge_filter (fs ! i) (fs ! j)];
                fs = fs[j := invalidate (fs ! j)] in
            if dbg \<and> valid_filters - 1 \<noteq> count_valid fs then None
            else merge_loop dbg max_filters (valid_filters - 1) fs)
         else None)
      else Some fs)"

declare merge_loop.simps [simp del]

definition merge_filters :: "bool \<Rightarrow> Filter list \<Rightarrow> nat \<Rightarrow> Filter list option" where
  "merge_filters dbg fs max_filters =
     (if max_filters = 0 then None else merge_loop dbg max_filters (length fs) fs)"

fun move_up :: "nat \<Rightarrow> Filter list \<Rightarrow> Filter list" where
  "move_up 0 fs = fs"
| "move_up (Suc j) fs =
     (if \<not> is_valid (fs ! j) \<and> is_valid (fs ! Suc j)
      then move_up j (fs[j := fs ! Suc j, Suc j := fs ! j]) else fs)"

definition compact :: "Filter list \<Rightarrow> Filter list" where
  "compact fs = fold move_up [1..<length fs] fs"

definition optimize :: "bool \<Rightarrow> Filter list \<Rightarrow> nat \<Rightarrow> Filter list option" where
  "optimize dbg ideal_filters max_filters =
     (if max_filters = 0 then Some []
      else do {
        working_filters \<leftarrow> merge_filters dbg ideal_filters max_filters;
        if dbg \<and> \<not> count_valid working_filters \<le> max_filters then None
        else do {
          let working_filters = compact working_filters;
          let first_invalid = (case position (\<lambda>f. \<not> is_valid f) working_filters of
              Some i \<Rightarrow> i | None \<Rightarrow> length working_filters);
          let valid_filters = take first_invalid working_filters;
          let invalid_filters = drop first_invalid working_filters;
          if dbg \<and> \<not> (list_all is_valid valid_filters \<and> \<not> list_ex is_valid invalid_filters) then None
          else Some valid_filters
        }
      })"

section \<open>Filters for subscriptions\<close>

definition subject_filter :: "SubjectId \<Rightarrow> Filter" where
  "subject_filter subject =
     filter_new 0b00010100111111111111110000000 (0b00000011000000000000000000000 OR push_bit 8 (ucast (subject_bits subject)))"

definition request_filter :: "ServiceId \<Rightarrow> CanNodeId \<Rightarrow> Filter" where
  "request_filter service destination =
     (let dynamic_id_bits = push_bit 14 (ucast (service_bits service)) OR push_bit 7 (ucast (node_bits destination)) in
      filter_new 0b00011111111111111111110000000 (0b00011000000000000000000000000 OR dynamic_id_bits))"

definition response_filter :: "ServiceId \<Rightarrow> CanNodeId \<Rightarrow> Filter" where
  "response_filter service destination =
     (let dynamic_id_bits = push_bit 14 (ucast (service_bits service)) OR push_bit 7 (ucast (node_bits destination)) in
      filter_new 0b00011111111111111111110000000 (0b00010000000000000000000000000 OR dynamic_id_bits))"

definition make_filter :: "Subscription \<Rightarrow> CanNodeId option \<Rightarrow> Filter option" where
  "make_filter subscription local_node =
     (case subscription of
        SubMessage subject \<Rightarrow> Some (subject_filter subject)
      | SubRequest service \<Rightarrow> map_option (request_filter service) local_node
      | SubResponse service \<Rightarrow> map_option (response_filter service) local_node)"

text \<open>
  The filters that \<^verbatim>\<open>optimize_filters\<close> hands to its callback; \<open>mem n\<close> tells whether the n-th
  \<^verbatim>\<open>try_push\<close> succeeds.
\<close>

fun collect_filters ::
  "(nat \<Rightarrow> bool) \<Rightarrow> nat \<Rightarrow> CanNodeId option \<Rightarrow> Subscription list \<Rightarrow> Filter list \<Rightarrow> out_of_memory_error + Filter list" where
  "collect_filters mem n local_node [] filters = Inr filters"
| "collect_filters mem n local_node (s # subscriptions) filters =
     (case make_filter s local_node of
        None \<Rightarrow> collect_filters mem n local_node subscriptions filters
      | Some f \<Rightarrow>
          (case try_push (mem n) filters f of
             (Inr _, filters) \<Rightarrow> collect_filters mem (Suc n) local_node subscriptions filters
           | (Inl oom, _) \<Rightarrow> Inl oom))"

definition optimize_filters ::
  "bool \<Rightarrow> (nat \<Rightarrow> bool) \<Rightarrow> CanNodeId option \<Rightarrow> Subscription list \<Rightarrow> nat \<Rightarrow> (out_of_memory_error + Filter list) option" where
  "optimize_filters dbg mem local_node subscriptions max_filters =
     (case collect_filters mem 0 local_node subscriptions [] of
        Inl oom \<Rightarrow> Some (Inl oom)
      | Inr filters \<Rightarrow> map_option Inr (optimize dbg filters max_filters))"

section \<open>What filters accept\<close>

lemma EXTENDED_ID_MASK_mask: "EXTENDED_ID_MASK = mask 29"
  by (simp add: EXTENDED_ID_MASK_def mask_eq_exp_minus_1)

lemma VALID_BIT_bit: "bit VALID_BIT n \<longleftrightarrow> n = 31"
proof -
  have v: "VALID_BIT = push_bit 31 1" by (simp add: VALID_BIT_def)
  show ?thesis unfolding v by (simp only: bit_simps) auto
qed

lemma is_valid_iff: "is_valid f \<longleftrightarrow> bit (fl_id_and_valid f) 31"
  by (auto simp: is_valid_def bit_eq_iff [of _ "0 :: u32"] bit_and_iff VALID_BIT_bit)

lemma filter_new_valid [simp]: "is_valid (filter_new m i)"
  by (simp add: is_valid_iff filter_new_def bit_simps VALID_BIT_bit)

lemma invalidate_valid [simp]: "\<not> is_valid (invalidate f)"
  by (simp add: is_valid_iff invalidate_def)

lemma merge_valid [simp]: "is_valid (merge_filter a b)"
  by (simp add: merge_filter_def Let_def)

lemma filter_new_bits:
  "bit (fl_mask (filter_new m i)) n \<longleftrightarrow> bit m n \<and> n < 29"
  "bit (filter_id (filter_new m i)) n \<longleftrightarrow> bit i n \<and> n < 29"
  by (auto simp: filter_new_def filter_id_def EXTENDED_ID_MASK_mask bit_simps VALID_BIT_bit)

lemma accepts_iff: "accepts f i \<longleftrightarrow> (\<forall>n. bit (fl_mask f) n \<longrightarrow> bit i n = bit (filter_id f) n)"
  using bit_imp_le_length [of "fl_mask f"] by (auto simp: accepts_def bit_eq_iff bit_and_iff)

lemma merge_bits:
  "bit (fl_mask (merge_filter a b)) n \<longleftrightarrow>
     n < 29 \<and> bit (fl_mask a) n \<and> bit (fl_mask b) n \<and> bit (filter_id a) n = bit (filter_id b) n"
  "bit (filter_id (merge_filter a b)) n \<longleftrightarrow>
     bit (filter_id a) n \<and> n < 29 \<and> bit (fl_mask a) n \<and> bit (fl_mask b) n \<and> bit (filter_id b) n"
  by (auto simp: merge_filter_def Let_def filter_new_bits merge_masks_def bit_simps)

lemma merge_accepts: "accepts a i \<or> accepts b i \<Longrightarrow> accepts (merge_filter a b) i"
  by (auto simp: accepts_iff merge_bits)

definition accepts_any :: "Filter list \<Rightarrow> u32 \<Rightarrow> bool" where
  "accepts_any fs i \<longleftrightarrow> (\<exists>f \<in> set fs. is_valid f \<and> accepts f i)"

section \<open>The best pair\<close>

definition valid_pair :: "Filter list \<Rightarrow> nat \<times> nat \<Rightarrow> bool" where
  "valid_pair fs p \<longleftrightarrow> fst p < snd p \<and> snd p < length fs \<and> is_valid (fs ! fst p) \<and> is_valid (fs ! snd p)"

definition pair_rank :: "Filter list \<Rightarrow> nat \<times> nat \<Rightarrow> nat" where
  "pair_rank fs p = filter_rank (merge_filter (fs ! fst p) (fs ! snd p))"

lemma fold_concat_lists: "fold f (concat xss) s = fold (fold f) xss s"
  by (induction xss arbitrary: s) simp_all

lemma best_pair_fold:
  "best_pair fs = snd (fold (consider_pair fs)
     (concat (map (\<lambda>i. map (Pair i) [i + 1..<length fs]) [0..<length fs])) (0, 0, 0))"
  unfolding best_pair_def by (simp only: fold_concat_lists fold_map comp_def)

lemma fold_consider_pair:
  assumes "\<And>p. p \<in> set ps \<Longrightarrow> fst p < snd p \<and> snd p < length fs"
    and "fst best = 0 \<or> valid_pair fs (snd best) \<and> fst best = pair_rank fs (snd best)"
    and "(\<exists>p \<in> set ps. valid_pair fs p) \<or> valid_pair fs (snd best) \<and> fst best = pair_rank fs (snd best)"
  shows "valid_pair fs (snd (fold (consider_pair fs) ps best))
    \<and> fst (fold (consider_pair fs) ps best) = pair_rank fs (snd (fold (consider_pair fs) ps best))
    \<and> fst best \<le> fst (fold (consider_pair fs) ps best)
    \<and> (\<forall>p \<in> set ps. valid_pair fs p \<longrightarrow> pair_rank fs p \<le> fst (fold (consider_pair fs) ps best))"
  using assms
proof (induction ps arbitrary: best)
  case (Cons p ps)
  have p: "fst p < snd p" "snd p < length fs" using Cons.prems(1) [of p] by auto
  let ?b = "consider_pair fs p best"
  have step: "?b = (if valid_pair fs p \<and> fst best \<le> pair_rank fs p then (pair_rank fs p, p) else best)"
    using p by (cases p) (auto simp: consider_pair_def valid_pair_def pair_rank_def Let_def)
  have "(fst ?b = 0 \<or> valid_pair fs (snd ?b) \<and> fst ?b = pair_rank fs (snd ?b))
      \<and> ((\<exists>p \<in> set ps. valid_pair fs p) \<or> valid_pair fs (snd ?b) \<and> fst ?b = pair_rank fs (snd ?b))"
    using Cons.prems(2, 3) unfolding step by auto
  with Cons.IH [of ?b] Cons.prems(1)
  have IH: "valid_pair fs (snd (fold (consider_pair fs) ps ?b))
    \<and> fst (fold (consider_pair fs) ps ?b) = pair_rank fs (snd (fold (consider_pair fs) ps ?b))
    \<and> fst ?b \<le> fst (fold (consider_pair fs) ps ?b)
    \<and> (\<forall>p \<in> set ps. valid_pair fs p \<longrightarrow> pair_rank fs p \<le> fst (fold (consider_pair fs) ps ?b))"
    by auto
  moreover have "fst best \<le> fst ?b" "valid_pair fs p \<longrightarrow> pair_rank fs p \<le> fst ?b" unfolding step by auto
  ultimately show ?case by (auto intro: order_trans)
qed auto

lemma best_pair_max:
  assumes "valid_pair fs p"
  shows "valid_pair fs (best_pair fs)" and "pair_rank fs p \<le> pair_rank fs (best_pair fs)"
proof -
  define ps where "ps = concat (map (\<lambda>i. map (Pair i) [i + 1..<length fs]) [0..<length fs])"
  have in_ps: "q \<in> set ps \<longleftrightarrow> fst q < snd q \<and> snd q < length fs" for q
    by (cases q) (fastforce simp: ps_def)
  let ?r = "fold (consider_pair fs) ps (0, 0, 0)"
  have "\<exists>q \<in> set ps. valid_pair fs q"
    using assms by (intro bexI [of _ p]) (simp_all add: in_ps valid_pair_def)
  then have r: "valid_pair fs (snd ?r) \<and> fst ?r = pair_rank fs (snd ?r) \<and> fst (0 :: nat, 0 :: nat, 0 :: nat) \<le> fst ?r
      \<and> (\<forall>p \<in> set ps. valid_pair fs p \<longrightarrow> pair_rank fs p \<le> fst ?r)"
    by (intro fold_consider_pair) (simp_all add: in_ps)
  have b: "best_pair fs = snd ?r" unfolding best_pair_fold ps_def ..
  show "valid_pair fs (best_pair fs)" unfolding b using r by blast
  have "p \<in> set ps" using assms by (simp add: in_ps valid_pair_def)
  then show "pair_rank fs p \<le> pair_rank fs (best_pair fs)" unfolding b using r assms by metis
qed

section \<open>Merging keeps what is accepted\<close>

lemma count_valid_update:
  "j < length fs \<Longrightarrow> count_valid (fs[j := f]) + of_bool (is_valid (fs ! j)) = count_valid fs + of_bool (is_valid f)"
proof (induction fs arbitrary: j)
  case (Cons g fs)
  then show ?case using Cons.IH [of "j - 1"] by (cases j) (simp_all add: count_valid_def)
qed simp

lemma two_valid_pair:
  assumes "2 \<le> count_valid fs"
  obtains p where "valid_pair fs p"
proof -
  let ?V = "{i. i < length fs \<and> is_valid (fs ! i)}"
  have "\<not> card ?V \<le> Suc 0" using assms by (simp add: count_valid_def length_filter_conv_card)
  then obtain i j where "i \<in> ?V" "j \<in> ?V" "i \<noteq> j" by (auto simp: card_le_Suc0_iff_eq)
  then show thesis
    using that [of "(min i j, max i j)"] by (auto simp: valid_pair_def min_def max_def split: if_splits)
qed

lemma accepts_any_merge:
  assumes "valid_pair fs (i, j)"
  defines "gs \<equiv> fs[i := merge_filter (fs ! i) (fs ! j), j := invalidate (fs ! j)]"
  shows "accepts_any fs c \<Longrightarrow> accepts_any gs c"
proof -
  have ij: "i < j" "j < length fs" using assms by (auto simp: valid_pair_def)
  assume "accepts_any fs c"
  then obtain k where k: "k < length fs" "is_valid (fs ! k)" "accepts (fs ! k) c"
    by (auto simp: accepts_any_def in_set_conv_nth)
  define k' where "k' = (if k = j then i else k)"
  have "is_valid (gs ! k')" "accepts (gs ! k') c" "k' < length gs"
    using k ij merge_accepts [of "fs ! i" c "fs ! j"] by (auto simp: gs_def k'_def nth_list_update)
  then show "accepts_any gs c" by (auto simp: accepts_any_def intro: bexI [of _ "gs ! k'"])
qed

lemma merge_loop_correct:
  assumes "0 < max_filters" and "count_valid fs = valid_filters" and "valid_filters \<le> length fs"
  shows "\<exists>gs. merge_loop dbg max_filters valid_filters fs = Some gs \<and> length gs = length fs
    \<and> count_valid gs = min max_filters valid_filters
    \<and> (valid_filters \<le> max_filters \<longrightarrow> gs = fs)
    \<and> (\<forall>c. accepts_any fs c \<longrightarrow> accepts_any gs c)"
  using assms(2, 3)
proof (induction valid_filters arbitrary: fs)
  case (Suc n)
  show ?case
  proof (cases "max_filters < Suc n")
    case False
    then show ?thesis using Suc.prems by (simp add: merge_loop.simps)
  next
    case True
    with assms(1) Suc.prems obtain p where "valid_pair fs p" by (metis two_valid_pair less_2_cases_iff not_less
          less_Suc_eq_le not_less_eq gr0_conv_Suc)
    from best_pair_max(1) [OF this] obtain i j where ij: "best_pair fs = (i, j)" "valid_pair fs (i, j)"
      by (cases "best_pair fs") auto
    define gs where "gs = fs[i := merge_filter (fs ! i) (fs ! j), j := invalidate (fs ! j)]"
    have lt: "i < j" "j < length fs" "is_valid (fs ! i)" "is_valid (fs ! j)" using ij by (auto simp: valid_pair_def)
    have "count_valid gs = n"
      using count_valid_update [of j "fs[i := merge_filter (fs ! i) (fs ! j)]" "invalidate (fs ! j)"]
        count_valid_update [of i fs "merge_filter (fs ! i) (fs ! j)"] lt Suc.prems by (simp add: gs_def)
    moreover have "length gs = length fs" by (simp add: gs_def)
    ultimately obtain hs where "merge_loop dbg max_filters n gs = Some hs" "length hs = length fs"
        "count_valid hs = min max_filters n" "\<forall>c. accepts_any gs c \<longrightarrow> accepts_any hs c"
      using Suc.IH [of gs] Suc.prems by auto
    moreover have "merge_loop dbg max_filters (Suc n) fs = merge_loop dbg max_filters n gs"
      using True ij lt \<open>count_valid gs = n\<close>
      by (simp add: merge_loop.simps [of dbg max_filters "Suc n"] gs_def [symmetric] Let_def nth_list_update)
    ultimately show ?thesis
      using True accepts_any_merge [OF ij(2), folded gs_def] by auto
  qed
qed (simp add: merge_loop.simps)

section \<open>Compaction\<close>

lemma move_up_block:
  assumes "list_all (\<lambda>f. \<not> is_valid f) is" and "vs = [] \<or> is_valid (last vs)" and "is_valid y"
  shows "move_up (length vs + length is) (vs @ is @ y # rest) = vs @ y # is @ rest"
  using assms
proof (induction "is" arbitrary: rest rule: rev_induct)
  case Nil
  then show ?case by (cases vs rule: rev_cases) (auto simp: nth_append)
next
  case (snoc x xs)
  then have "move_up (length vs + length xs) (vs @ xs @ y # x # rest) = vs @ y # xs @ x # rest" by simp
  moreover have "(vs @ xs @ x # y # rest)[length vs + length xs := y, Suc (length vs + length xs) := x]
      = vs @ xs @ y # x # rest" by (simp add: list_update_append)
  ultimately show ?case using snoc.prems by (simp add: nth_append)
qed

lemma move_up_invalid: "\<not> is_valid (fs ! j) \<Longrightarrow> move_up j fs = fs"
  by (cases j) simp_all

lemma move_up_partitioned:
  assumes "list_all is_valid vs" and "list_all (\<lambda>f. \<not> is_valid f) is"
  shows "move_up (length vs + length is) (vs @ is @ y # rest) =
    (if is_valid y then vs @ y # is @ rest else vs @ is @ y # rest)"
proof (cases "is_valid y")
  case True
  have "vs = [] \<or> is_valid (last vs)" using assms(1) by (cases vs rule: rev_cases) auto
  with True assms(2) show ?thesis by (simp add: move_up_block)
next
  case False
  then show ?thesis by (simp add: move_up_invalid nth_append)
qed

lemma fold_move_up:
  "0 < k \<Longrightarrow> k \<le> length fs \<Longrightarrow> fold move_up [1..<k] fs =
     filter is_valid (take k fs) @ filter (\<lambda>f. \<not> is_valid f) (take k fs) @ drop k fs"
proof (induction k)
  case (Suc k)
  show ?case
  proof (cases "k = 0")
    case True
    then show ?thesis using Suc.prems by (cases fs) auto
  next
    case False
    let ?vs = "filter is_valid (take k fs)" and ?is = "filter (\<lambda>f. \<not> is_valid f) (take k fs)"
    have k: "k < length fs" using Suc.prems by simp
    have "length ?vs + length ?is = k" using k by (simp add: sum_length_filter_compl)
    moreover have "list_all is_valid ?vs" "list_all (\<lambda>f. \<not> is_valid f) ?is" by (simp_all add: list.pred_set)
    ultimately have "move_up k (?vs @ ?is @ fs ! k # drop (Suc k) fs) =
        (if is_valid (fs ! k) then ?vs @ fs ! k # ?is @ drop (Suc k) fs
         else ?vs @ ?is @ fs ! k # drop (Suc k) fs)"
      using move_up_partitioned [of ?vs ?is "fs ! k" "drop (Suc k) fs"] by simp
    moreover have "drop k fs = fs ! k # drop (Suc k) fs" using k by (simp add: Cons_nth_drop_Suc)
    ultimately show ?thesis using Suc.IH False k by (simp add: take_Suc_conv_app_nth)
  qed
qed simp

lemma compact_eq: "compact fs = filter is_valid fs @ filter (\<lambda>f. \<not> is_valid f) fs"
  unfolding compact_def using fold_move_up [of "length fs" fs] by (cases fs) simp_all

lemma position_split:
  "take (case position (\<lambda>x. \<not> P x) xs of Some i \<Rightarrow> i | None \<Rightarrow> length xs) xs = takeWhile P xs"
  "drop (case position (\<lambda>x. \<not> P x) xs of Some i \<Rightarrow> i | None \<Rightarrow> length xs) xs = dropWhile P xs"
  by (induction xs) (auto split: option.splits)

lemma optimize_merged:
  assumes "merge_filters dbg fs max_filters = Some gs" and "0 < max_filters" and "count_valid gs \<le> max_filters"
  shows "optimize dbg fs max_filters = Some (filter is_valid gs)"
proof -
  let ?is = "filter (\<lambda>f. \<not> is_valid f) gs"
  have "takeWhile is_valid ?is = []" "dropWhile is_valid ?is = ?is" by (induction gs) simp_all
  then have "takeWhile is_valid (compact gs) = filter is_valid gs"
    "dropWhile is_valid (compact gs) = filter (\<lambda>f. \<not> is_valid f) gs"
    unfolding compact_eq by (simp_all add: takeWhile_append dropWhile_append)
  then show ?thesis
    using assms by (simp add: optimize_def Let_def position_split list.pred_set list_ex_iff)
qed

lemma optimize_correct:
  assumes "list_all is_valid fs" and "0 < max_filters"
  obtains gs where "optimize dbg fs max_filters = Some gs" and "length gs = min max_filters (length fs)"
    and "list_all is_valid gs" and "length fs \<le> max_filters \<longrightarrow> gs = fs"
    and "\<forall>c. accepts_any fs c \<longrightarrow> accepts_any gs c"
proof -
  have c: "count_valid fs = length fs" using assms(1) by (simp add: count_valid_def list.pred_set)
  obtain gs where gs: "merge_filters dbg fs max_filters = Some gs" "count_valid gs = min max_filters (length fs)"
      "length fs \<le> max_filters \<Longrightarrow> gs = fs" "\<And>c. accepts_any fs c \<Longrightarrow> accepts_any gs c"
    using merge_loop_correct [OF assms(2) c, of dbg] assms(2) by (auto simp: merge_filters_def)
  have "optimize dbg fs max_filters = Some (filter is_valid gs)"
    using gs(1) assms(2) by (rule optimize_merged) (simp add: gs(2))
  then show thesis
    using gs c assms(1)
    by (intro that [of "filter is_valid gs"]) (auto simp: count_valid_def list.pred_set accepts_any_def)
qed

section \<open>Filters of subscriptions\<close>

text \<open>Whether a transfer with the given header belongs to a subscription.\<close>

fun subscription_matches :: "Subscription \<Rightarrow> CanNodeId option \<Rightarrow> 'i can_header \<Rightarrow> bool" where
  "subscription_matches (SubMessage subject) local_node (Message m) \<longleftrightarrow> mh_subject m = subject"
| "subscription_matches (SubRequest service) local_node (Request s) \<longleftrightarrow>
     sh_service s = service \<and> local_node = Some (sh_destination s)"
| "subscription_matches (SubResponse service) local_node (Response s) \<longleftrightarrow>
     sh_service s = service \<and> local_node = Some (sh_destination s)"
| "subscription_matches _ _ _ \<longleftrightarrow> False"

fun subscription_wf :: "Subscription \<Rightarrow> bool" where
  "subscription_wf (SubMessage subject) \<longleftrightarrow> subject_wf subject"
| "subscription_wf (SubRequest service) \<longleftrightarrow> service_wf service"
| "subscription_wf (SubResponse service) \<longleftrightarrow> service_wf service"

lemma filter_mask_bits:
  "bit (0x29fff80 :: u32) n \<longleftrightarrow> n = 25 \<or> n = 23 \<or> 7 \<le> n \<and> n < 21"
  "bit (0x3ffff80 :: u32) n \<longleftrightarrow> 7 \<le> n \<and> n < 26"
  "bit (0x600000 :: u32) n \<longleftrightarrow> n = 22 \<or> n = 21"
  "bit (0x3000000 :: u32) n \<longleftrightarrow> n = 25 \<or> n = 24"
  "bit (0x2000000 :: u32) n \<longleftrightarrow> n = 25"
proof -
  have "(0x29fff80 :: u32) = push_bit 25 1 OR push_bit 23 1 OR push_bit 7 (mask 14)"
    "(0x3ffff80 :: u32) = push_bit 7 (mask 19)" "(0x600000 :: u32) = push_bit 22 1 OR push_bit 21 1"
    "(0x3000000 :: u32) = push_bit 25 1 OR push_bit 24 1" "(0x2000000 :: u32) = push_bit 25 1"
    by (simp_all add: mask_numeral)
  note eqs = this
  show "bit (0x29fff80 :: u32) n \<longleftrightarrow> n = 25 \<or> n = 23 \<or> 7 \<le> n \<and> n < 21" unfolding eqs by (simp only: bit_simps) auto
  show "bit (0x3ffff80 :: u32) n \<longleftrightarrow> 7 \<le> n \<and> n < 26" unfolding eqs by (simp only: bit_simps) auto
  show "bit (0x600000 :: u32) n \<longleftrightarrow> n = 22 \<or> n = 21" unfolding eqs by (simp only: bit_simps) auto
  show "bit (0x3000000 :: u32) n \<longleftrightarrow> n = 25 \<or> n = 24" unfolding eqs by (simp only: bit_simps) auto
  show "bit (0x2000000 :: u32) n \<longleftrightarrow> n = 25" unfolding eqs by (simp only: bit_simps) auto
qed

lemma field_eq_iff:
  "get_u16 c 8 AND 0x1fff = s \<longleftrightarrow> (\<forall>k. bit s k \<longleftrightarrow> k < 13 \<and> bit c (8 + k))"
  "get_u16 c 14 AND 0x1ff = v \<longleftrightarrow> (\<forall>k. bit v k \<longleftrightarrow> k < 9 \<and> bit c (14 + k))"
  "get_u8 c 7 AND 0x7f = d \<longleftrightarrow> (\<forall>k. bit d k \<longleftrightarrow> k < 7 \<and> bit c (7 + k))"
proof -
  have "bit (get_u16 c 8 AND 0x1fff) k \<longleftrightarrow> k < 13 \<and> bit c (8 + k)"
    "bit (get_u16 c 14 AND 0x1ff) k \<longleftrightarrow> k < 9 \<and> bit c (14 + k)"
    "bit (get_u8 c 7 AND 0x7f) k \<longleftrightarrow> k < 7 \<and> bit c (7 + k)" for k
    unfolding field_masks by (auto simp: get_u16_def get_u8_def bit_simps)
  then show "get_u16 c 8 AND 0x1fff = s \<longleftrightarrow> (\<forall>k. bit s k \<longleftrightarrow> k < 13 \<and> bit c (8 + k))"
    "get_u16 c 14 AND 0x1ff = v \<longleftrightarrow> (\<forall>k. bit v k \<longleftrightarrow> k < 9 \<and> bit c (14 + k))"
    "get_u8 c 7 AND 0x7f = d \<longleftrightarrow> (\<forall>k. bit d k \<longleftrightarrow> k < 7 \<and> bit c (7 + k))"
    by (metis bit_eqI)+
qed

lemma subject_filter_bits:
  "bit (fl_mask (subject_filter s)) n \<longleftrightarrow> n = 25 \<or> n = 23 \<or> 7 \<le> n \<and> n < 21"
  "bit (filter_id (subject_filter s)) n \<longleftrightarrow>
     (n = 22 \<or> n = 21 \<or> 8 \<le> n \<and> n < 29 \<and> bit (subject_bits s) (n - 8))"
proof -
  show "bit (fl_mask (subject_filter s)) n \<longleftrightarrow> n = 25 \<or> n = 23 \<or> 7 \<le> n \<and> n < 21"
    unfolding subject_filter_def filter_new_bits filter_mask_bits by auto
  have "bit (push_bit 8 (ucast (subject_bits s)) :: u32) n \<longleftrightarrow> 8 \<le> n \<and> n < 32 \<and> bit (subject_bits s) (n - 8)"
    by (auto simp: bit_simps)
  then show "bit (filter_id (subject_filter s)) n \<longleftrightarrow>
     (n = 22 \<or> n = 21 \<or> 8 \<le> n \<and> n < 29 \<and> bit (subject_bits s) (n - 8))"
    unfolding subject_filter_def filter_new_bits filter_mask_bits bit_or_iff by auto
qed

lemma subject_filter_accepts:
  assumes "subject_wf s"
  shows "accepts (subject_filter s) c \<longleftrightarrow>
    \<not> bit c 25 \<and> \<not> bit c 23 \<and> \<not> bit c 7 \<and> get_u16 c 8 AND 0x1fff = subject_bits s"
proof -
  have low: "\<not> bit (subject_bits s) k" if "13 \<le> k" for k using subject_bit [OF assms, of k] that by auto
  have "accepts (subject_filter s) c \<longleftrightarrow> (\<forall>n. n = 25 \<or> n = 23 \<or> 7 \<le> n \<and> n < 21 \<longrightarrow>
      bit c n = (8 \<le> n \<and> bit (subject_bits s) (n - 8)))"
    unfolding accepts_iff subject_filter_bits by (intro all_cong1) auto
  also have "\<dots> \<longleftrightarrow> \<not> bit c 25 \<and> \<not> bit c 23 \<and> \<not> bit c 7
      \<and> (\<forall>k < 13. bit c (8 + k) = bit (subject_bits s) k)" (is "?l \<longleftrightarrow> ?r")
  proof
    assume l: ?l
    have "bit c (8 + k) = bit (subject_bits s) k" if "k < 13" for k using l [rule_format, of "8 + k"] that by simp
    moreover have "\<not> bit c 25 \<and> \<not> bit c 23 \<and> \<not> bit c 7"
      using l [rule_format, of 25] l [rule_format, of 23] l [rule_format, of 7] low by simp
    ultimately show ?r by blast
  next
    assume r: ?r
    show ?l
    proof (intro allI impI)
      fix n :: nat
      assume n: "n = 25 \<or> n = 23 \<or> 7 \<le> n \<and> n < 21"
      show "bit c n = (8 \<le> n \<and> bit (subject_bits s) (n - 8))"
      proof (cases "8 \<le> n \<and> n < 21")
        case True
        then have "n - 8 < 13" "8 + (n - 8) = n" by auto
        with r True show ?thesis by metis
      next
        case False
        with n have "n = 25 \<or> n = 23 \<or> n = 7" by auto
        with r low show ?thesis by auto
      qed
    qed
  qed
  also have "\<dots> \<longleftrightarrow> \<not> bit c 25 \<and> \<not> bit c 23 \<and> \<not> bit c 7 \<and> get_u16 c 8 AND 0x1fff = subject_bits s"
    unfolding field_eq_iff using subject_bit [OF assms] by blast
  finally show ?thesis .
qed

lemma service_filter_bits:
  defines "field n s d \<equiv> n < 29 \<and> (14 \<le> n \<and> bit (service_bits s) (n - 14) \<or> 7 \<le> n \<and> bit (node_bits d) (n - 7))"
  shows "bit (fl_mask (request_filter s d)) n \<longleftrightarrow> 7 \<le> n \<and> n < 26"
    "bit (fl_mask (response_filter s d)) n \<longleftrightarrow> 7 \<le> n \<and> n < 26"
    "bit (filter_id (request_filter s d)) n \<longleftrightarrow> n = 25 \<or> n = 24 \<or> field n s d"
    "bit (filter_id (response_filter s d)) n \<longleftrightarrow> n = 25 \<or> field n s d"
proof -
  have "bit (push_bit 14 (ucast (service_bits s)) OR push_bit 7 (ucast (node_bits d)) :: u32) n \<longleftrightarrow>
      n < 32 \<and> (14 \<le> n \<and> bit (service_bits s) (n - 14) \<or> 7 \<le> n \<and> bit (node_bits d) (n - 7))"
    by (auto simp: bit_simps)
  note dyn = this
  show "bit (fl_mask (request_filter s d)) n \<longleftrightarrow> 7 \<le> n \<and> n < 26"
    "bit (fl_mask (response_filter s d)) n \<longleftrightarrow> 7 \<le> n \<and> n < 26"
    unfolding request_filter_def response_filter_def Let_def filter_new_bits filter_mask_bits by auto
  show "bit (filter_id (request_filter s d)) n \<longleftrightarrow> n = 25 \<or> n = 24 \<or> field n s d"
    "bit (filter_id (response_filter s d)) n \<longleftrightarrow> n = 25 \<or> field n s d"
    unfolding request_filter_def response_filter_def Let_def filter_new_bits field_def
    by (simp_all only: bit_or_iff [of "0x3000000"] bit_or_iff [of "0x2000000"] filter_mask_bits dyn) auto
qed

text \<open>The bits 7 to 25 of an identifier, field by field.\<close>

lemma service_field_split:
  assumes "service_wf s" and "node_wf d"
  shows "(\<forall>n. 7 \<le> n \<and> n < 26 \<longrightarrow> bit c n = (n = 25 \<or> n = 24 \<and> r \<or>
      n < 29 \<and> (14 \<le> n \<and> bit (service_bits s) (n - 14) \<or> 7 \<le> n \<and> bit (node_bits d) (n - 7)))) \<longleftrightarrow>
    bit c 25 \<and> bit c 24 = r \<and> \<not> bit c 23 \<and> get_u16 c 14 AND 0x1ff = service_bits s \<and> get_u8 c 7 AND 0x7f = node_bits d"
    (is "?l \<longleftrightarrow> ?r")
proof -
  have s: "\<not> bit (service_bits s) k" if "9 \<le> k" for k using service_bit [OF assms(1), of k] that by auto
  have d: "\<not> bit (node_bits d) k" if "7 \<le> k" for k using node_bit [OF assms(2), of k] that by auto
  have "?r \<longleftrightarrow> bit c 25 \<and> bit c 24 = r \<and> \<not> bit c 23 \<and> (\<forall>k < 9. bit c (14 + k) = bit (service_bits s) k)
      \<and> (\<forall>k < 7. bit c (7 + k) = bit (node_bits d) k)" (is "_ \<longleftrightarrow> ?m")
    unfolding field_eq_iff using service_bit [OF assms(1)] node_bit [OF assms(2)] by blast
  moreover have "?l \<longleftrightarrow> ?m"
  proof
    assume l: ?l
    have "bit c (14 + k) = bit (service_bits s) k" if "k < 9" for k
      using l [rule_format, of "14 + k"] that d by simp
    moreover have "bit c (7 + k) = bit (node_bits d) k" if "k < 7" for k
      using l [rule_format, of "7 + k"] that by simp
    moreover have "bit c 25 \<and> bit c 24 = r \<and> \<not> bit c 23"
      using l [rule_format, of 25] l [rule_format, of 24] l [rule_format, of 23] s d by simp
    ultimately show ?m by blast
  next
    assume m: ?m
    show ?l
    proof (intro allI impI)
      fix n :: nat
      assume n: "7 \<le> n \<and> n < 26"
      consider "n < 14" | "14 \<le> n" "n < 23" | "n = 23 \<or> n = 24 \<or> n = 25" using n by linarith
      then show "bit c n = (n = 25 \<or> n = 24 \<and> r \<or>
          n < 29 \<and> (14 \<le> n \<and> bit (service_bits s) (n - 14) \<or> 7 \<le> n \<and> bit (node_bits d) (n - 7)))"
      proof cases
        case 1
        then have "n - 7 < 7" "7 + (n - 7) = n" using n by auto
        with m have "bit c n = bit (node_bits d) (n - 7)" by metis
        with 1 n show ?thesis by auto
      next
        case 2
        then have "n - 14 < 9" "14 + (n - 14) = n" "7 \<le> n - 7" by auto
        with m have "bit c n = bit (service_bits s) (n - 14)" by metis
        with 2 d [OF \<open>7 \<le> n - 7\<close>] show ?thesis by auto
      next
        case 3
        with m s d show ?thesis by auto
      qed
    qed
  qed
  ultimately show ?thesis by blast
qed

lemma service_filter_accepts:
  assumes "service_wf s" and "node_wf d"
  shows "accepts (request_filter s d) c \<longleftrightarrow> bit c 25 \<and> bit c 24 \<and> \<not> bit c 23
      \<and> get_u16 c 14 AND 0x1ff = service_bits s \<and> get_u8 c 7 AND 0x7f = node_bits d"
    "accepts (response_filter s d) c \<longleftrightarrow> bit c 25 \<and> \<not> bit c 24 \<and> \<not> bit c 23
      \<and> get_u16 c 14 AND 0x1ff = service_bits s \<and> get_u8 c 7 AND 0x7f = node_bits d"
  unfolding accepts_iff service_filter_bits
  using service_field_split [OF assms, of c True] service_field_split [OF assms, of c False] by simp_all

lemma bits_inject:
  "subject_bits a = subject_bits b \<longleftrightarrow> a = b" "service_bits v = service_bits w \<longleftrightarrow> v = w"
  "node_bits x = node_bits y \<longleftrightarrow> x = y"
  by (auto intro: SubjectId.expand ServiceId.expand CanNodeId.expand)

lemma make_filter_valid: "make_filter s local_node = Some f \<Longrightarrow> is_valid f"
  by (auto simp: make_filter_def subject_filter_def request_filter_def response_filter_def Let_def
      split: Subscription.splits)

text \<open>On well-formed identifiers the filter of a subscription accepts exactly the subscription's transfers.\<close>

lemma make_filter_exact:
  assumes "make_filter s local_node = Some f" and "subscription_wf s" and "pred_option node_wf local_node"
    and "parse_can_id c i t = Some (Inr h)"
  shows "accepts f (can_id_bits c) \<longleftrightarrow> subscription_matches s local_node h"
proof -
  let ?c = "can_id_bits c"
  have h: "(\<exists>m. h = Message m \<and> \<not> bit ?c 25 \<and> \<not> bit ?c 23 \<and> \<not> bit ?c 7
        \<and> mh_subject m = SubjectId (get_u16 ?c 8 AND 0x1fff))
    \<or> (\<exists>m. (h = Request m \<and> bit ?c 24 \<or> h = Response m \<and> \<not> bit ?c 24) \<and> bit ?c 25 \<and> \<not> bit ?c 23
        \<and> sh_service m = ServiceId (get_u16 ?c 14 AND 0x1ff) \<and> sh_destination m = CanNodeId (get_u8 ?c 7 AND 0x7f))"
    using assms(4)
    by (auto simp: parse_can_id_def Let_def bit_set_iff masked_try_from bind_eq_Some_conv split: if_splits)
  have eqs: "subject = SubjectId x \<longleftrightarrow> x = subject_bits subject" "service = ServiceId x \<longleftrightarrow> x = service_bits service"
    "node = CanNodeId y \<longleftrightarrow> y = node_bits node" for subject service node and x :: u16 and y :: u8
    by (auto simp: SubjectId.expand ServiceId.expand CanNodeId.expand)
  show ?thesis
    using assms(1-3) h
    by (cases s; cases local_node)
      (auto simp: make_filter_def subject_filter_accepts service_filter_accepts eqs bits_inject)
qed

lemma collect_filters_cases:
  "case collect_filters mem n local_node subs acc of
     Inl oom \<Rightarrow> \<exists>k. n \<le> k \<and> k < n + length subs \<and> \<not> mem k
   | Inr fs \<Rightarrow> fs = acc @ List.map_filter (\<lambda>s. make_filter s local_node) subs"
proof (induction subs arbitrary: n acc)
  case (Cons s subs)
  show ?case
  proof (cases "make_filter s local_node")
    case None
    with Cons [of n acc] show ?thesis by (auto simp: map_filter_simps split: sum.splits)
  next
    case (Some f)
    with Cons [of "Suc n" "acc @ [f]"] show ?thesis
      by (auto simp: map_filter_simps try_push_def split: sum.splits intro: exI [of _ n])
        (metis Suc_leD add_Suc add_Suc_right)
  qed
qed (simp add: map_filter_simps)

section \<open>Properties\<close>

text \<open>
  C21: the filters made for a list of subscriptions and optimised to at most \<^verbatim>\<open>max_filters\<close>
  (not 0). Making them never panics, with debug assertions or without. They are at most
  \<^verbatim>\<open>max_filters\<close>, and no frame that belongs to a subscription (to the local node, for services)
  is blocked. When no merging was necessary no other well-formed identifier is accepted
  either. The only error is a failed allocation.
\<close>

theorem filters_accept_subscribed:
  assumes "list_all subscription_wf subs" and "pred_option node_wf local_node" and "0 < max_filters"
  shows "\<exists>r. optimize_filters dbg mem local_node subs max_filters = Some r \<and> (case r of
      Inl oom \<Rightarrow> \<exists>k < length subs. \<not> mem k
    | Inr fs \<Rightarrow> length fs \<le> max_filters
        \<and> (\<forall>c i t (h :: 'i can_header). parse_can_id c i t = Some (Inr h) \<longrightarrow>
            list_ex (\<lambda>s. subscription_matches s local_node h) subs \<longrightarrow> accepts_any fs (can_id_bits c))
        \<and> (length (List.map_filter (\<lambda>s. make_filter s local_node) subs) \<le> max_filters \<longrightarrow>
            (\<forall>c i t (h :: 'i can_header). parse_can_id c i t = Some (Inr h) \<longrightarrow>
              accepts_any fs (can_id_bits c) \<longrightarrow> list_ex (\<lambda>s. subscription_matches s local_node h) subs)))"
proof -
  let ?ideal = "List.map_filter (\<lambda>s. make_filter s local_node) subs"
  have in_ideal: "f \<in> set ?ideal \<longleftrightarrow> (\<exists>s \<in> set subs. make_filter s local_node = Some f)" for f
    by (force simp: List.map_filter_def)
  have exact: "accepts_any ?ideal (can_id_bits c) \<longleftrightarrow> list_ex (\<lambda>s. subscription_matches s local_node h) subs"
    if "parse_can_id c i t = Some (Inr h)" for c i t and h :: "'i can_header"
  proof -
    have "\<exists>f. make_filter s local_node = Some f" if "subscription_matches s local_node h" for s
      using that by (cases s; cases h) (auto simp: make_filter_def)
    moreover have "accepts_any ?ideal (can_id_bits c) \<longleftrightarrow>
        (\<exists>s \<in> set subs. \<exists>f. make_filter s local_node = Some f \<and> accepts f (can_id_bits c))"
      using in_ideal make_filter_valid unfolding accepts_any_def by blast
    ultimately show ?thesis
      using make_filter_exact [OF _ _ assms(2) that] assms(1) unfolding list_ex_iff list.pred_set by blast
  qed
  show ?thesis
  proof (cases "collect_filters mem 0 local_node subs []")
    case (Inl oom)
    with collect_filters_cases [where mem = mem and n = 0 and subs = subs and local_node = local_node and acc = "[]"] show ?thesis by (auto simp: optimize_filters_def)
  next
    case (Inr fs)
    with collect_filters_cases [where mem = mem and n = 0 and subs = subs and local_node = local_node and acc = "[]"] have fs: "fs = ?ideal" by simp
    have valid: "list_all is_valid ?ideal" using make_filter_valid in_ideal by (auto simp: list.pred_set)
    obtain gs where gs: "optimize dbg ?ideal max_filters = Some gs" "length gs = min max_filters (length ?ideal)"
        "list_all is_valid gs" "length ?ideal \<le> max_filters \<longrightarrow> gs = ?ideal" "\<forall>c. accepts_any ?ideal c \<longrightarrow> accepts_any gs c"
      by (rule optimize_correct [OF valid assms(3)])
    then show ?thesis using Inr fs exact by (auto simp: optimize_filters_def)
  qed
qed

theorem filters_accept_subscribed_witness:
  "\<exists>fs. optimize_filters True (\<lambda>_. True) (Some (CanNodeId 42))
      [SubMessage (SubjectId 7509), SubRequest (ServiceId 430), SubMessage (SubjectId 7510)] 2 = Some (Inr fs)
    \<and> length fs \<le> 2 \<and> accepts_any fs 0x107d552a"
proof -
  let ?subs = "[SubMessage (SubjectId 7509), SubRequest (ServiceId 430), SubMessage (SubjectId 7510)]"
  let ?local = "Some (CanNodeId 42)"
  have h: "parse_can_id (CanId 0x107d552a) (0 :: nat) (CanTransferId 0) = Some (Inr (Message \<lparr>mh_timestamp = 0,
      mh_transfer_id = CanTransferId 0, mh_priority = Nominal, mh_subject = SubjectId 7509,
      mh_source = Some (CanNodeId 42)\<rparr>))" (is "_ = Some (Inr ?h)")
    by code_simp
  have wf: "list_all subscription_wf ?subs" "pred_option node_wf ?local"
    by (simp_all add: subject_wf_def VALID_SUBJECT_IDS_end_def service_wf_def VALID_SERVICE_IDS_end_def
        node_wf_def VALID_NODE_IDS_end_def)
  have "(0 :: nat) < 2" by simp
  note t = filters_accept_subscribed [OF wf this, of True "\<lambda>_. True", where 'i = nat]
  then obtain r where r: "optimize_filters True (\<lambda>_. True) ?local ?subs 2 = Some r" by blast
  show ?thesis
  proof (cases r)
    case (Inl oom)
    then show ?thesis using t unfolding r by simp
  next
    case (Inr fs)
    with t r have "length fs \<le> 2" and accept: "\<forall>c i t (h :: nat can_header). parse_can_id c i t = Some (Inr h) \<longrightarrow>
        list_ex (\<lambda>s. subscription_matches s ?local h) ?subs \<longrightarrow> accepts_any fs (can_id_bits c)" by auto
    have "accepts_any fs (can_id_bits (CanId 0x107d552a))"
      using accept [rule_format, OF h] by simp
    with Inr r \<open>length fs \<le> 2\<close> show ?thesis by simp
  qed
qed

end
