(* ===== verification/Enc_Write.thy ===== *)
theory Enc_Write
  imports Prelude
begin

text \<open>
  The serializing cursor (canadensis\_encoding: \<^verbatim>\<open>cursor/serialize.rs\<close>). \<open>None\<close> is a panic: no space,
  an unaligned cursor, or a failed debug assertion of a private function.

  A floating-point number is represented by its bit pattern, which \<^verbatim>\<open>to_bits\<close> and \<^verbatim>\<open>from_bits\<close>
  do not change. The number of the bit in a byte, a \<^verbatim>\<open>u8\<close> between 0 and 7, is a \<open>nat\<close>.
\<close>

section \<open>Cursor\<close>

record WriteCursor =
  wc_bytes :: "u8 list"
  wc_bytes_written :: nat
  wc_bit_index :: nat

definition write_cursor_new :: "u8 list \<Rightarrow> WriteCursor" where
  "write_cursor_new bytes = \<lparr>wc_bytes = map (\<lambda>_. 0) bytes, wc_bytes_written = 0, wc_bit_index = 0\<rparr>"

definition wc_is_aligned_to_8_bits :: "WriteCursor \<Rightarrow> bool" where
  "wc_is_aligned_to_8_bits c \<longleftrightarrow> wc_bit_index c = 0"

definition wc_check_length :: "nat \<Rightarrow> WriteCursor \<Rightarrow> bool" where
  "wc_check_length bits c \<longleftrightarrow>
     (let extended_bit_index = wc_bit_index c + bits; byte_increment = extended_bit_index div 8 in
      length (wc_bytes c) - wc_bytes_written c \<ge> byte_increment)"

definition wc_advance_bits :: "nat \<Rightarrow> WriteCursor \<Rightarrow> WriteCursor option" where
  "wc_advance_bits bits c =
     (if wc_check_length bits c then
        (let extended_bit_index = wc_bit_index c + bits in
         Some (c\<lparr>wc_bit_index := extended_bit_index mod 8,
           wc_bytes_written := wc_bytes_written c + extended_bit_index div 8\<rparr>))
      else None)"

definition wc_skip_bits :: "nat \<Rightarrow> WriteCursor \<Rightarrow> WriteCursor option" where
  "wc_skip_bits bits c = (if wc_check_length bits c then wc_advance_bits bits c else None)"

definition wc_align_to_8_bits :: "WriteCursor \<Rightarrow> WriteCursor option" where
  "wc_align_to_8_bits c = (if wc_bit_index c \<noteq> 0 then wc_skip_bits (8 - wc_bit_index c) c else Some c)"

text \<open>
  The remaining bytes are those from \<open>wc_bytes_written\<close> on; the following changes the byte with
  the given number among them.
\<close>

definition wc_update_remaining :: "nat \<Rightarrow> (u8 \<Rightarrow> u8) \<Rightarrow> WriteCursor \<Rightarrow> WriteCursor option" where
  "wc_update_remaining i f c =
     (let n = wc_bytes_written c + i in
      if n < length (wc_bytes c) then Some (c\<lparr>wc_bytes := (wc_bytes c)[n := f (wc_bytes c ! n)]\<rparr>) else None)"

section \<open>Unsigned integers\<close>

definition write_up_to_u8 :: "u8 \<Rightarrow> nat \<Rightarrow> WriteCursor \<Rightarrow> WriteCursor option" where
  "write_up_to_u8 value bits c =
     (if \<not> bits \<le> 8 then None
      else if bits = 0 then Some c
      else if \<not> wc_check_length bits c then None
      else
        (let msk = ucast ((push_bit bits 1 :: u16) - 1);
             value = value AND msk;
             bit_index = wc_bit_index c in
         if bit_index \<le> 8 - bits then
           do {
             c \<leftarrow> wc_update_remaining 0 (\<lambda>b. b OR push_bit bit_index value) c;
             wc_advance_bits bits c
           }
         else
           do {
             let current_bits = push_bit bit_index value;
             let next_bits = drop_bit (8 - bit_index) value;
             c \<leftarrow> wc_update_remaining 0 (\<lambda>b. b OR current_bits) c;
             c \<leftarrow> wc_update_remaining 1 (\<lambda>b. b OR next_bits) c;
             wc_advance_bits bits c
           }))"

text \<open>The loop over the whole bytes of a value, least significant first.\<close>

fun write_whole_bytes :: "nat \<Rightarrow> 'a::len word \<Rightarrow> WriteCursor \<Rightarrow> ('a word \<times> WriteCursor) option" where
  "write_whole_bytes 0 value c = Some (value, c)"
| "write_whole_bytes (Suc n) value c =
     do {
       c \<leftarrow> write_up_to_u8 (ucast value) 8 c;
       write_whole_bytes n (drop_bit 8 value) c
     }"

definition write_up_to_u64 :: "u64 \<Rightarrow> nat \<Rightarrow> WriteCursor \<Rightarrow> WriteCursor option" where
  "write_up_to_u64 value bits c =
     (if \<not> bits \<le> 64 then None
      else do {
        (value, c) \<leftarrow> write_whole_bytes (bits div 8) value c;
        write_up_to_u8 (ucast value) (bits mod 8) c
      })"

definition write_up_to_u32 :: "u32 \<Rightarrow> nat \<Rightarrow> WriteCursor \<Rightarrow> WriteCursor option" where
  "write_up_to_u32 value bits c =
     (if \<not> bits \<le> 32 then None
      else do {
        (value, c) \<leftarrow> write_whole_bytes (bits div 8) value c;
        write_up_to_u8 (ucast value) (bits mod 8) c
      })"

definition write_up_to_u16 :: "u16 \<Rightarrow> nat \<Rightarrow> WriteCursor \<Rightarrow> WriteCursor option" where
  "write_up_to_u16 value bits c =
     (if \<not> bits \<le> 16 then None
      else do {
        (value, c) \<leftarrow> write_whole_bytes (bits div 8) value c;
        write_up_to_u8 (ucast value) (bits mod 8) c
      })"

section \<open>Aligned values\<close>

text \<open>Copying into the remaining bytes.\<close>

definition wc_copy_remaining :: "u8 list \<Rightarrow> WriteCursor \<Rightarrow> WriteCursor option" where
  "wc_copy_remaining bs c =
     (let n = wc_bytes_written c in
      if n + length bs \<le> length (wc_bytes c)
      then Some (c\<lparr>wc_bytes := take n (wc_bytes c) @ bs @ drop (n + length bs) (wc_bytes c)\<rparr>) else None)"

definition write_aligned_u8 :: "u8 \<Rightarrow> WriteCursor \<Rightarrow> WriteCursor option" where
  "write_aligned_u8 value c =
     (if wc_is_aligned_to_8_bits c then
        do { c \<leftarrow> wc_update_remaining 0 (\<lambda>_. value) c; wc_advance_bits 8 c }
      else None)"

definition write_aligned_u16 :: "u16 \<Rightarrow> WriteCursor \<Rightarrow> WriteCursor option" where
  "write_aligned_u16 value c =
     (if wc_is_aligned_to_8_bits c then
        do { c \<leftarrow> wc_copy_remaining (le_bytes 2 value) c; wc_advance_bits (2 * 8) c }
      else None)"

definition write_aligned_u32 :: "u32 \<Rightarrow> WriteCursor \<Rightarrow> WriteCursor option" where
  "write_aligned_u32 value c =
     (if wc_is_aligned_to_8_bits c then
        do { c \<leftarrow> wc_copy_remaining (le_bytes 4 value) c; wc_advance_bits (4 * 8) c }
      else None)"

definition write_aligned_u64 :: "u64 \<Rightarrow> WriteCursor \<Rightarrow> WriteCursor option" where
  "write_aligned_u64 value c =
     (if wc_is_aligned_to_8_bits c then
        do { c \<leftarrow> wc_copy_remaining (le_bytes 8 value) c; wc_advance_bits (8 * 8) c }
      else None)"

text \<open>Despite its documentation this function does not check the alignment.\<close>

definition write_aligned_bytes :: "u8 list \<Rightarrow> WriteCursor \<Rightarrow> WriteCursor option" where
  "write_aligned_bytes bytes c =
     do { c \<leftarrow> wc_copy_remaining bytes c; wc_advance_bits (8 * length bytes) c }"

section \<open>The public functions that delegate\<close>

text \<open>
  The families \<^verbatim>\<open>write_u1\<close> to \<^verbatim>\<open>write_u64\<close> and \<^verbatim>\<open>skip_1\<close> to \<^verbatim>\<open>skip_64\<close>, indexed by the width in their
  names; the families end where the type of the value changes.
\<close>

definition write_u1_to_u8 :: "nat \<Rightarrow> u8 \<Rightarrow> WriteCursor \<Rightarrow> WriteCursor option" where
  "write_u1_to_u8 n value c = write_up_to_u8 value n c"

definition write_u9_to_u16 :: "nat \<Rightarrow> u16 \<Rightarrow> WriteCursor \<Rightarrow> WriteCursor option" where
  "write_u9_to_u16 n value c = write_up_to_u16 value n c"

definition write_u17_to_u32 :: "nat \<Rightarrow> u32 \<Rightarrow> WriteCursor \<Rightarrow> WriteCursor option" where
  "write_u17_to_u32 n value c = write_up_to_u32 value n c"

definition write_u33_to_u64 :: "nat \<Rightarrow> u64 \<Rightarrow> WriteCursor \<Rightarrow> WriteCursor option" where
  "write_u33_to_u64 n value c = write_up_to_u64 value n c"

definition wc_skip :: "nat \<Rightarrow> WriteCursor \<Rightarrow> WriteCursor option" where
  "wc_skip n c = wc_skip_bits n c"

definition write_f16 :: "u16 \<Rightarrow> WriteCursor \<Rightarrow> WriteCursor option" where
  "write_f16 value c = write_u9_to_u16 16 value c"

definition write_f32 :: "u32 \<Rightarrow> WriteCursor \<Rightarrow> WriteCursor option" where
  "write_f32 value c = write_u17_to_u32 32 value c"

definition write_f64 :: "u64 \<Rightarrow> WriteCursor \<Rightarrow> WriteCursor option" where
  "write_f64 value c = write_u33_to_u64 64 value c"

definition write_bool :: "bool \<Rightarrow> WriteCursor \<Rightarrow> WriteCursor option" where
  "write_bool value c = write_u1_to_u8 1 (of_bool value) c"

fun write_bytes :: "u8 list \<Rightarrow> WriteCursor \<Rightarrow> WriteCursor option" where
  "write_bytes [] c = Some c"
| "write_bytes (byte # bytes) c = do { c \<leftarrow> write_u1_to_u8 8 byte c; write_bytes bytes c }"

text \<open>
  A composite type is given by its extent (of a delimited type), the size of the value in
  bits and its serializer.
\<close>

definition write_composite ::
  "nat option \<Rightarrow> nat \<Rightarrow> (WriteCursor \<Rightarrow> WriteCursor option) \<Rightarrow> WriteCursor \<Rightarrow> WriteCursor option" where
  "write_composite extent_bytes size_bits serialize c =
     do {
       c \<leftarrow> wc_align_to_8_bits c;
       c \<leftarrow> (if extent_bytes \<noteq> None then
              (let composite_size_bytes = (size_bits + 7) div 8 in
               if composite_size_bytes < 2 ^ 32 then write_u17_to_u32 32 (of_nat composite_size_bytes) c else None)
            else Some c);
       c \<leftarrow> serialize c;
       wc_align_to_8_bits c
     }"

definition bits_written :: "WriteCursor \<Rightarrow> nat" where
  "bits_written c = wc_bytes_written c * 8 + wc_bit_index c"

section \<open>The bits of a byte sequence\<close>

text \<open>Bit \<open>k\<close> of a sequence of bytes, each read from its least significant bit; 0 beyond the end.\<close>

definition bit_at :: "u8 list \<Rightarrow> nat \<Rightarrow> bool" where
  "bit_at bs k \<longleftrightarrow> k div 8 < length bs \<and> bit (bs ! (k div 8)) (k mod 8)"

text \<open>
  The invariant of the cursor: the bit number is below 8 (as the source's comment demands),
  the written bytes are within the slice, and nothing is set beyond the cursor.
\<close>

definition wc_inv :: "WriteCursor \<Rightarrow> bool" where
  "wc_inv c \<longleftrightarrow> wc_bit_index c < 8 \<and> wc_bytes_written c \<le> length (wc_bytes c)
     \<and> (\<forall>k \<ge> bits_written c. \<not> bit_at (wc_bytes c) k)"

text \<open>What it means that a cursor has written bits behind those of another.\<close>

definition wc_extends :: "WriteCursor \<Rightarrow> nat \<Rightarrow> (nat \<Rightarrow> bool) \<Rightarrow> WriteCursor \<Rightarrow> bool" where
  "wc_extends c n v c' \<longleftrightarrow> wc_inv c' \<and> bits_written c' = bits_written c + n
     \<and> length (wc_bytes c') = length (wc_bytes c)
     \<and> (\<forall>k < bits_written c. bit_at (wc_bytes c') k = bit_at (wc_bytes c) k)
     \<and> (\<forall>k < n. bit_at (wc_bytes c') (bits_written c + k) = v k)"

lemma bit_at_split: "bit_at bs (8 * q + j) \<longleftrightarrow> q < length bs \<and> bit (bs ! q) j" if "j < 8"
  using that by (simp add: bit_at_def)

lemma bit_at_update:
  assumes "n < length bs" and "j < 8"
  shows "bit_at (bs[n := b]) (8 * q + j) = (if q = n then bit b j else bit_at bs (8 * q + j))"
  using assms by (simp add: bit_at_split)

lemma byte_mask: "n \<le> 8 \<Longrightarrow> (ucast ((push_bit n 1 :: u16) - 1) :: u8) = mask n"
proof -
  assume "n \<le> 8"
  have "(push_bit n 1 :: u16) - 1 = mask n" by (simp add: mask_eq_exp_minus_1 push_bit_eq_mult)
  moreover have "(ucast (mask n :: u16) :: u8) = mask n"
    by (rule bit_eqI) (auto simp: bit_simps)
  ultimately show ?thesis by simp
qed

text \<open>Bits that are or-ed into the zeros behind the cursor.\<close>

lemma extends_by_or:
  assumes inv: "wc_inv c"
    and or: "\<And>k. bit_at bs k \<longleftrightarrow> bit_at (wc_bytes c) k \<or> bits_written c \<le> k \<and> k < bits_written c + n \<and> v (k - bits_written c)"
    and len: "length bs = length (wc_bytes c)"
    and adv: "wc_advance_bits n (c\<lparr>wc_bytes := bs\<rparr>) = Some c'"
  shows "wc_extends c n v c'"
proof -
  have c': "c' = c\<lparr>wc_bytes := bs, wc_bit_index := (wc_bit_index c + n) mod 8,
      wc_bytes_written := wc_bytes_written c + (wc_bit_index c + n) div 8\<rparr>"
    and space: "(wc_bit_index c + n) div 8 \<le> length bs - wc_bytes_written c"
    using adv by (auto simp: wc_advance_bits_def wc_check_length_def Let_def split: if_splits)
  have pos: "bits_written c' = bits_written c + n"
    unfolding bits_written_def c' using div_mult_mod_eq [of "wc_bit_index c + n" 8] by (simp add: algebra_simps)
  have zero: "\<not> bit_at (wc_bytes c) k" if "bits_written c \<le> k" for k using inv that by (simp add: wc_inv_def)
  have "wc_inv c'"
    unfolding wc_inv_def pos using space inv len zero by (auto simp: c' or wc_inv_def)
  then show ?thesis unfolding wc_extends_def pos using zero len by (auto simp: c' or)
qed

lemma wc_update_remaining_eq:
  "wc_update_remaining i f c = (if wc_bytes_written c + i < length (wc_bytes c)
     then Some (c\<lparr>wc_bytes := (wc_bytes c)[wc_bytes_written c + i := f (wc_bytes c ! (wc_bytes_written c + i))]\<rparr>)
     else None)"
  by (simp add: wc_update_remaining_def Let_def)

lemma or_byte:
  "n < length bs \<Longrightarrow> bit_at (bs[n := bs ! n OR b]) k \<longleftrightarrow> bit_at bs k \<or> k div 8 = n \<and> bit b (k mod 8)"
  by (auto simp: bit_at_def nth_list_update bit_or_iff)

lemma masked_bits:
  assumes "n \<le> 8"
  shows "bit (v AND ucast ((push_bit n 1 :: u16) - 1) :: u8) t \<longleftrightarrow> t < n \<and> bit v t"
  unfolding byte_mask [OF assms] using bit_imp_le_length [of v t] by (auto simp: bit_simps)

text \<open>A value that fits into the current byte, and one split across two bytes.\<close>

lemma field_in_byte:
  fixes v :: u8
  assumes "i + m \<le> 8" and "\<And>t. bit v t \<longleftrightarrow> t < m \<and> w t"
  shows "k div 8 = n \<and> bit (push_bit i v) (k mod 8) \<longleftrightarrow> n * 8 + i \<le> k \<and> k < n * 8 + i + m \<and> w (k - (n * 8 + i))"
proof -
  define q j where "q = k div 8" and "j = k mod 8"
  have k: "k = q * 8 + j" "j < 8" by (simp_all add: q_def j_def)
  have "bit (push_bit i v) j \<longleftrightarrow> i \<le> j \<and> j - i < m \<and> w (j - i)"
    using k(2) by (auto simp: bit_simps assms(2))
  moreover have "k - (n * 8 + i) = j - i" if "q = n" using k that by simp
  moreover have "q = n" if "n * 8 + i \<le> k" "k < n * 8 + i + m" using that k assms(1) by linarith
  moreover have "i \<le> j \<and> j - i < m \<longleftrightarrow> n * 8 + i \<le> k \<and> k < n * 8 + i + m" if "q = n" using k that by auto
  ultimately show ?thesis unfolding q_def [symmetric] j_def [symmetric] by metis
qed

lemma field_across_bytes:
  fixes v :: u8
  assumes "i < 8" and "m \<le> 8" and "8 < i + m" and "\<And>t. bit v t \<longleftrightarrow> t < m \<and> w t"
  shows "k div 8 = n \<and> bit (push_bit i v) (k mod 8) \<or> k div 8 = Suc n \<and> bit (drop_bit (8 - i) v) (k mod 8) \<longleftrightarrow>
    n * 8 + i \<le> k \<and> k < n * 8 + i + m \<and> w (k - (n * 8 + i))"
proof -
  define q j where "q = k div 8" and "j = k mod 8"
  have k: "k = q * 8 + j" "j < 8" by (simp_all add: q_def j_def)
  obtain r where r: "8 = i + r" using assms(1) by (metis less_imp_add_positive)
  have 1: "bit (push_bit i v) j \<longleftrightarrow> i \<le> j \<and> j - i < m \<and> w (j - i)"
    using k(2) by (auto simp: bit_simps assms(4))
  have 2: "bit (drop_bit (8 - i) v) j \<longleftrightarrow> r + j < m \<and> w (r + j)"
  proof -
    have "8 - i = r" using r by simp
    then show ?thesis by (simp add: bit_drop_bit_eq assms(4))
  qed
  consider "q = n" | "q = Suc n" | "\<not> (n * 8 + i \<le> k \<and> k < n * 8 + i + m)" "q \<noteq> n" "q \<noteq> Suc n"
    using k assms(1, 2) by linarith
  then show ?thesis
  proof cases
    case 1
    then have "n * 8 + i \<le> k \<longleftrightarrow> i \<le> j" "k - (n * 8 + i) = j - i" "i \<le> j \<Longrightarrow> k < n * 8 + i + m \<longleftrightarrow> j - i < m"
      using k by auto
    with 1 \<open>bit (push_bit i v) j \<longleftrightarrow> _\<close> show ?thesis unfolding q_def [symmetric] j_def [symmetric] by auto
  next
    case 2
    then have "k = n * 8 + i + (r + j)" using k r by simp
    with 2 \<open>bit (drop_bit (8 - i) v) j \<longleftrightarrow> _\<close> show ?thesis
      unfolding q_def [symmetric] j_def [symmetric] by auto
  next
    case 3
    then show ?thesis unfolding q_def [symmetric] j_def [symmetric] by auto
  qed
qed

lemma write_up_to_u8_spec:
  assumes inv: "wc_inv c" and "bits \<le> 8" and fits: "bits_written c + bits \<le> 8 * length (wc_bytes c)"
  shows "\<exists>c'. write_up_to_u8 v bits c = Some c' \<and> wc_extends c bits (bit v) c'"
proof (cases "bits = 0")
  case True
  with inv show ?thesis by (simp add: write_up_to_u8_def wc_extends_def)
next
  case False
  let ?bs = "wc_bytes c" and ?n = "wc_bytes_written c" and ?i = "wc_bit_index c"
  define u where "u = (v AND ucast ((push_bit bits 1 :: u16) - 1) :: u8)"
  have u: "bit u t \<longleftrightarrow> t < bits \<and> bit v t" for t unfolding u_def by (rule masked_bits [OF assms(2)])
  have p: "bits_written c = ?n * 8 + ?i" "?i < 8" using inv by (simp_all add: bits_written_def wc_inv_def)
  have check: "wc_check_length bits (c\<lparr>wc_bytes := bs\<rparr>)" if "length bs = length ?bs" for bs
  proof -
    have "?n * 8 + (?i + bits) \<le> 8 * length ?bs" using fits p by simp
    then have "(?n * 8 + (?i + bits)) div 8 \<le> length ?bs" by simp
    then have "?n + (?i + bits) div 8 \<le> length ?bs" by simp
    then show ?thesis using that by (simp add: wc_check_length_def Let_def)
  qed
  have check0: "wc_check_length bits c" using check [of ?bs] by simp
  have n: "?n < length ?bs" using fits p False by linarith
  show ?thesis
  proof (cases "?i + bits \<le> 8")
    case True
    let ?bs' = "?bs[?n := ?bs ! ?n OR push_bit ?i u]"
    obtain c' where c': "wc_advance_bits bits (c\<lparr>wc_bytes := ?bs'\<rparr>) = Some c'"
      using check [of ?bs'] by (simp add: wc_advance_bits_def Let_def)
    have "?i \<le> 8 - bits" using True by simp
    then have "write_up_to_u8 v bits c = Some c'"
      using assms(2) False check0 n c' by (simp add: write_up_to_u8_def wc_update_remaining_eq u_def Let_def)
    moreover have "wc_extends c bits (bit v) c'"
      using field_in_byte [OF True u, of _ ?n] n
      by (intro extends_by_or [OF inv _ _ c']) (simp_all add: or_byte p(1))
    ultimately show ?thesis by blast
  next
    case split: False
    have n1: "Suc ?n < length ?bs" using fits p split by linarith
    let ?bs1 = "?bs[?n := ?bs ! ?n OR push_bit ?i u]"
    let ?bs' = "?bs1[Suc ?n := ?bs1 ! Suc ?n OR drop_bit (8 - ?i) u]"
    obtain c' where c': "wc_advance_bits bits (c\<lparr>wc_bytes := ?bs'\<rparr>) = Some c'"
      using check [of ?bs'] by (simp add: wc_advance_bits_def Let_def)
    have "\<not> ?i \<le> 8 - bits" using split assms(2) by simp
    then have "write_up_to_u8 v bits c = Some c'"
      using assms(2) False check0 n n1 c' by (simp add: write_up_to_u8_def wc_update_remaining_eq u_def Let_def)
    moreover have "wc_extends c bits (bit v) c'"
    proof (rule extends_by_or [OF inv _ _ c'])
      fix k
      have "bit_at ?bs' k \<longleftrightarrow> bit_at ?bs1 k \<or> k div 8 = Suc ?n \<and> bit (drop_bit (8 - ?i) u) (k mod 8)"
        using n1 by (intro or_byte) simp
      also have "bit_at ?bs1 k \<longleftrightarrow> bit_at ?bs k \<or> k div 8 = ?n \<and> bit (push_bit ?i u) (k mod 8)"
        using n by (rule or_byte)
      finally show "bit_at ?bs' k \<longleftrightarrow> bit_at ?bs k \<or>
          bits_written c \<le> k \<and> k < bits_written c + bits \<and> bit v (k - bits_written c)"
        using field_across_bytes [OF p(2) assms(2) _ u, of k ?n] split unfolding p(1) by auto
    qed simp
    ultimately show ?thesis by blast
  qed
qed

lemma write_up_to_u8_full:
  assumes "wc_inv c" and "bits \<le> 8" and "0 < bits" and "8 * length (wc_bytes c) < bits_written c + bits"
  shows "write_up_to_u8 v bits c = None"
proof -
  let ?n = "wc_bytes_written c" and ?i = "wc_bit_index c"
  have "\<not> ?n < length (wc_bytes c) \<or> \<not> ?i \<le> 8 - bits \<and> \<not> Suc ?n < length (wc_bytes c)"
    using assms by (auto simp: bits_written_def wc_inv_def)
  then show ?thesis
    using assms(2, 3) by (auto simp: write_up_to_u8_def wc_update_remaining_eq Let_def bind_eq_None_conv)
qed

section \<open>Sequences of writes\<close>

lemma wc_extends_trans:
  assumes "wc_extends c n v c1" and "wc_extends c1 m w c2"
  shows "wc_extends c (n + m) (\<lambda>k. if k < n then v k else w (k - n)) c2"
proof -
  have "bit_at (wc_bytes c2) (bits_written c + k) = (if k < n then v k else w (k - n))" if "k < n + m" for k
  proof (cases "k < n")
    case True
    then show ?thesis using assms by (auto simp: wc_extends_def)
  next
    case False
    then obtain j where "k = n + j" by (metis le_iff_add not_less)
    then show ?thesis using assms that False by (auto simp: wc_extends_def add.assoc)
  qed
  then show ?thesis using assms by (auto simp: wc_extends_def)
qed

lemma wc_extends_cong:
  assumes "wc_extends c n v c'" and "n = m" and "\<And>k. k < m \<Longrightarrow> v k = w k"
  shows "wc_extends c m w c'"
  using assms by (simp add: wc_extends_def)

lemma wc_extends_refl: "wc_inv c \<Longrightarrow> wc_extends c 0 v c"
  by (simp add: wc_extends_def)

lemma wc_extendsD:
  assumes "wc_extends c n v c'"
  shows "wc_inv c'" "bits_written c' = bits_written c + n" "length (wc_bytes c') = length (wc_bytes c)"
  using assms by (simp_all add: wc_extends_def)

lemma write_whole_bytes_spec:
  assumes "wc_inv c" and "bits_written c + 8 * n \<le> 8 * length (wc_bytes c)"
  shows "\<exists>c'. write_whole_bytes n v c = Some (drop_bit (8 * n) v, c') \<and> wc_extends c (8 * n) (bit v) c'"
  using assms
proof (induction n arbitrary: v c)
  case 0
  then show ?case by (simp add: wc_extends_refl)
next
  case (Suc n)
  from write_up_to_u8_spec [OF Suc.prems(1), of 8 "ucast v"] Suc.prems(2)
  obtain c1 where c1: "write_up_to_u8 (ucast v) 8 c = Some c1" "wc_extends c 8 (bit (ucast v :: u8)) c1" by auto
  from Suc.IH [OF wc_extendsD(1) [OF c1(2)], of "drop_bit 8 v"] Suc.prems(2) wc_extendsD [OF c1(2)]
  obtain c2 where c2: "write_whole_bytes n (drop_bit 8 v) c1 = Some (drop_bit (8 * n) (drop_bit 8 v), c2)"
      "wc_extends c1 (8 * n) (bit (drop_bit 8 v)) c2" by auto
  have "wc_extends c (8 * Suc n) (bit v) c2"
    using wc_extends_trans [OF c1(2) c2(2)]
    by (rule wc_extends_cong) (auto simp: bit_simps split: if_splits)
  with c1(1) c2(1) show ?case by (simp add: drop_bit_drop_bit add.commute)
qed

lemma write_whole_bytes_full:
  assumes "wc_inv c" and "8 * length (wc_bytes c) < bits_written c + 8 * n"
    and "bits_written c \<le> 8 * length (wc_bytes c)"
  shows "write_whole_bytes n v c = None"
  using assms
proof (induction n arbitrary: v c)
  case (Suc n)
  show ?case
  proof (cases "bits_written c + 8 \<le> 8 * length (wc_bytes c)")
    case True
    from write_up_to_u8_spec [OF Suc.prems(1) _ True, of "ucast v"]
    obtain c1 where c1: "write_up_to_u8 (ucast v) 8 c = Some c1" "wc_extends c 8 (bit (ucast v :: u8)) c1" by auto
    with Suc.IH [of c1] wc_extendsD [OF c1(2)] Suc.prems(2) True show ?thesis by simp
  next
    case False
    with write_up_to_u8_full [OF Suc.prems(1)] show ?thesis by simp
  qed
qed simp

text \<open>The body shared by the three widths.\<close>

lemma write_bits_spec:
  fixes v :: "'a::len word"
  assumes "wc_inv c" and "bits_written c + bits \<le> 8 * length (wc_bytes c)" and "bits \<le> LENGTH('a)"
  shows "\<exists>c'. do {
      (value, c) \<leftarrow> write_whole_bytes (bits div 8) v c;
      write_up_to_u8 (ucast value) (bits mod 8) c
    } = Some c' \<and> wc_extends c bits (bit v) c'"
proof -
  let ?n = "bits div 8"
  have b: "8 * ?n + bits mod 8 = bits" by simp
  from write_whole_bytes_spec [OF assms(1), of ?n v] assms(2) b
  obtain c1 where c1: "write_whole_bytes ?n v c = Some (drop_bit (8 * ?n) v, c1)" "wc_extends c (8 * ?n) (bit v) c1"
    by (auto simp: algebra_simps)
  have "bits_written c1 + bits mod 8 \<le> 8 * length (wc_bytes c1)"
    using wc_extendsD [OF c1(2)] assms(2) b by simp
  from write_up_to_u8_spec [OF wc_extendsD(1) [OF c1(2)] _ this, of "ucast (drop_bit (8 * ?n) v)"]
  obtain c2 where c2: "write_up_to_u8 (ucast (drop_bit (8 * ?n) v)) (bits mod 8) c1 = Some c2"
      "wc_extends c1 (bits mod 8) (bit (ucast (drop_bit (8 * ?n) v) :: u8)) c2" by auto
  have "wc_extends c bits (bit v) c2"
    using wc_extends_trans [OF c1(2) c2(2)] b
    by (rule wc_extends_cong) (auto simp: bit_simps)
  with c1(1) c2(1) show ?thesis by simp
qed

lemma write_bits_full:
  fixes v :: "'a::len word"
  assumes "wc_inv c" and "8 * length (wc_bytes c) < bits_written c + bits"
    and "bits_written c \<le> 8 * length (wc_bytes c)"
  shows "do {
      (value, c) \<leftarrow> write_whole_bytes (bits div 8) v c;
      write_up_to_u8 (ucast value) (bits mod 8) c
    } = None"
proof (cases "bits_written c + 8 * (bits div 8) \<le> 8 * length (wc_bytes c)")
  case True
  from write_whole_bytes_spec [OF assms(1) True, of v]
  obtain c1 where c1: "write_whole_bytes (bits div 8) v c = Some (drop_bit (8 * (bits div 8)) v, c1)"
      "wc_extends c (8 * (bits div 8)) (bit v) c1" by auto
  have "8 * (bits div 8) + bits mod 8 = bits" by simp
  then have "8 * length (wc_bytes c1) < bits_written c1 + bits mod 8" "0 < bits mod 8"
    using wc_extendsD [OF c1(2)] assms(2) True by linarith+
  with c1(1) write_up_to_u8_full [OF wc_extendsD(1) [OF c1(2)]] show ?thesis by simp
qed (use assms in \<open>simp add: write_whole_bytes_full\<close>)

section \<open>The other writes\<close>

lemma wc_advance_bits_total:
  assumes "wc_bytes_written c \<le> length (wc_bytes c)" and "bits_written c + n \<le> 8 * length (wc_bytes c)"
  shows "\<exists>c'. wc_advance_bits n c = Some c'"
proof -
  have "wc_bytes_written c * 8 + (wc_bit_index c + n) \<le> 8 * length (wc_bytes c)"
    using assms(2) by (simp add: bits_written_def)
  then have "(wc_bytes_written c * 8 + (wc_bit_index c + n)) div 8 \<le> length (wc_bytes c)" by simp
  then show ?thesis by (simp add: wc_advance_bits_def wc_check_length_def Let_def)
qed

lemma wc_skip_bits_spec:
  assumes "wc_inv c" and "bits_written c + n \<le> 8 * length (wc_bytes c)"
  shows "\<exists>c'. wc_skip_bits n c = Some c' \<and> wc_extends c n (\<lambda>_. False) c'"
proof -
  obtain c' where c': "wc_advance_bits n c = Some c'"
    using wc_advance_bits_total [of c n] assms by (auto simp: wc_inv_def)
  then have "wc_skip_bits n c = Some c'" by (auto simp: wc_skip_bits_def wc_advance_bits_def split: if_splits)
  moreover have "wc_extends c n (\<lambda>_. False) c'"
    using c' by (intro extends_by_or [OF assms(1), of "wc_bytes c"]) simp_all
  ultimately show ?thesis by blast
qed

definition align_bits :: "nat \<Rightarrow> nat" where
  "align_bits p = (8 - p mod 8) mod 8"

lemma align_bits_aligned: "(p + align_bits p) mod 8 = 0"
proof (cases "p mod 8 = 0")
  case False
  obtain r where r: "8 = p mod 8 + r" using mod_less_divisor [of 8 p] by (metis less_imp_add_positive zero_less_numeral)
  with False have "align_bits p = r" by (simp add: align_bits_def)
  moreover have "(p + r) mod 8 = (p mod 8 + r) mod 8" by (simp add: mod_add_left_eq)
  ultimately show ?thesis using r by simp
qed (simp add: align_bits_def)

lemma wc_align_spec:
  assumes "wc_inv c" and "bits_written c \<le> 8 * length (wc_bytes c)"
  shows "\<exists>c'. wc_align_to_8_bits c = Some c' \<and> wc_extends c (align_bits (bits_written c)) (\<lambda>_. False) c'"
proof (cases "wc_bit_index c = 0")
  case True
  with assms(1) show ?thesis by (simp add: wc_align_to_8_bits_def align_bits_def bits_written_def wc_extends_refl)
next
  case False
  have i: "wc_bit_index c < 8" using assms(1) by (simp add: wc_inv_def)
  then have a: "align_bits (bits_written c) = 8 - wc_bit_index c"
    using False by (simp add: align_bits_def bits_written_def)
  have "wc_bytes_written c < length (wc_bytes c)" using assms(2) False by (simp add: bits_written_def)
  then have "bits_written c + (8 - wc_bit_index c) \<le> 8 * length (wc_bytes c)"
    using i by (simp add: bits_written_def)
  from wc_skip_bits_spec [OF assms(1) this] show ?thesis using False a by (simp add: wc_align_to_8_bits_def)
qed

lemma bit_at_copy:
  assumes "n + length bs \<le> length xs"
  shows "bit_at (take n xs @ bs @ drop (n + length bs) xs) k =
    (if n * 8 \<le> k \<and> k < n * 8 + 8 * length bs then bit_at bs (k - n * 8) else bit_at xs k)"
proof -
  define q j where "q = k div 8" and "j = k mod 8"
  have k: "k = q * 8 + j" "j < 8" by (simp_all add: q_def j_def)
  have at: "bit_at ys (q * 8 + j) \<longleftrightarrow> q < length ys \<and> bit (ys ! q) j" for ys
    using k(2) by (simp add: bit_at_def)
  consider "q < n" | r where "q = n + r" "r < length bs" | "n + length bs \<le> q"
    by (metis le_iff_add less_or_eq_imp_le linorder_not_le nat_add_left_cancel_less)
  then show ?thesis
  proof cases
    case 1
    with k assms show ?thesis unfolding k(1) at by (auto simp: nth_append)
  next
    case 2
    then have "n * 8 \<le> k" "k < n * 8 + 8 * length bs" "k - n * 8 = r * 8 + j" using k by auto
    moreover have "bit_at bs (r * 8 + j) \<longleftrightarrow> bit (bs ! r) j" using 2 k(2) by (simp add: bit_at_def)
    ultimately show ?thesis using 2 assms unfolding k(1) at by (auto simp: nth_append)
  next
    case 3
    with k assms show ?thesis unfolding k(1) at by (auto simp: nth_append)
  qed
qed

lemma write_aligned_bytes_spec:
  assumes "wc_inv c" and "wc_bit_index c = 0" and "bits_written c + 8 * length bs \<le> 8 * length (wc_bytes c)"
  shows "\<exists>c'. write_aligned_bytes bs c = Some c' \<and> wc_extends c (8 * length bs) (bit_at bs) c'"
proof -
  let ?n = "wc_bytes_written c"
  have p: "bits_written c = ?n * 8" using assms(2) by (simp add: bits_written_def)
  then have fits: "?n + length bs \<le> length (wc_bytes c)" using assms(3) by simp
  let ?bs = "take ?n (wc_bytes c) @ bs @ drop (?n + length bs) (wc_bytes c)"
  have len: "length ?bs = length (wc_bytes c)" using fits by simp
  have "\<exists>c'. wc_advance_bits (8 * length bs) (c\<lparr>wc_bytes := ?bs\<rparr>) = Some c'"
    using assms fits by (intro wc_advance_bits_total) (simp_all add: wc_inv_def bits_written_def)
  then obtain c' where c': "wc_advance_bits (8 * length bs) (c\<lparr>wc_bytes := ?bs\<rparr>) = Some c'" by blast
  have zero: "\<not> bit_at (wc_bytes c) k" if "?n * 8 \<le> k" for k using assms(1) that p by (simp add: wc_inv_def)
  have or: "bit_at ?bs k \<longleftrightarrow> bit_at (wc_bytes c) k \<or>
      bits_written c \<le> k \<and> k < bits_written c + 8 * length bs \<and> bit_at bs (k - bits_written c)" for k
    unfolding bit_at_copy [OF fits] p using zero [of k] by auto
  have "wc_extends c (8 * length bs) (bit_at bs) c'" by (rule extends_by_or [OF assms(1) or len c'])
  moreover have "write_aligned_bytes bs c = Some c'"
    using c' fits by (simp add: write_aligned_bytes_def wc_copy_remaining_def Let_def)
  ultimately show ?thesis by blast
qed

lemma bit_at_le_bytes:
  fixes w :: "'a::len word"
  shows "bit_at (le_bytes n w) k \<longleftrightarrow> k < 8 * n \<and> bit w k"
proof -
  have "8 * (k div 8) + k mod 8 = k" "k div 8 < n \<longleftrightarrow> k < 8 * n" by auto
  then show ?thesis using bit_imp_le_length [of w k] by (auto simp: bit_at_def le_bytes_def bit_simps)
qed

lemma wc_update_copy:
  "wc_update_remaining 0 (\<lambda>_. v) c = wc_copy_remaining [v] c"
  by (simp add: wc_update_remaining_def wc_copy_remaining_def Let_def upd_conv_take_nth_drop)

text \<open>All aligned writes are instances of copying bytes.\<close>

lemma write_aligned_eq:
  assumes "wc_bit_index c = 0"
  shows "write_aligned_u8 v c = write_aligned_bytes (le_bytes 1 v) c"
    "write_aligned_u16 w c = write_aligned_bytes (le_bytes 2 w) c"
    "write_aligned_u32 x c = write_aligned_bytes (le_bytes 4 x) c"
    "write_aligned_u64 y c = write_aligned_bytes (le_bytes 8 y) c"
  using assms
  by (simp_all add: write_aligned_u8_def write_aligned_u16_def write_aligned_u32_def write_aligned_u64_def
      write_aligned_bytes_def wc_is_aligned_to_8_bits_def wc_update_copy le_bytes_def)

lemma write_bytes_spec:
  assumes "wc_inv c" and "bits_written c + 8 * length bs \<le> 8 * length (wc_bytes c)"
  shows "\<exists>c'. write_bytes bs c = Some c' \<and> wc_extends c (8 * length bs) (bit_at bs) c'"
  using assms
proof (induction bs arbitrary: c)
  case Nil
  then show ?case by (simp add: wc_extends_refl)
next
  case (Cons b bs)
  from write_up_to_u8_spec [OF Cons.prems(1), of 8 b] Cons.prems(2)
  obtain c1 where c1: "write_u1_to_u8 8 b c = Some c1" "wc_extends c 8 (bit b) c1"
    by (auto simp: write_u1_to_u8_def)
  from Cons.IH [OF wc_extendsD(1) [OF c1(2)]] Cons.prems(2) wc_extendsD [OF c1(2)]
  obtain c2 where c2: "write_bytes bs c1 = Some c2" "wc_extends c1 (8 * length bs) (bit_at bs) c2" by auto
  have "wc_extends c (8 * length (b # bs)) (bit_at (b # bs)) c2"
    using wc_extends_trans [OF c1(2) c2(2)]
    by (rule wc_extends_cong) (auto simp: bit_at_def nth_Cons' div_eq_0_iff le_div_geq not_less le_mod_geq)
  with c1(1) c2(1) show ?case by auto
qed

end
