(* ===== verification/Enc_Read.thy ===== *)
theory Enc_Read
  imports Enc_Write
begin

text \<open>
  The deserializing cursor (canadensis\_encoding: \<^verbatim>\<open>cursor/deserialize.rs\<close>). Reading beyond the
  end gives zeros. \<open>None\<close> is a panic: an unaligned cursor where alignment is asserted, a failed
  debug assertion of a private function, or, with debug assertions (\<open>dbg\<close>), a shift by the
  width of the type.
\<close>

datatype DeserializeError = ArrayLength | UnionTag | DelimitedLength

section \<open>Cursor\<close>

record ReadCursor =
  rc_bytes :: "u8 list"
  rc_bit_index :: nat

definition read_cursor_new :: "u8 list \<Rightarrow> ReadCursor" where
  "read_cursor_new bytes = \<lparr>rc_bytes = bytes, rc_bit_index = 0\<rparr>"

definition rc_as_bytes :: "ReadCursor \<Rightarrow> u8 list option" where
  "rc_as_bytes c = (if rc_bit_index c = 0 then Some (rc_bytes c) else None)"

definition rc_is_aligned_to_8_bits :: "ReadCursor \<Rightarrow> bool" where
  "rc_is_aligned_to_8_bits c \<longleftrightarrow> rc_bit_index c = 0"

definition read_current :: "ReadCursor \<Rightarrow> u8" where
  "read_current c = (if 0 < length (rc_bytes c) then rc_bytes c ! 0 else 0)"

definition read_next :: "ReadCursor \<Rightarrow> u8" where
  "read_next c = (if 1 < length (rc_bytes c) then rc_bytes c ! 1 else 0)"

definition rc_advance_bytes :: "nat \<Rightarrow> ReadCursor \<Rightarrow> ReadCursor" where
  "rc_advance_bytes byte_increment c =
     (let real_byte_increment = min byte_increment (length (rc_bytes c)) in
      c\<lparr>rc_bytes := drop real_byte_increment (rc_bytes c)\<rparr>)"

definition rc_advance_bits :: "nat \<Rightarrow> ReadCursor \<Rightarrow> ReadCursor" where
  "rc_advance_bits bits c =
     (let extended_bit_index = rc_bit_index c + bits in
      rc_advance_bytes (extended_bit_index div 8) (c\<lparr>rc_bit_index := extended_bit_index mod 8\<rparr>))"

definition rc_align_to_8_bits :: "ReadCursor \<Rightarrow> ReadCursor" where
  "rc_align_to_8_bits c = (if rc_bit_index c \<noteq> 0 then rc_advance_bits (8 - rc_bit_index c) c else c)"

section \<open>Unsigned integers\<close>

definition read_up_to_u8 :: "nat \<Rightarrow> ReadCursor \<Rightarrow> (u8 \<times> ReadCursor) option" where
  "read_up_to_u8 bits c =
     (if \<not> bits \<le> 8 then None
      else if bits = 0 then Some (0, c)
      else
        (let value =
           (if rc_bit_index c \<le> 8 - bits then drop_bit (rc_bit_index c) (read_current c)
            else
              (let current_bits = drop_bit (rc_bit_index c) (read_current c);
                   next_bits = push_bit (8 - rc_bit_index c) (read_next c) in
               next_bits OR current_bits));
           msk = ucast ((push_bit bits 1 :: u16) - 1) in
         Some (value AND msk, rc_advance_bits bits c)))"

definition read_up_to_u16 :: "nat \<Rightarrow> ReadCursor \<Rightarrow> (u16 \<times> ReadCursor) option" where
  "read_up_to_u16 bits c =
     (if \<not> bits \<le> 16 then None
      else do {
        (value, shift_bits, c) \<leftarrow>
          (if bits > 8 then do { (v, c) \<leftarrow> read_up_to_u8 8 c; Some (ucast v, 8, c) } else Some (0, 0, c));
        (v, c) \<leftarrow> read_up_to_u8 (bits mod 8) c;
        Some (value OR push_bit shift_bits (ucast v), c)
      })"

text \<open>The loop over the whole bytes of a value, least significant first.\<close>

fun read_whole_bytes :: "nat \<Rightarrow> 'a::len word \<Rightarrow> nat \<Rightarrow> ReadCursor \<Rightarrow> ('a word \<times> nat \<times> ReadCursor) option" where
  "read_whole_bytes 0 value shift_bits c = Some (value, shift_bits, c)"
| "read_whole_bytes (Suc n) value shift_bits c =
     do {
       (v, c) \<leftarrow> read_up_to_u8 8 c;
       read_whole_bytes n (value OR push_bit shift_bits (ucast v)) (shift_bits + 8) c
     }"

definition read_up_to_u32 :: "bool \<Rightarrow> nat \<Rightarrow> ReadCursor \<Rightarrow> (u32 \<times> ReadCursor) option" where
  "read_up_to_u32 dbg bits c =
     (if \<not> bits \<le> 32 then None
      else do {
        (value, shift_bits, c) \<leftarrow> read_whole_bytes (bits div 8) 0 0 c;
        (v, c) \<leftarrow> read_up_to_u8 (bits mod 8) c;
        if dbg \<and> shift_bits \<ge> 32 then None
        else Some (value OR push_bit (shift_bits mod 32) (ucast v), c)
      })"

definition read_up_to_u64 :: "nat \<Rightarrow> ReadCursor \<Rightarrow> (u64 \<times> ReadCursor) option" where
  "read_up_to_u64 bits c =
     (if \<not> bits \<le> 64 then None
      else do {
        (value, shift_bits, c) \<leftarrow> read_whole_bytes (bits div 8) 0 0 c;
        if bits \<noteq> 64 then do {
          (v, c) \<leftarrow> read_up_to_u8 (bits mod 8) c;
          Some (value OR push_bit shift_bits (ucast v), c)
        } else Some (value, c)
      })"

section \<open>Aligned values\<close>

definition read_aligned_u8 :: "ReadCursor \<Rightarrow> (u8 \<times> ReadCursor) option" where
  "read_aligned_u8 c =
     (if rc_is_aligned_to_8_bits c then Some (read_current c, rc_advance_bytes 1 c) else None)"

definition read_aligned_u16 :: "ReadCursor \<Rightarrow> (u16 \<times> ReadCursor) option" where
  "read_aligned_u16 c =
     do {
       (lsb, c) \<leftarrow> read_aligned_u8 c;
       (msb, c) \<leftarrow> read_aligned_u8 c;
       Some (push_bit 8 (ucast msb) OR ucast lsb, c)
     }"

definition read_aligned_u32 :: "ReadCursor \<Rightarrow> (u32 \<times> ReadCursor) option" where
  "read_aligned_u32 c =
     do {
       (lsbs, c) \<leftarrow> read_aligned_u16 c;
       (msbs, c) \<leftarrow> read_aligned_u16 c;
       Some (push_bit 16 (ucast msbs) OR ucast lsbs, c)
     }"

definition read_aligned_u64 :: "ReadCursor \<Rightarrow> (u64 \<times> ReadCursor) option" where
  "read_aligned_u64 c =
     do {
       (lsbs, c) \<leftarrow> read_aligned_u32 c;
       (msbs, c) \<leftarrow> read_aligned_u32 c;
       Some (push_bit 32 (ucast msbs) OR ucast lsbs, c)
     }"

section \<open>The public functions that delegate\<close>

text \<open>The families \<^verbatim>\<open>read_u1\<close> to \<^verbatim>\<open>read_u64\<close> and \<^verbatim>\<open>skip_1\<close> to \<^verbatim>\<open>skip_64\<close>, indexed by the width in their names.\<close>

definition read_u1_to_u8 :: "nat \<Rightarrow> ReadCursor \<Rightarrow> (u8 \<times> ReadCursor) option" where
  "read_u1_to_u8 n c = read_up_to_u8 n c"

definition read_u9_to_u15 :: "nat \<Rightarrow> ReadCursor \<Rightarrow> (u16 \<times> ReadCursor) option" where
  "read_u9_to_u15 n c = read_up_to_u16 n c"

definition read_u16 :: "bool \<Rightarrow> ReadCursor \<Rightarrow> (u16 \<times> ReadCursor) option" where
  "read_u16 dbg c = do { (v, c) \<leftarrow> read_up_to_u32 dbg 16 c; Some (ucast v, c) }"

definition read_u17_to_u31 :: "bool \<Rightarrow> nat \<Rightarrow> ReadCursor \<Rightarrow> (u32 \<times> ReadCursor) option" where
  "read_u17_to_u31 dbg n c = read_up_to_u32 dbg n c"

definition read_u32 :: "ReadCursor \<Rightarrow> (u32 \<times> ReadCursor) option" where
  "read_u32 c = do { (v, c) \<leftarrow> read_up_to_u64 32 c; Some (ucast v, c) }"

definition read_u33_to_u64 :: "nat \<Rightarrow> ReadCursor \<Rightarrow> (u64 \<times> ReadCursor) option" where
  "read_u33_to_u64 n c = read_up_to_u64 n c"

definition rc_skip :: "nat \<Rightarrow> ReadCursor \<Rightarrow> ReadCursor" where
  "rc_skip n c = rc_advance_bits n c"

definition read_f16 :: "bool \<Rightarrow> ReadCursor \<Rightarrow> (u16 \<times> ReadCursor) option" where
  "read_f16 dbg c = read_u16 dbg c"

definition read_aligned_f16 :: "ReadCursor \<Rightarrow> (u16 \<times> ReadCursor) option" where
  "read_aligned_f16 c = read_aligned_u16 c"

definition read_f32 :: "ReadCursor \<Rightarrow> (u32 \<times> ReadCursor) option" where
  "read_f32 c = read_u32 c"

definition read_aligned_f32 :: "ReadCursor \<Rightarrow> (u32 \<times> ReadCursor) option" where
  "read_aligned_f32 c = read_aligned_u32 c"

definition read_f64 :: "ReadCursor \<Rightarrow> (u64 \<times> ReadCursor) option" where
  "read_f64 c = read_u33_to_u64 64 c"

definition read_aligned_f64 :: "ReadCursor \<Rightarrow> (u64 \<times> ReadCursor) option" where
  "read_aligned_f64 c = read_aligned_u64 c"

definition read_bool :: "ReadCursor \<Rightarrow> (bool \<times> ReadCursor) option" where
  "read_bool c = do { (v, c) \<leftarrow> read_u1_to_u8 1 c; Some (v = 1, c) }"

text \<open>\<^verbatim>\<open>read_bytes\<close> fills a slice of the given length.\<close>

fun read_bytes :: "nat \<Rightarrow> ReadCursor \<Rightarrow> (u8 list \<times> ReadCursor) option" where
  "read_bytes 0 c = Some ([], c)"
| "read_bytes (Suc n) c =
     do { (b, c) \<leftarrow> read_u1_to_u8 8 c; (bs, c) \<leftarrow> read_bytes n c; Some (b # bs, c) }"

definition rc_fork :: "nat \<Rightarrow> ReadCursor \<Rightarrow> (ReadCursor \<times> ReadCursor) option" where
  "rc_fork fork_bytes c =
     (if rc_bit_index c = 0 \<and> fork_bytes \<le> length (rc_bytes c) then
        Some (\<lparr>rc_bytes = take fork_bytes (rc_bytes c), rc_bit_index = 0\<rparr>,
              c\<lparr>rc_bytes := drop fork_bytes (rc_bytes c)\<rparr>)
      else None)"

definition read_composite ::
  "nat option \<Rightarrow> (ReadCursor \<Rightarrow> ((DeserializeError + 'a) \<times> ReadCursor) option) \<Rightarrow> ReadCursor
   \<Rightarrow> ((DeserializeError + 'a) \<times> ReadCursor) option" where
  "read_composite extent_bytes deserialize c =
     (let c = rc_align_to_8_bits c in
      do {
        (status, c) \<leftarrow>
          (if extent_bytes \<noteq> None then
             do {
               (composite_length, c) \<leftarrow> read_aligned_u32 c;
               if unat composite_length > length (rc_bytes c) then Some (Inl DelimitedLength, c)
               else do {
                 (forked, c) \<leftarrow> rc_fork (unat composite_length) c;
                 (status, _) \<leftarrow> deserialize forked;
                 Some (status, c)
               }
             }
           else deserialize c);
        Some (status, rc_align_to_8_bits c)
      })"

section \<open>Bits ahead of the cursor\<close>

definition rbit :: "ReadCursor \<Rightarrow> nat \<Rightarrow> bool" where
  "rbit c k \<longleftrightarrow> bit_at (rc_bytes c) (rc_bit_index c + k)"

lemma bit_at_drop: "bit_at (drop d bs) k \<longleftrightarrow> bit_at bs (d * 8 + k)"
  by (auto simp: bit_at_def div_mult_self3)

lemma rc_advance_bytes_eq: "rc_advance_bytes n c = c\<lparr>rc_bytes := drop n (rc_bytes c)\<rparr>"
  by (cases "n \<le> length (rc_bytes c)") (simp_all add: rc_advance_bytes_def Let_def min_def)

lemma rc_advance_bits_eq:
  "rc_advance_bits n c = \<lparr>rc_bytes = drop ((rc_bit_index c + n) div 8) (rc_bytes c),
     rc_bit_index = (rc_bit_index c + n) mod 8\<rparr>"
  by (cases c) (simp add: rc_advance_bits_def Let_def rc_advance_bytes_eq)

lemma rbit_advance: "rbit (rc_advance_bits n c) k \<longleftrightarrow> rbit c (n + k)"
proof -
  have "(rc_bit_index c + n) div 8 * 8 + ((rc_bit_index c + n) mod 8 + k) = rc_bit_index c + (n + k)"
    using div_mult_mod_eq [of "rc_bit_index c + n" 8] by linarith
  then show ?thesis by (simp add: rbit_def rc_advance_bits_eq bit_at_drop add.assoc)
qed

lemma rc_advance_bits_add:
  "rc_advance_bits m (rc_advance_bits n c) = rc_advance_bits (n + m) c"
proof -
  let ?x = "rc_bit_index c + n"
  have "(?x div 8 * 8 + (?x mod 8 + m)) div 8 = ?x div 8 + (?x mod 8 + m) div 8" by (rule div_mult_self3) simp
  moreover have "?x div 8 * 8 + (?x mod 8 + m) = rc_bit_index c + (n + m)"
    using div_mult_mod_eq [of ?x 8] by linarith
  ultimately have "(?x mod 8 + m) div 8 + ?x div 8 = (rc_bit_index c + (n + m)) div 8" by simp
  then show ?thesis by (simp add: rc_advance_bits_eq mod_add_left_eq add.assoc)
qed

text \<open>A read of \<open>n\<close> bits gives the value of the next \<open>n\<close> bits and advances by as many.\<close>

lemma read_up_to_u8_spec:
  assumes "rc_bit_index c < 8" and "n \<le> 8"
  shows "\<exists>v. read_up_to_u8 n c = Some (v, rc_advance_bits n c) \<and> (\<forall>k. bit v k \<longleftrightarrow> k < n \<and> rbit c k)"
proof (cases "n = 0")
  case True
  have "rc_advance_bits 0 c = c" using assms(1) by (simp add: rc_advance_bits_eq)
  then show ?thesis using True by (simp add: read_up_to_u8_def)
next
  case False
  let ?i = "rc_bit_index c"
  have cur: "bit (read_current c) j \<longleftrightarrow> bit_at (rc_bytes c) j" if "j < 8" for j
    using that by (simp add: read_current_def bit_at_def)
  have nxt: "bit (read_next c) j \<longleftrightarrow> bit_at (rc_bytes c) (8 + j)" if "j < 8" for j
    using that bit_at_split [of j "rc_bytes c" 1] by (auto simp: read_next_def)
  have bound: "bit b j \<Longrightarrow> j < 8" for b :: u8 and j using bit_imp_le_length [of b j] by simp
  define u where "u = (if ?i \<le> 8 - n then drop_bit ?i (read_current c)
    else push_bit (8 - ?i) (read_next c) OR drop_bit ?i (read_current c))"
  have "bit u k \<longleftrightarrow> rbit c k" if "k < n" for k
  proof (cases "?i + k < 8")
    case True
    then have "\<not> 8 - ?i \<le> k" by simp
    with True show ?thesis
      by (auto simp: u_def rbit_def bit_drop_bit_eq bit_or_iff bit_push_bit_iff cur)
  next
    case beyond: False
    obtain r where r: "8 = ?i + r" using assms(1) by (metis less_imp_add_positive)
    with beyond obtain j where j: "k = r + j" by (metis le_iff_add linorder_not_le nat_add_left_cancel_less)
    have "\<not> ?i \<le> 8 - n" "j < 8" using that beyond assms r j by auto
    moreover have "8 - ?i = r" "?i + k = 8 + j" using r j by auto
    moreover have "\<not> bit (read_current c) (8 + j)" using bound [of "read_current c" "8 + j"] by auto
    moreover have "bit (push_bit r (read_next c)) k \<longleftrightarrow> bit (read_next c) j"
      using j that assms(2) by (simp add: bit_push_bit_iff)
    ultimately show ?thesis by (simp add: u_def rbit_def bit_or_iff bit_drop_bit_eq nxt)
  qed
  then have "bit (u AND ucast ((push_bit n 1 :: u16) - 1)) k \<longleftrightarrow> k < n \<and> rbit c k" for k
    using masked_bits [OF assms(2), of u k] by blast
  moreover have "read_up_to_u8 n c = Some (u AND ucast ((push_bit n 1 :: u16) - 1), rc_advance_bits n c)"
    using assms(2) False by (simp add: read_up_to_u8_def u_def Let_def)
  ultimately show ?thesis by blast
qed

lemma rc_advance_bit_index [simp]: "rc_bit_index (rc_advance_bits n c) = (rc_bit_index c + n) mod 8"
  by (simp add: rc_advance_bits_eq)

lemma rc_advance_zero: "rc_bit_index c < 8 \<Longrightarrow> rc_advance_bits 0 c = c"
  by (simp add: rc_advance_bits_eq)

lemma bit_or_shifted:
  fixes u :: "'a::len word" and v :: u8
  assumes "\<And>k. bit v k \<longleftrightarrow> k < n \<and> f k" and "s + n \<le> LENGTH('a)"
  shows "bit (u OR push_bit s (ucast v)) k \<longleftrightarrow> bit u k \<or> s \<le> k \<and> k < s + n \<and> f (k - s)"
  using assms(2) less_diff_conv2 [of s k n] by (auto simp: bit_simps assms(1) bit_ucast_iff)

lemma read_whole_bytes_spec:
  fixes u :: "'a::len word"
  assumes "rc_bit_index c < 8" and "s + 8 * n \<le> LENGTH('a)"
  shows "\<exists>v. read_whole_bytes n u s c = Some (v, s + 8 * n, rc_advance_bits (8 * n) c)
    \<and> (\<forall>k. bit v k \<longleftrightarrow> bit u k \<or> s \<le> k \<and> k < s + 8 * n \<and> rbit c (k - s))"
  using assms
proof (induction n arbitrary: u s c)
  case 0
  then show ?case by (auto simp: rc_advance_zero)
next
  case (Suc n)
  obtain b where b: "read_up_to_u8 8 c = Some (b, rc_advance_bits 8 c)" "\<And>k. bit b k \<longleftrightarrow> k < 8 \<and> rbit c k"
    using read_up_to_u8_spec [OF Suc.prems(1), of 8] by auto
  let ?u = "u OR push_bit s (ucast b)"
  obtain v where v: "read_whole_bytes n ?u (s + 8) (rc_advance_bits 8 c) =
      Some (v, s + 8 + 8 * n, rc_advance_bits (8 * n) (rc_advance_bits 8 c))"
    "\<And>k. bit v k \<longleftrightarrow> bit ?u k \<or> s + 8 \<le> k \<and> k < s + 8 + 8 * n \<and> rbit (rc_advance_bits 8 c) (k - (s + 8))"
    using Suc.IH [of "rc_advance_bits 8 c" "s + 8" ?u] Suc.prems by auto
  have u: "bit ?u k \<longleftrightarrow> bit u k \<or> s \<le> k \<and> k < s + 8 \<and> rbit c (k - s)" for k
    using Suc.prems(2) by (intro bit_or_shifted b(2)) simp
  have "bit v k \<longleftrightarrow> bit u k \<or> s \<le> k \<and> k < s + 8 * Suc n \<and> rbit c (k - s)" for k
  proof (cases "s + 8 \<le> k")
    case True
    then have "8 + (k - (s + 8)) = k - s" by simp
    with True show ?thesis unfolding v(2) u rbit_advance by auto
  next
    case False
    then show ?thesis unfolding v(2) u by auto
  qed
  with b(1) v(1) show ?case by (simp add: rc_advance_bits_add algebra_simps)
qed

text \<open>Whole bytes, then the rest.\<close>

lemma read_bits_spec:
  assumes "rc_bit_index c < 8" and "8 * (n div 8) \<le> LENGTH('a::len)"
  obtains u :: "'a::len word" and v where
    "read_whole_bytes (n div 8) 0 0 c = Some (u, 8 * (n div 8), rc_advance_bits (8 * (n div 8)) c)"
    and "read_up_to_u8 (n mod 8) (rc_advance_bits (8 * (n div 8)) c) = Some (v, rc_advance_bits n c)"
    and "n \<le> LENGTH('a) \<longrightarrow> (\<forall>k. bit (u OR push_bit (8 * (n div 8)) (ucast v)) k \<longleftrightarrow> k < n \<and> rbit c k)"
    and "n mod 8 = 0 \<longrightarrow> (\<forall>k. bit u k \<longleftrightarrow> k < n \<and> rbit c k)"
proof -
  let ?m = "8 * (n div 8)"
  have n: "?m + n mod 8 = n" by simp
  obtain u :: "'a word" where u: "read_whole_bytes (n div 8) 0 0 c = Some (u, ?m, rc_advance_bits ?m c)"
    "\<And>k. bit u k \<longleftrightarrow> k < ?m \<and> rbit c k"
    using read_whole_bytes_spec [OF assms(1), of 0 "n div 8" "0 :: 'a word"] assms(2) by auto
  have "rc_bit_index (rc_advance_bits ?m c) < 8" by simp
  from read_up_to_u8_spec [OF this, of "n mod 8"]
  obtain v where v: "read_up_to_u8 (n mod 8) (rc_advance_bits ?m c) = Some (v, rc_advance_bits n c)"
    "\<And>k. bit v k \<longleftrightarrow> k < n mod 8 \<and> rbit (rc_advance_bits ?m c) k"
    by (auto simp: rc_advance_bits_add n)
  have whole: "bit (u OR push_bit ?m (ucast v)) k \<longleftrightarrow> k < n \<and> rbit c k" if "n \<le> LENGTH('a)" for k
  proof -
    have "bit (u OR push_bit ?m (ucast v)) k \<longleftrightarrow>
        bit u k \<or> ?m \<le> k \<and> k < ?m + n mod 8 \<and> rbit (rc_advance_bits ?m c) (k - ?m)"
      using that n by (intro bit_or_shifted v(2)) simp
    then show ?thesis unfolding u(2) rbit_advance n using n by auto
  qed
  have "bit u k \<longleftrightarrow> k < n \<and> rbit c k" if "n mod 8 = 0" for k using u(2) n that by simp
  then show thesis using whole by (intro that [OF u(1) v(1)] impI allI)
qed

lemma read_up_to_u64_spec:
  assumes "rc_bit_index c < 8" and "n \<le> 64"
  shows "\<exists>v. read_up_to_u64 n c = Some (v, rc_advance_bits n c) \<and> (\<forall>k. bit v k \<longleftrightarrow> k < n \<and> rbit c k)"
proof -
  obtain u :: u64 and v where uv:
    "read_whole_bytes (n div 8) 0 0 c = Some (u, 8 * (n div 8), rc_advance_bits (8 * (n div 8)) c)"
    "read_up_to_u8 (n mod 8) (rc_advance_bits (8 * (n div 8)) c) = Some (v, rc_advance_bits n c)"
    "n \<le> LENGTH(64) \<longrightarrow> (\<forall>k. bit (u OR push_bit (8 * (n div 8)) (ucast v)) k \<longleftrightarrow> k < n \<and> rbit c k)"
    "n mod 8 = 0 \<longrightarrow> (\<forall>k. bit u k \<longleftrightarrow> k < n \<and> rbit c k)"
    by (rule read_bits_spec [OF assms(1), of n, where 'a = 64]) (use assms(2) in simp_all)
  show ?thesis
  proof (cases "n = 64")
    case True
    with uv show ?thesis by (simp add: read_up_to_u64_def)
  next
    case False
    with uv assms(2) show ?thesis by (simp add: read_up_to_u64_def)
  qed
qed

lemma read_up_to_u32_spec:
  assumes "rc_bit_index c < 8" and "n < 32"
  shows "\<exists>v. read_up_to_u32 dbg n c = Some (v, rc_advance_bits n c) \<and> (\<forall>k. bit v k \<longleftrightarrow> k < n \<and> rbit c k)"
proof -
  obtain u :: u32 and v where uv:
    "read_whole_bytes (n div 8) 0 0 c = Some (u, 8 * (n div 8), rc_advance_bits (8 * (n div 8)) c)"
    "read_up_to_u8 (n mod 8) (rc_advance_bits (8 * (n div 8)) c) = Some (v, rc_advance_bits n c)"
    "n \<le> LENGTH(32) \<longrightarrow> (\<forall>k. bit (u OR push_bit (8 * (n div 8)) (ucast v)) k \<longleftrightarrow> k < n \<and> rbit c k)"
    "n mod 8 = 0 \<longrightarrow> (\<forall>k. bit u k \<longleftrightarrow> k < n \<and> rbit c k)"
    by (rule read_bits_spec [OF assms(1), of n, where 'a = 32]) (use assms(2) in simp_all)
  moreover have "8 * (n div 8) < 32" using assms(2) by simp
  ultimately show ?thesis using assms(2) by (simp add: read_up_to_u32_def)
qed

lemma read_up_to_u16_spec:
  assumes "rc_bit_index c < 8" and "8 < n" and "n < 16"
  shows "\<exists>v. read_up_to_u16 n c = Some (v, rc_advance_bits n c) \<and> (\<forall>k. bit v k \<longleftrightarrow> k < n \<and> rbit c k)"
proof -
  have n: "n mod 8 = n - 8" "8 + (n - 8) = n" using assms by (simp_all add: mod_if)
  obtain u where u: "read_up_to_u8 8 c = Some (u, rc_advance_bits 8 c)" "\<And>k. bit u k \<longleftrightarrow> k < 8 \<and> rbit c k"
    using read_up_to_u8_spec [OF assms(1), of 8] by auto
  have "rc_bit_index (rc_advance_bits 8 c) < 8" "n - 8 \<le> 8" using assms by simp_all
  from read_up_to_u8_spec [OF this]
  obtain v where v: "read_up_to_u8 (n - 8) (rc_advance_bits 8 c) = Some (v, rc_advance_bits n c)"
    "\<And>k. bit v k \<longleftrightarrow> k < n - 8 \<and> rbit c (8 + k)"
    by (auto simp: rc_advance_bits_add rbit_advance n)
  have "bit (ucast u OR push_bit 8 (ucast v) :: u16) k \<longleftrightarrow> k < n \<and> rbit c k" for k
  proof -
    have "bit (ucast u OR push_bit 8 (ucast v) :: u16) k \<longleftrightarrow>
        bit (ucast u :: u16) k \<or> 8 \<le> k \<and> k < 8 + (n - 8) \<and> rbit c (8 + (k - 8))"
      using assms by (intro bit_or_shifted v(2)) simp
    then show ?thesis using assms(2) by (auto simp: bit_ucast_iff u(2) n)
  qed
  with u(1) v(1) n assms show ?thesis by (simp add: read_up_to_u16_def)
qed

section \<open>The other reads\<close>

lemma read_aligned_u8_spec:
  assumes "rc_bit_index c = 0"
  shows "\<exists>v. read_aligned_u8 c = Some (v, rc_advance_bits 8 c) \<and> (\<forall>k. bit v k \<longleftrightarrow> k < 8 \<and> rbit c k)"
proof -
  have "bit (read_current c) k \<longleftrightarrow> k < 8 \<and> rbit c k" for k
    using assms bit_imp_le_length [of "read_current c" k]
    by (auto simp: rbit_def read_current_def bit_at_def)
  then show ?thesis
    using assms by (auto simp: read_aligned_u8_def rc_is_aligned_to_8_bits_def rc_advance_bytes_eq rc_advance_bits_eq)
qed

text \<open>Two aligned halves.\<close>

lemma bit_join:
  fixes u v :: "'a::len word"
  assumes "\<And>k. bit u k \<longleftrightarrow> k < n \<and> rbit c k" and "\<And>k. bit v k \<longleftrightarrow> k < n \<and> rbit (rc_advance_bits n c) k"
    and "LENGTH('b) = 2 * n"
  shows "bit (push_bit n (ucast v) OR ucast u :: 'b::len word) k \<longleftrightarrow> k < 2 * n \<and> rbit c k"
proof -
  have "bit (push_bit n (ucast v) OR ucast u :: 'b word) k \<longleftrightarrow>
      k < 2 * n \<and> (n \<le> k \<and> k - n < n \<and> rbit c (n + (k - n)) \<or> k < n \<and> rbit c k)"
    using assms(3) by (auto simp: bit_or_iff bit_push_bit_iff bit_ucast_iff assms(1, 2) rbit_advance)
  then show ?thesis by auto
qed

lemma read_aligned_u16_spec:
  assumes "rc_bit_index c = 0"
  shows "\<exists>v. read_aligned_u16 c = Some (v, rc_advance_bits 16 c) \<and> (\<forall>k. bit v k \<longleftrightarrow> k < 16 \<and> rbit c k)"
proof -
  obtain u where u: "read_aligned_u8 c = Some (u, rc_advance_bits 8 c)" "\<And>k. bit u k \<longleftrightarrow> k < 8 \<and> rbit c k"
    using read_aligned_u8_spec [OF assms] by blast
  obtain v where v: "read_aligned_u8 (rc_advance_bits 8 c) = Some (v, rc_advance_bits 8 (rc_advance_bits 8 c))"
      "\<And>k. bit v k \<longleftrightarrow> k < 8 \<and> rbit (rc_advance_bits 8 c) k"
    using read_aligned_u8_spec [of "rc_advance_bits 8 c"] assms by auto
  from bit_join [OF u(2) v(2), where 'b = 16] u(1) v(1)
  show ?thesis by (simp add: read_aligned_u16_def rc_advance_bits_add)
qed

lemma read_aligned_u32_spec:
  assumes "rc_bit_index c = 0"
  shows "\<exists>v. read_aligned_u32 c = Some (v, rc_advance_bits 32 c) \<and> (\<forall>k. bit v k \<longleftrightarrow> k < 32 \<and> rbit c k)"
proof -
  obtain u where u: "read_aligned_u16 c = Some (u, rc_advance_bits 16 c)" "\<And>k. bit u k \<longleftrightarrow> k < 16 \<and> rbit c k"
    using read_aligned_u16_spec [OF assms] by blast
  obtain v where v: "read_aligned_u16 (rc_advance_bits 16 c) = Some (v, rc_advance_bits 16 (rc_advance_bits 16 c))"
      "\<And>k. bit v k \<longleftrightarrow> k < 16 \<and> rbit (rc_advance_bits 16 c) k"
    using read_aligned_u16_spec [of "rc_advance_bits 16 c"] assms by auto
  from bit_join [OF u(2) v(2), where 'b = 32] u(1) v(1)
  show ?thesis by (simp add: read_aligned_u32_def rc_advance_bits_add)
qed

lemma read_aligned_u64_spec:
  assumes "rc_bit_index c = 0"
  shows "\<exists>v. read_aligned_u64 c = Some (v, rc_advance_bits 64 c) \<and> (\<forall>k. bit v k \<longleftrightarrow> k < 64 \<and> rbit c k)"
proof -
  obtain u where u: "read_aligned_u32 c = Some (u, rc_advance_bits 32 c)" "\<And>k. bit u k \<longleftrightarrow> k < 32 \<and> rbit c k"
    using read_aligned_u32_spec [OF assms] by blast
  obtain v where v: "read_aligned_u32 (rc_advance_bits 32 c) = Some (v, rc_advance_bits 32 (rc_advance_bits 32 c))"
      "\<And>k. bit v k \<longleftrightarrow> k < 32 \<and> rbit (rc_advance_bits 32 c) k"
    using read_aligned_u32_spec [of "rc_advance_bits 32 c"] assms by auto
  from bit_join [OF u(2) v(2), where 'b = 64] u(1) v(1)
  show ?thesis by (simp add: read_aligned_u64_def rc_advance_bits_add)
qed

lemma read_bytes_spec:
  assumes "rc_bit_index c < 8"
  shows "\<exists>bs. read_bytes n c = Some (bs, rc_advance_bits (8 * n) c) \<and> length bs = n
    \<and> (\<forall>k < 8 * n. bit_at bs k = rbit c k)"
  using assms
proof (induction n arbitrary: c)
  case 0
  then show ?case by (simp add: rc_advance_zero)
next
  case (Suc n)
  obtain b where b: "read_u1_to_u8 8 c = Some (b, rc_advance_bits 8 c)" "\<And>k. bit b k \<longleftrightarrow> k < 8 \<and> rbit c k"
    using read_up_to_u8_spec [OF Suc.prems, of 8] by (auto simp: read_u1_to_u8_def)
  obtain bs where bs: "read_bytes n (rc_advance_bits 8 c) = Some (bs, rc_advance_bits (8 + 8 * n) c)" "length bs = n"
      "\<forall>k < 8 * n. bit_at bs k = rbit c (8 + k)"
    using Suc.IH [of "rc_advance_bits 8 c"] by (auto simp: rc_advance_bits_add rbit_advance)
  have "bit_at (b # bs) k = rbit c k" if "k < 8 * Suc n" for k
  proof (cases "k < 8")
    case True
    then show ?thesis by (simp add: bit_at_def b(2))
  next
    case False
    then obtain j where j: "k = 8 + j" by (metis le_iff_add not_less)
    have "bit_at (b # bs) (8 + j) = bit_at bs j" using bit_at_drop [of 1 "b # bs" j] by simp
    with bs(3) that j show ?thesis by simp
  qed
  with b(1) bs(1, 2) show ?case by (intro exI [of _ "b # bs"]) simp
qed

end
