(* ===== verification/Enc_RoundTrip.thy ===== *)
theory Enc_RoundTrip
  imports Enc_Read
begin

text \<open>
  Writing and reading sequences of fields: what the functions of the two cursors do to the
  bits of the buffer, and that reading gives back what was written.
\<close>

section \<open>Fields\<close>

text \<open>One constructor per group of functions of the cursors; the first argument of the first four is the width.\<close>

datatype field =
  FU8 nat u8 | FU16 nat u16 | FU32 nat u32 | FU64 nat u64
| FF16 u16 | FF32 u32 | FF64 u64
| FBool bool | FBytes "u8 list" | FSkip nat | FAlign
| FAligned8 u8 | FAligned16 u16 | FAligned32 u32 | FAligned64 u64

fun write_field :: "field \<Rightarrow> WriteCursor \<Rightarrow> WriteCursor option" where
  "write_field (FU8 n v) c = write_u1_to_u8 n v c"
| "write_field (FU16 n v) c = write_u9_to_u16 n v c"
| "write_field (FU32 n v) c = write_u17_to_u32 n v c"
| "write_field (FU64 n v) c = write_u33_to_u64 n v c"
| "write_field (FF16 v) c = write_f16 v c"
| "write_field (FF32 v) c = write_f32 v c"
| "write_field (FF64 v) c = write_f64 v c"
| "write_field (FBool b) c = write_bool b c"
| "write_field (FBytes bs) c = write_bytes bs c"
| "write_field (FSkip n) c = wc_skip n c"
| "write_field FAlign c = wc_align_to_8_bits c"
| "write_field (FAligned8 v) c = write_aligned_u8 v c"
| "write_field (FAligned16 v) c = write_aligned_u16 v c"
| "write_field (FAligned32 v) c = write_aligned_u32 v c"
| "write_field (FAligned64 v) c = write_aligned_u64 v c"

text \<open>The function that reads a field of the same kind; the values in the argument do not matter.\<close>

fun read_field :: "bool \<Rightarrow> field \<Rightarrow> ReadCursor \<Rightarrow> (field \<times> ReadCursor) option" where
  "read_field dbg (FU8 n _) c = map_option (map_prod (FU8 n) id) (read_u1_to_u8 n c)"
| "read_field dbg (FU16 n _) c =
     map_option (map_prod (FU16 n) id) (if n = 16 then read_u16 dbg c else read_u9_to_u15 n c)"
| "read_field dbg (FU32 n _) c =
     map_option (map_prod (FU32 n) id) (if n = 32 then read_u32 c else read_u17_to_u31 dbg n c)"
| "read_field dbg (FU64 n _) c = map_option (map_prod (FU64 n) id) (read_u33_to_u64 n c)"
| "read_field dbg (FF16 _) c = map_option (map_prod FF16 id) (read_f16 dbg c)"
| "read_field dbg (FF32 _) c = map_option (map_prod FF32 id) (read_f32 c)"
| "read_field dbg (FF64 _) c = map_option (map_prod FF64 id) (read_f64 c)"
| "read_field dbg (FBool _) c = map_option (map_prod FBool id) (read_bool c)"
| "read_field dbg (FBytes bs) c = map_option (map_prod FBytes id) (read_bytes (length bs) c)"
| "read_field dbg (FSkip n) c = Some (FSkip n, rc_skip n c)"
| "read_field dbg FAlign c = Some (FAlign, rc_align_to_8_bits c)"
| "read_field dbg (FAligned8 _) c = map_option (map_prod FAligned8 id) (read_aligned_u8 c)"
| "read_field dbg (FAligned16 _) c = map_option (map_prod FAligned16 id) (read_aligned_u16 c)"
| "read_field dbg (FAligned32 _) c = map_option (map_prod FAligned32 id) (read_aligned_u32 c)"
| "read_field dbg (FAligned64 _) c = map_option (map_prod FAligned64 id) (read_aligned_u64 c)"

text \<open>The number of bits of a field that starts at a position, its bits, and what is read back.\<close>

fun field_width :: "nat \<Rightarrow> field \<Rightarrow> nat" where
  "field_width p (FU8 n _) = n"
| "field_width p (FU16 n _) = n"
| "field_width p (FU32 n _) = n"
| "field_width p (FU64 n _) = n"
| "field_width p (FF16 _) = 16"
| "field_width p (FF32 _) = 32"
| "field_width p (FF64 _) = 64"
| "field_width p (FBool _) = 1"
| "field_width p (FBytes bs) = 8 * length bs"
| "field_width p (FSkip n) = n"
| "field_width p FAlign = align_bits p"
| "field_width p (FAligned8 _) = 8"
| "field_width p (FAligned16 _) = 16"
| "field_width p (FAligned32 _) = 32"
| "field_width p (FAligned64 _) = 64"

fun field_bit :: "field \<Rightarrow> nat \<Rightarrow> bool" where
  "field_bit (FU8 _ v) k \<longleftrightarrow> bit v k"
| "field_bit (FU16 _ v) k \<longleftrightarrow> bit v k"
| "field_bit (FU32 _ v) k \<longleftrightarrow> bit v k"
| "field_bit (FU64 _ v) k \<longleftrightarrow> bit v k"
| "field_bit (FF16 v) k \<longleftrightarrow> bit v k"
| "field_bit (FF32 v) k \<longleftrightarrow> bit v k"
| "field_bit (FF64 v) k \<longleftrightarrow> bit v k"
| "field_bit (FBool b) k \<longleftrightarrow> b"
| "field_bit (FBytes bs) k \<longleftrightarrow> bit_at bs k"
| "field_bit (FSkip _) k \<longleftrightarrow> False"
| "field_bit FAlign k \<longleftrightarrow> False"
| "field_bit (FAligned8 v) k \<longleftrightarrow> bit v k"
| "field_bit (FAligned16 v) k \<longleftrightarrow> bit v k"
| "field_bit (FAligned32 v) k \<longleftrightarrow> bit v k"
| "field_bit (FAligned64 v) k \<longleftrightarrow> bit v k"

fun field_truncate :: "field \<Rightarrow> field" where
  "field_truncate (FU8 n v) = FU8 n (take_bit n v)"
| "field_truncate (FU16 n v) = FU16 n (take_bit n v)"
| "field_truncate (FU32 n v) = FU32 n (take_bit n v)"
| "field_truncate (FU64 n v) = FU64 n (take_bit n v)"
| "field_truncate f = f"

lemma field_bit_fun:
  "field_bit (FU8 n v8) = bit v8" "field_bit (FU16 n v16) = bit v16" "field_bit (FU32 n v32) = bit v32"
  "field_bit (FU64 n v64) = bit v64" "field_bit (FF16 v16) = bit v16" "field_bit (FF32 v32) = bit v32"
  "field_bit (FF64 v64) = bit v64" "field_bit (FBytes bs) = bit_at bs" "field_bit (FSkip n) = (\<lambda>_. False)"
  "field_bit FAlign = (\<lambda>_. False)" "field_bit (FAligned8 v8) = bit v8" "field_bit (FAligned16 v16) = bit v16"
  "field_bit (FAligned32 v32) = bit v32" "field_bit (FAligned64 v64) = bit v64"
  by (simp_all add: fun_eq_iff)

text \<open>The widths that exist, and the alignment that the aligned functions demand.\<close>

fun field_ok :: "nat \<Rightarrow> field \<Rightarrow> bool" where
  "field_ok p (FU8 n _) \<longleftrightarrow> 1 \<le> n \<and> n \<le> 8"
| "field_ok p (FU16 n _) \<longleftrightarrow> 9 \<le> n \<and> n \<le> 16"
| "field_ok p (FU32 n _) \<longleftrightarrow> 17 \<le> n \<and> n \<le> 32"
| "field_ok p (FU64 n _) \<longleftrightarrow> 33 \<le> n \<and> n \<le> 64"
| "field_ok p (FSkip n) \<longleftrightarrow> 1 \<le> n \<and> n \<le> 64"
| "field_ok p (FAligned8 _) \<longleftrightarrow> p mod 8 = 0"
| "field_ok p (FAligned16 _) \<longleftrightarrow> p mod 8 = 0"
| "field_ok p (FAligned32 _) \<longleftrightarrow> p mod 8 = 0"
| "field_ok p (FAligned64 _) \<longleftrightarrow> p mod 8 = 0"
| "field_ok p _ \<longleftrightarrow> True"

fun fields_width :: "nat \<Rightarrow> field list \<Rightarrow> nat" where
  "fields_width p [] = 0"
| "fields_width p (f # fs) = field_width p f + fields_width (p + field_width p f) fs"

fun fields_ok :: "nat \<Rightarrow> field list \<Rightarrow> bool" where
  "fields_ok p [] \<longleftrightarrow> True"
| "fields_ok p (f # fs) \<longleftrightarrow> field_ok p f \<and> fields_ok (p + field_width p f) fs"

fun write_fields :: "field list \<Rightarrow> WriteCursor \<Rightarrow> WriteCursor option" where
  "write_fields [] c = Some c"
| "write_fields (f # fs) c = do { c \<leftarrow> write_field f c; write_fields fs c }"

fun read_fields :: "bool \<Rightarrow> field list \<Rightarrow> ReadCursor \<Rightarrow> (field list \<times> ReadCursor) option" where
  "read_fields dbg [] c = Some ([], c)"
| "read_fields dbg (f # fs) c = do {
     (f, c) \<leftarrow> read_field dbg f c; (fs, c) \<leftarrow> read_fields dbg fs c; Some (f # fs, c) }"

section \<open>One field\<close>

lemma bits_written_mod: "wc_inv c \<Longrightarrow> bits_written c mod 8 = wc_bit_index c"
  by (simp add: bits_written_def wc_inv_def)

lemma write_unsigned_spec:
  assumes "wc_inv c" and "bits_written c + n \<le> 8 * length (wc_bytes c)"
  shows "n \<le> 8 \<Longrightarrow> \<exists>c'. write_u1_to_u8 n v8 c = Some c' \<and> wc_extends c n (bit v8) c'"
    "n \<le> 16 \<Longrightarrow> \<exists>c'. write_u9_to_u16 n v16 c = Some c' \<and> wc_extends c n (bit v16) c'"
    "n \<le> 32 \<Longrightarrow> \<exists>c'. write_u17_to_u32 n v32 c = Some c' \<and> wc_extends c n (bit v32) c'"
    "n \<le> 64 \<Longrightarrow> \<exists>c'. write_u33_to_u64 n v64 c = Some c' \<and> wc_extends c n (bit v64) c'"
  using write_up_to_u8_spec [OF assms(1) _ assms(2)] write_bits_spec [OF assms, of v16]
    write_bits_spec [OF assms, of v32] write_bits_spec [OF assms, of v64]
  by (simp_all add: write_u1_to_u8_def write_u9_to_u16_def write_u17_to_u32_def write_u33_to_u64_def
      write_up_to_u16_def write_up_to_u32_def write_up_to_u64_def)

lemma write_le_bytes_spec:
  fixes w :: "'a::len word"
  assumes "wc_inv c" and "bits_written c mod 8 = 0" and "bits_written c + 8 * n \<le> 8 * length (wc_bytes c)"
  shows "\<exists>c'. write_aligned_bytes (le_bytes n w) c = Some c' \<and> wc_extends c (8 * n) (bit w) c'"
proof -
  have "length (le_bytes n w) = n" by (simp add: le_bytes_def)
  then obtain c' where "write_aligned_bytes (le_bytes n w) c = Some c'"
      "wc_extends c (8 * n) (bit_at (le_bytes n w)) c'"
    using write_aligned_bytes_spec [OF assms(1), of "le_bytes n w"] assms bits_written_mod [OF assms(1)] by auto
  moreover from this(2) have "wc_extends c (8 * n) (bit w) c'"
    by (rule wc_extends_cong) (simp_all add: bit_at_le_bytes)
  ultimately show ?thesis by blast
qed

lemma write_field_spec:
  assumes "wc_inv c" and "field_ok (bits_written c) f"
    and "bits_written c + field_width (bits_written c) f \<le> 8 * length (wc_bytes c)"
  shows "\<exists>c'. write_field f c = Some c' \<and> wc_extends c (field_width (bits_written c) f) (field_bit f) c'"
proof (cases f)
  case (FBool b)
  with assms obtain c' where "write_u1_to_u8 1 (of_bool b) c = Some c'" "wc_extends c 1 (bit (of_bool b :: u8)) c'"
    using write_unsigned_spec(1) [OF assms(1), of 1 "of_bool b"] by auto
  moreover from this(2) have "wc_extends c 1 (field_bit (FBool b)) c'" by (rule wc_extends_cong) (auto simp: bit_simps)
  ultimately show ?thesis using FBool by (auto simp: write_bool_def)
next
  case (FBytes bs)
  with assms show ?thesis using write_bytes_spec [OF assms(1), of bs] by (simp add: field_bit_fun)
next
  case (FSkip n)
  with assms show ?thesis using wc_skip_bits_spec [OF assms(1), of n] by (simp add: wc_skip_def field_bit_fun)
next
  case FAlign
  with assms show ?thesis using wc_align_spec [OF assms(1)] by (simp add: field_bit_fun)
next
  case (FAligned8 v)
  with assms show ?thesis using write_le_bytes_spec [OF assms(1), of 1 v] bits_written_mod [OF assms(1)]
    by (simp add: write_aligned_eq field_bit_fun)
next
  case (FAligned16 v)
  with assms show ?thesis using write_le_bytes_spec [OF assms(1), of 2 v] bits_written_mod [OF assms(1)]
    by (simp add: write_aligned_eq field_bit_fun)
next
  case (FAligned32 v)
  with assms show ?thesis using write_le_bytes_spec [OF assms(1), of 4 v] bits_written_mod [OF assms(1)]
    by (simp add: write_aligned_eq field_bit_fun)
next
  case (FAligned64 v)
  with assms show ?thesis using write_le_bytes_spec [OF assms(1), of 8 v] bits_written_mod [OF assms(1)]
    by (simp add: write_aligned_eq field_bit_fun)
qed (use assms write_unsigned_spec [OF assms(1)] in \<open>simp_all add: field_bit_fun write_f16_def write_f32_def write_f64_def\<close>)

text \<open>A read that gives the value of the next bits gives the low bits of the value written there.\<close>

lemma read_back:
  fixes w :: "'a::len word" and r :: "('a word \<times> ReadCursor) option"
  assumes "\<exists>v. r = Some (v, c') \<and> (\<forall>k. bit v k \<longleftrightarrow> k < n \<and> rbit c k)"
    and "\<And>k. k < n \<Longrightarrow> rbit c k = bit w k"
  shows "r = Some (take_bit n w, c')"
proof -
  from assms(1) obtain v where v: "r = Some (v, c')" "\<forall>k. bit v k \<longleftrightarrow> k < n \<and> rbit c k" by blast
  have "v = take_bit n w" by (rule bit_eqI) (auto simp: bit_take_bit_iff assms(2) v(2))
  with v(1) show ?thesis by simp
qed

text \<open>The same for a value that was widened before it was written or is narrowed after it is read.\<close>

lemma read_back_ucast:
  fixes w :: "'a::len word" and r :: "('b::len word \<times> ReadCursor) option"
  assumes "\<exists>v. r = Some (v, c') \<and> (\<forall>k. bit v k \<longleftrightarrow> k < n \<and> rbit c k)"
    and "\<And>k. k < n \<Longrightarrow> rbit c k = bit w k" and "n = LENGTH('a)"
  shows "map_option (map_prod ucast id) r = Some (w, c')"
proof -
  from assms(1) obtain v where v: "r = Some (v, c')" "\<forall>k. bit v k \<longleftrightarrow> k < n \<and> rbit c k" by blast
  have "ucast v = w"
    using bit_imp_le_length [of w] by (intro bit_eqI) (auto simp: bit_ucast_iff assms(2, 3) v(2))
  with v(1) show ?thesis by simp
qed

lemma take_bit_full:
  "take_bit 8 (a :: u8) = a" "take_bit 16 (b :: u16) = b" "take_bit 32 (d :: u32) = d" "take_bit 64 (e :: u64) = e"
  by (simp_all add: take_bit_word_eq_self)

lemma bit_at_eqI:
  assumes "length xs = length ys" and "\<And>k. k < 8 * length ys \<Longrightarrow> bit_at xs k = bit_at ys k"
  shows "xs = ys"
proof (rule nth_equalityI)
  fix i assume i: "i < length xs"
  show "xs ! i = ys ! i"
  proof (rule bit_eqI)
    fix j assume "possible_bit TYPE(8 word) j"
    then have "j < 8" by simp
    then show "bit (xs ! i) j = bit (ys ! i) j"
      using assms(2) [of "8 * i + j"] i assms(1) by (simp add: bit_at_split)
  qed
qed (rule assms(1))

lemma read_u16_ucast: "read_u16 dbg c = map_option (map_prod ucast id) (read_up_to_u32 dbg 16 c)"
  by (cases "read_up_to_u32 dbg 16 c") (auto simp: read_u16_def)

lemma read_u32_ucast: "read_u32 c = map_option (map_prod ucast id) (read_up_to_u64 32 c)"
  by (cases "read_up_to_u64 32 c") (auto simp: read_u32_def)

lemma read_unsigned_spec:
  assumes c: "rc_bit_index c < 8"
  shows "n \<le> 8 \<Longrightarrow> (\<And>k. k < n \<Longrightarrow> rbit c k = bit v8 k)
      \<Longrightarrow> read_u1_to_u8 n c = Some (take_bit n v8, rc_advance_bits n c)"
    "8 < n \<Longrightarrow> n < 16 \<Longrightarrow> (\<And>k. k < n \<Longrightarrow> rbit c k = bit v16 k)
      \<Longrightarrow> read_u9_to_u15 n c = Some (take_bit n v16, rc_advance_bits n c)"
    "(\<And>k. k < 16 \<Longrightarrow> rbit c k = bit v16 k) \<Longrightarrow> read_u16 dbg c = Some (v16, rc_advance_bits 16 c)"
    "n < 32 \<Longrightarrow> (\<And>k. k < n \<Longrightarrow> rbit c k = bit v32 k)
      \<Longrightarrow> read_u17_to_u31 dbg n c = Some (take_bit n v32, rc_advance_bits n c)"
    "(\<And>k. k < 32 \<Longrightarrow> rbit c k = bit v32 k) \<Longrightarrow> read_u32 c = Some (v32, rc_advance_bits 32 c)"
    "n \<le> 64 \<Longrightarrow> (\<And>k. k < n \<Longrightarrow> rbit c k = bit v64 k)
      \<Longrightarrow> read_u33_to_u64 n c = Some (take_bit n v64, rc_advance_bits n c)"
proof -
  show "read_u1_to_u8 n c = Some (take_bit n v8, rc_advance_bits n c)"
    if "n \<le> 8" "\<And>k. k < n \<Longrightarrow> rbit c k = bit v8 k"
    unfolding read_u1_to_u8_def by (rule read_back [OF read_up_to_u8_spec [OF c that(1)] that(2)])
  show "read_u9_to_u15 n c = Some (take_bit n v16, rc_advance_bits n c)"
    if "8 < n" "n < 16" "\<And>k. k < n \<Longrightarrow> rbit c k = bit v16 k"
    unfolding read_u9_to_u15_def by (rule read_back [OF read_up_to_u16_spec [OF c that(1, 2)] that(3)])
  show "read_u17_to_u31 dbg n c = Some (take_bit n v32, rc_advance_bits n c)"
    if "n < 32" "\<And>k. k < n \<Longrightarrow> rbit c k = bit v32 k"
    unfolding read_u17_to_u31_def by (rule read_back [OF read_up_to_u32_spec [OF c that(1)] that(2)])
  show "read_u33_to_u64 n c = Some (take_bit n v64, rc_advance_bits n c)"
    if "n \<le> 64" "\<And>k. k < n \<Longrightarrow> rbit c k = bit v64 k"
    unfolding read_u33_to_u64_def by (rule read_back [OF read_up_to_u64_spec [OF c that(1)] that(2)])
  show "read_u16 dbg c = Some (v16, rc_advance_bits 16 c)" if "\<And>k. k < 16 \<Longrightarrow> rbit c k = bit v16 k"
    unfolding read_u16_ucast by (rule read_back_ucast [OF read_up_to_u32_spec [OF c] that]) simp_all
  show "read_u32 c = Some (v32, rc_advance_bits 32 c)" if "\<And>k. k < 32 \<Longrightarrow> rbit c k = bit v32 k"
    unfolding read_u32_ucast by (rule read_back_ucast [OF read_up_to_u64_spec [OF c] that]) simp_all
qed

lemma read_aligned_spec:
  assumes c: "rc_bit_index c = 0"
  shows "(\<And>k. k < 8 \<Longrightarrow> rbit c k = bit v8 k) \<Longrightarrow> read_aligned_u8 c = Some (v8, rc_advance_bits 8 c)"
    "(\<And>k. k < 16 \<Longrightarrow> rbit c k = bit v16 k) \<Longrightarrow> read_aligned_u16 c = Some (v16, rc_advance_bits 16 c)"
    "(\<And>k. k < 32 \<Longrightarrow> rbit c k = bit v32 k) \<Longrightarrow> read_aligned_u32 c = Some (v32, rc_advance_bits 32 c)"
    "(\<And>k. k < 64 \<Longrightarrow> rbit c k = bit v64 k) \<Longrightarrow> read_aligned_u64 c = Some (v64, rc_advance_bits 64 c)"
  using read_back [OF read_aligned_u8_spec [OF c], of v8] read_back [OF read_aligned_u16_spec [OF c], of v16]
    read_back [OF read_aligned_u32_spec [OF c], of v32] read_back [OF read_aligned_u64_spec [OF c], of v64]
  by (simp_all add: take_bit_full)

lemma read_field_spec:
  assumes c: "rc_bit_index c = p mod 8" and ok: "field_ok p f"
    and bits: "\<And>k. k < field_width p f \<Longrightarrow> rbit c k = field_bit f k"
  shows "read_field dbg f c = Some (field_truncate f, rc_advance_bits (field_width p f) c)"
proof -
  have lt: "rc_bit_index c < 8" using c by simp
  note unsigned = read_unsigned_spec [OF lt]
  show ?thesis
  proof (cases f)
    case (FU16 n w)
    with ok bits unsigned(2) [of n w] unsigned(3) [of w dbg] show ?thesis
      by (cases "n = 16") (simp_all add: take_bit_full)
  next
    case (FU32 n w)
    with ok bits unsigned(4) [of n w dbg] unsigned(5) [of w] show ?thesis
      by (cases "n = 32") (simp_all add: take_bit_full)
  next
    case (FBool b)
    have "rbit c k = bit (of_bool b :: u8) k" if "k < 1" for k using bits that FBool by (simp add: bit_simps)
    from unsigned(1) [OF _ this] show ?thesis using FBool by (simp add: read_bool_def)
  next
    case (FBytes bs)
    obtain xs where xs: "read_bytes (length bs) c = Some (xs, rc_advance_bits (8 * length bs) c)"
        "length xs = length bs" "\<forall>k < 8 * length bs. bit_at xs k = rbit c k"
      using read_bytes_spec [OF lt, of "length bs"] by auto
    have "xs = bs" using xs bits FBytes by (intro bit_at_eqI) simp_all
    with FBytes xs(1) show ?thesis by simp
  next
    case FAlign
    then show ?thesis using c by (auto simp: rc_align_to_8_bits_def align_bits_def rc_advance_zero)
  qed (use ok c bits unsigned(1, 6) unsigned(3, 5) read_aligned_spec [of c] unsigned(6) [of 64] in
      \<open>simp_all add: rc_skip_def read_f16_def read_f32_def read_f64_def take_bit_full\<close>)
qed

section \<open>Sequences of fields\<close>

fun fields_bit :: "nat \<Rightarrow> field list \<Rightarrow> nat \<Rightarrow> bool" where
  "fields_bit p [] k \<longleftrightarrow> False"
| "fields_bit p (f # fs) k \<longleftrightarrow>
     (if k < field_width p f then field_bit f k
      else fields_bit (p + field_width p f) fs (k - field_width p f))"

lemma write_fields_spec:
  assumes "wc_inv c" and "fields_ok (bits_written c) fs"
    and "bits_written c + fields_width (bits_written c) fs \<le> 8 * length (wc_bytes c)"
  shows "\<exists>c'. write_fields fs c = Some c'
    \<and> wc_extends c (fields_width (bits_written c) fs) (fields_bit (bits_written c) fs) c'"
  using assms
proof (induction fs arbitrary: c)
  case Nil
  then show ?case by (simp add: wc_extends_refl)
next
  case (Cons f fs)
  obtain c1 where c1: "write_field f c = Some c1"
      "wc_extends c (field_width (bits_written c) f) (field_bit f) c1"
    using write_field_spec [OF Cons.prems(1), of f] Cons.prems(2, 3) by auto
  note d = wc_extendsD [OF c1(2)]
  obtain c2 where c2: "write_fields fs c1 = Some c2"
      "wc_extends c1 (fields_width (bits_written c1) fs) (fields_bit (bits_written c1) fs) c2"
    using Cons.IH [OF d(1)] Cons.prems(2, 3) by (auto simp: d(2, 3) add.assoc)
  have "wc_extends c (fields_width (bits_written c) (f # fs)) (fields_bit (bits_written c) (f # fs)) c2"
    using wc_extends_trans [OF c1(2) c2(2)] by (rule wc_extends_cong) (simp_all add: d(2))
  moreover have "write_fields (f # fs) c = Some c2" using c1(1) c2(1) by simp
  ultimately show ?case by blast
qed

lemma read_fields_spec:
  assumes "rc_bit_index c = p mod 8" and "fields_ok p fs"
    and "\<And>k. k < fields_width p fs \<Longrightarrow> rbit c k = fields_bit p fs k"
  shows "read_fields dbg fs c = Some (map field_truncate fs, rc_advance_bits (fields_width p fs) c)"
  using assms
proof (induction fs arbitrary: c p)
  case Nil
  then show ?case by (simp add: rc_advance_zero)
next
  case (Cons f fs)
  let ?w = "field_width p f"
  have f: "read_field dbg f c = Some (field_truncate f, rc_advance_bits ?w c)"
    using Cons.prems by (intro read_field_spec) simp_all
  have "rc_bit_index (rc_advance_bits ?w c) = (p + ?w) mod 8"
    using Cons.prems(1) by (simp add: mod_add_left_eq)
  moreover have "rbit (rc_advance_bits ?w c) k = fields_bit (p + ?w) fs k" if "k < fields_width (p + ?w) fs" for k
    using Cons.prems(3) [of "?w + k"] that by (simp add: rbit_advance)
  ultimately show ?case
    using Cons.IH [of "rc_advance_bits ?w c" "p + ?w"] Cons.prems(2) f by (simp add: rc_advance_bits_add)
qed

section \<open>Properties\<close>

lemma write_cursor_new_inv: "wc_inv (write_cursor_new bytes)" "bits_written (write_cursor_new bytes) = 0"
  by (auto simp: wc_inv_def write_cursor_new_def bits_written_def bit_at_def)

lemma write_cursor_new_length: "length (wc_bytes (write_cursor_new bytes)) = length bytes"
  by (simp add: write_cursor_new_def)

lemma rbit_new: "rbit (read_cursor_new bytes) k = bit_at bytes k"
  by (simp add: rbit_def read_cursor_new_def)

text \<open>
  C23: Reading gives back what was written. For every sequence of fields whose widths exist and
  whose aligned fields fall on a byte boundary, and every buffer with room for it (whatever
  the buffer held before), writing the fields one after the other does not panic and writes
  exactly as many bits as their widths add up to, and reading fields of the same kinds
  from the start of the buffer gives each value back, truncated to the width of its field.
\<close>

theorem cursor_roundtrip:
  assumes "fields_ok 0 fs" and "fields_width 0 fs \<le> 8 * length buffer"
  shows "\<exists>c. write_fields fs (write_cursor_new buffer) = Some c \<and> bits_written c = fields_width 0 fs
    \<and> read_fields dbg fs (read_cursor_new (wc_bytes c))
        = Some (map field_truncate fs, rc_advance_bits (fields_width 0 fs) (read_cursor_new (wc_bytes c)))"
proof -
  let ?w = "write_cursor_new buffer"
  from assms obtain c where c: "write_fields fs ?w = Some c" "wc_extends ?w (fields_width 0 fs) (fields_bit 0 fs) c"
    using write_fields_spec [OF write_cursor_new_inv(1) [of buffer], of fs]
    by (auto simp: write_cursor_new_inv(2) write_cursor_new_length)
  have "rbit (read_cursor_new (wc_bytes c)) k = fields_bit 0 fs k" if "k < fields_width 0 fs" for k
    using c(2) that by (simp add: wc_extends_def rbit_new write_cursor_new_inv(2))
  then have "read_fields dbg fs (read_cursor_new (wc_bytes c))
      = Some (map field_truncate fs, rc_advance_bits (fields_width 0 fs) (read_cursor_new (wc_bytes c)))"
    using assms(1) by (intro read_fields_spec) (simp_all add: read_cursor_new_def)
  with c(1) wc_extendsD(2) [OF c(2)] show ?thesis by (simp add: write_cursor_new_inv(2))
qed

theorem cursor_roundtrip_witness:
  "\<exists>c. write_fields [FBool True, FU16 11 0x7ff, FAlign, FAligned16 0x1234] (write_cursor_new [1, 2, 3, 4]) = Some c
    \<and> bits_written c = 32
    \<and> read_fields True [FBool True, FU16 11 0x7ff, FAlign, FAligned16 0x1234] (read_cursor_new (wc_bytes c))
        = Some ([FBool True, FU16 11 0x7ff, FAlign, FAligned16 0x1234],
            rc_advance_bits 32 (read_cursor_new (wc_bytes c)))"
  using cursor_roundtrip [of "[FBool True, FU16 11 0x7ff, FAlign, FAligned16 0x1234]" "[1, 2, 3, 4]" True]
  by (simp add: align_bits_def)

text \<open>The fields that hold a value.\<close>

fun value_field :: "field \<Rightarrow> bool" where
  "value_field (FU8 n _) \<longleftrightarrow> 1 \<le> n \<and> n \<le> 8"
| "value_field (FU16 n _) \<longleftrightarrow> 9 \<le> n \<and> n \<le> 16"
| "value_field (FU32 n _) \<longleftrightarrow> 17 \<le> n \<and> n \<le> 32"
| "value_field (FU64 n _) \<longleftrightarrow> 33 \<le> n \<and> n \<le> 64"
| "value_field (FF16 _) \<longleftrightarrow> True"
| "value_field (FF32 _) \<longleftrightarrow> True"
| "value_field (FF64 _) \<longleftrightarrow> True"
| "value_field (FBool _) \<longleftrightarrow> True"
| "value_field _ \<longleftrightarrow> False"

lemma write_unsigned_full:
  assumes "wc_inv c" and "8 * length (wc_bytes c) < bits_written c + n" and "bits_written c \<le> 8 * length (wc_bytes c)"
  shows "n \<le> 8 \<Longrightarrow> write_u1_to_u8 n v8 c = None" "write_u9_to_u16 n v16 c = None"
    "write_u17_to_u32 n v32 c = None" "n \<le> 64 \<Longrightarrow> write_u33_to_u64 n v64 c = None"
proof -
  have "0 < n" using assms(2, 3) by simp
  then show "n \<le> 8 \<Longrightarrow> write_u1_to_u8 n v8 c = None"
    using write_up_to_u8_full [OF assms(1) _ _ assms(2)] by (simp add: write_u1_to_u8_def)
qed (use write_bits_full [OF assms, of v16] write_bits_full [OF assms, of v32] write_bits_full [OF assms, of v64] in
  \<open>simp_all add: write_u9_to_u16_def write_u17_to_u32_def write_u33_to_u64_def
      write_up_to_u16_def write_up_to_u32_def write_up_to_u64_def\<close>)

text \<open>
  C24: The writers of integers, floats and booleans are total up to the end of the buffer and panic
  exactly beyond it, at every bit offset. If the field fits behind the bits already written, the
  write appends exactly the low bits of the value, keeps every earlier bit, leaves the rest of
  the buffer zero and restores the invariant of the cursor; otherwise the write panics instead of
  dropping bits.
\<close>

theorem write_appends_or_panics:
  assumes "wc_inv c" and "bits_written c \<le> 8 * length (wc_bytes c)" and "value_field f"
  shows "if bits_written c + field_width 0 f \<le> 8 * length (wc_bytes c)
    then \<exists>c'. write_field f c = Some c' \<and> wc_extends c (field_width 0 f) (field_bit f) c'
    else write_field f c = None"
proof (cases "bits_written c + field_width 0 f \<le> 8 * length (wc_bytes c)")
  case True
  have "field_ok (bits_written c) f" "field_width (bits_written c) f = field_width 0 f"
    using assms(3) by (cases f; simp)+
  with write_field_spec [OF assms(1), of f] True show ?thesis by simp
next
  case False
  then have full: "8 * length (wc_bytes c) < bits_written c + field_width 0 f" by simp
  have "write_field f c = None"
    using write_unsigned_full [OF assms(1) full assms(2)] assms(3)
    by (cases f) (simp_all add: write_f16_def write_f32_def write_f64_def write_bool_def)
  with False show ?thesis by simp
qed

theorem write_appends_or_panics_witness:
  "(\<exists>c'. write_field (FU16 12 0xabc) (write_cursor_new [0, 0]) = Some c'
      \<and> wc_extends (write_cursor_new [0, 0]) 12 (bit (0xabc :: u16)) c')
   \<and> write_field (FU16 12 0xabc) (write_cursor_new [0]) = None"
  using write_appends_or_panics [of "write_cursor_new [0, 0]" "FU16 12 0xabc"]
    write_appends_or_panics [of "write_cursor_new [0]" "FU16 12 0xabc"]
  by (simp add: write_cursor_new_inv write_cursor_new_length field_bit_fun)

text \<open>
  The panic that the documentation of \<^verbatim>\<open>write_aligned_bytes\<close> promises for a cursor that is not
  on a byte boundary does not happen. As long as the bytes fit, the function copies them
  over the byte that is partly written, whatever the bit number of the cursor: the bits of
  that byte written before are lost.
\<close>

lemma write_aligned_bytes_overwrites:
  assumes "wc_bytes_written c + length bs < length (wc_bytes c)" and "wc_bit_index c < 8"
  shows "\<exists>c'. write_aligned_bytes bs c = Some c' \<and> wc_bit_index c' = wc_bit_index c
    \<and> wc_bytes_written c' = wc_bytes_written c + length bs
    \<and> wc_bytes c' = take (wc_bytes_written c) (wc_bytes c) @ bs @ drop (wc_bytes_written c + length bs) (wc_bytes c)"
proof -
  have "(wc_bytes_written c * 8 + (wc_bit_index c + length bs * 8)) div 8 = wc_bytes_written c + length bs"
    "(wc_bit_index c + length bs * 8) mod 8 = wc_bit_index c" using assms(2) by auto
  then show ?thesis
    using assms by (simp add: write_aligned_bytes_def wc_copy_remaining_def Let_def wc_advance_bits_def wc_check_length_def mult.commute)
qed

end
