(* ===== verification/Enc_Bits.thy ===== *)
theory Enc_Bits
  imports Enc_RoundTrip
begin

text \<open>
  The bit array of canadensis\_encoding (\<^verbatim>\<open>bits.rs\<close>): the operations, the iterators and the
  comparisons, that they implement a list of booleans, and what the serialized form is.
  The const parameter \<^verbatim>\<open>BYTES\<close> is the length of the byte array.
\<close>

section \<open>The array\<close>

record BitArray =
  ba_bytes :: "u8 list"
  ba_bit_length :: nat

definition bit_array_new :: "nat \<Rightarrow> nat \<Rightarrow> BitArray option" where
  "bit_array_new BYTES bit_length =
     (if bit_length \<le> BYTES * 8 then Some \<lparr>ba_bytes = replicate BYTES 0, ba_bit_length = bit_length\<rparr> else None)"

definition ba_len :: "BitArray \<Rightarrow> nat" where
  "ba_len a = ba_bit_length a"

definition ba_is_empty :: "BitArray \<Rightarrow> bool" where
  "ba_is_empty a \<longleftrightarrow> ba_bit_length a = 0"

definition split_index :: "nat \<Rightarrow> BitArray \<Rightarrow> (nat \<times> nat) option" where
  "split_index bit_index a = (if bit_index < ba_bit_length a then Some (bit_index div 8, bit_index mod 8) else None)"

text \<open>Indexing the bytes out of range panics.\<close>

definition ba_get :: "nat \<Rightarrow> BitArray \<Rightarrow> bool option" where
  "ba_get bit_index a =
     do {
       (byte_index, bit_in_byte) \<leftarrow> split_index bit_index a;
       byte \<leftarrow> (if byte_index < length (ba_bytes a) then Some (ba_bytes a ! byte_index) else None);
       Some (drop_bit bit_in_byte byte AND 1 = 1)
     }"

definition ba_set :: "nat \<Rightarrow> bool \<Rightarrow> BitArray \<Rightarrow> BitArray option" where
  "ba_set bit_index v a =
     do {
       (byte_index, bit_in_byte) \<leftarrow> split_index bit_index a;
       let m = push_bit bit_in_byte 1;
       byte \<leftarrow> (if byte_index < length (ba_bytes a) then Some (ba_bytes a ! byte_index) else None);
       Some (a\<lparr>ba_bytes := (ba_bytes a)[byte_index := (if v then byte OR m else byte AND NOT m)]\<rparr>)
     }"

definition ba_fill :: "bool \<Rightarrow> BitArray \<Rightarrow> BitArray" where
  "ba_fill v a = (if v then a\<lparr>ba_bytes := map (\<lambda>_. 0xff) (ba_bytes a)\<rparr>
                  else a\<lparr>ba_bytes := map (\<lambda>_. 0x00) (ba_bytes a)\<rparr>)"

text \<open>The loops over a range of indexes.\<close>

fun ba_serialize_bits :: "nat list \<Rightarrow> BitArray \<Rightarrow> WriteCursor \<Rightarrow> WriteCursor option" where
  "ba_serialize_bits [] a c = Some c"
| "ba_serialize_bits (i # is) a c =
     do { b \<leftarrow> ba_get i a; c \<leftarrow> write_bool b c; ba_serialize_bits is a c }"

definition ba_serialize :: "BitArray \<Rightarrow> WriteCursor \<Rightarrow> WriteCursor option" where
  "ba_serialize a c =
     (if ba_bit_length a = length (ba_bytes a) * 8 \<and> wc_is_aligned_to_8_bits c
      then write_aligned_bytes (ba_bytes a) c
      else ba_serialize_bits [0..<ba_bit_length a] a c)"

fun read_aligned_all :: "nat \<Rightarrow> ReadCursor \<Rightarrow> (u8 list \<times> ReadCursor) option" where
  "read_aligned_all 0 c = Some ([], c)"
| "read_aligned_all (Suc n) c =
     do { (b, c) \<leftarrow> read_aligned_u8 c; (bs, c) \<leftarrow> read_aligned_all n c; Some (b # bs, c) }"

fun ba_deserialize_bits :: "nat list \<Rightarrow> BitArray \<Rightarrow> ReadCursor \<Rightarrow> (BitArray \<times> ReadCursor) option" where
  "ba_deserialize_bits [] a c = Some (a, c)"
| "ba_deserialize_bits (i # is) a c =
     do { (b, c) \<leftarrow> read_bool c; a \<leftarrow> ba_set i b a; ba_deserialize_bits is a c }"

definition ba_deserialize_in_place :: "BitArray \<Rightarrow> ReadCursor \<Rightarrow> (BitArray \<times> ReadCursor) option" where
  "ba_deserialize_in_place a c =
     (if ba_bit_length a mod 8 = 0 \<and> rc_is_aligned_to_8_bits c
      then do { (bs, c) \<leftarrow> read_aligned_all (length (ba_bytes a)) c; Some (a\<lparr>ba_bytes := bs\<rparr>, c) }
      else ba_deserialize_bits [0..<ba_bit_length a] a c)"

definition ba_deserialize :: "nat \<Rightarrow> nat \<Rightarrow> ReadCursor \<Rightarrow> (BitArray \<times> ReadCursor) option" where
  "ba_deserialize BYTES bit_length c = do { a \<leftarrow> bit_array_new BYTES bit_length; ba_deserialize_in_place a c }"

definition bit_array_default :: "nat \<Rightarrow> BitArray" where
  "bit_array_default BYTES = \<lparr>ba_bytes = replicate BYTES 0, ba_bit_length = 0\<rparr>"

section \<open>Iterators and comparisons\<close>

text \<open>The borrowing and the owning iterator have the same fields and the same \<^verbatim>\<open>next\<close>.\<close>

record BitIter =
  bi_array :: BitArray
  bi_next_index :: nat

definition ba_iter :: "BitArray \<Rightarrow> BitIter" where
  "ba_iter a = \<lparr>bi_array = a, bi_next_index = 0\<rparr>"

definition ba_into_iter :: "BitArray \<Rightarrow> BitIter" where
  "ba_into_iter a = \<lparr>bi_array = a, bi_next_index = 0\<rparr>"

definition iter_next :: "BitIter \<Rightarrow> (bool option \<times> BitIter) option" where
  "iter_next it =
     (if bi_next_index it = ba_len (bi_array it) then Some (None, it)
      else do {
        b \<leftarrow> ba_get (bi_next_index it) (bi_array it);
        Some (Some b, it\<lparr>bi_next_index := bi_next_index it + 1\<rparr>)
      })"

definition into_iter_next :: "BitIter \<Rightarrow> (bool option \<times> BitIter) option" where
  "into_iter_next it =
     (if bi_next_index it = ba_len (bi_array it) then Some (None, it)
      else do {
        b \<leftarrow> ba_get (bi_next_index it) (bi_array it);
        Some (Some b, it\<lparr>bi_next_index := bi_next_index it + 1\<rparr>)
      })"

text \<open>\<^verbatim>\<open>Zip::next\<close> asks the second iterator only if the first has an item.\<close>

definition zip_next :: "BitIter \<times> BitIter \<Rightarrow> ((bool \<times> bool) option \<times> BitIter \<times> BitIter) option" where
  "zip_next its = (case its of (l, r) \<Rightarrow>
     do {
       (lb, l) \<leftarrow> iter_next l;
       case lb of
         None \<Rightarrow> Some (None, l, r)
       | Some lb \<Rightarrow> do {
           (rb, r) \<leftarrow> iter_next r;
           case rb of None \<Rightarrow> Some (None, l, r) | Some rb \<Rightarrow> Some (Some (lb, rb), l, r)
         }
     })"

definition bits_left :: "BitIter \<Rightarrow> nat" where
  "bits_left it = ba_bit_length (bi_array it) - bi_next_index it"

lemma iter_next_left: "iter_next it = Some (Some b, it') \<Longrightarrow> bits_left it' < bits_left it"
  by (auto simp: iter_next_def bits_left_def ba_get_def split_index_def ba_len_def bind_eq_Some_conv split: if_splits)

lemma zip_next_left:
  assumes "zip_next its = Some (Some bits, its')"
  shows "bits_left (fst its') < bits_left (fst its)"
proof -
  obtain l r where its: "its = (l, r)" by (cases its)
  obtain lb l' where l: "iter_next l = Some (lb, l')"
    using assms its by (cases "iter_next l") (auto simp: zip_next_def)
  obtain b where b: "lb = Some b" using assms its l by (cases lb) (auto simp: zip_next_def)
  obtain rb r' where r: "iter_next r = Some (rb, r')"
    using assms its l b by (cases "iter_next r") (auto simp: zip_next_def)
  have "fst its' = l'" using assms its l b r by (cases rb) (auto simp: zip_next_def)
  with its l b show ?thesis by (simp add: iter_next_left)
qed

function ba_eq_loop :: "BitIter \<times> BitIter \<Rightarrow> bool option" where
  "ba_eq_loop its =
     (case zip_next its of
        None \<Rightarrow> None
      | Some (None, _) \<Rightarrow> Some True
      | Some (Some (lb, rb), its') \<Rightarrow> if lb \<noteq> rb then Some False else ba_eq_loop its')"
  by pat_completeness auto
termination by (relation "measure (bits_left \<circ> fst)") (auto dest: zip_next_left)

definition ba_eq :: "BitArray \<Rightarrow> BitArray \<Rightarrow> bool option" where
  "ba_eq a b = (if ba_len a = ba_len b then ba_eq_loop (ba_iter a, ba_iter b) else Some False)"

function ba_compare_loop :: "BitIter \<times> BitIter \<Rightarrow> ordering option" where
  "ba_compare_loop its =
     (case zip_next its of
        None \<Rightarrow> None
      | Some (None, _) \<Rightarrow> Some Equal
      | Some (Some (True, False), _) \<Rightarrow> Some Greater
      | Some (Some (False, True), _) \<Rightarrow> Some Less
      | Some (Some _, its') \<Rightarrow> ba_compare_loop its')"
  by pat_completeness auto
termination by (relation "measure (bits_left \<circ> fst)") (auto dest: zip_next_left)

definition ba_compare :: "BitArray \<Rightarrow> BitArray \<Rightarrow> ordering option" where
  "ba_compare a b =
     (if ba_len a < ba_len b then Some Less
      else if ba_len b < ba_len a then Some Greater
      else ba_compare_loop (ba_iter a, ba_iter b))"

declare ba_eq_loop.simps [simp del] ba_compare_loop.simps [simp del]

section \<open>A list of booleans\<close>

definition ba_inv :: "BitArray \<Rightarrow> bool" where
  "ba_inv a \<longleftrightarrow> ba_bit_length a \<le> 8 * length (ba_bytes a)"

definition ba_bits :: "BitArray \<Rightarrow> bool list" where
  "ba_bits a = map (bit_at (ba_bytes a)) [0..<ba_bit_length a]"

lemma ba_bits_length [simp]: "length (ba_bits a) = ba_bit_length a"
  by (simp add: ba_bits_def)

lemma ba_bits_nth [simp]: "i < ba_bit_length a \<Longrightarrow> ba_bits a ! i = bit_at (ba_bytes a) i"
  by (simp add: ba_bits_def)

lemma ba_get_spec:
  assumes "ba_inv a"
  shows "ba_get i a = (if i < ba_bit_length a then Some (ba_bits a ! i) else None)"
proof -
  have "drop_bit k b AND 1 = 1 \<longleftrightarrow> bit b k" for k and b :: u8
    by (simp add: and_one_eq bit_iff_odd_drop_bit mod_2_eq_odd)
  then show ?thesis using assms by (auto simp: ba_get_def split_index_def bit_at_def ba_inv_def)
qed

lemma bit_at_set:
  assumes "i div 8 < length bs"
  shows "bit_at (bs[i div 8 := (if v then bs ! (i div 8) OR push_bit (i mod 8) 1
      else bs ! (i div 8) AND NOT (push_bit (i mod 8) 1))]) k = (if k = i then v else bit_at bs k)"
proof (cases "k div 8 = i div 8")
  case True
  then have "k mod 8 = i mod 8 \<longleftrightarrow> k = i" by (metis div_mult_mod_eq)
  moreover have "bit (push_bit (i mod 8) 1 :: u8) (k mod 8) \<longleftrightarrow> k mod 8 = i mod 8"
    by (auto simp: bit_exp_iff)
  ultimately show ?thesis using True assms by (auto simp: bit_at_def bit_simps)
next
  case False
  then show ?thesis using assms by (auto simp: bit_at_def)
qed

lemma ba_set_spec:
  assumes "ba_inv a" and "i < ba_bit_length a"
  shows "\<exists>a'. ba_set i v a = Some a' \<and> length (ba_bytes a') = length (ba_bytes a)
    \<and> ba_bit_length a' = ba_bit_length a
    \<and> (\<forall>k. bit_at (ba_bytes a') k = (if k = i then v else bit_at (ba_bytes a) k))"
proof -
  have i: "i div 8 < length (ba_bytes a)" using assms by (auto simp: ba_inv_def)
  have "\<forall>k. bit_at ((ba_bytes a)[i div 8 := (if v then ba_bytes a ! (i div 8) OR push_bit (i mod 8) 1
      else ba_bytes a ! (i div 8) AND NOT (push_bit (i mod 8) 1))]) k = (if k = i then v else bit_at (ba_bytes a) k)"
    using bit_at_set [OF i] by blast
  with assms(2) i show ?thesis by (cases v) (simp_all add: ba_set_def split_index_def Let_def)
qed

lemma iter_next_spec:
  assumes "ba_inv a" and "n \<le> ba_bit_length a"
  shows "iter_next \<lparr>bi_array = a, bi_next_index = n\<rparr> =
    (if n < ba_bit_length a then Some (Some (ba_bits a ! n), \<lparr>bi_array = a, bi_next_index = n + 1\<rparr>)
     else Some (None, \<lparr>bi_array = a, bi_next_index = n\<rparr>))"
  using assms by (auto simp: iter_next_def ba_len_def ba_get_spec)

lemma zip_next_spec:
  assumes "ba_inv a" and "ba_inv b" and "ba_bit_length a = ba_bit_length b" and "n \<le> ba_bit_length a"
  shows "zip_next (\<lparr>bi_array = a, bi_next_index = n\<rparr>, \<lparr>bi_array = b, bi_next_index = n\<rparr>) =
    Some (if n < ba_bit_length a
      then (Some (ba_bits a ! n, ba_bits b ! n), \<lparr>bi_array = a, bi_next_index = Suc n\<rparr>, \<lparr>bi_array = b, bi_next_index = Suc n\<rparr>)
      else (None, \<lparr>bi_array = a, bi_next_index = n\<rparr>, \<lparr>bi_array = b, bi_next_index = n\<rparr>))"
  using assms by (simp add: zip_next_def iter_next_spec)

lemma ba_eq_loop_spec:
  assumes "ba_inv a" and "ba_inv b" and "ba_bit_length a = ba_bit_length b" and "n + d = ba_bit_length a"
  shows "ba_eq_loop (\<lparr>bi_array = a, bi_next_index = n\<rparr>, \<lparr>bi_array = b, bi_next_index = n\<rparr>)
    = Some (drop n (ba_bits a) = drop n (ba_bits b))"
  using assms(4)
proof (induction d arbitrary: n)
  case 0
  then show ?case using assms(1-3) by (subst ba_eq_loop.simps) (simp add: zip_next_spec)
next
  case (Suc d)
  then have "n < length (ba_bits a)" "n < length (ba_bits b)" using assms(3) by simp_all
  then have "drop n (ba_bits a) = ba_bits a ! n # drop (Suc n) (ba_bits a)"
    "drop n (ba_bits b) = ba_bits b ! n # drop (Suc n) (ba_bits b)" by (simp_all only: Cons_nth_drop_Suc)
  with Suc assms(1-3) show ?case by (subst ba_eq_loop.simps) (simp add: zip_next_spec del: ba_bits_nth)
qed

text \<open>The order of bit strings of the same length: the first difference decides.\<close>

fun compare_bits :: "bool list \<Rightarrow> bool list \<Rightarrow> ordering" where
  "compare_bits (x # xs) (y # ys) = (if x = y then compare_bits xs ys else if x then Greater else Less)"
| "compare_bits _ _ = Equal"

lemma ba_compare_loop_spec:
  assumes "ba_inv a" and "ba_inv b" and "ba_bit_length a = ba_bit_length b" and "n + d = ba_bit_length a"
  shows "ba_compare_loop (\<lparr>bi_array = a, bi_next_index = n\<rparr>, \<lparr>bi_array = b, bi_next_index = n\<rparr>)
    = Some (compare_bits (drop n (ba_bits a)) (drop n (ba_bits b)))"
  using assms(4)
proof (induction d arbitrary: n)
  case 0
  then show ?case using assms(1-3) by (subst ba_compare_loop.simps) (simp add: zip_next_spec)
next
  case (Suc d)
  then have "n < length (ba_bits a)" "n < length (ba_bits b)" using assms(3) by simp_all
  then have "drop n (ba_bits a) = ba_bits a ! n # drop (Suc n) (ba_bits a)"
    "drop n (ba_bits b) = ba_bits b ! n # drop (Suc n) (ba_bits b)" by (simp_all only: Cons_nth_drop_Suc)
  with Suc assms(1-3) show ?case
    by (subst ba_compare_loop.simps)
      (cases "ba_bits a ! n"; cases "ba_bits b ! n"; simp add: zip_next_spec del: ba_bits_nth)
qed

section \<open>Serialization\<close>

lemma ba_serialize_bits_fields:
  assumes "ba_inv a" and "\<forall>i \<in> set is. i < ba_bit_length a"
  shows "ba_serialize_bits is a c = write_fields (map (\<lambda>i. FBool (ba_bits a ! i)) is) c"
  using assms by (induction "is" arbitrary: c) (auto simp: ba_get_spec intro!: Option.bind_cong)

lemma fields_bools:
  "fields_width p (map (\<lambda>i. FBool (f i)) is) = length is" "fields_ok p (map (\<lambda>i. FBool (f i)) is)"
  "k < length is \<Longrightarrow> fields_bit p (map (\<lambda>i. FBool (f i)) is) k = f (is ! k)"
  by (induction "is" arbitrary: p k) (auto simp: nth_Cons')

lemma ba_serialize_spec:
  assumes "ba_inv a" and "wc_inv c" and "bits_written c + ba_bit_length a \<le> 8 * length (wc_bytes c)"
  shows "\<exists>c'. ba_serialize a c = Some c' \<and> wc_extends c (ba_bit_length a) (bit_at (ba_bytes a)) c'"
proof (cases "ba_bit_length a = length (ba_bytes a) * 8 \<and> wc_is_aligned_to_8_bits c")
  case True
  then show ?thesis
    using write_aligned_bytes_spec [OF assms(2), of "ba_bytes a"] assms(3)
    by (simp add: ba_serialize_def wc_is_aligned_to_8_bits_def mult.commute)
next
  case False
  let ?fs = "map (\<lambda>i. FBool (ba_bits a ! i)) [0..<ba_bit_length a]"
  obtain c' where c': "write_fields ?fs c = Some c'" "wc_extends c (ba_bit_length a) (fields_bit (bits_written c) ?fs) c'"
    using write_fields_spec [OF assms(2), of ?fs] assms(3) by (auto simp: fields_bools)
  from c'(2) have "wc_extends c (ba_bit_length a) (bit_at (ba_bytes a)) c'"
    by (rule wc_extends_cong) (simp_all add: fields_bools)
  with c'(1) False assms(1) show ?thesis by (auto simp: ba_serialize_def ba_serialize_bits_fields)
qed

lemma read_bool_spec:
  assumes "rc_bit_index c < 8"
  shows "read_bool c = Some (rbit c 0, rc_advance_bits 1 c)"
proof -
  have "read_field False (FBool (rbit c 0)) c = Some (field_truncate (FBool (rbit c 0)),
      rc_advance_bits (field_width (rc_bit_index c) (FBool (rbit c 0))) c)"
    by (rule read_field_spec) (use assms in simp_all)
  then show ?thesis by (cases "read_bool c") auto
qed

lemma ba_deserialize_bits_spec:
  assumes "ba_inv a" and "m + d \<le> ba_bit_length a" and "rc_bit_index c < 8"
  shows "\<exists>a'. ba_deserialize_bits [m..<m + d] a c = Some (a', rc_advance_bits d c)
    \<and> length (ba_bytes a') = length (ba_bytes a) \<and> ba_bit_length a' = ba_bit_length a
    \<and> (\<forall>k. bit_at (ba_bytes a') k = (if m \<le> k \<and> k < m + d then rbit c (k - m) else bit_at (ba_bytes a) k))"
  using assms
proof (induction d arbitrary: m a c)
  case 0
  then show ?case by (auto simp: rc_advance_zero)
next
  case (Suc d)
  obtain a1 where a1: "ba_set m (rbit c 0) a = Some a1" "length (ba_bytes a1) = length (ba_bytes a)"
      "ba_bit_length a1 = ba_bit_length a"
      "\<forall>k. bit_at (ba_bytes a1) k = (if k = m then rbit c 0 else bit_at (ba_bytes a) k)"
    using ba_set_spec [OF Suc.prems(1), of m "rbit c 0"] Suc.prems(2) by auto
  have "ba_inv a1" using Suc.prems(1) a1 by (simp add: ba_inv_def)
  with Suc.IH [of a1 "Suc m" "rc_advance_bits 1 c"] Suc.prems(2) a1(3)
  obtain a2 where a2: "ba_deserialize_bits [Suc m..<Suc m + d] a1 (rc_advance_bits 1 c) = Some (a2, rc_advance_bits (Suc d) c)"
      "length (ba_bytes a2) = length (ba_bytes a1)" "ba_bit_length a2 = ba_bit_length a1"
      "\<forall>k. bit_at (ba_bytes a2) k = (if Suc m \<le> k \<and> k < Suc m + d then rbit c (1 + (k - Suc m)) else bit_at (ba_bytes a1) k)"
    by (auto simp: rc_advance_bits_add rbit_advance)
  have "bit_at (ba_bytes a2) k = (if m \<le> k \<and> k < m + Suc d then rbit c (k - m) else bit_at (ba_bytes a) k)" for k
  proof (cases "k = m")
    case False
    then have "Suc m \<le> k \<Longrightarrow> 1 + (k - Suc m) = k - m" by simp
    with False a1(4) a2(4) show ?thesis by auto
  qed (use a1(4) a2(4) in simp)
  moreover have "[m..<m + Suc d] = m # [Suc m..<Suc m + d]" by (simp add: upt_conv_Cons del: upt_Suc)
  then have "ba_deserialize_bits [m..<m + Suc d] a c = Some (a2, rc_advance_bits (Suc d) c)"
    using a1(1) a2(1) Suc.prems(3) by (simp add: read_bool_spec)
  ultimately show ?case using a1(2, 3) a2(2, 3) by auto
qed

lemma read_aligned_u8_eq:
  assumes "rc_bit_index c = 0"
  shows "read_aligned_u8 c = read_u1_to_u8 8 c" "\<exists>b. read_u1_to_u8 8 c = Some (b, rc_advance_bits 8 c)"
proof -
  obtain b where b: "read_u1_to_u8 8 c = Some (b, rc_advance_bits 8 c)" "\<forall>k. bit b k \<longleftrightarrow> k < 8 \<and> rbit c k"
    using read_up_to_u8_spec [of c 8] assms by (auto simp: read_u1_to_u8_def)
  then have "read_aligned_u8 c = Some (b, rc_advance_bits 8 c)"
    by (intro read_aligned_spec(1) [OF assms]) simp
  with b(1) show "read_aligned_u8 c = read_u1_to_u8 8 c" "\<exists>b. read_u1_to_u8 8 c = Some (b, rc_advance_bits 8 c)"
    by simp_all
qed

lemma read_aligned_all_eq: "rc_bit_index c = 0 \<Longrightarrow> read_aligned_all n c = read_bytes n c"
proof (induction n arbitrary: c)
  case (Suc n)
  obtain b where "read_u1_to_u8 8 c = Some (b, rc_advance_bits 8 c)" using read_aligned_u8_eq(2) [OF Suc.prems] by blast
  with Suc show ?case by (simp add: read_aligned_u8_eq(1))
qed simp

lemma read_aligned_all_spec:
  assumes "rc_bit_index c = 0"
  shows "\<exists>bs. read_aligned_all n c = Some (bs, rc_advance_bits (8 * n) c) \<and> length bs = n
    \<and> (\<forall>k < 8 * n. bit_at bs k = rbit c k)"
  using read_bytes_spec [of c n] assms by (simp add: read_aligned_all_eq)

text \<open>The number of bits that reading an array consumes.\<close>

definition ba_consumed :: "nat \<Rightarrow> nat \<Rightarrow> ReadCursor \<Rightarrow> nat" where
  "ba_consumed BYTES bit_length c = (if bit_length mod 8 = 0 \<and> rc_bit_index c = 0 then 8 * BYTES else bit_length)"

lemma ba_deserialize_spec:
  assumes "bit_length \<le> 8 * BYTES" and "rc_bit_index c < 8"
  shows "\<exists>a. ba_deserialize BYTES bit_length c = Some (a, rc_advance_bits (ba_consumed BYTES bit_length c) c)
    \<and> ba_inv a \<and> length (ba_bytes a) = BYTES \<and> ba_bits a = map (rbit c) [0..<bit_length]"
proof -
  let ?a = "\<lparr>ba_bytes = replicate BYTES (0 :: u8), ba_bit_length = bit_length\<rparr>"
  have new: "ba_deserialize BYTES bit_length c = ba_deserialize_in_place ?a c"
    using assms(1) by (simp add: ba_deserialize_def bit_array_new_def mult.commute)
  show ?thesis
  proof (cases "bit_length mod 8 = 0 \<and> rc_bit_index c = 0")
    case True
    then obtain bs where bs: "read_aligned_all BYTES c = Some (bs, rc_advance_bits (8 * BYTES) c)" "length bs = BYTES"
        "\<forall>k < 8 * BYTES. bit_at bs k = rbit c k" using read_aligned_all_spec [of c BYTES] by auto
    with True assms(1) show ?thesis
      unfolding new by (simp add: ba_deserialize_in_place_def rc_is_aligned_to_8_bits_def ba_inv_def ba_bits_def ba_consumed_def)
  next
    case False
    have "ba_inv ?a" using assms(1) by (simp add: ba_inv_def)
    with ba_deserialize_bits_spec [of ?a 0 bit_length c] assms(2) obtain a' where
      a': "ba_deserialize_bits [0..<bit_length] ?a c = Some (a', rc_advance_bits bit_length c)"
        "length (ba_bytes a') = BYTES" "ba_bit_length a' = bit_length"
        "\<forall>k. bit_at (ba_bytes a') k = (if k < bit_length then rbit c k else bit_at (replicate BYTES 0) k)" by auto
    then have "ba_inv a'" "ba_bits a' = map (rbit c) [0..<bit_length]" using assms(1) by (simp_all add: ba_inv_def ba_bits_def)
    with a'(1, 2) False show ?thesis
      unfolding new by (auto simp: ba_deserialize_in_place_def rc_is_aligned_to_8_bits_def ba_consumed_def)
  qed
qed

section \<open>Properties\<close>

text \<open>
  C29: A bit array implements a list of booleans. For every array within its capacity, \<^verbatim>\<open>get\<close> reads
  the element and panics exactly out of range, \<^verbatim>\<open>set\<close> updates exactly one element and panics exactly
  out of range, \<^verbatim>\<open>fill\<close> sets all elements, \<^verbatim>\<open>new\<close> gives all zeros, equality is equality of the
  lists, even of arrays of different capacities, and the order compares the length first and then the
  first differing bit.
\<close>

theorem bit_array_refines_list:
  assumes "ba_inv a" and "ba_inv b"
  shows "ba_get i a = (if i < length (ba_bits a) then Some (ba_bits a ! i) else None)
    \<and> map_option ba_bits (ba_set i v a) = (if i < length (ba_bits a) then Some ((ba_bits a)[i := v]) else None)
    \<and> ba_bits (ba_fill v a) = replicate (length (ba_bits a)) v
    \<and> map_option ba_bits (bit_array_new BYTES n) = (if n \<le> BYTES * 8 then Some (replicate n False) else None)
    \<and> ba_eq a b = Some (ba_bits a = ba_bits b)
    \<and> ba_compare a b = Some (if length (ba_bits a) < length (ba_bits b) then Less
        else if length (ba_bits b) < length (ba_bits a) then Greater else compare_bits (ba_bits a) (ba_bits b))"
proof -
  have set: "map_option ba_bits (ba_set i v a) = (if i < length (ba_bits a) then Some ((ba_bits a)[i := v]) else None)"
  proof (cases "i < ba_bit_length a")
    case True
    with ba_set_spec [OF assms(1) this, of v] show ?thesis by (auto intro!: nth_equalityI simp: nth_list_update)
  qed (simp add: ba_set_def split_index_def)
  have "bit_at (map (\<lambda>_. 0xff) (ba_bytes a)) k" if "k < ba_bit_length a" for k
  proof -
    have "bit (0xff :: u8) (k mod 8)" using bit_mask_iff [of 8 "k mod 8", where 'a = u8] by (simp add: mask_eq_exp_minus_1)
    with that assms(1) show ?thesis by (auto simp: bit_at_def ba_inv_def)
  qed
  then have fill: "ba_bits (ba_fill v a) = replicate (length (ba_bits a)) v"
    by (auto intro!: nth_equalityI simp: ba_fill_def) (simp add: bit_at_def)
  have new: "map_option ba_bits (bit_array_new BYTES n) = (if n \<le> BYTES * 8 then Some (replicate n False) else None)"
    by (auto intro!: nth_equalityI simp: bit_array_new_def bit_at_def)
  have len: "ba_bits a = ba_bits b \<Longrightarrow> ba_bit_length a = ba_bit_length b" by (metis ba_bits_length)
  have eq: "ba_eq a b = Some (ba_bits a = ba_bits b)"
    using len ba_eq_loop_spec [OF assms, of 0 "ba_bit_length a"] by (auto simp: ba_eq_def ba_len_def ba_iter_def)
  have "ba_compare a b = Some (if length (ba_bits a) < length (ba_bits b) then Less
        else if length (ba_bits b) < length (ba_bits a) then Greater else compare_bits (ba_bits a) (ba_bits b))"
    using ba_compare_loop_spec [OF assms, of 0 "ba_bit_length a"] by (auto simp: ba_compare_def ba_len_def ba_iter_def)
  with set fill new eq show ?thesis by (simp add: ba_get_spec [OF assms(1)])
qed

theorem bit_array_refines_list_witness:
  "ba_eq \<lparr>ba_bytes = [0xf5], ba_bit_length = 4\<rparr> \<lparr>ba_bytes = [0x05, 0xff], ba_bit_length = 4\<rparr>
     = Some (ba_bits \<lparr>ba_bytes = [0xf5], ba_bit_length = 4\<rparr> = ba_bits \<lparr>ba_bytes = [0x05, 0xff], ba_bit_length = 4\<rparr>)"
  using bit_array_refines_list [of "\<lparr>ba_bytes = [0xf5], ba_bit_length = 4\<rparr>" "\<lparr>ba_bytes = [0x05, 0xff], ba_bit_length = 4\<rparr>"]
  by (simp add: ba_inv_def)

text \<open>
  A serialized bit array occupies exactly its length in bits, at every bit offset, and reading
  an array of the same length back gives the same bits. The cursor then stands behind
  the array, unless the array starts on a byte boundary and its length is a multiple of 8 below its
  capacity.
\<close>

lemma bit_array_roundtrip:
  assumes "ba_inv a" and "wc_inv c" and "bits_written c + ba_bit_length a \<le> 8 * length (wc_bytes c)"
  shows "\<exists>c' r a'. ba_serialize a c = Some c' \<and> wc_extends c (ba_bit_length a) (bit_at (ba_bytes a)) c'
    \<and> r = rc_advance_bits (bits_written c) (read_cursor_new (wc_bytes c'))
    \<and> ba_deserialize (length (ba_bytes a)) (ba_bit_length a) r
        = Some (a', rc_advance_bits (ba_consumed (length (ba_bytes a)) (ba_bit_length a) r) r)
    \<and> ba_bits a' = ba_bits a"
proof -
  obtain c' where c': "ba_serialize a c = Some c'" "wc_extends c (ba_bit_length a) (bit_at (ba_bytes a)) c'"
    using ba_serialize_spec [OF assms] by blast
  let ?r = "rc_advance_bits (bits_written c) (read_cursor_new (wc_bytes c'))"
  have "rbit ?r k = bit_at (ba_bytes a) k" if "k < ba_bit_length a" for k
    using c'(2) that by (simp add: rbit_advance rbit_new wc_extends_def)
  then have "map (rbit ?r) [0..<ba_bit_length a] = ba_bits a" by (simp add: ba_bits_def)
  with ba_deserialize_spec [of "ba_bit_length a" "length (ba_bytes a)" ?r] assms(1) c' show ?thesis
    by (auto simp: ba_inv_def)
qed

text \<open>
  C30: Reading a bit array can swallow the field behind it. A \<^verbatim>\<open>BitArray<BYTES>\<close> whose length is a multiple
  of 8 below its capacity, read from a cursor on a byte boundary, consumes its whole capacity instead
  of its length. So a value written directly behind such an array is not read back:
  the reader has already gone past it.
\<close>

theorem bit_array_overreads:
  assumes "rc_bit_index c = 0" and "bit_length mod 8 = 0" and "bit_length < 8 * BYTES"
  shows "\<exists>a c'. ba_deserialize BYTES bit_length c = Some (a, c') \<and> c' = rc_advance_bits (8 * BYTES) c
    \<and> (\<forall>k. rbit c' k = rbit c (8 * BYTES + k))"
  using ba_deserialize_spec [of bit_length BYTES c] assms by (auto simp: ba_consumed_def rbit_advance)

theorem bit_array_overreads_witness:
  "\<exists>a c'. ba_deserialize 2 8 (read_cursor_new [0x01, 0xaa]) = Some (a, c') \<and> read_u1_to_u8 8 c' \<noteq> Some (0xaa, c')
    \<and> c' = rc_advance_bits 16 (read_cursor_new [0x01, 0xaa])"
proof -
  have "\<exists>a c'. ba_deserialize 2 8 (read_cursor_new [0x01, 0xaa]) = Some (a, c')
      \<and> c' = rc_advance_bits 16 (read_cursor_new [0x01, 0xaa])"
    using bit_array_overreads [of "read_cursor_new [0x01, 0xaa]" 8 2] by (auto simp: read_cursor_new_def)
  moreover have "read_u1_to_u8 8 (rc_advance_bits 16 (read_cursor_new [0x01, 0xaa]))
      = Some (0, rc_advance_bits 16 (read_cursor_new [0x01, 0xaa]))" by code_simp
  ultimately show ?thesis by auto
qed

end
