(* ===== verification/Enc_DataType.thy ===== *)
theory Enc_DataType
  imports Enc_Bits
begin

text \<open>
  The traits of canadensis\_encoding (\<^verbatim>\<open>lib.rs\<close>): \<^verbatim>\<open>DataType\<close>, \<^verbatim>\<open>Serialize\<close> and
  \<^verbatim>\<open>Deserialize\<close>. The implementation of the traits for a type is a record of operations; the
  contract between the cursors and a composite type is the locale \<open>data_type\<close>, in which the
  round trips through \<^verbatim>\<open>write_composite\<close>/\<^verbatim>\<open>read_composite\<close> and through byte slices are proved once.
\<close>

section \<open>Readers and writers\<close>

type_synonym writer = "WriteCursor \<Rightarrow> WriteCursor option"
type_synonym 'a reader = "ReadCursor \<Rightarrow> ((DeserializeError + 'a) \<times> ReadCursor) option"

text \<open>
  A deserializer returns a \<^verbatim>\<open>Result\<close>; the operator \<^verbatim>\<open>?\<close> leaves it at the first error. The functions
  of the cursor itself cannot fail, only panic.
\<close>

definition rd_bind :: "'a reader \<Rightarrow> ('a \<Rightarrow> 'b reader) \<Rightarrow> 'b reader" where
  "rd_bind m f c =
     do {
       (r, c) \<leftarrow> m c;
       case r of Inl e \<Rightarrow> Some (Inl e, c) | Inr a \<Rightarrow> f a c
     }"

definition rd_ok :: "'a \<Rightarrow> 'a reader" where
  "rd_ok a c = Some (Inr a, c)"

definition rd_err :: "DeserializeError \<Rightarrow> 'a reader" where
  "rd_err e c = Some (Inl e, c)"

definition rd_get :: "(ReadCursor \<Rightarrow> ('a \<times> ReadCursor) option) \<Rightarrow> 'a reader" where
  "rd_get m c = do { (a, c) \<leftarrow> m c; Some (Inr a, c) }"

text \<open>\<^verbatim>\<open>for value in values.iter()\<close> around a write.\<close>

fun write_each :: "('a \<Rightarrow> writer) \<Rightarrow> 'a list \<Rightarrow> writer" where
  "write_each W [] c = Some c"
| "write_each W (v # vs) c = do { c \<leftarrow> W v c; write_each W vs c }"

text \<open>An array literal of reads, and the loop that pushes into a \<^verbatim>\<open>heapless::Vec\<close>, ignoring a full one.\<close>

fun read_fixed :: "nat \<Rightarrow> 'a reader \<Rightarrow> 'a list reader" where
  "read_fixed 0 R = rd_ok []"
| "read_fixed (Suc n) R = rd_bind R (\<lambda>v. rd_bind (read_fixed n R) (\<lambda>vs. rd_ok (v # vs)))"

fun read_pushing :: "nat \<Rightarrow> nat \<Rightarrow> 'a reader \<Rightarrow> 'a list \<Rightarrow> 'a list reader" where
  "read_pushing capacity 0 R elements = rd_ok elements"
| "read_pushing capacity (Suc n) R elements =
     rd_bind R (\<lambda>v. read_pushing capacity n R (if length elements < capacity then elements @ [v] else elements))"

text \<open>The block for an array of variable length.\<close>

definition read_vec :: "nat \<Rightarrow> nat reader \<Rightarrow> 'a reader \<Rightarrow> 'a list reader" where
  "read_vec capacity read_length R =
     rd_bind read_length (\<lambda>n. if n \<le> capacity then read_pushing capacity n R [] else rd_err ArrayLength)"

section \<open>The traits\<close>

record 'a data_type_impl =
  EXTENT_BYTES :: "nat option"
  size_bits :: "'a \<Rightarrow> nat"
  serialize :: "'a \<Rightarrow> writer"
  deserialize :: "'a reader"

definition serialize_to_bytes :: "'a data_type_impl \<Rightarrow> 'a \<Rightarrow> u8 list \<Rightarrow> u8 list option" where
  "serialize_to_bytes T v bytes = do { c \<leftarrow> serialize T v (write_cursor_new bytes); Some (wc_bytes c) }"

definition deserialize_from_bytes :: "'a data_type_impl \<Rightarrow> u8 list \<Rightarrow> (DeserializeError + 'a) option" where
  "deserialize_from_bytes T bytes = do { (r, _) \<leftarrow> deserialize T (read_cursor_new bytes); Some r }"

text \<open>
  \<^verbatim>\<open>deserialize_zero_copy\<close>: the size of the value in memory and the conversion from its bytes are
  those of the (packed) struct.
\<close>

definition deserialize_zero_copy :: "nat \<Rightarrow> (u8 list \<Rightarrow> 'a) \<Rightarrow> 'a reader" where
  "deserialize_zero_copy value_size from_bytes c =
     do {
       cursor_bytes \<leftarrow> rc_as_bytes c;
       let bytes_to_copy = min value_size (length cursor_bytes);
       let value_bytes = take bytes_to_copy cursor_bytes @ replicate (value_size - bytes_to_copy) 0;
       Some (Inr (from_bytes value_bytes), rc_advance_bytes bytes_to_copy c)
     }"

definition write_composite_of :: "'a data_type_impl \<Rightarrow> 'a \<Rightarrow> writer" where
  "write_composite_of T v = write_composite (EXTENT_BYTES T) (size_bits T v) (serialize T v)"

definition read_composite_of :: "'a data_type_impl \<Rightarrow> 'a reader" where
  "read_composite_of T = read_composite (EXTENT_BYTES T) (deserialize T)"

section \<open>What writers and readers do to bits\<close>

text \<open>
  A writer that starts at a bit position congruent to \<open>p\<close> appends exactly these bits if they fit; a
  reader that finds these bits at such a position returns the value and consumes exactly them.
\<close>

definition writes :: "nat \<Rightarrow> writer \<Rightarrow> bool list \<Rightarrow> bool" where
  "writes p W bs \<longleftrightarrow> (\<forall>c. wc_inv c \<longrightarrow> bits_written c mod 8 = p mod 8
     \<longrightarrow> bits_written c + length bs \<le> 8 * length (wc_bytes c)
     \<longrightarrow> (\<exists>c'. W c = Some c' \<and> wc_extends c (length bs) ((!) bs) c'))"

definition reads :: "nat \<Rightarrow> 'a reader \<Rightarrow> bool list \<Rightarrow> 'a \<Rightarrow> bool" where
  "reads p R bs v \<longleftrightarrow> (\<forall>c. rc_bit_index c = p mod 8
     \<longrightarrow> rc_bit_index c + length bs \<le> 8 * length (rc_bytes c)
     \<longrightarrow> (\<forall>k < length bs. rbit c k = bs ! k)
     \<longrightarrow> R c = Some (Inr v, rc_advance_bits (length bs) c))"

definition bits_of :: "nat \<Rightarrow> 'a::len word \<Rightarrow> bool list" where
  "bits_of n w = map (bit w) [0..<n]"

definition bits_of_bytes :: "u8 list \<Rightarrow> bool list" where
  "bits_of_bytes bs = map (bit_at bs) [0..<8 * length bs]"

lemma length_bits_of [simp]: "length (bits_of n w) = n"
  by (simp add: bits_of_def)

lemma length_bits_of_bytes [simp]: "length (bits_of_bytes bs) = 8 * length bs"
  by (simp add: bits_of_bytes_def)

lemma writesD:
  assumes "writes p W bs" and "wc_inv c" and "bits_written c mod 8 = p mod 8"
    and "bits_written c + length bs \<le> 8 * length (wc_bytes c)"
  obtains c' where "W c = Some c'" "wc_extends c (length bs) ((!) bs) c'"
  using assms by (auto simp: writes_def)

lemma readsD:
  assumes "reads p R bs v" and "rc_bit_index c = p mod 8" and "rc_bit_index c + length bs \<le> 8 * length (rc_bytes c)"
    and "\<And>k. k < length bs \<Longrightarrow> rbit c k = bs ! k"
  shows "R c = Some (Inr v, rc_advance_bits (length bs) c)"
  using assms by (simp add: reads_def)

lemma writes_cong: "p mod 8 = q mod 8 \<Longrightarrow> writes p W bs = writes q W bs"
  by (simp add: writes_def)

lemma reads_cong: "p mod 8 = q mod 8 \<Longrightarrow> reads p R bs v = reads q R bs v"
  by (simp add: reads_def)

lemma writes_ext: "(\<And>c. W c = W' c) \<Longrightarrow> writes p W' bs \<Longrightarrow> writes p W bs"
  by (simp add: writes_def)

lemma writes_nil: "writes p (\<lambda>c. Some c) []"
  by (simp add: writes_def wc_extends_refl)

lemma writes_bind:
  assumes "writes p W bs" and "writes (p + length bs) W' bs'"
  shows "writes p (\<lambda>c. W c \<bind> W') (bs @ bs')"
  unfolding writes_def
proof (intro allI impI)
  fix c
  assume c: "wc_inv c" "bits_written c mod 8 = p mod 8" "bits_written c + length (bs @ bs') \<le> 8 * length (wc_bytes c)"
  obtain c1 where c1: "W c = Some c1" "wc_extends c (length bs) ((!) bs) c1"
    using assms(1) c(1, 2) by (rule writesD) (use c(3) in simp)
  note d = wc_extendsD [OF c1(2)]
  obtain c2 where c2: "W' c1 = Some c2" "wc_extends c1 (length bs') ((!) bs') c2"
    using assms(2) d(1) by (rule writesD) (use c d in \<open>simp_all add: mod_add_left_eq [of "bits_written c", symmetric] mod_simps\<close>)
  have "wc_extends c (length (bs @ bs')) ((!) (bs @ bs')) c2"
    using wc_extends_trans [OF c1(2) c2(2)] by (rule wc_extends_cong) (simp_all add: nth_append)
  with c1(1) c2(1) show "\<exists>c'. W c \<bind> W' = Some c' \<and> wc_extends c (length (bs @ bs')) ((!) (bs @ bs')) c'"
    by simp
qed

lemma reads_ok: "reads p (rd_ok v) [] v"
  by (simp add: reads_def rd_ok_def rc_advance_zero)

lemma reads_bind:
  assumes "reads p R bs v" and "reads (p + length bs) (R' v) bs' w"
  shows "reads p (rd_bind R R') (bs @ bs') w"
  unfolding reads_def
proof (intro allI impI)
  fix c
  assume c: "rc_bit_index c = p mod 8" "rc_bit_index c + length (bs @ bs') \<le> 8 * length (rc_bytes c)"
    "\<forall>k < length (bs @ bs'). rbit c k = (bs @ bs') ! k"
  let ?c = "rc_advance_bits (length bs) c"
  have R: "R c = Some (Inr v, ?c)" using assms(1) c by (auto simp: reads_def nth_append)
  have "rc_bit_index ?c = (p + length bs) mod 8" using c(1) by (simp add: mod_simps)
  moreover have "rc_bit_index ?c + length bs' \<le> 8 * length (rc_bytes ?c)"
  proof -
    define q r where "q = (rc_bit_index c + length bs) div 8" and "r = (rc_bit_index c + length bs) mod 8"
    have "8 * q + r = rc_bit_index c + length bs" by (simp add: q_def r_def)
    with c(2) have "r + length bs' \<le> 8 * (length (rc_bytes c) - q)" by simp
    then show ?thesis by (simp add: rc_advance_bits_eq q_def r_def)
  qed
  moreover have "\<forall>k < length bs'. rbit ?c k = bs' ! k"
    using c(3) by (auto simp: rbit_advance nth_append dest: spec [of _ "length bs + _"])
  ultimately have "R' v ?c = Some (Inr w, rc_advance_bits (length bs') ?c)" using assms(2) by (auto simp: reads_def)
  with R show "rd_bind R R' c = Some (Inr w, rc_advance_bits (length (bs @ bs')) c)"
    by (simp add: rd_bind_def rc_advance_bits_add)
qed

section \<open>The functions of the cursors\<close>

named_theorems writes_intros \<open>what the writers append\<close>
named_theorems reads_intros \<open>what the readers give back\<close>

lemma writesI:
  assumes "\<And>c. wc_inv c \<Longrightarrow> bits_written c mod 8 = p mod 8 \<Longrightarrow> bits_written c + n \<le> 8 * length (wc_bytes c)
      \<Longrightarrow> \<exists>c'. W c = Some c' \<and> wc_extends c n v c'"
    and "length bs = n" and "\<And>k. k < n \<Longrightarrow> v k = bs ! k"
  shows "writes p W bs"
  unfolding writes_def
proof (intro allI impI)
  fix c
  assume "wc_inv c" "bits_written c mod 8 = p mod 8" "bits_written c + length bs \<le> 8 * length (wc_bytes c)"
  with assms(1) [of c] assms(2) obtain c' where "W c = Some c'" "wc_extends c n v c'" by auto
  moreover from this(2) have "wc_extends c (length bs) ((!) bs) c'"
    by (rule wc_extends_cong) (simp_all add: assms(2, 3))
  ultimately show "\<exists>c'. W c = Some c' \<and> wc_extends c (length bs) ((!) bs) c'" by blast
qed

lemma writes_unsigned [writes_intros]:
  "n \<le> 8 \<Longrightarrow> writes p (write_u1_to_u8 n v8) (bits_of n v8)"
  "n \<le> 16 \<Longrightarrow> writes p (write_u9_to_u16 n v16) (bits_of n v16)"
  "n \<le> 32 \<Longrightarrow> writes p (write_u17_to_u32 n v32) (bits_of n v32)"
  "n \<le> 64 \<Longrightarrow> writes p (write_u33_to_u64 n v64) (bits_of n v64)"
  by (rule writesI, erule (2) write_unsigned_spec; simp add: bits_of_def)+

lemma writes_float [writes_intros]:
  "writes p (write_f16 v16) (bits_of 16 v16)" "writes p (write_f32 v32) (bits_of 32 v32)"
  "writes p (write_f64 v64) (bits_of 64 v64)"
  using writes_unsigned(2) [of 16 p v16] writes_unsigned(3) [of 32 p v32] writes_unsigned(4) [of 64 p v64]
  by (simp_all add: writes_def write_f16_def write_f32_def write_f64_def)

lemma writes_bool [writes_intros]: "writes p (write_bool b) [b]"
proof (rule writesI)
  fix c assume "wc_inv c" "bits_written c + 1 \<le> 8 * length (wc_bytes c)"
  then show "\<exists>c'. write_bool b c = Some c' \<and> wc_extends c 1 (field_bit (FBool b)) c'"
    using write_field_spec [of c "FBool b"] by simp
qed simp_all

lemma writes_bytes [writes_intros]: "writes p (write_bytes bs) (bits_of_bytes bs)"
  by (rule writesI, erule (1) write_bytes_spec) (simp_all add: bits_of_bytes_def)

lemma writes_aligned_bytes [writes_intros]:
  "p mod 8 = 0 \<Longrightarrow> writes p (write_aligned_bytes bs) (bits_of_bytes bs)"
  by (rule writesI, rule write_aligned_bytes_spec) (simp_all add: bits_of_bytes_def bits_written_mod)

lemma writes_aligned [writes_intros]:
  assumes "p mod 8 = 0"
  shows "writes p (write_aligned_u8 v8) (bits_of 8 v8)" "writes p (write_aligned_u16 v16) (bits_of 16 v16)"
    "writes p (write_aligned_u32 v32) (bits_of 32 v32)" "writes p (write_aligned_u64 v64) (bits_of 64 v64)"
proof -
  have *: "\<exists>c'. write_field f c = Some c' \<and> wc_extends c n (field_bit f) c'"
    if "wc_inv c" "bits_written c mod 8 = p mod 8" "bits_written c + n \<le> 8 * length (wc_bytes c)"
      "field_ok p f" "\<forall>q. field_width q f = n" "f = FAligned8 v8 \<or> f = FAligned16 v16 \<or> f = FAligned32 v32 \<or> f = FAligned64 v64"
    for c f n
    using write_field_spec [OF that(1), of f] that assms by auto
  show "writes p (write_aligned_u8 v8) (bits_of 8 v8)"
    by (rule writesI [where n = 8 and v = "bit v8"]) (use * [of _ 8 "FAligned8 v8"] assms in \<open>simp_all add: bits_of_def field_bit_fun\<close>)
  show "writes p (write_aligned_u16 v16) (bits_of 16 v16)"
    by (rule writesI [where n = 16 and v = "bit v16"]) (use * [of _ 16 "FAligned16 v16"] assms in \<open>simp_all add: bits_of_def field_bit_fun\<close>)
  show "writes p (write_aligned_u32 v32) (bits_of 32 v32)"
    by (rule writesI [where n = 32 and v = "bit v32"]) (use * [of _ 32 "FAligned32 v32"] assms in \<open>simp_all add: bits_of_def field_bit_fun\<close>)
  show "writes p (write_aligned_u64 v64) (bits_of 64 v64)"
    by (rule writesI [where n = 64 and v = "bit v64"]) (use * [of _ 64 "FAligned64 v64"] assms in \<open>simp_all add: bits_of_def field_bit_fun\<close>)
qed

lemma writes_skip [writes_intros]: "writes p (wc_skip n) (replicate n False)"
  unfolding wc_skip_def by (rule writesI, erule (1) wc_skip_bits_spec) simp_all

lemma align_bits_cong: "p mod 8 = q mod 8 \<Longrightarrow> align_bits p = align_bits q"
  by (simp add: align_bits_def)

lemma writes_align [writes_intros]: "writes p wc_align_to_8_bits (replicate (align_bits p) False)"
proof (rule writesI)
  fix c assume c: "wc_inv c" "bits_written c mod 8 = p mod 8" "bits_written c + align_bits p \<le> 8 * length (wc_bytes c)"
  then show "\<exists>c'. wc_align_to_8_bits c = Some c' \<and> wc_extends c (align_bits p) (\<lambda>_. False) c'"
    using wc_align_spec [of c] align_bits_cong [OF c(2)] by simp
qed simp_all

lemma writes_bit_array [writes_intros]: "ba_inv a \<Longrightarrow> writes p (ba_serialize a) (ba_bits a)"
  by (rule writesI, rule ba_serialize_spec) simp_all

lemma writes_each [writes_intros]:
  assumes "\<And>v q. v \<in> set vs \<Longrightarrow> q mod 8 = p mod 8 \<Longrightarrow> writes q (W v) (f v)" and "\<And>v. v \<in> set vs \<Longrightarrow> length (f v) mod 8 = 0"
  shows "writes p (write_each W vs) (concat (map f vs))"
  using assms
proof (induction vs arbitrary: p)
  case Nil
  then show ?case by (simp add: writes_def wc_extends_refl)
next
  case (Cons v vs)
  have "(p + length (f v)) mod 8 = p mod 8" using Cons.prems(2) [of v] by (simp add: mod_add_right_eq [symmetric])
  then have "writes (p + length (f v)) (write_each W vs) (concat (map f vs))"
    using Cons.prems by (intro Cons.IH) simp_all
  moreover have "writes p (W v) (f v)" using Cons.prems(1) by simp
  ultimately show ?case using writes_bind [of p "W v" "f v"] by simp
qed

lemma readsI:
  assumes "\<And>c. rc_bit_index c = p mod 8 \<Longrightarrow> (\<And>k. k < length bs \<Longrightarrow> rbit c k = bs ! k)
      \<Longrightarrow> m c = Some (v, rc_advance_bits (length bs) c)"
  shows "reads p (rd_get m) bs v"
  using assms by (simp add: reads_def rd_get_def)

lemma reads_unsigned [reads_intros]:
  "n \<le> 8 \<Longrightarrow> take_bit n v8 = v8 \<Longrightarrow> reads p (rd_get (read_u1_to_u8 n)) (bits_of n v8) v8"
  "8 < n \<Longrightarrow> n < 16 \<Longrightarrow> take_bit n v16 = v16 \<Longrightarrow> reads p (rd_get (read_u9_to_u15 n)) (bits_of n v16) v16"
  "reads p (rd_get (read_u16 dbg)) (bits_of 16 v16) v16"
  "n < 32 \<Longrightarrow> take_bit n v32 = v32 \<Longrightarrow> reads p (rd_get (read_u17_to_u31 dbg n)) (bits_of n v32) v32"
  "reads p (rd_get read_u32) (bits_of 32 v32) v32"
  "n \<le> 64 \<Longrightarrow> take_bit n v64 = v64 \<Longrightarrow> reads p (rd_get (read_u33_to_u64 n)) (bits_of n v64) v64"
proof -
  have lt: "rc_bit_index c < 8" if "rc_bit_index c = p mod 8" for c using that by simp
  note r = read_unsigned_spec [OF lt]
  show "n \<le> 8 \<Longrightarrow> take_bit n v8 = v8 \<Longrightarrow> reads p (rd_get (read_u1_to_u8 n)) (bits_of n v8) v8"
    by (rule readsI, drule r(1) [of _ n v8]) (simp_all add: bits_of_def)
  show "8 < n \<Longrightarrow> n < 16 \<Longrightarrow> take_bit n v16 = v16 \<Longrightarrow> reads p (rd_get (read_u9_to_u15 n)) (bits_of n v16) v16"
    by (rule readsI, drule r(2) [of _ n v16]) (simp_all add: bits_of_def)
  show "reads p (rd_get (read_u16 dbg)) (bits_of 16 v16) v16"
    by (rule readsI, drule r(3) [of _ v16 dbg]) (simp_all add: bits_of_def)
  show "n < 32 \<Longrightarrow> take_bit n v32 = v32 \<Longrightarrow> reads p (rd_get (read_u17_to_u31 dbg n)) (bits_of n v32) v32"
    by (rule readsI, drule r(4) [of _ n v32 dbg]) (simp_all add: bits_of_def)
  show "reads p (rd_get read_u32) (bits_of 32 v32) v32"
    by (rule readsI, drule r(5) [of _ v32]) (simp_all add: bits_of_def)
  show "n \<le> 64 \<Longrightarrow> take_bit n v64 = v64 \<Longrightarrow> reads p (rd_get (read_u33_to_u64 n)) (bits_of n v64) v64"
    by (rule readsI, drule r(6) [of _ n v64]) (simp_all add: bits_of_def)
qed

lemma reads_full [reads_intros]:
  "reads p (rd_get (read_u1_to_u8 8)) (bits_of 8 v8) v8" "reads p (rd_get (read_u33_to_u64 64)) (bits_of 64 v64) v64"
  "reads p (rd_get (read_f16 dbg)) (bits_of 16 v16) v16" "reads p (rd_get read_f32) (bits_of 32 v32) v32"
  "reads p (rd_get read_f64) (bits_of 64 v64) v64"
  using reads_unsigned(1) [of 8 v8 p] reads_unsigned(3) [of p dbg v16] reads_unsigned(5) [of p v32] reads_unsigned(6) [of 64 v64 p]
  by (simp_all add: take_bit_full reads_def rd_get_def read_f16_def read_f32_def read_f64_def)

lemma reads_aligned_u8 [reads_intros]:
  assumes "p mod 8 = 0"
  shows "reads p (rd_get read_aligned_u8) (bits_of 8 v) v"
proof (rule readsI)
  fix c assume "rc_bit_index c = p mod 8" "\<And>k. k < length (bits_of 8 v) \<Longrightarrow> rbit c k = bits_of 8 v ! k"
  then show "read_aligned_u8 c = Some (v, rc_advance_bits (length (bits_of 8 v)) c)"
    using read_aligned_spec(1) [of c v] assms by (simp add: bits_of_def)
qed

lemma reads_bool [reads_intros]: "reads p (rd_get read_bool) [b] b"
  by (rule readsI) (simp add: read_bool_spec)

definition rd_skip :: "nat \<Rightarrow> unit reader" where
  "rd_skip n c = Some (Inr (), rc_skip n c)"

lemma reads_skip [reads_intros]: "reads p (rd_skip n) (replicate n False) ()"
  by (simp add: reads_def rd_skip_def rc_skip_def)

lemma reads_zero_copy [reads_intros]:
  assumes "p mod 8 = 0" and "length bs = n" and "from_bytes bs = v"
  shows "reads p (deserialize_zero_copy n from_bytes) (bits_of_bytes bs) v"
  unfolding reads_def
proof (intro allI impI)
  fix c
  assume c: "rc_bit_index c = p mod 8" "rc_bit_index c + length (bits_of_bytes bs) \<le> 8 * length (rc_bytes c)"
    "\<forall>k < length (bits_of_bytes bs). rbit c k = bits_of_bytes bs ! k"
  have i: "rc_bit_index c = 0" and n: "n \<le> length (rc_bytes c)" using c(1, 2) assms by simp_all
  have "bit_at (take n (rc_bytes c)) k = bit_at (rc_bytes c) k" if "k < 8 * n" for k
    using that by (auto simp: bit_at_def)
  then have "take n (rc_bytes c) = bs"
    using c(3) i n assms(2) by (intro bit_at_eqI) (simp_all add: bits_of_bytes_def rbit_def)
  then show "deserialize_zero_copy n from_bytes c = Some (Inr v, rc_advance_bits (length (bits_of_bytes bs)) c)"
    using i n assms(2, 3)
    by (simp add: deserialize_zero_copy_def rc_as_bytes_def rc_is_aligned_to_8_bits_def rc_advance_bytes_eq rc_advance_bits_eq)
qed

lemma reads_bit_array [reads_intros]:
  assumes "ba_bit_length a = n" and "n = 8 * length (ba_bytes a)" and "length (ba_bytes a) = BYTES"
  shows "reads p (rd_get (ba_deserialize BYTES n)) (ba_bits a) a"
proof (rule readsI)
  fix c assume c: "rc_bit_index c = p mod 8" "\<And>k. k < length (ba_bits a) \<Longrightarrow> rbit c k = ba_bits a ! k"
  have "ba_consumed BYTES n c = n" using assms by (simp add: ba_consumed_def)
  with ba_deserialize_spec [of n BYTES c] c(1) assms obtain a' where
    a': "ba_deserialize BYTES n c = Some (a', rc_advance_bits n c)" "length (ba_bytes a') = BYTES"
      "ba_bits a' = map (rbit c) [0..<n]" by auto
  have len: "ba_bit_length a' = n" using arg_cong [OF a'(3), of length] by simp
  have "bit_at (ba_bytes a') k = bit_at (ba_bytes a) k" if "k < 8 * length (ba_bytes a)" for k
    using arg_cong [OF a'(3), of "\<lambda>bs. bs ! k"] that assms c(2) len by simp
  then have "ba_bytes a' = ba_bytes a" using a'(2) assms(3) by (intro bit_at_eqI) simp_all
  with len assms(1) have "a' = a" by (cases a; cases a') simp
  with a'(1) assms show "ba_deserialize BYTES n c = Some (a, rc_advance_bits (length (ba_bits a)) c)" by simp
qed

lemma reads_fixed [reads_intros]:
  assumes "\<And>v q. v \<in> set vs \<Longrightarrow> q mod 8 = p mod 8 \<Longrightarrow> reads q R (f v) v" and "\<And>v. v \<in> set vs \<Longrightarrow> length (f v) mod 8 = 0"
    and "length vs = n"
  shows "reads p (read_fixed n R) (concat (map f vs)) vs"
  using assms
proof (induction vs arbitrary: n p)
  case Nil
  then show ?case by (simp add: reads_ok)
next
  case (Cons v vs)
  have "(p + length (f v)) mod 8 = p mod 8" using Cons.prems(2) [of v] by (simp add: mod_add_right_eq [symmetric])
  then have "reads (p + length (f v)) (read_fixed (length vs) R) (concat (map f vs)) vs"
    using Cons.prems by (intro Cons.IH) simp_all
  from reads_bind [where R' = "\<lambda>vs. rd_ok (v # vs)", OF this reads_ok]
  have "reads (p + length (f v)) (rd_bind (read_fixed (length vs) R) (\<lambda>vs. rd_ok (v # vs))) (concat (map f vs)) (v # vs)"
    by simp
  moreover have "reads p R (f v) v" using Cons.prems(1) by simp
  ultimately show ?case using reads_bind [of p R "f v" v] Cons.prems(3) by auto
qed

lemma reads_pushing:
  assumes "\<And>v q. v \<in> set vs \<Longrightarrow> q mod 8 = p mod 8 \<Longrightarrow> reads q R (f v) v" and "\<And>v. v \<in> set vs \<Longrightarrow> length (f v) mod 8 = 0"
    and "length (us @ vs) \<le> capacity"
  shows "reads p (read_pushing capacity (length vs) R us) (concat (map f vs)) (us @ vs)"
  using assms
proof (induction vs arbitrary: us p)
  case Nil
  then show ?case by (simp add: reads_ok)
next
  case (Cons v vs)
  have "(p + length (f v)) mod 8 = p mod 8" using Cons.prems(2) [of v] by (simp add: mod_add_right_eq [symmetric])
  then have "reads (p + length (f v)) (read_pushing capacity (length vs) R (us @ [v])) (concat (map f vs)) ((us @ [v]) @ vs)"
    using Cons.prems by (intro Cons.IH) simp_all
  moreover have "reads p R (f v) v" using Cons.prems(1) by simp
  ultimately show ?case using reads_bind [of p R "f v" v] Cons.prems(3) by simp
qed

lemma reads_vec [reads_intros]:
  assumes "reads p read_length lbs (length vs)" and "length vs \<le> capacity" and "length lbs mod 8 = 0"
    and "\<And>v q. v \<in> set vs \<Longrightarrow> q mod 8 = p mod 8 \<Longrightarrow> reads q R (f v) v" and "\<And>v. v \<in> set vs \<Longrightarrow> length (f v) mod 8 = 0"
  shows "reads p (read_vec capacity read_length R) (lbs @ concat (map f vs)) vs"
proof -
  have "(p + length lbs) mod 8 = p mod 8" using assms(3) by (simp add: mod_add_right_eq [symmetric])
  then have "reads (p + length lbs) (read_pushing capacity (length vs) R []) (concat (map f vs)) ([] @ vs)"
    using assms by (intro reads_pushing) simp_all
  then show ?thesis unfolding read_vec_def using assms(1, 2) by (intro reads_bind [where v = "length vs"]) simp_all
qed

section \<open>Composite types\<close>

definition composite_bits :: "'a data_type_impl \<Rightarrow> ('a \<Rightarrow> bool list) \<Rightarrow> 'a \<Rightarrow> bool list" where
  "composite_bits T bits v =
     (if EXTENT_BYTES T \<noteq> None then bits_of 32 (of_nat (size_bits T v div 8) :: u32) else [])
     @ bits v @ replicate (align_bits (length (bits v))) False"

lemma rc_align_advance:
  assumes "rc_bit_index c = 0"
  shows "rc_align_to_8_bits (rc_advance_bits n c) = rc_advance_bits (n + align_bits n) c"
proof (cases "n mod 8 = 0")
  case False
  then have "align_bits n = 8 - n mod 8" by (simp add: align_bits_def)
  with False assms show ?thesis by (simp add: rc_align_to_8_bits_def rc_advance_bits_add)
qed (use assms in \<open>simp add: rc_align_to_8_bits_def align_bits_def\<close>)

lemma align_bits_zero: "p mod 8 = 0 \<Longrightarrow> align_bits p = 0"
  by (simp add: align_bits_def)

lemma mod8_add: "q mod 8 = 0 \<Longrightarrow> (q + l) mod 8 = l mod (8 :: nat)"
  by (metis add_0 mod_add_left_eq)

text \<open>
  The contract of a data type: the bits of its values, for values that it can represent. The size
  it reports is the number of these bits, rounded up to whole bytes; a delimited type
  does not exceed its extent; on a byte boundary the serializer writes these bits and
  the deserializer turns them back into the value.
\<close>

locale data_type =
  fixes T :: "'a data_type_impl" and bits :: "'a \<Rightarrow> bool list" and valid :: "'a \<Rightarrow> bool"
  assumes size_law: "valid v \<Longrightarrow> size_bits T v = length (bits v) + align_bits (length (bits v))"
    and extent_law: "valid v \<Longrightarrow> EXTENT_BYTES T = Some e \<Longrightarrow> size_bits T v \<le> 8 * e \<and> e < 2 ^ 32"
    and serialize_law: "valid v \<Longrightarrow> p mod 8 = 0 \<Longrightarrow> writes p (serialize T v) (bits v)"
    and deserialize_law: "valid v \<Longrightarrow> p mod 8 = 0 \<Longrightarrow> reads p (deserialize T) (bits v) v"
begin

lemma size_mod: "valid v \<Longrightarrow> size_bits T v mod 8 = 0"
  using size_law align_bits_aligned by metis

lemma composite_length:
  "valid v \<Longrightarrow> length (composite_bits T bits v) = (if EXTENT_BYTES T = None then 0 else 32) + size_bits T v"
  by (simp add: composite_bits_def size_law)

lemma composite_mod: "valid v \<Longrightarrow> length (composite_bits T bits v) mod 8 = 0"
  using size_mod [of v] by (auto simp: composite_length)

lemma delimiter_fits:
  assumes "valid v" and "EXTENT_BYTES T \<noteq> None"
  shows "size_bits T v div 8 < 2 ^ 32" "(size_bits T v + 7) div 8 = size_bits T v div 8"
    "unat (of_nat (size_bits T v div 8) :: u32) = size_bits T v div 8"
proof -
  obtain e where "EXTENT_BYTES T = Some e" using assms(2) by auto
  from extent_law [OF assms(1) this] show lt: "size_bits T v div 8 < 2 ^ 32" by auto
  show "(size_bits T v + 7) div 8 = size_bits T v div 8" using size_mod [OF assms(1)] by auto
  show "unat (of_nat (size_bits T v div 8) :: u32) = size_bits T v div 8"
    using lt by (simp add: unsigned_of_nat take_bit_nat_eq_self)
qed

lemma header_writes:
  assumes "valid v"
  shows "writes p (\<lambda>c. if EXTENT_BYTES T \<noteq> None then
      (let composite_size_bytes = (size_bits T v + 7) div 8 in
       if composite_size_bytes < 2 ^ 32 then write_u17_to_u32 32 (of_nat composite_size_bytes) c else None)
      else Some c)
    (if EXTENT_BYTES T \<noteq> None then bits_of 32 (of_nat (size_bits T v div 8) :: u32) else [])"
proof (cases "EXTENT_BYTES T = None")
  case True
  then show ?thesis by (simp add: writes_nil)
next
  case False
  have "size_bits T v div 8 < 4294967296" using delimiter_fits(1) [OF assms False] by simp
  with False delimiter_fits(2) [OF assms False] writes_unsigned(3) [of 32 p] show ?thesis by simp
qed

lemma composite_writes:
  assumes "valid v" and "p mod 8 = 0"
  shows "writes p (write_composite_of T v) (composite_bits T bits v)"
proof -
  let ?header = "if EXTENT_BYTES T \<noteq> None then bits_of 32 (of_nat (size_bits T v div 8) :: u32) else []"
  let ?q = "p + length ?header"
  have q: "?q mod 8 = 0" using assms(2) by auto
  have pad: "writes (?q + length (bits v)) wc_align_to_8_bits (replicate (align_bits (length (bits v))) False)"
  proof -
    have "(?q + length (bits v)) mod 8 = length (bits v) mod 8" by (rule mod8_add [OF q])
    from writes_align [of "?q + length (bits v)"] align_bits_cong [OF this] show ?thesis by simp
  qed
  have align: "writes p wc_align_to_8_bits []" using writes_align [of p] assms(2) by (simp add: align_bits_zero)
  from writes_bind [OF serialize_law [OF assms(1) q] pad]
  have "writes p (\<lambda>c. (if EXTENT_BYTES T \<noteq> None then
      (let composite_size_bytes = (size_bits T v + 7) div 8 in
       if composite_size_bytes < 2 ^ 32 then write_u17_to_u32 32 (of_nat composite_size_bytes) c else None)
      else Some c) \<bind> (\<lambda>c. serialize T v c \<bind> wc_align_to_8_bits)) (composite_bits T bits v)"
    unfolding composite_bits_def by (rule writes_bind [OF header_writes [OF assms(1)]])
  then have "writes (p + length ([] :: bool list)) (\<lambda>c. (if EXTENT_BYTES T \<noteq> None then
      (let composite_size_bytes = (size_bits T v + 7) div 8 in
       if composite_size_bytes < 2 ^ 32 then write_u17_to_u32 32 (of_nat composite_size_bytes) c else None)
      else Some c) \<bind> (\<lambda>c. serialize T v c \<bind> wc_align_to_8_bits)) (composite_bits T bits v)" by simp
  note * = writes_bind [OF align this, unfolded append_Nil]
  show ?thesis by (rule writes_ext [OF _ *]) (simp only: write_composite_of_def write_composite_def)
qed

lemma sealed_reads:
  assumes "valid v" and "p mod 8 = 0" and "EXTENT_BYTES T = None"
  shows "reads p (read_composite_of T) (composite_bits T bits v) v"
  unfolding reads_def
proof (intro allI impI)
  fix c
  assume c: "rc_bit_index c = p mod 8" "rc_bit_index c + length (composite_bits T bits v) \<le> 8 * length (rc_bytes c)"
    "\<forall>k < length (composite_bits T bits v). rbit c k = composite_bits T bits v ! k"
  have "deserialize T c = Some (Inr v, rc_advance_bits (length (bits v)) c)"
    using deserialize_law [OF assms(1, 2)] c assms(3) by (auto simp: reads_def composite_bits_def nth_append)
  with c(1) assms(2, 3)
  show "read_composite_of T c = Some (Inr v, rc_advance_bits (length (composite_bits T bits v)) c)"
    by (simp add: read_composite_of_def read_composite_def rc_align_to_8_bits_def [of c] rc_align_advance
        composite_length assms(1) size_law Let_def)
qed

lemma delimited_reads:
  assumes "valid v" and "p mod 8 = 0" and "EXTENT_BYTES T \<noteq> None"
  shows "reads p (read_composite_of T) (composite_bits T bits v) v"
  unfolding reads_def
proof (intro allI impI)
  fix c
  assume c: "rc_bit_index c = p mod 8" "rc_bit_index c + length (composite_bits T bits v) \<le> 8 * length (rc_bytes c)"
    "\<forall>k < length (composite_bits T bits v). rbit c k = composite_bits T bits v ! k"
  let ?n = "size_bits T v div 8" and ?c = "rc_advance_bits 32 c"
  obtain e where e: "EXTENT_BYTES T = Some e" using assms(3) by auto
  have n: "8 * ?n = size_bits T v" using size_mod [OF assms(1)] by auto
  have m: "(32 + size_bits T v) mod 8 = 0" using size_mod [OF assms(1)] mod8_add [of 32 "size_bits T v"] by simp
  have i: "rc_bit_index c = 0" "rc_bit_index ?c = 0" using c(1) assms(2) by simp_all
  have "rbit c k = bit (of_nat ?n :: u32) k" if "k < 32" for k
    using c(3) that assms(3) by (auto simp: composite_bits_def nth_append bits_of_def)
  then have header: "read_aligned_u32 c = Some (of_nat ?n, ?c)" by (rule read_aligned_spec(3) [OF i(1)])
  have len: "?n \<le> length (rc_bytes ?c)"
    using c(2) n i(1) assms(1, 3) by (simp add: composite_length rc_advance_bits_eq)
  let ?f = "\<lparr>rc_bytes = take ?n (rc_bytes ?c), rc_bit_index = 0\<rparr>"
  have "rbit ?f k = rbit c (32 + k)" if "k < 8 * ?n" for k
  proof -
    have "rbit ?f k = rbit ?c k" using that i(2) by (auto simp: rbit_def bit_at_def)
    then show ?thesis by (simp add: rbit_advance)
  qed
  moreover have "length (bits v) \<le> 8 * ?n" using n size_law [OF assms(1)] by simp
  ultimately have "\<forall>k < length (bits v). rbit ?f k = bits v ! k"
    using c(3) assms(3) by (auto simp: composite_bits_def nth_append)
  then have "deserialize T ?f = Some (Inr v, rc_advance_bits (length (bits v)) ?f)"
    using deserialize_law [OF assms(1, 2)] len \<open>length (bits v) \<le> 8 * ?n\<close> assms(2) by (auto simp: reads_def)
  moreover have "?c\<lparr>rc_bytes := drop ?n (rc_bytes ?c)\<rparr> = rc_advance_bits (32 + size_bits T v) c"
  proof -
    have "(32 + size_bits T v) div 8 = 4 + ?n" by auto
    with i(1) m show ?thesis by (simp add: rc_advance_bits_eq add.commute)
  qed
  ultimately show "read_composite_of T c = Some (Inr v, rc_advance_bits (length (composite_bits T bits v)) c)"
    using header len i assms(1) e m
    by (simp add: read_composite_of_def read_composite_def rc_align_to_8_bits_def Let_def rc_fork_def
        delimiter_fits(3) composite_length)
qed

lemma composite_reads:
  "valid v \<Longrightarrow> p mod 8 = 0 \<Longrightarrow> reads p (read_composite_of T) (composite_bits T bits v) v"
  by (cases "EXTENT_BYTES T = None") (simp_all add: sealed_reads delimited_reads)

text \<open>A value survives the way through a buffer with room for the size it reports.\<close>

lemma bytes_roundtrip:
  assumes "valid v" and "size_bits T v \<le> 8 * length buffer"
  shows "\<exists>bytes. serialize_to_bytes T v buffer = Some bytes \<and> length bytes = length buffer
    \<and> deserialize_from_bytes T bytes = Some (Inr v)"
proof -
  have fits: "length (bits v) \<le> 8 * length buffer" using assms size_law by simp
  obtain c where c: "serialize T v (write_cursor_new buffer) = Some c"
      "wc_extends (write_cursor_new buffer) (length (bits v)) ((!) (bits v)) c"
    using serialize_law [OF assms(1), of 0] write_cursor_new_inv(1) [of buffer]
    by (rule writesD) (simp_all add: fits write_cursor_new_inv(2) write_cursor_new_length)
  note d = wc_extendsD [OF c(2)]
  let ?r = "read_cursor_new (wc_bytes c)"
  have "rbit ?r k = bits v ! k" if "k < length (bits v)" for k
    using c(2) that by (simp add: wc_extends_def rbit_new write_cursor_new_inv(2))
  moreover have "rc_bit_index ?r = 0 mod 8" "rc_bytes ?r = wc_bytes c" by (simp_all add: read_cursor_new_def)
  ultimately have "deserialize T ?r = Some (Inr v, rc_advance_bits (length (bits v)) ?r)"
    using fits d(3) by (intro readsD [OF deserialize_law [OF assms(1), of 0]]) (simp_all add: write_cursor_new_length)
  with c(1) d(3) show ?thesis
    by (simp add: serialize_to_bytes_def deserialize_from_bytes_def write_cursor_new_length)
qed

end

end
