(* ===== verification/Data_Node.thy ===== *)
theory Data_Node
  imports Enc_DataType
begin

text \<open>
  The generated data types (\<^verbatim>\<open>canadensis_data_types/src/generated.rs\<close>) that the node code sends and
  receives: heartbeat, node information, port list and node ID allocation. Every type has the
  operations of its trait implementations and an interpretation of the contract
  \<open>data_type\<close>. Packed structs are their bytes in memory on a little-endian target.
\<close>

section \<open>Lengths and positions\<close>

lemma length_concat_map: "(\<And>v. v \<in> set vs \<Longrightarrow> length (f v) = n) \<Longrightarrow> length (concat (map f vs)) = n * length vs"
  by (induction vs) simp_all

lemma length_concat_bits_of [simp]: "length (concat (map (bits_of n) vs)) = n * length vs"
  by (rule length_concat_map) simp

lemma mod8_addI: "a mod 8 = 0 \<Longrightarrow> b mod 8 = 0 \<Longrightarrow> (a + b) mod 8 = (0 :: nat)"
  by (simp add: mod8_add)

lemma writes_at_0: "writes 0 W bs \<Longrightarrow> p mod 8 = 0 \<Longrightarrow> writes p W bs"
  using writes_cong [of p 0] by simp

lemma reads_at_0: "reads 0 R bs v \<Longrightarrow> p mod 8 = 0 \<Longrightarrow> reads p R bs v"
  by (simp add: reads_cong [of p 0])

text \<open>The common form of the proofs that a generated type keeps the contract.\<close>

lemma data_typeI:
  assumes "\<And>v. valid v \<Longrightarrow> size_bits T v = length (bits v) + align_bits (length (bits v))"
    and "\<And>v e. valid v \<Longrightarrow> EXTENT_BYTES T = Some e \<Longrightarrow> size_bits T v \<le> 8 * e \<and> e < 2 ^ 32"
    and "\<And>v. valid v \<Longrightarrow> writes 0 (serialize T v) (bits v)"
    and "\<And>v. valid v \<Longrightarrow> reads 0 (deserialize T) (bits v) v"
  shows "data_type T bits valid"
  by unfold_locales (use assms in \<open>auto intro: writes_at_0 reads_at_0\<close>)

text \<open>The last step of a deserializer builds the value.\<close>

lemma reads_map: "reads p R bs v \<Longrightarrow> g v = w \<Longrightarrow> reads p (rd_bind R (\<lambda>v. rd_ok (g v))) bs w"
  using reads_bind [where R' = "\<lambda>v. rd_ok (g v)", OF _ reads_ok, of p R bs v] by simp

text \<open>The tag of a union.\<close>

lemma reads_variant:
  assumes "p mod 8 = 0" and "R t = rd_bind R' (\<lambda>v. rd_ok (g v))" and "reads (p + 8) R' bs v"
  shows "reads p (rd_bind (rd_get read_aligned_u8) R) (bits_of 8 t @ bs) (g v)"
  by (rule reads_bind [OF reads_aligned_u8 [OF assms(1)]]) (use assms(2, 3) in \<open>simp add: reads_map\<close>)

section \<open>Health, mode and heartbeat\<close>

datatype Health = Health (Health_value: u8)

definition Health_impl :: "Health data_type_impl" where
  "Health_impl = \<lparr>EXTENT_BYTES = None,
     size_bits = (\<lambda>self. 8),
     serialize = (\<lambda>self c. write_u1_to_u8 2 (Health_value self) c),
     deserialize = rd_bind (rd_get (read_u1_to_u8 2)) (\<lambda>v. rd_ok (Health v))\<rparr>"

datatype Mode = Mode (Mode_value: u8)

definition Mode_impl :: "Mode data_type_impl" where
  "Mode_impl = \<lparr>EXTENT_BYTES = None,
     size_bits = (\<lambda>self. 8),
     serialize = (\<lambda>self c. write_u1_to_u8 3 (Mode_value self) c),
     deserialize = rd_bind (rd_get (read_u1_to_u8 3)) (\<lambda>v. rd_ok (Mode v))\<rparr>"

record Heartbeat =
  hb_uptime :: u32
  hb_health :: Health
  hb_mode :: Mode
  hb_vendor_specific_status_code :: u8

definition Heartbeat_impl :: "Heartbeat data_type_impl" where
  "Heartbeat_impl = \<lparr>EXTENT_BYTES = Some 12,
     size_bits = (\<lambda>self. 56),
     serialize = (\<lambda>self c.
       do {
         c \<leftarrow> write_aligned_u32 (hb_uptime self) c;
         c \<leftarrow> write_composite_of Health_impl (hb_health self) c;
         c \<leftarrow> write_composite_of Mode_impl (hb_mode self) c;
         write_aligned_u8 (hb_vendor_specific_status_code self) c
       }),
     deserialize =
       rd_bind (rd_get read_u32) (\<lambda>uptime.
       rd_bind (read_composite_of Health_impl) (\<lambda>health.
       rd_bind (read_composite_of Mode_impl) (\<lambda>mode.
       rd_bind (rd_get (read_u1_to_u8 8)) (\<lambda>vendor_specific_status_code.
       rd_ok \<lparr>hb_uptime = uptime, hb_health = health, hb_mode = mode,
         hb_vendor_specific_status_code = vendor_specific_status_code\<rparr>))))\<rparr>"

text \<open>The bits of the values, and the values whose fields are within their widths.\<close>

definition Health_bits :: "Health \<Rightarrow> bool list" where
  "Health_bits v = bits_of 2 (Health_value v)"

definition Health_valid :: "Health \<Rightarrow> bool" where
  "Health_valid v \<longleftrightarrow> take_bit 2 (Health_value v) = Health_value v"

definition Mode_bits :: "Mode \<Rightarrow> bool list" where
  "Mode_bits v = bits_of 3 (Mode_value v)"

definition Mode_valid :: "Mode \<Rightarrow> bool" where
  "Mode_valid v \<longleftrightarrow> take_bit 3 (Mode_value v) = Mode_value v"

definition Heartbeat_bits :: "Heartbeat \<Rightarrow> bool list" where
  "Heartbeat_bits v = bits_of 32 (hb_uptime v) @ composite_bits Health_impl Health_bits (hb_health v)
     @ composite_bits Mode_impl Mode_bits (hb_mode v) @ bits_of 8 (hb_vendor_specific_status_code v)"

definition Heartbeat_valid :: "Heartbeat \<Rightarrow> bool" where
  "Heartbeat_valid v \<longleftrightarrow> Health_valid (hb_health v) \<and> Mode_valid (hb_mode v)"

interpretation health: data_type Health_impl Health_bits Health_valid
  by (rule data_typeI) (auto simp: Health_impl_def Health_bits_def Health_valid_def align_bits_def
      intro!: writes_intros reads_map reads_intros)

interpretation mode: data_type Mode_impl Mode_bits Mode_valid
  by (rule data_typeI) (auto simp: Mode_impl_def Mode_bits_def Mode_valid_def align_bits_def
      intro!: writes_intros reads_map reads_intros)

declare health.composite_writes [writes_intros] mode.composite_writes [writes_intros]
declare health.composite_reads [reads_intros] mode.composite_reads [reads_intros]

lemma Health_length [simp]: "Health_valid v \<Longrightarrow> length (composite_bits Health_impl Health_bits v) = 8"
  by (simp add: health.composite_length) (simp add: Health_impl_def)

lemma Mode_length [simp]: "Mode_valid v \<Longrightarrow> length (composite_bits Mode_impl Mode_bits v) = 8"
  by (simp add: mode.composite_length) (simp add: Mode_impl_def)

interpretation heartbeat: data_type Heartbeat_impl Heartbeat_bits Heartbeat_valid
  by (rule data_typeI; unfold Heartbeat_impl_def Heartbeat_bits_def Heartbeat_valid_def)
    (auto simp: align_bits_def intro!: writes_bind writes_intros reads_bind reads_map reads_intros)

section \<open>Identifiers\<close>

datatype ID = ID (ID_value: u16)

text \<open>A packed struct with one \<^verbatim>\<open>u16\<close>; the bytes of a \<^verbatim>\<open>u16\<close> in memory, and back.\<close>

definition u16_from_bytes :: "u8 list \<Rightarrow> u16" where
  "u16_from_bytes bytes = ucast (bytes ! 0) OR push_bit 8 (ucast (bytes ! 1))"

definition ID_as_bytes :: "ID \<Rightarrow> u8 list" where
  "ID_as_bytes self = le_bytes 2 (ID_value self)"

definition ID_impl :: "ID data_type_impl" where
  "ID_impl = \<lparr>EXTENT_BYTES = None,
     size_bits = (\<lambda>self. 16),
     serialize = (\<lambda>self c. write_aligned_bytes (ID_as_bytes self) c),
     deserialize = deserialize_zero_copy 2 (\<lambda>bytes. ID (u16_from_bytes bytes))\<rparr>"

datatype SubjectID = SubjectID (SubjectID_value: u16)

definition SubjectID_impl :: "SubjectID data_type_impl" where
  "SubjectID_impl = \<lparr>EXTENT_BYTES = None,
     size_bits = (\<lambda>self. 16),
     serialize = (\<lambda>self c. write_u9_to_u16 13 (SubjectID_value self) c),
     deserialize = rd_bind (rd_get (read_u9_to_u15 13)) (\<lambda>v. rd_ok (SubjectID v))\<rparr>"

datatype ServiceID = ServiceID (ServiceID_value: u16)

definition ServiceID_impl :: "ServiceID data_type_impl" where
  "ServiceID_impl = \<lparr>EXTENT_BYTES = None,
     size_bits = (\<lambda>self. 16),
     serialize = (\<lambda>self c. write_u9_to_u16 9 (ServiceID_value self) c),
     deserialize = rd_bind (rd_get (read_u9_to_u15 9)) (\<lambda>v. rd_ok (ServiceID v))\<rparr>"

text \<open>The union of the two, in \<^verbatim>\<open>uavcan.node.port\<close>.\<close>

datatype PortID = PortID_SubjectId SubjectID | PortID_ServiceId ServiceID

definition PortID_impl :: "PortID data_type_impl" where
  "PortID_impl = \<lparr>EXTENT_BYTES = None,
     size_bits = (\<lambda>self. 24),
     serialize = (\<lambda>self c. case self of
         PortID_SubjectId inner \<Rightarrow> do { c \<leftarrow> write_aligned_u8 0 c; write_composite_of SubjectID_impl inner c }
       | PortID_ServiceId inner \<Rightarrow> do { c \<leftarrow> write_aligned_u8 1 c; write_composite_of ServiceID_impl inner c }),
     deserialize = rd_bind (rd_get read_aligned_u8) (\<lambda>tag.
       if tag = 0 then rd_bind (read_composite_of SubjectID_impl) (\<lambda>v. rd_ok (PortID_SubjectId v))
       else if tag = 1 then rd_bind (read_composite_of ServiceID_impl) (\<lambda>v. rd_ok (PortID_ServiceId v))
       else rd_err UnionTag)\<rparr>"

definition ID_bits :: "ID \<Rightarrow> bool list" where
  "ID_bits v = bits_of_bytes (ID_as_bytes v)"

definition SubjectID_bits :: "SubjectID \<Rightarrow> bool list" where
  "SubjectID_bits v = bits_of 13 (SubjectID_value v)"

definition SubjectID_valid :: "SubjectID \<Rightarrow> bool" where
  "SubjectID_valid v \<longleftrightarrow> take_bit 13 (SubjectID_value v) = SubjectID_value v"

definition ServiceID_bits :: "ServiceID \<Rightarrow> bool list" where
  "ServiceID_bits v = bits_of 9 (ServiceID_value v)"

definition ServiceID_valid :: "ServiceID \<Rightarrow> bool" where
  "ServiceID_valid v \<longleftrightarrow> take_bit 9 (ServiceID_value v) = ServiceID_value v"

fun PortID_bits :: "PortID \<Rightarrow> bool list" where
  "PortID_bits (PortID_SubjectId v) = bits_of 8 (0 :: u8) @ composite_bits SubjectID_impl SubjectID_bits v"
| "PortID_bits (PortID_ServiceId v) = bits_of 8 (1 :: u8) @ composite_bits ServiceID_impl ServiceID_bits v"

fun PortID_valid :: "PortID \<Rightarrow> bool" where
  "PortID_valid (PortID_SubjectId v) \<longleftrightarrow> SubjectID_valid v"
| "PortID_valid (PortID_ServiceId v) \<longleftrightarrow> ServiceID_valid v"

lemma u16_from_bytes_le: "u16_from_bytes (le_bytes 2 w) = w"
proof (rule bit_eqI)
  fix k assume "possible_bit TYPE(u16) k"
  then have "k < 16" by simp
  have "le_bytes 2 w ! 0 = ucast w" "le_bytes 2 w ! 1 = ucast (drop_bit 8 w)" by (simp_all add: le_bytes_def)
  then show "bit (u16_from_bytes (le_bytes 2 w)) k = bit w k"
    using \<open>k < 16\<close> by (auto simp: u16_from_bytes_def bit_simps)
qed

interpretation node_id: data_type ID_impl ID_bits "\<lambda>_. True"
  by (rule data_typeI) (auto simp: ID_impl_def ID_bits_def ID_as_bytes_def align_bits_def u16_from_bytes_le
      intro!: writes_intros reads_intros)

interpretation subject_id: data_type SubjectID_impl SubjectID_bits SubjectID_valid
  by (rule data_typeI) (auto simp: SubjectID_impl_def SubjectID_bits_def SubjectID_valid_def align_bits_def
      intro!: writes_intros reads_map reads_intros)

interpretation service_id: data_type ServiceID_impl ServiceID_bits ServiceID_valid
  by (rule data_typeI) (auto simp: ServiceID_impl_def ServiceID_bits_def ServiceID_valid_def align_bits_def
      intro!: writes_intros reads_map reads_intros)

declare node_id.composite_writes [OF TrueI, writes_intros] subject_id.composite_writes [writes_intros] service_id.composite_writes [writes_intros]
declare node_id.composite_reads [OF TrueI, reads_intros] subject_id.composite_reads [reads_intros] service_id.composite_reads [reads_intros]

lemma ID_length [simp]: "length (composite_bits ID_impl ID_bits v) = 16"
  by (simp add: node_id.composite_length) (simp add: ID_impl_def)

lemma SubjectID_length [simp]: "SubjectID_valid v \<Longrightarrow> length (composite_bits SubjectID_impl SubjectID_bits v) = 16"
  by (simp add: subject_id.composite_length) (simp add: SubjectID_impl_def)

lemma ServiceID_length [simp]: "ServiceID_valid v \<Longrightarrow> length (composite_bits ServiceID_impl ServiceID_bits v) = 16"
  by (simp add: service_id.composite_length) (simp add: ServiceID_impl_def)

interpretation port_id: data_type PortID_impl PortID_bits PortID_valid
proof (rule data_typeI)
  fix v assume v: "PortID_valid v"
  then show "size_bits PortID_impl v = length (PortID_bits v) + align_bits (length (PortID_bits v))"
    by (cases v) (simp_all add: PortID_impl_def align_bits_def)
  show "writes 0 (serialize PortID_impl v) (PortID_bits v)"
    using v by (cases v) (auto simp: PortID_impl_def intro!: writes_bind writes_intros)
  show "reads 0 (deserialize PortID_impl) (PortID_bits v) v"
    using v by (cases v) (auto simp: PortID_impl_def
      intro!: reads_variant [where g = PortID_SubjectId, OF _ _ subject_id.composite_reads]
        reads_variant [where g = PortID_ServiceId, OF _ _ service_id.composite_reads])
qed (simp add: PortID_impl_def)

section \<open>Node information\<close>

record Version =
  ver_major :: u8
  ver_minor :: u8

definition Version_as_bytes :: "Version \<Rightarrow> u8 list" where
  "Version_as_bytes self = [ver_major self, ver_minor self]"

definition Version_impl :: "Version data_type_impl" where
  "Version_impl = \<lparr>EXTENT_BYTES = None,
     size_bits = (\<lambda>self. 16),
     serialize = (\<lambda>self c. write_aligned_bytes (Version_as_bytes self) c),
     deserialize = deserialize_zero_copy 2 (\<lambda>bytes. \<lparr>ver_major = bytes ! 0, ver_minor = bytes ! 1\<rparr>)\<rparr>"

datatype GetInfoRequest = GetInfoRequest

definition GetInfoRequest_impl :: "GetInfoRequest data_type_impl" where
  "GetInfoRequest_impl = \<lparr>EXTENT_BYTES = None,
     size_bits = (\<lambda>self. 0),
     serialize = (\<lambda>self c. write_aligned_bytes [] c),
     deserialize = deserialize_zero_copy 0 (\<lambda>bytes. GetInfoRequest)\<rparr>"

record GetInfoResponse =
  gi_protocol_version :: Version
  gi_hardware_version :: Version
  gi_software_version :: Version
  gi_software_vcs_revision_id :: u64
  gi_unique_id :: "u8 list"
  gi_name :: "u8 list"
  gi_software_image_crc :: "u64 list"
  gi_certificate_of_authenticity :: "u8 list"

text \<open>\<^verbatim>\<open>let length = cursor.read_u8() as _\<close>.\<close>

definition read_length8 :: "nat reader" where
  "read_length8 = rd_bind (rd_get (read_u1_to_u8 8)) (\<lambda>n. rd_ok (unat n))"

definition GetInfoResponse_impl :: "GetInfoResponse data_type_impl" where
  "GetInfoResponse_impl = \<lparr>EXTENT_BYTES = Some 448,
     size_bits = (\<lambda>self. 16 + 16 + 16 + 64 + length (gi_unique_id self) * 8 + 8 + length (gi_name self) * 8
       + 8 + length (gi_software_image_crc self) * 64 + 8 + length (gi_certificate_of_authenticity self) * 8 + 0),
     serialize = (\<lambda>self c.
       do {
         c \<leftarrow> write_composite_of Version_impl (gi_protocol_version self) c;
         c \<leftarrow> write_composite_of Version_impl (gi_hardware_version self) c;
         c \<leftarrow> write_composite_of Version_impl (gi_software_version self) c;
         c \<leftarrow> write_aligned_u64 (gi_software_vcs_revision_id self) c;
         c \<leftarrow> write_bytes (gi_unique_id self) c;
         c \<leftarrow> write_aligned_u8 (of_nat (length (gi_name self))) c;
         c \<leftarrow> write_bytes (gi_name self) c;
         c \<leftarrow> write_aligned_u8 (of_nat (length (gi_software_image_crc self))) c;
         c \<leftarrow> write_each (write_u33_to_u64 64) (gi_software_image_crc self) c;
         c \<leftarrow> write_aligned_u8 (of_nat (length (gi_certificate_of_authenticity self))) c;
         write_bytes (gi_certificate_of_authenticity self) c
       }),
     deserialize =
       rd_bind (read_composite_of Version_impl) (\<lambda>protocol_version.
       rd_bind (read_composite_of Version_impl) (\<lambda>hardware_version.
       rd_bind (read_composite_of Version_impl) (\<lambda>software_version.
       rd_bind (rd_get (read_u33_to_u64 64)) (\<lambda>software_vcs_revision_id.
       rd_bind (read_fixed 16 (rd_get (read_u1_to_u8 8))) (\<lambda>unique_id.
       rd_bind (read_vec 50 read_length8 (rd_get (read_u1_to_u8 8))) (\<lambda>name.
       rd_bind (read_vec 1 read_length8 (rd_get (read_u33_to_u64 64))) (\<lambda>software_image_crc.
       rd_bind (read_vec 222 read_length8 (rd_get (read_u1_to_u8 8))) (\<lambda>certificate_of_authenticity.
       rd_ok \<lparr>gi_protocol_version = protocol_version, gi_hardware_version = hardware_version,
         gi_software_version = software_version, gi_software_vcs_revision_id = software_vcs_revision_id,
         gi_unique_id = unique_id, gi_name = name, gi_software_image_crc = software_image_crc,
         gi_certificate_of_authenticity = certificate_of_authenticity\<rparr>))))))))\<rparr>"

definition Version_bits :: "Version \<Rightarrow> bool list" where
  "Version_bits v = bits_of_bytes (Version_as_bytes v)"

definition GetInfoRequest_bits :: "GetInfoRequest \<Rightarrow> bool list" where
  "GetInfoRequest_bits v = bits_of_bytes []"

text \<open>An array of variable length: its length in 8 bits, then its elements.\<close>

definition vec8_bits :: "('a \<Rightarrow> bool list) \<Rightarrow> 'a list \<Rightarrow> bool list" where
  "vec8_bits f vs = bits_of 8 (of_nat (length vs) :: u8) @ concat (map f vs)"

definition GetInfoResponse_bits :: "GetInfoResponse \<Rightarrow> bool list" where
  "GetInfoResponse_bits v =
     composite_bits Version_impl Version_bits (gi_protocol_version v)
     @ composite_bits Version_impl Version_bits (gi_hardware_version v)
     @ composite_bits Version_impl Version_bits (gi_software_version v)
     @ bits_of 64 (gi_software_vcs_revision_id v) @ concat (map (bits_of 8) (gi_unique_id v))
     @ vec8_bits (bits_of 8) (gi_name v) @ vec8_bits (bits_of 64) (gi_software_image_crc v)
     @ vec8_bits (bits_of 8) (gi_certificate_of_authenticity v)"

definition GetInfoResponse_valid :: "GetInfoResponse \<Rightarrow> bool" where
  "GetInfoResponse_valid v \<longleftrightarrow> length (gi_unique_id v) = 16 \<and> length (gi_name v) \<le> 50
     \<and> length (gi_software_image_crc v) \<le> 1 \<and> length (gi_certificate_of_authenticity v) \<le> 222"

lemma bits_of_bytes_concat: "bits_of_bytes bs = concat (map (bits_of 8) bs)"
proof (induction bs)
  case (Cons b bs)
  have "bit_at (b # bs) (8 + k) = bit_at bs k" for k using bit_at_drop [of 1 "b # bs" k] by simp
  moreover have "[8..<8 + 8 * length bs] = map ((+) 8) [0..<8 * length bs]"
    using map_add_upt [of 8 "8 * length bs"] by (simp add: add.commute cong: map_cong)
  moreover have "map (bit_at (b # bs)) [0..<8] = bits_of 8 b" by (auto simp: bits_of_def bit_at_def)
  moreover have "bits_of_bytes (b # bs) = map (bit_at (b # bs)) ([0..<8] @ [8..<8 + 8 * length bs])"
    by (simp add: bits_of_bytes_def upt_add_eq_append [of 0 8, symmetric])
  ultimately have "bits_of_bytes (b # bs) = bits_of 8 b @ bits_of_bytes bs" by (simp add: bits_of_bytes_def)
  then show ?case using Cons.IH by simp
qed (simp add: bits_of_bytes_def)

lemma writes_byte_list [writes_intros]: "writes p (write_bytes bs) (concat (map (bits_of 8) bs))"
  using writes_bytes [of p bs] by (simp add: bits_of_bytes_concat)

lemma reads_length8 [reads_intros]: "n < 256 \<Longrightarrow> reads p read_length8 (bits_of 8 (of_nat n :: u8)) n"
  unfolding read_length8_def
  by (rule reads_map [OF reads_full(1)]) (simp add: unsigned_of_nat take_bit_nat_eq_self)

lemma reads_vec8 [reads_intros]:
  assumes "length vs \<le> capacity" and "length vs < 256" and "\<And>v q. v \<in> set vs \<Longrightarrow> q mod 8 = p mod 8 \<Longrightarrow> reads q R (f v) v"
    and "\<And>v. v \<in> set vs \<Longrightarrow> length (f v) mod 8 = 0"
  shows "reads p (read_vec capacity read_length8 R) (vec8_bits f vs) vs"
  unfolding vec8_bits_def by (rule reads_vec [OF reads_length8 [OF assms(2)] assms(1) _ assms(3, 4)]) simp_all

interpretation version: data_type Version_impl Version_bits "\<lambda>_. True"
  by (rule data_typeI) (auto simp: Version_impl_def Version_bits_def Version_as_bytes_def align_bits_def
      intro!: writes_intros reads_intros)

interpretation get_info_request: data_type GetInfoRequest_impl GetInfoRequest_bits "\<lambda>_. True"
proof (rule data_typeI)
  show "reads 0 (deserialize GetInfoRequest_impl) (GetInfoRequest_bits v) v" for v
    unfolding GetInfoRequest_bits_def by (cases v) (simp add: GetInfoRequest_impl_def reads_zero_copy)
qed (auto simp: GetInfoRequest_impl_def GetInfoRequest_bits_def align_bits_def intro!: writes_intros)

declare version.composite_writes [OF TrueI, writes_intros] version.composite_reads [OF TrueI, reads_intros]

lemma Version_length [simp]: "length (composite_bits Version_impl Version_bits v) = 16"
  by (simp add: version.composite_length) (simp add: Version_impl_def)

lemma vec8_length [simp]: "length (vec8_bits (bits_of n) vs) = 8 + n * length vs"
  by (simp add: vec8_bits_def)

interpretation get_info_response: data_type GetInfoResponse_impl GetInfoResponse_bits GetInfoResponse_valid
proof (rule data_typeI)
  fix v assume v: "GetInfoResponse_valid v"
  show "size_bits GetInfoResponse_impl v = length (GetInfoResponse_bits v) + align_bits (length (GetInfoResponse_bits v))"
    using v by (auto simp: GetInfoResponse_impl_def GetInfoResponse_bits_def GetInfoResponse_valid_def align_bits_def)
  show "writes 0 (serialize GetInfoResponse_impl v) (GetInfoResponse_bits v)"
    using v unfolding GetInfoResponse_impl_def GetInfoResponse_bits_def GetInfoResponse_valid_def vec8_bits_def append_assoc
    by (auto intro!: writes_bind writes_intros mod8_addI)
  show "reads 0 (deserialize GetInfoResponse_impl) (GetInfoResponse_bits v) v"
    using v unfolding GetInfoResponse_impl_def GetInfoResponse_bits_def GetInfoResponse_valid_def
    by (auto intro!: reads_bind reads_map reads_intros mod8_addI)
qed (auto simp: GetInfoResponse_impl_def GetInfoResponse_valid_def)

section \<open>The list of ports\<close>

datatype Empty = Empty

definition Empty_impl :: "Empty data_type_impl" where
  "Empty_impl = \<lparr>EXTENT_BYTES = None,
     size_bits = (\<lambda>self. 0),
     serialize = (\<lambda>self c. write_aligned_bytes [] c),
     deserialize = deserialize_zero_copy 0 (\<lambda>bytes. Empty)\<rparr>"

datatype ServiceIDList = ServiceIDList (ServiceIDList_mask: BitArray)

definition ServiceIDList_impl :: "ServiceIDList data_type_impl" where
  "ServiceIDList_impl = \<lparr>EXTENT_BYTES = Some 128,
     size_bits = (\<lambda>self. 512),
     serialize = (\<lambda>self c. ba_serialize (ServiceIDList_mask self) c),
     deserialize = rd_bind (rd_get (ba_deserialize 64 512)) (\<lambda>mask. rd_ok (ServiceIDList mask))\<rparr>"

datatype SubjectIDList = SubjectIDList_Mask BitArray | SubjectIDList_SparseList "SubjectID list" | SubjectIDList_Total Empty

definition SubjectIDList_impl :: "SubjectIDList data_type_impl" where
  "SubjectIDList_impl = \<lparr>EXTENT_BYTES = Some 4097,
     size_bits = (\<lambda>self. 8 + (case self of
         SubjectIDList_Mask inner \<Rightarrow> ba_len inner * 1
       | SubjectIDList_SparseList inner \<Rightarrow> 8 + length inner * 16
       | SubjectIDList_Total inner \<Rightarrow> 0)),
     serialize = (\<lambda>self c. case self of
         SubjectIDList_Mask inner \<Rightarrow> do { c \<leftarrow> write_aligned_u8 0 c; ba_serialize inner c }
       | SubjectIDList_SparseList inner \<Rightarrow>
           do {
             c \<leftarrow> write_aligned_u8 1 c;
             c \<leftarrow> write_aligned_u8 (of_nat (length inner)) c;
             write_each (write_composite_of SubjectID_impl) inner c
           }
       | SubjectIDList_Total inner \<Rightarrow> do { c \<leftarrow> write_aligned_u8 2 c; write_composite_of Empty_impl inner c }),
     deserialize = rd_bind (rd_get read_aligned_u8) (\<lambda>tag.
       if tag = 0 then rd_bind (rd_get (ba_deserialize 1024 8192)) (\<lambda>v. rd_ok (SubjectIDList_Mask v))
       else if tag = 1 then
         rd_bind (read_vec 255 read_length8 (read_composite_of SubjectID_impl)) (\<lambda>v. rd_ok (SubjectIDList_SparseList v))
       else if tag = 2 then rd_bind (read_composite_of Empty_impl) (\<lambda>v. rd_ok (SubjectIDList_Total v))
       else rd_err UnionTag)\<rparr>"

record PortList =
  pl_publishers :: SubjectIDList
  pl_subscribers :: SubjectIDList
  pl_clients :: ServiceIDList
  pl_servers :: ServiceIDList

definition PortList_impl :: "PortList data_type_impl" where
  "PortList_impl = \<lparr>EXTENT_BYTES = None,
     size_bits = (\<lambda>self. 32 + size_bits SubjectIDList_impl (pl_publishers self)
       + 32 + size_bits SubjectIDList_impl (pl_subscribers self) + 32 + 512 + 32 + 512 + 0),
     serialize = (\<lambda>self c.
       do {
         c \<leftarrow> write_composite_of SubjectIDList_impl (pl_publishers self) c;
         c \<leftarrow> write_composite_of SubjectIDList_impl (pl_subscribers self) c;
         c \<leftarrow> write_composite_of ServiceIDList_impl (pl_clients self) c;
         write_composite_of ServiceIDList_impl (pl_servers self) c
       }),
     deserialize =
       rd_bind (read_composite_of SubjectIDList_impl) (\<lambda>publishers.
       rd_bind (read_composite_of SubjectIDList_impl) (\<lambda>subscribers.
       rd_bind (read_composite_of ServiceIDList_impl) (\<lambda>clients.
       rd_bind (read_composite_of ServiceIDList_impl) (\<lambda>servers.
       rd_ok \<lparr>pl_publishers = publishers, pl_subscribers = subscribers, pl_clients = clients, pl_servers = servers\<rparr>))))\<rparr>"

definition Empty_bits :: "Empty \<Rightarrow> bool list" where
  "Empty_bits v = bits_of_bytes []"

definition ServiceIDList_bits :: "ServiceIDList \<Rightarrow> bool list" where
  "ServiceIDList_bits v = ba_bits (ServiceIDList_mask v)"

definition ServiceIDList_valid :: "ServiceIDList \<Rightarrow> bool" where
  "ServiceIDList_valid v \<longleftrightarrow> ba_bit_length (ServiceIDList_mask v) = 512 \<and> length (ba_bytes (ServiceIDList_mask v)) = 64"

fun SubjectIDList_bits :: "SubjectIDList \<Rightarrow> bool list" where
  "SubjectIDList_bits (SubjectIDList_Mask v) = bits_of 8 (0 :: u8) @ ba_bits v"
| "SubjectIDList_bits (SubjectIDList_SparseList v) =
     bits_of 8 (1 :: u8) @ vec8_bits (composite_bits SubjectID_impl SubjectID_bits) v"
| "SubjectIDList_bits (SubjectIDList_Total v) = bits_of 8 (2 :: u8) @ composite_bits Empty_impl Empty_bits v"

fun SubjectIDList_valid :: "SubjectIDList \<Rightarrow> bool" where
  "SubjectIDList_valid (SubjectIDList_Mask v) \<longleftrightarrow> ba_bit_length v = 8192 \<and> length (ba_bytes v) = 1024"
| "SubjectIDList_valid (SubjectIDList_SparseList v) \<longleftrightarrow> length v \<le> 255 \<and> list_all SubjectID_valid v"
| "SubjectIDList_valid (SubjectIDList_Total v) \<longleftrightarrow> True"

definition PortList_bits :: "PortList \<Rightarrow> bool list" where
  "PortList_bits v = composite_bits SubjectIDList_impl SubjectIDList_bits (pl_publishers v)
     @ composite_bits SubjectIDList_impl SubjectIDList_bits (pl_subscribers v)
     @ composite_bits ServiceIDList_impl ServiceIDList_bits (pl_clients v)
     @ composite_bits ServiceIDList_impl ServiceIDList_bits (pl_servers v)"

definition PortList_valid :: "PortList \<Rightarrow> bool" where
  "PortList_valid v \<longleftrightarrow> SubjectIDList_valid (pl_publishers v) \<and> SubjectIDList_valid (pl_subscribers v)
     \<and> ServiceIDList_valid (pl_clients v) \<and> ServiceIDList_valid (pl_servers v)"

interpretation empty: data_type Empty_impl Empty_bits "\<lambda>_. True"
proof (rule data_typeI)
  show "reads 0 (deserialize Empty_impl) (Empty_bits v) v" for v
    unfolding Empty_bits_def by (cases v) (simp add: Empty_impl_def reads_zero_copy)
qed (auto simp: Empty_impl_def Empty_bits_def align_bits_def intro!: writes_intros)

interpretation service_id_list: data_type ServiceIDList_impl ServiceIDList_bits ServiceIDList_valid
  by (rule data_typeI) (auto simp: ServiceIDList_impl_def ServiceIDList_bits_def ServiceIDList_valid_def align_bits_def ba_inv_def
      intro!: writes_intros reads_map reads_intros)

declare empty.composite_writes [OF TrueI, writes_intros] empty.composite_reads [OF TrueI, reads_intros]
declare service_id_list.composite_writes [writes_intros] service_id_list.composite_reads [reads_intros]

lemma Empty_length [simp]: "length (composite_bits Empty_impl Empty_bits v) = 0"
  by (simp add: empty.composite_length) (simp add: Empty_impl_def)

lemma ServiceIDList_length [simp]:
  "ServiceIDList_valid v \<Longrightarrow> length (composite_bits ServiceIDList_impl ServiceIDList_bits v) = 544"
  by (simp add: service_id_list.composite_length) (simp add: ServiceIDList_impl_def)

lemma SubjectID_list_length:
  "list_all SubjectID_valid vs \<Longrightarrow> length (vec8_bits (composite_bits SubjectID_impl SubjectID_bits) vs) = 8 + 16 * length vs"
  by (simp add: vec8_bits_def length_concat_map list_all_iff)

interpretation subject_id_list: data_type SubjectIDList_impl SubjectIDList_bits SubjectIDList_valid
proof (rule data_typeI)
  fix v assume v: "SubjectIDList_valid v"
  then show "size_bits SubjectIDList_impl v = length (SubjectIDList_bits v) + align_bits (length (SubjectIDList_bits v))"
    by (cases v) (auto simp: SubjectIDList_impl_def SubjectID_list_length align_bits_def ba_len_def)
  show "writes 0 (serialize SubjectIDList_impl v) (SubjectIDList_bits v)"
    using v by (cases v) (auto simp: SubjectIDList_impl_def vec8_bits_def list_all_iff ba_inv_def intro!: writes_bind writes_intros)
  show "reads 0 (deserialize SubjectIDList_impl) (SubjectIDList_bits v) v"
    using v by (cases v) (auto simp: SubjectIDList_impl_def list_all_iff
      intro!: reads_variant [where g = SubjectIDList_Mask, OF _ _ reads_bit_array]
        reads_variant [where g = SubjectIDList_SparseList, OF _ _ reads_vec8]
        reads_variant [where g = SubjectIDList_Total, OF _ _ empty.composite_reads] subject_id.composite_reads)
qed (auto simp: SubjectIDList_impl_def ba_len_def split: SubjectIDList.splits)

declare subject_id_list.composite_writes [writes_intros] subject_id_list.composite_reads [reads_intros]

interpretation port_list: data_type PortList_impl PortList_bits PortList_valid
proof (rule data_typeI)
  fix v assume v: "PortList_valid v"
  note m = subject_id_list.composite_mod [of "pl_publishers v"] subject_id_list.composite_mod [of "pl_subscribers v"]
  have "length (PortList_bits v) mod 8 = 0"
    using v m unfolding PortList_bits_def PortList_valid_def length_append by (intro mod8_addI) simp_all
  moreover have "size_bits PortList_impl v = length (PortList_bits v)"
    using v by (simp add: PortList_impl_def PortList_bits_def PortList_valid_def subject_id_list.composite_length)
      (simp add: SubjectIDList_impl_def)
  ultimately show "size_bits PortList_impl v = length (PortList_bits v) + align_bits (length (PortList_bits v))"
    by (simp add: align_bits_zero)
  show "writes 0 (serialize PortList_impl v) (PortList_bits v)"
    using v m unfolding PortList_impl_def PortList_bits_def PortList_valid_def
    by (auto intro!: writes_bind writes_intros mod8_addI)
  show "reads 0 (deserialize PortList_impl) (PortList_bits v) v"
    using v m unfolding PortList_impl_def PortList_bits_def PortList_valid_def
    by (auto intro!: reads_bind reads_map reads_intros mod8_addI)
qed (simp add: PortList_impl_def)

section \<open>Node ID allocation\<close>

record NodeIDAllocationData =
  na_unique_id_hash :: u64
  na_allocated_node_id :: "ID list"

definition NodeIDAllocationData_impl :: "NodeIDAllocationData data_type_impl" where
  "NodeIDAllocationData_impl = \<lparr>EXTENT_BYTES = None,
     size_bits = (\<lambda>self. 48 + 8 + length (na_allocated_node_id self) * 16 + 0),
     serialize = (\<lambda>self c.
       do {
         c \<leftarrow> write_u33_to_u64 48 (na_unique_id_hash self) c;
         c \<leftarrow> write_aligned_u8 (of_nat (length (na_allocated_node_id self))) c;
         write_each (write_composite_of ID_impl) (na_allocated_node_id self) c
       }),
     deserialize =
       rd_bind (rd_get (read_u33_to_u64 48)) (\<lambda>unique_id_hash.
       rd_bind (read_vec 1 read_length8 (read_composite_of ID_impl)) (\<lambda>allocated_node_id.
       rd_ok \<lparr>na_unique_id_hash = unique_id_hash, na_allocated_node_id = allocated_node_id\<rparr>))\<rparr>"

definition NodeIDAllocationData_bits :: "NodeIDAllocationData \<Rightarrow> bool list" where
  "NodeIDAllocationData_bits v = bits_of 48 (na_unique_id_hash v)
     @ vec8_bits (composite_bits ID_impl ID_bits) (na_allocated_node_id v)"

definition NodeIDAllocationData_valid :: "NodeIDAllocationData \<Rightarrow> bool" where
  "NodeIDAllocationData_valid v \<longleftrightarrow> take_bit 48 (na_unique_id_hash v) = na_unique_id_hash v
     \<and> length (na_allocated_node_id v) \<le> 1"

lemma ID_list_length: "length (vec8_bits (composite_bits ID_impl ID_bits) vs) = 8 + 16 * length vs"
  by (simp add: vec8_bits_def length_concat_map)

interpretation node_id_allocation: data_type NodeIDAllocationData_impl NodeIDAllocationData_bits NodeIDAllocationData_valid
proof (rule data_typeI)
  fix v assume v: "NodeIDAllocationData_valid v"
  show "size_bits NodeIDAllocationData_impl v = length (NodeIDAllocationData_bits v) + align_bits (length (NodeIDAllocationData_bits v))"
    by (auto simp: NodeIDAllocationData_impl_def NodeIDAllocationData_bits_def ID_list_length align_bits_def)
  show "writes 0 (serialize NodeIDAllocationData_impl v) (NodeIDAllocationData_bits v)"
    using v unfolding NodeIDAllocationData_impl_def NodeIDAllocationData_bits_def NodeIDAllocationData_valid_def vec8_bits_def
    by (auto intro!: writes_bind writes_intros)
  show "reads 0 (deserialize NodeIDAllocationData_impl) (NodeIDAllocationData_bits v) v"
    using v unfolding NodeIDAllocationData_impl_def NodeIDAllocationData_bits_def NodeIDAllocationData_valid_def
    by (auto intro!: reads_bind reads_map reads_intros)
qed (simp add: NodeIDAllocationData_impl_def)

section \<open>Properties\<close>

text \<open>
  C25: A heartbeat, a node information response, a port list and a node ID allocation message survive
  the way over the network: for every value whose fields are within the widths and capacities of
  the data type, serializing into a buffer of at least the size that the value reports does not
  panic, and deserializing the buffer gives the same value, through the nested sealed and delimited
  composite types, bit arrays and arrays of variable length.
\<close>

theorem node_messages_roundtrip:
  assumes "Heartbeat_valid hb" and "GetInfoResponse_valid info" and "PortList_valid ports" and "NodeIDAllocationData_valid alloc"
    and "size_bits Heartbeat_impl hb \<le> 8 * length b1" and "size_bits GetInfoResponse_impl info \<le> 8 * length b2"
    and "size_bits PortList_impl ports \<le> 8 * length b3" and "size_bits NodeIDAllocationData_impl alloc \<le> 8 * length b4"
  shows "(\<exists>bytes. serialize_to_bytes Heartbeat_impl hb b1 = Some bytes
        \<and> deserialize_from_bytes Heartbeat_impl bytes = Some (Inr hb))
    \<and> (\<exists>bytes. serialize_to_bytes GetInfoResponse_impl info b2 = Some bytes
        \<and> deserialize_from_bytes GetInfoResponse_impl bytes = Some (Inr info))
    \<and> (\<exists>bytes. serialize_to_bytes PortList_impl ports b3 = Some bytes
        \<and> deserialize_from_bytes PortList_impl bytes = Some (Inr ports))
    \<and> (\<exists>bytes. serialize_to_bytes NodeIDAllocationData_impl alloc b4 = Some bytes
        \<and> deserialize_from_bytes NodeIDAllocationData_impl bytes = Some (Inr alloc))"
  using heartbeat.bytes_roundtrip [OF assms(1, 5)] get_info_response.bytes_roundtrip [OF assms(2, 6)]
    port_list.bytes_roundtrip [OF assms(3, 7)] node_id_allocation.bytes_roundtrip [OF assms(4, 8)] by blast

definition example_heartbeat :: Heartbeat where
  "example_heartbeat = \<lparr>hb_uptime = 0x12345678, hb_health = Health 2, hb_mode = Mode 3, hb_vendor_specific_status_code = 0xff\<rparr>"

definition example_info :: GetInfoResponse where
  "example_info = \<lparr>gi_protocol_version = \<lparr>ver_major = 1, ver_minor = 0\<rparr>, gi_hardware_version = \<lparr>ver_major = 0, ver_minor = 0\<rparr>,
     gi_software_version = \<lparr>ver_major = 0, ver_minor = 1\<rparr>, gi_software_vcs_revision_id = 7,
     gi_unique_id = replicate 16 0xaa, gi_name = [111, 114, 103], gi_software_image_crc = [9],
     gi_certificate_of_authenticity = []\<rparr>"

definition example_ports :: PortList where
  "example_ports = \<lparr>pl_publishers = SubjectIDList_SparseList [SubjectID 7509], pl_subscribers = SubjectIDList_Total Empty,
     pl_clients = ServiceIDList \<lparr>ba_bytes = replicate 64 0, ba_bit_length = 512\<rparr>,
     pl_servers = ServiceIDList \<lparr>ba_bytes = replicate 64 1, ba_bit_length = 512\<rparr>\<rparr>"

definition example_allocation :: NodeIDAllocationData where
  "example_allocation = \<lparr>na_unique_id_hash = 0xabcdef, na_allocated_node_id = [ID 42]\<rparr>"

theorem node_messages_roundtrip_witness:
  "(\<exists>bytes. serialize_to_bytes Heartbeat_impl example_heartbeat (replicate 7 0) = Some bytes
      \<and> deserialize_from_bytes Heartbeat_impl bytes = Some (Inr example_heartbeat))
   \<and> (\<exists>bytes. serialize_to_bytes PortList_impl example_ports (replicate 149 0) = Some bytes
      \<and> deserialize_from_bytes PortList_impl bytes = Some (Inr example_ports))"
proof -
  have "Heartbeat_valid example_heartbeat" "size_bits Heartbeat_impl example_heartbeat = 56" by code_simp+
  moreover have "GetInfoResponse_valid example_info" "size_bits GetInfoResponse_impl example_info \<le> 4000" by code_simp+
  moreover have "PortList_valid example_ports" "size_bits PortList_impl example_ports = 1192"
    by (simp_all add: PortList_valid_def example_ports_def SubjectID_valid_def ServiceIDList_valid_def PortList_impl_def
        SubjectIDList_impl_def)
  moreover have "NodeIDAllocationData_valid example_allocation" "size_bits NodeIDAllocationData_impl example_allocation = 72"
    by code_simp+
  ultimately show ?thesis
    using node_messages_roundtrip [of example_heartbeat example_info example_ports example_allocation
      "replicate 7 0" "replicate 500 0" "replicate 149 0" "replicate 9 0"] by simp
qed

end
