(* ===== verification/Data_Register.thy ===== *)
theory Data_Register
  imports Data_Node
begin

text \<open>
  The generated data types of the register service (\<^verbatim>\<open>canadensis_data_types/src/generated.rs\<close>): the
  primitive arrays, the union of register values, and the requests and responses. A signed integer or a float
  is the word with its bits; the casts of the generated code keep the bits.
\<close>

section \<open>Primitive arrays\<close>

definition read_length16 :: "bool \<Rightarrow> nat reader" where
  "read_length16 dbg = rd_bind (rd_get (read_u16 dbg)) (\<lambda>n. rd_ok (unat n))"

datatype PString = PString (PString_value: "u8 list")

definition PString_impl :: "bool \<Rightarrow> PString data_type_impl" where
  "PString_impl dbg = \<lparr>EXTENT_BYTES = None,
     size_bits = (\<lambda>self. 16 + length (PString_value self) * 8 + 0),
     serialize = (\<lambda>self c.
       do { c \<leftarrow> write_aligned_u16 (of_nat (length (PString_value self))) c; write_bytes (PString_value self) c }),
     deserialize = rd_bind (read_vec 256 (read_length16 dbg) (rd_get (read_u1_to_u8 8))) (\<lambda>v. rd_ok (PString v))\<rparr>"

datatype Unstructured = Unstructured (Unstructured_value: "u8 list")

definition Unstructured_impl :: "bool \<Rightarrow> Unstructured data_type_impl" where
  "Unstructured_impl dbg = \<lparr>EXTENT_BYTES = None,
     size_bits = (\<lambda>self. 16 + length (Unstructured_value self) * 8 + 0),
     serialize = (\<lambda>self c.
       do { c \<leftarrow> write_aligned_u16 (of_nat (length (Unstructured_value self))) c; write_bytes (Unstructured_value self) c }),
     deserialize = rd_bind (read_vec 256 (read_length16 dbg) (rd_get (read_u1_to_u8 8))) (\<lambda>v. rd_ok (Unstructured v))\<rparr>"

datatype Integer8 = Integer8 (Integer8_value: "u8 list")

definition Integer8_impl :: "bool \<Rightarrow> Integer8 data_type_impl" where
  "Integer8_impl dbg = \<lparr>EXTENT_BYTES = None,
     size_bits = (\<lambda>self. 16 + length (Integer8_value self) * 8 + 0),
     serialize = (\<lambda>self c.
       do { c \<leftarrow> write_aligned_u16 (of_nat (length (Integer8_value self))) c; write_each (write_u1_to_u8 8) (Integer8_value self) c }),
     deserialize = rd_bind (read_vec 256 (read_length16 dbg) (rd_get (read_u1_to_u8 8))) (\<lambda>v. rd_ok (Integer8 v))\<rparr>"

datatype Natural8 = Natural8 (Natural8_value: "u8 list")

definition Natural8_impl :: "bool \<Rightarrow> Natural8 data_type_impl" where
  "Natural8_impl dbg = \<lparr>EXTENT_BYTES = None,
     size_bits = (\<lambda>self. 16 + length (Natural8_value self) * 8 + 0),
     serialize = (\<lambda>self c.
       do { c \<leftarrow> write_aligned_u16 (of_nat (length (Natural8_value self))) c; write_bytes (Natural8_value self) c }),
     deserialize = rd_bind (read_vec 256 (read_length16 dbg) (rd_get (read_u1_to_u8 8))) (\<lambda>v. rd_ok (Natural8 v))\<rparr>"

datatype Integer16 = Integer16 (Integer16_value: "u16 list")

definition Integer16_impl :: "bool \<Rightarrow> Integer16 data_type_impl" where
  "Integer16_impl dbg = \<lparr>EXTENT_BYTES = None,
     size_bits = (\<lambda>self. 8 + length (Integer16_value self) * 16 + 0),
     serialize = (\<lambda>self c.
       do { c \<leftarrow> write_aligned_u8 (of_nat (length (Integer16_value self))) c; write_each (write_u9_to_u16 16) (Integer16_value self) c }),
     deserialize = rd_bind (read_vec 128 read_length8 (rd_get (read_u16 dbg))) (\<lambda>v. rd_ok (Integer16 v))\<rparr>"

datatype Integer32 = Integer32 (Integer32_value: "u32 list")

definition Integer32_impl :: "Integer32 data_type_impl" where
  "Integer32_impl = \<lparr>EXTENT_BYTES = None,
     size_bits = (\<lambda>self. 8 + length (Integer32_value self) * 32 + 0),
     serialize = (\<lambda>self c.
       do { c \<leftarrow> write_aligned_u8 (of_nat (length (Integer32_value self))) c; write_each (write_u17_to_u32 32) (Integer32_value self) c }),
     deserialize = rd_bind (read_vec 64 read_length8 (rd_get read_u32)) (\<lambda>v. rd_ok (Integer32 v))\<rparr>"

datatype Integer64 = Integer64 (Integer64_value: "u64 list")

definition Integer64_impl :: "Integer64 data_type_impl" where
  "Integer64_impl = \<lparr>EXTENT_BYTES = None,
     size_bits = (\<lambda>self. 8 + length (Integer64_value self) * 64 + 0),
     serialize = (\<lambda>self c.
       do { c \<leftarrow> write_aligned_u8 (of_nat (length (Integer64_value self))) c; write_each (write_u33_to_u64 64) (Integer64_value self) c }),
     deserialize = rd_bind (read_vec 32 read_length8 (rd_get (read_u33_to_u64 64))) (\<lambda>v. rd_ok (Integer64 v))\<rparr>"

datatype Natural16 = Natural16 (Natural16_value: "u16 list")

definition Natural16_impl :: "bool \<Rightarrow> Natural16 data_type_impl" where
  "Natural16_impl dbg = \<lparr>EXTENT_BYTES = None,
     size_bits = (\<lambda>self. 8 + length (Natural16_value self) * 16 + 0),
     serialize = (\<lambda>self c.
       do { c \<leftarrow> write_aligned_u8 (of_nat (length (Natural16_value self))) c; write_each (write_u9_to_u16 16) (Natural16_value self) c }),
     deserialize = rd_bind (read_vec 128 read_length8 (rd_get (read_u16 dbg))) (\<lambda>v. rd_ok (Natural16 v))\<rparr>"

datatype Natural32 = Natural32 (Natural32_value: "u32 list")

definition Natural32_impl :: "Natural32 data_type_impl" where
  "Natural32_impl = \<lparr>EXTENT_BYTES = None,
     size_bits = (\<lambda>self. 8 + length (Natural32_value self) * 32 + 0),
     serialize = (\<lambda>self c.
       do { c \<leftarrow> write_aligned_u8 (of_nat (length (Natural32_value self))) c; write_each (write_u17_to_u32 32) (Natural32_value self) c }),
     deserialize = rd_bind (read_vec 64 read_length8 (rd_get read_u32)) (\<lambda>v. rd_ok (Natural32 v))\<rparr>"

datatype Natural64 = Natural64 (Natural64_value: "u64 list")

definition Natural64_impl :: "Natural64 data_type_impl" where
  "Natural64_impl = \<lparr>EXTENT_BYTES = None,
     size_bits = (\<lambda>self. 8 + length (Natural64_value self) * 64 + 0),
     serialize = (\<lambda>self c.
       do { c \<leftarrow> write_aligned_u8 (of_nat (length (Natural64_value self))) c; write_each (write_u33_to_u64 64) (Natural64_value self) c }),
     deserialize = rd_bind (read_vec 32 read_length8 (rd_get (read_u33_to_u64 64))) (\<lambda>v. rd_ok (Natural64 v))\<rparr>"

datatype Real16 = Real16 (Real16_value: "u16 list")

definition Real16_impl :: "bool \<Rightarrow> Real16 data_type_impl" where
  "Real16_impl dbg = \<lparr>EXTENT_BYTES = None,
     size_bits = (\<lambda>self. 8 + length (Real16_value self) * 16 + 0),
     serialize = (\<lambda>self c.
       do { c \<leftarrow> write_aligned_u8 (of_nat (length (Real16_value self))) c; write_each write_f16 (Real16_value self) c }),
     deserialize = rd_bind (read_vec 128 read_length8 (rd_get (read_f16 dbg))) (\<lambda>v. rd_ok (Real16 v))\<rparr>"

datatype Real32 = Real32 (Real32_value: "u32 list")

definition Real32_impl :: "Real32 data_type_impl" where
  "Real32_impl = \<lparr>EXTENT_BYTES = None,
     size_bits = (\<lambda>self. 8 + length (Real32_value self) * 32 + 0),
     serialize = (\<lambda>self c.
       do { c \<leftarrow> write_aligned_u8 (of_nat (length (Real32_value self))) c; write_each write_f32 (Real32_value self) c }),
     deserialize = rd_bind (read_vec 64 read_length8 (rd_get read_f32)) (\<lambda>v. rd_ok (Real32 v))\<rparr>"

datatype Real64 = Real64 (Real64_value: "u64 list")

definition Real64_impl :: "Real64 data_type_impl" where
  "Real64_impl = \<lparr>EXTENT_BYTES = None,
     size_bits = (\<lambda>self. 8 + length (Real64_value self) * 64 + 0),
     serialize = (\<lambda>self c.
       do { c \<leftarrow> write_aligned_u8 (of_nat (length (Real64_value self))) c; write_each write_f64 (Real64_value self) c }),
     deserialize = rd_bind (read_vec 32 read_length8 (rd_get read_f64)) (\<lambda>v. rd_ok (Real64 v))\<rparr>"

text \<open>The array of bits writes no length, but reads one.\<close>

datatype Bit = Bit (Bit_value: BitArray)

definition Bit_impl :: "bool \<Rightarrow> Bit data_type_impl" where
  "Bit_impl dbg = \<lparr>EXTENT_BYTES = None,
     size_bits = (\<lambda>self. 16 + ba_len (Bit_value self) * 1 + 0),
     serialize = (\<lambda>self c. ba_serialize (Bit_value self) c),
     deserialize = rd_bind (read_length16 dbg) (\<lambda>n. rd_bind (rd_get (ba_deserialize 256 n)) (\<lambda>v. rd_ok (Bit v)))\<rparr>"

section \<open>The contract for the arrays\<close>

definition vec16_bits :: "('a \<Rightarrow> bool list) \<Rightarrow> 'a list \<Rightarrow> bool list" where
  "vec16_bits f vs = bits_of 16 (of_nat (length vs) :: u16) @ concat (map f vs)"

lemma vec16_length [simp]: "length (vec16_bits (bits_of n) vs) = 16 + n * length vs"
  by (simp add: vec16_bits_def)

lemma reads_length16 [reads_intros]: "n < 65536 \<Longrightarrow> reads p (read_length16 dbg) (bits_of 16 (of_nat n :: u16)) n"
  unfolding read_length16_def
  by (rule reads_map [OF reads_unsigned(3)]) (simp add: unsigned_of_nat take_bit_nat_eq_self)

lemma reads_vec16 [reads_intros]:
  assumes "length vs \<le> capacity" and "length vs < 65536" and "\<And>v q. v \<in> set vs \<Longrightarrow> q mod 8 = p mod 8 \<Longrightarrow> reads q R (f v) v"
    and "\<And>v. v \<in> set vs \<Longrightarrow> length (f v) mod 8 = 0"
  shows "reads p (read_vec capacity (read_length16 dbg) R) (vec16_bits f vs) vs"
  unfolding vec16_bits_def by (rule reads_vec [OF reads_length16 [OF assms(2)] assms(1) _ assms(3, 4)]) simp_all

text \<open>All primitive arrays but that of bits are instances of these two.\<close>

lemma array8_data_type:
  assumes "T = \<lparr>EXTENT_BYTES = None, size_bits = (\<lambda>self. 8 + length (sel self) * w + 0),
      serialize = (\<lambda>self c. do { c \<leftarrow> write_aligned_u8 (of_nat (length (sel self))) c; write_each W (sel self) c }),
      deserialize = rd_bind (read_vec capacity read_length8 R) (\<lambda>v. rd_ok (mk v))\<rparr>"
    and "\<And>self. mk (sel self) = self" and "capacity < 256" and "w mod 8 = 0"
    and "\<And>p v. writes p (W v) (bits_of w v)" and "\<And>p v. reads p R (bits_of w v) v"
  shows "data_type T (\<lambda>self. vec8_bits (bits_of w) (sel self)) (\<lambda>self. length (sel self) \<le> capacity)"
proof (rule data_typeI)
  fix self assume l: "length (sel self) \<le> capacity"
  have "(8 + w * length (sel self)) mod 8 = 0" using assms(4) by (intro mod8_addI) auto
  then show "size_bits T self = length (vec8_bits (bits_of w) (sel self)) + align_bits (length (vec8_bits (bits_of w) (sel self)))"
    by (simp add: assms(1) align_bits_zero mult.commute)
  show "writes 0 (serialize T self) (vec8_bits (bits_of w) (sel self))"
    using assms(4, 5) by (auto simp: assms(1) vec8_bits_def intro!: writes_bind writes_intros)
  show "reads 0 (deserialize T) (vec8_bits (bits_of w) (sel self)) self"
    using assms(2-4, 6) l by (auto simp: assms(1) intro!: reads_map reads_vec8)
qed (simp add: assms(1))

lemma array16_data_type:
  assumes "T = \<lparr>EXTENT_BYTES = None, size_bits = (\<lambda>self. 16 + length (sel self) * 8 + 0),
      serialize = (\<lambda>self c. do { c \<leftarrow> write_aligned_u16 (of_nat (length (sel self))) c; W (sel self) c }),
      deserialize = rd_bind (read_vec 256 (read_length16 dbg) (rd_get (read_u1_to_u8 8))) (\<lambda>v. rd_ok (mk v))\<rparr>"
    and "\<And>self. mk (sel self) = self" and "\<And>p vs. writes p (W vs) (concat (map (bits_of 8) vs))"
  shows "data_type T (\<lambda>self. vec16_bits (bits_of 8) (sel self)) (\<lambda>self. length (sel self) \<le> 256)"
proof (rule data_typeI)
  fix self assume l: "length (sel self) \<le> 256"
  show "size_bits T self = length (vec16_bits (bits_of 8) (sel self)) + align_bits (length (vec16_bits (bits_of 8) (sel self)))"
    by (auto simp: assms(1) align_bits_def)
  show "writes 0 (serialize T self) (vec16_bits (bits_of 8) (sel self))"
    using assms(3) by (auto simp: assms(1) vec16_bits_def intro!: writes_bind writes_intros)
  show "reads 0 (deserialize T) (vec16_bits (bits_of 8) (sel self)) self"
    using assms(2) l by (auto simp: assms(1) intro!: reads_map reads_vec16 reads_full)
qed (simp add: assms(1))

interpretation pstring: data_type "PString_impl dbg" "\<lambda>self. vec16_bits (bits_of 8) (PString_value self)" "\<lambda>self. length (PString_value self) \<le> 256" for dbg
  by (rule array16_data_type [OF PString_impl_def]) (auto intro!: writes_intros)

interpretation unstructured: data_type "Unstructured_impl dbg" "\<lambda>self. vec16_bits (bits_of 8) (Unstructured_value self)" "\<lambda>self. length (Unstructured_value self) \<le> 256" for dbg
  by (rule array16_data_type [OF Unstructured_impl_def]) (auto intro!: writes_intros)

interpretation integer8: data_type "Integer8_impl dbg" "\<lambda>self. vec16_bits (bits_of 8) (Integer8_value self)" "\<lambda>self. length (Integer8_value self) \<le> 256" for dbg
  by (rule array16_data_type [OF Integer8_impl_def]) (auto intro!: writes_intros)

interpretation natural8: data_type "Natural8_impl dbg" "\<lambda>self. vec16_bits (bits_of 8) (Natural8_value self)" "\<lambda>self. length (Natural8_value self) \<le> 256" for dbg
  by (rule array16_data_type [OF Natural8_impl_def]) (auto intro!: writes_intros)

interpretation integer16: data_type "Integer16_impl dbg" "\<lambda>self. vec8_bits (bits_of 16) (Integer16_value self)" "\<lambda>self. length (Integer16_value self) \<le> 128" for dbg
  by (rule array8_data_type [OF Integer16_impl_def]) (auto intro!: writes_intros reads_intros)

interpretation integer32: data_type Integer32_impl "\<lambda>self. vec8_bits (bits_of 32) (Integer32_value self)" "\<lambda>self. length (Integer32_value self) \<le> 64"
  by (rule array8_data_type [OF Integer32_impl_def]) (auto intro!: writes_intros reads_intros)

interpretation integer64: data_type Integer64_impl "\<lambda>self. vec8_bits (bits_of 64) (Integer64_value self)" "\<lambda>self. length (Integer64_value self) \<le> 32"
  by (rule array8_data_type [OF Integer64_impl_def]) (auto intro!: writes_intros reads_intros)

interpretation natural16: data_type "Natural16_impl dbg" "\<lambda>self. vec8_bits (bits_of 16) (Natural16_value self)" "\<lambda>self. length (Natural16_value self) \<le> 128" for dbg
  by (rule array8_data_type [OF Natural16_impl_def]) (auto intro!: writes_intros reads_intros)

interpretation natural32: data_type Natural32_impl "\<lambda>self. vec8_bits (bits_of 32) (Natural32_value self)" "\<lambda>self. length (Natural32_value self) \<le> 64"
  by (rule array8_data_type [OF Natural32_impl_def]) (auto intro!: writes_intros reads_intros)

interpretation natural64: data_type Natural64_impl "\<lambda>self. vec8_bits (bits_of 64) (Natural64_value self)" "\<lambda>self. length (Natural64_value self) \<le> 32"
  by (rule array8_data_type [OF Natural64_impl_def]) (auto intro!: writes_intros reads_intros)

interpretation real16: data_type "Real16_impl dbg" "\<lambda>self. vec8_bits (bits_of 16) (Real16_value self)" "\<lambda>self. length (Real16_value self) \<le> 128" for dbg
  by (rule array8_data_type [OF Real16_impl_def]) (auto intro!: writes_intros reads_intros)

interpretation real32: data_type Real32_impl "\<lambda>self. vec8_bits (bits_of 32) (Real32_value self)" "\<lambda>self. length (Real32_value self) \<le> 64"
  by (rule array8_data_type [OF Real32_impl_def]) (auto intro!: writes_intros reads_intros)

interpretation real64: data_type Real64_impl "\<lambda>self. vec8_bits (bits_of 64) (Real64_value self)" "\<lambda>self. length (Real64_value self) \<le> 32"
  by (rule array8_data_type [OF Real64_impl_def]) (auto intro!: writes_intros reads_intros)

section \<open>Register values\<close>

datatype Value =
  Value_Empty Empty
| Value_String PString
| Value_Unstructured Unstructured
| Value_Bit Bit
| Value_Integer64 Integer64
| Value_Integer32 Integer32
| Value_Integer16 Integer16
| Value_Integer8 Integer8
| Value_Natural64 Natural64
| Value_Natural32 Natural32
| Value_Natural16 Natural16
| Value_Natural8 Natural8
| Value_Real64 Real64
| Value_Real32 Real32
| Value_Real16 Real16

definition Value_impl :: "bool \<Rightarrow> Value data_type_impl" where
  "Value_impl dbg = \<lparr>EXTENT_BYTES = None,
     size_bits = (\<lambda>self. 8 + (case self of
         Value_Empty inner \<Rightarrow> 0
       | Value_String inner \<Rightarrow> size_bits (PString_impl dbg) inner
       | Value_Unstructured inner \<Rightarrow> size_bits (Unstructured_impl dbg) inner
       | Value_Bit inner \<Rightarrow> size_bits (Bit_impl dbg) inner
       | Value_Integer64 inner \<Rightarrow> size_bits Integer64_impl inner
       | Value_Integer32 inner \<Rightarrow> size_bits Integer32_impl inner
       | Value_Integer16 inner \<Rightarrow> size_bits (Integer16_impl dbg) inner
       | Value_Integer8 inner \<Rightarrow> size_bits (Integer8_impl dbg) inner
       | Value_Natural64 inner \<Rightarrow> size_bits Natural64_impl inner
       | Value_Natural32 inner \<Rightarrow> size_bits Natural32_impl inner
       | Value_Natural16 inner \<Rightarrow> size_bits (Natural16_impl dbg) inner
       | Value_Natural8 inner \<Rightarrow> size_bits (Natural8_impl dbg) inner
       | Value_Real64 inner \<Rightarrow> size_bits Real64_impl inner
       | Value_Real32 inner \<Rightarrow> size_bits Real32_impl inner
       | Value_Real16 inner \<Rightarrow> size_bits (Real16_impl dbg) inner)),
     serialize = (\<lambda>self c. case self of
         Value_Empty inner \<Rightarrow> do { c \<leftarrow> write_aligned_u8 0 c; write_composite_of Empty_impl inner c }
       | Value_String inner \<Rightarrow> do { c \<leftarrow> write_aligned_u8 1 c; write_composite_of (PString_impl dbg) inner c }
       | Value_Unstructured inner \<Rightarrow> do { c \<leftarrow> write_aligned_u8 2 c; write_composite_of (Unstructured_impl dbg) inner c }
       | Value_Bit inner \<Rightarrow> do { c \<leftarrow> write_aligned_u8 3 c; write_composite_of (Bit_impl dbg) inner c }
       | Value_Integer64 inner \<Rightarrow> do { c \<leftarrow> write_aligned_u8 4 c; write_composite_of Integer64_impl inner c }
       | Value_Integer32 inner \<Rightarrow> do { c \<leftarrow> write_aligned_u8 5 c; write_composite_of Integer32_impl inner c }
       | Value_Integer16 inner \<Rightarrow> do { c \<leftarrow> write_aligned_u8 6 c; write_composite_of (Integer16_impl dbg) inner c }
       | Value_Integer8 inner \<Rightarrow> do { c \<leftarrow> write_aligned_u8 7 c; write_composite_of (Integer8_impl dbg) inner c }
       | Value_Natural64 inner \<Rightarrow> do { c \<leftarrow> write_aligned_u8 8 c; write_composite_of Natural64_impl inner c }
       | Value_Natural32 inner \<Rightarrow> do { c \<leftarrow> write_aligned_u8 9 c; write_composite_of Natural32_impl inner c }
       | Value_Natural16 inner \<Rightarrow> do { c \<leftarrow> write_aligned_u8 10 c; write_composite_of (Natural16_impl dbg) inner c }
       | Value_Natural8 inner \<Rightarrow> do { c \<leftarrow> write_aligned_u8 11 c; write_composite_of (Natural8_impl dbg) inner c }
       | Value_Real64 inner \<Rightarrow> do { c \<leftarrow> write_aligned_u8 12 c; write_composite_of Real64_impl inner c }
       | Value_Real32 inner \<Rightarrow> do { c \<leftarrow> write_aligned_u8 13 c; write_composite_of Real32_impl inner c }
       | Value_Real16 inner \<Rightarrow> do { c \<leftarrow> write_aligned_u8 14 c; write_composite_of (Real16_impl dbg) inner c }),
     deserialize = rd_bind (rd_get read_aligned_u8) (\<lambda>tag.
       if tag = 0 then rd_bind (read_composite_of Empty_impl) (\<lambda>v. rd_ok (Value_Empty v))
       else if tag = 1 then rd_bind (read_composite_of (PString_impl dbg)) (\<lambda>v. rd_ok (Value_String v))
       else if tag = 2 then rd_bind (read_composite_of (Unstructured_impl dbg)) (\<lambda>v. rd_ok (Value_Unstructured v))
       else if tag = 3 then rd_bind (read_composite_of (Bit_impl dbg)) (\<lambda>v. rd_ok (Value_Bit v))
       else if tag = 4 then rd_bind (read_composite_of Integer64_impl) (\<lambda>v. rd_ok (Value_Integer64 v))
       else if tag = 5 then rd_bind (read_composite_of Integer32_impl) (\<lambda>v. rd_ok (Value_Integer32 v))
       else if tag = 6 then rd_bind (read_composite_of (Integer16_impl dbg)) (\<lambda>v. rd_ok (Value_Integer16 v))
       else if tag = 7 then rd_bind (read_composite_of (Integer8_impl dbg)) (\<lambda>v. rd_ok (Value_Integer8 v))
       else if tag = 8 then rd_bind (read_composite_of Natural64_impl) (\<lambda>v. rd_ok (Value_Natural64 v))
       else if tag = 9 then rd_bind (read_composite_of Natural32_impl) (\<lambda>v. rd_ok (Value_Natural32 v))
       else if tag = 10 then rd_bind (read_composite_of (Natural16_impl dbg)) (\<lambda>v. rd_ok (Value_Natural16 v))
       else if tag = 11 then rd_bind (read_composite_of (Natural8_impl dbg)) (\<lambda>v. rd_ok (Value_Natural8 v))
       else if tag = 12 then rd_bind (read_composite_of Real64_impl) (\<lambda>v. rd_ok (Value_Real64 v))
       else if tag = 13 then rd_bind (read_composite_of Real32_impl) (\<lambda>v. rd_ok (Value_Real32 v))
       else if tag = 14 then rd_bind (read_composite_of (Real16_impl dbg)) (\<lambda>v. rd_ok (Value_Real16 v))
       else rd_err UnionTag)\<rparr>"

text \<open>
  The bits of a value depend on no build option, as do those of its arrays. The variant of bit arrays has no
  representation that is read back (see the properties below), so it is not among the valid values.
\<close>

fun Value_bits :: "Value \<Rightarrow> bool list" where
  "Value_bits (Value_Empty v) = bits_of 8 (0 :: u8) @ composite_bits Empty_impl Empty_bits v"
| "Value_bits (Value_String v) = bits_of 8 (1 :: u8) @ composite_bits (PString_impl False) (\<lambda>self. vec16_bits (bits_of 8) (PString_value self)) v"
| "Value_bits (Value_Unstructured v) = bits_of 8 (2 :: u8) @ composite_bits (Unstructured_impl False) (\<lambda>self. vec16_bits (bits_of 8) (Unstructured_value self)) v"
| "Value_bits (Value_Bit v) = bits_of 8 (3 :: u8) @ []"
| "Value_bits (Value_Integer64 v) = bits_of 8 (4 :: u8) @ composite_bits Integer64_impl (\<lambda>self. vec8_bits (bits_of 64) (Integer64_value self)) v"
| "Value_bits (Value_Integer32 v) = bits_of 8 (5 :: u8) @ composite_bits Integer32_impl (\<lambda>self. vec8_bits (bits_of 32) (Integer32_value self)) v"
| "Value_bits (Value_Integer16 v) = bits_of 8 (6 :: u8) @ composite_bits (Integer16_impl False) (\<lambda>self. vec8_bits (bits_of 16) (Integer16_value self)) v"
| "Value_bits (Value_Integer8 v) = bits_of 8 (7 :: u8) @ composite_bits (Integer8_impl False) (\<lambda>self. vec16_bits (bits_of 8) (Integer8_value self)) v"
| "Value_bits (Value_Natural64 v) = bits_of 8 (8 :: u8) @ composite_bits Natural64_impl (\<lambda>self. vec8_bits (bits_of 64) (Natural64_value self)) v"
| "Value_bits (Value_Natural32 v) = bits_of 8 (9 :: u8) @ composite_bits Natural32_impl (\<lambda>self. vec8_bits (bits_of 32) (Natural32_value self)) v"
| "Value_bits (Value_Natural16 v) = bits_of 8 (10 :: u8) @ composite_bits (Natural16_impl False) (\<lambda>self. vec8_bits (bits_of 16) (Natural16_value self)) v"
| "Value_bits (Value_Natural8 v) = bits_of 8 (11 :: u8) @ composite_bits (Natural8_impl False) (\<lambda>self. vec16_bits (bits_of 8) (Natural8_value self)) v"
| "Value_bits (Value_Real64 v) = bits_of 8 (12 :: u8) @ composite_bits Real64_impl (\<lambda>self. vec8_bits (bits_of 64) (Real64_value self)) v"
| "Value_bits (Value_Real32 v) = bits_of 8 (13 :: u8) @ composite_bits Real32_impl (\<lambda>self. vec8_bits (bits_of 32) (Real32_value self)) v"
| "Value_bits (Value_Real16 v) = bits_of 8 (14 :: u8) @ composite_bits (Real16_impl False) (\<lambda>self. vec8_bits (bits_of 16) (Real16_value self)) v"

fun Value_valid :: "Value \<Rightarrow> bool" where
  "Value_valid (Value_Empty v) \<longleftrightarrow> True"
| "Value_valid (Value_String v) \<longleftrightarrow> length (PString_value v) \<le> 256"
| "Value_valid (Value_Unstructured v) \<longleftrightarrow> length (Unstructured_value v) \<le> 256"
| "Value_valid (Value_Bit v) \<longleftrightarrow> False"
| "Value_valid (Value_Integer64 v) \<longleftrightarrow> length (Integer64_value v) \<le> 32"
| "Value_valid (Value_Integer32 v) \<longleftrightarrow> length (Integer32_value v) \<le> 64"
| "Value_valid (Value_Integer16 v) \<longleftrightarrow> length (Integer16_value v) \<le> 128"
| "Value_valid (Value_Integer8 v) \<longleftrightarrow> length (Integer8_value v) \<le> 256"
| "Value_valid (Value_Natural64 v) \<longleftrightarrow> length (Natural64_value v) \<le> 32"
| "Value_valid (Value_Natural32 v) \<longleftrightarrow> length (Natural32_value v) \<le> 64"
| "Value_valid (Value_Natural16 v) \<longleftrightarrow> length (Natural16_value v) \<le> 128"
| "Value_valid (Value_Natural8 v) \<longleftrightarrow> length (Natural8_value v) \<le> 256"
| "Value_valid (Value_Real64 v) \<longleftrightarrow> length (Real64_value v) \<le> 32"
| "Value_valid (Value_Real32 v) \<longleftrightarrow> length (Real32_value v) \<le> 64"
| "Value_valid (Value_Real16 v) \<longleftrightarrow> length (Real16_value v) \<le> 128"

lemma composite_bits_dbg:
  "composite_bits (PString_impl False) (\<lambda>self. vec16_bits (bits_of 8) (PString_value self)) = composite_bits (PString_impl dbg) (\<lambda>self. vec16_bits (bits_of 8) (PString_value self))"
  "composite_bits (Unstructured_impl False) (\<lambda>self. vec16_bits (bits_of 8) (Unstructured_value self)) = composite_bits (Unstructured_impl dbg) (\<lambda>self. vec16_bits (bits_of 8) (Unstructured_value self))"
  "composite_bits (Integer16_impl False) (\<lambda>self. vec8_bits (bits_of 16) (Integer16_value self)) = composite_bits (Integer16_impl dbg) (\<lambda>self. vec8_bits (bits_of 16) (Integer16_value self))"
  "composite_bits (Integer8_impl False) (\<lambda>self. vec16_bits (bits_of 8) (Integer8_value self)) = composite_bits (Integer8_impl dbg) (\<lambda>self. vec16_bits (bits_of 8) (Integer8_value self))"
  "composite_bits (Natural16_impl False) (\<lambda>self. vec8_bits (bits_of 16) (Natural16_value self)) = composite_bits (Natural16_impl dbg) (\<lambda>self. vec8_bits (bits_of 16) (Natural16_value self))"
  "composite_bits (Natural8_impl False) (\<lambda>self. vec16_bits (bits_of 8) (Natural8_value self)) = composite_bits (Natural8_impl dbg) (\<lambda>self. vec16_bits (bits_of 8) (Natural8_value self))"
  "composite_bits (Real16_impl False) (\<lambda>self. vec8_bits (bits_of 16) (Real16_value self)) = composite_bits (Real16_impl dbg) (\<lambda>self. vec8_bits (bits_of 16) (Real16_value self))"
  by (simp_all add: composite_bits_def fun_eq_iff PString_impl_def Unstructured_impl_def Integer16_impl_def Integer8_impl_def Natural16_impl_def Natural8_impl_def Real16_impl_def)

interpretation register_value: data_type "Value_impl dbg" Value_bits Value_valid for dbg
proof (rule data_typeI)
  fix v assume v: "Value_valid v"
  have "length (Value_bits v) mod 8 = 0"
    using v by (cases v) (auto intro!: mod8_addI simp: empty.composite_mod pstring.composite_mod unstructured.composite_mod integer64.composite_mod integer32.composite_mod integer16.composite_mod integer8.composite_mod natural64.composite_mod natural32.composite_mod natural16.composite_mod natural8.composite_mod real64.composite_mod real32.composite_mod real16.composite_mod)
  moreover have "size_bits (Value_impl dbg) v = length (Value_bits v)"
    using v by (cases v; simp add: Value_impl_def empty.composite_length pstring.composite_length unstructured.composite_length integer64.composite_length integer32.composite_length integer16.composite_length integer8.composite_length natural64.composite_length natural32.composite_length natural16.composite_length natural8.composite_length real64.composite_length real32.composite_length real16.composite_length;
      simp add: Empty_impl_def PString_impl_def Unstructured_impl_def Integer64_impl_def Integer32_impl_def Integer16_impl_def Integer8_impl_def Natural64_impl_def Natural32_impl_def Natural16_impl_def Natural8_impl_def Real64_impl_def Real32_impl_def Real16_impl_def)
  ultimately show "size_bits (Value_impl dbg) v = length (Value_bits v) + align_bits (length (Value_bits v))"
    by (simp add: align_bits_zero)
  show "writes 0 (serialize (Value_impl dbg) v) (Value_bits v)"
    using v by (cases v) (auto simp: Value_impl_def composite_bits_dbg [of dbg] intro!: writes_bind writes_intros
      pstring.composite_writes unstructured.composite_writes integer64.composite_writes integer32.composite_writes integer16.composite_writes integer8.composite_writes natural64.composite_writes natural32.composite_writes natural16.composite_writes natural8.composite_writes real64.composite_writes real32.composite_writes real16.composite_writes)
  show "reads 0 (deserialize (Value_impl dbg)) (Value_bits v) v"
    using v by (cases v) (auto simp: Value_impl_def composite_bits_dbg [of dbg]
      intro!: reads_variant [where g = Value_Empty, OF _ _ empty.composite_reads]
        reads_variant [where g = Value_String, OF _ _ pstring.composite_reads]
        reads_variant [where g = Value_Unstructured, OF _ _ unstructured.composite_reads]
        reads_variant [where g = Value_Integer64, OF _ _ integer64.composite_reads]
        reads_variant [where g = Value_Integer32, OF _ _ integer32.composite_reads]
        reads_variant [where g = Value_Integer16, OF _ _ integer16.composite_reads]
        reads_variant [where g = Value_Integer8, OF _ _ integer8.composite_reads]
        reads_variant [where g = Value_Natural64, OF _ _ natural64.composite_reads]
        reads_variant [where g = Value_Natural32, OF _ _ natural32.composite_reads]
        reads_variant [where g = Value_Natural16, OF _ _ natural16.composite_reads]
        reads_variant [where g = Value_Natural8, OF _ _ natural8.composite_reads]
        reads_variant [where g = Value_Real64, OF _ _ real64.composite_reads]
        reads_variant [where g = Value_Real32, OF _ _ real32.composite_reads]
        reads_variant [where g = Value_Real16, OF _ _ real16.composite_reads])
qed (simp add: Value_impl_def)

declare register_value.composite_writes [writes_intros] register_value.composite_reads [reads_intros]

section \<open>Requests and responses\<close>

datatype SynchronizedTimestamp = SynchronizedTimestamp (SynchronizedTimestamp_microsecond: u64)

definition SynchronizedTimestamp_impl :: "SynchronizedTimestamp data_type_impl" where
  "SynchronizedTimestamp_impl = \<lparr>EXTENT_BYTES = None,
     size_bits = (\<lambda>self. 56),
     serialize = (\<lambda>self c. write_u33_to_u64 56 (SynchronizedTimestamp_microsecond self) c),
     deserialize = rd_bind (rd_get (read_u33_to_u64 56)) (\<lambda>v. rd_ok (SynchronizedTimestamp v))\<rparr>"

datatype Name = Name (Name_name: "u8 list")

definition Name_impl :: "Name data_type_impl" where
  "Name_impl = \<lparr>EXTENT_BYTES = None,
     size_bits = (\<lambda>self. 8 + length (Name_name self) * 8 + 0),
     serialize = (\<lambda>self c.
       do { c \<leftarrow> write_aligned_u8 (of_nat (length (Name_name self))) c; write_bytes (Name_name self) c }),
     deserialize = rd_bind (read_vec 255 read_length8 (rd_get (read_u1_to_u8 8))) (\<lambda>v. rd_ok (Name v))\<rparr>"

record AccessRequest =
  arq_name :: Name
  arq_value :: Value

definition AccessRequest_impl :: "bool \<Rightarrow> AccessRequest data_type_impl" where
  "AccessRequest_impl dbg = \<lparr>EXTENT_BYTES = None,
     size_bits = (\<lambda>self. size_bits Name_impl (arq_name self) + size_bits (Value_impl dbg) (arq_value self) + 0),
     serialize = (\<lambda>self c.
       do { c \<leftarrow> write_composite_of Name_impl (arq_name self) c; write_composite_of (Value_impl dbg) (arq_value self) c }),
     deserialize =
       rd_bind (read_composite_of Name_impl) (\<lambda>name.
       rd_bind (read_composite_of (Value_impl dbg)) (\<lambda>v.
       rd_ok \<lparr>arq_name = name, arq_value = v\<rparr>))\<rparr>"

record AccessResponse =
  ars_timestamp :: SynchronizedTimestamp
  ars_mutable :: bool
  ars_persistent :: bool
  ars_value :: Value

definition AccessResponse_impl :: "bool \<Rightarrow> AccessResponse data_type_impl" where
  "AccessResponse_impl dbg = \<lparr>EXTENT_BYTES = None,
     size_bits = (\<lambda>self. 56 + 1 + 1 + 6 + size_bits (Value_impl dbg) (ars_value self) + 0),
     serialize = (\<lambda>self c.
       do {
         c \<leftarrow> write_composite_of SynchronizedTimestamp_impl (ars_timestamp self) c;
         c \<leftarrow> write_bool (ars_mutable self) c;
         c \<leftarrow> write_bool (ars_persistent self) c;
         c \<leftarrow> wc_skip 6 c;
         write_composite_of (Value_impl dbg) (ars_value self) c
       }),
     deserialize =
       rd_bind (read_composite_of SynchronizedTimestamp_impl) (\<lambda>timestamp.
       rd_bind (rd_get read_bool) (\<lambda>mutable.
       rd_bind (rd_get read_bool) (\<lambda>persistent.
       rd_bind (rd_skip 6) (\<lambda>_.
       rd_bind (read_composite_of (Value_impl dbg)) (\<lambda>v.
       rd_ok \<lparr>ars_timestamp = timestamp, ars_mutable = mutable, ars_persistent = persistent, ars_value = v\<rparr>)))))\<rparr>"

datatype ListRequest = ListRequest (ListRequest_index: u16)

definition ListRequest_as_bytes :: "ListRequest \<Rightarrow> u8 list" where
  "ListRequest_as_bytes self = le_bytes 2 (ListRequest_index self)"

definition ListRequest_impl :: "ListRequest data_type_impl" where
  "ListRequest_impl = \<lparr>EXTENT_BYTES = None,
     size_bits = (\<lambda>self. 16),
     serialize = (\<lambda>self c. write_aligned_bytes (ListRequest_as_bytes self) c),
     deserialize = deserialize_zero_copy 2 (\<lambda>bytes. ListRequest (u16_from_bytes bytes))\<rparr>"

datatype ListResponse = ListResponse (ListResponse_name: Name)

definition ListResponse_impl :: "ListResponse data_type_impl" where
  "ListResponse_impl = \<lparr>EXTENT_BYTES = None,
     size_bits = (\<lambda>self. size_bits Name_impl (ListResponse_name self) + 0),
     serialize = (\<lambda>self c. write_composite_of Name_impl (ListResponse_name self) c),
     deserialize = rd_bind (read_composite_of Name_impl) (\<lambda>v. rd_ok (ListResponse v))\<rparr>"

definition SynchronizedTimestamp_bits :: "SynchronizedTimestamp \<Rightarrow> bool list" where
  "SynchronizedTimestamp_bits v = bits_of 56 (SynchronizedTimestamp_microsecond v)"

definition SynchronizedTimestamp_valid :: "SynchronizedTimestamp \<Rightarrow> bool" where
  "SynchronizedTimestamp_valid v \<longleftrightarrow> take_bit 56 (SynchronizedTimestamp_microsecond v) = SynchronizedTimestamp_microsecond v"

definition Name_bits :: "Name \<Rightarrow> bool list" where
  "Name_bits v = vec8_bits (bits_of 8) (Name_name v)"

definition Name_valid :: "Name \<Rightarrow> bool" where
  "Name_valid v \<longleftrightarrow> length (Name_name v) \<le> 255"

definition AccessRequest_bits :: "AccessRequest \<Rightarrow> bool list" where
  "AccessRequest_bits v = composite_bits Name_impl Name_bits (arq_name v)
     @ composite_bits (Value_impl False) Value_bits (arq_value v)"

definition AccessRequest_valid :: "AccessRequest \<Rightarrow> bool" where
  "AccessRequest_valid v \<longleftrightarrow> Name_valid (arq_name v) \<and> Value_valid (arq_value v)"

definition AccessResponse_bits :: "AccessResponse \<Rightarrow> bool list" where
  "AccessResponse_bits v = composite_bits SynchronizedTimestamp_impl SynchronizedTimestamp_bits (ars_timestamp v)
     @ [ars_mutable v] @ [ars_persistent v] @ replicate 6 False
     @ composite_bits (Value_impl False) Value_bits (ars_value v)"

definition AccessResponse_valid :: "AccessResponse \<Rightarrow> bool" where
  "AccessResponse_valid v \<longleftrightarrow> SynchronizedTimestamp_valid (ars_timestamp v) \<and> Value_valid (ars_value v)"

definition ListRequest_bits :: "ListRequest \<Rightarrow> bool list" where
  "ListRequest_bits v = bits_of_bytes (ListRequest_as_bytes v)"

definition ListResponse_bits :: "ListResponse \<Rightarrow> bool list" where
  "ListResponse_bits v = composite_bits Name_impl Name_bits (ListResponse_name v)"

definition ListResponse_valid :: "ListResponse \<Rightarrow> bool" where
  "ListResponse_valid v \<longleftrightarrow> Name_valid (ListResponse_name v)"

interpretation synchronized_timestamp: data_type SynchronizedTimestamp_impl SynchronizedTimestamp_bits SynchronizedTimestamp_valid
  by (rule data_typeI) (auto simp: SynchronizedTimestamp_impl_def SynchronizedTimestamp_bits_def SynchronizedTimestamp_valid_def
      align_bits_def intro!: writes_intros reads_map reads_intros)

interpretation register_name: data_type Name_impl Name_bits Name_valid
  by (rule data_typeI; unfold Name_impl_def Name_bits_def Name_valid_def)
    (auto simp: align_bits_def vec8_bits_def intro!: writes_bind writes_intros reads_map reads_vec8 [unfolded vec8_bits_def] reads_full)

interpretation list_request: data_type ListRequest_impl ListRequest_bits "\<lambda>_. True"
  by (rule data_typeI) (auto simp: ListRequest_impl_def ListRequest_bits_def ListRequest_as_bytes_def align_bits_def
      u16_from_bytes_le intro!: writes_intros reads_intros)

declare synchronized_timestamp.composite_writes [writes_intros] synchronized_timestamp.composite_reads [reads_intros]
declare register_name.composite_writes [writes_intros] register_name.composite_reads [reads_intros]

lemma SynchronizedTimestamp_length [simp]:
  "SynchronizedTimestamp_valid v \<Longrightarrow> length (composite_bits SynchronizedTimestamp_impl SynchronizedTimestamp_bits v) = 56"
  by (simp add: synchronized_timestamp.composite_length) (simp add: SynchronizedTimestamp_impl_def)

lemma Name_length: "Name_valid v \<Longrightarrow> length (composite_bits Name_impl Name_bits v) = size_bits Name_impl v"
  by (simp add: register_name.composite_length) (simp add: Name_impl_def)

lemma Value_length:
  "Value_valid v \<Longrightarrow> length (composite_bits (Value_impl False) Value_bits v) = size_bits (Value_impl dbg) v"
  by (simp add: register_value.composite_length register_value.size_law) (simp add: Value_impl_def)

lemma Value_composite_dbg: "composite_bits (Value_impl False) Value_bits = composite_bits (Value_impl dbg) Value_bits"
  by (simp add: composite_bits_def fun_eq_iff Value_impl_def)

interpretation list_response: data_type ListResponse_impl ListResponse_bits ListResponse_valid
  by (rule data_typeI; unfold ListResponse_impl_def ListResponse_bits_def ListResponse_valid_def)
    (auto simp: Name_length register_name.size_mod align_bits_zero intro!: writes_intros reads_map reads_intros)

interpretation access_request: data_type "AccessRequest_impl dbg" AccessRequest_bits AccessRequest_valid for dbg
proof (rule data_typeI)
  fix v assume v: "AccessRequest_valid v"
  note m = register_name.composite_mod [of "arq_name v"] register_value.composite_mod [of "arq_value v" dbg]
  have "length (AccessRequest_bits v) mod 8 = 0"
    using v m unfolding AccessRequest_bits_def AccessRequest_valid_def length_append Value_composite_dbg [of dbg]
    by (intro mod8_addI) simp_all
  moreover have "size_bits (AccessRequest_impl dbg) v = length (AccessRequest_bits v)"
    using v by (simp add: AccessRequest_impl_def AccessRequest_bits_def AccessRequest_valid_def Name_length Value_length [of _ dbg])
  ultimately show "size_bits (AccessRequest_impl dbg) v = length (AccessRequest_bits v) + align_bits (length (AccessRequest_bits v))"
    by (simp add: align_bits_zero)
  show "writes 0 (serialize (AccessRequest_impl dbg) v) (AccessRequest_bits v)"
    using v m unfolding AccessRequest_impl_def AccessRequest_bits_def AccessRequest_valid_def Value_composite_dbg [of dbg]
    by (auto intro!: writes_bind writes_intros)
  show "reads 0 (deserialize (AccessRequest_impl dbg)) (AccessRequest_bits v) v"
    using v m unfolding AccessRequest_impl_def AccessRequest_bits_def AccessRequest_valid_def Value_composite_dbg [of dbg]
    by (auto intro!: reads_bind reads_map reads_intros)
qed (simp add: AccessRequest_impl_def)

interpretation access_response: data_type "AccessResponse_impl dbg" AccessResponse_bits AccessResponse_valid for dbg
proof (rule data_typeI)
  fix v assume v: "AccessResponse_valid v"
  note m = register_value.composite_mod [of "ars_value v" dbg]
  have "length (AccessResponse_bits v) mod 8 = 0"
    using v m by (simp add: AccessResponse_bits_def AccessResponse_valid_def Value_composite_dbg [of dbg] mod8_addI)
  moreover have "size_bits (AccessResponse_impl dbg) v = length (AccessResponse_bits v)"
    using v by (simp add: AccessResponse_impl_def AccessResponse_bits_def AccessResponse_valid_def Value_length [of _ dbg])
  ultimately show "size_bits (AccessResponse_impl dbg) v = length (AccessResponse_bits v) + align_bits (length (AccessResponse_bits v))"
    by (simp add: align_bits_zero)
  show "writes 0 (serialize (AccessResponse_impl dbg) v) (AccessResponse_bits v)"
    using v m unfolding AccessResponse_impl_def AccessResponse_bits_def AccessResponse_valid_def Value_composite_dbg [of dbg]
    by (auto simp del: append_Cons intro!: writes_bind writes_intros)
  show "reads 0 (deserialize (AccessResponse_impl dbg)) (AccessResponse_bits v) v"
    using v m unfolding AccessResponse_impl_def AccessResponse_bits_def AccessResponse_valid_def Value_composite_dbg [of dbg]
    by (auto simp del: append_Cons intro!: reads_bind reads_map reads_intros)
qed (simp add: AccessResponse_impl_def)

section \<open>Properties\<close>

text \<open>
  C26: Requests and responses of the register service survive the way over the network: for every register
  name and every value of a variant other than the bit array, within the capacities of the data types, a
  request and a response written into a buffer of the size they report are read back
  unchanged, in debug and in release builds.
\<close>

theorem register_messages_roundtrip:
  assumes "AccessRequest_valid request" and "AccessResponse_valid response"
    and "size_bits (AccessRequest_impl dbg) request \<le> 8 * length b1"
    and "size_bits (AccessResponse_impl dbg) response \<le> 8 * length b2"
  shows "(\<exists>bytes. serialize_to_bytes (AccessRequest_impl dbg) request b1 = Some bytes
        \<and> deserialize_from_bytes (AccessRequest_impl dbg) bytes = Some (Inr request))
    \<and> (\<exists>bytes. serialize_to_bytes (AccessResponse_impl dbg) response b2 = Some bytes
        \<and> deserialize_from_bytes (AccessResponse_impl dbg) bytes = Some (Inr response))"
  using access_request.bytes_roundtrip [OF assms(1, 3)] access_response.bytes_roundtrip [OF assms(2, 4)] by blast

definition example_request :: AccessRequest where
  "example_request = \<lparr>arq_name = Name [97, 98], arq_value = Value_Natural16 (Natural16 [1, 2, 3])\<rparr>"

definition example_response :: AccessResponse where
  "example_response = \<lparr>ars_timestamp = SynchronizedTimestamp 99, ars_mutable = True, ars_persistent = False,
     ars_value = Value_Real32 (Real32 [0x3f800000])\<rparr>"

theorem register_messages_roundtrip_witness:
  "(\<exists>bytes. serialize_to_bytes (AccessRequest_impl True) example_request (replicate 11 0) = Some bytes
      \<and> deserialize_from_bytes (AccessRequest_impl True) bytes = Some (Inr example_request))
   \<and> (\<exists>bytes. serialize_to_bytes (AccessResponse_impl True) example_response (replicate 14 0) = Some bytes
      \<and> deserialize_from_bytes (AccessResponse_impl True) bytes = Some (Inr example_response))"
proof -
  have "AccessRequest_valid example_request" "size_bits (AccessRequest_impl True) example_request = 88"
    "AccessResponse_valid example_response" "size_bits (AccessResponse_impl True) example_response = 112" by code_simp+
  then show ?thesis
    using register_messages_roundtrip [of example_request example_response True "replicate 11 0" "replicate 14 0"] by simp
qed

text \<open>An aligned cursor reads whole bytes.\<close>

lemma read_u8_Cons:
  "read_u1_to_u8 8 \<lparr>rc_bytes = b # bs, rc_bit_index = 0\<rparr> = Some (b, \<lparr>rc_bytes = bs, rc_bit_index = 0\<rparr>)"
proof -
  have "rd_get (read_u1_to_u8 8) \<lparr>rc_bytes = b # bs, rc_bit_index = 0\<rparr>
      = Some (Inr b, rc_advance_bits (length (bits_of 8 b)) \<lparr>rc_bytes = b # bs, rc_bit_index = 0\<rparr>)"
    by (rule readsD [OF reads_full(1), where p = 0]) (simp_all add: bits_of_def rbit_def bit_at_def)
  then show ?thesis
    by (cases "read_u1_to_u8 8 \<lparr>rc_bytes = b # bs, rc_bit_index = 0\<rparr>") (auto simp: rd_get_def rc_advance_bits_eq)
qed

lemma read_u16_Cons:
  "read_u16 dbg \<lparr>rc_bytes = le_bytes 2 w @ bs, rc_bit_index = 0\<rparr> = Some (w, \<lparr>rc_bytes = bs, rc_bit_index = 0\<rparr>)"
proof -
  let ?c = "\<lparr>rc_bytes = le_bytes 2 w @ bs, rc_bit_index = 0\<rparr>"
  have "rbit ?c k = bit w k" if "k < 16" for k
  proof -
    have "rbit ?c k = bit_at (le_bytes 2 w) k" using that by (auto simp: rbit_def bit_at_def nth_append)
    then show ?thesis using that by (simp add: bit_at_le_bytes)
  qed
  then have "read_u16 dbg ?c = Some (w, rc_advance_bits 16 ?c)" by (intro read_unsigned_spec(3)) simp_all
  then show ?thesis by (simp add: rc_advance_bits_eq)
qed

lemma read_pushing_bytes:
  assumes "length elements + length vs \<le> capacity"
  shows "read_pushing capacity (length vs) (rd_get (read_u1_to_u8 8)) elements \<lparr>rc_bytes = vs @ bs, rc_bit_index = 0\<rparr>
    = Some (Inr (elements @ vs), \<lparr>rc_bytes = bs, rc_bit_index = 0\<rparr>)"
  using assms
proof (induction vs arbitrary: elements)
  case (Cons v vs)
  then show ?case using Cons.IH [of "elements @ [v]"] by (simp add: rd_bind_def rd_get_def read_u8_Cons)
qed (simp add: rd_ok_def)

lemma read_name_bytes:
  assumes "length name \<le> 255"
  shows "read_vec 255 read_length8 (rd_get (read_u1_to_u8 8)) \<lparr>rc_bytes = of_nat (length name) # name @ bs, rc_bit_index = 0\<rparr>
    = Some (Inr name, \<lparr>rc_bytes = bs, rc_bit_index = 0\<rparr>)"
proof -
  have "unat (of_nat (length name) :: u8) = length name" using assms by (simp add: unsigned_of_nat take_bit_nat_eq_self)
  then show ?thesis
    using read_pushing_bytes [of "[]" name 255 bs] assms
    by (simp add: read_vec_def read_length8_def rd_bind_def rd_get_def read_u8_Cons rd_ok_def)
qed

text \<open>
  C27: A received request can make the node panic. If a register access request, whatever the name of the register (of up to 255 bytes), has
  a value with the tag of the bit array variant and a length field above 2048, deserializing the request panics instead
  of returning an array length error, whatever follows in the transfer: the length goes
  unchecked into an assertion of the bit array.
\<close>

theorem bit_value_length_panics:
  assumes "length name \<le> 255" and "2048 < unat (len :: u16)"
  shows "deserialize_from_bytes (AccessRequest_impl dbg) (of_nat (length name) # name @ [3] @ le_bytes 2 len @ rest) = None"
proof -
  have "read_aligned_u8 \<lparr>rc_bytes = 3 # bs, rc_bit_index = 0\<rparr> = Some (3, \<lparr>rc_bytes = bs, rc_bit_index = 0\<rparr>)" for bs
    using read_aligned_u8_eq(1) [of "\<lparr>rc_bytes = 3 # bs, rc_bit_index = 0\<rparr>"] by (simp add: read_u8_Cons)
  moreover have "ba_deserialize 256 (unat len) c = None" for c
    using assms(2) by (simp add: ba_deserialize_def bit_array_new_def)
  ultimately show ?thesis
    by (simp add: deserialize_from_bytes_def read_cursor_new_def AccessRequest_impl_def rd_bind_def read_composite_of_def
        read_composite_def Name_impl_def read_name_bytes [OF assms(1)] rd_get_def rd_ok_def
        rc_align_to_8_bits_def Let_def Value_impl_def Bit_impl_def read_length16_def read_u16_Cons)
qed

theorem bit_value_length_panics_witness:
  "deserialize_from_bytes (AccessRequest_impl False) [2, 0x61, 0x62, 3, 0x01, 0x08] = None"
proof -
  have "[2, 0x61, 0x62, 3, 0x01, 0x08] = of_nat (length [0x61, 0x62 :: u8]) # [0x61, 0x62] @ [3] @ le_bytes 2 (0x0801 :: u16) @ []" by code_simp
  then show ?thesis using bit_value_length_panics [where name = "[0x61, 0x62]" and len = "0x0801" and dbg = False and rest = "[]"] by simp
qed

text \<open>
  C28: A register value of the bit array variant does not survive the way over the network. The serializer writes
  the bits without the length that the deserializer expects before them, so an array of \<open>n\<close> zero
  bits, for every \<open>n\<close> between 1 and the capacity, is read back as an empty array.
\<close>

theorem bit_value_loses_length:
  assumes "0 < n" and "n \<le> 2048" and "16 + n \<le> 8 * length buffer"
  shows "\<exists>a bytes b. bit_array_new 256 n = Some a \<and> serialize_to_bytes (Bit_impl dbg) (Bit a) buffer = Some bytes
    \<and> deserialize_from_bytes (Bit_impl dbg) bytes = Some (Inr (Bit b)) \<and> ba_bits b = [] \<and> ba_bits a \<noteq> []"
proof -
  let ?a = "\<lparr>ba_bytes = replicate 256 (0 :: u8), ba_bit_length = n\<rparr>"
  have a: "bit_array_new 256 n = Some ?a" "ba_inv ?a" "ba_bits ?a \<noteq> []"
    using assms(1, 2) by (simp_all add: bit_array_new_def ba_inv_def ba_bits_def)
  obtain c where c: "ba_serialize ?a (write_cursor_new buffer) = Some c"
      "wc_extends (write_cursor_new buffer) n (bit_at (ba_bytes ?a)) c"
    using ba_serialize_spec [OF a(2) write_cursor_new_inv(1) [of buffer]] assms(3)
    by (auto simp: write_cursor_new_inv(2) write_cursor_new_length)
  have zero: "\<not> bit_at (wc_bytes c) k" for k
  proof (cases "k < n")
    case True
    with c(2) show ?thesis by (simp add: wc_extends_def write_cursor_new_inv(2)) (simp add: bit_at_def)
  next
    case False
    with wc_extendsD(1, 2) [OF c(2)] show ?thesis by (simp add: wc_inv_def write_cursor_new_inv(2))
  qed
  let ?r = "read_cursor_new (wc_bytes c)"
  have "read_u16 dbg ?r = Some (0, rc_advance_bits 16 ?r)"
    by (rule read_unsigned_spec(3)) (simp_all add: rbit_new zero, simp add: read_cursor_new_def)
  moreover obtain b c' where "ba_deserialize 256 0 (rc_advance_bits 16 ?r) = Some (b, c')" "ba_bits b = []"
    using ba_deserialize_spec [of 0 256 "rc_advance_bits 16 ?r"] by auto
  ultimately have "deserialize_from_bytes (Bit_impl dbg) (wc_bytes c) = Some (Inr (Bit b))"
    by (simp add: deserialize_from_bytes_def Bit_impl_def rd_bind_def read_length16_def rd_get_def rd_ok_def)
  with a c(1) \<open>ba_bits b = []\<close> show ?thesis by (auto simp: serialize_to_bytes_def Bit_impl_def)
qed

theorem bit_value_loses_length_witness:
  "\<exists>a bytes b. bit_array_new 256 5 = Some a \<and> serialize_to_bytes (Bit_impl True) (Bit a) (replicate 3 0) = Some bytes
    \<and> deserialize_from_bytes (Bit_impl True) bytes = Some (Inr (Bit b)) \<and> ba_bits b = [] \<and> ba_bits a \<noteq> []"
  using bit_value_loses_length [of 5 "replicate 3 0" True] by simp

end
