(* ===== verification/Ser_Cobs.thy ===== *)
theory Ser_Cobs
  imports Prelude
begin

text \<open>
  Consistent-overhead byte stuffing of the serial transport (canadensis\_serial: \<^verbatim>\<open>cobs.rs\<close>): the
  encoder that writes into a slice, the streaming decoder and the worst-case size. The encoder is
  proved equal to a reference encoding in blocks; decoding gives the input back except for
  one pattern of input bytes, which the last part makes precise.
\<close>

section \<open>Encoder\<close>

text \<open>The loop of \<^verbatim>\<open>escape_from_iter\<close> with its three local variables; writing out of range is the error.\<close>

fun escape_loop :: "u8 list \<Rightarrow> u8 list \<Rightarrow> nat \<Rightarrow> nat \<Rightarrow> u8 \<Rightarrow> out_of_memory_error + nat \<times> u8 list" where
  "escape_loop [] destination dest_current dest_code code =
     (if dest_code < length destination then Inr (dest_current, destination[dest_code := code])
      else Inl OutOfMemoryError)"
| "escape_loop (byte # source) destination dest_current dest_code code =
     (if byte = 0 then
        (if dest_code < length destination
         then escape_loop source (destination[dest_code := code]) (dest_current + 1) dest_current 0x1
         else Inl OutOfMemoryError)
      else if code = 0xff then
        (if dest_code < length destination then
           (let destination = destination[dest_code := code]; dest_code = dest_current; dest_current = dest_current + 1 in
            if dest_current < length destination
            then escape_loop source (destination[dest_current := byte]) (dest_current + 1) dest_code (0x1 + 1)
            else Inl OutOfMemoryError)
         else Inl OutOfMemoryError)
      else
        (if dest_current < length destination
         then escape_loop source (destination[dest_current := byte]) (dest_current + 1) dest_code (code + 1)
         else Inl OutOfMemoryError))"

text \<open>Gives the number of bytes written and the destination.\<close>

definition escape_from_iter :: "u8 list \<Rightarrow> u8 list \<Rightarrow> out_of_memory_error + nat \<times> u8 list" where
  "escape_from_iter source destination = escape_loop source destination 1 0 0x1"

definition escaped_size :: "nat \<Rightarrow> nat" where
  "escaped_size raw_size =
     (if raw_size = 0 then 1 else (let overhead = (raw_size + 253) div 254 in raw_size + overhead))"

section \<open>Decoder\<close>

datatype DecodeZeroError = DecodeZeroError

record Unescaper =
  ue_bytes_to_copy :: u8
  ue_pending_zero :: bool

definition unescaper_new :: Unescaper where
  "unescaper_new = \<lparr>ue_bytes_to_copy = 0, ue_pending_zero = False\<rparr>"

definition unescaper_accept :: "u8 \<Rightarrow> Unescaper \<Rightarrow> (DecodeZeroError + u8 option) \<times> Unescaper" where
  "unescaper_accept byte self =
     (if byte = 0 then (Inl DecodeZeroError, self)
      else if ue_bytes_to_copy self = 0 then
        (Inr (if ue_pending_zero self then Some 0 else None),
         self\<lparr>ue_bytes_to_copy := byte - 1, ue_pending_zero := byte < 0xff\<rparr>)
      else (Inr (Some byte), self\<lparr>ue_bytes_to_copy := ue_bytes_to_copy self - 1\<rparr>))"

text \<open>Decoding a sequence of bytes: the bytes that come out, or nothing if a zero is among them.\<close>

fun unescape_all :: "Unescaper \<Rightarrow> u8 list \<Rightarrow> (u8 list \<times> Unescaper) option" where
  "unescape_all u [] = Some ([], u)"
| "unescape_all u (b # bs) =
     (case unescaper_accept b u of
        (Inl _, _) \<Rightarrow> None
      | (Inr out, u) \<Rightarrow> do {
          (outs, u) \<leftarrow> unescape_all u bs;
          Some ((case out of None \<Rightarrow> [] | Some x \<Rightarrow> [x]) @ outs, u)
        })"

section \<open>Reference encoding\<close>

text \<open>
  The encoding in blocks: \<open>block\<close> holds the bytes since the last code, never a zero and at most 254
  of them. The code of a block is its length plus one.
\<close>

fun cobs :: "u8 list \<Rightarrow> u8 list \<Rightarrow> u8 list" where
  "cobs block [] = of_nat (length block + 1) # block"
| "cobs block (b # bs) =
     (if b = 0 then (of_nat (length block + 1) # block) @ cobs [] bs
      else if length block = 254 then (0xff # block) @ cobs [b] bs
      else cobs (block @ [b]) bs)"

lemma cobs_length_ge: "length block + 1 \<le> length (cobs block bs)"
  by (induction block bs rule: cobs.induct) auto

lemma unat_code: "length block \<le> 254 \<Longrightarrow> unat (of_nat (length block + 1) :: u8) = length block + 1"
  by (simp add: unat_of_nat take_bit_nat_eq_self del: of_nat_add of_nat_Suc)

lemma code_nonzero: "length block \<le> 254 \<Longrightarrow> (of_nat (length block + 1) :: u8) \<noteq> 0"
  using unat_code [of block] by (auto simp del: of_nat_add of_nat_Suc)

lemma code_max: "length block \<le> 254 \<Longrightarrow> (of_nat (length block + 1) :: u8) = 0xff \<longleftrightarrow> length block = 254"
  using unat_code [of block] by (auto simp: word_unat_eq_iff simp del: of_nat_add of_nat_Suc)

lemma cobs_nonzero: "length block \<le> 254 \<Longrightarrow> 0 \<notin> set block \<Longrightarrow> 0 \<notin> set (cobs block bs)"
proof (induction block bs rule: cobs.induct)
  case (1 block)
  then show ?case using code_nonzero [of block] by simp
next
  case (2 block b bs)
  then show ?case using code_nonzero [of block] by auto
qed

lemma escape_loop_full:
  "length destination \<le> dest_code \<Longrightarrow> dest_code < dest_current \<Longrightarrow>
   escape_loop source destination dest_current dest_code code = Inl OutOfMemoryError"
  by (cases source) auto

lemma drop_past: "length xs = length ys \<Longrightarrow> length xs \<le> n \<Longrightarrow> drop n (xs @ zs) = drop n (ys @ zs)"
  by simp

text \<open>The loop writes exactly the reference encoding, if it fits, and otherwise reports the error.\<close>

lemma escape_loop_cobs:
  "length block \<le> 254 \<Longrightarrow>
   escape_loop source (pre @ c # block @ rest) (length pre + 1 + length block) (length pre) (of_nat (length block + 1)) =
    (let n = length pre + length (cobs block source); destination = pre @ c # block @ rest in
     if n \<le> length destination then Inr (n, pre @ cobs block source @ drop n destination)
     else Inl OutOfMemoryError)"
proof (induction block source arbitrary: pre c rest rule: cobs.induct)
  case (1 block)
  then show ?case by simp
next
  case (2 block b source)
  let ?code = "of_nat (length block + 1) :: u8"
  consider "b = 0" | "b \<noteq> 0" "length block = 254" | "b \<noteq> 0" "length block < 254" using 2(4) by linarith
  then show ?case
  proof cases
    case 1
    show ?thesis
    proof (cases rest)
      case Nil
      then show ?thesis using 1 cobs_length_ge [of "[]" source] by (auto simp: escape_loop_full Let_def)
    next
      case (Cons r rest')
      then show ?thesis using 1 2(1) [of "pre @ ?code # block" r rest'] by (simp add: Let_def)
    qed
  next
    case b: 2
    show ?thesis
    proof (cases "\<exists>r r' rest'. rest = r # r' # rest'")
      case True
      then obtain r r' rest' where r: "rest = r # r' # rest'" by blast
      have "escape_loop (b # source) (pre @ c # block @ rest) (length pre + 1 + length block) (length pre) ?code =
        escape_loop source ((pre @ ?code # block) @ r # [b] @ rest') (length (pre @ ?code # block) + 1 + length [b])
          (length (pre @ ?code # block)) (of_nat (length [b] + 1))"
        using b code_max [of block] by (simp add: r Let_def list_update_append add.commute)
      moreover have "drop (255 + length (cobs [b] source)) (?code # block @ r # b # rest') =
          drop (255 + length (cobs [b] source)) (c # block @ r # r' # rest')"
        using b cobs_length_ge [of "[b]" source] drop_past [of "?code # block @ [r, b]" "c # block @ [r, r']" _ rest'] by simp
      ultimately show ?thesis using b 2(2) [of "pre @ ?code # block" r rest']
        by (simp add: r Let_def del: list_update_append)
    next
      case False
      then have "length rest \<le> 1" by (cases rest; cases "tl rest") auto
      then show ?thesis using b cobs_length_ge [of "[b]" source] by (simp add: Let_def)
    qed
  next
    case b: 3
    then have c: "?code \<noteq> 0xff" using code_max [of block] by simp
    show ?thesis
    proof (cases rest)
      case Nil
      then show ?thesis using b c cobs_length_ge [of "block @ [b]" source] by (simp add: Let_def)
    next
      case (Cons r rest')
      have "drop (length (cobs (block @ [b]) source)) (c # block @ b # rest') =
          drop (length (cobs (block @ [b]) source)) (c # block @ r # rest')"
        using cobs_length_ge [of "block @ [b]" source] drop_past [of "c # block @ [b]" "c # block @ [r]" _ rest'] by simp
      then show ?thesis using Cons b c 2(3) [of pre c rest'] by (simp add: Let_def list_update_append)
    qed
  qed
qed

section \<open>Size\<close>

lemma cobs_length:
  "length block \<le> 254 \<Longrightarrow> block \<noteq> [] \<or> bs \<noteq> [] \<Longrightarrow>
   length (cobs block bs) \<le> length block + length bs + (length block + length bs + 253) div 254"
proof (induction block bs rule: cobs.induct)
  case (1 block)
  then show ?case by (cases block) auto
next
  case (2 block b bs)
  consider "b = 0" | "b \<noteq> 0" "length block = 254" | "b \<noteq> 0" "length block < 254" using 2(4) by linarith
  then show ?case
  proof cases
    case 1
    then show ?thesis using 2(1) 
      by (cases "bs = []") (simp, simp)
  next
    case b: 2
    then show ?thesis using 2(2) by simp
  next
    case 3
    then show ?thesis using 2(3) by simp
  qed
qed

text \<open>The size the transmitter reserves is always enough.\<close>

lemma cobs_fits: "length (cobs [] bs) \<le> escaped_size (length bs)"
  using cobs_length [of "[]" bs] by (cases "bs = []") (auto simp: escaped_size_def Let_def)

lemma escape_from_iter_cobs:
  assumes "destination \<noteq> []"
  shows "escape_from_iter source destination =
    (if length (cobs [] source) \<le> length destination
     then Inr (length (cobs [] source), cobs [] source @ drop (length (cobs [] source)) destination)
     else Inl OutOfMemoryError)"
proof -
  obtain c rest where "destination = c # rest" using assms by (cases destination) auto
  then show ?thesis using escape_loop_cobs [of "[]" source "[]" c rest]
    by (simp add: escape_from_iter_def Let_def)
qed

section \<open>Decoding\<close>

lemma unescape_all_append:
  "unescape_all u (bs @ cs) = do {
     (xs, u) \<leftarrow> unescape_all u bs;
     (ys, u) \<leftarrow> unescape_all u cs;
     Some (xs @ ys, u)
   }"
  by (induction bs arbitrary: u) (auto split: prod.splits sum.splits Option.bind_splits)

lemma unescape_copy:
  "0 \<notin> set bs \<Longrightarrow> length bs \<le> unat (ue_bytes_to_copy u) \<Longrightarrow>
   unescape_all u bs = Some (bs, u\<lparr>ue_bytes_to_copy := ue_bytes_to_copy u - of_nat (length bs)\<rparr>)"
proof (induction bs arbitrary: u)
  case (Cons b bs)
  then have n: "ue_bytes_to_copy u \<noteq> 0" by auto
  then have "unat (ue_bytes_to_copy u - 1) = unat (ue_bytes_to_copy u) - 1"
    by (simp add: unat_minus_one)
  then show ?case using Cons n by (simp add: unescaper_accept_def algebra_simps)
qed simp

text \<open>A block is decoded to its bytes; a code below 255 leaves a zero pending.\<close>

lemma unescape_block:
  assumes "length block \<le> 254" and "0 \<notin> set block"
  shows "unescape_all \<lparr>ue_bytes_to_copy = 0, ue_pending_zero = z\<rparr> (of_nat (length block + 1) # block) =
    Some ((if z then [0] else []) @ block, \<lparr>ue_bytes_to_copy = 0, ue_pending_zero = length block < 254\<rparr>)"
proof -
  let ?code = "of_nat (length block + 1) :: u8"
  have "?code < 0xff \<longleftrightarrow> length block < 254"
    using unat_code [OF assms(1)] by (auto simp: word_less_nat_alt simp del: of_nat_add of_nat_Suc)
  moreover have "?code - 1 = of_nat (length block)" by simp
  moreover have "unat (of_nat (length block) :: u8) = length block"
    using assms(1) by (simp add: unat_of_nat take_bit_nat_eq_self)
  ultimately show ?thesis
    using assms code_nonzero [OF assms(1)]
      unescape_copy [OF assms(2), of "\<lparr>ue_bytes_to_copy = of_nat (length block), ue_pending_zero = length block < 254\<rparr>"]
    by (simp add: unescaper_accept_def)
qed

text \<open>
  The bytes a decoder recovers: the input without each zero that follows a full block, which
  is one of 254 bytes that are not zero.
\<close>

fun cobs_recovered :: "nat \<Rightarrow> u8 list \<Rightarrow> u8 list" where
  "cobs_recovered n [] = []"
| "cobs_recovered n (b # bs) =
     (if b = 0 then (if n = 254 then cobs_recovered 0 bs else 0 # cobs_recovered 0 bs)
      else b # cobs_recovered (if n = 254 then 1 else n + 1) bs)"

fun cobs_safe :: "nat \<Rightarrow> u8 list \<Rightarrow> bool" where
  "cobs_safe n [] = True"
| "cobs_safe n (b # bs) =
     (if b = 0 then n \<noteq> 254 \<and> cobs_safe 0 bs else cobs_safe (if n = 254 then 1 else n + 1) bs)"

lemma cobs_recovered_length: "length (cobs_recovered n bs) \<le> length bs"
  by (induction n bs rule: cobs_recovered.induct) auto

lemma cobs_recovered_safe: "cobs_recovered n bs = bs \<longleftrightarrow> cobs_safe n bs"
proof (induction n bs rule: cobs_safe.induct)
  case (2 n b bs)
  have "cobs_recovered 0 bs \<noteq> 0 # bs" using cobs_recovered_length [of 0 bs] by auto
  then show ?case using 2 by auto
qed simp

lemma unescape_cobs:
  "length block \<le> 254 \<Longrightarrow> 0 \<notin> set block \<Longrightarrow>
   \<exists>z'. unescape_all \<lparr>ue_bytes_to_copy = 0, ue_pending_zero = z\<rparr> (cobs block bs) =
     Some ((if z then [0] else []) @ block @ cobs_recovered (length block) bs,
       \<lparr>ue_bytes_to_copy = 0, ue_pending_zero = z'\<rparr>)"
proof (induction block bs arbitrary: z rule: cobs.induct)
  case (1 block)
  then show ?case using unescape_block [of block z] by simp
next
  case (2 block b bs)
  note block = unescape_block [OF 2(4,5), of z]
  consider "b = 0" | "b \<noteq> 0" "length block = 254" | "b \<noteq> 0" "length block < 254" using 2(4) by linarith
  then show ?case
  proof cases
    case 1
    obtain z' where "unescape_all \<lparr>ue_bytes_to_copy = 0, ue_pending_zero = length block < 254\<rparr> (cobs [] bs) =
        Some ((if length block < 254 then [0] else []) @ cobs_recovered 0 bs, \<lparr>ue_bytes_to_copy = 0, ue_pending_zero = z'\<rparr>)"
      using 2(1) [OF 1, of "length block < 254"] by auto
    then show ?thesis using 1 2(4) block
      by (auto simp: unescape_all_append simp del: unescape_all.simps of_nat_add of_nat_Suc append_Cons)
  next
    case b: 2
    obtain z' where "unescape_all \<lparr>ue_bytes_to_copy = 0, ue_pending_zero = False\<rparr> (cobs [b] bs) =
        Some (b # cobs_recovered 1 bs, \<lparr>ue_bytes_to_copy = 0, ue_pending_zero = z'\<rparr>)"
      using 2(2) [OF b, of False] b by auto
    then show ?thesis using b block
      by (auto simp: unescape_all_append simp del: unescape_all.simps append_Cons)
  next
    case 3
    then show ?thesis using 2(3) [of z] 2(5) by simp
  qed
qed

lemma unescape_cobs_new:
  "\<exists>u. unescape_all unescaper_new (cobs [] bs) = Some (cobs_recovered 0 bs, u) \<and> ue_bytes_to_copy u = 0"
  using unescape_cobs [of "[]" False bs] by (auto simp: unescaper_new_def)

lemma cobs_recovered_run:
  "0 \<notin> set bs \<Longrightarrow> n + length bs \<le> 254 \<Longrightarrow> cobs_recovered n (bs @ cs) = bs @ cobs_recovered (n + length bs) cs"
  by (induction bs arbitrary: n) auto

section \<open>Properties\<close>

text \<open>
  Encoding into a buffer of \<^const>\<open>escaped_size\<close> bytes or more always succeeds and writes at most that
  many bytes, none of them zero; the streaming decoder accepts them all, and gives the source back
  exactly when the source has no zero directly after a run of nonzero bytes that fills a block of 254.
\<close>

lemma cobs_roundtrip:
  assumes "escaped_size (length source) \<le> length destination"
  shows "\<exists>n destination' out u.
    escape_from_iter source destination = Inr (n, destination') \<and>
    length destination' = length destination \<and> n \<le> escaped_size (length source) \<and>
    drop n destination' = drop n destination \<and> 0 \<notin> set (take n destination') \<and>
    unescape_all unescaper_new (take n destination') = Some (out, u) \<and>
    (out = source \<longleftrightarrow> cobs_safe 0 source)"
proof -
  have "destination \<noteq> []" using assms by (auto simp: escaped_size_def Let_def split: if_splits)
  then have "escape_from_iter source destination =
      Inr (length (cobs [] source), cobs [] source @ drop (length (cobs [] source)) destination)"
    using assms cobs_fits [of source] by (simp add: escape_from_iter_cobs)
  then show ?thesis
    using assms cobs_fits [of source] cobs_nonzero [of "[]" source] unescape_cobs_new [of source] cobs_recovered_safe [of 0 source]
    by auto
qed

text \<open>
  C31: The encoder ends a full block at a zero byte without a code for that zero: 254 nonzero
  bytes, a zero and a rest encode to bytes that decode without the zero.
\<close>

theorem cobs_loses_zero:
  assumes "length bs = 254" and "0 \<notin> set bs" and "cobs_safe 0 rest"
    and "escaped_size (length (bs @ 0 # rest)) \<le> length destination"
  shows "\<exists>n destination' u. escape_from_iter (bs @ 0 # rest) destination = Inr (n, destination') \<and>
    unescape_all unescaper_new (take n destination') = Some (bs @ rest, u)"
proof -
  have "destination \<noteq> []" using assms(4) by (auto simp: escaped_size_def Let_def split: if_splits)
  moreover have "cobs_recovered 0 (bs @ 0 # rest) = bs @ rest"
    using assms(1-3) by (simp add: cobs_recovered_run cobs_recovered_safe)
  ultimately show ?thesis
    using assms(4) cobs_fits [of "bs @ 0 # rest"] unescape_cobs_new [of "bs @ 0 # rest"]
    by (auto simp: escape_from_iter_cobs)
qed

theorem cobs_loses_zero_witness:
  "length (replicate 254 (1 :: u8)) = 254 \<and> 0 \<notin> set (replicate 254 (1 :: u8)) \<and> cobs_safe 0 [] \<and>
   (\<exists>n destination' u. escape_from_iter (replicate 254 1 @ [0]) (replicate 257 0) = Inr (n, destination') \<and>
     unescape_all unescaper_new (take n destination') = Some (replicate 254 1, u))"
  using cobs_loses_zero [of "replicate 254 1" "[]" "replicate 257 0"]
  by (simp add: escaped_size_def del: replicate_Suc)

end
