(* ===== verification/Ser_Header.thy ===== *)
theory Ser_Header
  imports Core_Transfer
begin

text \<open>
  Identifiers, errors and frame headers of the serial transport (canadensis\_serial: \<^verbatim>\<open>lib.rs\<close>,
  \<^verbatim>\<open>header.rs\<close>, \<^verbatim>\<open>header_collector.rs\<close>).

  \<^verbatim>\<open>SerialHeader\<close> is a \<^verbatim>\<open>repr(C)\<close> struct without padding that \<^verbatim>\<open>zerocopy\<close> reads and writes in the
  byte order of the machine; the model is of a little-endian one. The CRC-32C of
  the \<^verbatim>\<open>crc_any\<close> crate is the parameter \<open>crc32c\<close>, the checksum of a sequence of bytes.
\<close>

section \<open>Identifiers and errors\<close>

datatype SerialNodeId = SerialNodeId (serial_node_bits: u16)

definition SERIAL_MAX_NODE_ID :: u16 where
  "SERIAL_MAX_NODE_ID = 65534"

definition serial_node_try_from :: "u16 \<Rightarrow> invalid_value + SerialNodeId" where
  "serial_node_try_from value =
     (if value \<le> SERIAL_MAX_NODE_ID then Inr (SerialNodeId value) else Inl InvalidValue)"

definition serial_node_wf :: "SerialNodeId \<Rightarrow> bool" where
  "serial_node_wf n \<longleftrightarrow> serial_node_bits n \<le> SERIAL_MAX_NODE_ID"

datatype SerialTransferId = SerialTransferId (serial_tid_bits: u64)

definition serial_tid_increment :: "SerialTransferId \<Rightarrow> SerialTransferId" where
  "serial_tid_increment self = SerialTransferId (serial_tid_bits self + 1)"

datatype 'e serial_error = SerialMemory out_of_memory_error | SerialDriver 'e

definition make_payload_crc :: "(u8 list \<Rightarrow> u32) \<Rightarrow> u8 list \<Rightarrow> u32" where
  "make_payload_crc crc32c payload = crc32c payload"

type_synonym 'i serial_header = "('i, SerialTransferId, Priority, SerialNodeId) Header"
type_synonym ('a, 'i) serial_transfer = "('a, 'i, SerialTransferId, Priority, SerialNodeId) Transfer"

section \<open>The header\<close>

record SerialHeader =
  sr_version :: u8
  sr_priority :: u8
  sr_source_node :: u16
  sr_destination_node :: u16
  sr_data_specifier :: u16
  sr_padding :: u64
  sr_transfer_id :: u64
  sr_frame_index_eot :: u32
  sr_header_crc :: u32

definition SERIAL_VERSION :: u8 where
  "SERIAL_VERSION = 0"

definition ANONYMOUS_SOURCE :: u16 where
  "ANONYMOUS_SOURCE = 0xffff"

definition BROADCAST_DESTINATION :: u16 where
  "BROADCAST_DESTINATION = 0xffff"

definition SINGLE_FRAME_INDEX :: u32 where
  "SINGLE_FRAME_INDEX = 0x80000000"

text \<open>The bytes before the checksum, and all of them.\<close>

definition bytes_to_crc :: "SerialHeader \<Rightarrow> u8 list" where
  "bytes_to_crc self = le_bytes 1 (sr_version self) @ le_bytes 1 (sr_priority self) @ le_bytes 2 (sr_source_node self)
     @ le_bytes 2 (sr_destination_node self) @ le_bytes 2 (sr_data_specifier self) @ le_bytes 8 (sr_padding self)
     @ le_bytes 8 (sr_transfer_id self) @ le_bytes 4 (sr_frame_index_eot self)"

definition header_as_bytes :: "SerialHeader \<Rightarrow> u8 list" where
  "header_as_bytes self = bytes_to_crc self @ le_bytes 4 (sr_header_crc self)"

definition header_read_from :: "u8 list \<Rightarrow> SerialHeader" where
  "header_read_from bytes =
     \<lparr>sr_version = of_le_bytes (take 1 bytes), sr_priority = of_le_bytes (take 1 (drop 1 bytes)),
      sr_source_node = of_le_bytes (take 2 (drop 2 bytes)), sr_destination_node = of_le_bytes (take 2 (drop 4 bytes)),
      sr_data_specifier = of_le_bytes (take 2 (drop 6 bytes)), sr_padding = of_le_bytes (take 8 (drop 8 bytes)),
      sr_transfer_id = of_le_bytes (take 8 (drop 16 bytes)), sr_frame_index_eot = of_le_bytes (take 4 (drop 24 bytes)),
      sr_header_crc = of_le_bytes (take 4 (drop 28 bytes))\<rparr>"

definition update_crc :: "(u8 list \<Rightarrow> u32) \<Rightarrow> SerialHeader \<Rightarrow> SerialHeader" where
  "update_crc crc32c self = self\<lparr>sr_header_crc := crc32c (bytes_to_crc self)\<rparr>"

definition check_crc :: "(u8 list \<Rightarrow> u32) \<Rightarrow> SerialHeader \<Rightarrow> bool" where
  "check_crc crc32c self \<longleftrightarrow> crc32c (bytes_to_crc self) = sr_header_crc self"

datatype HeaderParseError = ErrCrc | ErrVersion | ErrPriority | ErrNotSingleFrame | ErrAnonymousService

definition request_data_specifier :: "ServiceId \<Rightarrow> u16" where
  "request_data_specifier service = 0x8000 OR service_bits service"

definition response_data_specifier :: "ServiceId \<Rightarrow> u16" where
  "response_data_specifier service = 0xc000 OR service_bits service"

definition data_specifier_is_service :: "u16 \<Rightarrow> bool" where
  "data_specifier_is_service specifier \<longleftrightarrow> specifier AND 0x8000 \<noteq> 0"

definition data_specifier_is_response :: "u16 \<Rightarrow> bool" where
  "data_specifier_is_response specifier \<longleftrightarrow> specifier AND 0x4000 \<noteq> 0"

definition into_header :: "(u8 list \<Rightarrow> u32) \<Rightarrow> 'i \<Rightarrow> SerialHeader \<Rightarrow> HeaderParseError + 'i serial_header" where
  "into_header crc32c timestamp self =
     (if \<not> check_crc crc32c self then Inl ErrCrc
      else if sr_version self \<noteq> SERIAL_VERSION then Inl ErrVersion
      else if sr_frame_index_eot self \<noteq> SINGLE_FRAME_INDEX then Inl ErrNotSingleFrame
      else case priority_try_from (sr_priority self) of
        Inl _ \<Rightarrow> Inl ErrPriority
      | Inr priority \<Rightarrow>
          let transfer_id = SerialTransferId (sr_transfer_id self) in
          if data_specifier_is_service (sr_data_specifier self) then
            (case serial_node_try_from (sr_source_node self) of
               Inl _ \<Rightarrow> Inl ErrAnonymousService
             | Inr source \<Rightarrow>
                 (case serial_node_try_from (sr_destination_node self) of
                    Inl _ \<Rightarrow> Inl ErrAnonymousService
                  | Inr destination \<Rightarrow>
                      let service_header = \<lparr>sh_timestamp = timestamp, sh_transfer_id = transfer_id, sh_priority = priority,
                        sh_service = service_from_truncating (sr_data_specifier self),
                        sh_source = source, sh_destination = destination\<rparr> in
                      if data_specifier_is_response (sr_data_specifier self) then Inr (Response service_header)
                      else Inr (Request service_header)))
          else
            Inr (Message \<lparr>mh_timestamp = timestamp, mh_transfer_id = transfer_id, mh_priority = priority,
              mh_subject = subject_from_truncating (sr_data_specifier self),
              mh_source = expect (serial_node_try_from (sr_source_node self))\<rparr>))"

text \<open>The struct literal of \<^verbatim>\<open>From<Header>\<close> before \<^verbatim>\<open>update_crc\<close>, for each kind of transfer.\<close>

fun header_fields :: "'i serial_header \<Rightarrow> SerialHeader" where
  "header_fields (Message h) =
     \<lparr>sr_version = SERIAL_VERSION, sr_priority = u8_from_priority (mh_priority h),
      sr_source_node = (case map_option serial_node_bits (mh_source h) of Some n \<Rightarrow> n | None \<Rightarrow> ANONYMOUS_SOURCE),
      sr_destination_node = BROADCAST_DESTINATION, sr_data_specifier = subject_bits (mh_subject h), sr_padding = 0,
      sr_transfer_id = serial_tid_bits (mh_transfer_id h), sr_frame_index_eot = SINGLE_FRAME_INDEX, sr_header_crc = 0\<rparr>"
| "header_fields (Request h) =
     \<lparr>sr_version = SERIAL_VERSION, sr_priority = u8_from_priority (sh_priority h),
      sr_source_node = serial_node_bits (sh_source h), sr_destination_node = serial_node_bits (sh_destination h),
      sr_data_specifier = request_data_specifier (sh_service h), sr_padding = 0,
      sr_transfer_id = serial_tid_bits (sh_transfer_id h), sr_frame_index_eot = SINGLE_FRAME_INDEX, sr_header_crc = 0\<rparr>"
| "header_fields (Response h) =
     \<lparr>sr_version = SERIAL_VERSION, sr_priority = u8_from_priority (sh_priority h),
      sr_source_node = serial_node_bits (sh_source h), sr_destination_node = serial_node_bits (sh_destination h),
      sr_data_specifier = response_data_specifier (sh_service h), sr_padding = 0,
      sr_transfer_id = serial_tid_bits (sh_transfer_id h), sr_frame_index_eot = SINGLE_FRAME_INDEX, sr_header_crc = 0\<rparr>"

definition serial_header_from :: "(u8 list \<Rightarrow> u32) \<Rightarrow> 'i serial_header \<Rightarrow> SerialHeader" where
  "serial_header_from crc32c header = update_crc crc32c (header_fields header)"

section \<open>Collecting a header byte by byte\<close>

definition HEADER_BYTES :: nat where
  "HEADER_BYTES = 32"

record HeaderCollector =
  hc_bytes :: "u8 list"
  hc_len :: u8

definition header_collector_new :: HeaderCollector where
  "header_collector_new = \<lparr>hc_bytes = replicate HEADER_BYTES 0, hc_len = 0\<rparr>"

definition header_is_done :: "HeaderCollector \<Rightarrow> bool" where
  "header_is_done self \<longleftrightarrow> unat (hc_len self) = HEADER_BYTES"

text \<open>An index out of range panics.\<close>

definition header_push :: "u8 \<Rightarrow> HeaderCollector \<Rightarrow> HeaderCollector option" where
  "header_push byte self =
     (if unat (hc_len self) < length (hc_bytes self)
      then Some \<lparr>hc_bytes = (hc_bytes self)[unat (hc_len self) := byte], hc_len = hc_len self + 1\<rparr>
      else None)"

text \<open>\<^verbatim>\<open>read_from\<close> gives a value only for a slice of exactly the size of the struct.\<close>

definition collector_as_header :: "HeaderCollector \<Rightarrow> SerialHeader option" where
  "collector_as_header self =
     (if length (hc_bytes self) = HEADER_BYTES then Some (header_read_from (hc_bytes self)) else None)"

section \<open>Lemmas\<close>

fun serial_header_wf :: "'i serial_header \<Rightarrow> bool" where
  "serial_header_wf (Message h) \<longleftrightarrow> subject_wf (mh_subject h) \<and> pred_option serial_node_wf (mh_source h)"
| "serial_header_wf (Request h) \<longleftrightarrow> service_wf (sh_service h) \<and> serial_node_wf (sh_source h) \<and> serial_node_wf (sh_destination h)"
| "serial_header_wf (Response h) \<longleftrightarrow> service_wf (sh_service h) \<and> serial_node_wf (sh_source h) \<and> serial_node_wf (sh_destination h)"

lemma length_bytes_to_crc [simp]: "length (bytes_to_crc s) = 28"
  by (simp add: bytes_to_crc_def)

lemma length_header_as_bytes [simp]: "length (header_as_bytes s) = HEADER_BYTES"
  by (simp add: header_as_bytes_def HEADER_BYTES_def)

lemma header_read_as_bytes: "header_read_from (header_as_bytes s) = s"
  by (simp add: header_read_from_def header_as_bytes_def bytes_to_crc_def of_le_bytes_le_bytes)

lemma bytes_to_crc_cong [simp]: "bytes_to_crc (s\<lparr>sr_header_crc := c\<rparr>) = bytes_to_crc s"
  by (simp add: bytes_to_crc_def)

lemma check_update_crc: "check_crc crc32c (update_crc crc32c s)"
  by (simp add: check_crc_def update_crc_def)

lemma serial_node_try_from_wf: "serial_node_wf n \<Longrightarrow> serial_node_try_from (serial_node_bits n) = Inr n"
  by (simp add: serial_node_wf_def serial_node_try_from_def)

lemma serial_node_try_from_Inr: "serial_node_try_from v = Inr n \<Longrightarrow> serial_node_wf n \<and> serial_node_bits n = v"
  by (auto simp: serial_node_wf_def serial_node_try_from_def split: if_splits)

lemma anonymous_source: "serial_node_try_from ANONYMOUS_SOURCE = Inl InvalidValue"
  by (simp add: serial_node_try_from_def ANONYMOUS_SOURCE_def SERIAL_MAX_NODE_ID_def)

lemma data_specifier_flags:
  "data_specifier_is_service s \<longleftrightarrow> bit s 15" "data_specifier_is_response s \<longleftrightarrow> bit s 14"
  using and_exp_eq_0_iff_not_bit [of s 15] and_exp_eq_0_iff_not_bit [of s 14]
  by (simp_all add: data_specifier_is_service_def data_specifier_is_response_def)

lemma data_specifier_bits:
  "bit (0x8000 :: u16) n \<longleftrightarrow> n = 15" "bit (0xc000 :: u16) n \<longleftrightarrow> n = 15 \<or> n = 14"
proof -
  have "(0x8000 :: u16) = push_bit 15 1" "(0xc000 :: u16) = push_bit 15 1 OR push_bit 14 1" by code_simp+
  then show "bit (0x8000 :: u16) n \<longleftrightarrow> n = 15" "bit (0xc000 :: u16) n \<longleftrightarrow> n = 15 \<or> n = 14"
    by (auto simp only: bit_simps) simp_all
qed

lemma service_bits_below: "service_wf s \<Longrightarrow> bit (service_bits s) n \<Longrightarrow> n < 9"
  by (rule bit_below) (simp_all add: service_wf_def VALID_SERVICE_IDS_end_def word_le_nat_alt)

lemma subject_bits_below: "subject_wf s \<Longrightarrow> bit (subject_bits s) n \<Longrightarrow> n < 13"
  by (rule bit_below) (simp_all add: subject_wf_def VALID_SUBJECT_IDS_end_def word_le_nat_alt)

lemma port_masks: "VALID_SERVICE_IDS_end = mask 9" "VALID_SUBJECT_IDS_end = mask 13"
  by (simp_all add: VALID_SERVICE_IDS_end_def VALID_SUBJECT_IDS_end_def mask_eq_decr_exp)

lemma message_specifier:
  assumes "subject_wf s"
  shows "\<not> data_specifier_is_service (subject_bits s)" and "subject_from_truncating (subject_bits s) = s"
proof -
  show "\<not> data_specifier_is_service (subject_bits s)"
    using subject_bits_below [OF assms, of 15] by (auto simp: data_specifier_flags)
  have "subject_bits s AND mask 13 = subject_bits s"
    by (rule bit_word_eqI) (use subject_bits_below [OF assms] in \<open>auto simp: bit_simps\<close>)
  then show "subject_from_truncating (subject_bits s) = s"
    by (simp add: subject_from_truncating_def port_masks del: mask_numeral)
qed

lemma service_specifier:
  assumes "service_wf s"
  shows "data_specifier_is_service (request_data_specifier s)" "\<not> data_specifier_is_response (request_data_specifier s)"
    "data_specifier_is_service (response_data_specifier s)" "data_specifier_is_response (response_data_specifier s)"
    and "service_from_truncating (request_data_specifier s) = s" "service_from_truncating (response_data_specifier s) = s"
proof -
  note below = service_bits_below [OF assms]
  show "data_specifier_is_service (request_data_specifier s)" "\<not> data_specifier_is_response (request_data_specifier s)"
    "data_specifier_is_service (response_data_specifier s)" "data_specifier_is_response (response_data_specifier s)"
    using below [of 14]
    by (auto simp: data_specifier_flags request_data_specifier_def response_data_specifier_def bit_or_iff data_specifier_bits)
  have "\<not> bit (0x8000 :: u16) n" "\<not> bit (0xc000 :: u16) n" if "n < 9" for n
    using that by (simp_all only: data_specifier_bits) simp_all
  then have "request_data_specifier s AND mask 9 = service_bits s" "response_data_specifier s AND mask 9 = service_bits s"
    using below by (auto simp: bit_eq_iff request_data_specifier_def response_data_specifier_def
      bit_and_iff bit_or_iff bit_mask_iff simp del: mask_numeral)
  then show "service_from_truncating (request_data_specifier s) = s" "service_from_truncating (response_data_specifier s) = s"
    by (simp_all add: service_from_truncating_def port_masks del: mask_numeral)
qed

lemma serial_header_parses:
  assumes "serial_header_wf h"
  shows "into_header crc32c now (serial_header_from crc32c h) = Inr (set_timestamp now h)"
proof -
  have "check_crc crc32c (serial_header_from crc32c h)" by (simp add: serial_header_from_def check_update_crc)
  with assms show ?thesis
    by (cases h) (auto simp: into_header_def serial_header_from_def update_crc_def Let_def message_specifier service_specifier
        serial_node_try_from_wf anonymous_source split: option.split)
qed

lemma source_wf: "pred_option serial_node_wf (expect (serial_node_try_from v))"
  by (cases "serial_node_try_from v") (auto dest: serial_node_try_from_Inr)

lemma into_header_wf: "into_header crc32c now s = Inr h \<Longrightarrow> serial_header_wf h"
  by (auto simp: into_header_def Let_def source_wf subject_from_truncating_wf service_from_truncating_wf
      split: if_splits sum.splits dest!: serial_node_try_from_Inr)

lemma serial_node_try_from_eq:
  "serial_node_try_from v = (if v = 0xffff then Inl InvalidValue else Inr (SerialNodeId v))"
proof -
  have "v \<le> 65534 \<longleftrightarrow> v \<noteq> 0xffff"
    using unsigned_less [of v, where 'a = nat] by (auto simp: word_le_nat_alt word_unat_eq_iff)
  then show ?thesis by (simp add: serial_node_try_from_def SERIAL_MAX_NODE_ID_def)
qed

lemma priority_accepts: "(\<exists>p. priority_try_from v = Inr p) \<longleftrightarrow> v < 8"
  using priority_try_from_total [of v] by (auto simp: priority_try_from_def split: if_splits)

section \<open>The collector as a list of bytes\<close>

definition collected :: "HeaderCollector \<Rightarrow> u8 list \<Rightarrow> bool" where
  "collected hc bs \<longleftrightarrow> length bs \<le> HEADER_BYTES \<and> hc_len hc = of_nat (length bs) \<and>
     length (hc_bytes hc) = HEADER_BYTES \<and> take (length bs) (hc_bytes hc) = bs"

lemma collected_len: "collected hc bs \<Longrightarrow> unat (hc_len hc) = length bs"
  by (simp add: collected_def HEADER_BYTES_def unat_of_nat take_bit_nat_eq_self)

lemma collected_new: "collected header_collector_new []"
  by (simp add: collected_def header_collector_new_def)

lemma collected_push:
  assumes "collected hc bs" and "length bs < HEADER_BYTES"
  obtains hc' where "header_push b hc = Some hc'" and "collected hc' (bs @ [b])"
proof -
  let ?bytes = "(hc_bytes hc)[length bs := b]"
  have "take (Suc (length bs)) ?bytes = take (length bs) ?bytes @ [?bytes ! length bs]"
    using assms by (intro take_Suc_conv_app_nth) (simp add: collected_def)
  then have "collected \<lparr>hc_bytes = ?bytes, hc_len = hc_len hc + 1\<rparr> (bs @ [b])"
    using assms by (simp add: collected_def)
  then show ?thesis using that assms collected_len [OF assms(1)] by (simp add: header_push_def collected_def)
qed

lemma collected_done: "collected hc bs \<Longrightarrow> header_is_done hc \<longleftrightarrow> length bs = HEADER_BYTES"
  by (simp add: header_is_done_def collected_len)

lemma collected_header: "collected hc bs \<Longrightarrow> length bs = HEADER_BYTES \<Longrightarrow> collector_as_header hc = Some (header_read_from bs)"
  by (auto simp: collected_def collector_as_header_def)

section \<open>Properties\<close>

text \<open>A header with a checksum of its own and one that parses, for a constant checksum function.\<close>

definition example_serial_header :: SerialHeader where
  "example_serial_header = \<lparr>sr_version = 0, sr_priority = 4, sr_source_node = 21, sr_destination_node = 0xffff,
     sr_data_specifier = 7509, sr_padding = 0, sr_transfer_id = 9, sr_frame_index_eot = 0x80000000, sr_header_crc = 7\<rparr>"

text \<open>
  Parsing a collected header succeeds exactly if its checksum, version and single-frame mark are right,
  its priority is one of the eight and, for a service transfer, neither node is 65535. The result then carries
  the given time, its subject or service and its node identifiers are within the ranges of
  their types, and only a message whose source is 65535 has no source.
\<close>

lemma serial_header_type:
  "(\<exists>h. into_header crc32c now s = Inr h) =
     (check_crc crc32c s \<and> sr_version s = 0 \<and> sr_frame_index_eot s = 0x80000000 \<and> sr_priority s < 8 \<and>
      (bit (sr_data_specifier s) 15 \<longrightarrow> sr_source_node s \<noteq> 0xffff \<and> sr_destination_node s \<noteq> 0xffff)) \<and>
   (\<forall>h. into_header crc32c now s = Inr h \<longrightarrow>
      serial_header_wf h \<and> header_timestamp h = now \<and> (header_source h = None \<longleftrightarrow> sr_source_node s = 0xffff))"
proof (intro conjI allI impI)
  show "(\<exists>h. into_header crc32c now s = Inr h) =
     (check_crc crc32c s \<and> sr_version s = 0 \<and> sr_frame_index_eot s = 0x80000000 \<and> sr_priority s < 8 \<and>
      (bit (sr_data_specifier s) 15 \<longrightarrow> sr_source_node s \<noteq> 0xffff \<and> sr_destination_node s \<noteq> 0xffff))"
    using priority_accepts [of "sr_priority s"]
    by (cases "priority_try_from (sr_priority s)")
      (auto simp: into_header_def Let_def serial_node_try_from_eq data_specifier_flags SERIAL_VERSION_def SINGLE_FRAME_INDEX_def)
next
  fix h assume h: "into_header crc32c now s = Inr h"
  then show "serial_header_wf h" by (rule into_header_wf)
  show "header_timestamp h = now" using h by (auto simp: into_header_def Let_def split: if_splits sum.splits)
  show "header_source h = None \<longleftrightarrow> sr_source_node s = 0xffff"
    using h by (auto simp: into_header_def Let_def serial_node_try_from_eq split: if_splits sum.splits)
qed

end
