(* ===== verification/Ser_Tx.thy ===== *)
theory Ser_Tx
  imports Ser_Cobs Ser_Header
begin

text \<open>
  The serial transmitter (canadensis\_serial: \<^verbatim>\<open>tx.rs\<close>): the queue of outgoing bytes, the framing of a
  transfer and the transfer of the queue to the driver.

  The queue is a \<^verbatim>\<open>heapless::Deque\<close>, represented by the list of its elements; its operations are the
  parameter \<open>dq\<close>, and \<open>byte_deque_law\<close> is their documented behaviour. The argument \<open>mem\<close> tells whether
  the temporary buffer can be allocated.
\<close>

section \<open>The transmit queue\<close>

record byte_deque =
  bd_capacity :: "u8 list \<Rightarrow> nat"
  bd_len :: "u8 list \<Rightarrow> nat"
  bd_push_back :: "u8 \<Rightarrow> u8 list \<Rightarrow> u8 list option"
  bd_push_front :: "u8 \<Rightarrow> u8 list \<Rightarrow> u8 list option"
  bd_pop_front :: "u8 list \<Rightarrow> (u8 \<times> u8 list) option"

definition byte_deque_law :: "nat \<Rightarrow> byte_deque \<Rightarrow> bool" where
  "byte_deque_law C dq \<longleftrightarrow>
     (\<forall>q. bd_capacity dq q = C \<and> bd_len dq q = length q \<and>
       bd_pop_front dq q = (case q of [] \<Rightarrow> None | b # q' \<Rightarrow> Some (b, q'))) \<and>
     (\<forall>b q. bd_push_back dq b q = (if length q < C then Some (q @ [b]) else None) \<and>
       bd_push_front dq b q = (if length q < C then Some (b # q) else None))"

definition queue_push_back :: "byte_deque \<Rightarrow> u8 \<Rightarrow> u8 list \<Rightarrow> out_of_memory_error + u8 list" where
  "queue_push_back dq item q =
     (case bd_push_back dq item q of None \<Rightarrow> Inl OutOfMemoryError | Some q \<Rightarrow> Inr q)"

definition queue_push_front :: "byte_deque \<Rightarrow> u8 \<Rightarrow> u8 list \<Rightarrow> out_of_memory_error + u8 list" where
  "queue_push_front dq item q =
     (case bd_push_front dq item q of None \<Rightarrow> Inl OutOfMemoryError | Some q \<Rightarrow> Inr q)"

section \<open>Pushing a transfer\<close>

definition PER_FRAME_ESCAPED_OVERHEAD :: nat where
  "PER_FRAME_ESCAPED_OVERHEAD = HEADER_BYTES + 4"

definition PER_FRAME_UNESCAPED_OVERHEAD :: nat where
  "PER_FRAME_UNESCAPED_OVERHEAD = 1 + 1"

definition DELIMITER :: u8 where
  "DELIMITER = 0x0"

datatype SerialTransmitter = SerialTransmitter (stx_queue: "u8 list")

definition serial_transmitter_new :: SerialTransmitter where
  "serial_transmitter_new = SerialTransmitter []"

fun push_all :: "byte_deque \<Rightarrow> u8 list \<Rightarrow> u8 list \<Rightarrow> u8 list option" where
  "push_all dq [] q = Some q"
| "push_all dq (b # bs) q = do { q \<leftarrow> expect (queue_push_back dq b q); push_all dq bs q }"

text \<open>Subtracting the length from the capacity panics if the queue were longer than its capacity.\<close>

definition queue_room :: "byte_deque \<Rightarrow> u8 list \<Rightarrow> nat option" where
  "queue_room dq q = (if bd_len dq q \<le> bd_capacity dq q then Some (bd_capacity dq q - bd_len dq q) else None)"

definition serial_push ::
  "byte_deque \<Rightarrow> (u8 list \<Rightarrow> u32) \<Rightarrow> bool \<Rightarrow> (u8 list, 'i) serial_transfer \<Rightarrow> SerialTransmitter
   \<Rightarrow> (('e serial_error nb_error + unit) \<times> SerialTransmitter) option" where
  "serial_push dq crc32c mem transfer self =
     (let frame_length = length (tr_payload transfer) + PER_FRAME_ESCAPED_OVERHEAD;
          escaped_length = escaped_size frame_length;
          length_on_wire = escaped_length + PER_FRAME_UNESCAPED_OVERHEAD;
          oom = (Inl (Other (SerialMemory OutOfMemoryError)), self) in do {
        room \<leftarrow> queue_room dq (stx_queue self);
        if length_on_wire > room then Some oom
        else
          let header = serial_header_from crc32c (tr_header transfer);
              payload_crc = make_payload_crc crc32c (tr_payload transfer) in
          if \<not> mem then Some oom
          else do {
            let escape_buffer = replicate escaped_length 0;
            let data_to_escape = header_as_bytes header @ tr_payload transfer @ le_bytes 4 payload_crc;
            (escaped_length, escape_buffer) \<leftarrow> expect (escape_from_iter data_to_escape escape_buffer);
            let length_on_wire = escaped_length + PER_FRAME_UNESCAPED_OVERHEAD;
            room \<leftarrow> queue_room dq (stx_queue self);
            if length_on_wire > room then Some oom
            else do {
              q \<leftarrow> expect (queue_push_back dq DELIMITER (stx_queue self));
              q \<leftarrow> push_all dq (take escaped_length escape_buffer) q;
              q \<leftarrow> expect (queue_push_back dq DELIMITER q);
              Some (Inr (), SerialTransmitter q)
            }
          }
      })"

section \<open>Sending\<close>

text \<open>The operation of a \<^verbatim>\<open>TransmitDriver\<close> with state \<open>'d\<close> is the argument \<open>send_byte\<close>.\<close>

partial_function (option) flush_queue ::
  "byte_deque \<Rightarrow> (u8 \<Rightarrow> 'd \<Rightarrow> ('e nb_error + unit) \<times> 'd) \<Rightarrow> u8 list \<Rightarrow> 'd
   \<Rightarrow> (('e serial_error nb_error + unit) \<times> u8 list \<times> 'd) option" where
  "flush_queue dq send_byte q driver =
     (case bd_pop_front dq q of
        None \<Rightarrow> Some (Inr (), q, driver)
      | Some (byte, q) \<Rightarrow>
          (case send_byte byte driver of
             (Inr _, driver) \<Rightarrow> flush_queue dq send_byte q driver
           | (Inl e, driver) \<Rightarrow>
               (case queue_push_front dq byte q of
                  Inl _ \<Rightarrow> None
                | Inr q \<Rightarrow> Some (Inl (case e of WouldBlock \<Rightarrow> WouldBlock | Other e \<Rightarrow> Other (SerialDriver e)), q, driver))))"

definition serial_flush ::
  "byte_deque \<Rightarrow> (u8 \<Rightarrow> 'd \<Rightarrow> ('e nb_error + unit) \<times> 'd) \<Rightarrow> SerialTransmitter \<Rightarrow> 'd
   \<Rightarrow> (('e serial_error nb_error + unit) \<times> SerialTransmitter \<times> 'd) option" where
  "serial_flush dq send_byte self driver = do {
     (r, q, driver) \<leftarrow> flush_queue dq send_byte (stx_queue self) driver;
     Some (r, SerialTransmitter q, driver)
   }"

text \<open>\<^verbatim>\<open>mtu\<close> is the largest \<^verbatim>\<open>usize\<close>, of the given number of bits.\<close>

definition serial_mtu :: "nat \<Rightarrow> nat" where
  "serial_mtu usize_bits = 2 ^ usize_bits - 1"

section \<open>Lemmas\<close>

lemma byte_deque_lawD:
  assumes "byte_deque_law C dq"
  shows "bd_capacity dq q = C" "bd_len dq q = length q"
    "bd_pop_front dq [] = None" "bd_pop_front dq (b # q) = Some (b, q)"
    "bd_push_back dq b q = (if length q < C then Some (q @ [b]) else None)"
    "bd_push_front dq b q = (if length q < C then Some (b # q) else None)"
  using assms unfolding byte_deque_law_def by simp_all

lemma push_all_appends:
  "byte_deque_law C dq \<Longrightarrow> length q + length bs \<le> C \<Longrightarrow> push_all dq bs q = Some (q @ bs)"
  by (induction bs arbitrary: q) (simp_all add: queue_push_back_def byte_deque_lawD)

text \<open>The bytes escaped for a transfer, and its frame on the wire.\<close>

definition serial_frame_data :: "(u8 list \<Rightarrow> u32) \<Rightarrow> (u8 list, 'i) serial_transfer \<Rightarrow> u8 list" where
  "serial_frame_data crc32c transfer =
     header_as_bytes (serial_header_from crc32c (tr_header transfer)) @ tr_payload transfer @ le_bytes 4 (crc32c (tr_payload transfer))"

definition serial_frame :: "(u8 list \<Rightarrow> u32) \<Rightarrow> (u8 list, 'i) serial_transfer \<Rightarrow> u8 list" where
  "serial_frame crc32c transfer = 0 # cobs [] (serial_frame_data crc32c transfer) @ [0]"

definition serial_frame_size :: "(u8 list, 'i) serial_transfer \<Rightarrow> nat" where
  "serial_frame_size transfer = escaped_size (length (tr_payload transfer) + 36) + 2"

lemma length_serial_frame_data: "length (serial_frame_data crc32c t) = length (tr_payload t) + 36"
  by (simp add: serial_frame_data_def HEADER_BYTES_def)

lemma escaped_size_pos: "0 < escaped_size n"
  by (simp add: escaped_size_def Let_def)

lemma serial_frame_fits: "length (serial_frame crc32c t) \<le> serial_frame_size t"
  using cobs_fits [of "serial_frame_data crc32c t"]
  by (simp add: serial_frame_def serial_frame_size_def length_serial_frame_data)

lemma serial_push_frame:
  assumes "byte_deque_law C dq" and "length (stx_queue tx) \<le> C"
  shows "serial_push dq crc32c mem t tx =
    Some (if mem \<and> length (stx_queue tx) + serial_frame_size t \<le> C
      then (Inr (), SerialTransmitter (stx_queue tx @ serial_frame crc32c t))
      else (Inl (Other (SerialMemory OutOfMemoryError)), tx))"
proof -
  let ?data = "serial_frame_data crc32c t" and ?n = "escaped_size (length (tr_payload t) + 36)"
  have esc: "escape_from_iter ?data (replicate ?n 0) =
      Inr (length (cobs [] ?data), cobs [] ?data @ drop (length (cobs [] ?data)) (replicate ?n 0))"
    using cobs_fits [of ?data] escaped_size_pos [of "length (tr_payload t) + 36"]
    by (subst escape_from_iter_cobs) (auto simp: length_serial_frame_data)
  have len: "length (cobs [] ?data) \<le> ?n" using cobs_fits [of ?data] by (simp add: length_serial_frame_data)
  show ?thesis
    using assms esc len
    by (auto simp: serial_push_def serial_frame_size_def queue_room_def byte_deque_lawD PER_FRAME_ESCAPED_OVERHEAD_def
        PER_FRAME_UNESCAPED_OVERHEAD_def HEADER_BYTES_def make_payload_crc_def Let_def serial_frame_data_def [symmetric]
        DELIMITER_def queue_push_back_def push_all_appends serial_frame_def)
qed

text \<open>Sending in order until the driver refuses a byte.\<close>

fun send_until_error ::
  "(u8 \<Rightarrow> 'd \<Rightarrow> ('e nb_error + unit) \<times> 'd) \<Rightarrow> u8 list \<Rightarrow> 'd \<Rightarrow> ('e serial_error nb_error + unit) \<times> u8 list \<times> 'd" where
  "send_until_error send_byte [] d = (Inr (), [], d)"
| "send_until_error send_byte (b # bs) d =
     (case send_byte b d of
        (Inr _, d) \<Rightarrow> send_until_error send_byte bs d
      | (Inl WouldBlock, d) \<Rightarrow> (Inl WouldBlock, b # bs, d)
      | (Inl (Other e), d) \<Rightarrow> (Inl (Other (SerialDriver e)), b # bs, d))"

lemma flush_queue_sends:
  assumes "byte_deque_law C dq"
  shows "length q \<le> C \<Longrightarrow> flush_queue dq send_byte q d = Some (send_until_error send_byte q d)"
proof (induction q arbitrary: d)
  case Nil
  then show ?case by (subst flush_queue.simps) (simp add: byte_deque_lawD [OF assms])
next
  case (Cons b q)
  then show ?case
    by (subst flush_queue.simps)
      (auto simp: byte_deque_lawD [OF assms] queue_push_front_def split: prod.split sum.split nb_error.split)
qed

end
