(* ===== verification/Ser_Rx.thy ===== *)
theory Ser_Rx
  imports Ser_Tx Core_Subscription
begin

text \<open>
  The serial receiver (canadensis\_serial: \<^verbatim>\<open>rx.rs\<close>): its four states, the handling of one byte,
  sessions and duplicate removal, and the receive loop. The subscription manager is the
  \<^verbatim>\<open>DynamicSubscriptionManager\<close>.

  Parameters of the operations: \<open>crc32c\<close> as in the header; \<open>add\<close> is \<^verbatim>\<open>Duration + Instant\<close>, which may
  panic (\<open>None\<close>), and \<open>compare\<close> is \<^verbatim>\<open>overflow_safe_compare\<close>; \<open>alloc n\<close> is the capacity of a vector
  allocated for \<open>n\<close> bytes, if there is memory. The sessions are a \<^verbatim>\<open>TryHashMap\<close>, represented by its
  entries in the order of iteration; inserting and removing are the parameter \<open>hm\<close>, with
  the documented behaviour \<open>hash_map_law\<close>.
\<close>

section \<open>Sessions and subscriptions\<close>

record 'i SerialSession =
  ss_expiration_time :: 'i
  ss_last_transfer_id :: SerialTransferId

type_synonym 'i serial_sessions = "(SerialNodeId \<times> 'i SerialSession) list"

record 'i hash_map =
  hm_insert :: "SerialNodeId \<Rightarrow> 'i SerialSession \<Rightarrow> 'i serial_sessions \<Rightarrow> 'i serial_sessions"
  hm_remove :: "SerialNodeId \<Rightarrow> 'i serial_sessions \<Rightarrow> 'i serial_sessions"

text \<open>Insertion fails without an effect when there is no memory.\<close>

definition hash_map_law :: "'i hash_map \<Rightarrow> bool" where
  "hash_map_law hm \<longleftrightarrow>
     (\<forall>n s m. distinct (map fst m) \<longrightarrow> distinct (map fst (hm_insert hm n s m)) \<and>
        (map_of (hm_insert hm n s m) = map_of m \<or> map_of (hm_insert hm n s m) = (map_of m)(n \<mapsto> s))) \<and>
     (\<forall>n m. distinct (map fst m) \<longrightarrow> distinct (map fst (hm_remove hm n m)) \<and>
        map_of (hm_remove hm n m) = (map_of m)(n := None))"

record ('i, 'd) SerialSubscription =
  su_payload_size_max :: nat
  su_timeout :: 'd
  su_sessions :: "'i serial_sessions"

definition serial_subscription_new :: "nat \<Rightarrow> 'd \<Rightarrow> ('i, 'd) SerialSubscription" where
  "serial_subscription_new payload_size_max timeout =
     \<lparr>su_payload_size_max = payload_size_max, su_timeout = timeout, su_sessions = []\<rparr>"

text \<open>Each round of the loop removes the last expired session of the iteration.\<close>

partial_function (option) remove_expired_loop ::
  "'i hash_map \<Rightarrow> ('i \<Rightarrow> 'i \<Rightarrow> ordering) \<Rightarrow> 'i \<Rightarrow> 'i serial_sessions \<Rightarrow> 'i serial_sessions option" where
  "remove_expired_loop hm compare now sessions =
     (case find (\<lambda>(_, s). compare (ss_expiration_time s) now = Less) (rev sessions) of
        Some (n, _) \<Rightarrow> remove_expired_loop hm compare now (hm_remove hm n sessions)
      | None \<Rightarrow> Some sessions)"

definition serial_clean_subscription ::
  "'i hash_map \<Rightarrow> ('i \<Rightarrow> 'i \<Rightarrow> ordering) \<Rightarrow> 'i \<Rightarrow> ('i, 'd) SerialSubscription \<Rightarrow> ('i, 'd) SerialSubscription option" where
  "serial_clean_subscription hm compare now self =
     map_option (\<lambda>sessions. self\<lparr>su_sessions := sessions\<rparr>) (remove_expired_loop hm compare now (su_sessions self))"

section \<open>The receiver\<close>

datatype 'i SerialState =
  Idle
| BetweenTransfers
| InHeader Unescaper HeaderCollector
| InPayload Unescaper "'i serial_header" "u8 list" nat

text \<open>The last argument of \<^const>\<open>InPayload\<close> is the capacity of the payload vector.\<close>

record ('i, 'd) SerialReceiver =
  sx_state :: "'i SerialState"
  sx_node_id :: "SerialNodeId option"
  sx_subscriptions :: "('i, 'd) SerialSubscription DynamicSubscriptionManager"

definition serial_receiver_new :: "SerialNodeId \<Rightarrow> ('i, 'd) SerialReceiver" where
  "serial_receiver_new node_id =
     \<lparr>sx_state = Idle, sx_node_id = Some node_id, sx_subscriptions = subscription_manager_default\<rparr>"

definition serial_receiver_new_anonymous :: "('i, 'd) SerialReceiver" where
  "serial_receiver_new_anonymous =
     \<lparr>sx_state = Idle, sx_node_id = None, sx_subscriptions = subscription_manager_default\<rparr>"

text \<open>Applying an operation that may not return to each subscription of one kind.\<close>

fun each_subscription :: "('s \<Rightarrow> 's option) \<Rightarrow> ('k \<times> 's) list \<Rightarrow> ('k \<times> 's) list option" where
  "each_subscription f [] = Some []"
| "each_subscription f ((k, s) # subs) = do {
     s \<leftarrow> f s;
     subs \<leftarrow> each_subscription f subs;
     Some ((k, s) # subs)
   }"

definition serial_clean_expired_sessions ::
  "'i hash_map \<Rightarrow> ('i \<Rightarrow> 'i \<Rightarrow> ordering) \<Rightarrow> 'i \<Rightarrow> ('i, 'd) SerialReceiver \<Rightarrow> ('i, 'd) SerialReceiver option" where
  "serial_clean_expired_sessions hm compare now self = do {
     let clean = serial_clean_subscription hm compare now;
     messages \<leftarrow> each_subscription clean (message_subscriptions (sx_subscriptions self));
     requests \<leftarrow> each_subscription clean (request_subscriptions (sx_subscriptions self));
     responses \<leftarrow> each_subscription clean (response_subscriptions (sx_subscriptions self));
     Some (self\<lparr>sx_subscriptions :=
       \<lparr>message_subscriptions = messages, request_subscriptions = requests, response_subscriptions = responses\<rparr>\<rparr>)
   }"

definition serial_subscribe_message ::
  "bool \<Rightarrow> SubjectId \<Rightarrow> nat \<Rightarrow> 'd \<Rightarrow> ('i, 'd) SerialReceiver \<Rightarrow> ('e serial_error + unit) \<times> ('i, 'd) SerialReceiver" where
  "serial_subscribe_message mem subject payload_size_max timeout self =
     (let (r, m) = subscribe_message mem subject (serial_subscription_new payload_size_max timeout) (sx_subscriptions self) in
      (map_sum SerialMemory id r, self\<lparr>sx_subscriptions := m\<rparr>))"

definition serial_unsubscribe_message :: "SubjectId \<Rightarrow> ('i, 'd) SerialReceiver \<Rightarrow> ('i, 'd) SerialReceiver" where
  "serial_unsubscribe_message subject self =
     self\<lparr>sx_subscriptions := snd (unsubscribe_message subject (sx_subscriptions self))\<rparr>"

definition serial_subscribe_request ::
  "bool \<Rightarrow> ServiceId \<Rightarrow> nat \<Rightarrow> 'd \<Rightarrow> ('i, 'd) SerialReceiver
   \<Rightarrow> ('e serial_error ServiceSubscribeError + unit) \<times> ('i, 'd) SerialReceiver" where
  "serial_subscribe_request mem service payload_size_max timeout self =
     (if sx_node_id self \<noteq> None then
        (let (r, m) = subscribe_request mem service (serial_subscription_new payload_size_max timeout) (sx_subscriptions self) in
         (map_sum (\<lambda>oom. Transport (SerialMemory oom)) id r, self\<lparr>sx_subscriptions := m\<rparr>))
      else (Inl Anonymous, self))"

definition serial_unsubscribe_request :: "ServiceId \<Rightarrow> ('i, 'd) SerialReceiver \<Rightarrow> ('i, 'd) SerialReceiver" where
  "serial_unsubscribe_request service self =
     self\<lparr>sx_subscriptions := snd (unsubscribe_request service (sx_subscriptions self))\<rparr>"

definition serial_subscribe_response ::
  "bool \<Rightarrow> ServiceId \<Rightarrow> nat \<Rightarrow> 'd \<Rightarrow> ('i, 'd) SerialReceiver
   \<Rightarrow> ('e serial_error ServiceSubscribeError + unit) \<times> ('i, 'd) SerialReceiver" where
  "serial_subscribe_response mem service payload_size_max timeout self =
     (if sx_node_id self \<noteq> None then
        (let (r, m) = subscribe_response mem service (serial_subscription_new payload_size_max timeout) (sx_subscriptions self) in
         (map_sum (\<lambda>oom. Transport (SerialMemory oom)) id r, self\<lparr>sx_subscriptions := m\<rparr>))
      else (Inl Anonymous, self))"

definition serial_unsubscribe_response :: "ServiceId \<Rightarrow> ('i, 'd) SerialReceiver \<Rightarrow> ('i, 'd) SerialReceiver" where
  "serial_unsubscribe_response service self =
     self\<lparr>sx_subscriptions := snd (unsubscribe_response service (sx_subscriptions self))\<rparr>"

fun serial_find_subscription_mut ::
  "'i serial_header \<Rightarrow> ('i, 'd) SerialReceiver \<Rightarrow> ('i, 'd) SerialSubscription option" where
  "serial_find_subscription_mut (Message h) self = find_message_subscription (mh_subject h) (sx_subscriptions self)"
| "serial_find_subscription_mut (Request h) self =
     (if sx_node_id self = Some (sh_destination h)
      then find_request_subscription (sh_service h) (sx_subscriptions self) else None)"
| "serial_find_subscription_mut (Response h) self =
     (if sx_node_id self = Some (sh_destination h)
      then find_response_subscription (sh_service h) (sx_subscriptions self) else None)"

definition is_interested ::
  "'i serial_header \<Rightarrow> ('i, 'd) SerialReceiver \<Rightarrow> ('i, 'd) SerialSubscription option" where
  "is_interested header self = do {
     subscription \<leftarrow> find_subscription header (sx_subscriptions self);
     case header_source header of
       Some source \<Rightarrow>
         (case map_of (su_sessions subscription) source of
            Some session \<Rightarrow>
              if serial_tid_bits (ss_last_transfer_id session) < serial_tid_bits (header_transfer_id header)
              then Some subscription else None
          | None \<Rightarrow> Some subscription)
     | None \<Rightarrow> Some subscription
   }"

text \<open>A panic is \<open>None\<close>; the subscription found by mutable reference is updated in place.\<close>

definition complete_transfer ::
  "'i hash_map \<Rightarrow> (u8 list \<Rightarrow> u32) \<Rightarrow> ('d \<Rightarrow> 'i \<Rightarrow> 'i option) \<Rightarrow> 'i serial_header \<Rightarrow> u8 list \<Rightarrow> ('i, 'd) SerialReceiver
   \<Rightarrow> ((u8 list, 'i) serial_transfer option \<times> ('i, 'd) SerialReceiver) option" where
  "complete_transfer hm crc32c add header payload_and_crc self =
     (if length payload_and_crc \<ge> 4 then
        (let crc = of_le_bytes (drop (length payload_and_crc - 4) payload_and_crc);
             payload = take (length payload_and_crc - 4) payload_and_crc in
         if crc \<noteq> make_payload_crc crc32c payload then Some (None, self)
         else case serial_find_subscription_mut header self of
           Some subscription \<Rightarrow>
             (case header_source header of
                Some source_node \<Rightarrow> do {
                  expiration_time \<leftarrow> add (su_timeout subscription) (header_timestamp header);
                  let session = \<lparr>ss_expiration_time = expiration_time, ss_last_transfer_id = header_transfer_id header\<rparr>;
                  Some (Some \<lparr>tr_header = header, tr_payload = payload\<rparr>,
                    self\<lparr>sx_subscriptions := modify_subscription header
                      (\<lambda>s. s\<lparr>su_sessions := hm_insert hm source_node session (su_sessions s)\<rparr>) (sx_subscriptions self)\<rparr>)
                }
              | None \<Rightarrow> Some (Some \<lparr>tr_header = header, tr_payload = payload\<rparr>, self))
         | None \<Rightarrow> Some (None, self))
      else Some (None, self))"

section \<open>Handling one byte\<close>

text \<open>The arm for \<^verbatim>\<open>State::Header\<close> after the last header byte.\<close>

definition header_complete ::
  "(u8 list \<Rightarrow> u32) \<Rightarrow> (nat \<Rightarrow> nat option) \<Rightarrow> 'i \<Rightarrow> Unescaper \<Rightarrow> SerialHeader \<Rightarrow> ('i, 'd) SerialReceiver
   \<Rightarrow> ('e serial_error + (u8 list, 'i) serial_transfer option) \<times> ('i, 'd) SerialReceiver" where
  "header_complete crc32c alloc now unescaper header self =
     (case into_header crc32c now header of
        Inr header \<Rightarrow>
          (case is_interested header self of
             Some subscription \<Rightarrow>
               (case alloc (su_payload_size_max subscription + 4) of
                  Some capacity \<Rightarrow> (Inr None, self\<lparr>sx_state := InPayload unescaper header [] capacity\<rparr>)
                | None \<Rightarrow> (Inl (SerialMemory OutOfMemoryError), self\<lparr>sx_state := Idle\<rparr>))
           | None \<Rightarrow> (Inr None, self\<lparr>sx_state := Idle\<rparr>))
      | Inl _ \<Rightarrow> (Inr None, self\<lparr>sx_state := Idle\<rparr>))"

definition handle_byte ::
  "'i hash_map \<Rightarrow> (u8 list \<Rightarrow> u32) \<Rightarrow> ('d \<Rightarrow> 'i \<Rightarrow> 'i option) \<Rightarrow> (nat \<Rightarrow> nat option) \<Rightarrow> 'i \<Rightarrow> u8 \<Rightarrow> ('i, 'd) SerialReceiver
   \<Rightarrow> (('e serial_error + (u8 list, 'i) serial_transfer option) \<times> ('i, 'd) SerialReceiver) option" where
  "handle_byte hm crc32c add alloc now byte self =
     (let to = (\<lambda>state. Some (Inr None, self\<lparr>sx_state := state\<rparr>)) in
      case sx_state self of
        Idle \<Rightarrow> to (if byte = 0 then BetweenTransfers else Idle)
      | BetweenTransfers \<Rightarrow>
          if byte \<noteq> 0 then
            (case unescaper_accept byte unescaper_new of
               (Inr (Some byte), unescaper) \<Rightarrow> do {
                 header \<leftarrow> header_push byte header_collector_new;
                 to (InHeader unescaper header)
               }
             | (Inr None, unescaper) \<Rightarrow> to (InHeader unescaper header_collector_new)
             | (Inl _, _) \<Rightarrow> None)
          else to BetweenTransfers
      | InHeader unescaper header \<Rightarrow>
          (case unescaper_accept byte unescaper of
             (Inr (Some byte), unescaper) \<Rightarrow> do {
               header \<leftarrow> header_push byte header;
               if header_is_done header then do {
                 header \<leftarrow> collector_as_header header;
                 Some (header_complete crc32c alloc now unescaper header self)
               } else to (InHeader unescaper header)
             }
           | (Inr None, unescaper) \<Rightarrow> to (InHeader unescaper header)
           | (Inl _, _) \<Rightarrow> to Idle)
      | InPayload unescaper header payload capacity \<Rightarrow>
          (case unescaper_accept byte unescaper of
             (Inr (Some byte), unescaper) \<Rightarrow>
               if length payload = capacity then do {
                 (transfer, self) \<leftarrow> complete_transfer hm crc32c add header payload (self\<lparr>sx_state := Idle\<rparr>);
                 Some (Inr transfer, self)
               } else to (InPayload unescaper header (payload @ [byte]) capacity)
           | (Inr None, unescaper) \<Rightarrow> to (InPayload unescaper header payload capacity)
           | (Inl _, _) \<Rightarrow> do {
               (transfer, self) \<leftarrow> complete_transfer hm crc32c add header payload (self\<lparr>sx_state := BetweenTransfers\<rparr>);
               Some (Inr transfer, self)
             }))"

section \<open>The receive loop\<close>

text \<open>The operation of a \<^verbatim>\<open>ReceiveDriver\<close> with state \<open>'s\<close> is the argument \<open>receive_byte\<close>; \<open>alloc n\<close> is the
  allocator at the n-th byte.\<close>

partial_function (option) serial_receive_loop ::
  "('s \<Rightarrow> ('e nb_error + u8) \<times> 's) \<Rightarrow> 'i hash_map \<Rightarrow> (u8 list \<Rightarrow> u32) \<Rightarrow> ('d \<Rightarrow> 'i \<Rightarrow> 'i option)
   \<Rightarrow> (nat \<Rightarrow> nat \<Rightarrow> nat option) \<Rightarrow> 'i \<Rightarrow> nat \<Rightarrow> ('i, 'd) SerialReceiver \<Rightarrow> 's
   \<Rightarrow> (('e serial_error + (u8 list, 'i) serial_transfer option) \<times> ('i, 'd) SerialReceiver \<times> 's) option" where
  "serial_receive_loop receive_byte hm crc32c add alloc now n self driver =
     (case receive_byte driver of
        (Inr byte, driver) \<Rightarrow>
          (case handle_byte hm crc32c add (alloc n) now byte self of
             None \<Rightarrow> None
           | Some (Inr (Some transfer), self) \<Rightarrow> Some (Inr (Some transfer), self, driver)
           | Some (Inr None, self) \<Rightarrow> serial_receive_loop receive_byte hm crc32c add alloc now (Suc n) self driver
           | Some (Inl e, self) \<Rightarrow> Some (Inl e, self, driver))
      | (Inl WouldBlock, driver) \<Rightarrow> Some (Inr None, self, driver)
      | (Inl (Other e), driver) \<Rightarrow> Some (Inl (SerialDriver e), self, driver))"

definition serial_receive ::
  "('s \<Rightarrow> ('e nb_error + u8) \<times> 's) \<Rightarrow> 'i hash_map \<Rightarrow> (u8 list \<Rightarrow> u32) \<Rightarrow> ('d \<Rightarrow> 'i \<Rightarrow> 'i option)
   \<Rightarrow> ('i \<Rightarrow> 'i \<Rightarrow> ordering) \<Rightarrow> (nat \<Rightarrow> nat \<Rightarrow> nat option) \<Rightarrow> 'i \<Rightarrow> ('i, 'd) SerialReceiver \<Rightarrow> 's
   \<Rightarrow> (('e serial_error + (u8 list, 'i) serial_transfer option) \<times> ('i, 'd) SerialReceiver \<times> 's) option" where
  "serial_receive receive_byte hm crc32c add compare alloc now self driver = do {
     self \<leftarrow> serial_clean_expired_sessions hm compare now self;
     serial_receive_loop receive_byte hm crc32c add alloc now 0 self driver
   }"

section \<open>Sessions are cleaned exactly\<close>

lemma hash_map_lawD:
  assumes "hash_map_law hm" and "distinct (map fst m)"
  shows "distinct (map fst (hm_insert hm n s m))" "distinct (map fst (hm_remove hm n m))"
    "map_of (hm_insert hm n s m) = map_of m \<or> map_of (hm_insert hm n s m) = (map_of m)(n \<mapsto> s)"
    "map_of (hm_remove hm n m) = (map_of m)(n := None)"
  using assms unfolding hash_map_law_def by blast+

definition sessions_cleaned ::
  "('i \<Rightarrow> 'i \<Rightarrow> ordering) \<Rightarrow> 'i \<Rightarrow> 'i serial_sessions \<Rightarrow> 'i serial_sessions \<Rightarrow> bool" where
  "sessions_cleaned compare now m m' \<longleftrightarrow> distinct (map fst m') \<and>
     (\<forall>n. map_of m' n = (case map_of m n of
        Some s \<Rightarrow> if compare (ss_expiration_time s) now = Less then None else Some s
      | None \<Rightarrow> None))"

lemma remove_expired_loop_cleans:
  assumes "hash_map_law hm" and "distinct (map fst m)"
  shows "\<exists>m'. remove_expired_loop hm compare now m = Some m' \<and> sessions_cleaned compare now m m'"
  using assms(2)
proof (induction "card (dom (map_of m))" arbitrary: m rule: less_induct)
  case less
  let ?expired = "\<lambda>(_, s). compare (ss_expiration_time s) now = Less"
  show ?case
  proof (cases "find ?expired (rev m)")
    case None
    then have "compare (ss_expiration_time s) now \<noteq> Less" if "map_of m n = Some s" for n s
      using map_of_SomeD [OF that] by (auto simp: find_None_iff)
    with None less.prems show ?thesis
      by (subst remove_expired_loop.simps) (auto simp: sessions_cleaned_def split: option.split)
  next
    case (Some e)
    obtain n s where e: "e = (n, s)" by (cases e)
    have "?expired e \<and> e \<in> set m" using Some by (auto simp: find_Some_iff) (metis length_rev nth_mem set_rev)
    then have expired: "compare (ss_expiration_time s) now = Less" and n: "map_of m n = Some s"
      using less.prems by (auto simp: e)
    let ?m = "hm_remove hm n m"
    have m: "distinct (map fst ?m)" "map_of ?m = (map_of m)(n := None)"
      using hash_map_lawD [OF assms(1) less.prems] by simp_all
    have "dom (map_of ?m) = dom (map_of m) - {n}" using m(2) by auto
    moreover have "n \<in> dom (map_of m)" using n by auto
    ultimately have "card (dom (map_of ?m)) < card (dom (map_of m))"
      using finite_dom_map_of [of m] by (metis card_Diff1_less)
    then obtain m' where m': "remove_expired_loop hm compare now ?m = Some m'" "sessions_cleaned compare now ?m m'"
      using less.hyps m(1) by blast
    moreover have "sessions_cleaned compare now m m'" using m'(2) m(2) n expired by (auto simp: sessions_cleaned_def)
    ultimately show ?thesis using Some e by (subst remove_expired_loop.simps) simp
  qed
qed

section \<open>The receiver's invariant\<close>

fun serial_state_wf :: "'i SerialState \<Rightarrow> bool" where
  "serial_state_wf (InHeader u hc) \<longleftrightarrow> (\<exists>bs. collected hc bs \<and> length bs < HEADER_BYTES)"
| "serial_state_wf (InPayload u h payload capacity) \<longleftrightarrow> serial_header_wf h \<and> length payload \<le> capacity"
| "serial_state_wf _ \<longleftrightarrow> True"

definition serial_sub_wf :: "('i, 'd) SerialSubscription \<Rightarrow> bool" where
  "serial_sub_wf sub \<longleftrightarrow> distinct (map fst (su_sessions sub))"

definition serial_subs_wf :: "('i, 'd) SerialSubscription DynamicSubscriptionManager \<Rightarrow> bool" where
  "serial_subs_wf m \<longleftrightarrow> list_all (\<lambda>x. serial_sub_wf (snd x)) (message_subscriptions m) \<and>
     list_all (\<lambda>x. serial_sub_wf (snd x)) (request_subscriptions m) \<and>
     list_all (\<lambda>x. serial_sub_wf (snd x)) (response_subscriptions m)"

definition serial_rx_wf :: "('i, 'd) SerialReceiver \<Rightarrow> bool" where
  "serial_rx_wf r \<longleftrightarrow> serial_state_wf (sx_state r) \<and> serial_subs_wf (sx_subscriptions r)"

lemma vec_modify_all:
  "list_all (\<lambda>x. P (snd x)) subs \<Longrightarrow> (\<And>s. P s \<Longrightarrow> P (f s)) \<Longrightarrow> list_all (\<lambda>x. P (snd x)) (vec_modify k f subs)"
  by (induction k f subs rule: vec_modify.induct) auto

lemma modify_subscription_wf:
  "serial_subs_wf m \<Longrightarrow> (\<And>s. serial_sub_wf s \<Longrightarrow> serial_sub_wf (f s)) \<Longrightarrow> serial_subs_wf (modify_subscription h f m)"
  by (cases h) (simp_all add: serial_subs_wf_def vec_modify_all)

lemma vec_unsubscribe_all:
  assumes "list_all P subs"
  shows "list_all P (snd (vec_unsubscribe k subs))"
proof (cases "position (\<lambda>(stored, _). stored = k) subs")
  case (Some i)
  then have "i < length subs" using position_Some by blast
  then have "set_mset (mset (snd (swap_remove i subs))) \<subseteq> set_mset (mset subs)"
    using mset_swap_remove [of i subs] by (metis set_mset_add_mset_insert subset_insertI)
  then have "set (snd (swap_remove i subs)) \<subseteq> set subs" by simp
  then show ?thesis using Some assms by (auto simp: vec_unsubscribe_def list_all_iff Let_def split: prod.split)
qed (use assms in \<open>simp add: vec_unsubscribe_def\<close>)

lemma vec_subscribe_all: "list_all P subs \<Longrightarrow> P (k, s) \<Longrightarrow> list_all P (snd (vec_subscribe mem k s subs))"
  using vec_unsubscribe_all [of P subs k]
  by (auto simp: vec_subscribe_def try_push_def Let_def split: prod.split)

lemma serial_receiver_new_wf [wf_intros]:
  "serial_rx_wf (serial_receiver_new node_id)" "serial_rx_wf serial_receiver_new_anonymous"
  by (simp_all add: serial_rx_wf_def serial_receiver_new_def serial_receiver_new_anonymous_def serial_subs_wf_def
      subscription_manager_default_def)

lemma serial_subscription_new_wf: "serial_sub_wf (serial_subscription_new n timeout)"
  by (simp add: serial_sub_wf_def serial_subscription_new_def)

lemma subscribe_vec_wf:
  "list_all (\<lambda>x. serial_sub_wf (snd x)) subs \<Longrightarrow>
   list_all (\<lambda>x. serial_sub_wf (snd x)) (snd (vec_subscribe mem k (serial_subscription_new n timeout) subs))"
  "list_all (\<lambda>x. serial_sub_wf (snd x)) subs \<Longrightarrow> list_all (\<lambda>x. serial_sub_wf (snd x)) (snd (vec_unsubscribe k subs))"
  by (simp_all add: vec_subscribe_all vec_unsubscribe_all serial_subscription_new_wf)

lemma serial_subscribe_wf [wf_intros]:
  assumes "serial_rx_wf r"
  shows "serial_rx_wf (snd (serial_subscribe_message mem subject n timeout r))"
    "serial_rx_wf (snd (serial_subscribe_request mem service n timeout r))"
    "serial_rx_wf (snd (serial_subscribe_response mem service n timeout r))"
    "serial_rx_wf (serial_unsubscribe_message subject r)" "serial_rx_wf (serial_unsubscribe_request service r)"
    "serial_rx_wf (serial_unsubscribe_response service r)"
  using assms unfolding serial_rx_wf_def serial_subs_wf_def
  by (simp_all add: Let_def case_prod_beta subscribe_vec_wf serial_subscribe_message_def subscribe_message_def
      serial_subscribe_request_def subscribe_request_def serial_subscribe_response_def subscribe_response_def
      serial_unsubscribe_message_def unsubscribe_message_def serial_unsubscribe_request_def unsubscribe_request_def
      serial_unsubscribe_response_def unsubscribe_response_def)

lemma session_insert_wf:
  "hash_map_law hm \<Longrightarrow> serial_sub_wf s \<Longrightarrow> serial_sub_wf (s\<lparr>su_sessions := hm_insert hm n x (su_sessions s)\<rparr>)"
  using hash_map_lawD(1) by (fastforce simp: serial_sub_wf_def)

lemma complete_transfer_wf:
  assumes "hash_map_law hm" and "serial_rx_wf r" and "\<forall>d i. add d i \<noteq> None"
  shows "\<exists>t r'. complete_transfer hm crc32c add h p r = Some (t, r') \<and> serial_rx_wf r' \<and> sx_state r' = sx_state r
    \<and> sx_node_id r' = sx_node_id r"
proof -
  define f where "f d i = the (add d i)" for d i
  have "add d i = Some (f d i)" for d i using assms(3) by (simp add: f_def)
  then show ?thesis
    using assms(2)
    by (auto simp: complete_transfer_def Let_def serial_rx_wf_def session_insert_wf [OF assms(1)]
        intro!: modify_subscription_wf split: option.split)
qed

lemma header_complete_wf:
  assumes "serial_subs_wf (sx_subscriptions r)"
  shows "\<exists>x r'. header_complete crc32c alloc now u h r = (x, r') \<and> serial_rx_wf r'"
  using assms into_header_wf [of crc32c now h]
  by (auto simp: header_complete_def serial_rx_wf_def split: sum.split option.split)

text \<open>No byte makes the receiver panic, if adding a timeout to an instant does not.\<close>

lemma handle_byte_wf:
  assumes "hash_map_law hm" and "serial_rx_wf r" and "\<forall>d i. add d i \<noteq> None"
  shows "\<exists>x r'. handle_byte hm crc32c add alloc now b r = Some (x, r') \<and> serial_rx_wf r'"
proof (cases "sx_state r")
  case (InHeader u hc)
  then obtain bs where bs: "collected hc bs" "length bs < HEADER_BYTES" using assms(2) by (auto simp: serial_rx_wf_def)
  have subs: "serial_subs_wf (sx_subscriptions r)" using assms(2) by (simp add: serial_rx_wf_def)
  obtain o' u' where acc: "unescaper_accept b u = (o', u')" by fastforce
  show ?thesis
  proof (cases "\<exists>c. o' = Inr (Some c)")
    case True
    then obtain c where c: "o' = Inr (Some c)" by blast
    obtain hc' where hc': "header_push c hc = Some hc'" "collected hc' (bs @ [c])" using collected_push [OF bs] .
    show ?thesis
    proof (cases "length (bs @ [c]) = HEADER_BYTES")
      case True
      then have "handle_byte hm crc32c add alloc now b r = Some (header_complete crc32c alloc now u' (header_read_from (bs @ [c])) r)"
        using InHeader acc c hc' by (simp add: handle_byte_def collected_done collected_header)
      then show ?thesis using header_complete_wf [OF subs] by (metis surj_pair)
    next
      case False
      then show ?thesis using InHeader acc c hc' subs bs(2)
        by (auto simp: handle_byte_def collected_done serial_rx_wf_def intro!: exI [of _ "bs @ [c]"])
    qed
  next
    case False
    then show ?thesis using InHeader acc bs subs
      by (auto simp: handle_byte_def serial_rx_wf_def split: sum.split option.split)
  qed
next
  case (InPayload u h payload capacity)
  have idle: "serial_rx_wf (r\<lparr>sx_state := Idle\<rparr>)" "serial_rx_wf (r\<lparr>sx_state := BetweenTransfers\<rparr>)"
    using assms(2) by (simp_all add: serial_rx_wf_def)
  show ?thesis
    using InPayload assms(2) complete_transfer_wf [OF assms(1) idle(1) assms(3), where h = h and p = payload and crc32c = crc32c]
      complete_transfer_wf [OF assms(1) idle(2) assms(3), where h = h and p = payload and crc32c = crc32c]
    by (auto simp: handle_byte_def serial_rx_wf_def split: prod.split sum.split option.split)
qed (use assms(2) collected_new in \<open>auto simp: handle_byte_def serial_rx_wf_def unescaper_accept_def unescaper_new_def HEADER_BYTES_def\<close>)

text \<open>After a zero byte the receiver waits for the next frame.\<close>

lemma handle_zero:
  assumes "hash_map_law hm" and "serial_rx_wf r" and "\<forall>d i. add d i \<noteq> None"
  shows "\<exists>x r'. handle_byte hm crc32c add alloc now 0 r = Some (Inr x, r') \<and> serial_rx_wf r' \<and> sx_state r' \<in> {Idle, BetweenTransfers}"
proof (cases "sx_state r")
  case (InPayload u h payload capacity)
  have "serial_rx_wf (r\<lparr>sx_state := BetweenTransfers\<rparr>)" using assms(2) by (simp add: serial_rx_wf_def)
  then show ?thesis using InPayload complete_transfer_wf [OF assms(1) _ assms(3), of "r\<lparr>sx_state := BetweenTransfers\<rparr>" crc32c h payload]
    by (auto simp: handle_byte_def unescaper_accept_def)
qed (use assms(2) in \<open>auto simp: handle_byte_def unescaper_accept_def serial_rx_wf_def\<close>)

section \<open>Cleaning the receiver\<close>

definition sub_cleaned ::
  "('i \<Rightarrow> 'i \<Rightarrow> ordering) \<Rightarrow> 'i \<Rightarrow> ('i, 'd) SerialSubscription \<Rightarrow> ('i, 'd) SerialSubscription \<Rightarrow> bool" where
  "sub_cleaned compare now s s' \<longleftrightarrow> s' = s\<lparr>su_sessions := su_sessions s'\<rparr> \<and>
     sessions_cleaned compare now (su_sessions s) (su_sessions s')"

lemma clean_subscription_cleans:
  "hash_map_law hm \<Longrightarrow> serial_sub_wf s \<Longrightarrow>
   \<exists>s'. serial_clean_subscription hm compare now s = Some s' \<and> sub_cleaned compare now s s'"
  using remove_expired_loop_cleans [of hm "su_sessions s" compare now]
  by (auto simp: serial_sub_wf_def serial_clean_subscription_def sub_cleaned_def)

lemma each_subscription_cleans:
  "hash_map_law hm \<Longrightarrow> list_all (\<lambda>x. serial_sub_wf (snd x)) subs \<Longrightarrow>
   \<exists>subs'. each_subscription (serial_clean_subscription hm compare now) subs = Some subs' \<and>
     list_all2 (\<lambda>x y. fst x = fst y \<and> sub_cleaned compare now (snd x) (snd y)) subs subs'"
proof (induction subs)
  case (Cons x subs)
  then show ?case using clean_subscription_cleans [of hm "snd x" compare now] by (cases x) auto
qed simp

lemma vec_find_rel:
  "list_all2 (\<lambda>x y. fst x = fst y \<and> Q (snd x) (snd y)) subs subs' \<Longrightarrow> rel_option Q (vec_find k subs) (vec_find k subs')"
  by (induction rule: list_all2_induct) (auto simp: vec_find_def split: prod.splits)

lemma list_all2_cleaned_wf:
  "list_all2 (\<lambda>x y. fst x = fst y \<and> sub_cleaned compare now (snd x) (snd y)) subs subs' \<Longrightarrow>
   list_all (\<lambda>x. serial_sub_wf (snd x)) subs'"
  by (induction rule: list_all2_induct) (auto simp: sub_cleaned_def sessions_cleaned_def serial_sub_wf_def)

lemma clean_receiver:
  assumes "hash_map_law hm" and "serial_rx_wf r"
  shows "\<exists>r'. serial_clean_expired_sessions hm compare now r = Some r' \<and> serial_rx_wf r' \<and> sx_state r' = sx_state r \<and>
    sx_node_id r' = sx_node_id r \<and>
    (\<forall>h :: ('i, 't, 'p, 'n) Header. rel_option (sub_cleaned compare now)
       (find_subscription h (sx_subscriptions r)) (find_subscription h (sx_subscriptions r')))"
proof -
  note each = each_subscription_cleans [OF assms(1), where compare = compare and now = now]
  have wf: "serial_subs_wf (sx_subscriptions r)" using assms(2) by (simp add: serial_rx_wf_def)
  obtain ms where ms: "each_subscription (serial_clean_subscription hm compare now) (message_subscriptions (sx_subscriptions r)) = Some ms"
    "list_all2 (\<lambda>x y. fst x = fst y \<and> sub_cleaned compare now (snd x) (snd y)) (message_subscriptions (sx_subscriptions r)) ms"
    using each wf unfolding serial_subs_wf_def by blast
  obtain qs where qs: "each_subscription (serial_clean_subscription hm compare now) (request_subscriptions (sx_subscriptions r)) = Some qs"
    "list_all2 (\<lambda>x y. fst x = fst y \<and> sub_cleaned compare now (snd x) (snd y)) (request_subscriptions (sx_subscriptions r)) qs"
    using each wf unfolding serial_subs_wf_def by blast
  obtain ps where ps: "each_subscription (serial_clean_subscription hm compare now) (response_subscriptions (sx_subscriptions r)) = Some ps"
    "list_all2 (\<lambda>x y. fst x = fst y \<and> sub_cleaned compare now (snd x) (snd y)) (response_subscriptions (sx_subscriptions r)) ps"
    using each wf unfolding serial_subs_wf_def by blast
  let ?m = "\<lparr>message_subscriptions = ms, request_subscriptions = qs, response_subscriptions = ps\<rparr>"
  have "rel_option (sub_cleaned compare now) (find_subscription h (sx_subscriptions r)) (find_subscription h ?m)"
    for h :: "('i, 't, 'p, 'n) Header"
    by (cases h) (simp_all add: find_message_subscription_def find_request_subscription_def find_response_subscription_def
        vec_find_rel [OF ms(2)] vec_find_rel [OF qs(2)] vec_find_rel [OF ps(2)])
  moreover have "serial_subs_wf ?m"
    using list_all2_cleaned_wf [OF ms(2)] list_all2_cleaned_wf [OF qs(2)] list_all2_cleaned_wf [OF ps(2)]
    by (simp add: serial_subs_wf_def)
  ultimately show ?thesis
    using assms(2) ms(1) qs(1) ps(1) by (simp add: serial_clean_expired_sessions_def serial_rx_wf_def)
qed

end
