(* ===== verification/Ser_RoundTrip.thy ===== *)
theory Ser_RoundTrip
  imports Ser_Rx "HOL-Library.AList"
begin

text \<open>
  From the serial transmitter to the receiver: a pushed and flushed frame is received as the transfer it was
  made from, whatever came before it on the line up to a delimiter.
\<close>

section \<open>Feeding bytes\<close>

text \<open>The results of handling a sequence of bytes, without those that say that nothing happened.\<close>

fun serial_feed ::
  "'i hash_map \<Rightarrow> (u8 list \<Rightarrow> u32) \<Rightarrow> ('d \<Rightarrow> 'i \<Rightarrow> 'i option) \<Rightarrow> (nat \<Rightarrow> nat \<Rightarrow> nat option) \<Rightarrow> 'i \<Rightarrow> nat \<Rightarrow> u8 list
   \<Rightarrow> ('i, 'd) SerialReceiver
   \<Rightarrow> (('e serial_error + (u8 list, 'i) serial_transfer option) list \<times> ('i, 'd) SerialReceiver) option" where
  "serial_feed hm crc32c add alloc now n [] self = Some ([], self)"
| "serial_feed hm crc32c add alloc now n (b # bs) self = do {
     (r, self) \<leftarrow> handle_byte hm crc32c add (alloc n) now b self;
     (rs, self) \<leftarrow> serial_feed hm crc32c add alloc now (Suc n) bs self;
     Some ((if r = Inr None then [] else [r]) @ rs, self)
   }"

lemma serial_feed_append:
  "serial_feed hm crc32c add alloc now n (bs @ cs) r = do {
     (xs, r) \<leftarrow> serial_feed hm crc32c add alloc now n bs r;
     (ys, r) \<leftarrow> serial_feed hm crc32c add alloc now (n + length bs) cs r;
     Some (xs @ ys, r)
   }"
  by (induction bs arbitrary: n r) (auto split: prod.splits Option.bind_splits)

lemma serial_feed_wf:
  fixes r :: "('i, 'd) SerialReceiver"
  assumes "hash_map_law hm" and "\<forall>d i. add d i \<noteq> None"
  shows "serial_rx_wf r \<Longrightarrow> \<exists>(xs :: ('e serial_error + (u8 list, 'i) serial_transfer option) list) r'.
    serial_feed hm crc32c add alloc now n bs r = Some (xs, r') \<and> serial_rx_wf r'"
proof (induction bs arbitrary: n r)
  case (Cons b bs)
  obtain x :: "'e serial_error + (u8 list, 'i) serial_transfer option" and r'
    where r': "handle_byte hm crc32c add (alloc n) now b r = Some (x, r')" "serial_rx_wf r'"
    using handle_byte_wf [OF assms(1) Cons.prems assms(2)] by blast
  then show ?case using Cons.IH [OF r'(2), of "Suc n"] by auto
qed simp

section \<open>A frame in the receiver\<close>

text \<open>The state after the first decoded bytes \<open>outs\<close> of a frame for \<open>header\<close>.\<close>

definition frame_progress ::
  "'i serial_header \<Rightarrow> nat \<Rightarrow> u8 list \<Rightarrow> Unescaper \<Rightarrow> 'i SerialState \<Rightarrow> bool" where
  "frame_progress header psize outs u st \<longleftrightarrow>
     (if length outs < HEADER_BYTES then \<exists>hc. st = InHeader u hc \<and> collected hc outs
      else \<exists>capacity \<ge> psize + 4. st = InPayload u header (drop HEADER_BYTES outs) capacity)"

text \<open>The receiver \<open>r\<close> is ready for a frame of the bytes \<open>data\<close> with that header.\<close>

definition frame_expected ::
  "(u8 list \<Rightarrow> u32) \<Rightarrow> (nat \<Rightarrow> nat \<Rightarrow> nat option) \<Rightarrow> 'i \<Rightarrow> ('i, 'd) SerialReceiver \<Rightarrow> 'i serial_header
   \<Rightarrow> ('i, 'd) SerialSubscription \<Rightarrow> u8 list \<Rightarrow> bool" where
  "frame_expected crc32c alloc now r header sub data \<longleftrightarrow>
     into_header crc32c now (header_read_from (take HEADER_BYTES data)) = Inr header \<and>
     is_interested header r = Some sub \<and>
     (\<forall>n. \<exists>c \<ge> su_payload_size_max sub + 4. alloc n (su_payload_size_max sub + 4) = Some c) \<and>
     length data \<le> HEADER_BYTES + su_payload_size_max sub + 4"

lemma is_interested_state [simp]: "is_interested h (r\<lparr>sx_state := st\<rparr>) = is_interested h r"
  by (simp add: is_interested_def)

lemma frame_step_silent:
  assumes "frame_progress header psize outs u st" and "unescaper_accept b u = (Inr None, u')"
  shows "\<exists>st'. handle_byte hm crc32c add alloc now b (r\<lparr>sx_state := st\<rparr>) = Some (Inr None, r\<lparr>sx_state := st'\<rparr>) \<and>
    frame_progress header psize outs u' st'"
  using assms by (auto simp: frame_progress_def handle_byte_def split: if_splits)

lemma frame_step_byte:
  assumes expected: "frame_expected crc32c alloc now r header sub data"
    and progress: "frame_progress header (su_payload_size_max sub) outs u st"
    and accept: "unescaper_accept b u = (Inr (Some x), u')" and data: "data = outs @ x # rest"
  shows "\<exists>st'. handle_byte hm crc32c add (alloc n) now b (r\<lparr>sx_state := st\<rparr>) = Some (Inr None, r\<lparr>sx_state := st'\<rparr>) \<and>
    frame_progress header (su_payload_size_max sub) (outs @ [x]) u' st'"
proof (cases "length outs < HEADER_BYTES")
  case True
  then obtain hc where hc: "st = InHeader u hc" "collected hc outs" using progress by (auto simp: frame_progress_def)
  obtain hc' where hc': "header_push x hc = Some hc'" "collected hc' (outs @ [x])" using collected_push [OF hc(2) True] .
  show ?thesis
  proof (cases "length (outs @ [x]) = HEADER_BYTES")
    case full: True
    have "take HEADER_BYTES data = outs @ [x]" by (simp add: data flip: full)
    then have "into_header crc32c now (header_read_from (outs @ [x])) = Inr header" "is_interested header r = Some sub"
      and mem: "\<exists>c \<ge> su_payload_size_max sub + 4. alloc n (su_payload_size_max sub + 4) = Some c"
      using expected by (auto simp: frame_expected_def)
    then show ?thesis
      using hc(1) hc' accept full by (auto simp: handle_byte_def collected_done collected_header header_complete_def frame_progress_def)
  next
    case False
    then show ?thesis using hc(1) hc' accept True by (auto simp: handle_byte_def collected_done frame_progress_def)
  qed
next
  case False
  then obtain capacity where st: "st = InPayload u header (drop HEADER_BYTES outs) capacity" "su_payload_size_max sub + 4 \<le> capacity"
    using progress by (auto simp: frame_progress_def)
  have "length outs < HEADER_BYTES + su_payload_size_max sub + 4"
    using expected by (simp add: frame_expected_def data)
  then have "length (drop HEADER_BYTES outs) \<noteq> capacity" using st(2) False by auto
  then show ?thesis using st accept False by (auto simp: handle_byte_def frame_progress_def)
qed

lemma frame_bytes:
  fixes r :: "('i, 'd) SerialReceiver"
  assumes expected: "frame_expected crc32c alloc now r header sub data"
  shows "frame_progress header (su_payload_size_max sub) outs u st \<Longrightarrow> unescape_all u es = Some (os, u') \<Longrightarrow>
    data = outs @ os @ rest \<Longrightarrow>
    \<exists>st'. serial_feed hm crc32c add alloc now n es (r\<lparr>sx_state := st\<rparr>) =
        Some ([] :: ('e serial_error + (u8 list, 'i) serial_transfer option) list, r\<lparr>sx_state := st'\<rparr>) \<and>
      frame_progress header (su_payload_size_max sub) (outs @ os) u' st'"
proof (induction es arbitrary: n outs os u st)
  case (Cons e es)
  obtain x v where acc: "unescaper_accept e u = (Inr x, v)"
    using Cons.prems(2) by (cases "unescaper_accept e u"; cases "fst (unescaper_accept e u)") auto
  obtain os' where os': "unescape_all v es = Some (os', u')" "os = (case x of None \<Rightarrow> [] | Some x \<Rightarrow> [x]) @ os'"
    using Cons.prems(2) by (auto simp: acc bind_eq_Some_conv)
  let ?outs = "outs @ (case x of None \<Rightarrow> [] | Some x \<Rightarrow> [x])"
  have "\<exists>st'. handle_byte hm crc32c add (alloc n) now e (r\<lparr>sx_state := st\<rparr>) = Some (Inr None :: 'e serial_error + (u8 list, 'i) serial_transfer option, r\<lparr>sx_state := st'\<rparr>) \<and>
      frame_progress header (su_payload_size_max sub) ?outs v st'"
  proof (cases x)
    case None
    then show ?thesis using frame_step_silent [OF Cons.prems(1)] acc by simp
  next
    case (Some y)
    then show ?thesis using frame_step_byte [OF expected Cons.prems(1), of e y v "os' @ rest" hm add n] acc Cons.prems(3) os'(2)
      by simp
  qed
  then obtain st' where st': "handle_byte hm crc32c add (alloc n) now e (r\<lparr>sx_state := st\<rparr>) = Some (Inr None :: 'e serial_error + (u8 list, 'i) serial_transfer option, r\<lparr>sx_state := st'\<rparr>)"
    "frame_progress header (su_payload_size_max sub) ?outs v st'" by blast
  show ?case using Cons.IH [OF st'(2) os'(1), of "Suc n"] st'(1) Cons.prems(3) os'(2) by auto
qed auto

text \<open>The bytes before the closing delimiter are collected without a result.\<close>

lemma frame_collected:
  fixes r :: "('i, 'd) SerialReceiver"
  assumes state: "sx_state r \<in> {Idle, BetweenTransfers}"
    and expected: "frame_expected crc32c alloc now r header sub data" and "cobs_safe 0 data" and "HEADER_BYTES \<le> length data"
  shows "\<exists>u capacity. serial_feed hm crc32c add alloc now n (0 # cobs [] data) r =
    Some ([] :: ('e serial_error + (u8 list, 'i) serial_transfer option) list,
      r\<lparr>sx_state := InPayload u header (drop HEADER_BYTES data) capacity\<rparr>)"
proof -
  have zero: "handle_byte hm crc32c add (alloc n) now 0 r =
      Some (Inr None :: 'e serial_error + (u8 list, 'i) serial_transfer option, r\<lparr>sx_state := BetweenTransfers\<rparr>)"
    using state by (auto simp: handle_byte_def)
  obtain e es where es: "cobs [] data = e # es" using cobs_length_ge [of "[]" data] by (cases "cobs [] data") auto
  then have "e \<noteq> 0" using cobs_nonzero [of "[]" data] by auto
  then have acc: "unescaper_accept e unescaper_new = (Inr None, \<lparr>ue_bytes_to_copy = e - 1, ue_pending_zero = e < 0xff\<rparr>)"
    (is "_ = (_, ?u)") by (simp add: unescaper_accept_def unescaper_new_def)
  have first: "handle_byte hm crc32c add (alloc (Suc n)) now e (r\<lparr>sx_state := BetweenTransfers\<rparr>) =
      Some (Inr None :: 'e serial_error + (u8 list, 'i) serial_transfer option, r\<lparr>sx_state := InHeader ?u header_collector_new\<rparr>)"
    using \<open>e \<noteq> 0\<close> acc by (simp add: handle_byte_def)
  obtain u' where u': "unescape_all ?u es = Some (data, u')"
    using unescape_cobs_new [of data] assms(3) by (auto simp: es acc cobs_recovered_safe [symmetric] bind_eq_Some_conv)
  have "frame_progress header (su_payload_size_max sub) [] ?u (InHeader ?u header_collector_new)"
    using collected_new by (simp add: frame_progress_def HEADER_BYTES_def)
  then obtain st' where "serial_feed hm crc32c add alloc now (Suc (Suc n)) es (r\<lparr>sx_state := InHeader ?u header_collector_new\<rparr>) =
      Some ([] :: ('e serial_error + (u8 list, 'i) serial_transfer option) list, r\<lparr>sx_state := st'\<rparr>)"
    "frame_progress header (su_payload_size_max sub) data u' st'"
    using frame_bytes [OF expected _ u', of "[]" _ "[]" hm add "Suc (Suc n)"] by auto
  moreover from this(2) obtain capacity where "st' = InPayload u' header (drop HEADER_BYTES data) capacity"
    using assms(4) by (auto simp: frame_progress_def)
  ultimately show ?thesis using zero first by (auto simp: es)
qed

lemma find_subscription_mut_state [simp]:
  "serial_find_subscription_mut h (r\<lparr>sx_state := st\<rparr>) = serial_find_subscription_mut h r"
  by (cases h) simp_all

text \<open>The closing delimiter delivers the transfer.\<close>

lemma frame_completed:
  assumes "serial_find_subscription_mut header r = Some sub" and "add (su_timeout sub) (header_timestamp header) \<noteq> None"
    and "sx_state r = InPayload u header (payload @ le_bytes 4 (crc32c payload)) capacity"
  shows "\<exists>r'. handle_byte hm crc32c add alloc now 0 r = Some (Inr (Some \<lparr>tr_header = header, tr_payload = payload\<rparr>), r') \<and>
    sx_state r' = BetweenTransfers \<and> sx_node_id r' = sx_node_id r"
  using assms by (auto simp: handle_byte_def unescaper_accept_def complete_transfer_def Let_def of_le_bytes_le_bytes
      make_payload_crc_def split: option.split)

section \<open>The wire\<close>

text \<open>A lossless line: the driver of the sender appends to it, the driver of the receiver takes from its front.\<close>

definition wire_send :: "u8 \<Rightarrow> u8 list \<Rightarrow> ('e nb_error + unit) \<times> u8 list" where
  "wire_send byte wire = (Inr (), wire @ [byte])"

fun wire_receive :: "u8 list \<Rightarrow> ('e nb_error + u8) \<times> u8 list" where
  "wire_receive [] = (Inl WouldBlock, [])"
| "wire_receive (byte # wire) = (Inr byte, wire)"

lemma wire_send_all: "send_until_error wire_send bs wire = (Inr (), [], wire @ bs)"
  by (induction bs arbitrary: wire) (simp_all add: wire_send_def)

lemma receive_loop_silent:
  fixes r :: "('i, 'd) SerialReceiver"
  shows "serial_feed hm crc32c add alloc now n bs r = Some ([] :: ('e serial_error + (u8 list, 'i) serial_transfer option) list, r') \<Longrightarrow>
   (serial_receive_loop wire_receive hm crc32c add alloc now n r (bs @ cs) ::
     (('e serial_error + (u8 list, 'i) serial_transfer option) \<times> ('i, 'd) SerialReceiver \<times> u8 list) option) =
   serial_receive_loop wire_receive hm crc32c add alloc now (n + length bs) r' cs"
proof (induction bs arbitrary: n r)
  case (Cons b bs)
  then obtain r1 where "handle_byte hm crc32c add (alloc n) now b r =
      Some (Inr None :: 'e serial_error + (u8 list, 'i) serial_transfer option, r1)"
    "serial_feed hm crc32c add alloc now (Suc n) bs r1 = Some ([] :: ('e serial_error + (u8 list, 'i) serial_transfer option) list, r')"
    by (auto simp: bind_eq_Some_conv split: if_splits)
  with Cons.IH [of "Suc n" r1] show ?case by (subst serial_receive_loop.simps) simp
qed simp

section \<open>Delivery\<close>

fun serial_addressed :: "'i serial_header \<Rightarrow> ('i, 'd) SerialReceiver \<Rightarrow> bool" where
  "serial_addressed (Message h) r \<longleftrightarrow> True"
| "serial_addressed (Request h) r \<longleftrightarrow> sx_node_id r = Some (sh_destination h)"
| "serial_addressed (Response h) r \<longleftrightarrow> sx_node_id r = Some (sh_destination h)"

text \<open>The conditions under which a receiver should deliver a transfer with subscription \<open>sub\<close>.\<close>

definition deliverable ::
  "(u8 list \<Rightarrow> u32) \<Rightarrow> (nat \<Rightarrow> nat \<Rightarrow> nat option) \<Rightarrow> 'i \<Rightarrow> ('i, 'd) SerialReceiver \<Rightarrow> (u8 list, 'i) serial_transfer
   \<Rightarrow> ('i, 'd) SerialSubscription \<Rightarrow> bool" where
  "deliverable crc32c alloc now r t sub \<longleftrightarrow>
     serial_header_wf (tr_header t) \<and> serial_addressed (tr_header t) r \<and>
     is_interested (set_timestamp now (tr_header t)) r = Some sub \<and>
     length (tr_payload t) \<le> su_payload_size_max sub \<and>
     (\<forall>n. \<exists>c \<ge> su_payload_size_max sub + 4. alloc n (su_payload_size_max sub + 4) = Some c) \<and>
     cobs_safe 0 (serial_frame_data crc32c t)"

lemma interested_cleaned:
  assumes "is_interested h r = Some sub"
    and "rel_option (sub_cleaned compare now) (find_subscription h (sx_subscriptions r)) (find_subscription h (sx_subscriptions r'))"
  shows "\<exists>sub'. is_interested h r' = Some sub' \<and> sub_cleaned compare now sub sub'"
proof -
  have "find_subscription h (sx_subscriptions r) = Some sub"
    using assms(1) by (auto simp: is_interested_def bind_eq_Some_conv split: option.splits if_splits)
  then obtain sub' where sub': "find_subscription h (sx_subscriptions r') = Some sub'" "sub_cleaned compare now sub sub'"
    using assms(2) by (auto simp: option_rel_Some1)
  then have "map_of (su_sessions sub') n = Some s \<Longrightarrow> map_of (su_sessions sub) n = Some s" for n s
    by (auto simp: sub_cleaned_def sessions_cleaned_def split: option.splits if_splits)
  then have "is_interested h r' = Some sub'"
    using assms(1) sub'(1) by (fastforce simp: is_interested_def bind_eq_Some_conv split: option.splits if_splits)
  with sub'(2) show ?thesis by blast
qed

lemma addressed_finds:
  "serial_addressed h r \<Longrightarrow> is_interested (set_timestamp now h) r = Some sub \<Longrightarrow>
   serial_find_subscription_mut (set_timestamp now h) r = Some sub"
  by (cases h) (auto simp: is_interested_def bind_eq_Some_conv split: option.splits if_splits)

lemma deliverable_expected:
  assumes "deliverable crc32c alloc now r t sub"
  shows "frame_expected crc32c alloc now r (set_timestamp now (tr_header t)) sub (serial_frame_data crc32c t)"
proof -
  have "take HEADER_BYTES (serial_frame_data crc32c t) = header_as_bytes (serial_header_from crc32c (tr_header t))"
    by (simp add: serial_frame_data_def)
  then show ?thesis using assms
    by (simp add: deliverable_def frame_expected_def header_read_as_bytes serial_header_parses length_serial_frame_data HEADER_BYTES_def)
qed

lemma frame_received:
  fixes r :: "('i, 'd) SerialReceiver"
  assumes "sx_state r \<in> {Idle, BetweenTransfers}" and deliverable: "deliverable crc32c alloc now r t sub"
    and "add (su_timeout sub) now \<noteq> None"
  shows "\<exists>r'. (serial_receive_loop wire_receive hm crc32c add alloc now n r (serial_frame crc32c t @ rest) ::
      (('e serial_error + (u8 list, 'i) serial_transfer option) \<times> ('i, 'd) SerialReceiver \<times> u8 list) option) =
    Some (Inr (Some \<lparr>tr_header = set_timestamp now (tr_header t), tr_payload = tr_payload t\<rparr>), r', rest) \<and>
    sx_state r' = BetweenTransfers"
proof -
  let ?data = "serial_frame_data crc32c t" and ?h = "set_timestamp now (tr_header t)"
  have "cobs_safe 0 ?data" "HEADER_BYTES \<le> length ?data"
    using deliverable by (simp_all add: deliverable_def length_serial_frame_data HEADER_BYTES_def)
  then obtain u capacity where fed: "serial_feed hm crc32c add alloc now n (0 # cobs [] ?data) r =
      Some ([] :: ('e serial_error + (u8 list, 'i) serial_transfer option) list,
        r\<lparr>sx_state := InPayload u ?h (drop HEADER_BYTES ?data) capacity\<rparr>)" (is "_ = Some (_, ?r)")
    using frame_collected [OF assms(1) deliverable_expected [OF deliverable]] by blast
  have "drop HEADER_BYTES ?data = tr_payload t @ le_bytes 4 (crc32c (tr_payload t))"
    by (simp add: serial_frame_data_def)
  moreover have "serial_find_subscription_mut ?h ?r = Some sub"
    using deliverable addressed_finds by (auto simp: deliverable_def)
  ultimately obtain r' where "handle_byte hm crc32c add (alloc (n + length (0 # cobs [] ?data))) now 0 ?r =
      Some (Inr (Some \<lparr>tr_header = ?h, tr_payload = tr_payload t\<rparr>) :: 'e serial_error + (u8 list, 'i) serial_transfer option, r')"
    "sx_state r' = BetweenTransfers"
    using frame_completed [of ?h ?r sub add u "tr_payload t" crc32c capacity] assms(3) by fastforce
  then show ?thesis
    using receive_loop_silent [OF fed, of "0 # rest"]
    by (simp add: serial_frame_def) (subst serial_receive_loop.simps, simp)
qed

lemma serial_receive_frame:
  fixes r :: "('i, 'd) SerialReceiver"
  assumes "hash_map_law hm" and "serial_rx_wf r" and "sx_state r \<in> {Idle, BetweenTransfers}"
    and "deliverable crc32c alloc now r t sub" and "add (su_timeout sub) now \<noteq> None"
  shows "\<exists>r'. (serial_receive wire_receive hm crc32c add compare alloc now r (serial_frame crc32c t @ rest) ::
      (('e serial_error + (u8 list, 'i) serial_transfer option) \<times> ('i, 'd) SerialReceiver \<times> u8 list) option) =
    Some (Inr (Some \<lparr>tr_header = set_timestamp now (tr_header t), tr_payload = tr_payload t\<rparr>), r', rest) \<and>
    sx_state r' = BetweenTransfers"
proof -
  obtain r1 where r1: "serial_clean_expired_sessions hm compare now r = Some r1" "sx_state r1 = sx_state r" "sx_node_id r1 = sx_node_id r"
    "\<forall>h :: 'i serial_header. rel_option (sub_cleaned compare now) (find_subscription h (sx_subscriptions r)) (find_subscription h (sx_subscriptions r1))"
    using clean_receiver [OF assms(1,2)] by blast
  obtain sub' where sub': "is_interested (set_timestamp now (tr_header t)) r1 = Some sub'" "sub_cleaned compare now sub sub'"
    using interested_cleaned [OF _ r1(4) [rule_format], of "set_timestamp now (tr_header t)" sub] assms(4)
    by (auto simp: deliverable_def)
  then have same: "su_timeout sub' = su_timeout sub" "su_payload_size_max sub' = su_payload_size_max sub"
    unfolding sub_cleaned_def by (metis SerialSubscription.select_convs(1,2) SerialSubscription.surjective SerialSubscription.update_convs(3))+
  have "serial_addressed (tr_header t) r1"
    using assms(4) r1(3) by (cases "tr_header t") (simp_all add: deliverable_def)
  then have "deliverable crc32c alloc now r1 t sub'"
    using assms(4) sub'(1) same by (simp add: deliverable_def)
  then show ?thesis using frame_received [of r1 crc32c alloc now t sub' add] assms(3,5) r1(1,2) same
    by (simp add: serial_receive_def)
qed

lemma serial_push_flush:
  assumes "byte_deque_law C dq" and "serial_frame_size t \<le> C"
  shows "serial_push dq crc32c True t serial_transmitter_new = Some (Inr (), SerialTransmitter (serial_frame crc32c t))"
    and "serial_flush dq wire_send (SerialTransmitter (serial_frame crc32c t)) wire =
      Some (Inr (), serial_transmitter_new, wire @ serial_frame crc32c t)"
proof -
  show "serial_push dq crc32c True t serial_transmitter_new = Some (Inr (), SerialTransmitter (serial_frame crc32c t))"
    using serial_push_frame [OF assms(1), of serial_transmitter_new crc32c True t] assms(2)
    by (simp add: serial_transmitter_new_def)
  show "serial_flush dq wire_send (SerialTransmitter (serial_frame crc32c t)) wire =
      Some (Inr (), serial_transmitter_new, wire @ serial_frame crc32c t)"
    using serial_frame_fits [of crc32c t] assms(2)
    by (simp add: serial_flush_def flush_queue_sends [OF assms(1)] wire_send_all serial_transmitter_new_def)
qed

text \<open>Nonzero bytes do not end the wait for a delimiter.\<close>

lemma sx_state_same: "sx_state r = st \<Longrightarrow> r\<lparr>sx_state := st\<rparr> = r"
  by (cases r) simp

lemma serial_feed_idle:
  "sx_state r = Idle \<Longrightarrow> 0 \<notin> set bs \<Longrightarrow> serial_feed hm crc32c add alloc now n bs r = Some ([], r)"
  by (induction bs arbitrary: n) (simp_all add: handle_byte_def sx_state_same)

section \<open>Concrete instances\<close>

definition list_byte_deque :: "nat \<Rightarrow> byte_deque" where
  "list_byte_deque C = \<lparr>bd_capacity = (\<lambda>_. C), bd_len = length,
     bd_push_back = (\<lambda>b q. if length q < C then Some (q @ [b]) else None),
     bd_push_front = (\<lambda>b q. if length q < C then Some (b # q) else None),
     bd_pop_front = (\<lambda>q. case q of [] \<Rightarrow> None | b # q \<Rightarrow> Some (b, q))\<rparr>"

lemma list_byte_deque_law [simp]: "byte_deque_law C (list_byte_deque C)"
  by (simp add: byte_deque_law_def list_byte_deque_def)

definition list_hash_map :: "'i hash_map" where
  "list_hash_map = \<lparr>hm_insert = AList.update, hm_remove = AList.delete\<rparr>"

lemma list_hash_map_law [simp]: "hash_map_law list_hash_map"
  by (simp add: hash_map_law_def list_hash_map_def distinct_update distinct_delete update_conv' delete_conv')

definition example_serial_rx :: "(nat, nat) SerialReceiver" where
  "example_serial_rx = snd (serial_subscribe_message True (SubjectId 7509) 8 100 (serial_receiver_new (SerialNodeId 3)) ::
     (unit serial_error + unit) \<times> (nat, nat) SerialReceiver)"

definition example_serial_transfer :: "(u8 list, nat) serial_transfer" where
  "example_serial_transfer = \<lparr>tr_header = Message \<lparr>mh_timestamp = 0, mh_transfer_id = SerialTransferId 9,
     mh_priority = Nominal, mh_subject = SubjectId 7509, mh_source = Some (SerialNodeId 21)\<rparr>, tr_payload = [1, 2]\<rparr>"

lemma example_serial_rx_simps:
  "serial_rx_wf example_serial_rx" "sx_state example_serial_rx = Idle"
  "sx_subscriptions example_serial_rx = \<lparr>message_subscriptions = [(SubjectId 7509, serial_subscription_new 8 100)],
     request_subscriptions = [], response_subscriptions = []\<rparr>"
proof -
  show "serial_rx_wf example_serial_rx"
    unfolding example_serial_rx_def by (intro wf_intros)
  show "sx_state example_serial_rx = Idle"
    "sx_subscriptions example_serial_rx = \<lparr>message_subscriptions = [(SubjectId 7509, serial_subscription_new 8 100)],
       request_subscriptions = [], response_subscriptions = []\<rparr>"
    by (simp_all add: example_serial_rx_def serial_subscribe_message_def subscribe_message_def vec_subscribe_def
        vec_unsubscribe_def try_push_def serial_receiver_new_def subscription_manager_default_def)
qed

lemma example_deliverable:
  "deliverable (\<lambda>_. 7) (\<lambda>_. Some) 5 example_serial_rx example_serial_transfer (serial_subscription_new 8 100)"
proof -
  have "cobs_safe 0 (serial_frame_data (\<lambda>_. 7) example_serial_transfer)" by code_simp
  then show ?thesis
    by (auto simp: deliverable_def example_serial_transfer_def is_interested_def example_serial_rx_simps
        find_message_subscription_def vec_find_def serial_subscription_new_def subject_wf_def VALID_SUBJECT_IDS_end_def
        serial_node_wf_def SERIAL_MAX_NODE_ID_def)
qed

lemma deliverable_state [simp]: "deliverable crc32c alloc now (r\<lparr>sx_state := st\<rparr>) t sub = deliverable crc32c alloc now r t sub"
  by (cases "tr_header t") (simp_all add: deliverable_def)

section \<open>Properties\<close>

text \<open>
  C7: A transfer pushed to an idle transmitter whose queue can hold its frame, flushed onto a lossless line and
  received at the other end arrives as the same transfer, with the time of reception: the header, the
  payload and both checksums survive framing and byte stuffing, and the receiver is ready for the next frame. The
  receiver must be subscribed, addressed, have memory and not have seen a transfer
  with this or a greater identifier from the source; the frame must not have the pattern the byte stuffing loses.
\<close>

theorem serial_transfer_delivered:
  assumes "byte_deque_law C dq" and "hash_map_law hm" and "serial_frame_size t \<le> C"
    and "serial_rx_wf r" and "sx_state r \<in> {Idle, BetweenTransfers}"
    and "deliverable crc32c alloc now r t sub" and "add (su_timeout sub) now \<noteq> None"
  shows "\<exists>tx wire r'.
    serial_push dq crc32c True t serial_transmitter_new = Some (Inr (), tx) \<and>
    serial_flush dq wire_send tx [] = Some (Inr (), serial_transmitter_new, wire) \<and>
    serial_receive wire_receive hm crc32c add compare alloc now r wire =
      Some (Inr (Some \<lparr>tr_header = set_timestamp now (tr_header t), tr_payload = tr_payload t\<rparr>), r', []) \<and>
    sx_state r' = BetweenTransfers"
  using serial_receive_frame [where add = add, OF assms(2,4,5,6,7), of compare "[]"]
  by (simp add: serial_push_flush [OF assms(1,3)])

theorem serial_transfer_delivered_witness:
  "\<exists>tx wire r'.
    serial_push (list_byte_deque 64) (\<lambda>_. 7) True example_serial_transfer serial_transmitter_new = Some (Inr (), tx) \<and>
    serial_flush (list_byte_deque 64) wire_send tx [] = Some (Inr (), serial_transmitter_new, wire) \<and>
    serial_receive wire_receive list_hash_map (\<lambda>_. 7) (\<lambda>d i. Some (d + i)) (\<lambda>_ _. Greater) (\<lambda>_. Some) 5 example_serial_rx wire =
      Some (Inr (Some \<lparr>tr_header = set_timestamp 5 (tr_header example_serial_transfer), tr_payload = [1, 2]\<rparr>), r', []) \<and>
    sx_state r' = BetweenTransfers"
  using serial_transfer_delivered [OF list_byte_deque_law list_hash_map_law _ example_serial_rx_simps(1) _ example_deliverable,
      of 64 "\<lambda>d i. Some (d + i)" "\<lambda>_ _. Greater"]
  by (simp add: example_serial_rx_simps serial_frame_size_def escaped_size_def example_serial_transfer_def)

text \<open>
  C8: The receiver never stops receiving: from any state and after any bytes it has not panicked, if adding a
  timeout to an instant does not; the next zero byte leaves it waiting for a frame, and the frame that
  follows is then delivered if its transfer is deliverable at that point.
\<close>

theorem serial_resynchronises:
  fixes r :: "('i, 'd) SerialReceiver"
  assumes "hash_map_law hm" and "\<forall>d i. add d i \<noteq> None" and "serial_rx_wf r"
  shows "\<exists>(xs :: ('e serial_error + (u8 list, 'i) serial_transfer option) list) r1.
    serial_feed hm crc32c add alloc now n (noise @ [0]) r = Some (xs, r1) \<and> serial_rx_wf r1 \<and>
    (\<forall>now t sub rest. deliverable crc32c alloc now r1 t sub \<longrightarrow>
      (\<exists>r2. serial_receive wire_receive hm crc32c add compare alloc now r1 (serial_frame crc32c t @ rest) =
        Some (Inr (Some \<lparr>tr_header = set_timestamp now (tr_header t), tr_payload = tr_payload t\<rparr>) ::
          'e serial_error + (u8 list, 'i) serial_transfer option, r2, rest)))"
proof -
  obtain xs :: "('e serial_error + (u8 list, 'i) serial_transfer option) list" and r0
    where r0: "serial_feed hm crc32c add alloc now n noise r = Some (xs, r0)" "serial_rx_wf r0"
    using serial_feed_wf [OF assms(1,2,3)] by blast
  obtain x r1 where r1: "handle_byte hm crc32c add (alloc (n + length noise)) now 0 r0 =
      Some (Inr x :: 'e serial_error + (u8 list, 'i) serial_transfer option, r1)" "serial_rx_wf r1" "sx_state r1 \<in> {Idle, BetweenTransfers}"
    using handle_zero [OF assms(1) r0(2) assms(2)] by blast
  have "\<exists>ys. serial_feed hm crc32c add alloc now n (noise @ [0]) r =
      Some (ys :: ('e serial_error + (u8 list, 'i) serial_transfer option) list, r1)"
    using r0(1) r1(1) by (simp add: serial_feed_append)
  moreover have "\<exists>r2. serial_receive wire_receive hm crc32c add compare alloc now r1 (serial_frame crc32c t @ rest) =
        Some (Inr (Some \<lparr>tr_header = set_timestamp now (tr_header t), tr_payload = tr_payload t\<rparr>) ::
          'e serial_error + (u8 list, 'i) serial_transfer option, r2, rest)"
    if "deliverable crc32c alloc now r1 t sub" for now t sub rest
    using serial_receive_frame [OF assms(1) r1(2,3) that, of add] assms(2) by blast
  ultimately show ?thesis using r1(2) by blast
qed

theorem serial_resynchronises_witness:
  "\<exists>r1. serial_feed list_hash_map (\<lambda>_. 7) (\<lambda>d i. Some (d + i)) (\<lambda>_. Some) 4 0 [3, 5, 0] example_serial_rx =
      Some ([] :: (unit serial_error + (u8 list, nat) serial_transfer option) list, r1) \<and>
    (\<exists>r2. serial_receive wire_receive list_hash_map (\<lambda>_. 7) (\<lambda>d i. Some (d + i)) (\<lambda>_ _. Greater) (\<lambda>_. Some) 5 r1
        (serial_frame (\<lambda>_. 7) example_serial_transfer @ [0]) =
      Some (Inr (Some \<lparr>tr_header = set_timestamp 5 (tr_header example_serial_transfer), tr_payload = [1, 2]\<rparr>) ::
        unit serial_error + (u8 list, nat) serial_transfer option, r2, [0]))"
proof -
  let ?r1 = "example_serial_rx\<lparr>sx_state := BetweenTransfers\<rparr>"
  have fed: "serial_feed list_hash_map (\<lambda>_. 7) (\<lambda>d i. Some (d + i)) (\<lambda>_. Some) 4 0 ([3, 5] @ [0]) example_serial_rx =
      Some ([] :: (unit serial_error + (u8 list, nat) serial_transfer option) list, ?r1)"
    by (simp add: handle_byte_def example_serial_rx_simps)
  have "deliverable (\<lambda>_. 7) (\<lambda>_. Some) 5 ?r1 example_serial_transfer (serial_subscription_new 8 100)"
    using example_deliverable by simp
  then have "\<exists>r2. serial_receive wire_receive list_hash_map (\<lambda>_. 7) (\<lambda>d i. Some (d + i)) (\<lambda>_ _. Greater) (\<lambda>_. Some) 5 ?r1
        (serial_frame (\<lambda>_. 7) example_serial_transfer @ [0]) =
      Some (Inr (Some \<lparr>tr_header = set_timestamp 5 (tr_header example_serial_transfer), tr_payload = tr_payload example_serial_transfer\<rparr>) ::
        unit serial_error + (u8 list, nat) serial_transfer option, r2, [0])"
    using serial_resynchronises [where 'e = unit, OF list_hash_map_law _ example_serial_rx_simps(1), of "\<lambda>d i. Some (d + i)" "\<lambda>_. 7" "\<lambda>_. Some" 4 0
        "[3, 5]" "\<lambda>_ _. Greater"] fed
    by (auto simp del: serial_feed.simps deliverable_state)
  then show ?thesis using fed by (simp add: example_serial_transfer_def del: serial_feed.simps)
qed

text \<open>
  C32: A delimiter that arrives inside a header only ends that header: it is not taken as the start of
  the next frame. After a frame cut off within its header, the whole frame that follows is lost, although its own delimiters
  are complete.
\<close>

theorem cut_header_loses_next_frame:
  assumes "sx_state r = InHeader u hc"
  shows "serial_feed hm crc32c add alloc now n (serial_frame crc32c t) r = Some ([], r\<lparr>sx_state := BetweenTransfers\<rparr>)"
  using assms cobs_nonzero [of "[]" "serial_frame_data crc32c t"]
  by (simp add: serial_frame_def serial_feed_append handle_byte_def unescaper_accept_def serial_feed_idle)

theorem cut_header_loses_next_frame_witness:
  "serial_feed list_hash_map (\<lambda>_. 7) (\<lambda>d i. Some (d + i)) (\<lambda>_. Some) 4 0 (serial_frame (\<lambda>_. 7) example_serial_transfer)
     (example_serial_rx\<lparr>sx_state := InHeader unescaper_new header_collector_new\<rparr>) =
   Some ([], example_serial_rx\<lparr>sx_state := BetweenTransfers\<rparr>)"
  by (simp add: cut_header_loses_next_frame [of _ unescaper_new header_collector_new])

end
