(* ===== verification/Node_Core.thy ===== *)
theory Node_Core
  imports Core_Subscription Data_Register
begin

text \<open>
  Nodes (canadensis: \<^verbatim>\<open>serialize.rs\<close>, \<^verbatim>\<open>publisher.rs\<close>, \<^verbatim>\<open>requester.rs\<close>, \<^verbatim>\<open>anonymous.rs\<close>, \<^verbatim>\<open>node/core.rs\<close> and the traits of \<^verbatim>\<open>lib.rs\<close>)
  over any transport (canadensis\_core: \<^verbatim>\<open>transport.rs\<close>).

  The traits \<^verbatim>\<open>Transmitter\<close>, \<^verbatim>\<open>Receiver\<close> and \<^verbatim>\<open>TransferHandler\<close> are records of operations; all operations of a node
  take them, with the clock, the instant arithmetic and the transfer identifiers, in one record \<open>env\<close>. Type
  parameters: states of transmitter, receiver, driver and clock \<open>'tx 'rx 'dr 'c\<close>, instants and durations \<open>'i 'd\<close>, the
  transport's transfer identifiers, priorities and node identifiers \<open>'t 'p 'n\<close>, errors of transmitter and receiver \<open>'e 'f\<close>.

  \<^verbatim>\<open>FnvIndexMap\<close> of the \<^verbatim>\<open>heapless\<close> crate is represented by the list of its entries, with the law
  \<open>index_map_law\<close>. A map is read by \<^const>\<open>map_of\<close> and an entry is changed through a
  mutable reference by \<^const>\<open>vec_modify\<close>.
\<close>

section \<open>Transport traits\<close>

record ('tx, 'dr, 'c, 'i, 't, 'p, 'n, 'e) transmitter_ops =
  tm_push :: "(u8 list, 'i, 't, 'p, 'n) Transfer \<Rightarrow> 'tx \<Rightarrow> 'c \<Rightarrow> 'dr \<Rightarrow> (('e nb_error + unit) \<times> 'tx \<times> 'c \<times> 'dr) option"
  tm_flush :: "'tx \<Rightarrow> 'c \<Rightarrow> 'dr \<Rightarrow> (('e nb_error + unit) \<times> 'tx \<times> 'c \<times> 'dr) option"
  tm_mtu :: "'tx \<Rightarrow> nat"

record ('rx, 'dr, 'i, 'd, 't, 'p, 'n, 'f) receiver_ops =
  rv_receive :: "'i \<Rightarrow> 'rx \<Rightarrow> 'dr \<Rightarrow> (('f + (u8 list, 'i, 't, 'p, 'n) Transfer option) \<times> 'rx \<times> 'dr) option"
  rv_subscribe_message :: "SubjectId \<Rightarrow> nat \<Rightarrow> 'd \<Rightarrow> 'rx \<Rightarrow> 'dr \<Rightarrow> (('f + unit) \<times> 'rx \<times> 'dr) option"
  rv_unsubscribe_message :: "SubjectId \<Rightarrow> 'rx \<Rightarrow> 'dr \<Rightarrow> ('rx \<times> 'dr) option"
  rv_subscribe_request :: "ServiceId \<Rightarrow> nat \<Rightarrow> 'd \<Rightarrow> 'rx \<Rightarrow> 'dr \<Rightarrow> (('f ServiceSubscribeError + unit) \<times> 'rx \<times> 'dr) option"
  rv_unsubscribe_request :: "ServiceId \<Rightarrow> 'rx \<Rightarrow> 'dr \<Rightarrow> ('rx \<times> 'dr) option"
  rv_subscribe_response :: "ServiceId \<Rightarrow> nat \<Rightarrow> 'd \<Rightarrow> 'rx \<Rightarrow> 'dr \<Rightarrow> (('f ServiceSubscribeError + unit) \<times> 'rx \<times> 'dr) option"
  rv_unsubscribe_response :: "ServiceId \<Rightarrow> 'rx \<Rightarrow> 'dr \<Rightarrow> ('rx \<times> 'dr) option"

section \<open>Serializing a payload\<close>

text \<open>What a function uses of a value whose type implements \<^verbatim>\<open>Serialize\<close>.\<close>

record serializable =
  sz_size_bits :: nat
  sz_serialize :: writer

definition serializable_of :: "'a data_type_impl \<Rightarrow> 'a \<Rightarrow> serializable" where
  "serializable_of T v = \<lparr>sz_size_bits = size_bits T v, sz_serialize = serialize T v\<rparr>"

definition STACK_THRESHOLD :: nat where
  "STACK_THRESHOLD = 64"

text \<open>\<open>mem n\<close> tells whether a buffer of \<open>n\<close> bytes can be allocated; \<open>oom\<close> is the caller's error for out of memory. The
  closure acts on the state \<open>s\<close>.\<close>

definition do_serialize ::
  "(nat \<Rightarrow> bool) \<Rightarrow> 'e \<Rightarrow> serializable \<Rightarrow> (u8 list \<Rightarrow> 's \<Rightarrow> (('e nb_error + 'r) \<times> 's) option) \<Rightarrow> 's
   \<Rightarrow> (('e nb_error + 'r) \<times> 's) option" where
  "do_serialize mem oom payload operation s =
     (let payload_bytes = (sz_size_bits payload + 7) div 8 in
      if payload_bytes > STACK_THRESHOLD then
        (if mem payload_bytes then do {
           c \<leftarrow> sz_serialize payload (write_cursor_new (replicate payload_bytes 0));
           operation (wc_bytes c) s
         } else Some (Inl (Other oom), s))
      else do {
        c \<leftarrow> sz_serialize payload (write_cursor_new (take payload_bytes (replicate STACK_THRESHOLD 0)));
        operation (wc_bytes c) s
      })"

section \<open>Publishers\<close>

record ('d, 't, 'p, 'n) Publisher =
  pb_next_transfer_id :: 't
  pb_timeout :: 'd
  pb_priority :: 'p
  pb_source :: 'n

record ('d, 't, 'p, 'n) Requester =
  rq_this_node :: 'n
  rq_priority :: 'p
  rq_timeout :: 'd
  rq_transfer_ids :: "('n \<times> 't) list"

record ('tx, 'rx, 'dr, 'c, 'i, 'd, 't, 'p, 'n, 'e, 'f) node_env =
  ne_transmitter :: "('tx, 'dr, 'c, 'i, 't, 'p, 'n, 'e) transmitter_ops"
  ne_receiver :: "('rx, 'dr, 'i, 'd, 't, 'p, 'n, 'f) receiver_ops"
  ne_now :: "'c \<Rightarrow> 'i \<times> 'c"
  ne_add :: "'d \<Rightarrow> 'i \<Rightarrow> 'i option"
  ne_from_millis :: "u32 \<Rightarrow> 'd option"
  ne_tid_default :: 't
  ne_tid_increment :: "'t \<Rightarrow> 't"
  ne_priority_from :: "Priority \<Rightarrow> 'p"
  ne_mem :: "nat \<Rightarrow> bool"
  ne_oom :: 'e
  ne_publishers :: "(SubjectId, ('d, 't, 'p, 'n) Publisher) index_map"
  ne_requesters :: "(ServiceId, ('d, 't, 'p, 'n) Requester) index_map"
  ne_transfer_ids :: "('n, 't) index_map"

definition publisher_new ::
  "('tx, 'rx, 'dr, 'c, 'i, 'd, 't, 'p, 'n, 'e, 'f) node_env \<Rightarrow> 'n \<Rightarrow> 'd \<Rightarrow> 'p \<Rightarrow> ('d, 't, 'p, 'n) Publisher" where
  "publisher_new env node_id timeout priority =
     \<lparr>pb_next_transfer_id = ne_tid_default env, pb_timeout = timeout, pb_priority = priority, pb_source = node_id\<rparr>"

definition publisher_send_payload ::
  "('tx, 'rx, 'dr, 'c, 'i, 'd, 't, 'p, 'n, 'e, 'f) node_env \<Rightarrow> SubjectId \<Rightarrow> 'i \<Rightarrow> u8 list
   \<Rightarrow> ('d, 't, 'p, 'n) Publisher \<times> 'tx \<times> 'c \<times> 'dr
   \<Rightarrow> (('e nb_error + unit) \<times> ('d, 't, 'p, 'n) Publisher \<times> 'tx \<times> 'c \<times> 'dr) option" where
  "publisher_send_payload env subject deadline payload s =
     (let (self, transmitter, clock, driver) = s;
          transfer = \<lparr>tr_header = Message \<lparr>mh_timestamp = deadline, mh_transfer_id = pb_next_transfer_id self,
            mh_priority = pb_priority self, mh_subject = subject, mh_source = Some (pb_source self)\<rparr>, tr_payload = payload\<rparr>;
          self = self\<lparr>pb_next_transfer_id := ne_tid_increment env (pb_next_transfer_id self)\<rparr> in do {
        (r, transmitter, clock, driver) \<leftarrow> tm_push (ne_transmitter env) transfer transmitter clock driver;
        Some (r, self, transmitter, clock, driver)
      })"

definition publisher_publish ::
  "('tx, 'rx, 'dr, 'c, 'i, 'd, 't, 'p, 'n, 'e, 'f) node_env \<Rightarrow> SubjectId \<Rightarrow> serializable
   \<Rightarrow> ('d, 't, 'p, 'n) Publisher \<times> 'tx \<times> 'c \<times> 'dr
   \<Rightarrow> (('e nb_error + unit) \<times> ('d, 't, 'p, 'n) Publisher \<times> 'tx \<times> 'c \<times> 'dr) option" where
  "publisher_publish env subject payload s =
     (let (self, transmitter, clock, driver) = s; (now, clock) = ne_now env clock in do {
        deadline \<leftarrow> ne_add env (pb_timeout self) now;
        do_serialize (ne_mem env) (ne_oom env) payload (publisher_send_payload env subject deadline)
          (self, transmitter, clock, driver)
      })"

section \<open>Requesters\<close>

definition next_transfer_id ::
  "('n, 't) index_map \<Rightarrow> 't \<Rightarrow> ('t \<Rightarrow> 't) \<Rightarrow> 'n \<Rightarrow> ('n \<times> 't) list \<Rightarrow> (out_of_memory_error + 't) \<times> ('n \<times> 't) list" where
  "next_transfer_id im tid_default increment destination ids =
     (case map_of ids destination of
        Some current \<Rightarrow> (Inr current, vec_modify destination increment ids)
      | None \<Rightarrow>
          (case im_insert im destination (increment tid_default) ids of
             Some ids \<Rightarrow> (Inr tid_default, ids)
           | None \<Rightarrow> (Inl OutOfMemoryError, ids)))"

definition requester_new :: "'n \<Rightarrow> 'd \<Rightarrow> 'p \<Rightarrow> ('d, 't, 'p, 'n) Requester" where
  "requester_new this_node timeout priority =
     \<lparr>rq_this_node = this_node, rq_priority = priority, rq_timeout = timeout, rq_transfer_ids = []\<rparr>"

definition requester_send_payload ::
  "('tx, 'rx, 'dr, 'c, 'i, 'd, 't, 'p, 'n, 'e, 'f) node_env \<Rightarrow> ServiceId \<Rightarrow> 'n \<Rightarrow> 'i \<Rightarrow> u8 list
   \<Rightarrow> ('d, 't, 'p, 'n) Requester \<times> 'tx \<times> 'c \<times> 'dr
   \<Rightarrow> (('e nb_error + 't) \<times> ('d, 't, 'p, 'n) Requester \<times> 'tx \<times> 'c \<times> 'dr) option" where
  "requester_send_payload env service destination deadline payload s =
     (let (self, transmitter, clock, driver) = s;
          (id_result, ids) = next_transfer_id (ne_transfer_ids env) (ne_tid_default env) (ne_tid_increment env) destination
            (rq_transfer_ids self);
          self = self\<lparr>rq_transfer_ids := ids\<rparr> in
      case id_result of
        Inl _ \<Rightarrow> Some (Inl (Other (ne_oom env)), self, transmitter, clock, driver)
      | Inr transfer_id \<Rightarrow> do {
          let transfer = \<lparr>tr_header = Request \<lparr>sh_timestamp = deadline, sh_transfer_id = transfer_id,
            sh_priority = rq_priority self, sh_service = service, sh_source = rq_this_node self, sh_destination = destination\<rparr>,
            tr_payload = payload\<rparr>;
          (r, transmitter, clock, driver) \<leftarrow> tm_push (ne_transmitter env) transfer transmitter clock driver;
          Some (map_sum id (\<lambda>_. transfer_id) r, self, transmitter, clock, driver)
        })"

definition requester_send ::
  "('tx, 'rx, 'dr, 'c, 'i, 'd, 't, 'p, 'n, 'e, 'f) node_env \<Rightarrow> ServiceId \<Rightarrow> serializable \<Rightarrow> 'n
   \<Rightarrow> ('d, 't, 'p, 'n) Requester \<times> 'tx \<times> 'c \<times> 'dr
   \<Rightarrow> (('e nb_error + 't) \<times> ('d, 't, 'p, 'n) Requester \<times> 'tx \<times> 'c \<times> 'dr) option" where
  "requester_send env service payload destination s =
     (let (self, transmitter, clock, driver) = s; (now, clock) = ne_now env clock in do {
        deadline \<leftarrow> ne_add env (rq_timeout self) now;
        do_serialize (ne_mem env) (ne_oom env) payload (requester_send_payload env service destination deadline)
          (self, transmitter, clock, driver)
      })"

section \<open>Anonymous publishers\<close>

record ('d, 't, 'p) AnonymousPublisher =
  ap_priority :: 'p
  ap_subject :: SubjectId
  ap_next_transfer_id :: 't
  ap_timeout :: 'd

datatype 'e AnonymousPublishError = PublishLength | PublishTransport 'e

definition anonymous_publisher_new ::
  "('tx, 'rx, 'dr, 'c, 'i, 'd, 't, 'p, 'n, 'e, 'f) node_env \<Rightarrow> SubjectId \<Rightarrow> 'p \<Rightarrow> 'd \<Rightarrow> ('d, 't, 'p) AnonymousPublisher" where
  "anonymous_publisher_new env subject priority timeout =
     \<lparr>ap_priority = priority, ap_subject = subject, ap_next_transfer_id = ne_tid_default env, ap_timeout = timeout\<rparr>"

definition anonymous_send_payload ::
  "('tx, 'rx, 'dr, 'c, 'i, 'd, 't, 'p, 'n, 'e, 'f) node_env \<Rightarrow> 'i \<Rightarrow> u8 list
   \<Rightarrow> ('d, 't, 'p) AnonymousPublisher \<times> 'tx \<times> 'c \<times> 'dr
   \<Rightarrow> (('e nb_error + unit) \<times> ('d, 't, 'p) AnonymousPublisher \<times> 'tx \<times> 'c \<times> 'dr) option" where
  "anonymous_send_payload env deadline payload s =
     (let (self, transmitter, clock, driver) = s;
          transfer = \<lparr>tr_header = Message \<lparr>mh_timestamp = deadline, mh_transfer_id = ap_next_transfer_id self,
            mh_priority = ap_priority self, mh_subject = ap_subject self, mh_source = None\<rparr>, tr_payload = payload\<rparr>;
          self = self\<lparr>ap_next_transfer_id := ne_tid_increment env (ap_next_transfer_id self)\<rparr> in do {
        (r, transmitter, clock, driver) \<leftarrow> tm_push (ne_transmitter env) transfer transmitter clock driver;
        Some (r, self, transmitter, clock, driver)
      })"

definition anonymous_send ::
  "('tx, 'rx, 'dr, 'c, 'i, 'd, 't, 'p, 'n, 'e, 'f) node_env \<Rightarrow> serializable
   \<Rightarrow> ('d, 't, 'p) AnonymousPublisher \<times> 'tx \<times> 'c \<times> 'dr
   \<Rightarrow> (('e AnonymousPublishError nb_error + unit) \<times> ('d, 't, 'p) AnonymousPublisher \<times> 'tx \<times> 'c \<times> 'dr) option" where
  "anonymous_send env payload s =
     (let (self, transmitter, clock, driver) = s; payload_size_bytes = (sz_size_bits payload + 7) div 8 in
      if payload_size_bytes > tm_mtu (ne_transmitter env) transmitter then Some (Inl (Other PublishLength), s)
      else let (now, clock) = ne_now env clock in do {
        deadline \<leftarrow> ne_add env (ap_timeout self) now;
        (r, s) \<leftarrow> do_serialize (ne_mem env) (ne_oom env) payload (anonymous_send_payload env deadline)
          (self, transmitter, clock, driver);
        Some (map_sum (map_nb_error PublishTransport) id r, s)
      })"

section \<open>Transfer handlers\<close>

record ('i, 't, 'p, 'n) MessageTransfer =
  mt_header :: "('i, 't, 'p, 'n) MessageHeader"
  mt_payload :: "u8 list"

record ('i, 't, 'p, 'n) ServiceTransfer =
  st_header :: "('i, 't, 'p, 'n) ServiceHeader"
  st_payload :: "u8 list"

record ('t, 'p, 'n) ResponseToken =
  rt_service :: ServiceId
  rt_client :: 'n
  rt_transfer :: 't
  rt_priority :: 'p

text \<open>The operations of a handler with state \<open>'h\<close> on nodes \<open>'node\<close>; the result tells whether the transfer was handled.\<close>

record ('h, 'node, 'i, 't, 'p, 'n) transfer_handler =
  th_message :: "('i, 't, 'p, 'n) MessageTransfer \<Rightarrow> 'h \<Rightarrow> 'node \<Rightarrow> (bool \<times> 'h \<times> 'node) option"
  th_request :: "('t, 'p, 'n) ResponseToken \<Rightarrow> ('i, 't, 'p, 'n) ServiceTransfer \<Rightarrow> 'h \<Rightarrow> 'node \<Rightarrow> (bool \<times> 'h \<times> 'node) option"
  th_response :: "('i, 't, 'p, 'n) ServiceTransfer \<Rightarrow> 'h \<Rightarrow> 'node \<Rightarrow> (bool \<times> 'h \<times> 'node) option"

text \<open>The default implementations of the three functions.\<close>

definition default_handler :: "('h, 'node, 'i, 't, 'p, 'n) transfer_handler" where
  "default_handler = \<lparr>th_message = (\<lambda>_ h node. Some (False, h, node)), th_request = (\<lambda>_ _ h node. Some (False, h, node)),
     th_response = (\<lambda>_ h node. Some (False, h, node))\<rparr>"

definition chain_step ::
  "('h0 \<Rightarrow> 'node \<Rightarrow> (bool \<times> 'h0 \<times> 'node) option) \<Rightarrow> ('h1 \<Rightarrow> 'node \<Rightarrow> (bool \<times> 'h1 \<times> 'node) option)
   \<Rightarrow> 'h0 \<times> 'h1 \<Rightarrow> 'node \<Rightarrow> (bool \<times> ('h0 \<times> 'h1) \<times> 'node) option" where
  "chain_step f0 f1 h node = do {
     (handled, h0, node) \<leftarrow> f0 (fst h) node;
     if handled then Some (True, (h0, snd h), node)
     else do {
       (handled, h1, node) \<leftarrow> f1 (snd h) node;
       Some (handled, (h0, h1), node)
     }
   }"

text \<open>\<^verbatim>\<open>TransferHandlerChain\<close>; its state is the pair of the states.\<close>

definition handler_chain ::
  "('h0, 'node, 'i, 't, 'p, 'n) transfer_handler \<Rightarrow> ('h1, 'node, 'i, 't, 'p, 'n) transfer_handler
   \<Rightarrow> ('h0 \<times> 'h1, 'node, 'i, 't, 'p, 'n) transfer_handler" where
  "handler_chain handler0 handler1 =
     \<lparr>th_message = (\<lambda>transfer. chain_step (th_message handler0 transfer) (th_message handler1 transfer)),
      th_request = (\<lambda>token transfer. chain_step (th_request handler0 token transfer) (th_request handler1 token transfer)),
      th_response = (\<lambda>transfer. chain_step (th_response handler0 transfer) (th_response handler1 transfer))\<rparr>"

section \<open>The core node\<close>

datatype 'e StartSendError = StartMemory out_of_memory_error | StartTransport 'e | Duplicate

datatype PublishToken = PublishToken (token_subject: SubjectId)

datatype ServiceToken = ServiceToken (token_service: ServiceId)

record ('tx, 'rx, 'dr, 'c, 'd, 't, 'p, 'n) CoreNode =
  cn_clock :: 'c
  cn_transmitter :: 'tx
  cn_receiver :: 'rx
  cn_driver :: 'dr
  cn_node_id :: 'n
  cn_publishers :: "(SubjectId \<times> ('d, 't, 'p, 'n) Publisher) list"
  cn_requesters :: "(ServiceId \<times> ('d, 't, 'p, 'n) Requester) list"

definition core_new :: "'c \<Rightarrow> 'n \<Rightarrow> 'tx \<Rightarrow> 'rx \<Rightarrow> 'dr \<Rightarrow> ('tx, 'rx, 'dr, 'c, 'd, 't, 'p, 'n) CoreNode" where
  "core_new clock node_id transmitter receiver driver =
     \<lparr>cn_clock = clock, cn_transmitter = transmitter, cn_receiver = receiver, cn_driver = driver, cn_node_id = node_id,
      cn_publishers = [], cn_requesters = []\<rparr>"

fun handle_incoming_transfer ::
  "('h, ('tx, 'rx, 'dr, 'c, 'd, 't, 'p, 'n) CoreNode, 'i, 't, 'p, 'n) transfer_handler
   \<Rightarrow> (u8 list, 'i, 't, 'p, 'n) Transfer \<Rightarrow> 'h \<Rightarrow> ('tx, 'rx, 'dr, 'c, 'd, 't, 'p, 'n) CoreNode
   \<Rightarrow> ('h \<times> ('tx, 'rx, 'dr, 'c, 'd, 't, 'p, 'n) CoreNode) option" where
  "handle_incoming_transfer handler transfer h self =
     map_option snd (case tr_header transfer of
        Message message_header \<Rightarrow>
          th_message handler \<lparr>mt_header = message_header, mt_payload = tr_payload transfer\<rparr> h self
      | Request service_header \<Rightarrow>
          th_request handler \<lparr>rt_service = sh_service service_header, rt_client = sh_source service_header,
            rt_transfer = sh_transfer_id service_header, rt_priority = sh_priority service_header\<rparr>
            \<lparr>st_header = service_header, st_payload = tr_payload transfer\<rparr> h self
      | Response service_header \<Rightarrow>
          th_response handler \<lparr>st_header = service_header, st_payload = tr_payload transfer\<rparr> h self)"

definition core_receive ::
  "('tx, 'rx, 'dr, 'c, 'i, 'd, 't, 'p, 'n, 'e, 'f) node_env
   \<Rightarrow> ('h, ('tx, 'rx, 'dr, 'c, 'd, 't, 'p, 'n) CoreNode, 'i, 't, 'p, 'n) transfer_handler
   \<Rightarrow> 'h \<Rightarrow> ('tx, 'rx, 'dr, 'c, 'd, 't, 'p, 'n) CoreNode
   \<Rightarrow> (('f + unit) \<times> 'h \<times> ('tx, 'rx, 'dr, 'c, 'd, 't, 'p, 'n) CoreNode) option" where
  "core_receive env handler h self =
     (let (now, clock) = ne_now env (cn_clock self) in do {
        (r, receiver, driver) \<leftarrow> rv_receive (ne_receiver env) now (cn_receiver self) (cn_driver self);
        let self = self\<lparr>cn_clock := clock, cn_receiver := receiver, cn_driver := driver\<rparr>;
        case r of
          Inl e \<Rightarrow> Some (Inl e, h, self)
        | Inr None \<Rightarrow> Some (Inr (), h, self)
        | Inr (Some transfer) \<Rightarrow> do {
            (h, self) \<leftarrow> handle_incoming_transfer handler transfer h self;
            Some (Inr (), h, self)
          }
      })"

definition core_start_publishing ::
  "('tx, 'rx, 'dr, 'c, 'i, 'd, 't, 'p, 'n, 'e, 'f) node_env \<Rightarrow> SubjectId \<Rightarrow> 'd \<Rightarrow> 'p
   \<Rightarrow> ('tx, 'rx, 'dr, 'c, 'd, 't, 'p, 'n) CoreNode
   \<Rightarrow> ('e StartSendError + PublishToken) \<times> ('tx, 'rx, 'dr, 'c, 'd, 't, 'p, 'n) CoreNode" where
  "core_start_publishing env subject timeout priority self =
     (if map_of (cn_publishers self) subject \<noteq> None then (Inl Duplicate, self)
      else case im_insert (ne_publishers env) subject (publisher_new env (cn_node_id self) timeout priority) (cn_publishers self) of
        Some publishers \<Rightarrow> (Inr (PublishToken subject), self\<lparr>cn_publishers := publishers\<rparr>)
      | None \<Rightarrow> (Inl (StartMemory OutOfMemoryError), self))"

definition core_stop_publishing ::
  "('tx, 'rx, 'dr, 'c, 'i, 'd, 't, 'p, 'n, 'e, 'f) node_env \<Rightarrow> PublishToken
   \<Rightarrow> ('tx, 'rx, 'dr, 'c, 'd, 't, 'p, 'n) CoreNode \<Rightarrow> ('tx, 'rx, 'dr, 'c, 'd, 't, 'p, 'n) CoreNode" where
  "core_stop_publishing env token self =
     self\<lparr>cn_publishers := im_remove (ne_publishers env) (token_subject token) (cn_publishers self)\<rparr>"

text \<open>A token without a publisher is a panic.\<close>

definition core_publish ::
  "('tx, 'rx, 'dr, 'c, 'i, 'd, 't, 'p, 'n, 'e, 'f) node_env \<Rightarrow> PublishToken \<Rightarrow> serializable
   \<Rightarrow> ('tx, 'rx, 'dr, 'c, 'd, 't, 'p, 'n) CoreNode
   \<Rightarrow> (('e nb_error + unit) \<times> ('tx, 'rx, 'dr, 'c, 'd, 't, 'p, 'n) CoreNode) option" where
  "core_publish env token payload self = do {
     publisher \<leftarrow> map_of (cn_publishers self) (token_subject token);
     (r, publisher, transmitter, clock, driver) \<leftarrow> publisher_publish env (token_subject token) payload
       (publisher, cn_transmitter self, cn_clock self, cn_driver self);
     Some (r, self\<lparr>cn_publishers := vec_modify (token_subject token) (\<lambda>_. publisher) (cn_publishers self),
       cn_transmitter := transmitter, cn_clock := clock, cn_driver := driver\<rparr>)
   }"

definition core_start_sending_requests ::
  "('tx, 'rx, 'dr, 'c, 'i, 'd, 't, 'p, 'n, 'e, 'f) node_env \<Rightarrow> ServiceId \<Rightarrow> 'd \<Rightarrow> nat \<Rightarrow> 'p
   \<Rightarrow> ('tx, 'rx, 'dr, 'c, 'd, 't, 'p, 'n) CoreNode
   \<Rightarrow> (('f StartSendError + ServiceToken) \<times> ('tx, 'rx, 'dr, 'c, 'd, 't, 'p, 'n) CoreNode) option" where
  "core_start_sending_requests env service receive_timeout response_payload_size_max priority self =
     (if map_of (cn_requesters self) service \<noteq> None then Some (Inl Duplicate, self)
      else case im_insert (ne_requesters env) service (requester_new (cn_node_id self) receive_timeout priority) (cn_requesters self) of
        None \<Rightarrow> Some (Inl (StartMemory OutOfMemoryError), self)
      | Some requesters \<Rightarrow> do {
          (r, receiver, driver) \<leftarrow> rv_subscribe_response (ne_receiver env) service response_payload_size_max receive_timeout
            (cn_receiver self) (cn_driver self);
          let self = self\<lparr>cn_requesters := requesters, cn_receiver := receiver, cn_driver := driver\<rparr>;
          case r of
            Inr _ \<Rightarrow> Some (Inr (ServiceToken service), self)
          | Inl e \<Rightarrow>
              (let self = self\<lparr>cn_requesters := im_remove (ne_requesters env) service (cn_requesters self)\<rparr> in
               case e of
                 Transport e \<Rightarrow> Some (Inl (StartTransport e), self)
               | Anonymous \<Rightarrow> None)
        })"

definition core_stop_sending_requests ::
  "('tx, 'rx, 'dr, 'c, 'i, 'd, 't, 'p, 'n, 'e, 'f) node_env \<Rightarrow> ServiceToken
   \<Rightarrow> ('tx, 'rx, 'dr, 'c, 'd, 't, 'p, 'n) CoreNode \<Rightarrow> ('tx, 'rx, 'dr, 'c, 'd, 't, 'p, 'n) CoreNode" where
  "core_stop_sending_requests env token self =
     self\<lparr>cn_requesters := im_remove (ne_requesters env) (token_service token) (cn_requesters self)\<rparr>"

definition core_send_request ::
  "('tx, 'rx, 'dr, 'c, 'i, 'd, 't, 'p, 'n, 'e, 'f) node_env \<Rightarrow> ServiceToken \<Rightarrow> serializable \<Rightarrow> 'n
   \<Rightarrow> ('tx, 'rx, 'dr, 'c, 'd, 't, 'p, 'n) CoreNode
   \<Rightarrow> (('e nb_error + 't) \<times> ('tx, 'rx, 'dr, 'c, 'd, 't, 'p, 'n) CoreNode) option" where
  "core_send_request env token payload destination self = do {
     requester \<leftarrow> map_of (cn_requesters self) (token_service token);
     (r, requester, transmitter, clock, driver) \<leftarrow> requester_send env (token_service token) payload destination
       (requester, cn_transmitter self, cn_clock self, cn_driver self);
     Some (r, self\<lparr>cn_requesters := vec_modify (token_service token) (\<lambda>_. requester) (cn_requesters self),
       cn_transmitter := transmitter, cn_clock := clock, cn_driver := driver\<rparr>)
   }"

definition core_subscribe_message ::
  "('tx, 'rx, 'dr, 'c, 'i, 'd, 't, 'p, 'n, 'e, 'f) node_env \<Rightarrow> SubjectId \<Rightarrow> nat \<Rightarrow> 'd
   \<Rightarrow> ('tx, 'rx, 'dr, 'c, 'd, 't, 'p, 'n) CoreNode
   \<Rightarrow> (('f + unit) \<times> ('tx, 'rx, 'dr, 'c, 'd, 't, 'p, 'n) CoreNode) option" where
  "core_subscribe_message env subject payload_size_max timeout self = do {
     (r, receiver, driver) \<leftarrow> rv_subscribe_message (ne_receiver env) subject payload_size_max timeout (cn_receiver self) (cn_driver self);
     Some (r, self\<lparr>cn_receiver := receiver, cn_driver := driver\<rparr>)
   }"

definition core_subscribe_request ::
  "('tx, 'rx, 'dr, 'c, 'i, 'd, 't, 'p, 'n, 'e, 'f) node_env \<Rightarrow> ServiceId \<Rightarrow> nat \<Rightarrow> 'd
   \<Rightarrow> ('tx, 'rx, 'dr, 'c, 'd, 't, 'p, 'n) CoreNode
   \<Rightarrow> (('f + unit) \<times> ('tx, 'rx, 'dr, 'c, 'd, 't, 'p, 'n) CoreNode) option" where
  "core_subscribe_request env service payload_size_max timeout self = do {
     (r, receiver, driver) \<leftarrow> rv_subscribe_request (ne_receiver env) service payload_size_max timeout (cn_receiver self) (cn_driver self);
     let self = self\<lparr>cn_receiver := receiver, cn_driver := driver\<rparr>;
     case r of
       Inr _ \<Rightarrow> Some (Inr (), self)
     | Inl (Transport e) \<Rightarrow> Some (Inl e, self)
     | Inl Anonymous \<Rightarrow> None
   }"

definition send_response_payload ::
  "('tx, 'rx, 'dr, 'c, 'i, 'd, 't, 'p, 'n, 'e, 'f) node_env \<Rightarrow> ('t, 'p, 'n) ResponseToken \<Rightarrow> 'i \<Rightarrow> u8 list
   \<Rightarrow> ('tx, 'rx, 'dr, 'c, 'd, 't, 'p, 'n) CoreNode
   \<Rightarrow> (('e nb_error + unit) \<times> ('tx, 'rx, 'dr, 'c, 'd, 't, 'p, 'n) CoreNode) option" where
  "send_response_payload env token deadline payload self = do {
     let transfer_out = \<lparr>tr_header = Response \<lparr>sh_timestamp = deadline, sh_transfer_id = rt_transfer token,
       sh_priority = rt_priority token, sh_service = rt_service token, sh_source = cn_node_id self, sh_destination = rt_client token\<rparr>,
       tr_payload = payload\<rparr>;
     (r, transmitter, clock, driver) \<leftarrow> tm_push (ne_transmitter env) transfer_out (cn_transmitter self) (cn_clock self) (cn_driver self);
     Some (r, self\<lparr>cn_transmitter := transmitter, cn_clock := clock, cn_driver := driver\<rparr>)
   }"

definition core_send_response ::
  "('tx, 'rx, 'dr, 'c, 'i, 'd, 't, 'p, 'n, 'e, 'f) node_env \<Rightarrow> ('t, 'p, 'n) ResponseToken \<Rightarrow> 'd \<Rightarrow> serializable
   \<Rightarrow> ('tx, 'rx, 'dr, 'c, 'd, 't, 'p, 'n) CoreNode
   \<Rightarrow> (('e nb_error + unit) \<times> ('tx, 'rx, 'dr, 'c, 'd, 't, 'p, 'n) CoreNode) option" where
  "core_send_response env token timeout payload self =
     (let (now, clock) = ne_now env (cn_clock self); self = self\<lparr>cn_clock := clock\<rparr> in do {
        deadline \<leftarrow> ne_add env timeout now;
        do_serialize (ne_mem env) (ne_oom env) payload (send_response_payload env token deadline) self
      })"

definition core_flush ::
  "('tx, 'rx, 'dr, 'c, 'i, 'd, 't, 'p, 'n, 'e, 'f) node_env \<Rightarrow> ('tx, 'rx, 'dr, 'c, 'd, 't, 'p, 'n) CoreNode
   \<Rightarrow> (('e nb_error + unit) \<times> ('tx, 'rx, 'dr, 'c, 'd, 't, 'p, 'n) CoreNode) option" where
  "core_flush env self = do {
     (r, transmitter, clock, driver) \<leftarrow> tm_flush (ne_transmitter env) (cn_transmitter self) (cn_clock self) (cn_driver self);
     Some (r, self\<lparr>cn_transmitter := transmitter, cn_clock := clock, cn_driver := driver\<rparr>)
   }"

section \<open>Lemmas\<close>

lemma map_of_vec_modify:
  "map_of (vec_modify k f m) = (case map_of m k of None \<Rightarrow> map_of m | Some v \<Rightarrow> (map_of m)(k \<mapsto> f v))"
  by (induction k f m rule: vec_modify.induct) (auto split: option.split)

lemma keys_vec_modify [simp]: "map fst (vec_modify k f m) = map fst m"
  by (induction k f m rule: vec_modify.induct) auto

text \<open>The bytes of a value in a buffer of its own size.\<close>

definition serialized :: "'a data_type_impl \<Rightarrow> 'a \<Rightarrow> u8 list" where
  "serialized T v = (case serialize_to_bytes T v (replicate ((size_bits T v + 7) div 8) 0) of Some bytes \<Rightarrow> bytes | None \<Rightarrow> [])"

context data_type
begin

lemma serialized_roundtrip:
  assumes "valid v"
  shows "serialize_to_bytes T v (replicate ((size_bits T v + 7) div 8) 0) = Some (serialized T v)"
    and "length (serialized T v) = (size_bits T v + 7) div 8" and "deserialize_from_bytes T (serialized T v) = Some (Inr v)"
proof -
  let ?n = "(size_bits T v + 7) div 8"
  have "size_bits T v \<le> 8 * ?n" by presburger
  then obtain bytes where "serialize_to_bytes T v (replicate ?n 0) = Some bytes" "length bytes = ?n"
      "deserialize_from_bytes T bytes = Some (Inr v)"
    using bytes_roundtrip [OF assms, of "replicate ?n 0"] by auto
  then show "serialize_to_bytes T v (replicate ?n 0) = Some (serialized T v)"
    and "length (serialized T v) = ?n" and "deserialize_from_bytes T (serialized T v) = Some (Inr v)"
    by (simp_all add: serialized_def)
qed

text \<open>A valid payload is handed to the closure as bytes that deserialize to it.\<close>

lemma do_serialize_calls:
  assumes "valid v" and "mem ((size_bits T v + 7) div 8)"
  shows "do_serialize mem oom (serializable_of T v) operation s = operation (serialized T v) s"
proof -
  obtain c where "serialize T v (write_cursor_new (replicate ((size_bits T v + 7) div 8) 0)) = Some c" "wc_bytes c = serialized T v"
    using serialized_roundtrip(1) [OF assms(1)] by (auto simp: serialize_to_bytes_def bind_eq_Some_conv)
  then show ?thesis
    using assms(2) by (auto simp: do_serialize_def serializable_of_def STACK_THRESHOLD_def Let_def min_def)
qed

end

end
