(* ===== verification/Node_Basic.thy ===== *)
theory Node_Basic
  imports Node_Core
begin

text \<open>
  The nodes with application-layer functions (canadensis: \<^verbatim>\<open>node/minimal.rs\<close>, \<^verbatim>\<open>node/basic.rs\<close>, \<^verbatim>\<open>node/mod.rs\<close>): heartbeats, node
  information and the list of ports. The inner node is a \<^verbatim>\<open>CoreNode\<close>.
\<close>

type_synonym ('tx, 'rx, 'dr, 'c, 'd, 't, 'p, 'n) core_node = "('tx, 'rx, 'dr, 'c, 'd, 't, 'p, 'n) CoreNode"

section \<open>Minimal nodes\<close>

definition HEARTBEAT_SUBJECT :: SubjectId where
  "HEARTBEAT_SUBJECT = subject_from_truncating 7509"

definition PORT_LIST_SUBJECT :: SubjectId where
  "PORT_LIST_SUBJECT = subject_from_truncating 7510"

definition GET_INFO_SERVICE :: ServiceId where
  "GET_INFO_SERVICE = service_from_truncating 430"

record ('tx, 'rx, 'dr, 'c, 'd, 't, 'p, 'n) MinimalNode =
  mn_node :: "('tx, 'rx, 'dr, 'c, 'd, 't, 'p, 'n) CoreNode"
  mn_heartbeat :: Heartbeat
  mn_heartbeat_token :: PublishToken

definition minimal_new ::
  "('tx, 'rx, 'dr, 'c, 'i, 'd, 't, 'p, 'n, 'e, 'f) node_env \<Rightarrow> ('tx, 'rx, 'dr, 'c, 'd, 't, 'p, 'n) core_node
   \<Rightarrow> ('e StartSendError + ('tx, 'rx, 'dr, 'c, 'd, 't, 'p, 'n) MinimalNode) option" where
  "minimal_new env node = do {
     let heartbeat = \<lparr>hb_uptime = 0, hb_health = Health 0, hb_mode = Mode 0, hb_vendor_specific_status_code = 0\<rparr>;
     heartbeat_timeout \<leftarrow> ne_from_millis env 500;
     case core_start_publishing env HEARTBEAT_SUBJECT heartbeat_timeout (ne_priority_from env Nominal) node of
       (Inl e, _) \<Rightarrow> Some (Inl e)
     | (Inr heartbeat_token, node) \<Rightarrow>
         Some (Inr \<lparr>mn_node = node, mn_heartbeat = heartbeat, mn_heartbeat_token = heartbeat_token\<rparr>)
   }"

definition send_heartbeat ::
  "('tx, 'rx, 'dr, 'c, 'i, 'd, 't, 'p, 'n, 'e, 'f) node_env \<Rightarrow> ('tx, 'rx, 'dr, 'c, 'd, 't, 'p, 'n) MinimalNode
   \<Rightarrow> (('e nb_error + unit) \<times> ('tx, 'rx, 'dr, 'c, 'd, 't, 'p, 'n) MinimalNode) option" where
  "send_heartbeat env self = do {
     let uptime = hb_uptime (mn_heartbeat self);
     let self = self\<lparr>mn_heartbeat := (mn_heartbeat self)\<lparr>hb_uptime := (if uptime = 0xffffffff then uptime else uptime + 1)\<rparr>\<rparr>;
     (r, node) \<leftarrow> core_publish env (mn_heartbeat_token self) (serializable_of Heartbeat_impl (mn_heartbeat self)) (mn_node self);
     Some (r, self\<lparr>mn_node := node\<rparr>)
   }"

definition minimal_run_per_second_tasks ::
  "('tx, 'rx, 'dr, 'c, 'i, 'd, 't, 'p, 'n, 'e, 'f) node_env \<Rightarrow> ('tx, 'rx, 'dr, 'c, 'd, 't, 'p, 'n) MinimalNode
   \<Rightarrow> (('e nb_error + unit) \<times> ('tx, 'rx, 'dr, 'c, 'd, 't, 'p, 'n) MinimalNode) option" where
  "minimal_run_per_second_tasks env self = send_heartbeat env self"

definition minimal_set_mode ::
  "Mode \<Rightarrow> ('tx, 'rx, 'dr, 'c, 'd, 't, 'p, 'n) MinimalNode \<Rightarrow> ('tx, 'rx, 'dr, 'c, 'd, 't, 'p, 'n) MinimalNode" where
  "minimal_set_mode mode self = self\<lparr>mn_heartbeat := (mn_heartbeat self)\<lparr>hb_mode := mode\<rparr>\<rparr>"

definition minimal_set_health ::
  "Health \<Rightarrow> ('tx, 'rx, 'dr, 'c, 'd, 't, 'p, 'n) MinimalNode \<Rightarrow> ('tx, 'rx, 'dr, 'c, 'd, 't, 'p, 'n) MinimalNode" where
  "minimal_set_health health self = self\<lparr>mn_heartbeat := (mn_heartbeat self)\<lparr>hb_health := health\<rparr>\<rparr>"

definition minimal_set_status_code ::
  "u8 \<Rightarrow> ('tx, 'rx, 'dr, 'c, 'd, 't, 'p, 'n) MinimalNode \<Rightarrow> ('tx, 'rx, 'dr, 'c, 'd, 't, 'p, 'n) MinimalNode" where
  "minimal_set_status_code status self =
     self\<lparr>mn_heartbeat := (mn_heartbeat self)\<lparr>hb_vendor_specific_status_code := status\<rparr>\<rparr>"

section \<open>The list of subjects in use\<close>

definition SUBJECT_LIST_CAPACITY :: nat where
  "SUBJECT_LIST_CAPACITY = 8192"

fun set_bits :: "nat list \<Rightarrow> BitArray \<Rightarrow> BitArray option" where
  "set_bits [] msk = Some msk"
| "set_bits (i # is) msk = do { msk \<leftarrow> ba_set i True msk; set_bits is msk }"

text \<open>The mask has 1024 bytes; \<open>hv\<close> are the operations of the sparse list.\<close>

fun insert_into_list :: "SubjectID hvec_ops \<Rightarrow> SubjectIDList \<Rightarrow> SubjectId \<Rightarrow> SubjectIDList option" where
  "insert_into_list hv (SubjectIDList_Mask msk) subject = do {
     msk \<leftarrow> ba_set (unat (subject_bits subject)) True msk;
     Some (SubjectIDList_Mask msk)
   }"
| "insert_into_list hv (SubjectIDList_SparseList list) subject =
     (if \<not> list_ex (\<lambda>in_list. SubjectID_value in_list = subject_bits subject) list then
        (case hv_push hv list (SubjectID (subject_bits subject)) of
           Some list \<Rightarrow> Some (SubjectIDList_SparseList list)
         | None \<Rightarrow> do {
             msk \<leftarrow> bit_array_new 1024 SUBJECT_LIST_CAPACITY;
             msk \<leftarrow> set_bits (map (\<lambda>port. unat (SubjectID_value port)) list) msk;
             msk \<leftarrow> ba_set (unat (subject_bits subject)) True msk;
             Some (SubjectIDList_Mask msk)
           })
      else Some (SubjectIDList_SparseList list))"
| "insert_into_list hv (SubjectIDList_Total e) subject = Some (SubjectIDList_Total e)"

fun remove_from_list :: "SubjectIDList \<Rightarrow> SubjectId \<Rightarrow> SubjectIDList option" where
  "remove_from_list (SubjectIDList_Mask msk) subject = do {
     msk \<leftarrow> ba_set (unat (subject_bits subject)) False msk;
     Some (SubjectIDList_Mask msk)
   }"
| "remove_from_list (SubjectIDList_SparseList list) subject =
     (case position (\<lambda>id_in_list. SubjectID_value id_in_list = subject_bits subject) list of
        Some index \<Rightarrow> Some (SubjectIDList_SparseList (snd (swap_remove index list)))
      | None \<Rightarrow> Some (SubjectIDList_SparseList list))"
| "remove_from_list (SubjectIDList_Total e) subject = do {
     msk \<leftarrow> bit_array_new 1024 SUBJECT_LIST_CAPACITY;
     msk \<leftarrow> ba_set (unat (subject_bits subject)) False (ba_fill True msk);
     Some (SubjectIDList_Mask msk)
   }"

section \<open>Basic nodes\<close>

datatype ('a, 'b) NodeError = TransmitterError 'a | ReceiverError 'b

record ('tx, 'rx, 'dr, 'c, 'd, 't, 'p, 'n) BasicNode =
  bn_node :: "('tx, 'rx, 'dr, 'c, 'd, 't, 'p, 'n) MinimalNode"
  bn_port_list_token :: PublishToken
  bn_port_list :: PortList
  bn_node_info :: GetInfoResponse
  bn_seconds_since_port_list_published :: u8

text \<open>\<^verbatim>\<open>node_mut\<close>: the inner node and its replacement.\<close>

definition basic_node :: "('tx, 'rx, 'dr, 'c, 'd, 't, 'p, 'n) BasicNode \<Rightarrow> ('tx, 'rx, 'dr, 'c, 'd, 't, 'p, 'n) core_node" where
  "basic_node self = mn_node (bn_node self)"

definition put_basic_node ::
  "('tx, 'rx, 'dr, 'c, 'd, 't, 'p, 'n) core_node \<Rightarrow> ('tx, 'rx, 'dr, 'c, 'd, 't, 'p, 'n) BasicNode
   \<Rightarrow> ('tx, 'rx, 'dr, 'c, 'd, 't, 'p, 'n) BasicNode" where
  "put_basic_node node self = self\<lparr>bn_node := (bn_node self)\<lparr>mn_node := node\<rparr>\<rparr>"

definition initial_port_list :: "SubjectID hvec_ops \<Rightarrow> PortList option" where
  "initial_port_list hv = do {
     published_topics \<leftarrow> hv_push hv [] (SubjectID (subject_bits HEARTBEAT_SUBJECT));
     published_topics \<leftarrow> hv_push hv published_topics (SubjectID (subject_bits PORT_LIST_SUBJECT));
     clients \<leftarrow> bit_array_new 64 512;
     servers \<leftarrow> bit_array_new 64 512;
     servers \<leftarrow> ba_set (unat (service_bits GET_INFO_SERVICE)) True servers;
     Some \<lparr>pl_publishers = SubjectIDList_SparseList published_topics, pl_subscribers = SubjectIDList_SparseList [],
       pl_clients = ServiceIDList clients, pl_servers = ServiceIDList servers\<rparr>
   }"

definition basic_new ::
  "('tx, 'rx, 'dr, 'c, 'i, 'd, 't, 'p, 'n, 'e, 'f) node_env \<Rightarrow> SubjectID hvec_ops
   \<Rightarrow> ('tx, 'rx, 'dr, 'c, 'd, 't, 'p, 'n) core_node \<Rightarrow> GetInfoResponse
   \<Rightarrow> (('e StartSendError, 'f) NodeError + ('tx, 'rx, 'dr, 'c, 'd, 't, 'p, 'n) BasicNode) option" where
  "basic_new env hv node node_info = do {
     timeout \<leftarrow> ne_from_millis env 1000;
     (r, node) \<leftarrow> core_subscribe_request env GET_INFO_SERVICE 0 timeout node;
     case r of
       Inl e \<Rightarrow> Some (Inl (ReceiverError e))
     | Inr _ \<Rightarrow>
         (case core_start_publishing env PORT_LIST_SUBJECT timeout (ne_priority_from env Optional) node of
            (Inl e, _) \<Rightarrow> Some (Inl (TransmitterError e))
          | (Inr port_list_token, node) \<Rightarrow> do {
              minimal \<leftarrow> minimal_new env node;
              case minimal of
                Inl e \<Rightarrow> Some (Inl (TransmitterError e))
              | Inr minimal \<Rightarrow> do {
                  port_list \<leftarrow> initial_port_list hv;
                  Some (Inr \<lparr>bn_node = minimal, bn_port_list_token = port_list_token, bn_port_list = port_list,
                    bn_node_info = node_info, bn_seconds_since_port_list_published = 0\<rparr>)
                }
            })
   }"

definition publish_port_list ::
  "('tx, 'rx, 'dr, 'c, 'i, 'd, 't, 'p, 'n, 'e, 'f) node_env \<Rightarrow> ('tx, 'rx, 'dr, 'c, 'd, 't, 'p, 'n) BasicNode
   \<Rightarrow> (('e nb_error + unit) \<times> ('tx, 'rx, 'dr, 'c, 'd, 't, 'p, 'n) BasicNode) option" where
  "publish_port_list env self = do {
     (r, node) \<leftarrow> core_publish env (bn_port_list_token self) (serializable_of PortList_impl (bn_port_list self)) (basic_node self);
     Some (r, put_basic_node node self)
   }"

text \<open>The addition to the 8-bit counter is checked in debug builds.\<close>

definition basic_run_per_second_tasks ::
  "bool \<Rightarrow> ('tx, 'rx, 'dr, 'c, 'i, 'd, 't, 'p, 'n, 'e, 'f) node_env \<Rightarrow> ('tx, 'rx, 'dr, 'c, 'd, 't, 'p, 'n) BasicNode
   \<Rightarrow> (('e nb_error + unit) \<times> ('tx, 'rx, 'dr, 'c, 'd, 't, 'p, 'n) BasicNode) option" where
  "basic_run_per_second_tasks dbg env self = do {
     (r, minimal) \<leftarrow> minimal_run_per_second_tasks env (bn_node self);
     let self = self\<lparr>bn_node := minimal\<rparr>;
     case r of
       Inl e \<Rightarrow> Some (Inl e, self)
     | Inr _ \<Rightarrow>
         if bn_seconds_since_port_list_published self = 10 then
           publish_port_list env (self\<lparr>bn_seconds_since_port_list_published := 1\<rparr>)
         else if dbg \<and> bn_seconds_since_port_list_published self = 0xff then None
         else Some (Inr (), self\<lparr>bn_seconds_since_port_list_published := bn_seconds_since_port_list_published self + 1\<rparr>)
   }"

text \<open>The handler whose state is the response.\<close>

definition node_info_handler ::
  "('tx, 'rx, 'dr, 'c, 'i, 'd, 't, 'p, 'n, 'e, 'f) node_env
   \<Rightarrow> (GetInfoResponse, ('tx, 'rx, 'dr, 'c, 'd, 't, 'p, 'n) core_node, 'i, 't, 'p, 'n) transfer_handler" where
  "node_info_handler env = default_handler\<lparr>th_request := (\<lambda>token transfer response node.
     if sh_service (st_header transfer) = GET_INFO_SERVICE then do {
       timeout \<leftarrow> ne_from_millis env 1000;
       (_, node) \<leftarrow> core_send_response env token timeout (serializable_of GetInfoResponse_impl response) node;
       Some (True, response, node)
     } else Some (False, response, node))\<rparr>"

definition basic_receive ::
  "('tx, 'rx, 'dr, 'c, 'i, 'd, 't, 'p, 'n, 'e, 'f) node_env
   \<Rightarrow> ('h, ('tx, 'rx, 'dr, 'c, 'd, 't, 'p, 'n) core_node, 'i, 't, 'p, 'n) transfer_handler
   \<Rightarrow> 'h \<Rightarrow> ('tx, 'rx, 'dr, 'c, 'd, 't, 'p, 'n) BasicNode
   \<Rightarrow> (('f + unit) \<times> 'h \<times> ('tx, 'rx, 'dr, 'c, 'd, 't, 'p, 'n) BasicNode) option" where
  "basic_receive env handler h self = do {
     (r, (_, h), node) \<leftarrow> core_receive env (handler_chain (node_info_handler env) handler) (bn_node_info self, h) (basic_node self);
     Some (r, h, put_basic_node node self)
   }"

definition basic_start_publishing ::
  "('tx, 'rx, 'dr, 'c, 'i, 'd, 't, 'p, 'n, 'e, 'f) node_env \<Rightarrow> SubjectID hvec_ops \<Rightarrow> SubjectId \<Rightarrow> 'd \<Rightarrow> 'p
   \<Rightarrow> ('tx, 'rx, 'dr, 'c, 'd, 't, 'p, 'n) BasicNode
   \<Rightarrow> (('e StartSendError + PublishToken) \<times> ('tx, 'rx, 'dr, 'c, 'd, 't, 'p, 'n) BasicNode) option" where
  "basic_start_publishing env hv subject timeout priority self =
     (case core_start_publishing env subject timeout priority (basic_node self) of
        (Inl e, node) \<Rightarrow> Some (Inl e, put_basic_node node self)
      | (Inr token, node) \<Rightarrow> do {
          publishers \<leftarrow> insert_into_list hv (pl_publishers (bn_port_list self)) subject;
          Some (Inr token, (put_basic_node node self)\<lparr>bn_port_list := (bn_port_list self)\<lparr>pl_publishers := publishers\<rparr>\<rparr>)
        })"

definition basic_stop_publishing ::
  "('tx, 'rx, 'dr, 'c, 'i, 'd, 't, 'p, 'n, 'e, 'f) node_env \<Rightarrow> PublishToken
   \<Rightarrow> ('tx, 'rx, 'dr, 'c, 'd, 't, 'p, 'n) BasicNode \<Rightarrow> ('tx, 'rx, 'dr, 'c, 'd, 't, 'p, 'n) BasicNode option" where
  "basic_stop_publishing env token self = do {
     let node = core_stop_publishing env token (basic_node self);
     publishers \<leftarrow> remove_from_list (pl_publishers (bn_port_list self)) (token_subject token);
     Some ((put_basic_node node self)\<lparr>bn_port_list := (bn_port_list self)\<lparr>pl_publishers := publishers\<rparr>\<rparr>)
   }"

definition basic_publish ::
  "('tx, 'rx, 'dr, 'c, 'i, 'd, 't, 'p, 'n, 'e, 'f) node_env \<Rightarrow> PublishToken \<Rightarrow> serializable
   \<Rightarrow> ('tx, 'rx, 'dr, 'c, 'd, 't, 'p, 'n) BasicNode
   \<Rightarrow> (('e nb_error + unit) \<times> ('tx, 'rx, 'dr, 'c, 'd, 't, 'p, 'n) BasicNode) option" where
  "basic_publish env token payload self = do {
     (r, node) \<leftarrow> core_publish env token payload (basic_node self);
     Some (r, put_basic_node node self)
   }"

text \<open>The masks of service identifiers have 512 bits; an identifier out of their range panics.\<close>

definition basic_start_sending_requests ::
  "('tx, 'rx, 'dr, 'c, 'i, 'd, 't, 'p, 'n, 'e, 'f) node_env \<Rightarrow> ServiceId \<Rightarrow> 'd \<Rightarrow> nat \<Rightarrow> 'p
   \<Rightarrow> ('tx, 'rx, 'dr, 'c, 'd, 't, 'p, 'n) BasicNode
   \<Rightarrow> (('f StartSendError + ServiceToken) \<times> ('tx, 'rx, 'dr, 'c, 'd, 't, 'p, 'n) BasicNode) option" where
  "basic_start_sending_requests env service receive_timeout response_payload_size_max priority self = do {
     (r, node) \<leftarrow> core_start_sending_requests env service receive_timeout response_payload_size_max priority (basic_node self);
     case r of
       Inl e \<Rightarrow> Some (Inl e, put_basic_node node self)
     | Inr token \<Rightarrow> do {
         mask \<leftarrow> ba_set (unat (service_bits service)) True (ServiceIDList_mask (pl_clients (bn_port_list self)));
         Some (Inr token, (put_basic_node node self)\<lparr>bn_port_list := (bn_port_list self)\<lparr>pl_clients := ServiceIDList mask\<rparr>\<rparr>)
       }
   }"

definition basic_stop_sending_requests ::
  "('tx, 'rx, 'dr, 'c, 'i, 'd, 't, 'p, 'n, 'e, 'f) node_env \<Rightarrow> ServiceToken
   \<Rightarrow> ('tx, 'rx, 'dr, 'c, 'd, 't, 'p, 'n) BasicNode \<Rightarrow> ('tx, 'rx, 'dr, 'c, 'd, 't, 'p, 'n) BasicNode option" where
  "basic_stop_sending_requests env token self = do {
     let node = core_stop_sending_requests env token (basic_node self);
     mask \<leftarrow> ba_set (unat (service_bits (token_service token))) False (ServiceIDList_mask (pl_clients (bn_port_list self)));
     Some ((put_basic_node node self)\<lparr>bn_port_list := (bn_port_list self)\<lparr>pl_clients := ServiceIDList mask\<rparr>\<rparr>)
   }"

definition basic_subscribe_message ::
  "('tx, 'rx, 'dr, 'c, 'i, 'd, 't, 'p, 'n, 'e, 'f) node_env \<Rightarrow> SubjectID hvec_ops \<Rightarrow> SubjectId \<Rightarrow> nat \<Rightarrow> 'd
   \<Rightarrow> ('tx, 'rx, 'dr, 'c, 'd, 't, 'p, 'n) BasicNode
   \<Rightarrow> (('f + unit) \<times> ('tx, 'rx, 'dr, 'c, 'd, 't, 'p, 'n) BasicNode) option" where
  "basic_subscribe_message env hv subject payload_size_max timeout self = do {
     (r, node) \<leftarrow> core_subscribe_message env subject payload_size_max timeout (basic_node self);
     case r of
       Inl e \<Rightarrow> Some (Inl e, put_basic_node node self)
     | Inr _ \<Rightarrow> do {
         subscribers \<leftarrow> insert_into_list hv (pl_subscribers (bn_port_list self)) subject;
         Some (Inr (), (put_basic_node node self)\<lparr>bn_port_list := (bn_port_list self)\<lparr>pl_subscribers := subscribers\<rparr>\<rparr>)
       }
   }"

definition basic_subscribe_request ::
  "('tx, 'rx, 'dr, 'c, 'i, 'd, 't, 'p, 'n, 'e, 'f) node_env \<Rightarrow> ServiceId \<Rightarrow> nat \<Rightarrow> 'd
   \<Rightarrow> ('tx, 'rx, 'dr, 'c, 'd, 't, 'p, 'n) BasicNode
   \<Rightarrow> (('f + unit) \<times> ('tx, 'rx, 'dr, 'c, 'd, 't, 'p, 'n) BasicNode) option" where
  "basic_subscribe_request env service payload_size_max timeout self = do {
     (r, node) \<leftarrow> core_subscribe_request env service payload_size_max timeout (basic_node self);
     case r of
       Inl e \<Rightarrow> Some (Inl e, put_basic_node node self)
     | Inr _ \<Rightarrow> do {
         mask \<leftarrow> ba_set (unat (service_bits service)) True (ServiceIDList_mask (pl_servers (bn_port_list self)));
         Some (Inr (), (put_basic_node node self)\<lparr>bn_port_list := (bn_port_list self)\<lparr>pl_servers := ServiceIDList mask\<rparr>\<rparr>)
       }
   }"

text \<open>Operations that only pass on to the inner node.\<close>

definition basic_send_request ::
  "('tx, 'rx, 'dr, 'c, 'i, 'd, 't, 'p, 'n, 'e, 'f) node_env \<Rightarrow> ServiceToken \<Rightarrow> serializable \<Rightarrow> 'n
   \<Rightarrow> ('tx, 'rx, 'dr, 'c, 'd, 't, 'p, 'n) BasicNode
   \<Rightarrow> (('e nb_error + 't) \<times> ('tx, 'rx, 'dr, 'c, 'd, 't, 'p, 'n) BasicNode) option" where
  "basic_send_request env token payload destination self = do {
     (r, node) \<leftarrow> core_send_request env token payload destination (basic_node self);
     Some (r, put_basic_node node self)
   }"

definition basic_send_response ::
  "('tx, 'rx, 'dr, 'c, 'i, 'd, 't, 'p, 'n, 'e, 'f) node_env \<Rightarrow> ('t, 'p, 'n) ResponseToken \<Rightarrow> 'd \<Rightarrow> serializable
   \<Rightarrow> ('tx, 'rx, 'dr, 'c, 'd, 't, 'p, 'n) BasicNode
   \<Rightarrow> (('e nb_error + unit) \<times> ('tx, 'rx, 'dr, 'c, 'd, 't, 'p, 'n) BasicNode) option" where
  "basic_send_response env token timeout payload self = do {
     (r, node) \<leftarrow> core_send_response env token timeout payload (basic_node self);
     Some (r, put_basic_node node self)
   }"

definition basic_flush ::
  "('tx, 'rx, 'dr, 'c, 'i, 'd, 't, 'p, 'n, 'e, 'f) node_env \<Rightarrow> ('tx, 'rx, 'dr, 'c, 'd, 't, 'p, 'n) BasicNode
   \<Rightarrow> (('e nb_error + unit) \<times> ('tx, 'rx, 'dr, 'c, 'd, 't, 'p, 'n) BasicNode) option" where
  "basic_flush env self = do {
     (r, node) \<leftarrow> core_flush env (basic_node self);
     Some (r, put_basic_node node self)
   }"

definition basic_set_mode ::
  "Mode \<Rightarrow> ('tx, 'rx, 'dr, 'c, 'd, 't, 'p, 'n) BasicNode \<Rightarrow> ('tx, 'rx, 'dr, 'c, 'd, 't, 'p, 'n) BasicNode" where
  "basic_set_mode mode self = self\<lparr>bn_node := minimal_set_mode mode (bn_node self)\<rparr>"

definition basic_set_health ::
  "Health \<Rightarrow> ('tx, 'rx, 'dr, 'c, 'd, 't, 'p, 'n) BasicNode \<Rightarrow> ('tx, 'rx, 'dr, 'c, 'd, 't, 'p, 'n) BasicNode" where
  "basic_set_health health self = self\<lparr>bn_node := minimal_set_health health (bn_node self)\<rparr>"

definition basic_set_status_code ::
  "u8 \<Rightarrow> ('tx, 'rx, 'dr, 'c, 'd, 't, 'p, 'n) BasicNode \<Rightarrow> ('tx, 'rx, 'dr, 'c, 'd, 't, 'p, 'n) BasicNode" where
  "basic_set_status_code status self = self\<lparr>bn_node := minimal_set_status_code status (bn_node self)\<rparr>"

end
