(* ===== verification/Node_Ports.thy ===== *)
theory Node_Ports
  imports Node_Basic
begin

text \<open>
  The list of ports of a basic node: the list of subjects refines a set, and after any calls the four lists name what was
  opened and not closed through the operations of the basic node. The inner node has the listed publishers and requesters
  as long as nothing but these operations changes them.
\<close>

section \<open>The list of subjects as a set\<close>

fun list_uses :: "SubjectIDList \<Rightarrow> SubjectId \<Rightarrow> bool" where
  "list_uses (SubjectIDList_Mask msk) subject \<longleftrightarrow> bit_at (ba_bytes msk) (unat (subject_bits subject))"
| "list_uses (SubjectIDList_SparseList list) subject \<longleftrightarrow> SubjectID (subject_bits subject) \<in> set list"
| "list_uses (SubjectIDList_Total _) subject \<longleftrightarrow> True"

fun subject_list_wf :: "SubjectIDList \<Rightarrow> bool" where
  "subject_list_wf (SubjectIDList_SparseList list) \<longleftrightarrow>
     length list \<le> 255 \<and> distinct list \<and> list_all (\<lambda>s. subject_wf (SubjectId (SubjectID_value s))) list"
| "subject_list_wf list \<longleftrightarrow> SubjectIDList_valid list"

lemma subject_index: "subject_wf s \<Longrightarrow> unat (subject_bits s) < 8192"
  by (simp add: subject_wf_def VALID_SUBJECT_IDS_end_def word_le_nat_alt)

lemma subject_wf_take_bit: "subject_wf (SubjectId v) \<Longrightarrow> take_bit 13 v = v"
  by (simp add: subject_wf_def VALID_SUBJECT_IDS_end_def word_le_nat_alt word_unat_eq_iff unsigned_take_bit_eq
      take_bit_nat_eq_self)

lemma subject_list_wf_valid: "subject_list_wf l \<Longrightarrow> SubjectIDList_valid l"
  by (cases l) (auto simp: list_all_iff SubjectID_valid_def subject_wf_take_bit)

lemma unat_subject_inject [simp]: "unat (subject_bits a) = unat (subject_bits b) \<longleftrightarrow> a = b"
  by (cases a; cases b) (simp add: word_unat_eq_iff)

lemma list_ex_subject: "list_ex (\<lambda>x. SubjectID_value x = v) list \<longleftrightarrow> SubjectID v \<in> set list"
  by (auto simp: list_ex_iff intro: bexI [of _ "SubjectID v"])

lemma mask_set:
  assumes "SubjectIDList_valid (SubjectIDList_Mask msk)" and "i < 8192"
  obtains msk' where "ba_set i v msk = Some msk'" and "SubjectIDList_valid (SubjectIDList_Mask msk')"
    and "\<And>k. bit_at (ba_bytes msk') k = (if k = i then v else bit_at (ba_bytes msk) k)"
proof -
  have "ba_inv msk" "i < ba_bit_length msk" using assms by (simp_all add: ba_inv_def)
  from ba_set_spec [OF this, of v] that assms(1) show ?thesis by auto
qed

lemma set_bits_sets:
  assumes "SubjectIDList_valid (SubjectIDList_Mask msk)" and "list_all (\<lambda>i. i < 8192) is"
  shows "\<exists>msk'. set_bits is msk = Some msk' \<and> SubjectIDList_valid (SubjectIDList_Mask msk') \<and>
    (\<forall>k. bit_at (ba_bytes msk') k \<longleftrightarrow> k \<in> set is \<or> bit_at (ba_bytes msk) k)"
  using assms
proof (induction "is" arbitrary: msk)
  case (Cons i "is")
  obtain m where m: "ba_set i True msk = Some m" "SubjectIDList_valid (SubjectIDList_Mask m)"
    "\<And>k. bit_at (ba_bytes m) k = (if k = i then True else bit_at (ba_bytes msk) k)"
    using mask_set [OF Cons.prems(1), of i True] Cons.prems(2) by auto
  then show ?case using Cons.IH [OF m(2)] Cons.prems(2) by auto
qed auto

lemma new_mask:
  obtains msk where "bit_array_new 1024 SUBJECT_LIST_CAPACITY = Some msk" and "SubjectIDList_valid (SubjectIDList_Mask msk)"
    and "\<And>k. \<not> bit_at (ba_bytes msk) k"
  using that by (simp add: bit_array_new_def SUBJECT_LIST_CAPACITY_def bit_at_def)

lemma full_mask:
  obtains msk where "bit_array_new 1024 SUBJECT_LIST_CAPACITY = Some msk" and "SubjectIDList_valid (SubjectIDList_Mask (ba_fill True msk))"
    and "\<And>k. bit_at (ba_bytes (ba_fill True msk)) k \<longleftrightarrow> k < 8192"
proof -
  have "bit (255 :: u8) (k mod 8)" for k
  proof -
    have "(255 :: u8) = Bit_Operations.mask 8" by (simp add: mask_eq_exp_minus_1)
    then show ?thesis by (simp only: bit_mask_iff) simp
  qed
  then have "bit_at (replicate 1024 0xff) k \<longleftrightarrow> k < 8192" for k
    by (auto simp: bit_at_def div_less_iff_less_mult)
  then show ?thesis using that by (simp add: bit_array_new_def SUBJECT_LIST_CAPACITY_def ba_fill_def map_replicate_const)
qed

lemma insert_into_list_spec:
  assumes "hvec_law 255 hv" and "subject_list_wf l" and "subject_wf s"
  shows "\<exists>l'. insert_into_list hv l s = Some l' \<and> subject_list_wf l' \<and>
    (\<forall>x. list_uses l' x \<longleftrightarrow> x = s \<or> list_uses l x)"
proof (cases l)
  case (SubjectIDList_Mask msk)
  then obtain m where "ba_set (unat (subject_bits s)) True msk = Some m" "SubjectIDList_valid (SubjectIDList_Mask m)"
    "\<And>k. bit_at (ba_bytes m) k = (if k = unat (subject_bits s) then True else bit_at (ba_bytes msk) k)"
    using mask_set [of msk _ True] assms(2) subject_index [OF assms(3)] by auto
  then show ?thesis using SubjectIDList_Mask by auto
next
  case (SubjectIDList_SparseList list)
  have new: "SubjectID (subject_bits x) = SubjectID (subject_bits s) \<longleftrightarrow> x = s" for x by (cases x; cases s) simp
  consider "SubjectID (subject_bits s) \<in> set list" | "SubjectID (subject_bits s) \<notin> set list" "length list < 255"
    | "SubjectID (subject_bits s) \<notin> set list" "\<not> length list < 255" by blast
  then show ?thesis
  proof cases
    case 1
    then show ?thesis using SubjectIDList_SparseList assms(2) by (auto simp: list_ex_subject)
  next
    case 2
    then show ?thesis using SubjectIDList_SparseList assms hvec_lawD(1) [OF assms(1) 2(2)] new
      by (auto simp: list_ex_subject list_all_iff)
  next
    case 3
    then have full: "hv_push hv list (SubjectID (subject_bits s)) = None" using assms(1) by (simp add: hvec_law_def)
    have index: "list_all (\<lambda>i. i < 8192) (map (\<lambda>p. unat (SubjectID_value p)) list)"
      using assms(2) SubjectIDList_SparseList subject_index [of "SubjectId _"] by (auto simp: list_all_iff)
    have member: "unat (subject_bits x) \<in> set (map (\<lambda>p. unat (SubjectID_value p)) list) \<longleftrightarrow> SubjectID (subject_bits x) \<in> set list" for x
      by (auto simp: image_iff word_unat_eq_iff [symmetric] intro: bexI [of _ "SubjectID (subject_bits x)"])
    obtain m0 where m0: "bit_array_new 1024 SUBJECT_LIST_CAPACITY = Some m0" "SubjectIDList_valid (SubjectIDList_Mask m0)"
      "\<And>k. \<not> bit_at (ba_bytes m0) k" using new_mask by blast
    obtain m1 where m1: "set_bits (map (\<lambda>p. unat (SubjectID_value p)) list) m0 = Some m1" "SubjectIDList_valid (SubjectIDList_Mask m1)"
      "\<And>k. bit_at (ba_bytes m1) k \<longleftrightarrow> k \<in> set (map (\<lambda>p. unat (SubjectID_value p)) list)"
      using set_bits_sets [OF m0(2) index] m0(3) by auto
    obtain m2 where m2: "ba_set (unat (subject_bits s)) True m1 = Some m2" "SubjectIDList_valid (SubjectIDList_Mask m2)"
      "\<And>k. bit_at (ba_bytes m2) k = (if k = unat (subject_bits s) then True else bit_at (ba_bytes m1) k)"
      using mask_set [OF m1(2) subject_index [OF assms(3)], of True] by auto
    have "insert_into_list hv l s = Some (SubjectIDList_Mask m2)"
      using SubjectIDList_SparseList 3(1) full m0(1) m1(1) m2(1) by (simp add: list_ex_subject)
    moreover have "list_uses (SubjectIDList_Mask m2) x \<longleftrightarrow> x = s \<or> list_uses l x" for x
      using m2(3) m1(3) member [of x] SubjectIDList_SparseList by simp
    ultimately show ?thesis using m2(2) by auto
  qed
qed auto

lemma remove_from_list_spec:
  assumes "subject_list_wf l" and "subject_wf s"
  shows "\<exists>l'. remove_from_list l s = Some l' \<and> subject_list_wf l' \<and>
    (\<forall>x. subject_wf x \<longrightarrow> (list_uses l' x \<longleftrightarrow> x \<noteq> s \<and> list_uses l x))"
proof (cases l)
  case (SubjectIDList_Mask msk)
  then obtain m where "ba_set (unat (subject_bits s)) False msk = Some m" "SubjectIDList_valid (SubjectIDList_Mask m)"
    "\<And>k. bit_at (ba_bytes m) k = (if k = unat (subject_bits s) then False else bit_at (ba_bytes msk) k)"
    using mask_set [of msk _ False] assms(1) subject_index [OF assms(2)] by auto
  then show ?thesis using SubjectIDList_Mask by auto
next
  case (SubjectIDList_SparseList list)
  have same: "SubjectID (subject_bits x) = SubjectID (subject_bits s) \<longleftrightarrow> x = s" for x by (cases x; cases s) simp
  show ?thesis
  proof (cases "position (\<lambda>x. SubjectID_value x = subject_bits s) list")
    case None
    then have "SubjectID (subject_bits s) \<notin> set list" by (auto simp: position_None)
    then show ?thesis using None SubjectIDList_SparseList assms(1) same by auto
  next
    case (Some i)
    then have i: "i < length list" "list ! i = SubjectID (subject_bits s)"
      using position_Some [OF Some] by (auto simp: SubjectID.expand)
    let ?rest = "snd (swap_remove i list)"
    have "mset list = add_mset (SubjectID (subject_bits s)) (mset ?rest)"
      using mset_swap_remove [OF i(1)] i(2) by (simp add: swap_remove_def)
    then have m: "mset list = mset (SubjectID (subject_bits s) # ?rest)" by simp
    then have "distinct (SubjectID (subject_bits s) # ?rest)"
      using assms(1) SubjectIDList_SparseList by (metis mset_eq_imp_distinct_iff subject_list_wf.simps(1))
    moreover have "set list = insert (SubjectID (subject_bits s)) (set ?rest)" using m by (metis list.simps(15) set_mset_mset)
    moreover have "length list = Suc (length ?rest)" using m by (metis length_Cons size_mset)
    ultimately show ?thesis using Some SubjectIDList_SparseList assms(1) same by (auto simp: list_all_iff)
  qed
next
  case (SubjectIDList_Total e)
  obtain m0 where m0: "bit_array_new 1024 SUBJECT_LIST_CAPACITY = Some m0" "SubjectIDList_valid (SubjectIDList_Mask (ba_fill True m0))"
    "\<And>k. bit_at (ba_bytes (ba_fill True m0)) k \<longleftrightarrow> k < 8192" using full_mask by blast
  obtain m1 where "ba_set (unat (subject_bits s)) False (ba_fill True m0) = Some m1" "SubjectIDList_valid (SubjectIDList_Mask m1)"
    "\<And>k. bit_at (ba_bytes m1) k = (if k = unat (subject_bits s) then False else bit_at (ba_bytes (ba_fill True m0)) k)"
    using mask_set [OF m0(2) subject_index [OF assms(2)], of False] by auto
  then show ?thesis using SubjectIDList_Total m0 by (auto simp: subject_index)
qed

section \<open>The ports of the inner node\<close>

definition published :: "('tx, 'rx, 'dr, 'c, 'd, 't, 'p, 'n) core_node \<Rightarrow> SubjectId set" where
  "published node = dom (map_of (cn_publishers node))"

definition requested :: "('tx, 'rx, 'dr, 'c, 'd, 't, 'p, 'n) core_node \<Rightarrow> ServiceId set" where
  "requested node = dom (map_of (cn_requesters node))"

definition core_wf :: "('tx, 'rx, 'dr, 'c, 'd, 't, 'p, 'n) core_node \<Rightarrow> bool" where
  "core_wf node \<longleftrightarrow> distinct (map fst (cn_publishers node)) \<and> distinct (map fst (cn_requesters node))"

text \<open>The second node differs from the first in neither of them.\<close>

definition same_ports ::
  "('tx, 'rx, 'dr, 'c, 'd, 't, 'p, 'n) core_node \<Rightarrow> ('tx, 'rx, 'dr, 'c, 'd, 't, 'p, 'n) core_node \<Rightarrow> bool" where
  "same_ports node node' \<longleftrightarrow> map fst (cn_publishers node') = map fst (cn_publishers node) \<and>
     map fst (cn_requesters node') = map fst (cn_requesters node)"

lemma same_portsD:
  assumes "same_ports node node'"
  shows "published node' = published node" "requested node' = requested node" "core_wf node' = core_wf node"
proof -
  have "map fst (cn_publishers node') = map fst (cn_publishers node)" "map fst (cn_requesters node') = map fst (cn_requesters node)"
    using assms by (simp_all add: same_ports_def)
  then show "published node' = published node" "requested node' = requested node" "core_wf node' = core_wf node"
    by (simp_all only: published_def requested_def core_wf_def dom_map_of_conv_image_fst flip: list.set_map)
qed

lemma same_ports_refl [simp]: "same_ports node node"
  by (simp add: same_ports_def)

lemma core_publish_ports: "core_publish env token payload node = Some (r, node') \<Longrightarrow> same_ports node node'"
  by (auto simp: core_publish_def same_ports_def bind_eq_Some_conv)

lemma do_serialize_keeps:
  assumes "do_serialize mem oom payload operation s = Some (r, s')"
    and "\<And>bytes r s'. operation bytes s = Some (r, s') \<Longrightarrow> P s'" and "P s"
  shows "P s'"
  using assms by (auto simp: do_serialize_def Let_def bind_eq_Some_conv split: if_splits)

lemma core_send_response_ports:
  "core_send_response env token timeout payload node = Some (r, node') \<Longrightarrow> same_ports node node'"
  by (auto simp: core_send_response_def bind_eq_Some_conv split: prod.splits
      elim!: do_serialize_keeps [where P = "same_ports node"])
    (auto simp: send_response_payload_def same_ports_def bind_eq_Some_conv)

lemma core_subscribe_message_ports:
  "core_subscribe_message env subject n timeout node = Some (r, node') \<Longrightarrow> same_ports node node'"
  by (auto simp: core_subscribe_message_def same_ports_def bind_eq_Some_conv)

lemma core_subscribe_request_ports:
  assumes "core_subscribe_request env service n timeout node = Some (r, node')"
  shows "same_ports node node'"
proof -
  obtain a rx dr where a: "rv_subscribe_request (ne_receiver env) service n timeout (cn_receiver node) (cn_driver node) = Some (a, rx, dr)"
    using assms by (auto simp: core_subscribe_request_def bind_eq_Some_conv)
  with assms show ?thesis
    by (cases a; cases "projl a") (auto simp: core_subscribe_request_def same_ports_def)
qed

lemma core_start_publishing_ports:
  assumes "index_map_law P (ne_publishers env)" and "core_wf node"
    and "core_start_publishing env subject timeout priority node = (r, node')"
  shows "core_wf node' \<and> requested node' = requested node \<and>
    (case r of Inl _ \<Rightarrow> published node' = published node
     | Inr token \<Rightarrow> token = PublishToken subject \<and> subject \<notin> published node \<and> published node' = insert subject (published node))"
proof -
  have "distinct (map fst (cn_publishers node))" using assms(2) by (simp add: core_wf_def)
  note law = index_map_lawD [OF assms(1) this]
  from assms(2,3) law(1) show ?thesis
    by (auto simp: core_start_publishing_def core_wf_def published_def requested_def split: if_splits option.splits)
qed

lemma core_stop_publishing_ports:
  assumes "index_map_law P (ne_publishers env)" and "core_wf node"
  shows "core_wf (core_stop_publishing env token node)"
    and "published (core_stop_publishing env token node) = published node - {token_subject token}"
    and "requested (core_stop_publishing env token node) = requested node"
proof -
  have "distinct (map fst (cn_publishers node))" using assms(2) by (simp add: core_wf_def)
  note law = index_map_lawD(3,4) [OF assms(1) this]
  from assms(2) law show "core_wf (core_stop_publishing env token node)"
    and "published (core_stop_publishing env token node) = published node - {token_subject token}"
    and "requested (core_stop_publishing env token node) = requested node"
    by (auto simp: core_stop_publishing_def core_wf_def published_def requested_def)
qed

lemma core_start_sending_requests_ports:
  assumes "index_map_law R (ne_requesters env)" and "core_wf node"
    and "core_start_sending_requests env service timeout n priority node = Some (r, node')"
  shows "core_wf node' \<and> published node' = published node \<and>
    (case r of Inl _ \<Rightarrow> requested node' = requested node
     | Inr token \<Rightarrow> token = ServiceToken service \<and> service \<notin> requested node \<and> requested node' = insert service (requested node))"
proof (cases "map_of (cn_requesters node) service")
  case (Some q)
  then show ?thesis using assms by (auto simp: core_start_sending_requests_def)
next
  case None
  have d: "distinct (map fst (cn_requesters node))" using assms(2) by (simp add: core_wf_def)
  show ?thesis
  proof (cases "im_insert (ne_requesters env) service (requester_new (cn_node_id node) timeout priority) (cn_requesters node)")
    case None
    then show ?thesis using assms \<open>map_of _ _ = None\<close> by (auto simp: core_start_sending_requests_def)
  next
    case (Some qs)
    note qs = index_map_lawD(1) [OF assms(1) d Some]
    note removed = index_map_lawD(3,4) [OF assms(1) conjunct1 [OF qs], of service]
    have "(map_of (cn_requesters node))(service := None) = map_of (cn_requesters node)" using None by auto
    moreover obtain a rx dr where a: "rv_subscribe_response (ne_receiver env) service n timeout (cn_receiver node) (cn_driver node) = Some (a, rx, dr)"
      using assms(3) None Some by (auto simp: core_start_sending_requests_def bind_eq_Some_conv)
    ultimately show ?thesis using assms(2,3) None Some qs removed
      by (cases a; cases "projl a") (auto simp: core_start_sending_requests_def core_wf_def published_def requested_def)
  qed
qed

lemma core_stop_sending_requests_ports:
  assumes "index_map_law R (ne_requesters env)" and "core_wf node"
  shows "core_wf (core_stop_sending_requests env token node)"
    and "requested (core_stop_sending_requests env token node) = requested node - {token_service token}"
    and "published (core_stop_sending_requests env token node) = published node"
proof -
  have "distinct (map fst (cn_requesters node))" using assms(2) by (simp add: core_wf_def)
  note law = index_map_lawD(3,4) [OF assms(1) this]
  from assms(2) law show "core_wf (core_stop_sending_requests env token node)"
    and "requested (core_stop_sending_requests env token node) = requested node - {token_service token}"
    and "published (core_stop_sending_requests env token node) = published node"
    by (auto simp: core_stop_sending_requests_def core_wf_def published_def requested_def)
qed

lemma core_send_request_ports: "core_send_request env token payload destination node = Some (r, node') \<Longrightarrow> same_ports node node'"
  by (auto simp: core_send_request_def same_ports_def bind_eq_Some_conv)

lemma core_flush_ports: "core_flush env node = Some (r, node') \<Longrightarrow> same_ports node node'"
  by (auto simp: core_flush_def same_ports_def bind_eq_Some_conv)

text \<open>Handlers that start and stop no publishing and no requests.\<close>

definition keeps_ports :: "('h, ('tx, 'rx, 'dr, 'c, 'd, 't, 'p, 'n) core_node, 'i, 't, 'p, 'n) transfer_handler \<Rightarrow> bool" where
  "keeps_ports handler \<longleftrightarrow>
     (\<forall>transfer h node b h' node'. th_message handler transfer h node = Some (b, h', node') \<longrightarrow> same_ports node node') \<and>
     (\<forall>token transfer h node b h' node'. th_request handler token transfer h node = Some (b, h', node') \<longrightarrow> same_ports node node') \<and>
     (\<forall>transfer h node b h' node'. th_response handler transfer h node = Some (b, h', node') \<longrightarrow> same_ports node node')"

lemma same_ports_trans: "same_ports a b \<Longrightarrow> same_ports b c \<Longrightarrow> same_ports a c"
  by (simp add: same_ports_def)

lemma chain_step_ports:
  assumes "chain_step f0 f1 h node = Some (b, h', node')"
    and "\<And>h node b h' node'. f0 h node = Some (b, h', node') \<Longrightarrow> same_ports node node'"
    and "\<And>h node b h' node'. f1 h node = Some (b, h', node') \<Longrightarrow> same_ports node node'"
  shows "same_ports node node'"
proof -
  obtain b0 h0 node0 where f0: "f0 (fst h) node = Some (b0, h0, node0)"
    using assms(1) by (auto simp: chain_step_def bind_eq_Some_conv)
  with assms(1) show ?thesis
    using assms(2) [OF f0] assms(3) [of "snd h" node0]
    by (auto simp: chain_step_def bind_eq_Some_conv split: if_splits intro: same_ports_trans)
qed

lemma keeps_portsD:
  assumes "keeps_ports handler"
  shows "th_message handler m h node = Some (b, h', node') \<Longrightarrow> same_ports node node'"
    and "th_request handler token q h node = Some (b, h', node') \<Longrightarrow> same_ports node node'"
    and "th_response handler q h node = Some (b, h', node') \<Longrightarrow> same_ports node node'"
  using assms unfolding keeps_ports_def by blast+

lemma chain_keeps_ports:
  assumes "keeps_ports handler0" and "keeps_ports handler1"
  shows "keeps_ports (handler_chain handler0 handler1)"
proof -
  have "th_message (handler_chain handler0 handler1) m h node = Some (b, h', node') \<Longrightarrow> same_ports node node'" for m h node b h' node'
    by (simp add: handler_chain_def)
      (erule chain_step_ports, erule keeps_portsD(1) [OF assms(1)], erule keeps_portsD(1) [OF assms(2)])
  moreover have "th_request (handler_chain handler0 handler1) token q h node = Some (b, h', node') \<Longrightarrow> same_ports node node'"
    for token q h node b h' node'
    by (simp add: handler_chain_def)
      (erule chain_step_ports, erule keeps_portsD(2) [OF assms(1)], erule keeps_portsD(2) [OF assms(2)])
  moreover have "th_response (handler_chain handler0 handler1) q h node = Some (b, h', node') \<Longrightarrow> same_ports node node'" for q h node b h' node'
    by (simp add: handler_chain_def)
      (erule chain_step_ports, erule keeps_portsD(3) [OF assms(1)], erule keeps_portsD(3) [OF assms(2)])
  ultimately show ?thesis unfolding keeps_ports_def by blast
qed

lemma node_info_keeps_ports: "keeps_ports (node_info_handler env)"
  unfolding keeps_ports_def node_info_handler_def default_handler_def
  by (auto simp: bind_eq_Some_conv split: if_splits dest!: core_send_response_ports)

lemma core_receive_ports:
  assumes "keeps_ports handler" and "core_receive env handler h node = Some (r, h', node')"
  shows "same_ports node node'"
proof -
  obtain now clock where now: "ne_now env (cn_clock node) = (now, clock)" by fastforce
  obtain a rx dr where a: "rv_receive (ne_receiver env) now (cn_receiver node) (cn_driver node) = Some (a, rx, dr)"
    using assms(2) now by (auto simp: core_receive_def bind_eq_Some_conv)
  let ?node = "node\<lparr>cn_clock := clock, cn_receiver := rx, cn_driver := dr\<rparr>"
  have same: "same_ports node ?node" by (simp add: same_ports_def)
  have "same_ports ?node node'" if "handle_incoming_transfer handler t h ?node = Some (h', node')" for t
    using that assms(1) by (auto simp: keeps_ports_def split: Header.splits)
  then show ?thesis using assms(2) now a same
    by (cases a; cases "projr a")
      (auto simp: core_receive_def bind_eq_Some_conv simp del: handle_incoming_transfer.simps intro: same_ports_trans)
qed

section \<open>Reachable nodes\<close>

text \<open>
  The history of a basic node: the ports that were successfully opened and closed through the basic node itself, latest first.
  \<open>Disturbed\<close> stands for a change of the publishers or requesters of the inner node behind the back of the
  basic node.
\<close>

datatype node_event =
  Published SubjectId
| Unpublished SubjectId
| Requesting ServiceId
| Unrequesting ServiceId
| Subscribed SubjectId
| Serving ServiceId
| Disturbed

primrec publishers_of :: "node_event list \<Rightarrow> SubjectId set" where
  "publishers_of [] = {HEARTBEAT_SUBJECT, PORT_LIST_SUBJECT}"
| "publishers_of (e # tr) = (case e of
     Published subject \<Rightarrow> insert subject (publishers_of tr)
   | Unpublished subject \<Rightarrow> publishers_of tr - {subject}
   | _ \<Rightarrow> publishers_of tr)"

primrec clients_of :: "node_event list \<Rightarrow> ServiceId set" where
  "clients_of [] = {}"
| "clients_of (e # tr) = (case e of
     Requesting service \<Rightarrow> insert service (clients_of tr)
   | Unrequesting service \<Rightarrow> clients_of tr - {service}
   | _ \<Rightarrow> clients_of tr)"

primrec subscribers_of :: "node_event list \<Rightarrow> SubjectId set" where
  "subscribers_of [] = {}"
| "subscribers_of (e # tr) = (case e of Subscribed subject \<Rightarrow> insert subject (subscribers_of tr) | _ \<Rightarrow> subscribers_of tr)"

primrec servers_of :: "node_event list \<Rightarrow> ServiceId set" where
  "servers_of [] = {GET_INFO_SERVICE}"
| "servers_of (e # tr) = (case e of Serving service \<Rightarrow> insert service (servers_of tr) | _ \<Rightarrow> servers_of tr)"

abbreviation undisturbed :: "node_event list \<Rightarrow> bool" where
  "undisturbed tr \<equiv> Disturbed \<notin> set tr"

text \<open>What a change of the inner node from outside adds to the history.\<close>

definition from_outside ::
  "('tx, 'rx, 'dr, 'c, 'd, 't, 'p, 'n) core_node \<Rightarrow> ('tx, 'rx, 'dr, 'c, 'd, 't, 'p, 'n) core_node
   \<Rightarrow> node_event list \<Rightarrow> node_event list" where
  "from_outside node node' tr = (if same_ports node node' then tr else Disturbed # tr)"

definition successful :: "('a + 'b) \<Rightarrow> node_event \<Rightarrow> node_event list \<Rightarrow> node_event list" where
  "successful r e tr = (case r of Inl _ \<Rightarrow> tr | Inr _ \<Rightarrow> e # tr)"

text \<open>
  A basic node made from a new core node, after any sequence of calls. Calls that panic have no successor. The handler given
  to \<^verbatim>\<open>receive\<close> is arbitrary and may do anything with the inner node that it is handed. In \<open>reach_node_mut\<close> the application does
  anything with the inner node through \<^verbatim>\<open>node_mut\<close>, \<^verbatim>\<open>clock_mut\<close>, \<^verbatim>\<open>transmitter_mut\<close> or \<^verbatim>\<open>receiver_mut\<close>. A token is needed for
  stopping, and stopping consumes it. As long as the node is undisturbed, the application's tokens are those of the ports
  that it has open; later they may also come from the inner node.
\<close>

inductive node_reachable ::
  "bool \<Rightarrow> ('tx, 'rx, 'dr, 'c, 'i, 'd, 't, 'p, 'n, 'e, 'f) node_env \<Rightarrow> SubjectID hvec_ops
   \<Rightarrow> ('h, ('tx, 'rx, 'dr, 'c, 'd, 't, 'p, 'n) core_node, 'i, 't, 'p, 'n) transfer_handler
   \<Rightarrow> ('tx, 'rx, 'dr, 'c, 'd, 't, 'p, 'n) BasicNode \<Rightarrow> node_event list \<Rightarrow> bool"
  for dbg env hv handler where
  reach_new: "basic_new env hv (core_new clock node_id tx rx dr) info = Some (Inr self) \<Longrightarrow> node_reachable dbg env hv handler self []"
| reach_start_publishing: "node_reachable dbg env hv handler self tr \<Longrightarrow> subject_wf subject \<Longrightarrow>
    basic_start_publishing env hv subject timeout priority self = Some (r, self') \<Longrightarrow>
    node_reachable dbg env hv handler self' (successful r (Published subject) tr)"
| reach_stop_publishing: "node_reachable dbg env hv handler self tr \<Longrightarrow> subject_wf (token_subject token) \<Longrightarrow>
    (undisturbed tr \<Longrightarrow> token_subject token \<in> publishers_of tr - {HEARTBEAT_SUBJECT, PORT_LIST_SUBJECT}) \<Longrightarrow>
    basic_stop_publishing env token self = Some self' \<Longrightarrow>
    node_reachable dbg env hv handler self' (Unpublished (token_subject token) # tr)"
| reach_publish: "node_reachable dbg env hv handler self tr \<Longrightarrow>
    basic_publish env token payload self = Some (r, self') \<Longrightarrow> node_reachable dbg env hv handler self' tr"
| reach_start_requests: "node_reachable dbg env hv handler self tr \<Longrightarrow> service_wf service \<Longrightarrow>
    basic_start_sending_requests env service timeout n priority self = Some (r', self') \<Longrightarrow>
    node_reachable dbg env hv handler self' (successful r' (Requesting service) tr)"
| reach_stop_requests: "node_reachable dbg env hv handler self tr \<Longrightarrow> service_wf (token_service stoken) \<Longrightarrow>
    basic_stop_sending_requests env stoken self = Some self' \<Longrightarrow>
    node_reachable dbg env hv handler self' (Unrequesting (token_service stoken) # tr)"
| reach_send_request: "node_reachable dbg env hv handler self tr \<Longrightarrow>
    basic_send_request env stoken payload destination self = Some (rt, self') \<Longrightarrow> node_reachable dbg env hv handler self' tr"
| reach_subscribe_message: "node_reachable dbg env hv handler self tr \<Longrightarrow> subject_wf subject \<Longrightarrow>
    basic_subscribe_message env hv subject n timeout self = Some (rf, self') \<Longrightarrow>
    node_reachable dbg env hv handler self' (successful rf (Subscribed subject) tr)"
| reach_subscribe_request: "node_reachable dbg env hv handler self tr \<Longrightarrow> service_wf service \<Longrightarrow>
    basic_subscribe_request env service n timeout self = Some (rf, self') \<Longrightarrow>
    node_reachable dbg env hv handler self' (successful rf (Serving service) tr)"
| reach_send_response: "node_reachable dbg env hv handler self tr \<Longrightarrow>
    basic_send_response env rtoken timeout payload self = Some (r, self') \<Longrightarrow> node_reachable dbg env hv handler self' tr"
| reach_receive: "node_reachable dbg env hv handler self tr \<Longrightarrow>
    basic_receive env handler h self = Some (rf, h', self') \<Longrightarrow>
    node_reachable dbg env hv handler self' (from_outside (basic_node self) (basic_node self') tr)"
| reach_node_mut: "node_reachable dbg env hv handler self tr \<Longrightarrow>
    node_reachable dbg env hv handler (put_basic_node node self) (from_outside (basic_node self) node tr)"
| reach_flush: "node_reachable dbg env hv handler self tr \<Longrightarrow>
    basic_flush env self = Some (r, self') \<Longrightarrow> node_reachable dbg env hv handler self' tr"
| reach_second: "node_reachable dbg env hv handler self tr \<Longrightarrow>
    basic_run_per_second_tasks dbg env self = Some (r, self') \<Longrightarrow> node_reachable dbg env hv handler self' tr"
| reach_set_mode: "node_reachable dbg env hv handler self tr \<Longrightarrow> Mode_valid mode \<Longrightarrow>
    node_reachable dbg env hv handler (basic_set_mode mode self) tr"
| reach_set_health: "node_reachable dbg env hv handler self tr \<Longrightarrow> Health_valid health \<Longrightarrow>
    node_reachable dbg env hv handler (basic_set_health health self) tr"
| reach_set_status_code: "node_reachable dbg env hv handler self tr \<Longrightarrow>
    node_reachable dbg env hv handler (basic_set_status_code status self) tr"

section \<open>The invariant\<close>

text \<open>As long as the node is undisturbed, the publishers and requesters of the inner node are those of the history.\<close>

definition ports_inv :: "('tx, 'rx, 'dr, 'c, 'd, 't, 'p, 'n) core_node \<Rightarrow> node_event list \<Rightarrow> bool" where
  "ports_inv node tr \<longleftrightarrow> core_wf node \<and> published node = publishers_of tr \<and> requested node = clients_of tr \<and>
     HEARTBEAT_SUBJECT \<in> publishers_of tr \<and> PORT_LIST_SUBJECT \<in> publishers_of tr"

definition mask_uses :: "ServiceIDList \<Rightarrow> ServiceId \<Rightarrow> bool" where
  "mask_uses l service \<longleftrightarrow> bit_at (ba_bytes (ServiceIDList_mask l)) (unat (service_bits service))"

definition list_inv :: "PortList \<Rightarrow> node_event list \<Rightarrow> bool" where
  "list_inv l tr \<longleftrightarrow> subject_list_wf (pl_publishers l) \<and> subject_list_wf (pl_subscribers l) \<and>
     ServiceIDList_valid (pl_clients l) \<and> ServiceIDList_valid (pl_servers l) \<and>
     (\<forall>s. subject_wf s \<longrightarrow> list_uses (pl_publishers l) s = (s \<in> publishers_of tr)) \<and>
     (\<forall>s. subject_wf s \<longrightarrow> list_uses (pl_subscribers l) s = (s \<in> subscribers_of tr)) \<and>
     (\<forall>s. service_wf s \<longrightarrow> mask_uses (pl_clients l) s = (s \<in> clients_of tr)) \<and>
     (\<forall>s. service_wf s \<longrightarrow> mask_uses (pl_servers l) s = (s \<in> servers_of tr))"

definition node_inv :: "('tx, 'rx, 'dr, 'c, 'd, 't, 'p, 'n) BasicNode \<Rightarrow> node_event list \<Rightarrow> bool" where
  "node_inv self tr \<longleftrightarrow> (undisturbed tr \<longrightarrow> ports_inv (basic_node self) tr) \<and> list_inv (bn_port_list self) tr \<and>
     mn_heartbeat_token (bn_node self) = PublishToken HEARTBEAT_SUBJECT \<and>
     bn_port_list_token self = PublishToken PORT_LIST_SUBJECT \<and>
     bn_seconds_since_port_list_published self \<le> 10 \<and> Heartbeat_valid (mn_heartbeat (bn_node self))"

lemma successful_simps [simp]: "successful (Inl e) ev tr = tr" "successful (Inr x) ev tr = ev # tr"
  by (simp_all add: successful_def)

lemma list_inv_Disturbed [simp]: "list_inv l (Disturbed # tr) = list_inv l tr"
  by (simp add: list_inv_def)

lemma put_basic_node_simps [simp]:
  "basic_node (put_basic_node node self) = node" "bn_port_list (put_basic_node node self) = bn_port_list self"
  "mn_heartbeat_token (bn_node (put_basic_node node self)) = mn_heartbeat_token (bn_node self)"
  "mn_heartbeat (bn_node (put_basic_node node self)) = mn_heartbeat (bn_node self)"
  "bn_port_list_token (put_basic_node node self) = bn_port_list_token self"
  "bn_seconds_since_port_list_published (put_basic_node node self) = bn_seconds_since_port_list_published self"
  by (simp_all add: basic_node_def put_basic_node_def)

lemma basic_node_port_list [simp]: "basic_node (self\<lparr>bn_port_list := l\<rparr>) = basic_node self"
  by (simp add: basic_node_def)

lemma ports_inv_same: "same_ports node node' \<Longrightarrow> ports_inv node' tr = ports_inv node tr"
  by (simp add: ports_inv_def same_portsD)

lemma node_inv_same_ports:
  "node_inv self tr \<Longrightarrow> same_ports (basic_node self) node \<Longrightarrow> node_inv (put_basic_node node self) tr"
  by (simp add: node_inv_def ports_inv_same)

lemma node_mut_inv: "node_inv self tr \<Longrightarrow> node_inv (put_basic_node node self) (from_outside (basic_node self) node tr)"
  using node_inv_same_ports [of self tr node] by (auto simp: from_outside_def node_inv_def)

lemma service_index: "service_wf s \<Longrightarrow> unat (service_bits s) < 512"
  by (simp add: service_wf_def VALID_SERVICE_IDS_end_def word_le_nat_alt)

lemma unat_service_inject [simp]: "unat (service_bits a) = unat (service_bits b) \<longleftrightarrow> a = b"
  by (cases a; cases b) (simp add: word_unat_eq_iff)

lemma services_set:
  assumes "ServiceIDList_valid l" and "service_wf s"
  obtains msk where "ba_set (unat (service_bits s)) v (ServiceIDList_mask l) = Some msk" and "ServiceIDList_valid (ServiceIDList msk)"
    and "\<And>x. mask_uses (ServiceIDList msk) x = (if x = s then v else mask_uses l x)"
proof -
  have "ba_inv (ServiceIDList_mask l)" "unat (service_bits s) < ba_bit_length (ServiceIDList_mask l)"
    using assms service_index by (simp_all add: ba_inv_def ServiceIDList_valid_def)
  from ba_set_spec [OF this, of v] that assms(1) show ?thesis by (auto simp: ServiceIDList_valid_def mask_uses_def)
qed

section \<open>Every operation keeps the invariant\<close>

lemma well_known_wf [simp]:
  "subject_wf HEARTBEAT_SUBJECT" "subject_wf PORT_LIST_SUBJECT" "service_wf GET_INFO_SERVICE" "HEARTBEAT_SUBJECT \<noteq> PORT_LIST_SUBJECT"
proof -
  show "subject_wf HEARTBEAT_SUBJECT" "subject_wf PORT_LIST_SUBJECT" "service_wf GET_INFO_SERVICE"
    by (simp_all add: HEARTBEAT_SUBJECT_def PORT_LIST_SUBJECT_def GET_INFO_SERVICE_def wf_intros)
  show "HEARTBEAT_SUBJECT \<noteq> PORT_LIST_SUBJECT" by code_simp
qed

lemma start_publishing_inv:
  assumes "index_map_law N (ne_publishers env)" and "hvec_law 255 hv" and "node_inv self tr" and "subject_wf subject"
    and "basic_start_publishing env hv subject timeout priority self = Some (r, self')"
  shows "node_inv self' (successful r (Published subject) tr)"
proof -
  obtain a node where a: "core_start_publishing env subject timeout priority (basic_node self) = (a, node)" by fastforce
  have inv: "undisturbed tr \<Longrightarrow> ports_inv (basic_node self) tr" "list_inv (bn_port_list self) tr" using assms(3) by (simp_all add: node_inv_def)
  note ports = core_start_publishing_ports [OF assms(1) _ a]
  show ?thesis
  proof (cases a)
    case (Inl e)
    then show ?thesis using assms(3,5) a ports by (auto simp: basic_start_publishing_def node_inv_def ports_inv_def)
  next
    case (Inr token)
    have "subject_list_wf (pl_publishers (bn_port_list self))" using inv(2) by (simp add: list_inv_def)
    from insert_into_list_spec [OF assms(2) this assms(4)]
    obtain l where l: "insert_into_list hv (pl_publishers (bn_port_list self)) subject = Some l" "subject_list_wf l"
      "\<forall>x. list_uses l x \<longleftrightarrow> x = subject \<or> list_uses (pl_publishers (bn_port_list self)) x"
      by auto
    have "undisturbed tr \<Longrightarrow> ports_inv node (Published subject # tr)" using inv(1) ports Inr by (auto simp: ports_inv_def)
    moreover have "list_inv ((bn_port_list self)\<lparr>pl_publishers := l\<rparr>) (Published subject # tr)" using inv(2) l(2,3) by (auto simp: list_inv_def)
    ultimately show ?thesis using assms(3,5) a Inr l(1) by (auto simp: basic_start_publishing_def node_inv_def)
  qed
qed

lemma stop_publishing_inv:
  assumes "index_map_law N (ne_publishers env)" and "node_inv self tr" and "subject_wf (token_subject token)"
    and "undisturbed tr \<Longrightarrow> token_subject token \<in> publishers_of tr - {HEARTBEAT_SUBJECT, PORT_LIST_SUBJECT}"
    and "basic_stop_publishing env token self = Some self'"
  shows "node_inv self' (Unpublished (token_subject token) # tr)"
proof -
  have inv: "undisturbed tr \<Longrightarrow> ports_inv (basic_node self) tr" "list_inv (bn_port_list self) tr" using assms(2) by (simp_all add: node_inv_def)
  let ?node = "core_stop_publishing env token (basic_node self)"
  note ports = core_stop_publishing_ports [OF assms(1), of "basic_node self" token]
  have "subject_list_wf (pl_publishers (bn_port_list self))" using inv(2) by (simp add: list_inv_def)
  from remove_from_list_spec [OF this assms(3)]
  obtain l where l: "remove_from_list (pl_publishers (bn_port_list self)) (token_subject token) = Some l" "subject_list_wf l"
    "\<forall>x. subject_wf x \<longrightarrow> (list_uses l x \<longleftrightarrow> x \<noteq> token_subject token \<and> list_uses (pl_publishers (bn_port_list self)) x)"
    by auto
  have "undisturbed tr \<Longrightarrow> ports_inv ?node (Unpublished (token_subject token) # tr)"
    using inv(1) ports assms(4) by (auto simp: ports_inv_def)
  moreover have "list_inv ((bn_port_list self)\<lparr>pl_publishers := l\<rparr>) (Unpublished (token_subject token) # tr)"
    using inv(2) l(2,3) by (auto simp: list_inv_def)
  ultimately show ?thesis using assms(2,5) l(1) by (auto simp: basic_stop_publishing_def node_inv_def)
qed

lemma start_requests_inv:
  assumes "index_map_law N (ne_requesters env)" and "node_inv self tr" and "service_wf service"
    and "basic_start_sending_requests env service timeout n priority self = Some (r, self')"
  shows "node_inv self' (successful r (Requesting service) tr)"
proof -
  obtain a node where a: "core_start_sending_requests env service timeout n priority (basic_node self) = Some (a, node)"
    using assms(4) by (auto simp: basic_start_sending_requests_def bind_eq_Some_conv)
  have inv: "undisturbed tr \<Longrightarrow> ports_inv (basic_node self) tr" "list_inv (bn_port_list self) tr" using assms(2) by (simp_all add: node_inv_def)
  note ports = core_start_sending_requests_ports [OF assms(1) _ a]
  show ?thesis
  proof (cases a)
    case (Inl e)
    then show ?thesis using assms(2,4) a ports by (auto simp: basic_start_sending_requests_def node_inv_def ports_inv_def)
  next
    case (Inr token)
    have "ServiceIDList_valid (pl_clients (bn_port_list self))" using inv(2) by (simp add: list_inv_def)
    then obtain m where m: "ba_set (unat (service_bits service)) True (ServiceIDList_mask (pl_clients (bn_port_list self))) = Some m"
      "ServiceIDList_valid (ServiceIDList m)"
      "\<And>x. mask_uses (ServiceIDList m) x = (if x = service then True else mask_uses (pl_clients (bn_port_list self)) x)"
      using services_set [OF _ assms(3), of _ True] by blast
    have "undisturbed tr \<Longrightarrow> ports_inv node (Requesting service # tr)" using inv(1) ports Inr by (auto simp: ports_inv_def)
    moreover have "list_inv ((bn_port_list self)\<lparr>pl_clients := ServiceIDList m\<rparr>) (Requesting service # tr)"
      using inv(2) m(2,3) by (auto simp: list_inv_def)
    ultimately show ?thesis using assms(2,4) a Inr m(1) by (auto simp: basic_start_sending_requests_def node_inv_def)
  qed
qed

lemma stop_requests_inv:
  assumes "index_map_law N (ne_requesters env)" and "node_inv self tr" and "service_wf (token_service token)"
    and "basic_stop_sending_requests env token self = Some self'"
  shows "node_inv self' (Unrequesting (token_service token) # tr)"
proof -
  have inv: "undisturbed tr \<Longrightarrow> ports_inv (basic_node self) tr" "list_inv (bn_port_list self) tr" using assms(2) by (simp_all add: node_inv_def)
  let ?node = "core_stop_sending_requests env token (basic_node self)"
  note ports = core_stop_sending_requests_ports [OF assms(1), of "basic_node self" token]
  have "ServiceIDList_valid (pl_clients (bn_port_list self))" using inv(2) by (simp add: list_inv_def)
  then obtain m where m: "ba_set (unat (service_bits (token_service token))) False (ServiceIDList_mask (pl_clients (bn_port_list self))) = Some m"
    "ServiceIDList_valid (ServiceIDList m)"
    "\<And>x. mask_uses (ServiceIDList m) x = (if x = token_service token then False else mask_uses (pl_clients (bn_port_list self)) x)"
    using services_set [OF _ assms(3), of _ False] by blast
  have "undisturbed tr \<Longrightarrow> ports_inv ?node (Unrequesting (token_service token) # tr)" using inv(1) ports by (auto simp: ports_inv_def)
  moreover have "list_inv ((bn_port_list self)\<lparr>pl_clients := ServiceIDList m\<rparr>) (Unrequesting (token_service token) # tr)"
    using inv(2) m(2,3) by (auto simp: list_inv_def)
  ultimately show ?thesis using assms(2,4) m(1) by (auto simp: basic_stop_sending_requests_def node_inv_def)
qed

lemma subscribe_message_inv:
  assumes "hvec_law 255 hv" and "node_inv self tr" and "subject_wf subject"
    and "basic_subscribe_message env hv subject n timeout self = Some (r, self')"
  shows "node_inv self' (successful r (Subscribed subject) tr)"
proof -
  obtain a node where a: "core_subscribe_message env subject n timeout (basic_node self) = Some (a, node)"
    using assms(4) by (auto simp: basic_subscribe_message_def bind_eq_Some_conv)
  have put: "node_inv (put_basic_node node self) tr"
    by (rule node_inv_same_ports [OF assms(2) core_subscribe_message_ports [OF a]])
  then have "subject_list_wf (pl_subscribers (bn_port_list self))" by (simp add: node_inv_def list_inv_def)
  then obtain l where "insert_into_list hv (pl_subscribers (bn_port_list self)) subject = Some l" "subject_list_wf l"
    "\<forall>x. list_uses l x \<longleftrightarrow> x = subject \<or> list_uses (pl_subscribers (bn_port_list self)) x"
    using insert_into_list_spec [OF assms(1) _ assms(3)] by blast
  with put a assms(4) show ?thesis
    by (cases a) (auto simp: basic_subscribe_message_def node_inv_def list_inv_def ports_inv_def)
qed

lemma subscribe_request_inv:
  assumes "node_inv self tr" and "service_wf service"
    and "basic_subscribe_request env service n timeout self = Some (r, self')"
  shows "node_inv self' (successful r (Serving service) tr)"
proof -
  obtain a node where a: "core_subscribe_request env service n timeout (basic_node self) = Some (a, node)"
    using assms(3) by (auto simp: basic_subscribe_request_def bind_eq_Some_conv)
  have put: "node_inv (put_basic_node node self) tr"
    by (rule node_inv_same_ports [OF assms(1) core_subscribe_request_ports [OF a]])
  then have "ServiceIDList_valid (pl_servers (bn_port_list self))" by (simp add: node_inv_def list_inv_def)
  then obtain m where "ba_set (unat (service_bits service)) True (ServiceIDList_mask (pl_servers (bn_port_list self))) = Some m"
    "ServiceIDList_valid (ServiceIDList m)"
    "\<And>x. mask_uses (ServiceIDList m) x = (if x = service then True else mask_uses (pl_servers (bn_port_list self)) x)"
    using services_set [OF _ assms(2), of _ True] by blast
  with put a assms(3) show ?thesis
    by (cases a) (auto simp: basic_subscribe_request_def node_inv_def list_inv_def ports_inv_def split: if_splits)
qed

text \<open>The operations that leave the ports of the inner node alone.\<close>

lemma passing_inv:
  assumes "node_inv self tr"
  shows "basic_publish env token payload self = Some (r, self') \<Longrightarrow> node_inv self' tr"
    and "basic_send_request env stoken payload destination self = Some (rt, self') \<Longrightarrow> node_inv self' tr"
    and "basic_send_response env rtoken timeout payload self = Some (r, self') \<Longrightarrow> node_inv self' tr"
    and "basic_flush env self = Some (r, self') \<Longrightarrow> node_inv self' tr"
    and "publish_port_list env self = Some (r, self') \<Longrightarrow> node_inv self' tr"
  using node_inv_same_ports [OF assms]
  by (auto simp: basic_publish_def basic_send_request_def basic_send_response_def basic_flush_def publish_port_list_def
      bind_eq_Some_conv dest: core_publish_ports core_send_request_ports core_send_response_ports core_flush_ports)

lemma basic_receive_put:
  assumes "basic_receive env handler h self = Some (r, h', self')"
  obtains a node where "core_receive env (handler_chain (node_info_handler env) handler) (bn_node_info self, h) (basic_node self) = Some (r, a, node)"
    and "self' = put_basic_node node self"
  using assms by (auto simp: basic_receive_def bind_eq_Some_conv)

lemma receive_inv:
  assumes "node_inv self tr" and "basic_receive env handler h self = Some (r, h', self')"
  shows "node_inv self' (from_outside (basic_node self) (basic_node self') tr)"
proof -
  obtain node where "self' = put_basic_node node self" using basic_receive_put [OF assms(2)] by blast
  then show ?thesis using node_mut_inv [OF assms(1), of node] by simp
qed

text \<open>Receiving with a handler that leaves the ports alone does not disturb the node.\<close>

lemma receive_undisturbed:
  assumes "keeps_ports handler" and "basic_receive env handler h self = Some (r, h', self')"
  shows "from_outside (basic_node self) (basic_node self') tr = tr"
proof -
  obtain a node where node: "core_receive env (handler_chain (node_info_handler env) handler) (bn_node_info self, h) (basic_node self) = Some (r, a, node)"
    and self': "self' = put_basic_node node self"
    using basic_receive_put [OF assms(2)] by blast
  have "same_ports (basic_node self) node"
    by (rule core_receive_ports [OF chain_keeps_ports [OF node_info_keeps_ports assms(1)] node])
  then show ?thesis by (simp add: self' from_outside_def)
qed

lemma send_heartbeat_inv:
  assumes "node_inv self tr" and "send_heartbeat env (bn_node self) = Some (r, minimal)"
  shows "node_inv (self\<lparr>bn_node := minimal\<rparr>) tr"
proof -
  obtain payload u node where node: "core_publish env (mn_heartbeat_token (bn_node self)) payload (basic_node self) = Some (r, node)"
    and minimal: "minimal = (bn_node self)\<lparr>mn_heartbeat := (mn_heartbeat (bn_node self))\<lparr>hb_uptime := u\<rparr>, mn_node := node\<rparr>"
    using assms(2) by (auto simp: send_heartbeat_def bind_eq_Some_conv basic_node_def Let_def)
  have "node_inv (put_basic_node node self) tr" by (rule node_inv_same_ports [OF assms(1) core_publish_ports [OF node]])
  then show ?thesis by (simp add: minimal node_inv_def put_basic_node_def basic_node_def Heartbeat_valid_def)
qed

lemma counter_step: "(n :: u8) \<le> 10 \<Longrightarrow> n \<noteq> 10 \<Longrightarrow> n + 1 \<le> 10 \<and> n \<noteq> 0xff"
proof -
  assume "n \<le> 10" "n \<noteq> 10"
  then have "unat n < 10" by (auto simp: word_le_nat_alt word_unat_eq_iff)
  then have "unat (n + 1) = unat n + 1" by (simp add: unat_word_ariths)
  with \<open>unat n < 10\<close> show ?thesis by (auto simp: word_le_nat_alt)
qed

lemma per_second_inv:
  assumes "node_inv self tr" and "basic_run_per_second_tasks dbg env self = Some (r, self')"
  shows "node_inv self' tr"
proof -
  obtain a minimal where a: "send_heartbeat env (bn_node self) = Some (a, minimal)"
    using assms(2) by (auto simp: basic_run_per_second_tasks_def minimal_run_per_second_tasks_def bind_eq_Some_conv)
  let ?self = "self\<lparr>bn_node := minimal\<rparr>"
  have inv: "node_inv ?self tr" by (rule send_heartbeat_inv [OF assms(1) a])
  have count: "node_inv (?self\<lparr>bn_seconds_since_port_list_published := n\<rparr>) tr" if "n \<le> 10" for n
    using inv that by (simp add: node_inv_def basic_node_def)
  have "bn_seconds_since_port_list_published self \<le> 10" using assms(1) by (simp add: node_inv_def)
  then show ?thesis
    using assms(2) a inv count [of 1] count [of "bn_seconds_since_port_list_published self + 1"] counter_step
      passing_inv(5) [of "?self\<lparr>bn_seconds_since_port_list_published := 1\<rparr>"]
    by (cases a) (auto simp: basic_run_per_second_tasks_def minimal_run_per_second_tasks_def Let_def split: if_splits)
qed

lemma settings_inv:
  "node_inv self tr \<Longrightarrow> Mode_valid mode \<Longrightarrow> node_inv (basic_set_mode mode self) tr"
  "node_inv self tr \<Longrightarrow> Health_valid health \<Longrightarrow> node_inv (basic_set_health health self) tr"
  "node_inv self tr \<Longrightarrow> node_inv (basic_set_status_code status self) tr"
  by (simp_all add: node_inv_def basic_node_def basic_set_mode_def basic_set_health_def basic_set_status_code_def
      minimal_set_mode_def minimal_set_health_def minimal_set_status_code_def Heartbeat_valid_def)

lemma initial_port_list_inv:
  assumes "hvec_law 255 hv" and "initial_port_list hv = Some l"
  shows "list_inv l []"
proof -
  have "ServiceIDList_valid (ServiceIDList \<lparr>ba_bytes = replicate 64 0, ba_bit_length = 512\<rparr>)" (is "ServiceIDList_valid ?l")
    by (simp add: ServiceIDList_valid_def)
  moreover have none: "\<not> mask_uses ?l s" for s by (simp add: mask_uses_def bit_at_def)
  moreover obtain m where "ba_set (unat (service_bits GET_INFO_SERVICE)) True (ServiceIDList_mask ?l) = Some m" "ServiceIDList_valid (ServiceIDList m)"
    "\<And>x. mask_uses (ServiceIDList m) x = (if x = GET_INFO_SERVICE then True else mask_uses ?l x)"
    using services_set [OF calculation(1) well_known_wf(3), of True] by blast
  moreover have "SubjectID (subject_bits s) = SubjectID (subject_bits x) \<longleftrightarrow> s = x" for s x by (cases s; cases x) simp
  moreover have "SubjectID (subject_bits HEARTBEAT_SUBJECT) \<noteq> SubjectID (subject_bits PORT_LIST_SUBJECT)" by code_simp
  ultimately show ?thesis
    using assms(2) hvec_lawD(1) [OF assms(1)]
    by (auto simp: initial_port_list_def bit_array_new_def list_inv_def split: if_splits)
qed

lemma minimal_new_Inr:
  assumes "minimal_new env node = Some (Inr minimal)"
  obtains timeout token node' where "core_start_publishing env HEARTBEAT_SUBJECT timeout (ne_priority_from env Nominal) node = (Inr token, node')"
    and "minimal = \<lparr>mn_node = node', mn_heartbeat = \<lparr>hb_uptime = 0, hb_health = Health 0, hb_mode = Mode 0,
      hb_vendor_specific_status_code = 0\<rparr>, mn_heartbeat_token = token\<rparr>"
proof -
  obtain timeout where t: "ne_from_millis env 500 = Some timeout" using assms by (auto simp: minimal_new_def bind_eq_Some_conv)
  obtain a node' where a: "core_start_publishing env HEARTBEAT_SUBJECT timeout (ne_priority_from env Nominal) node = (a, node')" by fastforce
  show ?thesis using that [of timeout] assms t a by (cases a) (auto simp: minimal_new_def)
qed

lemma basic_new_inv:
  assumes "index_map_law N (ne_publishers env)" and "hvec_law 255 hv"
    and "basic_new env hv (core_new clock node_id tx rx dr) info = Some (Inr self)"
  shows "node_inv self []"
proof -
  let ?node0 = "core_new clock node_id tx rx dr"
  obtain timeout where t: "ne_from_millis env 1000 = Some timeout" using assms(3) by (auto simp: basic_new_def bind_eq_Some_conv)
  obtain a node1 where a: "core_subscribe_request env GET_INFO_SERVICE 0 timeout ?node0 = Some (a, node1)"
    using assms(3) t by (auto simp: basic_new_def bind_eq_Some_conv)
  then have n1: "core_subscribe_request env GET_INFO_SERVICE 0 timeout ?node0 = Some (Inr (), node1)"
    using assms(3) t by (cases a) (auto simp: basic_new_def)
  obtain token node2 where n2: "core_start_publishing env PORT_LIST_SUBJECT timeout (ne_priority_from env Optional) node1 = (Inr token, node2)"
    using assms(3) t n1 by (auto simp: basic_new_def split: sum.splits prod.splits)
  obtain b where b: "minimal_new env node2 = Some b"
    using assms(3) t n1 n2 by (auto simp: basic_new_def bind_eq_Some_conv)
  obtain minimal l where m: "minimal_new env node2 = Some (Inr minimal)" "initial_port_list hv = Some l"
    and self: "self = \<lparr>bn_node = minimal, bn_port_list_token = token, bn_port_list = l, bn_node_info = info, bn_seconds_since_port_list_published = 0\<rparr>"
    using assms(3) t n1 n2 b by (cases b) (auto simp: basic_new_def bind_eq_Some_conv)
  obtain timeout' token' node3 where n3: "core_start_publishing env HEARTBEAT_SUBJECT timeout' (ne_priority_from env Nominal) node2 = (Inr token', node3)"
    and minimal: "minimal = \<lparr>mn_node = node3, mn_heartbeat = \<lparr>hb_uptime = 0, hb_health = Health 0, hb_mode = Mode 0,
      hb_vendor_specific_status_code = 0\<rparr>, mn_heartbeat_token = token'\<rparr>"
    using minimal_new_Inr [OF m(1)] by blast
  have "core_wf ?node0" "published ?node0 = {}" "requested ?node0 = {}" by (simp_all add: core_new_def core_wf_def published_def requested_def)
  then have 1: "core_wf node1" "published node1 = {}" "requested node1 = {}"
    using same_portsD [OF core_subscribe_request_ports [OF n1]] by simp_all
  then have 2: "core_wf node2" "published node2 = {PORT_LIST_SUBJECT}" "requested node2 = {}" "token = PublishToken PORT_LIST_SUBJECT"
    using core_start_publishing_ports [OF assms(1) 1(1) n2] by simp_all
  then have 3: "core_wf node3" "published node3 = {HEARTBEAT_SUBJECT, PORT_LIST_SUBJECT}" "requested node3 = {}"
    "token' = PublishToken HEARTBEAT_SUBJECT"
    using core_start_publishing_ports [OF assms(1) 2(1) n3] by auto
  then show ?thesis using initial_port_list_inv [OF assms(2) m(2)] 2(4)
    by (simp add: self minimal node_inv_def basic_node_def ports_inv_def Heartbeat_valid_def Health_valid_def Mode_valid_def)
qed

lemma node_reachable_inv:
  assumes "index_map_law N (ne_publishers env)" and "index_map_law R (ne_requesters env)" and "hvec_law 255 hv"
    and "node_reachable dbg env hv handler self tr"
  shows "node_inv self tr"
  using assms(4)
  by induction (blast intro: basic_new_inv [OF assms(1,3)] start_publishing_inv [OF assms(1,3)] stop_publishing_inv [OF assms(1)]
      start_requests_inv [OF assms(2)] stop_requests_inv [OF assms(2)] subscribe_message_inv [OF assms(3)] subscribe_request_inv
      passing_inv receive_inv node_mut_inv per_second_inv settings_inv)+

section \<open>Publishing returns\<close>

text \<open>The transport and the instant arithmetic do not panic.\<close>

definition transport_total :: "('tx, 'rx, 'dr, 'c, 'i, 'd, 't, 'p, 'n, 'e, 'f) node_env \<Rightarrow> bool" where
  "transport_total env \<longleftrightarrow> (\<forall>t tx c dr. tm_push (ne_transmitter env) t tx c dr \<noteq> None) \<and> (\<forall>d i. ne_add env d i \<noteq> None)"

text \<open>A payload can be serialized into a buffer of the size it reports.\<close>

definition payload_fits :: "serializable \<Rightarrow> bool" where
  "payload_fits payload \<longleftrightarrow>
     sz_serialize payload (write_cursor_new (replicate ((sz_size_bits payload + 7) div 8) 0)) \<noteq> None"

lemma do_serialize_total:
  assumes "payload_fits payload" and "\<And>bytes. operation bytes s \<noteq> None"
  shows "do_serialize mem oom payload operation s \<noteq> None"
  using assms by (auto simp: do_serialize_def Let_def payload_fits_def STACK_THRESHOLD_def min_def)

lemma core_publish_total:
  assumes "transport_total env" and "token_subject token \<in> published node" and "payload_fits payload"
  shows "core_publish env token payload node \<noteq> None"
proof -
  obtain publisher where p: "map_of (cn_publishers node) (token_subject token) = Some publisher"
    using assms(2) by (auto simp: published_def)
  obtain now clock where now: "ne_now env (cn_clock node) = (now, clock)" by fastforce
  obtain deadline where d: "ne_add env (pb_timeout publisher) now = Some deadline"
    using assms(1) unfolding transport_total_def by fast
  have "publisher_send_payload env (token_subject token) deadline bytes (publisher, tx, c, dr) \<noteq> None" for bytes tx c dr
    using assms(1) by (auto simp: publisher_send_payload_def transport_total_def Let_def bind_eq_None_conv split: prod.splits)
  then have "do_serialize (ne_mem env) (ne_oom env) payload (publisher_send_payload env (token_subject token) deadline)
      (publisher, cn_transmitter node, clock, cn_driver node) \<noteq> None"
    by (rule do_serialize_total [OF assms(3)])
  then have "publisher_publish env (token_subject token) payload (publisher, cn_transmitter node, cn_clock node, cn_driver node) \<noteq> None"
    using now d by (auto simp: publisher_publish_def)
  with p show ?thesis by (auto simp: core_publish_def)
qed

lemma heartbeat_fits: "Heartbeat_valid hb \<Longrightarrow> payload_fits (serializable_of Heartbeat_impl hb)"
  using heartbeat.serialized_roundtrip(1) [of hb]
  by (auto simp: payload_fits_def serializable_of_def serialize_to_bytes_def bind_eq_Some_conv)

lemma port_list_fits: "PortList_valid l \<Longrightarrow> payload_fits (serializable_of PortList_impl l)"
  using port_list.serialized_roundtrip(1) [of l]
  by (auto simp: payload_fits_def serializable_of_def serialize_to_bytes_def bind_eq_Some_conv)

lemma list_inv_valid: "list_inv l tr \<Longrightarrow> PortList_valid l"
  by (simp add: list_inv_def PortList_valid_def subject_list_wf_valid)

lemma per_second_total:
  assumes "transport_total env" and "node_inv self tr" and "undisturbed tr"
  shows "basic_run_per_second_tasks dbg env self \<noteq> None"
proof -
  have hb: "mn_heartbeat_token (bn_node self) = PublishToken HEARTBEAT_SUBJECT" "HEARTBEAT_SUBJECT \<in> published (basic_node self)"
    "Heartbeat_valid (mn_heartbeat (bn_node self))"
    using assms(2,3) by (auto simp: node_inv_def ports_inv_def)
  have "Heartbeat_valid ((mn_heartbeat (bn_node self))\<lparr>hb_uptime := u\<rparr>)" for u using hb(3) by (simp add: Heartbeat_valid_def)
  then have "send_heartbeat env (bn_node self) \<noteq> None"
    using core_publish_total [OF assms(1) _ heartbeat_fits] hb(1,2)
    by (auto simp: send_heartbeat_def Let_def basic_node_def bind_eq_None_conv split: prod.splits)
  then obtain a minimal where a: "send_heartbeat env (bn_node self) = Some (a, minimal)" by auto
  let ?self = "self\<lparr>bn_node := minimal, bn_seconds_since_port_list_published := 1\<rparr>"
  have "node_inv (self\<lparr>bn_node := minimal\<rparr>) tr" by (rule send_heartbeat_inv [OF assms(2) a])
  then have "bn_port_list_token ?self = PublishToken PORT_LIST_SUBJECT" "PORT_LIST_SUBJECT \<in> published (basic_node ?self)"
    "PortList_valid (bn_port_list ?self)"
    using list_inv_valid assms(3) by (auto simp: node_inv_def ports_inv_def basic_node_def)
  then have "publish_port_list env ?self \<noteq> None"
    using core_publish_total [OF assms(1) _ port_list_fits] by (auto simp: publish_port_list_def bind_eq_None_conv split: prod.splits)
  moreover have "bn_seconds_since_port_list_published self \<noteq> 0xff" using assms(2) by (auto simp: node_inv_def)
  ultimately show ?thesis using a
    by (cases a) (auto simp: basic_run_per_second_tasks_def minimal_run_per_second_tasks_def Let_def)
qed

section \<open>Concrete instances\<close>

lemma default_keeps_ports [simp]: "keeps_ports default_handler"
  by (simp add: keeps_ports_def default_handler_def same_ports_def)

text \<open>A transmitter that keeps what is pushed, and a receiver that never receives.\<close>

definition recorder :: "((u8 list, 'i, 't, 'p, 'n) Transfer list, 'dr, 'c, 'i, 't, 'p, 'n, 'e) transmitter_ops" where
  "recorder = \<lparr>tm_push = (\<lambda>t tx c dr. Some (Inr (), tx @ [t], c, dr)), tm_flush = (\<lambda>tx c dr. Some (Inr (), tx, c, dr)), tm_mtu = (\<lambda>_. 64)\<rparr>"

definition silent_receiver :: "(unit, 'dr, 'i, 'd, 't, 'p, 'n, 'f) receiver_ops" where
  "silent_receiver = \<lparr>rv_receive = (\<lambda>_ rx dr. Some (Inr None, rx, dr)), rv_subscribe_message = (\<lambda>_ _ _ rx dr. Some (Inr (), rx, dr)),
     rv_unsubscribe_message = (\<lambda>_ rx dr. Some (rx, dr)), rv_subscribe_request = (\<lambda>_ _ _ rx dr. Some (Inr (), rx, dr)),
     rv_unsubscribe_request = (\<lambda>_ rx dr. Some (rx, dr)), rv_subscribe_response = (\<lambda>_ _ _ rx dr. Some (Inr (), rx, dr)),
     rv_unsubscribe_response = (\<lambda>_ rx dr. Some (rx, dr))\<rparr>"

definition example_env ::
  "((u8 list, nat, nat, Priority, nat) Transfer list, unit, unit, nat, nat, nat, nat, Priority, nat, unit, unit) node_env" where
  "example_env = \<lparr>ne_transmitter = recorder, ne_receiver = silent_receiver, ne_now = (\<lambda>c. (c, c)), ne_add = (\<lambda>d i. Some (d + i)),
     ne_from_millis = (\<lambda>ms. Some (unat ms)), ne_tid_default = 0, ne_tid_increment = Suc, ne_priority_from = id, ne_mem = (\<lambda>_. True),
     ne_oom = (), ne_publishers = list_index_map 8, ne_requesters = list_index_map 8, ne_transfer_ids = list_index_map 8\<rparr>"

definition example_core ::
  "((u8 list, nat, nat, Priority, nat) Transfer list, unit, unit, nat, nat, nat, Priority, nat) core_node" where
  "example_core = core_new 0 42 [] () ()"

definition example_basic ::
  "((u8 list, nat, nat, Priority, nat) Transfer list, unit, unit, nat, nat, nat, Priority, nat) BasicNode" where
  "example_basic = projr (the (basic_new example_env (list_hvec 255) example_core example_info))"

lemma example_basic_new: "basic_new example_env (list_hvec 255) example_core example_info = Some (Inr example_basic)"
  by code_simp

text \<open>The example node after the application has started to publish on subject 100.\<close>

definition example_publishing ::
  "((u8 list, nat, nat, Priority, nat) Transfer list, unit, unit, nat, nat, nat, Priority, nat) BasicNode" where
  "example_publishing =
     snd (the (basic_start_publishing example_env (list_hvec 255) (SubjectId 100) 5 Nominal example_basic))"

lemma example_publishing_start:
  "basic_start_publishing example_env (list_hvec 255) (SubjectId 100) 5 Nominal example_basic
     = Some (Inr (PublishToken (SubjectId 100)), example_publishing)"
  by code_simp

lemma example_reachable:
  "node_reachable dbg example_env (list_hvec 255) handler example_publishing [Published (SubjectId 100)]"
  using reach_start_publishing [OF reach_new [OF example_basic_new [unfolded example_core_def]] _ example_publishing_start]
  by (simp add: subject_wf_def VALID_SUBJECT_IDS_end_def)

text \<open>The same node after the application has started to publish on subject 200 through the inner node.\<close>

definition example_disturbed_core ::
  "((u8 list, nat, nat, Priority, nat) Transfer list, unit, unit, nat, nat, nat, Priority, nat) core_node" where
  "example_disturbed_core = snd (core_start_publishing example_env (SubjectId 200) 5 Nominal (basic_node example_publishing))"

lemma example_disturbed_published:
  "SubjectId 200 \<in> published example_disturbed_core" "\<not> same_ports (basic_node example_publishing) example_disturbed_core"
proof -
  have "map fst (cn_publishers example_disturbed_core) = [PORT_LIST_SUBJECT, HEARTBEAT_SUBJECT, SubjectId 100, SubjectId 200]"
    "map fst (cn_publishers (basic_node example_publishing)) = [PORT_LIST_SUBJECT, HEARTBEAT_SUBJECT, SubjectId 100]"
    by code_simp+
  then show "SubjectId 200 \<in> published example_disturbed_core" "\<not> same_ports (basic_node example_publishing) example_disturbed_core"
    by (simp_all add: same_ports_def published_def dom_map_of_conv_image_fst flip: list.set_map)
qed

lemma example_disturbed_reachable:
  "node_reachable dbg example_env (list_hvec 255) handler (put_basic_node example_disturbed_core example_publishing)
     [Disturbed, Published (SubjectId 100)]"
  using reach_node_mut [OF example_reachable, of dbg handler example_disturbed_core] example_disturbed_published(2)
  by (simp add: from_outside_def)

lemma example_transport_total: "transport_total example_env"
  by (simp add: transport_total_def example_env_def recorder_def)

section \<open>The list of ports is exact\<close>

text \<open>
C6: For a basic node reached by any sequence of calls, with any transfer handler and with any use of the inner node through the
mutable references, the published list of ports is valid for the serializer and names exactly the ports opened and not closed
through the basic node's own operations: publishers (with the heartbeat and port list subjects), subscribers, clients and
servers (with the node information service). What a handler or the application does with the inner node is not
listed. As long as neither changes the publishers and requesters of the inner node, these are exactly the listed
publishers and clients; and if besides the transport and the instant arithmetic do not panic, then the per-second tasks return, in debug
builds as well, and so does publishing a serializable payload on a listed subject.
\<close>

theorem node_port_list_exact:
  assumes "index_map_law N (ne_publishers env)" and "index_map_law R (ne_requesters env)" and "hvec_law 255 hv"
    and "node_reachable dbg env hv handler self tr"
  shows "(\<forall>subject. subject_wf subject \<longrightarrow>
        list_uses (pl_publishers (bn_port_list self)) subject = (subject \<in> publishers_of tr) \<and>
        list_uses (pl_subscribers (bn_port_list self)) subject = (subject \<in> subscribers_of tr)) \<and>
     (\<forall>service. service_wf service \<longrightarrow>
        mask_uses (pl_clients (bn_port_list self)) service = (service \<in> clients_of tr) \<and>
        mask_uses (pl_servers (bn_port_list self)) service = (service \<in> servers_of tr)) \<and>
     PortList_valid (bn_port_list self) \<and>
     (undisturbed tr \<longrightarrow> published (basic_node self) = publishers_of tr \<and> requested (basic_node self) = clients_of tr \<and>
        {HEARTBEAT_SUBJECT, PORT_LIST_SUBJECT} \<subseteq> publishers_of tr \<and>
        (transport_total env \<longrightarrow> basic_run_per_second_tasks dbg env self \<noteq> None \<and>
          (\<forall>token payload. token_subject token \<in> publishers_of tr \<longrightarrow> payload_fits payload \<longrightarrow>
             basic_publish env token payload self \<noteq> None)))"
proof -
  have inv: "node_inv self tr" by (rule node_reachable_inv [OF assms])
  then have l: "undisturbed tr \<longrightarrow> ports_inv (basic_node self) tr" "list_inv (bn_port_list self) tr" by (simp_all add: node_inv_def)
  have "basic_publish env token payload self \<noteq> None"
    if "transport_total env" "undisturbed tr" "token_subject token \<in> publishers_of tr" "payload_fits payload" for token payload
    using core_publish_total [OF that(1) _ that(4), of token "basic_node self"] l(1) that(2,3)
    by (auto simp: basic_publish_def ports_inv_def bind_eq_None_conv split: prod.splits)
  then show ?thesis
    using l list_inv_valid [OF l(2)] per_second_total [OF _ inv, of env dbg] by (simp add: ports_inv_def list_inv_def)
qed

theorem node_port_list_exact_witness:
  "list_uses (pl_publishers (bn_port_list example_publishing)) (SubjectId 100) \<and>
   \<not> list_uses (pl_publishers (bn_port_list example_publishing)) (SubjectId 101) \<and>
   mask_uses (pl_servers (bn_port_list example_publishing)) (ServiceId 430) \<and>
   basic_run_per_second_tasks True example_env example_publishing \<noteq> None \<and>
   basic_publish example_env (PublishToken (SubjectId 100)) (serializable_of Heartbeat_impl example_heartbeat) example_publishing \<noteq> None \<and>
   \<not> list_uses (pl_publishers (bn_port_list (put_basic_node example_disturbed_core example_publishing))) (SubjectId 200) \<and>
   SubjectId 200 \<in> published example_disturbed_core"
proof -
  have env: "index_map_law 8 (ne_publishers example_env)" "index_map_law 8 (ne_requesters example_env)" by (simp_all add: example_env_def)
  have wf: "subject_wf (SubjectId 100)" "subject_wf (SubjectId 101)" "subject_wf (SubjectId 200)" "service_wf (ServiceId 430)"
    by (simp_all add: subject_wf_def VALID_SUBJECT_IDS_end_def service_wf_def VALID_SERVICE_IDS_end_def)
  have fits: "payload_fits (serializable_of Heartbeat_impl example_heartbeat)" by (rule heartbeat_fits) code_simp
  have ids: "HEARTBEAT_SUBJECT = SubjectId 7509" "PORT_LIST_SUBJECT = SubjectId 7510" "GET_INFO_SERVICE = ServiceId 430" by code_simp+
  show ?thesis
    using node_port_list_exact [OF env list_hvec_law example_reachable [where dbg = True and handler = default_handler]] wf fits example_transport_total
      node_port_list_exact [OF env list_hvec_law example_disturbed_reachable [where dbg = True and handler = default_handler]] example_disturbed_published(1)
    by (simp add: ids)
qed

end
