(* ===== verification/Reg_Types.thy ===== *)
theory Reg_Types
  imports Data_Register
begin

text \<open>
  Registers and the types they hold (canadensis: \<^verbatim>\<open>register/basic.rs\<close> and the traits of \<^verbatim>\<open>register.rs\<close>). The traits
  \<^verbatim>\<open>RegisterType\<close> and \<^verbatim>\<open>Register\<close> are records of operations; what their documentation demands is in the locales
  \<open>register_type\<close> and \<open>lawful_register\<close>. Names and string literals are the lists of their bytes. The vectors inside of values are
  \<^verbatim>\<open>heapless::Vec\<close>s, whose \<^verbatim>\<open>from_slice\<close> is the parameter \<open>hv\<close>; \<^verbatim>\<open>extend_from_slice\<close> on a new vector is the same function.
\<close>

section \<open>Traits\<close>

record Access =
  ac_mutable :: bool
  ac_persistent :: bool

datatype WriteError = TypeError

record 'r Register =
  rg_name :: "'r \<Rightarrow> u8 list"
  rg_access :: "'r \<Rightarrow> Access"
  rg_read :: "'r \<Rightarrow> Value option"
  rg_write :: "Value \<Rightarrow> 'r \<Rightarrow> ((WriteError + unit) \<times> 'r) option"

record 'a RegisterType =
  ry_read :: "'a \<Rightarrow> Value option"
  ry_write :: "Value \<Rightarrow> 'a \<Rightarrow> ((WriteError + unit) \<times> 'a) option"

section \<open>Register types\<close>

text \<open>The parameter \<^verbatim>\<open>$variant\<close> of the macros: a variant of \<^verbatim>\<open>Value\<close>, its elements, and the capacity of its vector.\<close>

record 'w value_variant =
  vv_make :: "'w list \<Rightarrow> Value"
  vv_values :: "Value \<Rightarrow> 'w list option"
  vv_capacity :: nat

definition register_primitive :: "'w hvec_ops \<Rightarrow> 'w value_variant \<Rightarrow> 'w RegisterType" where
  "register_primitive hv V =
     \<lparr>ry_read = (\<lambda>self. do { vec \<leftarrow> hv_from_slice hv [self]; Some (vv_make V vec) }),
      ry_write = (\<lambda>v self. Some (case vv_values V v of
         Some values \<Rightarrow> if length values = 1 then (Inr (), values ! 0) else (Inl TypeError, self)
       | None \<Rightarrow> (Inl TypeError, self)))\<rparr>"

definition register_primitive_array :: "'w hvec_ops \<Rightarrow> nat \<Rightarrow> 'w value_variant \<Rightarrow> 'w list RegisterType" where
  "register_primitive_array hv N V =
     \<lparr>ry_read = (\<lambda>self. do {
         value_vec \<leftarrow> (if N \<le> vv_capacity V then hv_from_slice hv self else hv_from_slice hv (take (vv_capacity V) self));
         Some (vv_make V value_vec)
       }),
      ry_write = (\<lambda>v self. Some (case vv_values V v of
         Some values \<Rightarrow> if length values = N then (Inr (), values) else (Inl TypeError, self)
       | None \<Rightarrow> (Inl TypeError, self)))\<rparr>"

definition Natural8_variant :: "u8 value_variant" where
  "Natural8_variant = \<lparr>vv_make = (\<lambda>vs. Value_Natural8 (Natural8 vs)),
     vv_values = (\<lambda>v. case v of Value_Natural8 n \<Rightarrow> Some (Natural8_value n) | _ \<Rightarrow> None), vv_capacity = 256\<rparr>"

definition Natural16_variant :: "u16 value_variant" where
  "Natural16_variant = \<lparr>vv_make = (\<lambda>vs. Value_Natural16 (Natural16 vs)),
     vv_values = (\<lambda>v. case v of Value_Natural16 n \<Rightarrow> Some (Natural16_value n) | _ \<Rightarrow> None), vv_capacity = 128\<rparr>"

definition Natural32_variant :: "u32 value_variant" where
  "Natural32_variant = \<lparr>vv_make = (\<lambda>vs. Value_Natural32 (Natural32 vs)),
     vv_values = (\<lambda>v. case v of Value_Natural32 n \<Rightarrow> Some (Natural32_value n) | _ \<Rightarrow> None), vv_capacity = 64\<rparr>"

definition Natural64_variant :: "u64 value_variant" where
  "Natural64_variant = \<lparr>vv_make = (\<lambda>vs. Value_Natural64 (Natural64 vs)),
     vv_values = (\<lambda>v. case v of Value_Natural64 n \<Rightarrow> Some (Natural64_value n) | _ \<Rightarrow> None), vv_capacity = 32\<rparr>"

definition Integer8_variant :: "u8 value_variant" where
  "Integer8_variant = \<lparr>vv_make = (\<lambda>vs. Value_Integer8 (Integer8 vs)),
     vv_values = (\<lambda>v. case v of Value_Integer8 n \<Rightarrow> Some (Integer8_value n) | _ \<Rightarrow> None), vv_capacity = 256\<rparr>"

definition Integer16_variant :: "u16 value_variant" where
  "Integer16_variant = \<lparr>vv_make = (\<lambda>vs. Value_Integer16 (Integer16 vs)),
     vv_values = (\<lambda>v. case v of Value_Integer16 n \<Rightarrow> Some (Integer16_value n) | _ \<Rightarrow> None), vv_capacity = 128\<rparr>"

definition Integer32_variant :: "u32 value_variant" where
  "Integer32_variant = \<lparr>vv_make = (\<lambda>vs. Value_Integer32 (Integer32 vs)),
     vv_values = (\<lambda>v. case v of Value_Integer32 n \<Rightarrow> Some (Integer32_value n) | _ \<Rightarrow> None), vv_capacity = 64\<rparr>"

definition Integer64_variant :: "u64 value_variant" where
  "Integer64_variant = \<lparr>vv_make = (\<lambda>vs. Value_Integer64 (Integer64 vs)),
     vv_values = (\<lambda>v. case v of Value_Integer64 n \<Rightarrow> Some (Integer64_value n) | _ \<Rightarrow> None), vv_capacity = 32\<rparr>"

definition Real16_variant :: "u16 value_variant" where
  "Real16_variant = \<lparr>vv_make = (\<lambda>vs. Value_Real16 (Real16 vs)),
     vv_values = (\<lambda>v. case v of Value_Real16 n \<Rightarrow> Some (Real16_value n) | _ \<Rightarrow> None), vv_capacity = 128\<rparr>"

definition Real32_variant :: "u32 value_variant" where
  "Real32_variant = \<lparr>vv_make = (\<lambda>vs. Value_Real32 (Real32 vs)),
     vv_values = (\<lambda>v. case v of Value_Real32 n \<Rightarrow> Some (Real32_value n) | _ \<Rightarrow> None), vv_capacity = 64\<rparr>"

definition Real64_variant :: "u64 value_variant" where
  "Real64_variant = \<lparr>vv_make = (\<lambda>vs. Value_Real64 (Real64 vs)),
     vv_values = (\<lambda>v. case v of Value_Real64 n \<Rightarrow> Some (Real64_value n) | _ \<Rightarrow> None), vv_capacity = 32\<rparr>"

datatype RegisterString = RegisterString (register_string_bytes: "u8 list")

definition register_string_type :: "RegisterString RegisterType" where
  "register_string_type =
     \<lparr>ry_read = (\<lambda>self. Some (Value_String (PString (register_string_bytes self)))),
      ry_write = (\<lambda>v self. Some (case v of
         Value_String s \<Rightarrow> (Inr (), RegisterString (PString_value s))
       | _ \<Rightarrow> (Inl TypeError, self)))\<rparr>"

datatype LengthError = LengthError

definition register_string_try_from :: "u8 hvec_ops \<Rightarrow> u8 list \<Rightarrow> LengthError + RegisterString" where
  "register_string_try_from hv v =
     (case hv_from_slice hv v of Some byte_vec \<Rightarrow> Inr (RegisterString byte_vec) | None \<Rightarrow> Inl LengthError)"

text \<open>\<^verbatim>\<open>register::basic::Unstructured\<close>, not the data type of the same name.\<close>

datatype UnstructuredRegister = UnstructuredRegister (unstructured_bytes: "u8 list")

definition unstructured_type :: "UnstructuredRegister RegisterType" where
  "unstructured_type =
     \<lparr>ry_read = (\<lambda>self. Some (Value_Unstructured (Unstructured (unstructured_bytes self)))),
      ry_write = (\<lambda>v self. Some (case v of
         Value_Unstructured s \<Rightarrow> (Inr (), UnstructuredRegister (Unstructured_value s))
       | _ \<Rightarrow> (Inl TypeError, self)))\<rparr>"

definition unstructured_try_from :: "u8 hvec_ops \<Rightarrow> u8 list \<Rightarrow> LengthError + UnstructuredRegister" where
  "unstructured_try_from hv v =
     (case hv_from_slice hv v of Some byte_vec \<Rightarrow> Inr (UnstructuredRegister byte_vec) | None \<Rightarrow> Inl LengthError)"

text \<open>The bit array of a \<^verbatim>\<open>Bit\<close> value has 256 bytes.\<close>

definition bool_type :: "bool RegisterType" where
  "bool_type =
     \<lparr>ry_read = (\<lambda>self. do {
         a \<leftarrow> bit_array_new 256 1;
         a \<leftarrow> ba_set 0 self a;
         Some (Value_Bit (Bit a))
       }),
      ry_write = (\<lambda>v self. case v of
         Value_Bit b \<Rightarrow>
           if ba_len (Bit_value b) = 1 then do { x \<leftarrow> ba_get 0 (Bit_value b); Some (Inr (), x) } else Some (Inl TypeError, self)
       | _ \<Rightarrow> Some (Inl TypeError, self))\<rparr>"

fun set_each :: "nat \<Rightarrow> bool list \<Rightarrow> BitArray \<Rightarrow> BitArray option" where
  "set_each i [] a = Some a"
| "set_each i (v # vs) a = do { a \<leftarrow> ba_set i v a; set_each (i + 1) vs a }"

function copy_bits :: "nat \<Rightarrow> BitIter \<Rightarrow> bool list \<Rightarrow> bool list option" where
  "copy_bits i it self =
     (case iter_next it of
        None \<Rightarrow> None
      | Some (None, _) \<Rightarrow> Some self
      | Some (Some v, it) \<Rightarrow> if i < length self then copy_bits (i + 1) it (self[i := v]) else None)"
  by auto
termination
  by (relation "measure (\<lambda>(i, it, self). bits_left it)") (auto dest: iter_next_left)

declare copy_bits.simps [simp del]

definition bool_array_type :: "nat \<Rightarrow> bool list RegisterType" where
  "bool_array_type N =
     \<lparr>ry_read = (\<lambda>self. do {
         a \<leftarrow> bit_array_new 256 N;
         a \<leftarrow> set_each 0 self a;
         Some (Value_Bit (Bit a))
       }),
      ry_write = (\<lambda>v self. case v of
         Value_Bit b \<Rightarrow>
           if ba_len (Bit_value b) = N then do { self \<leftarrow> copy_bits 0 (ba_iter (Bit_value b)) self; Some (Inr (), self) }
           else Some (Inl TypeError, self)
       | _ \<Rightarrow> Some (Inl TypeError, self))\<rparr>"

section \<open>Registers\<close>

record 'a SimpleRegister =
  sr_name :: "u8 list"
  sr_access :: Access
  sr_value :: 'a

definition simple_with_value :: "u8 list \<Rightarrow> bool \<Rightarrow> bool \<Rightarrow> 'a \<Rightarrow> 'a SimpleRegister" where
  "simple_with_value name mutable persistent v =
     \<lparr>sr_name = name, sr_access = \<lparr>ac_mutable = mutable, ac_persistent = persistent\<rparr>, sr_value = v\<rparr>"

definition simple_new :: "'a \<Rightarrow> u8 list \<Rightarrow> bool \<Rightarrow> bool \<Rightarrow> 'a SimpleRegister" where
  "simple_new default_value name mutable persistent = simple_with_value name mutable persistent default_value"

definition simple_set_value :: "'a \<Rightarrow> 'a SimpleRegister \<Rightarrow> 'a SimpleRegister" where
  "simple_set_value v self = self\<lparr>sr_value := v\<rparr>"

definition simple_register :: "'a RegisterType \<Rightarrow> 'a SimpleRegister Register" where
  "simple_register T =
     \<lparr>rg_name = sr_name, rg_access = sr_access, rg_read = (\<lambda>self. ry_read T (sr_value self)),
      rg_write = (\<lambda>v self. do {
         (r, x) \<leftarrow> ry_write T v (sr_value self);
         Some (r, self\<lparr>sr_value := x\<rparr>)
       })\<rparr>"

text \<open>The validator is a closure with the state \<open>'v\<close>.\<close>

record ('a, 'v) ValidatedRegister =
  vr_name :: "u8 list"
  vr_access :: Access
  vr_value :: 'a
  vr_validator :: 'v

definition validated_with_value :: "u8 list \<Rightarrow> bool \<Rightarrow> bool \<Rightarrow> 'a \<Rightarrow> 'v \<Rightarrow> ('a, 'v) ValidatedRegister" where
  "validated_with_value name mutable persistent v validator =
     \<lparr>vr_name = name, vr_access = \<lparr>ac_mutable = mutable, ac_persistent = persistent\<rparr>, vr_value = v, vr_validator = validator\<rparr>"

definition validated_new :: "'a \<Rightarrow> u8 list \<Rightarrow> bool \<Rightarrow> bool \<Rightarrow> 'v \<Rightarrow> ('a, 'v) ValidatedRegister" where
  "validated_new default_value name mutable persistent validator = validated_with_value name mutable persistent default_value validator"

definition validated_set_value :: "'a \<Rightarrow> ('a, 'v) ValidatedRegister \<Rightarrow> ('a, 'v) ValidatedRegister" where
  "validated_set_value v self = self\<lparr>vr_value := v\<rparr>"

definition validated_register :: "'a RegisterType \<Rightarrow> ('a \<Rightarrow> 'v \<Rightarrow> bool \<times> 'v) \<Rightarrow> ('a, 'v) ValidatedRegister Register" where
  "validated_register T accept =
     \<lparr>rg_name = vr_name, rg_access = vr_access, rg_read = (\<lambda>self. ry_read T (vr_value self)),
      rg_write = (\<lambda>v self. do {
         (r, new_value) \<leftarrow> ry_write T v (vr_value self);
         case r of
           Inl e \<Rightarrow> Some (Inl e, self)
         | Inr _ \<Rightarrow>
             (let (accepted, validator) = accept new_value (vr_validator self); self = self\<lparr>vr_validator := validator\<rparr> in
              if accepted then Some (Inr (), self\<lparr>vr_value := new_value\<rparr>) else Some (Inl TypeError, self))
       })\<rparr>"

record FixedStringRegister =
  fr_name :: "u8 list"
  fr_value :: "u8 list"

definition fixed_string_new :: "u8 list \<Rightarrow> u8 list \<Rightarrow> FixedStringRegister option" where
  "fixed_string_new name v =
     (if name \<noteq> [] \<and> length name \<le> 256 \<and> length v \<le> 256 then Some \<lparr>fr_name = name, fr_value = v\<rparr> else None)"

definition fixed_string_register :: "u8 hvec_ops \<Rightarrow> FixedStringRegister Register" where
  "fixed_string_register hv =
     \<lparr>rg_name = fr_name, rg_access = (\<lambda>_. \<lparr>ac_mutable = False, ac_persistent = True\<rparr>),
      rg_read = (\<lambda>self. do { vec \<leftarrow> hv_from_slice hv (fr_value self); Some (Value_String (PString vec)) }),
      rg_write = (\<lambda>_ _. None)\<rparr>"

text \<open>A reference to a register of one of two types, as a trait object.\<close>

definition either_register :: "'a Register \<Rightarrow> 'b Register \<Rightarrow> ('a + 'b) Register" where
  "either_register A B =
     \<lparr>rg_name = case_sum (rg_name A) (rg_name B), rg_access = case_sum (rg_access A) (rg_access B),
      rg_read = case_sum (rg_read A) (rg_read B),
      rg_write = (\<lambda>v. case_sum (\<lambda>a. map_option (map_prod id Inl) (rg_write A v a)) (\<lambda>b. map_option (map_prod id Inr) (rg_write B v b)))\<rparr>"

section \<open>The contracts\<close>

text \<open>What the types of a value guarantee: the capacities of its vectors, and bit arrays no longer than their bytes.\<close>

fun Value_wf :: "Value \<Rightarrow> bool" where
  "Value_wf (Value_Bit b) \<longleftrightarrow> ba_inv (Bit_value b) \<and> length (ba_bytes (Bit_value b)) = 256"
| "Value_wf v \<longleftrightarrow> Value_valid v"

text \<open>Bit arrays are equal when their bits are.\<close>

fun same_value :: "Value \<Rightarrow> Value \<Rightarrow> bool" where
  "same_value (Value_Bit a) (Value_Bit b) \<longleftrightarrow> ba_bits (Bit_value a) = ba_bits (Bit_value b)"
| "same_value v w \<longleftrightarrow> v = w"

definition nonempty_value :: "Value option \<Rightarrow> bool" where
  "nonempty_value r \<longleftrightarrow> (\<exists>v. r = Some v \<and> Value_wf v \<and> (\<forall>e. v \<noteq> Value_Empty e))"

locale register_type =
  fixes T :: "'a RegisterType" and valid :: "'a \<Rightarrow> bool"
  assumes read_law: "valid x \<Longrightarrow> nonempty_value (ry_read T x)"
    and write_law: "valid x \<Longrightarrow> Value_wf v \<Longrightarrow>
      (\<exists>x'. ry_write T v x = Some (Inr (), x') \<and> valid x' \<and> (\<exists>v'. ry_read T x' = Some v' \<and> same_value v v')) \<or>
      (\<exists>e. ry_write T v x = Some (Inl e, x))"
    and restore_law: "valid x \<Longrightarrow> valid y \<Longrightarrow> ry_read T x = Some v \<Longrightarrow> ry_write T v y = Some (Inr (), x)"

locale lawful_register =
  fixes R :: "'r Register" and invar :: "'r \<Rightarrow> bool"
  assumes read_nonempty: "invar r \<Longrightarrow> nonempty_value (rg_read R r)"
    and write_contract: "invar r \<Longrightarrow> ac_mutable (rg_access R r) \<Longrightarrow> Value_wf v \<Longrightarrow>
      \<exists>result r'. rg_write R v r = Some (result, r') \<and> invar r' \<and> rg_name R r' = rg_name R r \<and> rg_access R r' = rg_access R r \<and>
        (case result of Inl _ \<Rightarrow> rg_read R r' = rg_read R r | Inr _ \<Rightarrow> \<exists>v'. rg_read R r' = Some v' \<and> same_value v v')"

text \<open>A register of a lawful type is lawful, with or without a validator.\<close>

sublocale register_type \<subseteq> simple: lawful_register "simple_register T" "\<lambda>r. valid (sr_value r)"
proof
  fix r :: "'a SimpleRegister" and v
  assume r: "valid (sr_value r)"
  then show "nonempty_value (rg_read (simple_register T) r)" by (simp add: simple_register_def read_law)
  assume "Value_wf v"
  then show "\<exists>result r'. rg_write (simple_register T) v r = Some (result, r') \<and> valid (sr_value r') \<and>
      rg_name (simple_register T) r' = rg_name (simple_register T) r \<and> rg_access (simple_register T) r' = rg_access (simple_register T) r \<and>
      (case result of Inl _ \<Rightarrow> rg_read (simple_register T) r' = rg_read (simple_register T) r
       | Inr _ \<Rightarrow> \<exists>v'. rg_read (simple_register T) r' = Some v' \<and> same_value v v')"
    using write_law [OF r, of v] r by (auto simp: simple_register_def)
qed

sublocale register_type \<subseteq> validated: lawful_register "validated_register T accept" "\<lambda>r. valid (vr_value r)" for accept :: "'a \<Rightarrow> 'v \<Rightarrow> bool \<times> 'v"
proof
  fix r :: "('a, 'v) ValidatedRegister" and v
  assume r: "valid (vr_value r)"
  then show "nonempty_value (rg_read (validated_register T accept) r)" by (simp add: validated_register_def read_law)
  assume "Value_wf v"
  then show "\<exists>result r'. rg_write (validated_register T accept) v r = Some (result, r') \<and> valid (vr_value r') \<and>
      rg_name (validated_register T accept) r' = rg_name (validated_register T accept) r \<and>
      rg_access (validated_register T accept) r' = rg_access (validated_register T accept) r \<and>
      (case result of Inl _ \<Rightarrow> rg_read (validated_register T accept) r' = rg_read (validated_register T accept) r
       | Inr _ \<Rightarrow> \<exists>v'. rg_read (validated_register T accept) r' = Some v' \<and> same_value v v')"
    using write_law [OF r, of v] r
    by (cases "fst (accept (snd (the (ry_write T v (vr_value r)))) (vr_validator r))")
      (auto simp: validated_register_def Let_def split: prod.splits)
qed

context register_type
begin

lemmas simple_lawful = simple.lawful_register_axioms

text \<open>Restoring from persistent storage: what one register reads, another one of the same type takes over.\<close>

lemma simple_restored:
  assumes "valid (sr_value r)" and "valid (sr_value q)" and "rg_read (simple_register T) r = Some v"
  shows "rg_write (simple_register T) v q = Some (Inr (), q\<lparr>sr_value := sr_value r\<rparr>)"
  using restore_law [OF assms(1,2), of v] assms(3) by (simp add: simple_register_def)

text \<open>A validated register holds a value that its validator accepts, if it did before.\<close>

lemma validated_accepts:
  assumes "\<And>x s. accept x s = (P x, s)" and "P (vr_value r)" and "rg_write (validated_register T accept) v r = Some (result, r')"
  shows "P (vr_value r')"
proof -
  obtain a y where a: "ry_write T v (vr_value r) = Some (a, y)" using assms(3) by (auto simp: validated_register_def bind_eq_Some_conv)
  then show ?thesis using assms by (cases a) (auto simp: validated_register_def split: if_splits)
qed

end

section \<open>The register types of the library\<close>

lemma same_value_refl [simp]: "same_value v v"
  by (cases v) auto

lemma nonempty_valueI: "Value_wf v \<Longrightarrow> (\<And>e. v \<noteq> Value_Empty e) \<Longrightarrow> nonempty_value (Some v)"
  by (simp add: nonempty_value_def)

text \<open>What a variant has to be for the macros.\<close>

definition variant_law :: "'w value_variant \<Rightarrow> bool" where
  "variant_law V \<longleftrightarrow> 1 \<le> vv_capacity V \<and>
     (\<forall>vs. vv_values V (vv_make V vs) = Some vs \<and> (\<forall>e. vv_make V vs \<noteq> Value_Empty e) \<and>
       (Value_wf (vv_make V vs) \<longleftrightarrow> length vs \<le> vv_capacity V)) \<and>
     (\<forall>v vs. vv_values V v = Some vs \<longrightarrow> v = vv_make V vs)"

lemma variants_law [simp]:
  "variant_law Natural8_variant" "variant_law Natural16_variant" "variant_law Natural32_variant" "variant_law Natural64_variant"
  "variant_law Integer8_variant" "variant_law Integer16_variant" "variant_law Integer32_variant" "variant_law Integer64_variant"
  "variant_law Real16_variant" "variant_law Real32_variant" "variant_law Real64_variant"
  by (auto simp: variant_law_def Natural8_variant_def Natural16_variant_def Natural32_variant_def Natural64_variant_def
      Integer8_variant_def Integer16_variant_def Integer32_variant_def Integer64_variant_def Real16_variant_def Real32_variant_def
      Real64_variant_def split: Value.splits)

lemma variants_capacity [simp]:
  "vv_capacity Natural8_variant = 256" "vv_capacity Natural16_variant = 128" "vv_capacity Natural32_variant = 64"
  "vv_capacity Natural64_variant = 32" "vv_capacity Integer8_variant = 256" "vv_capacity Integer16_variant = 128"
  "vv_capacity Integer32_variant = 64" "vv_capacity Integer64_variant = 32" "vv_capacity Real16_variant = 128"
  "vv_capacity Real32_variant = 64" "vv_capacity Real64_variant = 32"
  by (simp_all add: Natural8_variant_def Natural16_variant_def Natural32_variant_def Natural64_variant_def
      Integer8_variant_def Integer16_variant_def Integer32_variant_def Integer64_variant_def Real16_variant_def Real32_variant_def
      Real64_variant_def)

lemma variant_lawD:
  assumes "variant_law V"
  shows "vv_values V (vv_make V vs) = Some vs" and "length vs \<le> vv_capacity V \<Longrightarrow> nonempty_value (Some (vv_make V vs))"
    and "vv_values V v = Some vs \<Longrightarrow> v = vv_make V vs" and "1 \<le> vv_capacity V"
    and "Value_wf (vv_make V vs) \<Longrightarrow> length vs \<le> vv_capacity V"
  using assms by (auto simp: variant_law_def nonempty_value_def)

lemma primitive_register_type:
  assumes "variant_law V" and "hvec_law (vv_capacity V) hv"
  shows "register_type (register_primitive hv V) (\<lambda>_. True)"
proof
  note law = variant_lawD [OF assms(1)]
  have read: "ry_read (register_primitive hv V) x = Some (vv_make V [x])" for x
    using hvec_lawD(2) [OF assms(2), of "[x]"] law(4) by (simp add: register_primitive_def)
  show "nonempty_value (ry_read (register_primitive hv V) x)" for x
    unfolding read using law(2) [of "[x]"] law(4) by simp
  show "ry_write (register_primitive hv V) v y = Some (Inr (), x)" if "ry_read (register_primitive hv V) x = Some v" for x y v
    using that unfolding read by (auto simp: register_primitive_def law(1))
  show "(\<exists>x'. ry_write (register_primitive hv V) v x = Some (Inr (), x') \<and> True \<and>
        (\<exists>v'. ry_read (register_primitive hv V) x' = Some v' \<and> same_value v v')) \<or>
      (\<exists>e. ry_write (register_primitive hv V) v x = Some (Inl e, x))" for x v
  proof (cases "\<exists>y. vv_values V v = Some [y]")
    case True
    then obtain y where y: "vv_values V v = Some [y]" by blast
    then show ?thesis using law(3) [OF y] read [of y] by (auto simp: register_primitive_def)
  next
    case False
    then show ?thesis by (auto simp: register_primitive_def length_Suc_conv split: option.split)
  qed
qed

lemma primitive_array_register_type:
  assumes "variant_law V" and "hvec_law (vv_capacity V) hv" and "N \<le> vv_capacity V"
  shows "register_type (register_primitive_array hv N V) (\<lambda>x. length x = N)"
proof
  note law = variant_lawD [OF assms(1)]
  have read: "ry_read (register_primitive_array hv N V) x = Some (vv_make V x)" if "length x = N" for x
    using hvec_lawD(2) [OF assms(2), of x] assms(3) that by (simp add: register_primitive_array_def)
  show "nonempty_value (ry_read (register_primitive_array hv N V) x)" if "length x = N" for x
    unfolding read [OF that] using law(2) assms(3) that by simp
  show "ry_write (register_primitive_array hv N V) v y = Some (Inr (), x)"
    if "length x = N" "ry_read (register_primitive_array hv N V) x = Some v" for x y v
    using that(1) that(2) [unfolded read [OF that(1)]] by (auto simp: register_primitive_array_def law(1))
  show "(\<exists>x'. ry_write (register_primitive_array hv N V) v x = Some (Inr (), x') \<and> length x' = N \<and>
        (\<exists>v'. ry_read (register_primitive_array hv N V) x' = Some v' \<and> same_value v v')) \<or>
      (\<exists>e. ry_write (register_primitive_array hv N V) v x = Some (Inl e, x))" for x v
  proof (cases "\<exists>vs. vv_values V v = Some vs \<and> length vs = N")
    case True
    then obtain vs where vs: "vv_values V v = Some vs" "length vs = N" by blast
    then show ?thesis using law(3) [OF vs(1)] read [OF vs(2)] by (auto simp: register_primitive_array_def)
  next
    case False
    then show ?thesis by (auto simp: register_primitive_array_def split: option.split)
  qed
qed

interpretation register_string: register_type register_string_type "\<lambda>x. length (register_string_bytes x) \<le> 256"
  by unfold_locales (auto simp: register_string_type_def nonempty_value_def split: Value.split)

interpretation unstructured_register: register_type unstructured_type "\<lambda>x. length (unstructured_bytes x) \<le> 256"
  by unfold_locales (auto simp: unstructured_type_def nonempty_value_def split: Value.split)

lemma set_each_spec:
  assumes "ba_inv a" and "i + length vs \<le> ba_bit_length a"
  shows "\<exists>a'. set_each i vs a = Some a' \<and> length (ba_bytes a') = length (ba_bytes a) \<and> ba_bit_length a' = ba_bit_length a
    \<and> (\<forall>k. bit_at (ba_bytes a') k = (if i \<le> k \<and> k < i + length vs then vs ! (k - i) else bit_at (ba_bytes a) k))"
  using assms
proof (induction vs arbitrary: i a)
  case (Cons v vs)
  obtain b where b: "ba_set i v a = Some b" "length (ba_bytes b) = length (ba_bytes a)" "ba_bit_length b = ba_bit_length a"
    "\<And>k. bit_at (ba_bytes b) k = (if k = i then v else bit_at (ba_bytes a) k)"
    using ba_set_spec [OF Cons.prems(1), of i v] Cons.prems(2) by auto
  have "ba_inv b" using Cons.prems(1) b(2,3) by (simp add: ba_inv_def)
  then obtain c where "set_each (i + 1) vs b = Some c" "length (ba_bytes c) = length (ba_bytes b)" "ba_bit_length c = ba_bit_length b"
    "\<And>k. bit_at (ba_bytes c) k = (if i + 1 \<le> k \<and> k < i + 1 + length vs then vs ! (k - (i + 1)) else bit_at (ba_bytes b) k)"
    using Cons.IH [of b "i + 1"] Cons.prems(2) b(3) by auto
  with b show ?case by (auto simp: nth_Cons')
qed auto

lemma new_bits:
  assumes "length vs \<le> 2048"
  obtains a where "do { a \<leftarrow> bit_array_new 256 (length vs); set_each 0 vs a } = Some a"
    and "Value_wf (Value_Bit (Bit a))" and "ba_bits a = vs"
proof -
  have "ba_inv \<lparr>ba_bytes = replicate 256 0, ba_bit_length = length vs\<rparr>" using assms by (simp add: ba_inv_def)
  from set_each_spec [OF this, of 0 vs] assms that show ?thesis
    by (auto simp: bit_array_new_def ba_inv_def list_eq_iff_nth_eq)
qed

lemma copy_bits_spec:
  assumes "ba_inv a" and "length self = ba_bit_length a" and "n \<le> ba_bit_length a"
  shows "copy_bits n \<lparr>bi_array = a, bi_next_index = n\<rparr> self = Some (take n self @ drop n (ba_bits a))"
  using assms
proof (induction "ba_bit_length a - n" arbitrary: n self)
  case 0
  then show ?case by (subst copy_bits.simps) (simp add: iter_next_spec)
next
  case (Suc m)
  then have "copy_bits (n + 1) \<lparr>bi_array = a, bi_next_index = n + 1\<rparr> (self[n := ba_bits a ! n])
      = Some (take (n + 1) (self[n := ba_bits a ! n]) @ drop (n + 1) (ba_bits a))" by simp
  moreover have "take (n + 1) (self[n := ba_bits a ! n]) @ drop (n + 1) (ba_bits a) = take n self @ drop n (ba_bits a)"
    using Suc.hyps(2) Suc.prems(2) by (simp add: take_Suc_conv_app_nth Cons_nth_drop_Suc del: ba_bits_nth)
  ultimately show ?case using Suc.hyps(2) Suc.prems by (subst copy_bits.simps) (simp add: iter_next_spec)
qed

interpretation bool_array: register_type "bool_array_type N" "\<lambda>x. length x = N \<and> N \<le> 2048" for N
proof
  have read: "\<exists>a. ry_read (bool_array_type N) x = Some (Value_Bit (Bit a)) \<and> Value_wf (Value_Bit (Bit a)) \<and> ba_bits a = x"
    if x: "length x = N \<and> N \<le> 2048" for x
  proof -
    obtain a where "do { a \<leftarrow> bit_array_new 256 (length x); set_each 0 x a } = Some a" "Value_wf (Value_Bit (Bit a))" "ba_bits a = x"
      using new_bits [of x] x by blast
    then show ?thesis using x by (auto simp: bool_array_type_def bind_eq_Some_conv)
  qed
  have written: "ry_write (bool_array_type N) (Value_Bit b) x = Some (Inr (), ba_bits (Bit_value b))"
    if "length x = N" "ba_inv (Bit_value b)" "ba_bit_length (Bit_value b) = N" for b x
    using that copy_bits_spec [of "Bit_value b" x 0] by (simp add: bool_array_type_def ba_len_def ba_iter_def)
  show "nonempty_value (ry_read (bool_array_type N) x)" if "length x = N \<and> N \<le> 2048" for x
    using read [OF that] by (auto intro!: nonempty_valueI)
  show "ry_write (bool_array_type N) v y = Some (Inr (), x)"
    if x: "length x = N \<and> N \<le> 2048" and y: "length y = N \<and> N \<le> 2048" and v: "ry_read (bool_array_type N) x = Some v" for x y v
  proof -
    obtain a where a: "v = Value_Bit (Bit a)" "ba_inv a" "ba_bits a = x" using read [OF x] v by auto
    then have "ba_bit_length a = N" using x ba_bits_length [of a] by simp
    then show ?thesis using written [of y "Bit a"] a y by simp
  qed
  show "(\<exists>x'. ry_write (bool_array_type N) v x = Some (Inr (), x') \<and> (length x' = N \<and> N \<le> 2048) \<and>
        (\<exists>v'. ry_read (bool_array_type N) x' = Some v' \<and> same_value v v')) \<or>
      (\<exists>e. ry_write (bool_array_type N) v x = Some (Inl e, x))" if x: "length x = N \<and> N \<le> 2048" and v: "Value_wf v" for x v
  proof (cases "\<exists>b. v = Value_Bit b \<and> ba_len (Bit_value b) = N")
    case True
    then obtain b where b: "v = Value_Bit b" "ba_bit_length (Bit_value b) = N" by (auto simp: ba_len_def)
    then have "ry_write (bool_array_type N) v x = Some (Inr (), ba_bits (Bit_value b))" using written x v by simp
    moreover obtain a where "ry_read (bool_array_type N) (ba_bits (Bit_value b)) = Some (Value_Bit (Bit a))" "ba_bits a = ba_bits (Bit_value b)"
      using read [of "ba_bits (Bit_value b)"] x b(2) by auto
    ultimately show ?thesis using x b by auto
  next
    case False
    then show ?thesis by (auto simp: bool_array_type_def split: Value.split)
  qed
qed

text \<open>A boolean is an array of one.\<close>

lemma bool_type_read: "ry_read bool_type x = ry_read (bool_array_type 1) [x]"
  by (simp add: bool_type_def bool_array_type_def)

lemma bool_type_write:
  assumes "Value_wf v"
  shows "ry_write (bool_array_type 1) v [x] = map_option (map_prod id (\<lambda>y. [y])) (ry_write bool_type v x)"
proof (cases "\<exists>b. v = Value_Bit b \<and> ba_bit_length (Bit_value b) = 1")
  case True
  then obtain a where a: "v = Value_Bit (Bit a)" "ba_bit_length a = 1" "ba_inv a" using assms by (metis Bit.collapse Value_wf.simps(1))
  then have "ba_bits a = [ba_bits a ! 0]" by (simp add: list_eq_iff_nth_eq)
  then show ?thesis using a copy_bits_spec [of a "[x]" 0]
    by (simp add: bool_type_def bool_array_type_def ba_len_def ba_get_spec ba_iter_def del: ba_bits_nth)
next
  case False
  then show ?thesis by (auto simp: bool_type_def bool_array_type_def ba_len_def split: Value.split)
qed

interpretation bool_register: register_type bool_type "\<lambda>_. True"
proof
  have array: "length [x] = 1 \<and> (1 :: nat) \<le> 2048" for x :: bool by simp
  show "nonempty_value (ry_read bool_type x)" for x
    unfolding bool_type_read by (rule bool_array.read_law [OF array])
  show "ry_write bool_type v y = Some (Inr (), x)" if read: "ry_read bool_type x = Some v" for x y v
  proof -
    have "Value_wf v" using bool_array.read_law [OF array, of x] read unfolding bool_type_read by (auto simp: nonempty_value_def)
    from bool_type_write [OF this, of y] bool_array.restore_law [OF array array, of x v y] read show ?thesis
      by (auto simp: bool_type_read)
  qed
  show "(\<exists>x'. ry_write bool_type v x = Some (Inr (), x') \<and> True \<and> (\<exists>v'. ry_read bool_type x' = Some v' \<and> same_value v v')) \<or>
      (\<exists>e. ry_write bool_type v x = Some (Inl e, x))" if "Value_wf v" for x v
    using bool_array.write_law [OF array that, of x] bool_type_write [OF that, of x] by (auto simp: bool_type_read)
qed

lemma fixed_string_lawful:
  assumes "hvec_law 256 hv"
  shows "lawful_register (fixed_string_register hv) (\<lambda>r. length (fr_value r) \<le> 256)"
  by unfold_locales (auto simp: fixed_string_register_def hvec_lawD [OF assms] intro!: nonempty_valueI)

lemma either_lawful:
  assumes "lawful_register A inv_a" and "lawful_register B inv_b"
  shows "lawful_register (either_register A B) (case_sum inv_a inv_b)"
proof
  fix r v
  assume r: "case_sum inv_a inv_b r"
  then show "nonempty_value (rg_read (either_register A B) r)"
    using lawful_register.read_nonempty [OF assms(1)] lawful_register.read_nonempty [OF assms(2)] by (cases r) (auto simp: either_register_def)
  assume "ac_mutable (rg_access (either_register A B) r)" and "Value_wf v"
  with r show "\<exists>result r'. rg_write (either_register A B) v r = Some (result, r') \<and> case_sum inv_a inv_b r' \<and>
      rg_name (either_register A B) r' = rg_name (either_register A B) r \<and>
      rg_access (either_register A B) r' = rg_access (either_register A B) r \<and>
      (case result of Inl _ \<Rightarrow> rg_read (either_register A B) r' = rg_read (either_register A B) r
       | Inr _ \<Rightarrow> \<exists>v'. rg_read (either_register A B) r' = Some v' \<and> same_value v v')"
  proof (cases r)
    case (Inl a)
    then obtain result r' where "rg_write A v a = Some (result, r')" "inv_a r'" "rg_name A r' = rg_name A a"
        "rg_access A r' = rg_access A a"
        "case result of Inl _ \<Rightarrow> rg_read A r' = rg_read A a | Inr _ \<Rightarrow> \<exists>v'. rg_read A r' = Some v' \<and> same_value v v'"
      using lawful_register.write_contract [OF assms(1), of a v] r \<open>Value_wf v\<close> \<open>ac_mutable _\<close> by (auto simp: either_register_def)
    with Inl show ?thesis
      by (cases result) (simp_all add: either_register_def)
  next
    case (Inr b)
    then obtain result r' where "rg_write B v b = Some (result, r')" "inv_b r'" "rg_name B r' = rg_name B b"
        "rg_access B r' = rg_access B b"
        "case result of Inl _ \<Rightarrow> rg_read B r' = rg_read B b | Inr _ \<Rightarrow> \<exists>v'. rg_read B r' = Some v' \<and> same_value v v'"
      using lawful_register.write_contract [OF assms(2), of b v] r \<open>Value_wf v\<close> \<open>ac_mutable _\<close> by (auto simp: either_register_def)
    with Inr show ?thesis
      by (cases result) (simp_all add: either_register_def)
  qed
qed

end
