(* ===== verification/Reg_Handler.thy ===== *)
theory Reg_Handler
  imports Node_Ports Reg_Types
begin

text \<open>
  The server of the register services (canadensis: \<^verbatim>\<open>register.rs\<close>) as a transfer handler of a node, and the blocks of registers that
  the macro of canadensis\_derive\_register\_block implements for a struct. A mutable reference into a block is the register
  with the function that puts its successor back.
\<close>

section \<open>Blocks of registers\<close>

record ('b, 'r) RegisterBlock =
  rb_by_index :: "nat \<Rightarrow> 'b \<Rightarrow> 'r option"
  rb_by_index_mut :: "nat \<Rightarrow> 'b \<Rightarrow> ('r \<times> ('r \<Rightarrow> 'b)) option"
  rb_by_name_mut :: "u8 list \<Rightarrow> 'b \<Rightarrow> ('r \<times> ('r \<Rightarrow> 'b)) option"

text \<open>The code that the macro generates; the struct is the list of its fields.\<close>

definition derive_register_block :: "'r Register \<Rightarrow> ('r list, 'r) RegisterBlock" where
  "derive_register_block R =
     \<lparr>rb_by_index = (\<lambda>index fields. if index < length fields then Some (fields ! index) else None),
      rb_by_index_mut = (\<lambda>index fields. if index < length fields then Some (fields ! index, \<lambda>r. fields[index := r]) else None),
      rb_by_name_mut = (\<lambda>name fields. map_option (\<lambda>i. (fields ! i, \<lambda>r. fields[i := r])) (position (\<lambda>r. name = rg_name R r) fields))\<rparr>"

section \<open>The handler\<close>

definition ACCESS_SERVICE :: ServiceId where
  "ACCESS_SERVICE = service_from_truncating 384"

definition LIST_SERVICE :: ServiceId where
  "LIST_SERVICE = service_from_truncating 385"

definition register_subscribe_requests ::
  "('tx, 'rx, 'dr, 'c, 'i, 'd, 't, 'p, 'n, 'e, 'f) node_env \<Rightarrow> ('tx, 'rx, 'dr, 'c, 'd, 't, 'p, 'n) core_node
   \<Rightarrow> (('f + unit) \<times> ('tx, 'rx, 'dr, 'c, 'd, 't, 'p, 'n) core_node) option" where
  "register_subscribe_requests env node = do {
     timeout \<leftarrow> ne_from_millis env 1000;
     (r, node) \<leftarrow> core_subscribe_request env ACCESS_SERVICE 515 timeout node;
     case r of
       Inl e \<Rightarrow> Some (Inl e, node)
     | Inr _ \<Rightarrow> do {
         timeout \<leftarrow> ne_from_millis env 0;
         core_subscribe_request env LIST_SERVICE 2 timeout node
       }
   }"

text \<open>\<^verbatim>\<open>core::str::from_utf8\<close> of the standard library, by the table of well-formed byte sequences.\<close>

definition utf8_continuation :: "u8 \<Rightarrow> bool" where
  "utf8_continuation b \<longleftrightarrow> 0x80 \<le> b \<and> b \<le> 0xbf"

definition utf8_second :: "u8 \<Rightarrow> u8 \<Rightarrow> bool" where
  "utf8_second a b \<longleftrightarrow>
     (if a = 0xe0 then 0xa0 \<le> b \<and> b \<le> 0xbf
      else if a = 0xed then 0x80 \<le> b \<and> b \<le> 0x9f
      else if a = 0xf0 then 0x90 \<le> b \<and> b \<le> 0xbf
      else if a = 0xf4 then 0x80 \<le> b \<and> b \<le> 0x8f
      else utf8_continuation b)"

fun is_utf8 :: "u8 list \<Rightarrow> bool" where
  "is_utf8 [] \<longleftrightarrow> True"
| "is_utf8 (a # rest) \<longleftrightarrow>
     (if a < 0x80 then is_utf8 rest
      else if 0xc2 \<le> a \<and> a \<le> 0xdf then
        (case rest of b # rest \<Rightarrow> utf8_continuation b \<and> is_utf8 rest | _ \<Rightarrow> False)
      else if 0xe0 \<le> a \<and> a \<le> 0xef then
        (case rest of b # c # rest \<Rightarrow> utf8_second a b \<and> utf8_continuation c \<and> is_utf8 rest | _ \<Rightarrow> False)
      else if 0xf0 \<le> a \<and> a \<le> 0xf4 then
        (case rest of b # c # d # rest \<Rightarrow> utf8_second a b \<and> utf8_continuation c \<and> utf8_continuation d \<and> is_utf8 rest | _ \<Rightarrow> False)
      else False)"

fun is_empty_value :: "Value \<Rightarrow> bool" where
  "is_empty_value (Value_Empty _) \<longleftrightarrow> True"
| "is_empty_value _ \<longleftrightarrow> False"

definition register_handle_access :: "'r Register \<Rightarrow> AccessRequest \<Rightarrow> 'r \<Rightarrow> (AccessResponse \<times> 'r) option" where
  "register_handle_access R request register = do {
     let access = rg_access R register;
     register \<leftarrow> (if ac_mutable access \<and> \<not> is_empty_value (arq_value request)
       then map_option snd (rg_write R (arq_value request) register) else Some register);
     v \<leftarrow> rg_read R register;
     Some (\<lparr>ars_timestamp = SynchronizedTimestamp 0, ars_mutable = ac_mutable access, ars_persistent = ac_persistent access,
       ars_value = v\<rparr>, register)
   }"

definition empty_response :: AccessResponse where
  "empty_response = \<lparr>ars_timestamp = SynchronizedTimestamp 0, ars_mutable = False, ars_persistent = False, ars_value = Value_Empty Empty\<rparr>"

definition handle_access_request ::
  "'r Register \<Rightarrow> ('b, 'r) RegisterBlock \<Rightarrow> AccessRequest \<Rightarrow> 'b \<Rightarrow> (AccessResponse \<times> 'b) option" where
  "handle_access_request R B request block =
     (if is_utf8 (Name_name (arq_name request)) then
        (case rb_by_name_mut B (Name_name (arq_name request)) block of
           Some (register, put) \<Rightarrow> do {
             (response, register) \<leftarrow> register_handle_access R request register;
             Some (response, put register)
           }
         | None \<Rightarrow> Some (empty_response, block))
      else Some (empty_response, block))"

text \<open>\<open>hv\<close> is the vector of a \<^verbatim>\<open>Name\<close>.\<close>

definition handle_list_request ::
  "u8 hvec_ops \<Rightarrow> 'r Register \<Rightarrow> ('b, 'r) RegisterBlock \<Rightarrow> ListRequest \<Rightarrow> 'b \<Rightarrow> ListResponse option" where
  "handle_list_request hv R B request block =
     (case rb_by_index B (unat (ListRequest_index request)) block of
        Some register \<Rightarrow> do {
          let name = rg_name R register;
          let name = (if length name \<le> 256 then name else take 256 name);
          name \<leftarrow> hv_from_slice hv name;
          Some (ListResponse (Name name))
        }
      | None \<Rightarrow> Some (ListResponse (Name [])))"

text \<open>\<^verbatim>\<open>TransferHandler\<close> for \<^verbatim>\<open>RegisterHandler\<close>, whose state is the block. Errors of the transmitter are only logged.\<close>

definition register_handler ::
  "bool \<Rightarrow> ('tx, 'rx, 'dr, 'c, 'i, 'd, 't, 'p, 'n, 'e, 'f) node_env \<Rightarrow> u8 hvec_ops \<Rightarrow> 'r Register \<Rightarrow> ('b, 'r) RegisterBlock
   \<Rightarrow> ('b, ('tx, 'rx, 'dr, 'c, 'd, 't, 'p, 'n) core_node, 'i, 't, 'p, 'n) transfer_handler" where
  "register_handler dbg env hv R B = default_handler\<lparr>th_request := (\<lambda>token transfer block node.
     if sh_service (st_header transfer) = ACCESS_SERVICE then do {
       request \<leftarrow> deserialize_from_bytes (AccessRequest_impl dbg) (st_payload transfer);
       case request of
         Inr request \<Rightarrow> do {
           (response, block) \<leftarrow> handle_access_request R B request block;
           timeout \<leftarrow> ne_from_millis env 1000;
           (_, node) \<leftarrow> core_send_response env token timeout (serializable_of (AccessResponse_impl dbg) response) node;
           Some (True, block, node)
         }
       | Inl _ \<Rightarrow> Some (False, block, node)
     } else if sh_service (st_header transfer) = LIST_SERVICE then do {
       request \<leftarrow> deserialize_from_bytes ListRequest_impl (st_payload transfer);
       case request of
         Inr request \<Rightarrow> do {
           response \<leftarrow> handle_list_request hv R B request block;
           timeout \<leftarrow> ne_from_millis env 1000;
           (_, node) \<leftarrow> core_send_response env token timeout (serializable_of ListResponse_impl response) node;
           Some (True, block, node)
         }
       | Inl _ \<Rightarrow> Some (False, block, node)
     } else Some (False, block, node))\<rparr>"

section \<open>What the handler does\<close>

lemma services_differ [simp]: "ACCESS_SERVICE \<noteq> LIST_SERVICE"
  by (simp add: ACCESS_SERVICE_def LIST_SERVICE_def service_from_truncating_def VALID_SERVICE_IDS_end_def)

lemma register_keeps_ports: "keeps_ports (register_handler dbg env hv R B)"
  unfolding keeps_ports_def register_handler_def default_handler_def
  by (auto simp: bind_eq_Some_conv same_ports_refl split: if_splits)
    (case_tac y; auto simp: same_ports_refl bind_eq_Some_conv dest!: core_send_response_ports)+

text \<open>The response to a request, as a transfer, and the node after it was pushed.\<close>

definition response_transfer ::
  "('tx, 'rx, 'dr, 'c, 'd, 't, 'p, 'n) core_node \<Rightarrow> ('t, 'p, 'n) ResponseToken \<Rightarrow> 'i \<Rightarrow> u8 list \<Rightarrow> (u8 list, 'i, 't, 'p, 'n) Transfer" where
  "response_transfer node token deadline payload =
     \<lparr>tr_header = Response \<lparr>sh_timestamp = deadline, sh_transfer_id = rt_transfer token, sh_priority = rt_priority token,
        sh_service = rt_service token, sh_source = cn_node_id node, sh_destination = rt_client token\<rparr>, tr_payload = payload\<rparr>"

text \<open>The clock and the memory of the node serve a response: its deadline exists, and its buffer can be allocated.\<close>

definition can_respond ::
  "('tx, 'rx, 'dr, 'c, 'i, 'd, 't, 'p, 'n, 'e, 'f) node_env \<Rightarrow> 'c \<Rightarrow> 'i \<Rightarrow> 'c \<Rightarrow> bool" where
  "can_respond env clock deadline clock' \<longleftrightarrow>
     (\<exists>timeout now. ne_from_millis env 1000 = Some timeout \<and> ne_now env clock = (now, clock') \<and> ne_add env timeout now = Some deadline)
     \<and> (\<forall>n. ne_mem env n)"

text \<open>Handing a response to the transmitter, whatever it returns.\<close>

definition pushed_response ::
  "('tx, 'rx, 'dr, 'c, 'i, 'd, 't, 'p, 'n, 'e, 'f) node_env \<Rightarrow> (u8 list, 'i, 't, 'p, 'n) Transfer \<Rightarrow> 'c
   \<Rightarrow> ('tx, 'rx, 'dr, 'c, 'd, 't, 'p, 'n) core_node \<Rightarrow> ('tx, 'rx, 'dr, 'c, 'd, 't, 'p, 'n) core_node option" where
  "pushed_response env transfer clock node =
     map_option (\<lambda>(_, tx, c, dr). node\<lparr>cn_transmitter := tx, cn_clock := c, cn_driver := dr\<rparr>)
       (tm_push (ne_transmitter env) transfer (cn_transmitter node) clock (cn_driver node))"

context data_type
begin

lemma response_sent:
  assumes "valid v" and "can_respond env (cn_clock node) deadline clock" and "ne_from_millis env 1000 = Some timeout"
  shows "map_option snd (core_send_response env token timeout (serializable_of T v) node)
    = pushed_response env (response_transfer node token deadline (serialized T v)) clock node"
proof -
  obtain now where now: "ne_now env (cn_clock node) = (now, clock)" "ne_add env timeout now = Some deadline"
    using assms(2,3) by (auto simp: can_respond_def)
  have calls: "do_serialize (ne_mem env) (ne_oom env) (serializable_of T v) operation s = operation (serialized T v) s" for operation s
    using assms(1,2) by (intro do_serialize_calls) (simp_all add: can_respond_def)
  show ?thesis using now
    by (cases "tm_push (ne_transmitter env) (response_transfer node token deadline (serialized T v)) (cn_transmitter node) clock (cn_driver node)")
      (auto simp: calls core_send_response_def send_response_payload_def pushed_response_def response_transfer_def Let_def)
qed

end

lemma bind_handled:
  "do { (_, node) \<leftarrow> m; Some (True, block, node) } = map_option (\<lambda>node. (True, block, node)) (map_option snd m)"
  by (cases m) auto

text \<open>
  What a client may rely on. At most the register with the requested name changes, and its name and access stay. It keeps its value or
  takes the value of the request; the latter only if it is mutable and the request has a value. The response
  tells its access and its value after the request.
\<close>

definition access_served :: "'r Register \<Rightarrow> AccessRequest \<Rightarrow> 'r list \<Rightarrow> 'r list \<Rightarrow> AccessResponse \<Rightarrow> bool" where
  "access_served R request registers registers' response \<longleftrightarrow>
     (case position (\<lambda>r. Name_name (arq_name request) = rg_name R r) registers of
        None \<Rightarrow> registers' = registers \<and> response = empty_response
      | Some i \<Rightarrow> \<exists>r'. registers' = registers[i := r'] \<and>
          rg_name R r' = rg_name R (registers ! i) \<and> rg_access R r' = rg_access R (registers ! i) \<and>
          ars_timestamp response = SynchronizedTimestamp 0 \<and> ars_mutable response = ac_mutable (rg_access R r') \<and>
          ars_persistent response = ac_persistent (rg_access R r') \<and> rg_read R r' = Some (ars_value response) \<and>
          (rg_read R r' = rg_read R (registers ! i) \<or>
           ac_mutable (rg_access R r') \<and> \<not> is_empty_value (arq_value request) \<and> ars_value response = arq_value request))"

lemma Value_valid_wf: "Value_valid v \<Longrightarrow> Value_wf v"
  by (cases v) auto

lemma same_value_valid: "Value_valid v \<Longrightarrow> same_value v w \<longleftrightarrow> v = w"
  by (cases v; cases w) auto

text \<open>Registers whose values can be sent: all but those of bits.\<close>

definition sendable :: "'r Register \<Rightarrow> 'r \<Rightarrow> bool" where
  "sendable R r \<longleftrightarrow> (case rg_read R r of Some v \<Rightarrow> Value_valid v | None \<Rightarrow> False)"

context lawful_register
begin

lemma access_register:
  assumes "invar r" and "sendable R r" and "Value_valid (arq_value request)"
  obtains r' response where "register_handle_access R request r = Some (response, r')" and "invar r'" and "sendable R r'"
    and "AccessResponse_valid response" and "rg_name R r' = rg_name R r" and "rg_access R r' = rg_access R r"
    and "ars_timestamp response = SynchronizedTimestamp 0" and "ars_mutable response = ac_mutable (rg_access R r')"
    and "ars_persistent response = ac_persistent (rg_access R r')" and "rg_read R r' = Some (ars_value response)"
    and "rg_read R r' = rg_read R r \<or>
      ac_mutable (rg_access R r') \<and> \<not> is_empty_value (arq_value request) \<and> ars_value response = arq_value request"
proof (cases "ac_mutable (rg_access R r) \<and> \<not> is_empty_value (arq_value request)")
  case True
  obtain result r' where w: "rg_write R (arq_value request) r = Some (result, r')" "invar r'" "rg_name R r' = rg_name R r"
      "rg_access R r' = rg_access R r"
      "case result of Inl _ \<Rightarrow> rg_read R r' = rg_read R r | Inr _ \<Rightarrow> \<exists>v'. rg_read R r' = Some v' \<and> same_value (arq_value request) v'"
    using write_contract [OF assms(1) _ Value_valid_wf [OF assms(3)]] True by blast
  obtain v where v: "rg_read R r' = Some v" "Value_valid v" "rg_read R r' = rg_read R r \<or> v = arq_value request"
    using w(5) assms(2,3) by (cases result) (auto simp: sendable_def same_value_valid split: option.splits)
  show ?thesis
    by (rule that [of "\<lparr>ars_timestamp = SynchronizedTimestamp 0, ars_mutable = ac_mutable (rg_access R r),
          ars_persistent = ac_persistent (rg_access R r), ars_value = v\<rparr>" r'])
      (use True w v in \<open>auto simp: register_handle_access_def sendable_def AccessResponse_valid_def SynchronizedTimestamp_valid_def\<close>)
next
  case False
  obtain v where v: "rg_read R r = Some v" "Value_valid v" using assms(2) by (auto simp: sendable_def split: option.splits)
  show ?thesis
    by (rule that [of "\<lparr>ars_timestamp = SynchronizedTimestamp 0, ars_mutable = ac_mutable (rg_access R r),
          ars_persistent = ac_persistent (rg_access R r), ars_value = v\<rparr>" r])
      (use False assms v in \<open>auto simp: Let_def register_handle_access_def AccessResponse_valid_def SynchronizedTimestamp_valid_def\<close>)
qed

lemma access_block:
  assumes "list_all invar registers" and "list_all (sendable R) registers" and "list_all (\<lambda>r. is_utf8 (rg_name R r)) registers"
    and "Value_valid (arq_value request)"
  shows "\<exists>registers' response. handle_access_request R (derive_register_block R) request registers = Some (response, registers') \<and>
    list_all invar registers' \<and> list_all (sendable R) registers' \<and> AccessResponse_valid response \<and>
    access_served R request registers registers' response"
proof (cases "position (\<lambda>r. Name_name (arq_name request) = rg_name R r) registers")
  case None
  then show ?thesis using assms
    by (auto simp: handle_access_request_def derive_register_block_def access_served_def empty_response_def AccessResponse_valid_def
        SynchronizedTimestamp_valid_def)
next
  case (Some i)
  note i = position_Some [OF Some]
  obtain r' response where r': "register_handle_access R request (registers ! i) = Some (response, r')" "invar r'" "sendable R r'"
    "AccessResponse_valid response" "rg_name R r' = rg_name R (registers ! i)" "rg_access R r' = rg_access R (registers ! i)"
    "ars_timestamp response = SynchronizedTimestamp 0" "ars_mutable response = ac_mutable (rg_access R r')"
    "ars_persistent response = ac_persistent (rg_access R r')" "rg_read R r' = Some (ars_value response)"
    "rg_read R r' = rg_read R (registers ! i) \<or>
      ac_mutable (rg_access R r') \<and> \<not> is_empty_value (arq_value request) \<and> ars_value response = arq_value request"
    by (rule access_register [of "registers ! i" request]) (use i assms in \<open>auto simp: list_all_length\<close>)
  have "handle_access_request R (derive_register_block R) request registers = Some (response, registers[i := r'])"
    using Some i assms(3) r'(1) by (auto simp: handle_access_request_def derive_register_block_def list_all_length)
  moreover have "list_all invar (registers[i := r'])" "list_all (sendable R) (registers[i := r'])"
    using assms(1,2) r'(2,3) i by (auto simp: list_all_length nth_list_update)
  moreover have "access_served R request registers (registers[i := r']) response"
    unfolding access_served_def using Some r'(5-11) by auto
  ultimately show ?thesis using r'(4) by blast
qed

end

lemma value_size: "Value_valid v \<Longrightarrow> size_bits (Value_impl dbg) v \<le> 8 * 259"
  by (cases v) (auto simp: Value_impl_def PString_impl_def Unstructured_impl_def Integer64_impl_def Integer32_impl_def Integer16_impl_def
      Integer8_impl_def Natural64_impl_def Natural32_impl_def Natural16_impl_def Natural8_impl_def Real64_impl_def Real32_impl_def Real16_impl_def)

lemma access_request_size:
  assumes "AccessRequest_valid request"
  shows "length (serialized (AccessRequest_impl dbg) request) \<le> 515"
proof -
  have "size_bits Name_impl (arq_name request) \<le> 8 * 256" using assms by (simp add: Name_impl_def AccessRequest_valid_def Name_valid_def)
  moreover have "size_bits (Value_impl dbg) (arq_value request) \<le> 8 * 259" using assms value_size by (simp add: AccessRequest_valid_def)
  ultimately have "size_bits (AccessRequest_impl dbg) request \<le> 8 * 515" by (simp add: AccessRequest_impl_def)
  then show ?thesis using access_request.serialized_roundtrip(2) [OF assms, of dbg] by simp
qed

text \<open>A client that asks for one index after the other until it gets an empty name.\<close>

fun discovered_names :: "u8 hvec_ops \<Rightarrow> 'r Register \<Rightarrow> 'r list \<Rightarrow> nat \<Rightarrow> nat \<Rightarrow> u8 list list option" where
  "discovered_names hv R registers index 0 = Some []"
| "discovered_names hv R registers index (Suc n) = do {
     response \<leftarrow> handle_list_request hv R (derive_register_block R) (ListRequest (of_nat index)) registers;
     let name = Name_name (ListResponse_name response);
     if name = [] then Some [] else map_option ((#) name) (discovered_names hv R registers (index + 1) n)
   }"

lemma list_request_name:
  assumes "hvec_law 255 hv" and "list_all (\<lambda>r. length (rg_name R r) \<le> 255) registers"
  shows "handle_list_request hv R (derive_register_block R) request registers = Some (ListResponse (Name
    (if unat (ListRequest_index request) < length registers then rg_name R (registers ! unat (ListRequest_index request)) else [])))"
proof (cases "unat (ListRequest_index request) < length registers")
  case True
  then have "length (rg_name R (registers ! unat (ListRequest_index request))) \<le> 255" using assms(2) by (simp add: list_all_length)
  then show ?thesis using True hvec_lawD(2) [OF assms(1)] by (simp add: handle_list_request_def derive_register_block_def)
qed (simp add: handle_list_request_def derive_register_block_def)

lemma discovered_names_all:
  assumes "hvec_law 255 hv" and "list_all (\<lambda>r. rg_name R r \<noteq> [] \<and> length (rg_name R r) \<le> 255) registers"
    and "length registers < 2 ^ 16" and "length registers < index + n" and "index \<le> length registers"
  shows "discovered_names hv R registers index n = Some (map (rg_name R) (drop index registers))"
  using assms(4,5)
proof (induction n arbitrary: index)
  case (Suc n)
  have u: "unat (of_nat index :: u16) = index" using assms(3) Suc.prems(2) by (simp add: unsigned_of_nat take_bit_nat_eq_self)
  have names: "list_all (\<lambda>r. length (rg_name R r) \<le> 255) registers" using assms(2) by (simp add: list_all_length)
  show ?case
  proof (cases "index = length registers")
    case True
    then show ?thesis using list_request_name [OF assms(1) names] u by simp
  next
    case False
    then have i: "index < length registers" using Suc.prems(2) by simp
    then have "rg_name R (registers ! index) \<noteq> []" using assms(2) by (simp add: list_all_length)
    moreover have "map (rg_name R) (drop index registers) = rg_name R (registers ! index) # map (rg_name R) (drop (Suc index) registers)"
      using i by (simp add: Cons_nth_drop_Suc [symmetric])
    ultimately show ?thesis using list_request_name [OF assms(1) names, of "ListRequest (of_nat index)"] u i Suc.IH [of "index + 1"] Suc.prems(1)
      by simp
  qed
qed simp

section \<open>Properties\<close>

text \<open>
  C11: A request to access a register is served. Let a node receive the bytes of any request whose value is not an array of bits, for
  a block of registers that keep their contract. The request fits into the 515 bytes that the handler subscribes with. The handler
  hands one response for the requesting client to the transmitter, and its payload deserializes to that response. The
  register with the requested name keeps its value or, if it is mutable and the request has a value, takes the value of the request; the
  response tells its access and this value. No other register changes, and a name without a register is answered with an empty value.
  The handler panics only if the transmitter does.
\<close>

theorem register_access_served:
  assumes "lawful_register R invar" and "list_all invar registers" and "list_all (sendable R) registers"
    and "list_all (\<lambda>r. is_utf8 (rg_name R r)) registers" and "AccessRequest_valid request"
    and "sh_service (st_header transfer) = ACCESS_SERVICE" and "st_payload transfer = serialized (AccessRequest_impl dbg) request"
    and "can_respond env (cn_clock node) deadline clock"
  shows "length (st_payload transfer) \<le> 515 \<and> (\<exists>registers' response.
    th_request (register_handler dbg env hv R (derive_register_block R)) token transfer registers node
      = map_option (\<lambda>node'. (True, registers', node')) (pushed_response env
          (response_transfer node token deadline (serialized (AccessResponse_impl dbg) response)) clock node) \<and>
    deserialize_from_bytes (AccessResponse_impl dbg) (serialized (AccessResponse_impl dbg) response) = Some (Inr response) \<and>
    list_all invar registers' \<and> list_all (sendable R) registers' \<and> access_served R request registers registers' response)"
proof -
  obtain registers' response where r: "handle_access_request R (derive_register_block R) request registers = Some (response, registers')"
    "list_all invar registers'" "list_all (sendable R) registers'" "AccessResponse_valid response"
    "access_served R request registers registers' response"
    using lawful_register.access_block [OF assms(1-4), of request] assms(5) unfolding AccessRequest_valid_def by blast
  obtain timeout where timeout: "ne_from_millis env 1000 = Some timeout" using assms(8) by (auto simp: can_respond_def)
  have "th_request (register_handler dbg env hv R (derive_register_block R)) token transfer registers node
      = map_option (\<lambda>node'. (True, registers', node'))
          (map_option snd (core_send_response env token timeout (serializable_of (AccessResponse_impl dbg) response) node))"
    using assms(6,7) r(1) timeout access_request.serialized_roundtrip(3) [OF assms(5), of dbg]
    by (simp add: register_handler_def bind_handled del: option.map_comp)
  then show ?thesis
    using access_response.response_sent [OF r(4) assms(8) timeout, of token dbg]
      access_response.serialized_roundtrip(3) [OF r(4), of dbg] r access_request_size [OF assms(5), of dbg] assms(7) by auto
qed

text \<open>A node with two registers: a mutable number and a fixed text.\<close>

definition example_registers :: "(u16 SimpleRegister + FixedStringRegister) Register" where
  "example_registers = either_register (simple_register (register_primitive (list_hvec 128) Natural16_variant))
     (fixed_string_register (list_hvec 256))"

definition example_block :: "(u16 SimpleRegister + FixedStringRegister) list" where
  "example_block = [Inl (simple_with_value [110, 195, 169] True True 7), Inr \<lparr>fr_name = [118], fr_value = [49, 46, 48]\<rparr>]"

definition example_write :: AccessRequest where
  "example_write = \<lparr>arq_name = Name [110, 195, 169], arq_value = Value_Natural16 (Natural16 [500])\<rparr>"

definition example_token :: "(nat, Priority, nat) ResponseToken" where
  "example_token = \<lparr>rt_service = ACCESS_SERVICE, rt_client = 9, rt_transfer = 3, rt_priority = High\<rparr>"

definition example_transfer :: "ServiceId \<Rightarrow> u8 list \<Rightarrow> (nat, nat, Priority, nat) ServiceTransfer" where
  "example_transfer service payload = \<lparr>st_header = \<lparr>sh_timestamp = 0, sh_transfer_id = 3, sh_priority = High, sh_service = service,
     sh_source = 9, sh_destination = 42\<rparr>, st_payload = payload\<rparr>"

lemma example_lawful:
  "lawful_register example_registers (case_sum (\<lambda>_. True) (\<lambda>r. length (fr_value r) \<le> 256))"
proof -
  have "register_type (register_primitive (list_hvec 128) Natural16_variant) (\<lambda>_. True)"
    by (rule primitive_register_type) simp_all
  from either_lawful [OF register_type.simple_lawful [OF this] fixed_string_lawful] show ?thesis
    by (simp add: example_registers_def)
qed

theorem register_access_served_witness:
  "\<exists>registers' response.
     th_request (register_handler True example_env (list_hvec 255) example_registers (derive_register_block example_registers)) example_token
         (example_transfer ACCESS_SERVICE (serialized (AccessRequest_impl True) example_write)) example_block example_core
       = map_option (\<lambda>node'. (True, registers', node')) (pushed_response example_env
           (response_transfer example_core example_token 1000 (serialized (AccessResponse_impl True) response)) 0 example_core) \<and>
     access_served example_registers example_write example_block registers' response"
proof -
  have "list_all (case_sum (\<lambda>_. True) (\<lambda>r. length (fr_value r) \<le> 256)) example_block"
    "list_all (sendable example_registers) example_block" "list_all (\<lambda>r. is_utf8 (rg_name example_registers r)) example_block"
    "AccessRequest_valid example_write" by code_simp+
  moreover have "can_respond example_env (cn_clock example_core) 1000 0"
    by (simp add: can_respond_def example_env_def example_core_def core_new_def)
  ultimately show ?thesis
    using register_access_served [OF example_lawful, of example_block example_write
        "example_transfer ACCESS_SERVICE (serialized (AccessRequest_impl True) example_write)" True example_env example_core 1000 0
        "list_hvec 255" example_token]
    by (auto simp: example_transfer_def)
qed

text \<open>
  C37: A client can discover all registers of a node. If every register has a name of 1 to 255 bytes and there are fewer than 65536, the
  handler answers a list request with the name of the register at the requested index, or with an empty name beyond the last one;
  the response reaches the transmitter as bytes that deserialize to it, and no register changes. So a client that asks for the indexes 0, 1,
  2 and so on until it gets an empty name has the names of all registers, in order.
\<close>

theorem registers_discovered:
  assumes "hvec_law 255 hv" and "list_all (\<lambda>r. rg_name R r \<noteq> [] \<and> length (rg_name R r) \<le> 255) registers"
    and "length registers < 2 ^ 16" and "sh_service (st_header transfer) = LIST_SERVICE"
    and "st_payload transfer = serialized ListRequest_impl request" and "can_respond env (cn_clock node) deadline clock"
  shows "(\<exists>response. th_request (register_handler dbg env hv R (derive_register_block R)) token transfer registers node
      = map_option (\<lambda>node'. (True, registers, node')) (pushed_response env
          (response_transfer node token deadline (serialized ListResponse_impl response)) clock node) \<and>
      deserialize_from_bytes ListResponse_impl (serialized ListResponse_impl response) = Some (Inr response) \<and>
      response = ListResponse (Name (if unat (ListRequest_index request) < length registers
        then rg_name R (registers ! unat (ListRequest_index request)) else []))) \<and>
    (\<forall>n. discovered_names hv R registers 0 (length registers + Suc n) = Some (map (rg_name R) registers))"
proof -
  have names: "list_all (\<lambda>r. length (rg_name R r) \<le> 255) registers" using assms(2) by (simp add: list_all_length)
  define response where "response = ListResponse (Name (if unat (ListRequest_index request) < length registers
      then rg_name R (registers ! unat (ListRequest_index request)) else []))"
  have valid: "ListResponse_valid response"
    using names by (auto simp: response_def ListResponse_valid_def Name_valid_def list_all_length)
  obtain timeout where timeout: "ne_from_millis env 1000 = Some timeout" using assms(6) by (auto simp: can_respond_def)
  have "th_request (register_handler dbg env hv R (derive_register_block R)) token transfer registers node
      = map_option (\<lambda>node'. (True, registers, node'))
          (map_option snd (core_send_response env token timeout (serializable_of ListResponse_impl response) node))"
    using assms(4,5) list_request_name [OF assms(1) names, of request] timeout list_request.serialized_roundtrip(3) [of request]
      services_differ [symmetric]
    by (simp add: register_handler_def bind_handled response_def del: option.map_comp services_differ)
  moreover have "discovered_names hv R registers 0 (length registers + Suc n) = Some (map (rg_name R) registers)" for n
    using discovered_names_all [OF assms(1-3), of 0 "length registers + Suc n"] by simp
  ultimately show ?thesis
    using list_response.response_sent [OF valid assms(6) timeout, of token] list_response.serialized_roundtrip(3) [OF valid]
    unfolding response_def by auto
qed

theorem registers_discovered_witness:
  "(\<exists>response. th_request (register_handler True example_env (list_hvec 255) example_registers (derive_register_block example_registers))
        example_token (example_transfer LIST_SERVICE (serialized ListRequest_impl (ListRequest 1))) example_block example_core
      = map_option (\<lambda>node'. (True, example_block, node')) (pushed_response example_env
          (response_transfer example_core example_token 1000 (serialized ListResponse_impl response)) 0 example_core) \<and>
      response = ListResponse (Name [118])) \<and>
   discovered_names (list_hvec 255) example_registers example_block 0 3 = Some [[110, 195, 169], [118]]"
proof -
  have "list_all (\<lambda>r. rg_name example_registers r \<noteq> [] \<and> length (rg_name example_registers r) \<le> 255) example_block"
    "map (rg_name example_registers) example_block = [[110, 195, 169], [118]]" "length example_block = 2"
    "rg_name example_registers (example_block ! 1) = [118]" by code_simp+
  moreover have "can_respond example_env (cn_clock example_core) 1000 0"
    by (simp add: can_respond_def example_env_def example_core_def core_new_def)
  ultimately show ?thesis
    using registers_discovered [OF list_hvec_law, of example_registers example_block
        "example_transfer LIST_SERVICE (serialized ListRequest_impl (ListRequest 1))" "ListRequest 1" example_env example_core 1000 0 True
        example_token]
    by (auto simp: example_transfer_def numeral_3_eq_3 dest: spec [of _ 0])
qed

text \<open>
  C38: The documentation allows names of 256 bytes and announces that longer ones are truncated to 256 bytes, but a name of 256 or more bytes
  makes the node panic as soon as another node lists the register: the vector of a name in a response holds 255 bytes.
\<close>

theorem long_register_name_panics:
  assumes "hvec_law 255 hv" and "unat (ListRequest_index request) < length registers"
    and "256 \<le> length (rg_name R (registers ! unat (ListRequest_index request)))"
    and "sh_service (st_header transfer) = LIST_SERVICE" and "st_payload transfer = serialized ListRequest_impl request"
  shows "th_request (register_handler dbg env hv R (derive_register_block R)) token transfer registers node = None"
proof -
  have "handle_list_request hv R (derive_register_block R) request registers = None"
    using assms(2,3) hvec_lawD(3) [OF assms(1)] by (auto simp: handle_list_request_def derive_register_block_def Let_def)
  then show ?thesis using assms(4,5) list_request.serialized_roundtrip(3) [of request] services_differ [symmetric]
    by (simp add: register_handler_def del: services_differ)
qed

theorem long_register_name_panics_witness:
  "fixed_string_new (replicate 256 97) [49] = Some \<lparr>fr_name = replicate 256 97, fr_value = [49]\<rparr> \<and>
   th_request (register_handler False example_env (list_hvec 255) (fixed_string_register (list_hvec 256))
       (derive_register_block (fixed_string_register (list_hvec 256)))) example_token
     (example_transfer LIST_SERVICE (serialized ListRequest_impl (ListRequest 0)))
     [\<lparr>fr_name = replicate 256 97, fr_value = [49]\<rparr>] example_core = None"
  using long_register_name_panics [OF list_hvec_law, of "ListRequest 0" "[\<lparr>fr_name = replicate 256 97, fr_value = [49]\<rparr>]"
      "fixed_string_register (list_hvec 256)" "example_transfer LIST_SERVICE (serialized ListRequest_impl (ListRequest 0))" False
      example_env example_token example_core]
  by (simp add: example_transfer_def fixed_string_register_def fixed_string_new_def)

end
