(* ===== verification/Pnp_Client.thy ===== *)
theory Pnp_Client
  imports Node_Ports
begin

text \<open>
  The client that asks for a node identifier (canadensis\_pnp\_client), over any transport. The trait \<^verbatim>\<open>AllocationMessage\<close> is a record of operations. The checksum of
  the \<^verbatim>\<open>crc_any\<close> crate and the conversion to the transport's node identifiers are parameters.
\<close>

section \<open>The client\<close>

record ('m, 'n) allocation_message =
  am_impl :: "'m data_type_impl"
  am_subject :: SubjectId
  am_with_unique_id :: "u8 list \<Rightarrow> 'm"
  am_matches_unique_id :: "'m \<Rightarrow> u8 list \<Rightarrow> bool"
  am_node_id :: "'m \<Rightarrow> 'n option"

definition NODE_ID_ALLOCATION_SUBJECT :: SubjectId where
  "NODE_ID_ALLOCATION_SUBJECT = subject_from_truncating 8166"

definition crc_64we_48_bits :: "(u8 list \<Rightarrow> u64) \<Rightarrow> u8 list \<Rightarrow> u64" where
  "crc_64we_48_bits crc64we uid = crc64we uid AND 0x0000ffffffffffff"

definition allocation_data_message ::
  "(u8 list \<Rightarrow> u64) \<Rightarrow> (u16 \<Rightarrow> 'n option) \<Rightarrow> (NodeIDAllocationData, 'n) allocation_message" where
  "allocation_data_message crc64we node_try_from =
     \<lparr>am_impl = NodeIDAllocationData_impl, am_subject = NODE_ID_ALLOCATION_SUBJECT,
      am_with_unique_id = (\<lambda>uid. \<lparr>na_unique_id_hash = crc_64we_48_bits crc64we uid, na_allocated_node_id = []\<rparr>),
      am_matches_unique_id = (\<lambda>self uid. na_unique_id_hash self = crc_64we_48_bits crc64we uid),
      am_node_id = (\<lambda>self. case na_allocated_node_id self of [] \<Rightarrow> None | node # _ \<Rightarrow> node_try_from (ID_value node))\<rparr>"

record ('tx, 'rx, 'd, 't, 'p) PnpClient =
  pc_unique_id :: "u8 list"
  pc_publisher :: "('d, 't, 'p) AnonymousPublisher"
  pc_transmitter :: 'tx
  pc_receiver :: 'rx

definition pnp_new ::
  "('tx, 'rx, 'dr, 'c, 'i, 'd, 't, 'p, 'n, 'e, 'f) node_env \<Rightarrow> ('m, 'n) allocation_message \<Rightarrow> 'tx \<Rightarrow> 'rx \<Rightarrow> u8 list \<Rightarrow> 'dr
   \<Rightarrow> (('f + ('tx, 'rx, 'd, 't, 'p) PnpClient) \<times> 'dr) option" where
  "pnp_new env M transmitter receiver unique_id driver = do {
     timeout \<leftarrow> ne_from_millis env 1000;
     (r, receiver, driver) \<leftarrow> rv_subscribe_message (ne_receiver env) (am_subject M) 9 timeout receiver driver;
     case r of
       Inl e \<Rightarrow> Some (Inl e, driver)
     | Inr _ \<Rightarrow> Some (Inr \<lparr>pc_unique_id = unique_id,
         pc_publisher = anonymous_publisher_new env (am_subject M) (ne_priority_from env Nominal) timeout,
         pc_transmitter = transmitter, pc_receiver = receiver\<rparr>, driver)
   }"

text \<open>Every error of the publisher is a panic.\<close>

definition pnp_send_request ::
  "('tx, 'rx, 'dr, 'c, 'i, 'd, 't, 'p, 'n, 'e, 'f) node_env \<Rightarrow> ('m, 'n) allocation_message
   \<Rightarrow> ('tx, 'rx, 'd, 't, 'p) PnpClient \<Rightarrow> 'c \<Rightarrow> 'dr \<Rightarrow> (('tx, 'rx, 'd, 't, 'p) PnpClient \<times> 'c \<times> 'dr) option" where
  "pnp_send_request env M self clock driver = do {
     let message = am_with_unique_id M (pc_unique_id self);
     (status, publisher, transmitter, clock, driver) \<leftarrow> anonymous_send env (serializable_of (am_impl M) message)
       (pc_publisher self, pc_transmitter self, clock, driver);
     let self = self\<lparr>pc_publisher := publisher, pc_transmitter := transmitter\<rparr>;
     case status of
       Inr _ \<Rightarrow> Some (self, clock, driver)
     | Inl _ \<Rightarrow> None
   }"

definition pnp_receive ::
  "('tx, 'rx, 'dr, 'c, 'i, 'd, 't, 'p, 'n, 'e, 'f) node_env \<Rightarrow> ('m, 'n) allocation_message \<Rightarrow> 'i
   \<Rightarrow> ('tx, 'rx, 'd, 't, 'p) PnpClient \<Rightarrow> 'dr \<Rightarrow> (('f + 'n option) \<times> ('tx, 'rx, 'd, 't, 'p) PnpClient \<times> 'dr) option" where
  "pnp_receive env M now self driver = do {
     (r, receiver, driver) \<leftarrow> rv_receive (ne_receiver env) now (pc_receiver self) driver;
     let self = self\<lparr>pc_receiver := receiver\<rparr>;
     case r of
       Inl e \<Rightarrow> Some (Inl e, self, driver)
     | Inr None \<Rightarrow> Some (Inr None, self, driver)
     | Inr (Some transfer_in) \<Rightarrow> do {
         message \<leftarrow> deserialize_from_bytes (am_impl M) (tr_payload transfer_in);
         case message of
           Inl _ \<Rightarrow> Some (Inr None, self, driver)
         | Inr message \<Rightarrow>
             Some (Inr (if am_matches_unique_id M message (pc_unique_id self) then am_node_id M message else None), self, driver)
       }
   }"

section \<open>Requests and answers\<close>

lemma hash_48_bits [simp]: "take_bit 48 (crc_64we_48_bits crc uid) = crc_64we_48_bits crc uid"
proof -
  have "(0x0000ffffffffffff :: u64) = mask 48" by (simp add: mask_eq_exp_minus_1)
  then have "crc_64we_48_bits crc uid = take_bit 48 (crc uid)" by (simp only: crc_64we_48_bits_def take_bit_eq_mask)
  then show ?thesis by simp
qed

text \<open>The request of a client with this hash, as a transfer.\<close>

definition allocation_request :: "('d, 't, 'p) AnonymousPublisher \<Rightarrow> u64 \<Rightarrow> 'i \<Rightarrow> (u8 list, 'i, 't, 'p, 'n) Transfer" where
  "allocation_request publisher hash deadline =
     \<lparr>tr_header = Message \<lparr>mh_timestamp = deadline, mh_transfer_id = ap_next_transfer_id publisher, mh_priority = ap_priority publisher,
        mh_subject = ap_subject publisher, mh_source = None\<rparr>,
      tr_payload = serialized NodeIDAllocationData_impl \<lparr>na_unique_id_hash = hash, na_allocated_node_id = []\<rparr>\<rparr>"

lemma pnp_send_request_pushes:
  assumes "7 \<le> tm_mtu (ne_transmitter env) (pc_transmitter self)" and "ne_mem env 7"
    and "ne_now env clock = (now, clock')" and "ne_add env (ap_timeout (pc_publisher self)) now = Some deadline"
  shows "pnp_send_request env (allocation_data_message crc node_try_from) self clock driver =
    (case tm_push (ne_transmitter env) (allocation_request (pc_publisher self) (crc_64we_48_bits crc (pc_unique_id self)) deadline)
        (pc_transmitter self) clock' driver of
       Some (Inr _, transmitter, clock, driver) \<Rightarrow> Some (self\<lparr>pc_transmitter := transmitter,
         pc_publisher := (pc_publisher self)\<lparr>ap_next_transfer_id := ne_tid_increment env (ap_next_transfer_id (pc_publisher self))\<rparr>\<rparr>,
         clock, driver)
     | _ \<Rightarrow> None)"
proof -
  let ?message = "\<lparr>na_unique_id_hash = crc_64we_48_bits crc (pc_unique_id self), na_allocated_node_id = []\<rparr>"
  have size: "sz_size_bits (serializable_of NodeIDAllocationData_impl ?message) = 56"
    "(size_bits NodeIDAllocationData_impl ?message + 7) div 8 = 7"
    by (simp_all add: serializable_of_def NodeIDAllocationData_impl_def)
  have calls: "do_serialize (ne_mem env) (ne_oom env) (serializable_of NodeIDAllocationData_impl ?message) operation s
      = operation (serialized NodeIDAllocationData_impl ?message) s" for operation s
    by (rule node_id_allocation.do_serialize_calls) (use assms(2) size(2) in \<open>simp_all add: NodeIDAllocationData_valid_def\<close>)
  show ?thesis
    using assms(1,3,4)
    by (auto simp: pnp_send_request_def allocation_data_message_def anonymous_send_def size(1) calls anonymous_send_payload_def
        allocation_request_def Let_def split: Option.bind_split option.split sum.split prod.split)
qed

section \<open>Properties\<close>

text \<open>
  C39: A client asks with the hash of its unique identifier and takes the answer with this hash. Over a transport with frames of at
  least seven bytes, sending a request hands the transmitter one anonymous message, on the subject of the protocol, that deserializes to
  the hash without a node identifier. The call returns if the transmitter takes the message and panics if it reports any error, also
  one that has nothing to do with the size of frames. Receiving an answer returns its node identifier if the answer has
  the hash of the client and the transport knows this node identifier, and no identifier otherwise.
\<close>

theorem pnp_allocation:
  assumes "7 \<le> tm_mtu (ne_transmitter env) (pc_transmitter self)" and "ne_mem env 7"
    and "ne_now env clock = (now, clock')" and "ne_add env (ap_timeout (pc_publisher self)) now = Some deadline"
    and "rv_receive (ne_receiver env) now' (pc_receiver self) driver = Some (Inr (Some answer), receiver, driver')"
    and "tr_payload answer = serialized NodeIDAllocationData_impl \<lparr>na_unique_id_hash = hash, na_allocated_node_id = [ID node]\<rparr>"
    and "take_bit 48 hash = hash"
  shows "pnp_send_request env (allocation_data_message crc node_try_from) self clock driver =
      (case tm_push (ne_transmitter env) (allocation_request (pc_publisher self) (crc_64we_48_bits crc (pc_unique_id self)) deadline)
          (pc_transmitter self) clock' driver of
         Some (Inr _, transmitter, clock, driver) \<Rightarrow> Some (self\<lparr>pc_transmitter := transmitter,
           pc_publisher := (pc_publisher self)\<lparr>ap_next_transfer_id := ne_tid_increment env (ap_next_transfer_id (pc_publisher self))\<rparr>\<rparr>,
           clock, driver)
       | _ \<Rightarrow> None) \<and>
    deserialize_from_bytes NodeIDAllocationData_impl
        (tr_payload (allocation_request (pc_publisher self) (crc_64we_48_bits crc (pc_unique_id self)) deadline))
      = Some (Inr \<lparr>na_unique_id_hash = crc_64we_48_bits crc (pc_unique_id self), na_allocated_node_id = []\<rparr>) \<and>
    pnp_receive env (allocation_data_message crc node_try_from) now' self driver =
      Some (Inr (if hash = crc_64we_48_bits crc (pc_unique_id self) then node_try_from node else None), self\<lparr>pc_receiver := receiver\<rparr>, driver')"
proof -
  have "deserialize_from_bytes NodeIDAllocationData_impl (tr_payload answer)
      = Some (Inr \<lparr>na_unique_id_hash = hash, na_allocated_node_id = [ID node]\<rparr>)"
    unfolding assms(6) by (rule node_id_allocation.serialized_roundtrip(3)) (simp add: NodeIDAllocationData_valid_def assms(7))
  then have "pnp_receive env (allocation_data_message crc node_try_from) now' self driver =
      Some (Inr (if hash = crc_64we_48_bits crc (pc_unique_id self) then node_try_from node else None), self\<lparr>pc_receiver := receiver\<rparr>, driver')"
    using assms(5) by (simp add: pnp_receive_def allocation_data_message_def)
  moreover have "deserialize_from_bytes NodeIDAllocationData_impl
        (tr_payload (allocation_request (pc_publisher self) (crc_64we_48_bits crc (pc_unique_id self)) deadline))
      = Some (Inr \<lparr>na_unique_id_hash = crc_64we_48_bits crc (pc_unique_id self), na_allocated_node_id = []\<rparr>)"
    by (simp add: allocation_request_def node_id_allocation.serialized_roundtrip(3) NodeIDAllocationData_valid_def)
  ultimately show ?thesis using pnp_send_request_pushes [OF assms(1-4), of crc node_try_from driver] by simp
qed

text \<open>A server that answers every request with the node identifier 17, and a checksum that adds the bytes.\<close>

definition sum_crc :: "u8 list \<Rightarrow> u64" where
  "sum_crc bytes = sum_list (map ucast bytes)"

definition answering_env ::
  "((u8 list, nat, nat, Priority, nat) Transfer list, unit, unit, nat, nat, nat, nat, Priority, nat, unit, unit) node_env" where
  "answering_env = example_env\<lparr>ne_receiver := silent_receiver\<lparr>rv_receive := (\<lambda>now rx dr. Some (Inr (Some
     \<lparr>tr_header = Message \<lparr>mh_timestamp = now, mh_transfer_id = 0, mh_priority = Nominal, mh_subject = NODE_ID_ALLOCATION_SUBJECT,
        mh_source = Some 1\<rparr>,
      tr_payload = serialized NodeIDAllocationData_impl \<lparr>na_unique_id_hash = 6, na_allocated_node_id = [ID 17]\<rparr>\<rparr>), rx, dr))\<rparr>\<rparr>"

definition example_client :: "((u8 list, nat, nat, Priority, nat) Transfer list, unit, nat, nat, Priority) PnpClient" where
  "example_client = \<lparr>pc_unique_id = [1, 2, 3, 0, 0, 0, 0, 0, 0, 0, 0, 0, 0, 0, 0, 0],
     pc_publisher = anonymous_publisher_new answering_env NODE_ID_ALLOCATION_SUBJECT Nominal 1000, pc_transmitter = [], pc_receiver = ()\<rparr>"

theorem pnp_allocation_witness:
  "pnp_send_request answering_env (allocation_data_message sum_crc (\<lambda>n. Some (unat n))) example_client 0 () =
     Some (example_client\<lparr>pc_transmitter := [allocation_request (pc_publisher example_client) 6 1000],
       pc_publisher := (pc_publisher example_client)\<lparr>ap_next_transfer_id := 1\<rparr>\<rparr>, 0, ()) \<and>
   pnp_receive answering_env (allocation_data_message sum_crc (\<lambda>n. Some (unat n))) 5 example_client () =
     Some (Inr (Some 17), example_client\<lparr>pc_receiver := ()\<rparr>, ())"
proof -
  define answer where "answer = the (projr (fst (the (rv_receive (ne_receiver answering_env) 5 () ()))))"
  have "7 \<le> tm_mtu (ne_transmitter answering_env) (pc_transmitter example_client)" "ne_mem answering_env 7"
    "ne_now answering_env 0 = (0, 0)" "ne_add answering_env (ap_timeout (pc_publisher example_client)) 0 = Some 1000"
    "rv_receive (ne_receiver answering_env) 5 (pc_receiver example_client) () = Some (Inr (Some answer), (), ())"
    "tr_payload answer = serialized NodeIDAllocationData_impl \<lparr>na_unique_id_hash = 6, na_allocated_node_id = [ID 17]\<rparr>"
    by (simp_all add: answer_def answering_env_def example_env_def silent_receiver_def recorder_def example_client_def
        anonymous_publisher_new_def)
  note facts = this
  have "take_bit 48 (6 :: u64) = 6" by code_simp
  note answered = pnp_allocation [OF facts this, of sum_crc "\<lambda>n. Some (unat n)"]
  have "crc_64we_48_bits sum_crc (pc_unique_id example_client) = 6" "unat (17 :: u16) = 17" by code_simp+
  moreover have "tm_push (ne_transmitter answering_env) t (pc_transmitter example_client) 0 () = Some (Inr (), [t], 0, ())"
    "ne_tid_increment answering_env (ap_next_transfer_id (pc_publisher example_client)) = 1" for t
    by (simp_all add: answering_env_def example_env_def recorder_def example_client_def anonymous_publisher_new_def)
  ultimately show ?thesis using answered by auto
qed

end
