(* ===== verification/Udp_Address.thy ===== *)
theory Udp_Address
  imports Core_Transfer
begin

text \<open>
  Identifiers, addresses and ports of the UDP transport (canadensis\_udp: \<^verbatim>\<open>lib.rs\<close>, \<^verbatim>\<open>address.rs\<close>). An \<^verbatim>\<open>Ipv4Addr\<close> is its 32-bit number.
\<close>

section \<open>Identifiers and errors\<close>

datatype UdpNodeId = UdpNodeId (udp_node_bits: u16)

instantiation UdpNodeId :: linorder
begin

definition less_eq_UdpNodeId :: "UdpNodeId \<Rightarrow> UdpNodeId \<Rightarrow> bool" where
  "less_eq_UdpNodeId a b \<longleftrightarrow> udp_node_bits a \<le> udp_node_bits b"

definition less_UdpNodeId :: "UdpNodeId \<Rightarrow> UdpNodeId \<Rightarrow> bool" where
  "less_UdpNodeId a b \<longleftrightarrow> udp_node_bits a < udp_node_bits b"

instance
  by standard (auto simp: less_eq_UdpNodeId_def less_UdpNodeId_def UdpNodeId.expand)

end

datatype UdpTransferId = UdpTransferId (udp_tid_bits: u64)

definition udp_tid_increment :: "UdpTransferId \<Rightarrow> UdpTransferId" where
  "udp_tid_increment self = UdpTransferId (udp_tid_bits self + 1)"

definition udp_transfer_ids_default :: "UdpTransferId list" where
  "udp_transfer_ids_default = replicate (2 ^ 16) (UdpTransferId 0)"

text \<open>A \<^verbatim>\<open>std::io::Error\<close> is of the kind \<^verbatim>\<open>WouldBlock\<close> or another one.\<close>

datatype 'e io_error = IoWouldBlock | IoOther 'e

datatype 'e udp_error = UdpMemory out_of_memory_error | UdpSocket "'e io_error"

section \<open>Addresses\<close>

type_synonym Ipv4Addr = u32

definition PREFIX_MAX :: u16 where
  "PREFIX_MAX = 0x1ff"

definition SUBNET_MAX :: u8 where
  "SUBNET_MAX = 0x7f"

definition GENERIC_MULTICAST_BASE :: u32 where
  "GENERIC_MULTICAST_BASE = 0xe0000000"

definition GENERIC_MULTICAST_MASK :: u32 where
  "GENERIC_MULTICAST_MASK = 0xf0000000"

definition MULTICAST_BASE :: u32 where
  "MULTICAST_BASE = 0xef000000"

definition MULTICAST_MASK :: u32 where
  "MULTICAST_MASK = 0xff80e000"

record NodeAddress =
  na_prefix :: u16
  na_subnet :: u8
  na_node :: UdpNodeId

record MulticastAddress =
  ma_subnet :: u8
  ma_subject :: SubjectId

datatype Address = NodeAddr NodeAddress | MulticastAddr MulticastAddress

definition ip_from_node_address :: "NodeAddress \<Rightarrow> Ipv4Addr" where
  "ip_from_node_address address =
     push_bit 23 (ucast (na_prefix address)) OR push_bit 16 (ucast (na_subnet address)) OR ucast (udp_node_bits (na_node address))"

definition ip_from_multicast_address :: "MulticastAddress \<Rightarrow> Ipv4Addr" where
  "ip_from_multicast_address address =
     MULTICAST_BASE OR push_bit 16 (ucast (ma_subnet address)) OR ucast (subject_bits (ma_subject address))"

fun ip_from_address :: "Address \<Rightarrow> Ipv4Addr" where
  "ip_from_address (NodeAddr node_address) = ip_from_node_address node_address"
| "ip_from_address (MulticastAddr multicast_address) = ip_from_multicast_address multicast_address"

definition node_address_try_from :: "Ipv4Addr \<Rightarrow> invalid_value + NodeAddress" where
  "node_address_try_from bits =
     (if bits AND GENERIC_MULTICAST_MASK \<noteq> GENERIC_MULTICAST_BASE then
        Inr \<lparr>na_prefix = ucast (drop_bit 23 bits) AND PREFIX_MAX, na_subnet = ucast (drop_bit 16 bits) AND SUBNET_MAX,
             na_node = UdpNodeId (ucast bits)\<rparr>
      else Inl InvalidValue)"

definition address_try_from :: "Ipv4Addr \<Rightarrow> invalid_value + Address" where
  "address_try_from bits =
     (if bits AND GENERIC_MULTICAST_MASK = GENERIC_MULTICAST_BASE then
        if bits AND MULTICAST_MASK = MULTICAST_BASE then
          Inr (MulticastAddr \<lparr>ma_subnet = ucast (drop_bit 16 bits) AND SUBNET_MAX, ma_subject = subject_from_truncating (ucast bits)\<rparr>)
        else Inl InvalidValue
      else case node_address_try_from bits of Inl e \<Rightarrow> Inl e | Inr address \<Rightarrow> Inr (NodeAddr address))"

fun address_subnet :: "Address \<Rightarrow> u8" where
  "address_subnet (NodeAddr inner) = na_subnet inner"
| "address_subnet (MulticastAddr inner) = ma_subnet inner"

definition same_subnet :: "Address \<Rightarrow> Address \<Rightarrow> bool" where
  "same_subnet self other \<longleftrightarrow> address_subnet self = address_subnet other"

definition remote_node_address :: "UdpNodeId \<Rightarrow> NodeAddress \<Rightarrow> Ipv4Addr" where
  "remote_node_address node self = ip_from_address (NodeAddr (self\<lparr>na_node := node\<rparr>))"

definition multicast_address :: "SubjectId \<Rightarrow> NodeAddress \<Rightarrow> Ipv4Addr" where
  "multicast_address subject self = ip_from_address (MulticastAddr \<lparr>ma_subnet = na_subnet self, ma_subject = subject\<rparr>)"

section \<open>Ports\<close>

definition SUBJECT_PORT :: u16 where
  "SUBJECT_PORT = 16383"

definition SERVICE_BASE_PORT :: u16 where
  "SERVICE_BASE_PORT = 0x4000"

definition SERVICE_BASE_MASK :: u16 where
  "SERVICE_BASE_MASK = 0xfc00"

datatype UdpPort = PortMessage | PortRequest ServiceId | PortResponse ServiceId

fun u16_from_port :: "UdpPort \<Rightarrow> u16" where
  "u16_from_port PortMessage = SUBJECT_PORT"
| "u16_from_port (PortRequest service) = SERVICE_BASE_PORT OR push_bit 1 (service_bits service)"
| "u16_from_port (PortResponse service) = SERVICE_BASE_PORT OR (push_bit 1 (service_bits service) + 1)"

definition port_try_from :: "u16 \<Rightarrow> invalid_value + UdpPort" where
  "port_try_from port =
     (if port = SUBJECT_PORT then Inr PortMessage
      else if port AND SERVICE_BASE_MASK = SERVICE_BASE_PORT then
        (let service = service_from_truncating (drop_bit 1 port) in
         if port AND 1 = 1 then Inr (PortResponse service) else Inr (PortRequest service))
      else Inl InvalidValue)"

section \<open>Addresses and ports are read back\<close>

text \<open>The invariant of the addresses: the fields are in range and a node address is not a multicast address.\<close>

fun address_wf :: "Address \<Rightarrow> bool" where
  "address_wf (NodeAddr a) \<longleftrightarrow> unat (na_prefix a) < 2 ^ 9 \<and> drop_bit 5 (na_prefix a) \<noteq> 14 \<and> unat (na_subnet a) < 2 ^ 7"
| "address_wf (MulticastAddr a) \<longleftrightarrow> unat (ma_subnet a) < 2 ^ 7 \<and> subject_wf (ma_subject a)"

fun port_wf :: "UdpPort \<Rightarrow> bool" where
  "port_wf PortMessage \<longleftrightarrow> True"
| "port_wf (PortRequest service) \<longleftrightarrow> service_wf service"
| "port_wf (PortResponse service) \<longleftrightarrow> service_wf service"

lemma unat_subject_bits: "subject_wf s \<Longrightarrow> unat (subject_bits s) < 2 ^ 13"
  by (simp add: subject_wf_def VALID_SUBJECT_IDS_end_def word_le_nat_alt)

lemma unat_service_bits: "service_wf s \<Longrightarrow> unat (service_bits s) < 2 ^ 9"
  by (simp add: service_wf_def VALID_SERVICE_IDS_end_def word_le_nat_alt)

lemma truncating_id:
  "subject_wf s \<Longrightarrow> subject_from_truncating (subject_bits s) = s"
  "service_wf t \<Longrightarrow> service_from_truncating (service_bits t) = t"
proof -
  have m: "VALID_SUBJECT_IDS_end = mask 13" "VALID_SERVICE_IDS_end = mask 9"
    by (simp_all add: VALID_SUBJECT_IDS_end_def VALID_SERVICE_IDS_end_def mask_eq_exp_minus_1)
  have id: "x AND mask k = x" if "unat x < 2 ^ k" for x :: u16 and k
    using that by (simp add: word_unat_eq_iff unat_and_mask)
  show "subject_wf s \<Longrightarrow> subject_from_truncating (subject_bits s) = s"
    "service_wf t \<Longrightarrow> service_from_truncating (service_bits t) = t"
    using id [OF unat_subject_bits, of s] id [OF unat_service_bits, of t]
    by (simp_all add: subject_from_truncating_def service_from_truncating_def m)
qed

lemma valid_service_mask: "bit VALID_SERVICE_IDS_end k \<longleftrightarrow> k < 9"
proof -
  have m: "VALID_SERVICE_IDS_end = mask 9" by (simp add: VALID_SERVICE_IDS_end_def mask_eq_exp_minus_1)
  show ?thesis unfolding m by (auto simp: bit_mask_iff)
qed

lemma low_bits_ucast:
  fixes x :: "'a::len word"
  assumes "unat x < 2 ^ k"
  shows "bit x n \<longleftrightarrow> n < k \<and> bit x n"
  using bit_below [OF assms] by blast

lemma bit_node_ip:
  assumes "address_wf (NodeAddr a)"
  shows "bit (ip_from_node_address a) k \<longleftrightarrow>
    k < 32 \<and> (if k < 16 then bit (udp_node_bits (na_node a)) k
      else if k < 23 then bit (na_subnet a) (k - 16) else bit (na_prefix a) (k - 23))"
  using assms low_bits_ucast [of "na_prefix a" 9 "k - 23"] low_bits_ucast [of "na_subnet a" 7 "k - 16"]
    bit_imp_le_length [of "udp_node_bits (na_node a)" k]
  by (auto simp: ip_from_node_address_def bit_simps)

lemma multicast_base: "MULTICAST_BASE = push_bit 23 478"
  by (simp add: MULTICAST_BASE_def)

lemma multicast_mask: "bit MULTICAST_MASK k \<longleftrightarrow> 13 \<le> k \<and> k < 16 \<or> 23 \<le> k \<and> k < 32"
proof -
  have "MULTICAST_MASK = push_bit 23 (mask 9) OR push_bit 13 (mask 3)"
    by (simp add: MULTICAST_MASK_def mask_eq_exp_minus_1)
  then have "bit MULTICAST_MASK k \<longleftrightarrow> bit (push_bit 23 (mask 9) OR push_bit 13 (mask 3) :: u32) k" by (rule arg_cong)
  also have "\<dots> \<longleftrightarrow> 13 \<le> k \<and> k < 16 \<or> 23 \<le> k \<and> k < 32"
    by (simp only: bit_or_iff bit_push_bit_iff bit_mask_iff possible_bit_word) auto
  finally show ?thesis .
qed

lemma multicast_base_high: "bit MULTICAST_BASE k \<Longrightarrow> 23 \<le> k"
  by (simp only: multicast_base bit_push_bit_iff)

lemma max_masks: "PREFIX_MAX = mask 9" "SUBNET_MAX = mask 7"
  by (simp_all add: PREFIX_MAX_def SUBNET_MAX_def mask_eq_exp_minus_1)

lemma bit_multicast_ip:
  assumes "address_wf (MulticastAddr a)"
  shows "bit (ip_from_multicast_address a) k \<longleftrightarrow>
    (if k < 16 then bit (subject_bits (ma_subject a)) k
      else if k < 23 then bit (ma_subnet a) (k - 16) else bit MULTICAST_BASE k)"
  using assms low_bits_ucast [of "ma_subnet a" 7 "k - 16"] bit_imp_le_length [of "subject_bits (ma_subject a)" k]
    multicast_base_high [of k]
  by (auto simp: ip_from_multicast_address_def bit_simps)

lemma generic_multicast_iff: "x AND GENERIC_MULTICAST_MASK = GENERIC_MULTICAST_BASE \<longleftrightarrow> drop_bit 28 x = 14" for x :: u32
proof -
  have "GENERIC_MULTICAST_MASK = push_bit 28 (mask 4)" "GENERIC_MULTICAST_BASE = push_bit 28 14"
    by (simp_all add: GENERIC_MULTICAST_MASK_def GENERIC_MULTICAST_BASE_def mask_eq_exp_minus_1)
  moreover have "x AND push_bit 28 (mask 4) = push_bit 28 (drop_bit 28 x)"
    by (auto simp: bit_eq_iff bit_simps)
  moreover have "drop_bit 28 (push_bit 28 (drop_bit 28 x)) = drop_bit 28 x"
    by (auto simp: bit_eq_iff bit_simps) (use bit_imp_le_length [of x] in force)
  moreover have "drop_bit 28 (push_bit 28 14) = (14 :: u32)" by simp
  ultimately show ?thesis by metis
qed

lemma node_address_roundtrip:
  assumes "address_wf (NodeAddr a)"
  shows "node_address_try_from (ip_from_node_address a) = Inr a"
proof -
  let ?ip = "ip_from_node_address a"
  note b = bit_node_ip [OF assms]
  have p: "n < 9" if "bit (na_prefix a) n" for n using bit_below [of "na_prefix a" 9 n] assms that by simp
  have s: "n < 7" if "bit (na_subnet a) n" for n using bit_below [of "na_subnet a" 7 n] assms that by simp
  have "drop_bit 28 ?ip = ucast (drop_bit 5 (na_prefix a))"
    by (auto simp: bit_eq_iff bit_simps b dest: p)
  moreover have "ucast (drop_bit 5 (na_prefix a)) \<noteq> (14 :: u32)"
  proof
    assume "ucast (drop_bit 5 (na_prefix a)) = (14 :: u32)"
    moreover have "drop_bit 5 (na_prefix a) = ucast (ucast (drop_bit 5 (na_prefix a)) :: u32)" by (auto simp: bit_eq_iff bit_simps dest: p)
    ultimately show False using assms by simp
  qed
  moreover have "ucast (drop_bit 23 ?ip) AND PREFIX_MAX = na_prefix a"
    by (auto simp: max_masks bit_eq_iff bit_simps b dest: p)
  moreover have "ucast (drop_bit 16 ?ip) AND SUBNET_MAX = na_subnet a"
    by (auto simp: max_masks bit_eq_iff bit_simps b dest: s)
  moreover have "ucast ?ip = udp_node_bits (na_node a)" by (auto simp: bit_eq_iff bit_simps b)
  ultimately show ?thesis by (simp add: node_address_try_from_def generic_multicast_iff)
qed

lemma multicast_address_roundtrip:
  assumes "address_wf (MulticastAddr a)"
  shows "address_try_from (ip_from_multicast_address a) = Inr (MulticastAddr a)"
proof -
  let ?ip = "ip_from_multicast_address a"
  note b = bit_multicast_ip [OF assms]
  have subject: "n < 13" if "bit (subject_bits (ma_subject a)) n" for n
    using bit_below [OF unat_subject_bits that] assms by simp
  have s: "n < 7" if "bit (ma_subnet a) n" for n using bit_below [of "ma_subnet a" 7 n] assms that by simp
  have base: "drop_bit 28 ?ip = drop_bit 28 MULTICAST_BASE" by (auto simp: bit_eq_iff bit_simps b)
  have "?ip AND MULTICAST_MASK = MULTICAST_BASE"
    by (auto simp: bit_eq_iff bit_simps b multicast_mask dest: subject multicast_base_high)
  moreover have "?ip AND GENERIC_MULTICAST_MASK = GENERIC_MULTICAST_BASE"
    unfolding generic_multicast_iff base by (simp add: MULTICAST_BASE_def)
  moreover have "ucast (drop_bit 16 ?ip) AND SUBNET_MAX = ma_subnet a"
    by (auto simp: max_masks bit_eq_iff bit_simps b dest: s)
  moreover have "ucast ?ip = subject_bits (ma_subject a)" by (auto simp: bit_eq_iff bit_simps b)
  moreover have "subject_from_truncating (subject_bits (ma_subject a)) = ma_subject a"
    using assms by (simp add: truncating_id)
  ultimately show ?thesis by (simp add: address_try_from_def)
qed

lemma service_port_bits:
  assumes "service_wf service"
  shows "bit (u16_from_port (PortRequest service)) k \<longleftrightarrow> k = 14 \<or> 1 \<le> k \<and> k < 10 \<and> bit (service_bits service) (k - 1)"
    and "bit (u16_from_port (PortResponse service)) k \<longleftrightarrow> k = 14 \<or> k = 0 \<or> 1 \<le> k \<and> k < 10 \<and> bit (service_bits service) (k - 1)"
proof -
  have s: "n < 9" if "bit (service_bits service) n" for n using bit_below [OF unat_service_bits [OF assms] that] .
  have base: "SERVICE_BASE_PORT = push_bit 14 1" by (simp add: SERVICE_BASE_PORT_def)
  have base: "bit SERVICE_BASE_PORT k \<longleftrightarrow> k = 14" for k
    by (simp only: base bit_push_bit_iff bit_1_iff possible_bit_word) auto
  have one: "push_bit 1 (service_bits service) + 1 = push_bit 1 (service_bits service) OR 1"
    by (rule disjunctive_add, simp only: bit_push_bit_iff bit_1_iff) auto
  show "bit (u16_from_port (PortRequest service)) k \<longleftrightarrow> k = 14 \<or> 1 \<le> k \<and> k < 10 \<and> bit (service_bits service) (k - 1)"
    using s [of "k - 1"] by (simp only: u16_from_port.simps bit_or_iff bit_push_bit_iff base possible_bit_word) auto
  show "bit (u16_from_port (PortResponse service)) k \<longleftrightarrow> k = 14 \<or> k = 0 \<or> 1 \<le> k \<and> k < 10 \<and> bit (service_bits service) (k - 1)"
    using s [of "k - 1"]
    by (simp only: u16_from_port.simps one bit_or_iff bit_push_bit_iff bit_1_iff base possible_bit_word) auto
qed

lemma service_base_mask: "bit SERVICE_BASE_MASK k \<longleftrightarrow> 10 \<le> k \<and> k < 16"
proof -
  have "SERVICE_BASE_MASK = push_bit 10 (mask 6)" by (simp add: SERVICE_BASE_MASK_def mask_eq_exp_minus_1)
  then have "bit SERVICE_BASE_MASK k \<longleftrightarrow> bit (push_bit 10 (mask 6) :: u16) k" by (rule arg_cong)
  then show ?thesis by (auto simp: bit_push_bit_iff bit_mask_iff)
qed

lemma port_roundtrip:
  assumes "port_wf port"
  shows "port_try_from (u16_from_port port) = Inr port"
proof -
  have base: "bit SERVICE_BASE_PORT k \<longleftrightarrow> k = 14" for k
    using service_port_bits(1) [of "ServiceId 0" k] by (simp add: service_wf_def)
  have low: "p AND 1 = 1 \<longleftrightarrow> bit p 0" for p :: u16 by (simp add: and_one_eq mod_2_eq_odd bit_0)
  have subject: "p \<noteq> SUBJECT_PORT" if "bit p 14" for p using that by (auto simp: SUBJECT_PORT_def)
  have service: "service_from_truncating (drop_bit 1 p) = service"
    if "service_wf service" "\<And>k. 1 \<le> k \<Longrightarrow> bit p k \<longleftrightarrow> k = 14 \<or> k < 10 \<and> bit (service_bits service) (k - 1)" for p service
  proof -
    have "drop_bit 1 p AND VALID_SERVICE_IDS_end = service_bits service AND VALID_SERVICE_IDS_end"
      by (rule bit_word_eqI) (use that(2) in \<open>auto simp: bit_simps valid_service_mask\<close>)
    then show ?thesis using truncating_id(2) [OF that(1)] by (simp add: service_from_truncating_def)
  qed
  show ?thesis
  proof (cases port)
    case (PortRequest service)
    then have wf: "service_wf service" using assms by simp
    let ?p = "u16_from_port (PortRequest service)"
    note b = service_port_bits(1) [OF wf]
    have "?p AND SERVICE_BASE_MASK = SERVICE_BASE_PORT" by (rule bit_word_eqI, simp only: bit_and_iff b base service_base_mask) auto
    then show ?thesis using PortRequest service [OF wf, of ?p] subject [of ?p] low [of ?p] b
      by (simp add: port_try_from_def del: u16_from_port.simps)
  next
    case (PortResponse service)
    then have wf: "service_wf service" using assms by simp
    let ?p = "u16_from_port (PortResponse service)"
    note b = service_port_bits(2) [OF wf]
    have "?p AND SERVICE_BASE_MASK = SERVICE_BASE_PORT" by (rule bit_word_eqI, simp only: bit_and_iff b base service_base_mask) auto
    then show ?thesis using PortResponse service [OF wf, of ?p] subject [of ?p] low [of ?p] b
      by (simp add: port_try_from_def del: u16_from_port.simps)
  qed (simp add: port_try_from_def)
qed

text \<open>
C34: Addresses and ports of the UDP transport are read back. The IPv4 address of a node or of a subject's multicast group,
parsed again, gives the same address; the UDP port of the messages, or of the requests or responses of a service, parsed again, gives
the same port. So a receiver that derives the source node from a packet's address finds the node that sent it.
\<close>

theorem udp_addresses_roundtrip:
  assumes "address_wf address" and "port_wf port"
  shows "address_try_from (ip_from_address address) = Inr address \<and> port_try_from (u16_from_port port) = Inr port"
proof
  show "address_try_from (ip_from_address address) = Inr address"
  proof (cases address)
    case (NodeAddr a)
    then show ?thesis using node_address_roundtrip [of a] assms(1)
      by (auto simp: address_try_from_def node_address_try_from_def split: if_splits)
  qed (use multicast_address_roundtrip assms(1) in simp)
qed (rule port_roundtrip [OF assms(2)])

theorem udp_addresses_roundtrip_witness:
  "address_try_from (ip_from_address (NodeAddr \<lparr>na_prefix = 0xff, na_subnet = 3, na_node = UdpNodeId 42\<rparr>))
     = Inr (NodeAddr \<lparr>na_prefix = 0xff, na_subnet = 3, na_node = UdpNodeId 42\<rparr>) \<and>
   port_try_from (u16_from_port (PortResponse (ServiceId 430))) = Inr (PortResponse (ServiceId 430))"
  by (rule udp_addresses_roundtrip) (simp_all add: service_wf_def VALID_SERVICE_IDS_end_def)

end
