(* ===== verification/Udp_Tx.thy ===== *)
theory Udp_Tx
  imports Udp_Address
begin

text \<open>
  Frame headers and the transmitter of the UDP transport (canadensis\_udp: \<^verbatim>\<open>header.rs\<close>, \<^verbatim>\<open>tx/breakdown.rs\<close>, \<^verbatim>\<open>tx.rs\<close>).

  \<^verbatim>\<open>UdpHeader\<close> is a \<^verbatim>\<open>repr(C)\<close> struct without implicit padding that \<^verbatim>\<open>zerocopy\<close> reads and writes in the byte order of the machine;
  the model is of a little-endian one. The frame under construction is a \<^verbatim>\<open>heapless::Vec<u8, MTU>\<close>: the list of its bytes,
  with the operations \<open>fv\<close> and their documented behaviour \<open>frame_vec_law\<close>. The socket's \<^verbatim>\<open>send_to\<close>, the clock, the
  comparison of instants and CRC-32C are parameters; \<open>dbg\<close> tells whether integer overflow is checked.
\<close>

section \<open>Headers\<close>

record UdpHeader =
  uh_version :: u8
  uh_priority :: u8
  uh_padding0 :: u16
  uh_frame_index_eot :: u32
  uh_transfer_id :: u64
  uh_padding1 :: u64

definition UDP_HEADER_SIZE :: nat where
  "UDP_HEADER_SIZE = 24"

definition udp_header_as_bytes :: "UdpHeader \<Rightarrow> u8 list" where
  "udp_header_as_bytes self = le_bytes 1 (uh_version self) @ le_bytes 1 (uh_priority self) @ le_bytes 2 (uh_padding0 self)
     @ le_bytes 4 (uh_frame_index_eot self) @ le_bytes 8 (uh_transfer_id self) @ le_bytes 8 (uh_padding1 self)"

definition udp_header_read_from_prefix :: "u8 list \<Rightarrow> UdpHeader option" where
  "udp_header_read_from_prefix bytes =
     (if length bytes < UDP_HEADER_SIZE then None else
      Some \<lparr>uh_version = of_le_bytes (take 1 bytes), uh_priority = of_le_bytes (take 1 (drop 1 bytes)),
        uh_padding0 = of_le_bytes (take 2 (drop 2 bytes)), uh_frame_index_eot = of_le_bytes (take 4 (drop 4 bytes)),
        uh_transfer_id = of_le_bytes (take 8 (drop 8 bytes)), uh_padding1 = of_le_bytes (take 8 (drop 16 bytes))\<rparr>)"

definition UDP_VERSION :: u8 where
  "UDP_VERSION = 0"

definition PADDING0 :: u16 where
  "PADDING0 = 0"

definition LAST_FRAME :: u32 where
  "LAST_FRAME = 0x80000000"

definition is_last_frame :: "UdpHeader \<Rightarrow> bool" where
  "is_last_frame self \<longleftrightarrow> uh_frame_index_eot self AND LAST_FRAME \<noteq> 0"

definition frame_index :: "UdpHeader \<Rightarrow> u32" where
  "frame_index self = uh_frame_index_eot self AND NOT LAST_FRAME"

record ValidatedUdpHeader =
  vh_priority :: Priority
  vh_frame_index :: u32
  vh_last_frame :: bool
  vh_transfer_id :: UdpTransferId

definition validated_try_from :: "UdpHeader \<Rightarrow> unit + ValidatedUdpHeader" where
  "validated_try_from header =
     (if uh_version header \<noteq> UDP_VERSION then Inl ()
      else case priority_try_from (uh_priority header) of
        Inl _ \<Rightarrow> Inl ()
      | Inr priority \<Rightarrow> Inr \<lparr>vh_priority = priority, vh_frame_index = frame_index header, vh_last_frame = is_last_frame header,
          vh_transfer_id = UdpTransferId (uh_transfer_id header)\<rparr>)"

section \<open>Breaking a transfer into frames\<close>

record frame_vec =
  fv_from_slice :: "u8 list \<Rightarrow> u8 list option"
  fv_push :: "u8 list \<Rightarrow> u8 \<Rightarrow> u8 list option"
  fv_is_full :: "u8 list \<Rightarrow> bool"
  fv_extend_from_slice :: "u8 list \<Rightarrow> u8 list \<Rightarrow> u8 list option"

definition frame_vec_law :: "nat \<Rightarrow> frame_vec \<Rightarrow> bool" where
  "frame_vec_law MTU fv \<longleftrightarrow>
     (\<forall>xs. fv_from_slice fv xs = (if length xs \<le> MTU then Some xs else None)) \<and>
     (\<forall>xs x. fv_push fv xs x = (if length xs < MTU then Some (xs @ [x]) else None)) \<and>
     (\<forall>xs. fv_is_full fv xs = (length xs = MTU)) \<and>
     (\<forall>xs ys. fv_extend_from_slice fv xs ys = (if length xs + length ys \<le> MTU then Some (xs @ ys) else None))"

type_synonym SocketAddrV4 = "Ipv4Addr \<times> u16"

record 'i UdpFrame =
  uf_remote_address :: SocketAddrV4
  uf_deadline :: 'i
  uf_data :: "u8 list"

record 'i Breakdown =
  br_dest_address :: SocketAddrV4
  br_deadline :: 'i
  br_transfer_id :: u64
  br_priority :: Priority
  br_payload :: "u8 list"
  br_frame_index :: u32
  br_done :: bool
  br_current_frame :: "u8 list"

definition breakdown_new ::
  "frame_vec \<Rightarrow> SocketAddrV4 \<Rightarrow> 'i \<Rightarrow> u64 \<Rightarrow> Priority \<Rightarrow> u8 list \<Rightarrow> 'i Breakdown option" where
  "breakdown_new fv dest_address deadline transfer_id priority payload = do {
     current_frame \<leftarrow> fv_from_slice fv (replicate UDP_HEADER_SIZE 0);
     Some \<lparr>br_dest_address = dest_address, br_deadline = deadline, br_transfer_id = transfer_id, br_priority = priority,
       br_payload = payload, br_frame_index = 0, br_done = False, br_current_frame = current_frame\<rparr>
   }"

definition take_frame :: "frame_vec \<Rightarrow> UdpHeader \<Rightarrow> 'i Breakdown \<Rightarrow> ('i UdpFrame \<times> 'i Breakdown) option" where
  "take_frame fv header self =
     (if length (br_current_frame self) < UDP_HEADER_SIZE then None
      else do {
        let data = udp_header_as_bytes header @ drop UDP_HEADER_SIZE (br_current_frame self);
        current_frame \<leftarrow> fv_extend_from_slice fv [] (replicate UDP_HEADER_SIZE 0);
        Some (\<lparr>uf_remote_address = br_dest_address self, uf_deadline = br_deadline self, uf_data = data\<rparr>,
          self\<lparr>br_current_frame := current_frame\<rparr>)
      })"

text \<open>The loop of \<^verbatim>\<open>Iterator::next\<close>; the first list is the rest of the payload.\<close>

definition breakdown_header :: "u32 \<Rightarrow> 'i Breakdown \<Rightarrow> UdpHeader" where
  "breakdown_header frame_index_eot self =
     \<lparr>uh_version = UDP_VERSION, uh_priority = u8_from_priority (br_priority self), uh_padding0 = PADDING0,
      uh_frame_index_eot = frame_index_eot, uh_transfer_id = br_transfer_id self, uh_padding1 = 0\<rparr>"

fun breakdown_fill :: "bool \<Rightarrow> frame_vec \<Rightarrow> u8 list \<Rightarrow> 'i Breakdown \<Rightarrow> ('i UdpFrame \<times> 'i Breakdown) option" where
  "breakdown_fill dbg fv [] self = do {
     (frame, self) \<leftarrow> take_frame fv (breakdown_header (LAST_FRAME OR br_frame_index self) self) self;
     Some (frame, self\<lparr>br_payload := [], br_done := True\<rparr>)
   }"
| "breakdown_fill dbg fv (byte # payload) self = do {
     current_frame \<leftarrow> fv_push fv (br_current_frame self) byte;
     let self = self\<lparr>br_current_frame := current_frame\<rparr>;
     if fv_is_full fv current_frame then do {
       (frame, self) \<leftarrow> take_frame fv (breakdown_header (br_frame_index self) self) self;
       if dbg \<and> br_frame_index self = 0xffffffff then None
       else Some (frame, self\<lparr>br_payload := payload, br_frame_index := br_frame_index self + 1\<rparr>)
     } else breakdown_fill dbg fv payload self
   }"

definition breakdown_next :: "bool \<Rightarrow> frame_vec \<Rightarrow> 'i Breakdown \<Rightarrow> ('i UdpFrame option \<times> 'i Breakdown) option" where
  "breakdown_next dbg fv self =
     (if br_done self then Some (None, self)
      else map_option (\<lambda>(frame, self). (Some frame, self)) (breakdown_fill dbg fv (br_payload self) self))"

definition fits_into_one_frame :: "nat \<Rightarrow> nat \<Rightarrow> bool" where
  "fits_into_one_frame MTU payload_bytes \<longleftrightarrow> payload_bytes + UDP_HEADER_SIZE \<le> MTU"

section \<open>The transmitter\<close>

type_synonym ('so, 'e) send_to = "u8 list \<Rightarrow> SocketAddrV4 \<Rightarrow> 'so \<Rightarrow> ('e io_error + nat) \<times> 'so"

record 'so UdpTransmitter =
  ut_socket :: 'so
  ut_address :: NodeAddress

definition udp_transmitter_new ::
  "nat \<Rightarrow> (Ipv4Addr \<Rightarrow> u16 \<Rightarrow> 'e io_error + 'so) \<Rightarrow> NodeAddress \<Rightarrow> ('e udp_error + 'so UdpTransmitter) option" where
  "udp_transmitter_new MTU bind_socket address =
     (if MTU > UDP_HEADER_SIZE then
        Some (case bind_socket (ip_from_node_address address) 0 of
          Inl e \<Rightarrow> Inl (UdpSocket e)
        | Inr socket \<Rightarrow> Inr \<lparr>ut_socket = socket, ut_address = address\<rparr>)
      else None)"

partial_function (option) send_frames ::
  "bool \<Rightarrow> frame_vec \<Rightarrow> ('i \<Rightarrow> 'i \<Rightarrow> ordering) \<Rightarrow> ('c \<Rightarrow> 'i \<times> 'c) \<Rightarrow> ('so, 'e) send_to \<Rightarrow> 'i Breakdown \<Rightarrow> 'so \<Rightarrow> 'c
   \<Rightarrow> (('e udp_error + unit) \<times> 'so \<times> 'c) option" where
  "send_frames dbg fv compare now send_to breakdown socket clock =
     (case breakdown_next dbg fv breakdown of
        None \<Rightarrow> None
      | Some (None, breakdown) \<Rightarrow> Some (Inr (), socket, clock)
      | Some (Some frame, breakdown) \<Rightarrow>
          (case now clock of
             (time, clock) \<Rightarrow>
               if compare (uf_deadline frame) time = Greater then
                 (case send_to (uf_data frame) (uf_remote_address frame) socket of
                    (Inl e, socket) \<Rightarrow> Some (Inl (UdpSocket e), socket, clock)
                  | (Inr _, socket) \<Rightarrow> send_frames dbg fv compare now send_to breakdown socket clock)
               else send_frames dbg fv compare now send_to breakdown socket clock))"

definition udp_push_inner ::
  "bool \<Rightarrow> nat \<Rightarrow> frame_vec \<Rightarrow> (u8 list \<Rightarrow> u32) \<Rightarrow> ('i \<Rightarrow> 'i \<Rightarrow> ordering) \<Rightarrow> ('c \<Rightarrow> 'i \<times> 'c) \<Rightarrow> ('so, 'e) send_to
   \<Rightarrow> SocketAddrV4 \<Rightarrow> 'i \<Rightarrow> UdpTransferId \<Rightarrow> Priority \<Rightarrow> u8 list \<Rightarrow> 'so UdpTransmitter \<Rightarrow> 'c
   \<Rightarrow> (('e udp_error + unit) \<times> 'so UdpTransmitter \<times> 'c) option" where
  "udp_push_inner dbg MTU fv crc32c compare now send_to dest deadline transfer_id priority payload self clock = do {
     let payload = (if fits_into_one_frame MTU (length payload) then payload else payload @ le_bytes 4 (crc32c payload));
     breakdown \<leftarrow> breakdown_new fv dest deadline (udp_tid_bits transfer_id) priority payload;
     (r, socket, clock) \<leftarrow> send_frames dbg fv compare now send_to breakdown (ut_socket self) clock;
     Some (r, self\<lparr>ut_socket := socket\<rparr>, clock)
   }"

type_synonym 'i udp_header = "('i, UdpTransferId, Priority, UdpNodeId) Header"
type_synonym ('a, 'i) udp_transfer = "('a, 'i, UdpTransferId, Priority, UdpNodeId) Transfer"

fun udp_destination :: "NodeAddress \<Rightarrow> 'i udp_header \<Rightarrow> SocketAddrV4" where
  "udp_destination address (Message header) = (multicast_address (mh_subject header) address, u16_from_port PortMessage)"
| "udp_destination address (Request header) =
     (remote_node_address (sh_destination header) address, u16_from_port (PortRequest (sh_service header)))"
| "udp_destination address (Response header) =
     (remote_node_address (sh_destination header) address, u16_from_port (PortResponse (sh_service header)))"

definition udp_push ::
  "bool \<Rightarrow> nat \<Rightarrow> frame_vec \<Rightarrow> (u8 list \<Rightarrow> u32) \<Rightarrow> ('i \<Rightarrow> 'i \<Rightarrow> ordering) \<Rightarrow> ('c \<Rightarrow> 'i \<times> 'c) \<Rightarrow> ('so, 'e) send_to
   \<Rightarrow> (u8 list, 'i) udp_transfer \<Rightarrow> 'so UdpTransmitter \<Rightarrow> 'c
   \<Rightarrow> (('e udp_error nb_error + unit) \<times> 'so UdpTransmitter \<times> 'c) option" where
  "udp_push dbg MTU fv crc32c compare now send_to transfer self clock =
     (let header = tr_header transfer in
      map_option (\<lambda>(r, s). (map_sum Other id r, s))
        (udp_push_inner dbg MTU fv crc32c compare now send_to (udp_destination (ut_address self) header) (header_timestamp header)
           (header_transfer_id header) (header_priority header) (tr_payload transfer) self clock))"

definition udp_mtu :: "nat \<Rightarrow> nat" where
  "udp_mtu MTU = MTU - UDP_HEADER_SIZE"

section \<open>The packets of a transfer\<close>

text \<open>The payload in pieces of \<open>m\<close> bytes; the last one is shorter, and may be empty.\<close>

function udp_chunks :: "nat \<Rightarrow> u8 list \<Rightarrow> u8 list list" where
  "udp_chunks m payload = (if m = 0 \<or> length payload < m then [payload] else take m payload # udp_chunks m (drop m payload))"
  by auto
termination by (relation "measure (\<lambda>(m, payload). length payload)") auto

declare udp_chunks.simps [simp del]

definition udp_frame_header :: "u64 \<Rightarrow> Priority \<Rightarrow> u32 \<Rightarrow> UdpHeader" where
  "udp_frame_header transfer_id priority index_eot =
     \<lparr>uh_version = UDP_VERSION, uh_priority = u8_from_priority priority, uh_padding0 = PADDING0,
      uh_frame_index_eot = index_eot, uh_transfer_id = transfer_id, uh_padding1 = 0\<rparr>"

text \<open>The frames from index \<open>i\<close> on.\<close>

fun udp_packets :: "SocketAddrV4 \<Rightarrow> 'i \<Rightarrow> u64 \<Rightarrow> Priority \<Rightarrow> u32 \<Rightarrow> u8 list list \<Rightarrow> 'i UdpFrame list" where
  "udp_packets dest deadline transfer_id priority i [] = []"
| "udp_packets dest deadline transfer_id priority i (chunk # chunks) =
     \<lparr>uf_remote_address = dest, uf_deadline = deadline,
      uf_data = udp_header_as_bytes (udp_frame_header transfer_id priority (if chunks = [] then LAST_FRAME OR i else i)) @ chunk\<rparr>
     # udp_packets dest deadline transfer_id priority (i + 1) chunks"

text \<open>Sending a list of packets: those whose deadline has not passed go to the socket, until it fails.\<close>

fun send_packets ::
  "('i \<Rightarrow> 'i \<Rightarrow> ordering) \<Rightarrow> ('c \<Rightarrow> 'i \<times> 'c) \<Rightarrow> ('so, 'e) send_to \<Rightarrow> 'i UdpFrame list \<Rightarrow> 'so \<Rightarrow> 'c
   \<Rightarrow> ('e udp_error + unit) \<times> 'so \<times> 'c" where
  "send_packets compare now send_to [] socket clock = (Inr (), socket, clock)"
| "send_packets compare now send_to (frame # frames) socket clock =
     (case now clock of
        (time, clock) \<Rightarrow>
          if compare (uf_deadline frame) time = Greater then
            (case send_to (uf_data frame) (uf_remote_address frame) socket of
               (Inl e, socket) \<Rightarrow> (Inl (UdpSocket e), socket, clock)
             | (Inr _, socket) \<Rightarrow> send_packets compare now send_to frames socket clock)
          else send_packets compare now send_to frames socket clock)"

lemma length_header_bytes [simp]: "length (udp_header_as_bytes h) = UDP_HEADER_SIZE"
  by (simp add: udp_header_as_bytes_def UDP_HEADER_SIZE_def)

lemma frame_vec_lawD:
  assumes "frame_vec_law MTU fv"
  shows "fv_from_slice fv xs = (if length xs \<le> MTU then Some xs else None)"
    "fv_push fv xs x = (if length xs < MTU then Some (xs @ [x]) else None)"
    "fv_is_full fv xs = (length xs = MTU)"
    "fv_extend_from_slice fv xs ys = (if length xs + length ys \<le> MTU then Some (xs @ ys) else None)"
  using assms by (simp_all add: frame_vec_law_def)

lemma take_frame_law:
  assumes "frame_vec_law MTU fv" and "UDP_HEADER_SIZE \<le> MTU" and "length (br_current_frame self) \<ge> UDP_HEADER_SIZE"
  shows "take_frame fv header self =
    Some (\<lparr>uf_remote_address = br_dest_address self, uf_deadline = br_deadline self,
        uf_data = udp_header_as_bytes header @ drop UDP_HEADER_SIZE (br_current_frame self)\<rparr>,
      self\<lparr>br_current_frame := replicate UDP_HEADER_SIZE 0\<rparr>)"
  using assms(2,3) by (simp add: take_frame_def frame_vec_lawD [OF assms(1)])

text \<open>One call of \<^const>\<open>breakdown_fill\<close> takes the bytes that still fit into the current frame.\<close>

lemma breakdown_fill_last:
  assumes "frame_vec_law MTU fv" and "UDP_HEADER_SIZE < MTU"
    and "br_current_frame self = replicate UDP_HEADER_SIZE 0 @ filled" and "length filled + length payload < MTU - UDP_HEADER_SIZE"
  shows "breakdown_fill dbg fv payload self =
    Some (\<lparr>uf_remote_address = br_dest_address self, uf_deadline = br_deadline self,
        uf_data = udp_header_as_bytes (breakdown_header (LAST_FRAME OR br_frame_index self) self) @ filled @ payload\<rparr>,
      self\<lparr>br_current_frame := replicate UDP_HEADER_SIZE 0, br_payload := [], br_done := True\<rparr>)"
  using assms(3,4)
proof (induction payload arbitrary: self filled)
  case Nil
  then show ?case using assms(2) by (simp add: take_frame_law [OF assms(1)])
next
  case (Cons byte payload)
  let ?self = "self\<lparr>br_current_frame := br_current_frame self @ [byte]\<rparr>"
  have "length (br_current_frame self) < MTU" "length (br_current_frame ?self) < MTU" using Cons.prems assms(2) by simp_all
  then have "breakdown_fill dbg fv (byte # payload) self = breakdown_fill dbg fv payload ?self"
    by (simp add: frame_vec_lawD [OF assms(1)])
  also have "\<dots> = Some (\<lparr>uf_remote_address = br_dest_address ?self, uf_deadline = br_deadline ?self,
        uf_data = udp_header_as_bytes (breakdown_header (LAST_FRAME OR br_frame_index ?self) ?self) @ (filled @ [byte]) @ payload\<rparr>,
      ?self\<lparr>br_current_frame := replicate UDP_HEADER_SIZE 0, br_payload := [], br_done := True\<rparr>)"
    by (rule Cons.IH) (use Cons.prems in simp_all)
  finally show ?case by (simp add: breakdown_header_def)
qed

lemma breakdown_fill_full:
  assumes "frame_vec_law MTU fv" and "UDP_HEADER_SIZE < MTU" and "dbg \<longrightarrow> br_frame_index self \<noteq> 0xffffffff"
    and "br_current_frame self = replicate UDP_HEADER_SIZE 0 @ filled"
    and "length filled < MTU - UDP_HEADER_SIZE" and "MTU - UDP_HEADER_SIZE \<le> length filled + length payload"
  shows "breakdown_fill dbg fv payload self =
    Some (\<lparr>uf_remote_address = br_dest_address self, uf_deadline = br_deadline self,
        uf_data = udp_header_as_bytes (breakdown_header (br_frame_index self) self) @
          filled @ take (MTU - UDP_HEADER_SIZE - length filled) payload\<rparr>,
      self\<lparr>br_current_frame := replicate UDP_HEADER_SIZE 0, br_payload := drop (MTU - UDP_HEADER_SIZE - length filled) payload,
        br_frame_index := br_frame_index self + 1\<rparr>)"
  using assms(3-)
proof (induction payload arbitrary: self filled)
  case (Cons byte payload)
  let ?self = "self\<lparr>br_current_frame := br_current_frame self @ [byte]\<rparr>"
  have push: "fv_push fv (br_current_frame self) byte = Some (br_current_frame self @ [byte])"
    using Cons.prems by (simp add: frame_vec_lawD [OF assms(1)])
  show ?case
  proof (cases "length filled + 1 = MTU - UDP_HEADER_SIZE")
    case True
    then have "fv_is_full fv (br_current_frame self @ [byte])" "MTU - UDP_HEADER_SIZE - length filled = 1"
      using Cons.prems by (simp_all add: frame_vec_lawD [OF assms(1)])
    then show ?thesis using push Cons.prems assms(2)
      by (auto simp: take_frame_law [OF assms(1)] breakdown_header_def)
  next
    case False
    then have "\<not> fv_is_full fv (br_current_frame self @ [byte])"
      using Cons.prems by (simp add: frame_vec_lawD [OF assms(1)])
    then have "breakdown_fill dbg fv (byte # payload) self = breakdown_fill dbg fv payload ?self" using push by simp
    also have "\<dots> = Some (\<lparr>uf_remote_address = br_dest_address ?self, uf_deadline = br_deadline ?self,
        uf_data = udp_header_as_bytes (breakdown_header (br_frame_index ?self) ?self) @
          (filled @ [byte]) @ take (MTU - UDP_HEADER_SIZE - length (filled @ [byte])) payload\<rparr>,
        ?self\<lparr>br_current_frame := replicate UDP_HEADER_SIZE 0,
          br_payload := drop (MTU - UDP_HEADER_SIZE - length (filled @ [byte])) payload,
          br_frame_index := br_frame_index ?self + 1\<rparr>)"
      by (rule Cons.IH) (use Cons.prems False in simp_all)
    finally have fill: "breakdown_fill dbg fv (byte # payload) self = \<dots>" .
    have k: "MTU - UDP_HEADER_SIZE - length filled = Suc (MTU - UDP_HEADER_SIZE - length (filled @ [byte]))"
      using False Cons.prems by simp
    show ?thesis unfolding fill k by (simp add: breakdown_header_def)
  qed
qed simp

lemma breakdown_header_frame: "breakdown_header index_eot self = udp_frame_header (br_transfer_id self) (br_priority self) index_eot"
  by (simp add: breakdown_header_def udp_frame_header_def)

lemma send_frames_done: "br_done b \<Longrightarrow> send_frames dbg fv compare now send_to b socket clock = Some (Inr (), socket, clock)"
  by (subst send_frames.simps) (simp add: breakdown_next_def)

lemma send_frames_step:
  assumes "\<not> br_done b" and "breakdown_fill dbg fv (br_payload b) b = Some (frame, b')"
    and "\<And>socket clock. send_frames dbg fv compare now send_to b' socket clock = Some (send_packets compare now send_to frames socket clock)"
  shows "send_frames dbg fv compare now send_to b socket clock = Some (send_packets compare now send_to (frame # frames) socket clock)"
  using assms by (subst send_frames.simps) (auto simp: breakdown_next_def split: prod.split sum.split)

lemma send_frames_packets:
  assumes "frame_vec_law MTU fv" and "UDP_HEADER_SIZE < MTU"
    and "\<not> br_done b" and "br_current_frame b = replicate UDP_HEADER_SIZE 0"
    and "unat (br_frame_index b) + length (udp_chunks (MTU - UDP_HEADER_SIZE) (br_payload b)) \<le> 2 ^ 32"
  shows "send_frames dbg fv compare now send_to b socket clock = Some (send_packets compare now send_to
    (udp_packets (br_dest_address b) (br_deadline b) (br_transfer_id b) (br_priority b) (br_frame_index b)
      (udp_chunks (MTU - UDP_HEADER_SIZE) (br_payload b))) socket clock)"
  using assms(3-)
proof (induction "length (br_payload b)" arbitrary: b socket clock rule: less_induct)
  case less
  let ?m = "MTU - UDP_HEADER_SIZE"
  show ?case
  proof (cases "length (br_payload b) < ?m")
    case True
    then have c: "udp_chunks ?m (br_payload b) = [br_payload b]" by (subst udp_chunks.simps) simp
    have "breakdown_fill dbg fv (br_payload b) b =
      Some (\<lparr>uf_remote_address = br_dest_address b, uf_deadline = br_deadline b,
          uf_data = udp_header_as_bytes (breakdown_header (LAST_FRAME OR br_frame_index b) b) @ [] @ br_payload b\<rparr>,
        b\<lparr>br_current_frame := replicate UDP_HEADER_SIZE 0, br_payload := [], br_done := True\<rparr>)"
      by (rule breakdown_fill_last [OF assms(1,2)]) (use less.prems True in simp_all)
    from send_frames_step [OF less.prems(1) this, where frames = "[]"] show ?thesis
      by (simp add: c send_frames_done breakdown_header_frame)
  next
    case False
    let ?rest = "drop ?m (br_payload b)"
    have c: "udp_chunks ?m (br_payload b) = take ?m (br_payload b) # udp_chunks ?m ?rest"
      using False assms(2) by (subst udp_chunks.simps) simp
    have ne: "udp_chunks ?m ?rest \<noteq> []" by (subst udp_chunks.simps) simp
    then have idx: "unat (br_frame_index b) + 1 < 2 ^ 32" using less.prems(3) c by (cases "udp_chunks ?m ?rest") auto
    then have "br_frame_index b \<noteq> 0xffffffff" by auto
    moreover from idx have "unat (br_frame_index b + 1) = unat (br_frame_index b) + 1" by (simp add: unat_word_ariths)
    moreover define b' where "b' = b\<lparr>br_current_frame := replicate UDP_HEADER_SIZE 0, br_payload := ?rest,
      br_frame_index := br_frame_index b + 1\<rparr>"
    ultimately have fill: "breakdown_fill dbg fv (br_payload b) b =
        Some (\<lparr>uf_remote_address = br_dest_address b, uf_deadline = br_deadline b,
          uf_data = udp_header_as_bytes (breakdown_header (br_frame_index b) b) @ [] @ take (?m - length []) (br_payload b)\<rparr>, b')"
      and idx': "unat (br_frame_index b') + length (udp_chunks ?m (br_payload b')) \<le> 2 ^ 32"
      using breakdown_fill_full [OF assms(1,2), of dbg b "[]" "br_payload b"] less.prems assms(2) False c by simp_all
    have hyp: "length (br_payload b') < length (br_payload b)" "\<not> br_done b'" "br_current_frame b' = replicate UDP_HEADER_SIZE 0"
      using False assms(2) less.prems(1) by (simp_all add: b'_def)
    note step = send_frames_step [OF less.prems(1) fill less.hyps [OF hyp idx'], of socket clock]
    then show ?thesis unfolding c by (simp add: ne b'_def breakdown_header_frame del: send_packets.simps)
  qed
qed

lemma udp_push_packets:
  assumes "frame_vec_law MTU fv" and "UDP_HEADER_SIZE < MTU"
    and "payload = tr_payload transfer @ (if length (tr_payload transfer) + UDP_HEADER_SIZE \<le> MTU then [] else le_bytes 4 (crc32c (tr_payload transfer)))"
    and "length (udp_chunks (MTU - UDP_HEADER_SIZE) payload) \<le> 2 ^ 32"
  shows "udp_push dbg MTU fv crc32c compare now send_to transfer self clock =
    (let h = tr_header transfer;
         packets = udp_packets (udp_destination (ut_address self) h) (header_timestamp h) (udp_tid_bits (header_transfer_id h))
           (header_priority h) 0 (udp_chunks (MTU - UDP_HEADER_SIZE) payload);
         (r, socket, clock) = send_packets compare now send_to packets (ut_socket self) clock
     in Some (map_sum Other id r, self\<lparr>ut_socket := socket\<rparr>, clock))"
proof -
  let ?h = "tr_header transfer"
  define b where "b = \<lparr>br_dest_address = udp_destination (ut_address self) ?h, br_deadline = header_timestamp ?h,
    br_transfer_id = udp_tid_bits (header_transfer_id ?h), br_priority = header_priority ?h, br_payload = payload, br_frame_index = 0,
    br_done = False, br_current_frame = replicate UDP_HEADER_SIZE (0::u8)\<rparr>"
  have "breakdown_new fv (br_dest_address b) (br_deadline b) (br_transfer_id b) (br_priority b) payload = Some b"
    using assms(2) by (simp add: breakdown_new_def b_def frame_vec_lawD [OF assms(1)])
  moreover have "(if fits_into_one_frame MTU (length (tr_payload transfer)) then tr_payload transfer
      else tr_payload transfer @ le_bytes 4 (crc32c (tr_payload transfer))) = payload"
    by (simp add: assms(3) fits_into_one_frame_def)
  moreover note send_frames_packets [OF assms(1,2), of b dbg compare now send_to "ut_socket self" clock]
  ultimately show ?thesis
    using assms(4) by (simp add: udp_push_def udp_push_inner_def Let_def b_def split: prod.split)
qed

text \<open>
C10: Pushing a transfer to the UDP transmitter sends the packets of its payload. With an MTU larger than the header and
fewer than 2 to the 32 frames, pushing does not panic; the payload, followed by its CRC-32C unless it fits into one frame, is cut into
pieces of the MTU less the header, the last of them shorter than that; each piece goes, behind a header with the transfer's
identifier and priority, the index of the frame and the mark of the last frame, to the address and port of the destination, in order, as
long as its deadline has not passed and the socket does not fail.
\<close>

theorem udp_push_refines_packets:
  assumes "frame_vec_law MTU fv" and "UDP_HEADER_SIZE < MTU"
    and "payload = tr_payload transfer @ (if length (tr_payload transfer) + UDP_HEADER_SIZE \<le> MTU then [] else le_bytes 4 (crc32c (tr_payload transfer)))"
    and "length (udp_chunks (MTU - UDP_HEADER_SIZE) payload) \<le> 2 ^ 32"
  shows "udp_push dbg MTU fv crc32c compare now send_to transfer self clock =
    (let h = tr_header transfer;
         packets = udp_packets (udp_destination (ut_address self) h) (header_timestamp h) (udp_tid_bits (header_transfer_id h))
           (header_priority h) 0 (udp_chunks (MTU - UDP_HEADER_SIZE) payload);
         (r, socket, clock) = send_packets compare now send_to packets (ut_socket self) clock
     in Some (map_sum Other id r, self\<lparr>ut_socket := socket\<rparr>, clock))"
  by (rule udp_push_packets) (rule assms)+

text \<open>Concrete parameters: a vector of bounded length, and a socket that keeps the packets it is given.\<close>

definition list_frame_vec :: "nat \<Rightarrow> frame_vec" where
  "list_frame_vec MTU =
     \<lparr>fv_from_slice = (\<lambda>xs. if length xs \<le> MTU then Some xs else None),
      fv_push = (\<lambda>xs x. if length xs < MTU then Some (xs @ [x]) else None),
      fv_is_full = (\<lambda>xs. length xs = MTU),
      fv_extend_from_slice = (\<lambda>xs ys. if length xs + length ys \<le> MTU then Some (xs @ ys) else None)\<rparr>"

lemma list_frame_vec_law [simp]: "frame_vec_law MTU (list_frame_vec MTU)"
  by (simp add: frame_vec_law_def list_frame_vec_def)

definition recording_socket :: "((u8 list \<times> SocketAddrV4) list, 'e) send_to" where
  "recording_socket data dest socket = (Inr (length data), socket @ [(data, dest)])"

definition compare_nat :: "nat \<Rightarrow> nat \<Rightarrow> ordering" where
  "compare_nat a b = (if a < b then Less else if a = b then Equal else Greater)"

definition example_udp_transfer :: "(u8 list, nat) udp_transfer" where
  "example_udp_transfer = \<lparr>tr_header = Message \<lparr>mh_timestamp = 10, mh_transfer_id = UdpTransferId 7, mh_priority = Nominal,
     mh_subject = SubjectId 100, mh_source = Some (UdpNodeId 42)\<rparr>, tr_payload = [1, 2, 3, 4, 5, 6]\<rparr>"

definition example_udp_transmitter :: "(u8 list \<times> SocketAddrV4) list UdpTransmitter" where
  "example_udp_transmitter = \<lparr>ut_socket = [], ut_address = \<lparr>na_prefix = 0xff, na_subnet = 3, na_node = UdpNodeId 42\<rparr>\<rparr>"

text \<open>Six bytes and their CRC over frames of four bytes each.\<close>

theorem udp_push_refines_packets_witness:
  "map_option (\<lambda>(r, self, clock). map (\<lambda>(data, dest). (drop 24 data, snd dest)) (ut_socket self))
     (udp_push True 28 (list_frame_vec 28) (\<lambda>_. 0x11223344) compare_nat (\<lambda>c. (c, c)) (recording_socket :: (_, unit) send_to)
        example_udp_transfer example_udp_transmitter 3)
   = Some [([1, 2, 3, 4], 16383), ([5, 6, 0x44, 0x33], 16383), ([0x22, 0x11], 16383)]"
proof -
  have crc: "le_bytes 4 (0x11223344 :: u32) = [0x44, 0x33, 0x22, 0x11]" by code_simp
  have chunks: "udp_chunks 4 [1, 2, 3, 4, 5, 6, 0x44, 0x33, 0x22, 0x11] = [[1, 2, 3, 4], [5, 6, 0x44, 0x33], [0x22, 0x11]]"
    by code_simp
  have len: "length (udp_header_as_bytes h) = 24" for h by (simp add: UDP_HEADER_SIZE_def)
  show ?thesis
    by (subst udp_push_refines_packets [OF list_frame_vec_law _ refl])
      (simp_all add: UDP_HEADER_SIZE_def example_udp_transfer_def crc chunks compare_nat_def recording_socket_def
        example_udp_transmitter_def len SUBJECT_PORT_def del: length_header_bytes)
qed

end
