(* ===== verification/Core_Session.thy ===== *)
theory Core_Session
  imports Core_Subscription
begin

text \<open>
  Receive sessions (canadensis\_core: \<^verbatim>\<open>session.rs\<close>). The trait \<^verbatim>\<open>SessionTracker\<close> is a record of operations, its contract is the
  locale \<open>session_tracker\<close> over the map from node identifiers to sessions that a tracker stands for, and the three implementations
  \<^verbatim>\<open>SessionLinearMap\<close>, \<^verbatim>\<open>SessionArray\<close> and \<^verbatim>\<open>SessionDynamicMap\<close> interpret it.

  The parameter \<open>since\<close> is \<^verbatim>\<open>Instant::duration_since\<close>. A mutable reference that a tracker hands out is the session it points
  to; writing through it is the operation \<open>st_put\<close>. \<^verbatim>\<open>heapless::LinearMap\<close> is the parameter \<open>im\<close>, and \<^verbatim>\<open>BTreeMap\<close> is
  the list of its entries in ascending order.
\<close>

section \<open>Sessions\<close>

record ('i, 'd, 't, 'x) Session =
  se_last_activity :: 'i
  se_timeout :: 'd
  se_last_transfer_id :: "'t option"
  se_data :: 'x

definition session_new :: "'i \<Rightarrow> 'd \<Rightarrow> 't option \<Rightarrow> 'x \<Rightarrow> ('i, 'd, 't, 'x) Session" where
  "session_new last_activity timeout last_transfer_id data =
     \<lparr>se_last_activity = last_activity, se_timeout = timeout, se_last_transfer_id = last_transfer_id, se_data = data\<rparr>"

definition is_expired :: "('i \<Rightarrow> 'i \<Rightarrow> 'd::linorder) \<Rightarrow> 'i \<Rightarrow> ('i, 'd, 't, 'x) Session \<Rightarrow> bool" where
  "is_expired since now self \<longleftrightarrow> since now (se_last_activity self) > se_timeout self"

definition set_last_activity :: "'i \<Rightarrow> ('i, 'd, 't, 'x) Session \<Rightarrow> ('i, 'd, 't, 'x) Session" where
  "set_last_activity time self = self\<lparr>se_last_activity := time\<rparr>"

definition set_last_transfer_id :: "'t \<Rightarrow> ('i, 'd, 't, 'x) Session \<Rightarrow> ('i, 'd, 't, 'x) Session" where
  "set_last_transfer_id t self = self\<lparr>se_last_transfer_id := Some t\<rparr>"

section \<open>The trait\<close>

text \<open>\<open>None\<close> is a panic or a call that does not return.\<close>

record ('s, 'n, 'i, 'd, 't, 'x) session_tracker_ops =
  st_get :: "'n \<Rightarrow> 's \<Rightarrow> ('i, 'd, 't, 'x) Session option option"
  st_get_mut_or_insert_with ::
    "'n \<Rightarrow> ('i, 'd, 't, 'x) Session \<Rightarrow> 's \<Rightarrow> ((out_of_memory_error + ('i, 'd, 't, 'x) Session) \<times> 's) option"
  st_put :: "'n \<Rightarrow> ('i, 'd, 't, 'x) Session \<Rightarrow> 's \<Rightarrow> 's"
  st_insert :: "'n \<Rightarrow> ('i, 'd, 't, 'x) Session \<Rightarrow> 's \<Rightarrow> ((out_of_memory_error + unit) \<times> 's) option"
  st_remove_expired :: "'i \<Rightarrow> 's \<Rightarrow> 's option"

text \<open>Sessions as a map, without those that have expired.\<close>

definition unexpired ::
  "('i \<Rightarrow> 'i \<Rightarrow> 'd::linorder) \<Rightarrow> 'i \<Rightarrow> ('n \<rightharpoonup> ('i, 'd, 't, 'x) Session) \<Rightarrow> ('n \<rightharpoonup> ('i, 'd, 't, 'x) Session)" where
  "unexpired since now m = (\<lambda>n. case m n of None \<Rightarrow> None | Some s \<Rightarrow> if is_expired since now s then None else Some s)"

text \<open>
  What a receiver relies on, in one state: cleaning returns and keeps exactly the sessions that have not expired; a session is found, or
  made from \<open>new\<close>, or there is no memory and nothing changes; and writing \<open>y\<close> through the reference changes that session only.
\<close>

definition tracker_step ::
  "('s, 'n, 'i, 'd::linorder, 't, 'x) session_tracker_ops \<Rightarrow> ('i \<Rightarrow> 'i \<Rightarrow> 'd) \<Rightarrow> ('s \<Rightarrow> 'n \<rightharpoonup> ('i, 'd, 't, 'x) Session)
   \<Rightarrow> 'i \<Rightarrow> 'n \<Rightarrow> ('i, 'd, 't, 'x) Session \<Rightarrow> ('i, 'd, 't, 'x) Session \<Rightarrow> 's \<Rightarrow> bool" where
  "tracker_step T since sessions now n new y s \<longleftrightarrow>
     (\<exists>s'. st_remove_expired T now s = Some s' \<and> sessions s' = unexpired since now (sessions s)) \<and>
     (case st_get_mut_or_insert_with T n new s of
        None \<Rightarrow> False
      | Some (Inl _, s') \<Rightarrow> sessions s n = None \<and> s' = s
      | Some (Inr x, s') \<Rightarrow> x = (case sessions s n of None \<Rightarrow> new | Some x \<Rightarrow> x) \<and>
          sessions (st_put T n y s') = (sessions s)(n \<mapsto> y) \<and> st_get T n (st_put T n y s') = Some (Some y))"

locale session_tracker =
  fixes T :: "('s, 'n, 'i, 'd::linorder, 't, 'x) session_tracker_ops"
    and since :: "'i \<Rightarrow> 'i \<Rightarrow> 'd"
    and invar :: "'s \<Rightarrow> bool"
    and nodes :: "'n set"
    and sessions :: "'s \<Rightarrow> 'n \<rightharpoonup> ('i, 'd, 't, 'x) Session"
  assumes get: "invar s \<Longrightarrow> n \<in> nodes \<Longrightarrow> st_get T n s = Some (sessions s n)"
    and get_mut_present: "invar s \<Longrightarrow> n \<in> nodes \<Longrightarrow> sessions s n = Some x \<Longrightarrow>
      st_get_mut_or_insert_with T n new s = Some (Inr x, s)"
    and get_mut_absent: "invar s \<Longrightarrow> n \<in> nodes \<Longrightarrow> sessions s n = None \<Longrightarrow>
      st_get_mut_or_insert_with T n new s = Some (Inl OutOfMemoryError, s) \<or>
      (\<exists>s'. st_get_mut_or_insert_with T n new s = Some (Inr new, s') \<and> invar s' \<and> sessions s' = (sessions s)(n \<mapsto> new))"
    and put: "invar s \<Longrightarrow> n \<in> nodes \<Longrightarrow> sessions s n \<noteq> None \<Longrightarrow>
      invar (st_put T n x s) \<and> sessions (st_put T n x s) = (sessions s)(n \<mapsto> x)"
    and insert: "invar s \<Longrightarrow> n \<in> nodes \<Longrightarrow>
      st_insert T n x s = Some (Inl OutOfMemoryError, s) \<and> sessions s n = None \<or>
      (\<exists>s'. st_insert T n x s = Some (Inr (), s') \<and> invar s' \<and> sessions s' = (sessions s)(n \<mapsto> x))"
    and remove_expired: "invar s \<Longrightarrow>
      \<exists>s'. st_remove_expired T now s = Some s' \<and> invar s' \<and> sessions s' = unexpired since now (sessions s)"
begin

text \<open>Finding or making a session either runs out of memory without an effect, or yields a session of the map.\<close>

lemma get_mut_cases:
  assumes "invar s" and "n \<in> nodes"
  obtains (memory) "sessions s n = None" "st_get_mut_or_insert_with T n new s = Some (Inl OutOfMemoryError, s)"
  | (session) x s' where "st_get_mut_or_insert_with T n new s = Some (Inr x, s')" "invar s'" "sessions s' n = Some x"
    "x = (case sessions s n of None \<Rightarrow> new | Some x \<Rightarrow> x)" "sessions s' = (sessions s)(n \<mapsto> x)"
proof (cases "sessions s n")
  case None
  then show thesis using get_mut_absent [OF assms None, of new] memory session by fastforce
next
  case (Some x)
  then show thesis using get_mut_present [OF assms Some] assms(1) session by (fastforce simp: map_upd_triv)
qed

lemma step_holds:
  assumes "invar s" and "n \<in> nodes"
  shows "tracker_step T since sessions now n new y s"
proof (rule get_mut_cases [OF assms, of new])
  fix x s'
  assume x: "st_get_mut_or_insert_with T n new s = Some (Inr x, s')" "invar s'" "sessions s' n = Some x"
    "x = (case sessions s n of None \<Rightarrow> new | Some x \<Rightarrow> x)" "sessions s' = (sessions s)(n \<mapsto> x)"
  have "invar (st_put T n y s') \<and> sessions (st_put T n y s') = (sessions s')(n \<mapsto> y)"
    using put [OF x(2) assms(2)] x(3) by simp
  moreover from this have "st_get T n (st_put T n y s') = Some (Some y)" using get assms(2) by simp
  ultimately show ?thesis using remove_expired [OF assms(1), of now] x(1,4,5) unfolding tracker_step_def by auto
next
  assume "sessions s n = None" "st_get_mut_or_insert_with T n new s = Some (Inl OutOfMemoryError, s)"
  then show ?thesis using remove_expired [OF assms(1), of now] unfolding tracker_step_def by auto
qed

end

section \<open>Sessions in a linear map\<close>

type_synonym ('n, 'i, 'd, 't, 'x) session_entries = "('n \<times> ('i, 'd, 't, 'x) Session) list"

definition linear_get_mut_or_insert_with ::
  "('n, ('i, 'd, 't, 'x) Session) index_map \<Rightarrow> 'n \<Rightarrow> ('i, 'd, 't, 'x) Session \<Rightarrow> ('n, 'i, 'd, 't, 'x) session_entries
   \<Rightarrow> ((out_of_memory_error + ('i, 'd, 't, 'x) Session) \<times> ('n, 'i, 'd, 't, 'x) session_entries) option" where
  "linear_get_mut_or_insert_with im node new sessions =
     (case (if map_of sessions node = None then im_insert im node new sessions else Some sessions) of
        None \<Rightarrow> Some (Inl OutOfMemoryError, sessions)
      | Some sessions \<Rightarrow> map_option (\<lambda>s. (Inr s, sessions)) (map_of sessions node))"

definition linear_insert ::
  "('n, ('i, 'd, 't, 'x) Session) index_map \<Rightarrow> 'n \<Rightarrow> ('i, 'd, 't, 'x) Session \<Rightarrow> ('n, 'i, 'd, 't, 'x) session_entries
   \<Rightarrow> (out_of_memory_error + unit) \<times> ('n, 'i, 'd, 't, 'x) session_entries" where
  "linear_insert im node session sessions =
     (case im_insert im node session sessions of None \<Rightarrow> (Inl OutOfMemoryError, sessions) | Some sessions \<Rightarrow> (Inr (), sessions))"

text \<open>Each round removes the first expired session of the iteration; the removal is the argument.\<close>

partial_function (option) remove_expired_from ::
  "('n \<Rightarrow> ('n, 'i, 'd, 't, 'x) session_entries \<Rightarrow> ('n, 'i, 'd, 't, 'x) session_entries) \<Rightarrow> ('i \<Rightarrow> 'i \<Rightarrow> 'd::linorder) \<Rightarrow> 'i
   \<Rightarrow> ('n, 'i, 'd, 't, 'x) session_entries \<Rightarrow> ('n, 'i, 'd, 't, 'x) session_entries option" where
  "remove_expired_from remove since now sessions =
     (case find (\<lambda>(_, session). is_expired since now session) sessions of
        Some (node, _) \<Rightarrow> remove_expired_from remove since now (remove node sessions)
      | None \<Rightarrow> Some sessions)"

definition SessionLinearMap ::
  "('n, ('i, 'd, 't, 'x) Session) index_map \<Rightarrow> ('i \<Rightarrow> 'i \<Rightarrow> 'd::linorder)
   \<Rightarrow> (('n, 'i, 'd, 't, 'x) session_entries, 'n, 'i, 'd, 't, 'x) session_tracker_ops" where
  "SessionLinearMap im since =
     \<lparr>st_get = (\<lambda>node sessions. Some (map_of sessions node)),
      st_get_mut_or_insert_with = linear_get_mut_or_insert_with im,
      st_put = (\<lambda>node session. vec_modify node (\<lambda>_. session)),
      st_insert = (\<lambda>node session sessions. Some (linear_insert im node session sessions)),
      st_remove_expired = remove_expired_from (im_remove im) since\<rparr>"

section \<open>Sessions in an array\<close>

text \<open>The parameter \<open>index\<close> is \<^verbatim>\<open>N: Into<usize>\<close>; an index out of range panics.\<close>

definition array_get :: "('n \<Rightarrow> nat) \<Rightarrow> 'n \<Rightarrow> 'a option list \<Rightarrow> 'a option option" where
  "array_get index node sessions = (if index node < length sessions then Some (sessions ! index node) else None)"

definition array_get_mut_or_insert_with ::
  "('n \<Rightarrow> nat) \<Rightarrow> 'n \<Rightarrow> 'a \<Rightarrow> 'a option list \<Rightarrow> ((out_of_memory_error + 'a) \<times> 'a option list) option" where
  "array_get_mut_or_insert_with index node new sessions = do {
     entry \<leftarrow> array_get index node sessions;
     let entry = (case entry of None \<Rightarrow> Some new | Some s \<Rightarrow> Some s);
     s \<leftarrow> entry;
     Some (Inr s, sessions[index node := entry])
   }"

definition array_insert ::
  "('n \<Rightarrow> nat) \<Rightarrow> 'n \<Rightarrow> 'a \<Rightarrow> 'a option list \<Rightarrow> ((out_of_memory_error + unit) \<times> 'a option list) option" where
  "array_insert index node session sessions =
     (if index node < length sessions then Some (Inr (), sessions[index node := Some session]) else None)"

definition array_remove_expired ::
  "('i \<Rightarrow> 'i \<Rightarrow> 'd::linorder) \<Rightarrow> 'i \<Rightarrow> ('i, 'd, 't, 'x) Session option list \<Rightarrow> ('i, 'd, 't, 'x) Session option list" where
  "array_remove_expired since now sessions =
     map (\<lambda>entry. case entry of
            Some session \<Rightarrow> if is_expired since now session then None else entry
          | None \<Rightarrow> entry) sessions"

definition SessionArray ::
  "('n \<Rightarrow> nat) \<Rightarrow> ('i \<Rightarrow> 'i \<Rightarrow> 'd::linorder)
   \<Rightarrow> (('i, 'd, 't, 'x) Session option list, 'n, 'i, 'd, 't, 'x) session_tracker_ops" where
  "SessionArray index since =
     \<lparr>st_get = array_get index,
      st_get_mut_or_insert_with = array_get_mut_or_insert_with index,
      st_put = (\<lambda>node session sessions. sessions[index node := Some session]),
      st_insert = array_insert index,
      st_remove_expired = (\<lambda>now sessions. Some (array_remove_expired since now sessions))\<rparr>"

section \<open>Sessions in a B-tree\<close>

text \<open>\<^verbatim>\<open>BTreeMap::insert\<close> and \<^verbatim>\<open>BTreeMap::remove\<close>.\<close>

fun btree_insert :: "'k::linorder \<Rightarrow> 'v \<Rightarrow> ('k \<times> 'v) list \<Rightarrow> ('k \<times> 'v) list" where
  "btree_insert k v [] = [(k, v)]"
| "btree_insert k v ((k', v') # m) =
     (if k < k' then (k, v) # (k', v') # m
      else if k = k' then (k, v) # m
      else (k', v') # btree_insert k v m)"

definition btree_remove :: "'k \<Rightarrow> ('k \<times> 'v) list \<Rightarrow> ('k \<times> 'v) list" where
  "btree_remove k m = filter (\<lambda>e. fst e \<noteq> k) m"

text \<open>\<^verbatim>\<open>entry(node).or_insert_with(generator)\<close>.\<close>

definition dynamic_get_mut_or_insert_with ::
  "'n::linorder \<Rightarrow> 'a \<Rightarrow> ('n \<times> 'a) list \<Rightarrow> ((out_of_memory_error + 'a) \<times> ('n \<times> 'a) list) option" where
  "dynamic_get_mut_or_insert_with node new sessions =
     (case map_of sessions node of
        Some session \<Rightarrow> Some (Inr session, sessions)
      | None \<Rightarrow> Some (Inr new, btree_insert node new sessions))"

definition SessionDynamicMap ::
  "('i \<Rightarrow> 'i \<Rightarrow> 'd::linorder) \<Rightarrow> (('n::linorder, 'i, 'd, 't, 'x) session_entries, 'n, 'i, 'd, 't, 'x) session_tracker_ops" where
  "SessionDynamicMap since =
     \<lparr>st_get = (\<lambda>node sessions. Some (map_of sessions node)),
      st_get_mut_or_insert_with = dynamic_get_mut_or_insert_with,
      st_put = (\<lambda>node session. vec_modify node (\<lambda>_. session)),
      st_insert = (\<lambda>node session sessions. Some (Inr (), btree_insert node session sessions)),
      st_remove_expired = remove_expired_from btree_remove since\<rparr>"

definition session_dynamic_default :: "('n, 'i, 'd, 't, 'x) session_entries" where
  "session_dynamic_default = []"

section \<open>The implementations satisfy the contract\<close>

lemma unexpired_None [simp]: "(\<And>n s. m n = Some s \<Longrightarrow> \<not> is_expired since now s) \<Longrightarrow> unexpired since now m = m"
  by (rule ext) (auto simp: unexpired_def split: option.split)

lemma unexpired_upd: "m n = Some s \<Longrightarrow> is_expired since now s \<Longrightarrow> unexpired since now (m(n := None)) = unexpired since now m"
  by (auto simp: unexpired_def)

text \<open>The loop ends, whatever the order of the entries, and removes exactly the expired sessions.\<close>

lemma remove_expired_from_spec:
  assumes remove: "\<And>n m. ok m \<Longrightarrow> ok (remove n m) \<and> map_of (remove n m) = (map_of m)(n := None)"
    and "\<And>m. ok m \<Longrightarrow> distinct (map fst m)" and "ok m"
  shows "\<exists>m'. remove_expired_from remove since now m = Some m' \<and> ok m' \<and> map_of m' = unexpired since now (map_of m)"
  using assms(3)
proof (induction "card (dom (map_of m))" arbitrary: m rule: less_induct)
  case less
  let ?expired = "\<lambda>(_, session). is_expired since now session"
  show ?case
  proof (cases "find ?expired m")
    case None
    then have "\<not> is_expired since now s" if "map_of m n = Some s" for n s
      using map_of_SomeD [OF that] by (auto simp: find_None_iff)
    then show ?thesis using None less.prems by (subst remove_expired_from.simps) simp
  next
    case (Some e)
    obtain n s where e: "e = (n, s)" by (cases e)
    have "?expired e \<and> e \<in> set m" using Some by (auto simp: find_Some_iff) (metis nth_mem)
    then have expired: "is_expired since now s" and n: "map_of m n = Some s"
      using assms(2) [OF less.prems] by (auto simp: e)
    have m: "ok (remove n m)" "map_of (remove n m) = (map_of m)(n := None)" using remove less.prems by auto
    have "dom (map_of (remove n m)) = dom (map_of m) - {n}" "n \<in> dom (map_of m)" using m(2) n by auto
    then have "card (dom (map_of (remove n m))) < card (dom (map_of m))"
      using finite_dom_map_of [of m] by (metis card_Diff1_less)
    from less.hyps [OF this m(1)] show ?thesis
      using Some e m(2) by (subst remove_expired_from.simps) (simp add: unexpired_upd [of "map_of m", OF n expired])
  qed
qed

lemma vec_put:
  assumes "map_of m n \<noteq> None"
  shows "map_of (vec_modify n (\<lambda>_. x) m) = (map_of m)(n \<mapsto> x)"
  using assms by (auto simp: vec_modify_map)

lemma linear_map_tracker:
  fixes im :: "('n, ('i, 'd::linorder, 't, 'x) Session) index_map"
  assumes law: "index_map_law capacity im"
  shows "session_tracker (SessionLinearMap im since) since (\<lambda>m. distinct (map fst m)) UNIV map_of"
proof
  fix s :: "('n, 'i, 'd, 't, 'x) session_entries" and n new now
  assume d: "distinct (map fst s)"
  note law = index_map_lawD [OF law d]
  show "st_get (SessionLinearMap im since) n s = Some (map_of s n)" by (simp add: SessionLinearMap_def)
  show "st_get_mut_or_insert_with (SessionLinearMap im since) n new s = Some (Inr x, s)" if "map_of s n = Some x" for x
    using that by (simp add: SessionLinearMap_def linear_get_mut_or_insert_with_def)
  show "st_get_mut_or_insert_with (SessionLinearMap im since) n new s = Some (Inl OutOfMemoryError, s) \<or>
      (\<exists>s'. st_get_mut_or_insert_with (SessionLinearMap im since) n new s = Some (Inr new, s') \<and> distinct (map fst s') \<and>
        map_of s' = (map_of s)(n \<mapsto> new))" if "map_of s n = None"
    using that law(1) [of n new]
    by (cases "im_insert im n new s") (auto simp: SessionLinearMap_def linear_get_mut_or_insert_with_def)
  show "distinct (map fst (st_put (SessionLinearMap im since) n new s)) \<and>
      map_of (st_put (SessionLinearMap im since) n new s) = (map_of s)(n \<mapsto> new)" if "map_of s n \<noteq> None"
    using that d by (simp add: SessionLinearMap_def vec_put vec_modify_map(2))
  show "st_insert (SessionLinearMap im since) n new s = Some (Inl OutOfMemoryError, s) \<and> map_of s n = None \<or>
      (\<exists>s'. st_insert (SessionLinearMap im since) n new s = Some (Inr (), s') \<and> distinct (map fst s') \<and>
        map_of s' = (map_of s)(n \<mapsto> new))"
    using law(1,2) [of n new] by (cases "im_insert im n new s") (auto simp: SessionLinearMap_def linear_insert_def)
  show "\<exists>s'. st_remove_expired (SessionLinearMap im since) now s = Some s' \<and> distinct (map fst s') \<and>
      map_of s' = unexpired since now (map_of s)"
    using remove_expired_from_spec [of "\<lambda>m. distinct (map fst m)" "im_remove im" s] index_map_lawD(3,4) [OF assms] d
    by (simp add: SessionLinearMap_def)
qed

lemma array_tracker:
  fixes index :: "'n \<Rightarrow> nat" and since :: "'i \<Rightarrow> 'i \<Rightarrow> 'd::linorder"
  assumes "inj index"
  shows "session_tracker (SessionArray index since :: (('i, 'd, 't, 'x) Session option list, 'n, 'i, 'd, 't, 'x) session_tracker_ops)
    since (\<lambda>a. length a = C) {n. index n < C} (\<lambda>a n. if index n < length a then a ! index n else None)"
proof
  let ?T = "SessionArray index since :: (('i, 'd, 't, 'x) Session option list, 'n, 'i, 'd, 't, 'x) session_tracker_ops"
  let ?m = "\<lambda>a n. if index n < length a then a ! index n else None"
  have upd: "?m (a[index n := Some x]) = (?m a)(n \<mapsto> x)" if "index n < length a" for a :: "('i, 'd, 't, 'x) Session option list" and n x
    using that assms by (auto simp: nth_list_update inj_def)
  fix a :: "('i, 'd, 't, 'x) Session option list" and n new x now
  assume a: "length a = C"
  show "\<exists>a'. st_remove_expired ?T now a = Some a' \<and> length a' = C \<and> ?m a' = unexpired since now (?m a)"
    using a by (auto simp: SessionArray_def array_remove_expired_def unexpired_def split: option.split)
  assume n: "n \<in> {n. index n < C}"
  show "st_get ?T n a = Some (?m a n)" using a n by (simp add: SessionArray_def array_get_def)
  show "st_get_mut_or_insert_with ?T n new a = Some (Inr x, a)" if "?m a n = Some x" for x
    using that a n
    by (simp add: list_update_same_conv SessionArray_def array_get_mut_or_insert_with_def array_get_def)
  show "st_get_mut_or_insert_with ?T n new a = Some (Inl OutOfMemoryError, a) \<or>
      (\<exists>a'. st_get_mut_or_insert_with ?T n new a = Some (Inr new, a') \<and> length a' = C \<and> ?m a' = (?m a)(n \<mapsto> new))"
    if "?m a n = None"
    using that a n upd [of n a new] by (simp add: SessionArray_def array_get_mut_or_insert_with_def array_get_def)
  show "length (st_put ?T n x a) = C \<and> ?m (st_put ?T n x a) = (?m a)(n \<mapsto> x)" if "?m a n \<noteq> None"
  proof -
    have "st_put ?T n x a = a[index n := Some x]" by (simp add: SessionArray_def)
    then show ?thesis using a n upd [of n a x] by (simp only: length_list_update mem_Collect_eq)
  qed
  show "st_insert ?T n x a = Some (Inl OutOfMemoryError, a) \<and> ?m a n = None \<or>
      (\<exists>a'. st_insert ?T n x a = Some (Inr (), a') \<and> length a' = C \<and> ?m a' = (?m a)(n \<mapsto> x))"
    using a n upd [of n a x] by (simp add: SessionArray_def array_insert_def)
qed

lemma btree_insert_map: "map_of (btree_insert k v m) = (map_of m)(k \<mapsto> v)" if "sorted_wrt (<) (map fst m)"
  using that by (induction k v m rule: btree_insert.induct) auto

lemma btree_insert_sorted: "sorted_wrt (<) (map fst m) \<Longrightarrow> sorted_wrt (<) (map fst (btree_insert k v m))"
proof (induction k v m rule: btree_insert.induct)
  case (2 k v k' v' m)
  have "fst ` set (btree_insert k v m) \<subseteq> insert k (fst ` set m)" by (induction k v m rule: btree_insert.induct) auto
  with 2 show ?case by (fastforce simp: image_subset_iff)
qed simp

lemma sorted_wrt_less_distinct: "sorted_wrt (<) (xs :: 'a::linorder list) \<Longrightarrow> distinct xs"
  by (simp add: strict_sorted_iff)

lemma btree_remove_map: "map_of (btree_remove k m) = (map_of m)(k := None)"
  by (induction m) (auto simp: btree_remove_def)

lemma btree_remove_sorted: "sorted_wrt (<) (map fst m) \<Longrightarrow> sorted_wrt (<) (map fst (btree_remove k m))"
  by (simp add: btree_remove_def sorted_wrt_map sorted_wrt_filter)

interpretation dynamic_sessions: session_tracker "SessionDynamicMap since" since "\<lambda>m. sorted_wrt (<) (map fst m)" UNIV map_of
  for since :: "'i \<Rightarrow> 'i \<Rightarrow> 'd::linorder"
proof
  fix s :: "('n::linorder, 'i, 'd, 't, 'x) session_entries" and n new x now
  assume s: "sorted_wrt (<) (map fst s)"
  note insert = btree_insert_map [OF s] btree_insert_sorted [OF s]
  show "st_get (SessionDynamicMap since) n s = Some (map_of s n)" by (simp add: SessionDynamicMap_def)
  show "st_get_mut_or_insert_with (SessionDynamicMap since) n new s = Some (Inr x, s)" if "map_of s n = Some x" for x
    using that by (simp add: SessionDynamicMap_def dynamic_get_mut_or_insert_with_def)
  show "st_get_mut_or_insert_with (SessionDynamicMap since) n new s = Some (Inl OutOfMemoryError, s) \<or>
      (\<exists>s'. st_get_mut_or_insert_with (SessionDynamicMap since) n new s = Some (Inr new, s') \<and> sorted_wrt (<) (map fst s') \<and>
        map_of s' = (map_of s)(n \<mapsto> new))" if "map_of s n = None"
    using that insert by (simp add: SessionDynamicMap_def dynamic_get_mut_or_insert_with_def)
  show "sorted_wrt (<) (map fst (st_put (SessionDynamicMap since) n x s)) \<and>
      map_of (st_put (SessionDynamicMap since) n x s) = (map_of s)(n \<mapsto> x)" if "map_of s n \<noteq> None"
    using that s by (simp add: SessionDynamicMap_def vec_put vec_modify_map(2))
  show "st_insert (SessionDynamicMap since) n x s = Some (Inl OutOfMemoryError, s) \<and> map_of s n = None \<or>
      (\<exists>s'. st_insert (SessionDynamicMap since) n x s = Some (Inr (), s') \<and> sorted_wrt (<) (map fst s') \<and>
        map_of s' = (map_of s)(n \<mapsto> x))"
    using insert by (simp add: SessionDynamicMap_def)
  show "\<exists>s'. st_remove_expired (SessionDynamicMap since) now s = Some s' \<and> sorted_wrt (<) (map fst s') \<and>
      map_of s' = unexpired since now (map_of s)"
    unfolding SessionDynamicMap_def session_tracker_ops.simps
    by (rule remove_expired_from_spec) (use s in \<open>simp_all add: btree_remove_map btree_remove_sorted sorted_wrt_less_distinct\<close>)
qed

section \<open>The trackers implement the map of sessions\<close>

text \<open>
C33: The three session trackers implement a map from nodes to sessions. In every state of a linear map without duplicate
keys, of an array with one slot for each node, and of a sorted B-tree: removing expired sessions ends and keeps exactly the sessions
whose age is at most their timeout; looking up a session or making one either finds the session of the map, or makes the given
one, or fails without an effect; and writing to the session changes no other one.
\<close>

theorem session_trackers_refine_map:
  fixes since :: "'i \<Rightarrow> 'i \<Rightarrow> 'd::linorder"
  assumes "index_map_law capacity im" and "distinct (map fst entries)"
    and "inj index" and "index n < length slots"
    and "sorted_wrt (<) (map fst tree)"
  shows "tracker_step (SessionLinearMap im since) since map_of now k new y entries \<and>
    tracker_step (SessionArray index since) since (\<lambda>a n. if index n < length a then a ! index n else None) now n new y slots \<and>
    tracker_step (SessionDynamicMap since) since map_of now m new y tree"
  using session_tracker.step_holds [OF linear_map_tracker [OF assms(1)] assms(2)]
    session_tracker.step_holds [OF array_tracker [OF assms(3)] refl, of n] assms(4)
    dynamic_sessions.step_holds [OF assms(5)] by auto

definition example_session :: "(nat, nat, nat, unit) Session" where
  "example_session = session_new 10 5 None ()"

theorem session_trackers_refine_map_witness:
  "tracker_step (SessionLinearMap (list_index_map 1) (-)) (-) map_of 16 (7::nat) example_session example_session [(3, example_session)] \<and>
   tracker_step (SessionArray id (-)) (-) (\<lambda>a n. if id n < length a then a ! id n else None) 16 1 example_session example_session
     [Some example_session, None] \<and>
   tracker_step (SessionDynamicMap (-)) (-) map_of 16 (7::nat) example_session example_session [(3, example_session)] \<and>
   remove_expired_from btree_remove (-) 16 [(3::nat, example_session)] = Some []"
proof -
  have "find (\<lambda>(_, session). is_expired (-) 16 session) [(3::nat, example_session)] = Some (3, example_session)"
    by (simp add: is_expired_def example_session_def session_new_def)
  then have "remove_expired_from btree_remove (-) 16 [(3::nat, example_session)] = Some []"
    by (subst remove_expired_from.simps) (simp add: btree_remove_def remove_expired_from.simps)
  moreover have "distinct (map fst [(3::nat, example_session)])" "id 1 < length [Some example_session, None]"
    "sorted_wrt (<) (map fst [(3::nat, example_session)])" by simp_all
  ultimately show ?thesis
    using session_trackers_refine_map [OF list_index_map_law _ inj_on_id, of "[(3 :: nat, example_session)]" 1 "[Some example_session, None]"
        "[(3 :: nat, example_session)]" 1 "(-)" 16 7 example_session example_session 7]
    by (simp only: simp_thms)
qed

end
