(* ===== verification/Udp_Rx.thy ===== *)
theory Udp_Rx
  imports Udp_Tx Core_Session
begin

text \<open>
  The receiver of the UDP transport (canadensis\_udp: \<^verbatim>\<open>rx.rs\<close>, \<^verbatim>\<open>rx/buildup.rs\<close>, \<^verbatim>\<open>rx/subscriptions.rs\<close>): reassembly of frames,
  sessions, subscriptions with their sockets, and the receive loop.

  One record \<open>env\<close> holds the parameters: the operations of sockets, the MTU, CRC-32C, the session tracker with its default value,
  and the allocator, which maps the subscription it works for and a number of bytes to the capacity of the new vector, if there is memory. It also
  tells whether integer overflow is checked (\<open>ux_dbg\<close>). The argument \<open>mem\<close> of the subscribing operations tells whether a vector of subscriptions can
  grow. Logging is left out.
\<close>

section \<open>Reassembly\<close>

record UdpBuildup =
  ub_bytes :: "u8 list"
  ub_capacity :: nat
  ub_next_frame_index :: u32
  ub_priority :: Priority
  ub_transfer_id :: UdpTransferId

datatype UdpBuildupError = ErrIndex | ErrPriority | ErrTransferId | ErrLength | ErrMemory out_of_memory_error

definition udp_buildup_new ::
  "bool \<Rightarrow> (nat \<Rightarrow> nat option) \<Rightarrow> ValidatedUdpHeader \<Rightarrow> u8 list \<Rightarrow> nat \<Rightarrow> (UdpBuildupError + UdpBuildup) option" where
  "udp_buildup_new dbg alloc header bytes_after_header max_length =
     (if length bytes_after_header > max_length then Some (Inl ErrLength)
      else case alloc max_length of
        None \<Rightarrow> Some (Inl (ErrMemory OutOfMemoryError))
      | Some capacity \<Rightarrow>
          if dbg \<and> vh_frame_index header = 0xffffffff then None
          else Some (Inr \<lparr>ub_bytes = bytes_after_header, ub_capacity = capacity, ub_next_frame_index = vh_frame_index header + 1,
            ub_priority = vh_priority header, ub_transfer_id = vh_transfer_id header\<rparr>))"

definition udp_buildup_push ::
  "ValidatedUdpHeader \<Rightarrow> u8 list \<Rightarrow> UdpBuildup \<Rightarrow> (UdpBuildupError + unit) \<times> UdpBuildup" where
  "udp_buildup_push header bytes_after_header self =
     (if vh_frame_index header \<noteq> ub_next_frame_index self then (Inl ErrIndex, self)
      else if vh_transfer_id header \<noteq> ub_transfer_id self then (Inl ErrTransferId, self)
      else if vh_priority header \<noteq> ub_priority self then (Inl ErrPriority, self)
      else if length (ub_bytes self) + length bytes_after_header > ub_capacity self then (Inl ErrLength, self)
      else (Inr (), self\<lparr>ub_bytes := ub_bytes self @ bytes_after_header\<rparr>))"

record UdpSessionData =
  sd_buildup :: "UdpBuildup option"

definition session_data_default :: UdpSessionData where
  "session_data_default = \<lparr>sd_buildup = None\<rparr>"

text \<open>The end of a reassembly. Subtracting from a length below four panics when overflow is checked; otherwise the wrapped index is out of range.\<close>

definition finish_reassembly :: "bool \<Rightarrow> (u8 list \<Rightarrow> u32) \<Rightarrow> u8 list \<Rightarrow> u8 list option option" where
  "finish_reassembly dbg crc32c payload_and_crc =
     (if length payload_and_crc < 4 then (if dbg then None else Some None)
      else let expected_crc = of_le_bytes (drop (length payload_and_crc - 4) payload_and_crc);
               payload = take (length payload_and_crc - 4) payload_and_crc in
           if crc32c payload = expected_crc then Some (Some payload) else Some None)"

definition udp_session_handle_frame ::
  "bool \<Rightarrow> (u8 list \<Rightarrow> u32) \<Rightarrow> (nat \<Rightarrow> nat option) \<Rightarrow> ValidatedUdpHeader \<Rightarrow> u8 list \<Rightarrow> nat \<Rightarrow> UdpSessionData
   \<Rightarrow> (('e udp_error + u8 list option) \<times> UdpSessionData) option" where
  "udp_session_handle_frame dbg crc32c alloc header bytes_after_header max_payload_length self =
     (if vh_frame_index header = 0 then
        if vh_last_frame header then
          if length bytes_after_header \<le> max_payload_length then
            (case alloc (length bytes_after_header) of
               None \<Rightarrow> Some (Inl (UdpMemory OutOfMemoryError), self)
             | Some _ \<Rightarrow> Some (Inr (Some bytes_after_header), self))
          else Some (Inr None, self)
        else do {
          r \<leftarrow> udp_buildup_new dbg alloc header bytes_after_header max_payload_length;
          case r of
            Inr buildup \<Rightarrow> Some (Inr None, self\<lparr>sd_buildup := Some buildup\<rparr>)
          | Inl _ \<Rightarrow> Some (Inr None, self)
        }
      else if vh_last_frame header then
        (case sd_buildup self of
           Some buildup \<Rightarrow>
             let self = self\<lparr>sd_buildup := None\<rparr> in
             (case udp_buildup_push header bytes_after_header buildup of
                (Inr _, buildup) \<Rightarrow> map_option (\<lambda>r. (Inr r, self)) (finish_reassembly dbg crc32c (ub_bytes buildup))
              | (Inl _, _) \<Rightarrow> Some (Inr None, self))
         | None \<Rightarrow> Some (Inr None, self))
      else
        (case sd_buildup self of
           Some buildup \<Rightarrow>
             (case udp_buildup_push header bytes_after_header buildup of
                (Inr _, buildup) \<Rightarrow> Some (Inr None, self\<lparr>sd_buildup := Some buildup\<rparr>)
              | (Inl _, _) \<Rightarrow> Some (Inr None, self\<lparr>sd_buildup := None\<rparr>))
         | None \<Rightarrow> Some (Inr None, self)))"

section \<open>Subscriptions\<close>

datatype UdpSubscriptionKind = KindMessage SubjectId | KindRequest ServiceId | KindResponse ServiceId

record ('so, 's, 'd) UdpSubscription =
  us_socket :: 'so
  us_kind :: UdpSubscriptionKind
  us_payload_size_max :: nat
  us_timeout :: 'd
  us_sessions :: 's

datatype IpAddr = IpV4 Ipv4Addr | IpV6 "128 word"

record ('so, 's, 'i, 'd, 'e) udp_rx_env =
  ux_dbg :: bool
  ux_mtu :: nat
  ux_bind_socket :: "Ipv4Addr \<Rightarrow> u16 \<Rightarrow> 'e io_error + 'so"
  ux_join_multicast_v4 :: "Ipv4Addr \<Rightarrow> Ipv4Addr \<Rightarrow> 'so \<Rightarrow> ('e io_error + unit) \<times> 'so"
  ux_recv_from :: "nat \<Rightarrow> 'so \<Rightarrow> ('e io_error + u8 list \<times> IpAddr) \<times> 'so"
  ux_alloc :: "UdpSubscriptionKind \<Rightarrow> nat \<Rightarrow> nat option"
  ux_crc32c :: "u8 list \<Rightarrow> u32"
  ux_tracker :: "('s, UdpNodeId, 'i, 'd, UdpTransferId, UdpSessionData) session_tracker_ops"
  ux_default :: 's

definition subscription_new_message ::
  "('so, 's, 'i, 'd, 'e) udp_rx_env \<Rightarrow> SubjectId \<Rightarrow> nat \<Rightarrow> 'd \<Rightarrow> NodeAddress \<Rightarrow> 'e io_error + ('so, 's, 'd) UdpSubscription" where
  "subscription_new_message env subject payload_size_max timeout local_address =
     (let multicast_address = multicast_address subject local_address in
      case ux_bind_socket env multicast_address (u16_from_port PortMessage) of
        Inl e \<Rightarrow> Inl e
      | Inr socket \<Rightarrow>
          (case ux_join_multicast_v4 env multicast_address (ip_from_node_address local_address) socket of
             (Inl e, _) \<Rightarrow> Inl e
           | (Inr _, socket) \<Rightarrow> Inr \<lparr>us_socket = socket, us_kind = KindMessage subject, us_payload_size_max = payload_size_max,
               us_timeout = timeout, us_sessions = ux_default env\<rparr>))"

definition subscription_new_request ::
  "('so, 's, 'i, 'd, 'e) udp_rx_env \<Rightarrow> ServiceId \<Rightarrow> nat \<Rightarrow> 'd \<Rightarrow> NodeAddress \<Rightarrow> 'e io_error + ('so, 's, 'd) UdpSubscription" where
  "subscription_new_request env service payload_size_max timeout local_address =
     (case ux_bind_socket env (ip_from_node_address local_address) (u16_from_port (PortRequest service)) of
        Inl e \<Rightarrow> Inl e
      | Inr socket \<Rightarrow> Inr \<lparr>us_socket = socket, us_kind = KindRequest service, us_payload_size_max = payload_size_max,
          us_timeout = timeout, us_sessions = ux_default env\<rparr>)"

definition subscription_new_response ::
  "('so, 's, 'i, 'd, 'e) udp_rx_env \<Rightarrow> ServiceId \<Rightarrow> nat \<Rightarrow> 'd \<Rightarrow> NodeAddress \<Rightarrow> 'e io_error + ('so, 's, 'd) UdpSubscription" where
  "subscription_new_response env service payload_size_max timeout local_address =
     (case ux_bind_socket env (ip_from_node_address local_address) (u16_from_port (PortResponse service)) of
        Inl e \<Rightarrow> Inl e
      | Inr socket \<Rightarrow> Inr \<lparr>us_socket = socket, us_kind = KindResponse service, us_payload_size_max = payload_size_max,
          us_timeout = timeout, us_sessions = ux_default env\<rparr>)"

section \<open>Handling one frame\<close>

fun received_header :: "UdpSubscriptionKind \<Rightarrow> ValidatedUdpHeader \<Rightarrow> UdpNodeId \<Rightarrow> NodeAddress \<Rightarrow> 'i \<Rightarrow> 'i udp_header" where
  "received_header (KindMessage subject) header from local_address now =
     Message \<lparr>mh_timestamp = now, mh_transfer_id = vh_transfer_id header, mh_priority = vh_priority header, mh_subject = subject,
       mh_source = Some from\<rparr>"
| "received_header (KindRequest service) header from local_address now =
     Request \<lparr>sh_timestamp = now, sh_transfer_id = vh_transfer_id header, sh_priority = vh_priority header, sh_service = service,
       sh_source = from, sh_destination = na_node local_address\<rparr>"
| "received_header (KindResponse service) header from local_address now =
     Response \<lparr>sh_timestamp = now, sh_transfer_id = vh_transfer_id header, sh_priority = vh_priority header, sh_service = service,
       sh_source = from, sh_destination = na_node local_address\<rparr>"

definition handle_sane_frame ::
  "('so, 's, 'i, 'd, 'e) udp_rx_env \<Rightarrow> ValidatedUdpHeader \<Rightarrow> u8 list \<Rightarrow> UdpNodeId \<Rightarrow> NodeAddress \<Rightarrow> 'i \<Rightarrow> ('so, 's, 'd) UdpSubscription
   \<Rightarrow> (('e udp_error + (u8 list, 'i) udp_transfer option) \<times> ('so, 's, 'd) UdpSubscription) option" where
  "handle_sane_frame env header bytes_after_header from local_address now self =
     (let T = ux_tracker env in
      case st_get_mut_or_insert_with T from (session_new now (us_timeout self) None session_data_default) (us_sessions self) of
        None \<Rightarrow> None
      | Some (Inl oom, sessions) \<Rightarrow> Some (Inl (UdpMemory oom), self\<lparr>us_sessions := sessions\<rparr>)
      | Some (Inr session, sessions) \<Rightarrow>
          if (case se_last_transfer_id session of
                Some last_transfer_id \<Rightarrow> udp_tid_bits (vh_transfer_id header) \<le> udp_tid_bits last_transfer_id
              | None \<Rightarrow> False)
          then Some (Inr None, self\<lparr>us_sessions := sessions\<rparr>)
          else do {
            let session = set_last_activity now session;
            (r, data) \<leftarrow> udp_session_handle_frame (ux_dbg env) (ux_crc32c env) (ux_alloc env (us_kind self)) header bytes_after_header
              (us_payload_size_max self) (se_data session);
            let session = session\<lparr>se_data := data\<rparr>;
            Some (case r of
              Inr (Some reassembled) \<Rightarrow>
                (Inr (Some \<lparr>tr_header = received_header (us_kind self) header from local_address now, tr_payload = reassembled\<rparr>),
                 self\<lparr>us_sessions := st_put T from (set_last_transfer_id (vh_transfer_id header) session) sessions\<rparr>)
            | Inr None \<Rightarrow> (Inr None, self\<lparr>us_sessions := st_put T from session sessions\<rparr>)
            | Inl e \<Rightarrow> (Inl e, self\<lparr>us_sessions := st_put T from session sessions\<rparr>))
          })"

definition udp_handle_frame ::
  "('so, 's, 'i, 'd, 'e) udp_rx_env \<Rightarrow> u8 list \<Rightarrow> IpAddr \<Rightarrow> NodeAddress \<Rightarrow> 'i \<Rightarrow> ('so, 's, 'd) UdpSubscription
   \<Rightarrow> (('e udp_error + (u8 list, 'i) udp_transfer option) \<times> ('so, 's, 'd) UdpSubscription) option" where
  "udp_handle_frame env bytes from local_address now self =
     (case from of
        IpV6 _ \<Rightarrow> Some (Inr None, self)
      | IpV4 from_ip \<Rightarrow>
          (case address_try_from from_ip of
             Inr (NodeAddr from) \<Rightarrow>
               if na_subnet from \<noteq> na_subnet local_address then Some (Inr None, self)
               else (case Option.bind (udp_header_read_from_prefix bytes) (\<lambda>header. expect (validated_try_from header)) of
                       Some header \<Rightarrow> handle_sane_frame env header (drop UDP_HEADER_SIZE bytes) (na_node from) local_address now self
                     | None \<Rightarrow> Some (Inr None, self))
           | _ \<Rightarrow> Some (Inr None, self)))"

definition check_for_frames ::
  "('so, 's, 'i, 'd, 'e) udp_rx_env \<Rightarrow> NodeAddress \<Rightarrow> 'i \<Rightarrow> ('so, 's, 'd) UdpSubscription
   \<Rightarrow> (('e udp_error + (u8 list, 'i) udp_transfer option) \<times> ('so, 's, 'd) UdpSubscription) option" where
  "check_for_frames env local_address now self =
     (case ux_recv_from env (ux_mtu env) (us_socket self) of
        (Inl e, socket) \<Rightarrow> Some (Inl (UdpSocket e), self\<lparr>us_socket := socket\<rparr>)
      | (Inr (bytes, from), socket) \<Rightarrow> udp_handle_frame env bytes from local_address now (self\<lparr>us_socket := socket\<rparr>))"

section \<open>The receiver\<close>

record 'u UdpSubscriptions =
  sb_message :: "(SubjectId \<times> 'u) list"
  sb_request :: "(ServiceId \<times> 'u) list"
  sb_response :: "(ServiceId \<times> 'u) list"

record 'u UdpReceiver =
  ur_subscriptions :: "'u UdpSubscriptions"
  ur_address :: NodeAddress

definition udp_receiver_new :: "NodeAddress \<Rightarrow> 'u UdpReceiver" where
  "udp_receiver_new address = \<lparr>ur_subscriptions = \<lparr>sb_message = [], sb_request = [], sb_response = []\<rparr>, ur_address = address\<rparr>"

text \<open>One of the three loops over subscriptions: \<open>None\<close> in the result is the end of the loop, \<open>Some\<close> an early return.\<close>

fun check_subscriptions ::
  "('u \<Rightarrow> (('e udp_error + 't option) \<times> 'u) option) \<Rightarrow> ('k \<times> 'u) list \<Rightarrow> (('e udp_error + 't option) option \<times> ('k \<times> 'u) list) option" where
  "check_subscriptions check [] = Some (None, [])"
| "check_subscriptions check ((port, subscription) # rest) = do {
     (r, subscription) \<leftarrow> check subscription;
     let continue = do {
       (r, rest) \<leftarrow> check_subscriptions check rest;
       Some (r, (port, subscription) # rest)
     };
     case r of
       Inr (Some transfer) \<Rightarrow> Some (Some (Inr (Some transfer)), (port, subscription) # rest)
     | Inr None \<Rightarrow> continue
     | Inl (UdpSocket IoWouldBlock) \<Rightarrow> continue
     | Inl e \<Rightarrow> Some (Some (Inl e), (port, subscription) # rest)
   }"

definition accept_inner ::
  "('so, 's, 'i, 'd, 'e) udp_rx_env \<Rightarrow> 'i \<Rightarrow> ('so, 's, 'd) UdpSubscription UdpReceiver
   \<Rightarrow> (('e udp_error + (u8 list, 'i) udp_transfer option) \<times> ('so, 's, 'd) UdpSubscription UdpReceiver) option" where
  "accept_inner env now self = do {
     let check = check_for_frames env (ur_address self) now;
     let subs = ur_subscriptions self;
     (r, message) \<leftarrow> check_subscriptions check (sb_message subs);
     let subs = subs\<lparr>sb_message := message\<rparr>;
     case r of
       Some r \<Rightarrow> Some (r, self\<lparr>ur_subscriptions := subs\<rparr>)
     | None \<Rightarrow> do {
         (r, request) \<leftarrow> check_subscriptions check (sb_request subs);
         let subs = subs\<lparr>sb_request := request\<rparr>;
         case r of
           Some r \<Rightarrow> Some (r, self\<lparr>ur_subscriptions := subs\<rparr>)
         | None \<Rightarrow> do {
             (r, response) \<leftarrow> check_subscriptions check (sb_response subs);
             let subs = subs\<lparr>sb_response := response\<rparr>;
             case r of
               Some r \<Rightarrow> Some (r, self\<lparr>ur_subscriptions := subs\<rparr>)
             | None \<Rightarrow> Some (Inl (UdpSocket IoWouldBlock), self\<lparr>ur_subscriptions := subs\<rparr>)
           }
       }
   }"

partial_function (option) udp_receive_loop ::
  "('so, 's, 'i, 'd, 'e) udp_rx_env \<Rightarrow> 'i \<Rightarrow> ('so, 's, 'd) UdpSubscription UdpReceiver
   \<Rightarrow> (('e udp_error + (u8 list, 'i) udp_transfer option) \<times> ('so, 's, 'd) UdpSubscription UdpReceiver) option" where
  "udp_receive_loop env now self =
     (case accept_inner env now self of
        None \<Rightarrow> None
      | Some (Inr (Some transfer), self) \<Rightarrow> Some (Inr (Some transfer), self)
      | Some (Inr None, self) \<Rightarrow> udp_receive_loop env now self
      | Some (Inl e, self) \<Rightarrow>
          (case e of UdpSocket IoWouldBlock \<Rightarrow> Some (Inr None, self) | _ \<Rightarrow> Some (Inl e, self)))"

fun clean_each :: "('u \<Rightarrow> 'u option) \<Rightarrow> ('k \<times> 'u) list \<Rightarrow> ('k \<times> 'u) list option" where
  "clean_each clean [] = Some []"
| "clean_each clean ((port, subscription) # rest) = do {
     subscription \<leftarrow> clean subscription;
     rest \<leftarrow> clean_each clean rest;
     Some ((port, subscription) # rest)
   }"

definition subscription_clean_expired_sessions ::
  "('so, 's, 'i, 'd, 'e) udp_rx_env \<Rightarrow> 'i \<Rightarrow> ('so, 's, 'd) UdpSubscription \<Rightarrow> ('so, 's, 'd) UdpSubscription option" where
  "subscription_clean_expired_sessions env now self =
     map_option (\<lambda>sessions. self\<lparr>us_sessions := sessions\<rparr>) (st_remove_expired (ux_tracker env) now (us_sessions self))"

definition udp_clean_expired_sessions ::
  "('so, 's, 'i, 'd, 'e) udp_rx_env \<Rightarrow> 'i \<Rightarrow> ('so, 's, 'd) UdpSubscription UdpReceiver
   \<Rightarrow> ('so, 's, 'd) UdpSubscription UdpReceiver option" where
  "udp_clean_expired_sessions env now self = do {
     let clean = subscription_clean_expired_sessions env now;
     let subs = ur_subscriptions self;
     message \<leftarrow> clean_each clean (sb_message subs);
     request \<leftarrow> clean_each clean (sb_request subs);
     response \<leftarrow> clean_each clean (sb_response subs);
     Some (self\<lparr>ur_subscriptions := \<lparr>sb_message = message, sb_request = request, sb_response = response\<rparr>\<rparr>)
   }"

definition udp_receive ::
  "('so, 's, 'i, 'd, 'e) udp_rx_env \<Rightarrow> 'i \<Rightarrow> ('so, 's, 'd) UdpSubscription UdpReceiver
   \<Rightarrow> (('e udp_error + (u8 list, 'i) udp_transfer option) \<times> ('so, 's, 'd) UdpSubscription UdpReceiver) option" where
  "udp_receive env now self = do {
     (result, self) \<leftarrow> udp_receive_loop env now self;
     self \<leftarrow> udp_clean_expired_sessions env now self;
     Some (result, self)
   }"

section \<open>Subscribing\<close>

definition udp_subscribe_message ::
  "('so, 's, 'i, 'd, 'e) udp_rx_env \<Rightarrow> bool \<Rightarrow> SubjectId \<Rightarrow> nat \<Rightarrow> 'd \<Rightarrow> ('so, 's, 'd) UdpSubscription UdpReceiver
   \<Rightarrow> ('e udp_error + unit) \<times> ('so, 's, 'd) UdpSubscription UdpReceiver" where
  "udp_subscribe_message env mem subject payload_size_max timeout self =
     (case subscription_new_message env subject payload_size_max timeout (ur_address self) of
        Inl e \<Rightarrow> (Inl (UdpSocket e), self)
      | Inr subscription \<Rightarrow>
          let subs = ur_subscriptions self; (r, message) = vec_subscribe mem subject subscription (sb_message subs) in
          (map_sum UdpMemory id r, self\<lparr>ur_subscriptions := subs\<lparr>sb_message := message\<rparr>\<rparr>))"

definition udp_unsubscribe_message :: "SubjectId \<Rightarrow> 'u UdpReceiver \<Rightarrow> 'u UdpReceiver" where
  "udp_unsubscribe_message subject self =
     (let subs = ur_subscriptions self in
      self\<lparr>ur_subscriptions := subs\<lparr>sb_message := snd (vec_unsubscribe subject (sb_message subs))\<rparr>\<rparr>)"

definition udp_subscribe_request ::
  "('so, 's, 'i, 'd, 'e) udp_rx_env \<Rightarrow> bool \<Rightarrow> ServiceId \<Rightarrow> nat \<Rightarrow> 'd \<Rightarrow> ('so, 's, 'd) UdpSubscription UdpReceiver
   \<Rightarrow> ('e udp_error ServiceSubscribeError + unit) \<times> ('so, 's, 'd) UdpSubscription UdpReceiver" where
  "udp_subscribe_request env mem service payload_size_max timeout self =
     (case subscription_new_request env service payload_size_max timeout (ur_address self) of
        Inl e \<Rightarrow> (Inl (Transport (UdpSocket e)), self)
      | Inr subscription \<Rightarrow>
          let subs = ur_subscriptions self; (r, request) = vec_subscribe mem service subscription (sb_request subs) in
          (map_sum (\<lambda>oom. Transport (UdpMemory oom)) id r, self\<lparr>ur_subscriptions := subs\<lparr>sb_request := request\<rparr>\<rparr>))"

definition udp_unsubscribe_request :: "ServiceId \<Rightarrow> 'u UdpReceiver \<Rightarrow> 'u UdpReceiver" where
  "udp_unsubscribe_request service self =
     (let subs = ur_subscriptions self in
      self\<lparr>ur_subscriptions := subs\<lparr>sb_request := snd (vec_unsubscribe service (sb_request subs))\<rparr>\<rparr>)"

definition udp_subscribe_response ::
  "('so, 's, 'i, 'd, 'e) udp_rx_env \<Rightarrow> bool \<Rightarrow> ServiceId \<Rightarrow> nat \<Rightarrow> 'd \<Rightarrow> ('so, 's, 'd) UdpSubscription UdpReceiver
   \<Rightarrow> ('e udp_error ServiceSubscribeError + unit) \<times> ('so, 's, 'd) UdpSubscription UdpReceiver" where
  "udp_subscribe_response env mem service payload_size_max timeout self =
     (case subscription_new_response env service payload_size_max timeout (ur_address self) of
        Inl e \<Rightarrow> (Inl (Transport (UdpSocket e)), self)
      | Inr subscription \<Rightarrow>
          let subs = ur_subscriptions self; (r, response) = vec_subscribe mem service subscription (sb_response subs) in
          (map_sum (\<lambda>oom. Transport (UdpMemory oom)) id r, self\<lparr>ur_subscriptions := subs\<lparr>sb_response := response\<rparr>\<rparr>))"

definition udp_unsubscribe_response :: "ServiceId \<Rightarrow> 'u UdpReceiver \<Rightarrow> 'u UdpReceiver" where
  "udp_unsubscribe_response service self =
     (let subs = ur_subscriptions self in
      self\<lparr>ur_subscriptions := subs\<lparr>sb_response := snd (vec_unsubscribe service (sb_response subs))\<rparr>\<rparr>)"

end
