(* ===== verification/Udp_Delivery.thy ===== *)
theory Udp_Delivery
  imports Udp_Rx
begin

text \<open>
  What the UDP receiver does with the packets of a transfer: the receive loop makes one pass over the subscriptions, frames are
  handled without a panic in release builds, and a transfer is delivered exactly when its payload needs at most two frames and
  does not fill one exactly.
\<close>

section \<open>One pass over the subscriptions\<close>

lemma check_subscriptions_not_none:
  assumes "check_subscriptions check subs = Some (r, subs')"
  shows "r \<noteq> Some (Inr None)"
  using assms
proof (induction check subs arbitrary: r subs' rule: check_subscriptions.induct)
  case (2 check port subscription rest)
  obtain x subscription' where x: "check subscription = Some (x, subscription')"
    using "2.prems" by (auto simp: bind_eq_Some_conv)
  have rest: "r' \<noteq> Some (Inr None)" if "check_subscriptions check rest = Some (r', rest')" for r' rest'
    using "2.IH" [OF x refl that] .
  show ?case
  proof (cases x)
    case (Inl e)
    show ?thesis
    proof (cases "e = UdpSocket IoWouldBlock")
      case True
      then show ?thesis using "2.prems" x Inl rest by (auto simp: bind_eq_Some_conv Let_def)
    next
      case False
      then show ?thesis using "2.prems" x Inl
        by (cases e; cases "case e of UdpSocket io \<Rightarrow> io | _ \<Rightarrow> IoWouldBlock") (auto simp: Let_def)
    qed
  next
    case (Inr t)
    then show ?thesis using "2.prems" x rest by (cases t) (auto simp: bind_eq_Some_conv Let_def)
  qed
qed simp

lemma accept_inner_not_none: "accept_inner env now self \<noteq> Some (Inr None, self')"
  by (auto simp: accept_inner_def Let_def bind_eq_Some_conv dest: check_subscriptions_not_none split: option.splits)

text \<open>
One call of the UDP receiver's \<^verbatim>\<open>receive\<close> polls the sockets of all subscriptions once. The inner function that polls them never
returns \<^verbatim>\<open>Ok(None)\<close>, so the loop that should read all incoming packets ends after its first round: \<^verbatim>\<open>receive\<close> is
that one pass, with \<^verbatim>\<open>WouldBlock\<close> turned into no transfer, followed by the removal of expired sessions.
\<close>

lemma udp_receive_single_pass:
  "udp_receive env now self =
     (case accept_inner env now self of
        None \<Rightarrow> None
      | Some (r, self') \<Rightarrow>
          map_option (\<lambda>self''. (if r = Inl (UdpSocket IoWouldBlock) then Inr None else r, self'')) (udp_clean_expired_sessions env now self'))"
proof (cases "accept_inner env now self")
  case None
  then show ?thesis by (simp add: udp_receive_def udp_receive_loop.simps)
next
  case (Some a)
  obtain r self' where a: "a = (r, self')" by (cases a)
  have loop: "udp_receive_loop env now self = Some (if r = Inl (UdpSocket IoWouldBlock) then Inr None else r, self')"
  proof (cases r)
    case (Inl e)
    then show ?thesis using Some a by (subst udp_receive_loop.simps) (auto split: udp_error.split io_error.split)
  next
    case (Inr t)
    then show ?thesis using Some a accept_inner_not_none [of env now self self'] by (subst udp_receive_loop.simps) (cases t, auto)
  qed
  then show ?thesis
    using Some a by (cases "udp_clean_expired_sessions env now self'") (simp_all add: udp_receive_def)
qed

section \<open>Headers are read back\<close>

lemma udp_header_roundtrip: "udp_header_read_from_prefix (udp_header_as_bytes h @ rest) = Some h"
proof -
  have "take 1 (udp_header_as_bytes h @ rest) = le_bytes 1 (uh_version h)"
    "take 1 (drop 1 (udp_header_as_bytes h @ rest)) = le_bytes 1 (uh_priority h)"
    "take 2 (drop 2 (udp_header_as_bytes h @ rest)) = le_bytes 2 (uh_padding0 h)"
    "take 4 (drop 4 (udp_header_as_bytes h @ rest)) = le_bytes 4 (uh_frame_index_eot h)"
    "take 8 (drop 8 (udp_header_as_bytes h @ rest)) = le_bytes 8 (uh_transfer_id h)"
    "take 8 (drop 16 (udp_header_as_bytes h @ rest)) = le_bytes 8 (uh_padding1 h)"
    by (simp_all add: udp_header_as_bytes_def)
  then show ?thesis by (simp add: udp_header_read_from_prefix_def of_le_bytes_le_bytes)
qed

text \<open>The validated form of the header of frame \<open>i\<close>.\<close>

definition frame_header :: "u64 \<Rightarrow> Priority \<Rightarrow> u32 \<Rightarrow> bool \<Rightarrow> ValidatedUdpHeader" where
  "frame_header transfer_id priority i eot =
     \<lparr>vh_priority = priority, vh_frame_index = i, vh_last_frame = eot, vh_transfer_id = UdpTransferId transfer_id\<rparr>"

lemma last_frame_bit:
  assumes "unat i < 2 ^ 31"
  shows "(LAST_FRAME OR i) AND LAST_FRAME \<noteq> 0" "(LAST_FRAME OR i) AND NOT LAST_FRAME = i" "i AND LAST_FRAME = 0" "i AND NOT LAST_FRAME = i"
proof -
  have "LAST_FRAME = push_bit 31 1" by (simp add: LAST_FRAME_def)
  note LAST = this
  have l: "bit LAST_FRAME n \<longleftrightarrow> n = 31" for n by (simp only: LAST bit_push_bit_iff bit_1_iff possible_bit_word) auto
  have i: "n < 31" if "bit i n" for n using bit_below [OF assms that] .
  have "bit ((LAST_FRAME OR i) AND LAST_FRAME) 31" by (simp add: bit_simps l)
  then show "(LAST_FRAME OR i) AND LAST_FRAME \<noteq> 0" by auto
  show "(LAST_FRAME OR i) AND NOT LAST_FRAME = i" "i AND LAST_FRAME = 0" "i AND NOT LAST_FRAME = i"
    by (rule bit_word_eqI; use i in \<open>auto simp: bit_simps l\<close>)+
qed

lemma validated_frame_header:
  assumes "unat i < 2 ^ 31"
  shows "validated_try_from (udp_frame_header transfer_id priority (if eot then LAST_FRAME OR i else i))
    = Inr (frame_header transfer_id priority i eot)"
  using last_frame_bit [OF assms]
  by (simp add: validated_try_from_def udp_frame_header_def frame_header_def frame_index_def is_last_frame_def priority_roundtrip)

section \<open>One frame\<close>

text \<open>What the sessions say about a node: its reassembly, and whether a transfer identifier is new.\<close>

definition current_data :: "(UdpNodeId, 'i, 'd, UdpTransferId, UdpSessionData) session_entries \<Rightarrow> UdpNodeId \<Rightarrow> UdpSessionData" where
  "current_data sessions from = (case map_of sessions from of None \<Rightarrow> session_data_default | Some session \<Rightarrow> se_data session)"

definition new_transfer :: "(UdpNodeId, 'i, 'd, UdpTransferId, UdpSessionData) session_entries \<Rightarrow> UdpNodeId \<Rightarrow> UdpTransferId \<Rightarrow> bool" where
  "new_transfer sessions from transfer_id \<longleftrightarrow>
     (case map_of sessions from of
        None \<Rightarrow> True
      | Some session \<Rightarrow>
          (case se_last_transfer_id session of None \<Rightarrow> True | Some previous \<Rightarrow> udp_tid_bits previous < udp_tid_bits transfer_id))"

abbreviation sessions_sorted :: "(UdpNodeId \<times> 'x) list \<Rightarrow> bool" where
  "sessions_sorted sessions \<equiv> sorted_wrt (<) (map fst sessions)"

lemma handle_sane_frame_step:
  fixes since :: "'i \<Rightarrow> 'i \<Rightarrow> 'd::linorder"
  assumes tracker: "ux_tracker env = SessionDynamicMap since"
    and sorted: "sessions_sorted (us_sessions self)" and fresh: "new_transfer (us_sessions self) from (vh_transfer_id header)"
    and handle: "udp_session_handle_frame (ux_dbg env) (ux_crc32c env) (ux_alloc env (us_kind self)) header bytes
      (us_payload_size_max self) (current_data (us_sessions self) from) = Some (r, data)"
  shows "\<exists>sessions. handle_sane_frame env header bytes from local_address now self =
      Some (map_sum id (map_option (\<lambda>p. \<lparr>tr_header = received_header (us_kind self) header from local_address now, tr_payload = p\<rparr>)) r,
        self\<lparr>us_sessions := sessions\<rparr>) \<and>
    sessions_sorted sessions \<and> current_data sessions from = data \<and>
    (r = Inr None \<longrightarrow> new_transfer sessions from (vh_transfer_id header))"
proof -
  let ?T = "SessionDynamicMap since :: ((UdpNodeId, 'i, 'd, UdpTransferId, UdpSessionData) session_entries, _, _, _, _, _) session_tracker_ops"
  let ?new = "session_new now (us_timeout self) None session_data_default"
  obtain x sessions where x: "st_get_mut_or_insert_with ?T from ?new (us_sessions self) = Some (Inr x, sessions)"
      "sessions_sorted sessions" "map_of sessions from = Some x"
      "x = (case map_of (us_sessions self) from of None \<Rightarrow> ?new | Some x \<Rightarrow> x)"
    by (rule dynamic_sessions.get_mut_cases [OF sorted UNIV_I, where since = since and n = "from" and new = ?new])
      (auto simp: SessionDynamicMap_def dynamic_get_mut_or_insert_with_def split: option.splits)
  have data: "se_data x = current_data (us_sessions self) from"
    by (simp add: x(4) current_data_def session_new_def split: option.split)
  have last: "\<not> (case se_last_transfer_id x of Some previous \<Rightarrow> udp_tid_bits (vh_transfer_id header) \<le> udp_tid_bits previous | None \<Rightarrow> False)"
    using fresh by (auto simp: x(4) new_transfer_def session_new_def split: option.split)
  let ?x = "x\<lparr>se_last_activity := now, se_data := data\<rparr>"
  have put: "sessions_sorted (st_put ?T from y sessions)" "map_of (st_put ?T from y sessions) from = Some y" for y
    using dynamic_sessions.put [OF x(2) UNIV_I, where since = since and n = "from" and x = y] x(3) by simp_all
  have step: "handle_sane_frame env header bytes from local_address now self = Some (case r of
      Inr (Some p) \<Rightarrow>
        (Inr (Some \<lparr>tr_header = received_header (us_kind self) header from local_address now, tr_payload = p\<rparr>),
         self\<lparr>us_sessions := st_put ?T from (set_last_transfer_id (vh_transfer_id header) ?x) sessions\<rparr>)
    | Inr None \<Rightarrow> (Inr None, self\<lparr>us_sessions := st_put ?T from ?x sessions\<rparr>)
    | Inl e \<Rightarrow> (Inl e, self\<lparr>us_sessions := st_put ?T from ?x sessions\<rparr>))"
    using x(1) last handle data by (simp add: handle_sane_frame_def tracker set_last_activity_def Let_def)
  have new: "new_transfer (st_put ?T from ?x sessions) from (vh_transfer_id header)"
    using last by (auto simp: new_transfer_def put split: option.split)
  show ?thesis
    unfolding step using put [of ?x] put [of "set_last_transfer_id (vh_transfer_id header) ?x"] new
    by (cases r; cases "projr r") (auto simp: current_data_def set_last_transfer_id_def)
qed

text \<open>A packet of a well-formed sender in the subnet reaches \<^const>\<open>handle_sane_frame\<close>.\<close>

lemma udp_handle_packet:
  assumes "address_wf (NodeAddr sender)" and "na_subnet sender = na_subnet local_address" and "unat i < 2 ^ 31"
  shows "udp_handle_frame env (udp_header_as_bytes (udp_frame_header transfer_id priority (if eot then LAST_FRAME OR i else i)) @ chunk)
      (IpV4 (ip_from_node_address sender)) local_address now self
    = handle_sane_frame env (frame_header transfer_id priority i eot) chunk (na_node sender) local_address now self"
proof -
  have "address_try_from (ip_from_node_address sender) = Inr (NodeAddr sender)"
    using node_address_roundtrip [OF assms(1)] by (auto simp: address_try_from_def node_address_try_from_def split: if_splits)
  then show ?thesis
    by (simp add: udp_handle_frame_def assms(2) udp_header_roundtrip validated_frame_header [OF assms(3)])
qed

section \<open>All frames of a transfer\<close>

text \<open>The frames of a payload in the pieces \<open>chunks\<close>, from index \<open>i\<close> on, as a session sees them.\<close>

fun session_frames ::
  "bool \<Rightarrow> (u8 list \<Rightarrow> u32) \<Rightarrow> (nat \<Rightarrow> nat option) \<Rightarrow> nat \<Rightarrow> u64 \<Rightarrow> Priority \<Rightarrow> u32 \<Rightarrow> u8 list list \<Rightarrow> UdpSessionData
   \<Rightarrow> (('e udp_error + u8 list option) list \<times> UdpSessionData) option" where
  "session_frames dbg crc32c alloc max_length transfer_id priority i [] data = Some ([], data)"
| "session_frames dbg crc32c alloc max_length transfer_id priority i (chunk # chunks) data = do {
     (r, data) \<leftarrow> udp_session_handle_frame dbg crc32c alloc (frame_header transfer_id priority i (chunks = [])) chunk max_length data;
     (rs, data) \<leftarrow> session_frames dbg crc32c alloc max_length transfer_id priority (i + 1) chunks data;
     Some (r # rs, data)
   }"

text \<open>A frame that is not the last of its transfer delivers nothing.\<close>

lemma not_last_delivers_nothing:
  "udp_session_handle_frame dbg crc32c alloc header bytes max_length data = Some (r, data') \<Longrightarrow> \<not> vh_last_frame header \<Longrightarrow> r = Inr None"
  by (auto simp: udp_session_handle_frame_def split: if_splits option.splits sum.splits prod.splits Option.bind_splits)

text \<open>The packets of a transfer handed to a subscription one after the other.\<close>

fun handle_packets ::
  "('so, 's, 'i, 'd, 'e) udp_rx_env \<Rightarrow> IpAddr \<Rightarrow> NodeAddress \<Rightarrow> 'i \<Rightarrow> u8 list list \<Rightarrow> ('so, 's, 'd) UdpSubscription
   \<Rightarrow> (('e udp_error + (u8 list, 'i) udp_transfer option) list \<times> ('so, 's, 'd) UdpSubscription) option" where
  "handle_packets env from local_address now [] self = Some ([], self)"
| "handle_packets env from local_address now (packet # packets) self = do {
     (r, self) \<leftarrow> udp_handle_frame env packet from local_address now self;
     (rs, self) \<leftarrow> handle_packets env from local_address now packets self;
     Some (r # rs, self)
   }"

lemma udp_packets_Nil_iff [simp]: "udp_packets dest deadline transfer_id priority i chunks = [] \<longleftrightarrow> chunks = []"
  by (cases chunks) simp_all

lemma handle_packets_session:
  fixes since :: "'i \<Rightarrow> 'i \<Rightarrow> 'd::linorder"
  assumes tracker: "ux_tracker env = SessionDynamicMap since"
    and wf: "address_wf (NodeAddr sender)" and subnet: "na_subnet sender = na_subnet local_address"
    and "unat i + length chunks \<le> 2 ^ 31"
    and "sessions_sorted (us_sessions self)" and "new_transfer (us_sessions self) (na_node sender) (UdpTransferId transfer_id)"
    and "session_frames (ux_dbg env) (ux_crc32c env) (ux_alloc env (us_kind self)) (us_payload_size_max self) transfer_id priority i chunks
      (current_data (us_sessions self) (na_node sender)) = Some (rs, data)"
  shows "\<exists>sessions. handle_packets env (IpV4 (ip_from_node_address sender)) local_address now
      (map uf_data (udp_packets dest deadline transfer_id priority i chunks)) self =
    Some (map (map_sum id (map_option (\<lambda>p. \<lparr>tr_header = received_header (us_kind self) (frame_header transfer_id priority 0 False)
      (na_node sender) local_address now, tr_payload = p\<rparr>))) rs, self\<lparr>us_sessions := sessions\<rparr>)"
  using assms(4-)
proof (induction chunks arbitrary: i self rs)
  case Nil
  then show ?case by (auto intro!: exI [of _ "us_sessions self"])
next
  case (Cons chunk chunks)
  let ?header = "frame_header transfer_id priority i (chunks = [])"
  let ?handle = "udp_session_handle_frame (ux_dbg env) (ux_crc32c env) (ux_alloc env (us_kind self))"
  obtain r data1 rs1 where r: "?handle ?header chunk (us_payload_size_max self) (current_data (us_sessions self) (na_node sender)) = Some (r, data1)"
      and rs1: "session_frames (ux_dbg env) (ux_crc32c env) (ux_alloc env (us_kind self)) (us_payload_size_max self) transfer_id priority (i + 1)
        chunks data1 = Some (rs1, data)" and rs: "rs = r # rs1"
    using Cons.prems(4) by (auto simp: bind_eq_Some_conv)
  have tid: "vh_transfer_id ?header = UdpTransferId transfer_id" by (simp add: frame_header_def)
  have i: "unat i < 2 ^ 31" using Cons.prems(1) by simp
  obtain sessions where step: "handle_sane_frame env ?header chunk (na_node sender) local_address now self =
      Some (map_sum id (map_option (\<lambda>p. \<lparr>tr_header = received_header (us_kind self) ?header (na_node sender) local_address now, tr_payload = p\<rparr>)) r,
        self\<lparr>us_sessions := sessions\<rparr>)" "sessions_sorted sessions" "current_data sessions (na_node sender) = data1"
      "r = Inr None \<longrightarrow> new_transfer sessions (na_node sender) (UdpTransferId transfer_id)"
    using handle_sane_frame_step [OF tracker Cons.prems(2) _ r] Cons.prems(3) tid by metis
  have header: "received_header (us_kind self) ?header (na_node sender) local_address now =
      received_header (us_kind self) (frame_header transfer_id priority 0 False) (na_node sender) local_address now"
    by (cases "us_kind self") (simp_all add: frame_header_def)
  show ?case
  proof (cases "chunks = []")
    case True
    then show ?thesis
      using step(1) rs1 rs header udp_handle_packet [OF wf subnet i, of env transfer_id priority True chunk now self]
      by (auto simp: id_def intro!: exI [of _ sessions])
  next
    case False
    then have new: "new_transfer sessions (na_node sender) (UdpTransferId transfer_id)" and "r = Inr None"
      using step(4) not_last_delivers_nothing [OF r] by (auto simp: frame_header_def)
    have "unat (i + 1) = unat i + 1" using i by (simp add: unat_word_ariths)
    then have "unat (i + 1) + length chunks \<le> 2 ^ 31" using Cons.prems(1) by simp
    then obtain sessions' where "handle_packets env (IpV4 (ip_from_node_address sender)) local_address now
        (map uf_data (udp_packets dest deadline transfer_id priority (i + 1) chunks)) (self\<lparr>us_sessions := sessions\<rparr>) =
      Some (map (map_sum id (map_option (\<lambda>p. \<lparr>tr_header = received_header (us_kind self) (frame_header transfer_id priority 0 False)
        (na_node sender) local_address now, tr_payload = p\<rparr>))) rs1, self\<lparr>us_sessions := sessions'\<rparr>)"
      using Cons.IH [of "i + 1" "self\<lparr>us_sessions := sessions\<rparr>" rs1] step(2,3) new rs1 by (auto simp: id_def)
    then show ?thesis
      using step(1) rs False header udp_handle_packet [OF wf subnet i, of env transfer_id priority False chunk now self]
      by (auto simp: id_def intro!: exI [of _ sessions'])
  qed
qed

section \<open>Which transfers a session delivers\<close>

text \<open>One frame, and two frames.\<close>

lemma session_single:
  assumes "length p \<le> max_length" and "alloc (length p) \<noteq> None"
  shows "session_frames dbg crc32c alloc max_length transfer_id priority 0 [p] data = Some ([Inr (Some p)], data)"
  using assms by (auto simp: udp_session_handle_frame_def frame_header_def)

lemma session_two:
  assumes "payload = a @ b" and "length payload \<le> max_length" and "alloc max_length = Some capacity" and "max_length \<le> capacity"
    and "4 \<le> length payload" and "n = length payload - 4"
  shows "session_frames dbg crc32c alloc max_length transfer_id priority 0 [a, b] data =
    Some ([Inr None, Inr (if crc32c (take n payload) = of_le_bytes (drop n payload) then Some (take n payload) else None)],
      data\<lparr>sd_buildup := None\<rparr>)"
  using assms
  by (simp add: udp_session_handle_frame_def frame_header_def udp_buildup_new_def udp_buildup_push_def finish_reassembly_def Let_def
      del: take_append drop_append)

text \<open>From the third frame on nothing is delivered: the index that the reassembly expects is still that of the second frame.\<close>

lemma session_beyond_two:
  assumes "1 < unat i" and "unat i + length chunks \<le> 2 ^ 31" and "\<And>b. sd_buildup data = Some b \<Longrightarrow> ub_next_frame_index b = 1"
  shows "\<exists>data'. session_frames dbg crc32c alloc max_length transfer_id priority i chunks data =
    Some (replicate (length chunks) (Inr None :: 'e udp_error + u8 list option), data')"
  using assms
proof (induction chunks arbitrary: i data)
  case (Cons chunk chunks)
  have i: "i \<noteq> 0" "i \<noteq> 1" using Cons.prems(1) by auto
  then have push: "udp_buildup_push (frame_header transfer_id priority i eot) chunk b = (Inl ErrIndex, b)"
    if "sd_buildup data = Some b" for b eot using Cons.prems(3) [OF that] by (simp add: udp_buildup_push_def frame_header_def)
  obtain data1 where "udp_session_handle_frame dbg crc32c alloc (frame_header transfer_id priority i (chunks = [])) chunk max_length data
      = Some (Inr None :: 'e udp_error + u8 list option, data1)" "sd_buildup data1 = None"
    using push i by (cases "sd_buildup data") (auto simp: udp_session_handle_frame_def frame_header_def Let_def)
  moreover have "unat (i + 1) = unat i + 1" using Cons.prems(2) by (simp add: unat_word_ariths)
  ultimately show ?case using Cons.IH [of "i + 1" data1] Cons.prems(1,2) by auto
qed simp

lemma session_three:
  assumes "length a \<le> max_length" and "alloc max_length = Some capacity" and "chunks \<noteq> []" and "length chunks + 2 \<le> 2 ^ 31"
  shows "\<exists>data'. session_frames dbg crc32c alloc max_length transfer_id priority 0 (a # b # chunks) data =
    Some (Inr None # Inr None # replicate (length chunks) (Inr None :: 'e udp_error + u8 list option), data')"
proof -
  define b1 where "b1 = \<lparr>ub_bytes = a, ub_capacity = capacity, ub_next_frame_index = 1, ub_priority = priority, ub_transfer_id = UdpTransferId transfer_id\<rparr>"
  have first: "udp_session_handle_frame dbg crc32c alloc (frame_header transfer_id priority 0 False) a max_length data
      = Some (Inr None :: 'e udp_error + u8 list option, data\<lparr>sd_buildup := Some b1\<rparr>)"
    using assms(1,2) by (simp add: udp_session_handle_frame_def frame_header_def udp_buildup_new_def b1_def)
  obtain data2 where second: "udp_session_handle_frame dbg crc32c alloc (frame_header transfer_id priority 1 False) b max_length
      (data\<lparr>sd_buildup := Some b1\<rparr>) = Some (Inr None :: 'e udp_error + u8 list option, data2)"
      "\<And>b. sd_buildup data2 = Some b \<Longrightarrow> ub_next_frame_index b = 1"
    by (cases "capacity < length a + length b") (auto simp: udp_session_handle_frame_def frame_header_def udp_buildup_push_def b1_def)
  have "unat (2 :: u32) = 2" by simp
  then have "1 < unat (2 :: u32)" "unat (2 :: u32) + length chunks \<le> 2 ^ 31" using assms(4) by linarith+
  then obtain data' where "session_frames dbg crc32c alloc max_length transfer_id priority 2 chunks data2 =
      Some (replicate (length chunks) (Inr None :: 'e udp_error + u8 list option), data')"
    using session_beyond_two [where data = data2 and i = 2] second(2) by blast
  then show ?thesis using first second(1) assms(3) by auto
qed

section \<open>Which transfers are delivered\<close>

text \<open>Packets pushed in time onto the recording socket.\<close>

lemma send_packets_recorded:
  assumes "\<And>c. compare deadline (fst (now c)) = Greater" and "\<And>frame. frame \<in> set frames \<Longrightarrow> uf_deadline frame = deadline"
  shows "\<exists>clock'. send_packets compare now recording_socket frames socket clock =
    (Inr (), socket @ map (\<lambda>frame. (uf_data frame, uf_remote_address frame)) frames, clock')"
  using assms(2)
proof (induction frames arbitrary: socket clock)
  case (Cons frame frames)
  obtain t c where "now clock = (t, c)" by fastforce
  then show ?case
    using Cons.IH [of "socket @ [(uf_data frame, uf_remote_address frame)]" c] Cons.prems assms(1) [of clock]
    by (simp add: recording_socket_def)
qed simp

lemma udp_packets_fields:
  "frame \<in> set (udp_packets dest deadline transfer_id priority i chunks) \<Longrightarrow> uf_deadline frame = deadline \<and> uf_remote_address frame = dest"
  by (induction dest deadline transfer_id priority i chunks rule: udp_packets.induct) auto

text \<open>A subscription that is for a transfer of \<open>sender\<close> with header \<open>h\<close>.\<close>

fun udp_subscribed :: "UdpSubscriptionKind \<Rightarrow> NodeAddress \<Rightarrow> NodeAddress \<Rightarrow> 'i udp_header \<Rightarrow> bool" where
  "udp_subscribed kind sender receiver (Message h) \<longleftrightarrow> kind = KindMessage (mh_subject h) \<and> mh_source h = Some (na_node sender)"
| "udp_subscribed kind sender receiver (Request h) \<longleftrightarrow>
     kind = KindRequest (sh_service h) \<and> sh_source h = na_node sender \<and> sh_destination h = na_node receiver"
| "udp_subscribed kind sender receiver (Response h) \<longleftrightarrow>
     kind = KindResponse (sh_service h) \<and> sh_source h = na_node sender \<and> sh_destination h = na_node receiver"

lemma received_header_of:
  assumes "udp_subscribed kind sender receiver h"
  shows "received_header kind (frame_header (udp_tid_bits (header_transfer_id h)) (header_priority h) i eot) (na_node sender) receiver now
    = set_timestamp now h"
  using assms by (cases h) (auto simp: frame_header_def)

text \<open>The number of pieces.\<close>

lemma udp_chunks_cases:
  assumes "0 < m"
  obtains "length p < m" "udp_chunks m p = [p]"
  | "m \<le> length p" "length p < 2 * m" "udp_chunks m p = [take m p, drop m p]"
  | a b c cs where "2 * m \<le> length p" "udp_chunks m p = a # b # c # cs" "length a = m"
proof -
  have chunks: "udp_chunks m q = (if length q < m then [q] else take m q # udp_chunks m (drop m q))" for q
    using assms by (subst udp_chunks.simps) simp
  have ne: "udp_chunks m q \<noteq> []" for q by (subst chunks) simp
  consider "length p < m" | "m \<le> length p" "length p < 2 * m" | "2 * m \<le> length p" by linarith
  then show thesis
  proof cases
    case 1
    then show thesis using that(1) chunks [of p] by simp
  next
    case 2
    moreover from this have "length (drop m p) < m" by simp
    then have "udp_chunks m (drop m p) = [drop m p]" by (subst chunks) simp
    ultimately show thesis using that(2) chunks [of p] by simp
  next
    case 3
    obtain c cs where c: "udp_chunks m (drop m (drop m p)) = c # cs" using ne by (cases "udp_chunks m (drop m (drop m p))") auto
    have "udp_chunks m (drop m p) = take m (drop m p) # c # cs" using 3 c by (subst chunks) simp
    then have "udp_chunks m p = take m p # take m (drop m p) # c # cs" using 3 assms by (subst chunks) simp
    then show thesis using that(3) 3 by simp
  qed
qed

lemma length_udp_chunks: "0 < m \<Longrightarrow> length (udp_chunks m p) \<le> Suc (length p)"
proof (induction m p rule: udp_chunks.induct)
  case (1 m p)
  then show ?case by (subst udp_chunks.simps) auto
qed

text \<open>The results of a session for the packets of a payload.\<close>

lemma session_delivers_iff:
  fixes p :: "u8 list"
  assumes "4 \<le> m" and "length p + 4 \<le> max_length"
    and alloc: "\<And>n. n \<le> max_length \<Longrightarrow> \<exists>capacity. alloc n = Some capacity \<and> n \<le> capacity"
    and payload: "payload = p @ (if length p \<le> m then [] else le_bytes 4 (crc32c p))"
    and "length (udp_chunks m payload) \<le> 2 ^ 31"
  shows "\<exists>rs data'. session_frames dbg crc32c alloc max_length transfer_id priority 0 (udp_chunks m payload) data = Some (rs, data') \<and>
    ((Inr (Some p) :: 'e udp_error + u8 list option) \<in> set rs \<longleftrightarrow> length p < m \<or> m < length p \<and> length p + 4 < 2 * m)"
proof -
  obtain capacity where capacity: "alloc max_length = Some capacity" "max_length \<le> capacity" using alloc by blast
  have "length payload \<le> max_length" using assms(2) payload by auto
  have "0 < m" using assms(1) by simp
  then show ?thesis
  proof (cases rule: udp_chunks_cases [of m payload])
    case 1
    then have "length p < m" "payload = p" using payload by (auto split: if_splits)
    moreover have "session_frames dbg crc32c alloc max_length transfer_id priority 0 [p] data =
        Some ([Inr (Some p) :: 'e udp_error + u8 list option], data)"
      by (rule session_single) (use alloc [of "length p"] assms(2) in auto)
    ultimately show ?thesis using 1 by (auto simp del: session_frames.simps)
  next
    case 2
    let ?n = "length payload - 4"
    have "session_frames dbg crc32c alloc max_length transfer_id priority 0 (udp_chunks m payload) data =
      Some ([Inr None, Inr (if crc32c (take ?n payload) = of_le_bytes (drop ?n payload) then Some (take ?n payload) else None)],
        data\<lparr>sd_buildup := None\<rparr>)"
      unfolding 2(3) by (rule session_two) (use capacity 2 assms(1) \<open>length payload \<le> max_length\<close> in simp_all)
    moreover have "take ?n payload = p \<and> crc32c p = of_le_bytes (drop ?n payload) \<longleftrightarrow> m < length p"
    proof (cases "length p \<le> m")
      case True
      then have "payload = p" "p \<noteq> []" using payload 2 assms(1) by auto
      then have "length (take ?n payload) < length p" by simp
      then show ?thesis using True by auto
    next
      case False
      then have "payload = p @ le_bytes 4 (crc32c p)" using payload by simp
      then show ?thesis using False of_le_bytes_le_bytes [of 4 "crc32c p"] by simp
    qed
    moreover have "m < length p \<longleftrightarrow> length p < m \<or> m < length p \<and> length p + 4 < 2 * m" using 2 payload by (auto split: if_splits)
    ultimately show ?thesis by (auto split: if_splits)
  next
    case (3 a b c cs)
    then have "\<not> (length p < m \<or> m < length p \<and> length p + 4 < 2 * m)" using payload assms(1) by (auto split: if_splits)
    moreover have "\<exists>data'. session_frames dbg crc32c alloc max_length transfer_id priority 0 (a # b # c # cs) data =
        Some (Inr None # Inr None # replicate (length (c # cs)) (Inr None :: 'e udp_error + u8 list option), data')"
      by (rule session_three) (use 3 capacity(1) assms(5) \<open>length payload \<le> max_length\<close> in simp_all)
    ultimately show ?thesis using 3 by (auto simp del: session_frames.simps)
  qed
qed

text \<open>
C9: A transfer sent over UDP is delivered exactly when its payload needs at most two frames and does not fill one exactly. A
transfer is pushed before its deadline, and its packets reach a receiver in the same subnet that is subscribed to it, has not seen its
identifier, has enough memory and allows a payload that is four bytes longer. Then handling the packets in order does not panic, and it yields
the transfer, with its payload and its header at the time of reception, if and only if the payload is shorter than the room \<open>m\<close> of a
frame, or longer than \<open>m\<close> and with its four CRC bytes shorter than \<open>2 * m\<close>.
\<close>

theorem udp_delivered_iff:
  fixes since :: "'i \<Rightarrow> 'i \<Rightarrow> 'd::linorder" and env :: "('so, _, 'i, 'd, 'e) udp_rx_env"
  assumes "frame_vec_law MTU fv" and "m = MTU - UDP_HEADER_SIZE" and "4 \<le> m" and "length p + 4 < 2 ^ 31"
    and "\<forall>c. compare (header_timestamp h) (fst (now_fn c)) = Greater"
    and "ut_socket tx = []" and "address_wf (NodeAddr (ut_address tx))" and "na_subnet (ut_address tx) = na_subnet receiver"
    and "ux_tracker env = SessionDynamicMap since" and "sessions_sorted (us_sessions sub)"
    and "udp_subscribed (us_kind sub) (ut_address tx) receiver h"
    and "new_transfer (us_sessions sub) (na_node (ut_address tx)) (header_transfer_id h)"
    and "length p + 4 \<le> us_payload_size_max sub"
    and "\<forall>n. n \<le> us_payload_size_max sub \<longrightarrow> (\<exists>capacity. ux_alloc env (us_kind sub) n = Some capacity \<and> n \<le> capacity)"
  shows "\<exists>tx' clock' rs sub'.
    udp_push dbg MTU fv (ux_crc32c env) compare now_fn (recording_socket :: (_, 'e) send_to) \<lparr>tr_header = h, tr_payload = p\<rparr> tx clock =
      Some (Inr (), tx', clock') \<and>
    handle_packets env (IpV4 (ip_from_node_address (ut_address tx))) receiver now (map fst (ut_socket tx')) sub = Some (rs, sub') \<and>
    (Inr (Some \<lparr>tr_header = set_timestamp now h, tr_payload = p\<rparr>) \<in> set rs \<longleftrightarrow>
      length p < m \<or> m < length p \<and> length p + 4 < 2 * m)"
proof -
  define payload where "payload = p @ (if length p \<le> m then [] else le_bytes 4 (ux_crc32c env p))"
  have mtu: "UDP_HEADER_SIZE < MTU" "length p + UDP_HEADER_SIZE \<le> MTU \<longleftrightarrow> length p \<le> m" using assms(2,3) by auto
  have chunks: "length (udp_chunks m payload) \<le> 2 ^ 31"
    using length_udp_chunks [of m payload] assms(3,4) by (auto simp: payload_def split: if_splits)
  let ?t = "udp_tid_bits (header_transfer_id h)" and ?dest = "udp_destination (ut_address tx) h"
  let ?packets = "udp_packets ?dest (header_timestamp h) ?t (header_priority h) 0 (udp_chunks m payload)"
  obtain clock' where "send_packets compare now_fn (recording_socket :: (_, 'e) send_to) ?packets [] clock =
      (Inr (), map (\<lambda>frame. (uf_data frame, uf_remote_address frame)) ?packets, clock')"
    using send_packets_recorded [where compare = compare and deadline = "header_timestamp h" and frames = ?packets and now = now_fn
        and socket = "[]" and clock = clock] assms(5) udp_packets_fields by fastforce
  note sent = this
  let ?transfer = "\<lparr>tr_header = h, tr_payload = p\<rparr>"
  have pl: "payload = tr_payload ?transfer @
      (if length (tr_payload ?transfer) + UDP_HEADER_SIZE \<le> MTU then [] else le_bytes 4 (ux_crc32c env (tr_payload ?transfer)))"
    by (simp add: payload_def mtu(2))
  have cl: "length (udp_chunks (MTU - UDP_HEADER_SIZE) payload) \<le> 2 ^ 32" using chunks assms(2) by simp
  have push: "udp_push dbg MTU fv (ux_crc32c env) compare now_fn (recording_socket :: (_, 'e) send_to) ?transfer tx clock =
      Some (Inr (), tx\<lparr>ut_socket := map (\<lambda>frame. (uf_data frame, uf_remote_address frame)) ?packets\<rparr>, clock')"
    by (subst udp_push_packets [where payload = payload])
      ((rule assms(1) mtu(1) pl cl)+, use sent assms(2,6) in \<open>simp add: Let_def\<close>)
  obtain rs data' where rs: "session_frames (ux_dbg env) (ux_crc32c env) (ux_alloc env (us_kind sub)) (us_payload_size_max sub) ?t
        (header_priority h) 0 (udp_chunks m payload) (current_data (us_sessions sub) (na_node (ut_address tx))) = Some (rs, data')"
      "(Inr (Some p) :: 'e udp_error + u8 list option) \<in> set rs \<longleftrightarrow> length p < m \<or> m < length p \<and> length p + 4 < 2 * m"
    using session_delivers_iff [where crc32c = "ux_crc32c env" and alloc = "ux_alloc env (us_kind sub)", OF assms(3,13) _ payload_def chunks]
      assms(14) by blast
  let ?f = "map_sum id (map_option (\<lambda>p. \<lparr>tr_header = set_timestamp now h, tr_payload = p\<rparr>)) :: 'e udp_error + u8 list option \<Rightarrow> _"
  obtain sessions where "handle_packets env (IpV4 (ip_from_node_address (ut_address tx))) receiver now (map uf_data ?packets) sub =
      Some (map ?f rs, sub\<lparr>us_sessions := sessions\<rparr>)"
    using handle_packets_session [OF assms(9,7,8) _ assms(10) _ rs(1), of now ?dest "header_timestamp h"] chunks assms(12)
      received_header_of [OF assms(11)] by auto
  moreover have "Inr (Some \<lparr>tr_header = set_timestamp now h, tr_payload = p\<rparr>) \<in> set (map ?f rs) \<longleftrightarrow> Inr (Some p) \<in> set rs"
  proof -
    have "?f x = Inr (Some \<lparr>tr_header = set_timestamp now h, tr_payload = p\<rparr>) \<longleftrightarrow> x = Inr (Some p)" for x
      by (cases x; cases "projr x") auto
    then show ?thesis unfolding set_map image_iff by metis
  qed
  ultimately show ?thesis using push rs(2) by (auto simp: comp_def)
qed

definition example_udp_env ::
  "(unit, (UdpNodeId, nat, nat, UdpTransferId, UdpSessionData) session_entries, nat, nat, unit) udp_rx_env" where
  "example_udp_env = \<lparr>ux_dbg = True, ux_mtu = 32, ux_bind_socket = (\<lambda>_ _. Inr ()), ux_join_multicast_v4 = (\<lambda>_ _ s. (Inr (), s)),
     ux_recv_from = (\<lambda>_ s. (Inl IoWouldBlock, s)), ux_alloc = (\<lambda>_ n. Some n), ux_crc32c = (\<lambda>bytes. of_nat (length bytes)),
     ux_tracker = SessionDynamicMap (-), ux_default = session_dynamic_default\<rparr>"

definition example_udp_subscription ::
  "(unit, (UdpNodeId, nat, nat, UdpTransferId, UdpSessionData) session_entries, nat) UdpSubscription" where
  "example_udp_subscription = \<lparr>us_socket = (), us_kind = KindMessage (SubjectId 100), us_payload_size_max = 64, us_timeout = 5,
     us_sessions = []\<rparr>"

text \<open>Pushing \<open>n\<close> bytes and handling the packets.\<close>

definition example_udp_run :: "nat \<Rightarrow> (unit udp_error + (u8 list, nat) udp_transfer option) list option" where
  "example_udp_run n = do {
     (r, tx, clock) \<leftarrow> udp_push True 32 (list_frame_vec 32) (ux_crc32c example_udp_env) compare_nat (\<lambda>c. (3, c))
       (recording_socket :: (_, unit) send_to) \<lparr>tr_header = tr_header example_udp_transfer, tr_payload = replicate n 7\<rparr>
       example_udp_transmitter ();
     (rs, sub) \<leftarrow> handle_packets example_udp_env (IpV4 (ip_from_node_address (ut_address example_udp_transmitter)))
       \<lparr>na_prefix = 0xff, na_subnet = 3, na_node = UdpNodeId 43\<rparr> 4 (map fst (ut_socket tx)) example_udp_subscription;
     Some rs
   }"

text \<open>In frames with room for eight bytes, ten bytes are delivered, and eight bytes are not.\<close>

theorem udp_delivered_iff_witness:
  "(\<exists>rs. example_udp_run 10 = Some rs \<and>
     Inr (Some \<lparr>tr_header = set_timestamp 4 (tr_header example_udp_transfer), tr_payload = replicate 10 7\<rparr>) \<in> set rs) \<and>
   (\<exists>rs. example_udp_run 8 = Some rs \<and>
     Inr (Some \<lparr>tr_header = set_timestamp 4 (tr_header example_udp_transfer), tr_payload = replicate 8 7\<rparr>) \<notin> set rs)"
proof -
  let ?h = "tr_header example_udp_transfer" and ?rx = "\<lparr>na_prefix = 0xff, na_subnet = 3, na_node = UdpNodeId 43\<rparr>"
  have "\<exists>rs. example_udp_run n = Some rs \<and>
      (Inr (Some \<lparr>tr_header = set_timestamp 4 ?h, tr_payload = replicate n 7\<rparr>) \<in> set rs \<longleftrightarrow> n < 8 \<or> 8 < n \<and> n + 4 < 2 * 8)"
    if "n \<le> 10" for n
  proof -
    have p: "length (replicate n (7 :: u8)) = n" by simp
    have l: "8 = 32 - UDP_HEADER_SIZE" "(4::nat) \<le> 8" "length (replicate n (7 :: u8)) + 4 < 2 ^ 31"
      "\<forall>c. compare_nat (header_timestamp ?h) (fst ((\<lambda>c. (3, c)) c)) = Greater" "ut_socket example_udp_transmitter = []"
      "address_wf (NodeAddr (ut_address example_udp_transmitter))" "na_subnet (ut_address example_udp_transmitter) = na_subnet ?rx"
      "ux_tracker example_udp_env = SessionDynamicMap (-)" "sessions_sorted (us_sessions example_udp_subscription)"
      "udp_subscribed (us_kind example_udp_subscription) (ut_address example_udp_transmitter) ?rx ?h"
      "new_transfer (us_sessions example_udp_subscription) (na_node (ut_address example_udp_transmitter)) (header_transfer_id ?h)"
      "length (replicate n (7 :: u8)) + 4 \<le> us_payload_size_max example_udp_subscription"
      "\<forall>n. n \<le> us_payload_size_max example_udp_subscription \<longrightarrow>
        (\<exists>capacity. ux_alloc example_udp_env (us_kind example_udp_subscription) n = Some capacity \<and> n \<le> capacity)"
      using that by (simp_all add: UDP_HEADER_SIZE_def example_udp_transfer_def compare_nat_def example_udp_transmitter_def
          example_udp_env_def example_udp_subscription_def new_transfer_def)
    from udp_delivered_iff [where compare = compare_nat and now_fn = "\<lambda>c. (3, c)" and receiver = ?rx and dbg = True and clock = "()" and now = 4,
        OF list_frame_vec_law l] show ?thesis
      unfolding example_udp_run_def p by fastforce
  qed
  from this [of 10] this [of 8] show ?thesis by simp
qed

section \<open>Panics\<close>



lemma handle_sane_frame_panic:
  fixes since :: "'i \<Rightarrow> 'i \<Rightarrow> 'd::linorder" and env :: "('so, _, 'i, 'd, 'e) udp_rx_env"
  assumes "ux_tracker env = SessionDynamicMap since" and "new_transfer (us_sessions self) from (vh_transfer_id header)"
    and "(udp_session_handle_frame (ux_dbg env) (ux_crc32c env) (ux_alloc env (us_kind self)) header bytes (us_payload_size_max self)
      (current_data (us_sessions self) from) :: (('e udp_error + u8 list option) \<times> UdpSessionData) option) = None"
  shows "handle_sane_frame env header bytes from local_address now self = None"
  using assms
  by (auto simp: handle_sane_frame_def new_transfer_def current_data_def SessionDynamicMap_def dynamic_get_mut_or_insert_with_def
      set_last_activity_def session_new_def not_less not_le Let_def split: option.splits)



text \<open>
C36: In a build with overflow checks two packets can make the UDP receiver panic. When a new transfer comes in two frames
that together hold fewer than four bytes, the receiver subtracts four from their length: it panics if overflow is checked, and otherwise
ignores the transfer.
\<close>

theorem udp_short_transfer_panics:
  fixes since :: "'i \<Rightarrow> 'i \<Rightarrow> 'd::linorder" and env :: "('so, _, 'i, 'd, 'e) udp_rx_env"
  assumes "ux_tracker env = SessionDynamicMap since" and "address_wf (NodeAddr sender)" and "na_subnet sender = na_subnet receiver"
    and "sessions_sorted (us_sessions sub)" and "new_transfer (us_sessions sub) (na_node sender) (UdpTransferId transfer_id)"
    and "length a + length b < 4" and "4 \<le> us_payload_size_max sub"
    and "ux_alloc env (us_kind sub) (us_payload_size_max sub) = Some capacity" and "us_payload_size_max sub \<le> capacity"
  shows "map_option fst (handle_packets env (IpV4 (ip_from_node_address sender)) receiver now
      [udp_header_as_bytes (udp_frame_header transfer_id priority 0) @ a,
       udp_header_as_bytes (udp_frame_header transfer_id priority (LAST_FRAME OR 1)) @ b] sub) =
    (if ux_dbg env then None else Some [Inr None, Inr None])"
proof -
  define buildup where "buildup = \<lparr>ub_bytes = a, ub_capacity = capacity, ub_next_frame_index = 1, ub_priority = priority,
    ub_transfer_id = UdpTransferId transfer_id\<rparr>"
  let ?handle = "udp_session_handle_frame (ux_dbg env) (ux_crc32c env) (ux_alloc env (us_kind sub))
    :: _ \<Rightarrow> _ \<Rightarrow> _ \<Rightarrow> _ \<Rightarrow> (('e udp_error + u8 list option) \<times> UdpSessionData) option"
  let ?h0 = "frame_header transfer_id priority 0 False" and ?h1 = "frame_header transfer_id priority 1 True"
  have tid: "vh_transfer_id ?h0 = UdpTransferId transfer_id" "vh_transfer_id ?h1 = UdpTransferId transfer_id" by (simp_all add: frame_header_def)
  have "?handle ?h0 a (us_payload_size_max sub) (current_data (us_sessions sub) (na_node sender))
      = Some (Inr None, (current_data (us_sessions sub) (na_node sender))\<lparr>sd_buildup := Some buildup\<rparr>)"
    using assms(6-8) by (simp add: udp_session_handle_frame_def frame_header_def udp_buildup_new_def buildup_def)
  from handle_sane_frame_step [OF assms(1,4) _ this, of receiver now] obtain sessions where
    first: "handle_sane_frame env ?h0 a (na_node sender) receiver now sub = Some (Inr None, sub\<lparr>us_sessions := sessions\<rparr>)"
      "sessions_sorted sessions" "sd_buildup (current_data sessions (na_node sender)) = Some buildup"
      "new_transfer sessions (na_node sender) (UdpTransferId transfer_id)"
    using assms(5) tid by auto
  let ?data = "current_data sessions (na_node sender)"
  have second: "?handle ?h1 b (us_payload_size_max sub) ?data = (if ux_dbg env then None else Some (Inr None, ?data\<lparr>sd_buildup := None\<rparr>))"
    using assms(6,7,9) first(3)
    by (simp add: udp_session_handle_frame_def frame_header_def udp_buildup_push_def buildup_def finish_reassembly_def)
  have "map_option fst (handle_sane_frame env ?h1 b (na_node sender) receiver now (sub\<lparr>us_sessions := sessions\<rparr>)) =
      (if ux_dbg env then None else Some (Inr None))"
  proof (cases "ux_dbg env")
    case True
    then show ?thesis using handle_sane_frame_panic [OF assms(1), of "sub\<lparr>us_sessions := sessions\<rparr>" "na_node sender" ?h1 b] first(4) tid second by simp
  next
    case False
    then show ?thesis
      using handle_sane_frame_step [OF assms(1), of "sub\<lparr>us_sessions := sessions\<rparr>" "na_node sender" ?h1 b "Inr None" _ receiver now]
        first(2,4) tid second by fastforce
  qed
  then show ?thesis
    using first(1) udp_handle_packet [OF assms(2,3), of 0 env transfer_id priority False a now sub]
      udp_handle_packet [OF assms(2,3), of 1 env transfer_id priority True b now "sub\<lparr>us_sessions := sessions\<rparr>"]
    by (cases "ux_dbg env") auto
qed

theorem udp_short_transfer_panics_witness:
  "handle_packets example_udp_env (IpV4 (ip_from_node_address (ut_address example_udp_transmitter)))
     \<lparr>na_prefix = 0xff, na_subnet = 3, na_node = UdpNodeId 43\<rparr> 4
     [udp_header_as_bytes (udp_frame_header 7 Nominal 0) @ [], udp_header_as_bytes (udp_frame_header 7 Nominal (LAST_FRAME OR 1)) @ [1, 2]]
     example_udp_subscription = None"
proof -
  let ?rx = "\<lparr>na_prefix = 0xff, na_subnet = 3, na_node = UdpNodeId 43\<rparr>"
  have "map_option fst (handle_packets example_udp_env (IpV4 (ip_from_node_address (ut_address example_udp_transmitter))) ?rx 4
      [udp_header_as_bytes (udp_frame_header 7 Nominal 0) @ [], udp_header_as_bytes (udp_frame_header 7 Nominal (LAST_FRAME OR 1)) @ [1, 2]]
      example_udp_subscription) = (if ux_dbg example_udp_env then None else Some [Inr None, Inr None])"
    by (rule udp_short_transfer_panics [where since = "(-)" and capacity = 64])
      (simp_all add: example_udp_env_def example_udp_subscription_def example_udp_transmitter_def new_transfer_def)
  then show ?thesis by (simp add: example_udp_env_def)
qed

end
