(* ===== verification/Bls_Operator.thy ===== *)
theory Bls_Operator
  imports Prelude
begin

text \<open>
  Sets of bit lengths (canadensis\_bit\_length\_set), from which the code generator takes sizes and alignments of data types. An
  operator describes a set of lengths; minimum, maximum and remainders are calculated without expanding the set.

  A \<^verbatim>\<open>u64\<close> is a natural number below \<open>2 ^ 64\<close>; an operation that exceeds it panics in builds that check overflow (\<open>dbg\<close>) and
  wraps in others. A \<^verbatim>\<open>BTreeSet\<close> is the ascending list of its elements. \<^verbatim>\<open>usize\<close> has 64 bits on the machines that run the
  generator. The combinatorial iterators of \<^verbatim>\<open>itertools\<close> and the least common multiple of \<^verbatim>\<open>num_integer\<close> are parameters; their
  documented behaviour is \<open>itertools_law\<close> of the theory \<^verbatim>\<open>Bls_Exact\<close>.
\<close>

section \<open>Arithmetic and sets of the standard library\<close>

definition u64_result :: "bool \<Rightarrow> nat \<Rightarrow> nat option" where
  "u64_result dbg n = (if n < 2 ^ 64 then Some n else if dbg then None else Some (n mod 2 ^ 64))"

definition u64_rem :: "nat \<Rightarrow> nat \<Rightarrow> nat option" where
  "u64_rem a b = (if b = 0 then None else Some (a mod b))"

fun u64_sum :: "bool \<Rightarrow> nat \<Rightarrow> nat list \<Rightarrow> nat option" where
  "u64_sum dbg acc [] = Some acc"
| "u64_sum dbg acc (x # xs) = do { acc \<leftarrow> u64_result dbg (acc + x); u64_sum dbg acc xs }"

definition btree_collect :: "nat list \<Rightarrow> nat list" where
  "btree_collect xs = sort (remdups xs)"

fun try_map :: "('a \<Rightarrow> 'b option) \<Rightarrow> 'a list \<Rightarrow> 'b list option" where
  "try_map f [] = Some []"
| "try_map f (x # xs) = do { y \<leftarrow> f x; ys \<leftarrow> try_map f xs; Some (y # ys) }"

lemma try_map_cong [fundef_cong]: "xs = ys \<Longrightarrow> (\<And>x. x \<in> set ys \<Longrightarrow> f x = g x) \<Longrightarrow> try_map f xs = try_map g ys"
  by (induction xs arbitrary: ys) auto

record itertools =
  it_combinations :: "nat \<Rightarrow> nat list \<Rightarrow> nat list list"
  it_product :: "nat list list \<Rightarrow> nat list list"
  it_lcm :: "nat \<Rightarrow> nat \<Rightarrow> nat option"

section \<open>Operators\<close>

datatype Operator =
  Leaf "nat list"
| Padding Operator nat
| Concatenate "Operator list"
| Repeat Operator nat
| RangeRepeat Operator nat
| Union "Operator list"

definition align_up :: "bool \<Rightarrow> nat \<Rightarrow> nat \<Rightarrow> nat option" where
  "align_up dbg v alignment =
     (if alignment = 0 then None
      else do { s \<leftarrow> u64_result dbg (v + (alignment - 1)); Some (s div alignment * alignment) })"

definition set_min :: "nat list \<Rightarrow> nat option" where
  "set_min values = (case values of [] \<Rightarrow> None | v # _ \<Rightarrow> Some v)"

definition set_max :: "nat list \<Rightarrow> nat option" where
  "set_max values = (if values = [] then None else Some (last values))"

fun op_min :: "bool \<Rightarrow> Operator \<Rightarrow> nat option" where
  "op_min dbg (Leaf values) = set_min values"
| "op_min dbg (Padding child alignment) = do { m \<leftarrow> op_min dbg child; align_up dbg m alignment }"
| "op_min dbg (Concatenate children) = do { ms \<leftarrow> try_map (op_min dbg) children; u64_sum dbg 0 ms }"
| "op_min dbg (Repeat child copies) = do { m \<leftarrow> op_min dbg child; u64_result dbg (m * copies) }"
| "op_min dbg (RangeRepeat child copies) = Some 0"
| "op_min dbg (Union children) = do { ms \<leftarrow> try_map (op_min dbg) children; if ms = [] then None else Some (Min (set ms)) }"

fun op_max :: "bool \<Rightarrow> Operator \<Rightarrow> nat option" where
  "op_max dbg (Leaf values) = set_max values"
| "op_max dbg (Padding child alignment) = do { m \<leftarrow> op_max dbg child; align_up dbg m alignment }"
| "op_max dbg (Concatenate children) = do { ms \<leftarrow> try_map (op_max dbg) children; u64_sum dbg 0 ms }"
| "op_max dbg (Repeat child copies) = do { m \<leftarrow> op_max dbg child; u64_result dbg (m * copies) }"
| "op_max dbg (RangeRepeat child copies) = do { m \<leftarrow> op_max dbg child; u64_result dbg (m * copies) }"
| "op_max dbg (Union children) = do { ms \<leftarrow> try_map (op_max dbg) children; if ms = [] then None else Some (Max (set ms)) }"

text \<open>The sums of the elements of each list, reduced by \<open>divisor\<close>.\<close>

definition sums_rem :: "bool \<Rightarrow> nat \<Rightarrow> nat list list \<Rightarrow> nat list option" where
  "sums_rem dbg divisor = try_map (\<lambda>values. do { s \<leftarrow> u64_sum dbg 0 values; u64_rem s divisor })"

definition equivalent_count :: "bool \<Rightarrow> nat \<Rightarrow> nat \<Rightarrow> nat option" where
  "equivalent_count dbg copies divisor = do {
     r \<leftarrow> u64_rem copies divisor;
     n \<leftarrow> u64_result dbg (divisor + r);
     let equivalent = min copies n;
     if dbg \<and> copies mod divisor \<noteq> equivalent mod divisor then None else Some equivalent
   }"

text \<open>The least common multiple is used by a debug assertion only, but its calculation may overflow.\<close>

fun op_modulo :: "bool \<Rightarrow> itertools \<Rightarrow> nat \<Rightarrow> Operator \<Rightarrow> nat list option" where
  "op_modulo dbg it divisor (Leaf values) = map_option btree_collect (try_map (\<lambda>length. u64_rem length divisor) values)"
| "op_modulo dbg it divisor (Padding child alignment) = do {
     m \<leftarrow> op_max dbg (Padding child alignment);
     lcm \<leftarrow> it_lcm it alignment divisor;
     mods \<leftarrow> op_modulo dbg it divisor child;
     values \<leftarrow> try_map (\<lambda>v. if dbg \<and> \<not> (v \<le> m \<and> v < lcm) then None
       else do { a \<leftarrow> align_up dbg v alignment; u64_rem a divisor }) mods;
     Some (btree_collect values)
   }"
| "op_modulo dbg it divisor (Concatenate children) = do {
     child_mods \<leftarrow> try_map (op_modulo dbg it divisor) children;
     values \<leftarrow> sums_rem dbg divisor (it_product it child_mods);
     Some (btree_collect values)
   }"
| "op_modulo dbg it divisor (Repeat child copies) = do {
     n \<leftarrow> equivalent_count dbg copies divisor;
     mods \<leftarrow> op_modulo dbg it divisor child;
     values \<leftarrow> sums_rem dbg divisor (it_combinations it n mods);
     Some (btree_collect values)
   }"
| "op_modulo dbg it divisor (RangeRepeat child copies) = do {
     single \<leftarrow> op_modulo dbg it divisor child;
     n \<leftarrow> equivalent_count dbg copies divisor;
     values \<leftarrow> try_map (\<lambda>k. sums_rem dbg divisor (it_combinations it k single)) [0..<n + 1];
     Some (btree_collect (concat values))
   }"
| "op_modulo dbg it divisor (Union children) = do {
     child_mods \<leftarrow> try_map (op_modulo dbg it divisor) children;
     Some (btree_collect (concat child_mods))
   }"

fun op_expand :: "bool \<Rightarrow> itertools \<Rightarrow> Operator \<Rightarrow> nat list option" where
  "op_expand dbg it (Leaf values) = Some values"
| "op_expand dbg it (Padding child alignment) = do {
     lengths \<leftarrow> op_expand dbg it child;
     values \<leftarrow> try_map (\<lambda>length. align_up dbg length alignment) lengths;
     Some (btree_collect values)
   }"
| "op_expand dbg it (Concatenate children) = do {
     child_values \<leftarrow> try_map (op_expand dbg it) children;
     values \<leftarrow> try_map (u64_sum dbg 0) (it_product it child_values);
     Some (btree_collect values)
   }"
| "op_expand dbg it (Repeat child copies) = do {
     lengths \<leftarrow> op_expand dbg it child;
     values \<leftarrow> try_map (u64_sum dbg 0) (it_combinations it copies lengths);
     Some (btree_collect values)
   }"
| "op_expand dbg it (RangeRepeat child copies) = do {
     ch \<leftarrow> op_expand dbg it child;
     values \<leftarrow> try_map (\<lambda>k. try_map (u64_sum dbg 0) (it_combinations it k ch)) [0..<copies + 1];
     Some (btree_collect (concat values))
   }"
| "op_expand dbg it (Union children) = do {
     values \<leftarrow> try_map (op_expand dbg it) children;
     Some (btree_collect (concat values))
   }"

fun structural_equal :: "Operator \<Rightarrow> Operator \<Rightarrow> bool" where
  "structural_equal (Leaf self_values) (Leaf other_values) \<longleftrightarrow> self_values = other_values"
| "structural_equal (Padding self_child self_alignment) (Padding other_child other_alignment) \<longleftrightarrow>
     self_alignment = other_alignment \<and> structural_equal self_child other_child"
| "structural_equal (Concatenate self_children) (Concatenate other_children) \<longleftrightarrow>
     list_all2 structural_equal self_children other_children"
| "structural_equal (Repeat self_child self_copies) (Repeat other_child other_copies) \<longleftrightarrow>
     self_copies = other_copies \<and> structural_equal self_child other_child"
| "structural_equal (RangeRepeat self_child self_copies) (RangeRepeat other_child other_copies) \<longleftrightarrow>
     self_copies = other_copies \<and> structural_equal self_child other_child"
| "structural_equal (Union self_children) (Union other_children) \<longleftrightarrow>
     list_all2 structural_equal self_children other_children"
| "structural_equal _ _ \<longleftrightarrow> False"

text \<open>\<^verbatim>\<open>None\<close> is a failed assertion or another panic.\<close>

definition validate_numerically :: "bool \<Rightarrow> itertools \<Rightarrow> Operator \<Rightarrow> unit option" where
  "validate_numerically dbg it self = do {
     expanded \<leftarrow> op_expand dbg it self;
     e_min \<leftarrow> set_min expanded;
     e_max \<leftarrow> set_max expanded;
     s_min \<leftarrow> op_min dbg self;
     s_max \<leftarrow> op_max dbg self;
     if e_min \<noteq> s_min \<or> e_max \<noteq> s_max then None
     else do {
       _ \<leftarrow> try_map (\<lambda>i. do {
         mod_expanded \<leftarrow> op_modulo dbg it i self;
         if mod_expanded \<noteq> btree_collect (map (\<lambda>v. v mod i) expanded) then None else Some ()
       }) [1..<65];
       Some ()
     }
   }"

section \<open>Bit length sets\<close>

record BitLengthSet =
  bls_operator :: Operator

definition bls_single :: "nat \<Rightarrow> BitLengthSet" where
  "bls_single l = \<lparr>bls_operator = Leaf [l]\<rparr>"

definition bls_from_lengths :: "nat list \<Rightarrow> BitLengthSet option" where
  "bls_from_lengths values =
     (let value_set = btree_collect values in if value_set = [] then None else Some \<lparr>bls_operator = Leaf value_set\<rparr>)"

definition bls_from_length_set :: "nat list \<Rightarrow> BitLengthSet option" where
  "bls_from_length_set values = (if values = [] then None else Some \<lparr>bls_operator = Leaf values\<rparr>)"

definition bls_default :: BitLengthSet where
  "bls_default = bls_single 0"

definition bls_pad_to_alignment :: "nat \<Rightarrow> BitLengthSet \<Rightarrow> BitLengthSet" where
  "bls_pad_to_alignment alignment self = \<lparr>bls_operator = Padding (bls_operator self) alignment\<rparr>"

definition bls_repeat :: "nat \<Rightarrow> BitLengthSet \<Rightarrow> BitLengthSet" where
  "bls_repeat copies self = \<lparr>bls_operator = Repeat (bls_operator self) copies\<rparr>"

definition bls_repeat_range :: "nat \<Rightarrow> BitLengthSet \<Rightarrow> BitLengthSet" where
  "bls_repeat_range copies self = \<lparr>bls_operator = RangeRepeat (bls_operator self) copies\<rparr>"

definition bls_extend :: "BitLengthSet list \<Rightarrow> BitLengthSet \<Rightarrow> BitLengthSet" where
  "bls_extend others self = self\<lparr>bls_operator := Concatenate (bls_operator self # map bls_operator others)\<rparr>"

definition bls_concatenate :: "BitLengthSet list \<Rightarrow> BitLengthSet \<Rightarrow> BitLengthSet" where
  "bls_concatenate others self = bls_extend others self"

definition bls_unite :: "BitLengthSet list \<Rightarrow> BitLengthSet \<Rightarrow> BitLengthSet" where
  "bls_unite others self = \<lparr>bls_operator = Union (bls_operator self # map bls_operator others)\<rparr>"

definition bls_is_fixed_size :: "bool \<Rightarrow> BitLengthSet \<Rightarrow> bool option" where
  "bls_is_fixed_size dbg self = do { a \<leftarrow> op_min dbg (bls_operator self); b \<leftarrow> op_max dbg (bls_operator self); Some (a = b) }"

definition bls_rem :: "bool \<Rightarrow> itertools \<Rightarrow> BitLengthSet \<Rightarrow> nat \<Rightarrow> BitLengthSet option" where
  "bls_rem dbg it self rhs = do {
     result \<leftarrow> op_modulo dbg it rhs (bls_operator self);
     if dbg \<and> result = [] then None else Some \<lparr>bls_operator = Leaf result\<rparr>
   }"

definition bls_is_aligned :: "bool \<Rightarrow> itertools \<Rightarrow> nat \<Rightarrow> BitLengthSet \<Rightarrow> bool option" where
  "bls_is_aligned dbg it bit_length self = do {
     remainder \<leftarrow> bls_rem dbg it self bit_length;
     fixed \<leftarrow> bls_is_fixed_size dbg remainder;
     if fixed then do { m \<leftarrow> op_min dbg (bls_operator remainder); Some (m = 0) } else Some False
   }"

definition bls_is_byte_aligned :: "bool \<Rightarrow> itertools \<Rightarrow> BitLengthSet \<Rightarrow> bool option" where
  "bls_is_byte_aligned dbg it self = bls_is_aligned dbg it 8 self"

definition bls_eq :: "bool \<Rightarrow> itertools \<Rightarrow> BitLengthSet \<Rightarrow> BitLengthSet \<Rightarrow> bool option" where
  "bls_eq dbg it self other =
     (if structural_equal (bls_operator self) (bls_operator other) then Some True
      else do {
        a \<leftarrow> op_expand dbg it (bls_operator self);
        b \<leftarrow> op_expand dbg it (bls_operator other);
        Some (a = b)
      })"

text \<open>Ordered sets are compared lexicographically.\<close>

fun btree_cmp :: "nat list \<Rightarrow> nat list \<Rightarrow> ordering" where
  "btree_cmp [] [] = Equal"
| "btree_cmp [] (y # ys) = Less"
| "btree_cmp (x # xs) [] = Greater"
| "btree_cmp (x # xs) (y # ys) = (if x < y then Less else if y < x then Greater else btree_cmp xs ys)"

definition bls_cmp :: "bool \<Rightarrow> itertools \<Rightarrow> BitLengthSet \<Rightarrow> BitLengthSet \<Rightarrow> ordering option" where
  "bls_cmp dbg it self other = do {
     a \<leftarrow> op_expand dbg it (bls_operator self);
     b \<leftarrow> op_expand dbg it (bls_operator other);
     Some (btree_cmp a b)
   }"

end
