(* ===== verification/Bls_Exact.thy ===== *)
theory Bls_Exact
  imports Bls_Operator
begin

text \<open>
  What the calculations on bit length sets are for: the set of lengths that an operator describes. Minimum, maximum and
  expansion are exact, and so are remainders, unless a padding and the divisor are incommensurable.
\<close>

section \<open>Sums\<close>

definition sums_of :: "nat \<Rightarrow> nat set \<Rightarrow> nat set" where
  "sums_of k A = {sum_list ys | ys. length ys = k \<and> set ys \<subseteq> A}"

lemma sums_ofI: "length ys = k \<Longrightarrow> set ys \<subseteq> A \<Longrightarrow> sum_list ys = s \<Longrightarrow> s \<in> sums_of k A"
  by (auto simp: sums_of_def)

lemma sums_of_le: "s \<in> sums_of k A \<Longrightarrow> (\<And>a. a \<in> A \<Longrightarrow> a \<le> m) \<Longrightarrow> s \<le> m * k"
proof -
  have "(\<And>a. a \<in> set ys \<Longrightarrow> a \<le> m) \<Longrightarrow> sum_list ys \<le> m * length ys" for ys :: "nat list"
    by (induction ys) (auto simp: add_mono)
  then show "s \<in> sums_of k A \<Longrightarrow> (\<And>a. a \<in> A \<Longrightarrow> a \<le> m) \<Longrightarrow> s \<le> m * k" by (force simp: sums_of_def)
qed

lemma sums_of_ge: "s \<in> sums_of k A \<Longrightarrow> (\<And>a. a \<in> A \<Longrightarrow> m \<le> a) \<Longrightarrow> m * k \<le> s"
proof -
  have "(\<And>a. a \<in> set ys \<Longrightarrow> m \<le> a) \<Longrightarrow> m * length ys \<le> sum_list ys" for ys :: "nat list"
    by (induction ys) (auto simp: add_mono)
  then show "s \<in> sums_of k A \<Longrightarrow> (\<And>a. a \<in> A \<Longrightarrow> m \<le> a) \<Longrightarrow> m * k \<le> s" by (force simp: sums_of_def)
qed

lemma sums_of_replicate: "a \<in> A \<Longrightarrow> a * k \<in> sums_of k A"
  by (rule sums_ofI [of "replicate k a"]) (auto simp: sum_list_replicate)

text \<open>Sums of remainders.\<close>

lemma sum_list_mod: "sum_list (map (\<lambda>y. y mod d) ys) mod d = sum_list ys mod (d :: nat)"
  by (induction ys) (auto, metis mod_add_eq mod_mod_trivial)

lemma sums_of_mod: "(\<lambda>s. s mod d) ` sums_of k ((\<lambda>l. l mod d) ` A) = (\<lambda>s. s mod d) ` sums_of k A"
proof (intro equalityI subsetI)
  fix s assume "s \<in> (\<lambda>s. s mod d) ` sums_of k ((\<lambda>l. l mod d) ` A)"
  then obtain ys where ys: "s = sum_list ys mod d" "length ys = k" "set ys \<subseteq> (\<lambda>l. l mod d) ` A" by (auto simp: sums_of_def)
  obtain zs where "ys = map (\<lambda>l. l mod d) zs" "set zs \<subseteq> A"
    using ys(3) by (induction ys) (auto, metis (no_types) insert_subset list.simps(15) list.simps(9))
  with ys show "s \<in> (\<lambda>s. s mod d) ` sums_of k A" by (auto simp: sum_list_mod intro!: imageI sums_ofI)
next
  fix s assume "s \<in> (\<lambda>s. s mod d) ` sums_of k A"
  then obtain ys where ys: "s = sum_list ys mod d" "length ys = k" "set ys \<subseteq> A" by (auto simp: sums_of_def)
  then have "s = sum_list (map (\<lambda>l. l mod d) ys) mod d" by (simp add: sum_list_mod)
  with ys show "s \<in> (\<lambda>s. s mod d) ` sums_of k ((\<lambda>l. l mod d) ` A)" 
    by (intro image_eqI [OF _ sums_ofI [of "map (\<lambda>l. l mod d) ys"]]) auto
qed

text \<open>Among \<open>d\<close> numbers there is a block whose sum is, modulo \<open>d\<close>, a multiple of a given number.\<close>

lemma zero_block:
  fixes us :: "nat list"
  assumes "0 < d" and "d \<le> length us"
  obtains i j where "i < j" and "j \<le> length us" and "sum_list (drop i (take j us)) mod d = ((j - i) * c) mod d"
proof -
  define f where "f i = (int (sum_list (take i us)) - int i * int c) mod int d" for i
  have "f ` {..length us} \<subseteq> {0..<int d}" using assms(1) by (auto simp: f_def)
  then have "card (f ` {..length us}) \<le> d" using card_mono [of "{0..<int d}" "f ` {..length us}"] by simp
  then have "\<not> inj_on f {..length us}" using card_image [of f "{..length us}"] assms(2) by auto
  then obtain i j where ij: "i < j" "j \<le> length us" "f i = f j"
    unfolding inj_on_def by (metis atMost_iff linorder_neqE_nat)
  have "sum_list (take j us) = sum_list (take i us) + sum_list (drop i (take j us))"
    using ij(1) by (metis append_take_drop_id min.absorb1 less_imp_le sum_list_append take_take)
  moreover have "int d dvd (int (sum_list (take j us)) - int j * int c) - (int (sum_list (take i us)) - int i * int c)"
    using ij(3) by (simp add: f_def mod_eq_dvd_iff [symmetric])
  ultimately have "int d dvd int (sum_list (drop i (take j us))) - int ((j - i) * c)"
    using ij(1) by (simp add: algebra_simps of_nat_diff)
  then have "sum_list (drop i (take j us)) mod d = ((j - i) * c) mod d"
    by (metis mod_eq_dvd_iff of_nat_eq_iff of_nat_mod)
  with ij that show ?thesis by blast
qed

lemma mod_block:
  assumes "j \<le> length us" and "i < j" and "sum_list (drop i (take j us)) mod d = b mod d"
  shows "(sum_list (take i us) + b + sum_list (drop j us)) mod d = sum_list us mod (d :: nat)"
proof -
  have "us = take i us @ drop i (take j us) @ drop j us"
    using assms(2) by (metis append.assoc append_take_drop_id min.absorb1 less_imp_le take_take)
  then have "sum_list us = sum_list (take i us) + sum_list (drop i (take j us)) + sum_list (drop j us)"
    by (metis add.assoc sum_list_append)
  then show ?thesis using assms(3) by (metis mod_add_cong)
qed

lemma few_others:
  fixes ys :: "nat list"
  assumes "0 < d" and "c \<in> A" and "set ys \<subseteq> A"
  shows "\<exists>zs. length zs = length ys \<and> set zs \<subseteq> A \<and> sum_list zs mod d = sum_list ys mod d \<and> length (filter (\<lambda>z. z \<noteq> c) zs) < d"
  using assms(3)
proof (induction "length (filter (\<lambda>z. z \<noteq> c) ys)" arbitrary: ys rule: less_induct)
  case less
  let ?us = "filter (\<lambda>z. z \<noteq> c) ys"
  show ?case
  proof (cases "length ?us < d")
    case True
    then show ?thesis using less.prems by blast
  next
    case False
    then obtain i j where ij: "i < j" "j \<le> length ?us" "sum_list (drop i (take j ?us)) mod d = ((j - i) * c) mod d"
      using zero_block [OF assms(1), of ?us c] by auto
    have split: "sum_list xs = sum_list (filter (\<lambda>z. z \<noteq> c) xs) + (length xs - length (filter (\<lambda>z. z \<noteq> c) xs)) * c" for xs
      by (induction xs) (auto simp: Suc_diff_le)
    define zs where "zs = take i ?us @ replicate (j - i) c @ drop j ?us @ replicate (length ys - length ?us) c"
    have "j \<le> length ys" using ij(2) length_filter_le [of "\<lambda>z. z \<noteq> c" ys] by linarith
    then have "length zs = length ys" using ij(1,2) unfolding zs_def by simp
    moreover have "set zs \<subseteq> A" using less.prems assms(2) unfolding zs_def by (auto dest!: in_set_takeD in_set_dropD)
    moreover have "sum_list zs mod d = sum_list ys mod d"
      using mod_add_cong [OF mod_block [OF ij(2,1,3)] refl, of "(length ys - length ?us) * c"] split [of ys]
      unfolding zs_def by (simp add: sum_list_replicate add.assoc)
    moreover have "filter (\<lambda>z. z \<noteq> c) zs = take i ?us @ drop j ?us"
    proof -
      have "filter (\<lambda>z. z \<noteq> c) (take i ?us) = take i ?us" by (rule filter_True) (auto dest!: in_set_takeD)
      moreover have "filter (\<lambda>z. z \<noteq> c) (drop j ?us) = drop j ?us" by (rule filter_True) (auto dest!: in_set_dropD)
      ultimately show ?thesis unfolding zs_def by simp
    qed
    moreover have "length (take i ?us @ drop j ?us) < length ?us" using ij(1,2) by simp
    ultimately show ?thesis using less.hyps [of zs] by metis
  qed
qed

text \<open>From \<open>d\<close> copies on, the remainders of sums repeat with the period \<open>d\<close>.\<close>

lemma sums_of_period:
  assumes "0 < d" and "d \<le> k" and "A \<noteq> {}"
  shows "(\<lambda>s. s mod d) ` sums_of (k + d) A = (\<lambda>s. s mod d) ` sums_of k A"
proof (intro equalityI subsetI)
  obtain c where c: "c \<in> A" using assms(3) by blast
  fix s assume "s \<in> (\<lambda>s. s mod d) ` sums_of (k + d) A"
  then obtain ys where ys: "s = sum_list ys mod d" "length ys = k + d" "set ys \<subseteq> A" by (auto simp: sums_of_def)
  obtain zs where zs: "length zs = k + d" "set zs \<subseteq> A" "sum_list zs mod d = s" "length (filter (\<lambda>z. z \<noteq> c) zs) < d"
    using few_others [OF assms(1) c ys(3)] ys(1,2) by auto
  let ?us = "filter (\<lambda>z. z \<noteq> c) zs"
  have "sum_list xs = sum_list (filter (\<lambda>z. z \<noteq> c) xs) + (length xs - length (filter (\<lambda>z. z \<noteq> c) xs)) * c" for xs
    by (induction xs) (auto simp: Suc_diff_le)
  then have "sum_list zs = sum_list ?us + (k + d - length ?us) * c" using zs(1) by metis
  moreover have "k + d - length ?us = (k - length ?us) + d" using zs(4) assms(2) by simp
  ultimately have "sum_list zs = sum_list (?us @ replicate (k - length ?us) c) + d * c"
    by (simp add: sum_list_replicate add_mult_distrib)
  then have "s = sum_list (?us @ replicate (k - length ?us) c) mod d" using zs(3) by simp
  then show "s \<in> (\<lambda>s. s mod d) ` sums_of k A"
    using zs(2,4) assms(2) c by (intro image_eqI [OF _ sums_ofI [of "?us @ replicate (k - length ?us) c"]]) auto
next
  obtain c where c: "c \<in> A" using assms(3) by blast
  fix s assume "s \<in> (\<lambda>s. s mod d) ` sums_of k A"
  then obtain ys where ys: "s = sum_list ys mod d" "length ys = k" "set ys \<subseteq> A" by (auto simp: sums_of_def)
  then have "s = sum_list (ys @ replicate d c) mod d" by (simp add: sum_list_replicate)
  with ys c show "s \<in> (\<lambda>s. s mod d) ` sums_of (k + d) A"
    by (intro image_eqI [OF _ sums_ofI [of "ys @ replicate d c"]]) auto
qed

lemma sums_of_equivalent:
  assumes "0 < d" and "A \<noteq> {}"
  shows "(\<lambda>s. s mod d) ` sums_of (min n (d + n mod d)) A = (\<lambda>s. s mod d) ` sums_of n A"
proof (cases "n \<le> d + n mod d")
  case False
  define k where "k = d + n mod d"
  have n: "k + d * (n div d - 1) = n"
  proof -
    have "1 \<le> n div d" using False assms(1) by (simp add: Suc_le_eq div_greater_zero_iff)
    then have "d * (n div d - 1) + d = d * (n div d)" by (simp add: diff_mult_distrib2)
    moreover have "n = d * (n div d) + n mod d" by simp
    ultimately show ?thesis unfolding k_def by linarith
  qed
  have "(\<lambda>s. s mod d) ` sums_of (k + d * j) A = (\<lambda>s. s mod d) ` sums_of k A" for j
  proof (induction j)
    case (Suc j)
    have "d \<le> k + d * j" by (simp add: k_def)
    moreover have "k + d * Suc j = (k + d * j) + d" by simp
    ultimately show ?case using sums_of_period [OF assms(1) _ assms(2), of "k + d * j"] Suc by metis
  qed simp
  from this [of "n div d - 1"] show ?thesis unfolding n using False by (simp add: k_def min_absorb2)
qed simp

text \<open>A sum of any number of elements has the remainder of a sum of fewer than \<open>d\<close>.\<close>

lemma short_sum:
  fixes ys :: "nat list"
  assumes "0 < d"
  shows "\<exists>zs. length zs < d \<and> set zs \<subseteq> set ys \<and> sum_list zs mod d = sum_list ys mod d"
proof (induction "length ys" arbitrary: ys rule: less_induct)
  case less
  show ?case
  proof (cases "length ys < d")
    case False
    then obtain i j where ij: "i < j" "j \<le> length ys" "sum_list (drop i (take j ys)) mod d = ((j - i) * 0) mod d"
      using zero_block [OF assms, of ys 0] by auto
    have "sum_list (take i ys @ drop j ys) mod d = sum_list ys mod d" using mod_block [OF ij(2,1), of d 0] ij(3) by simp
    moreover have "set (take i ys @ drop j ys) \<subseteq> set ys" by (auto dest!: in_set_takeD in_set_dropD)
    moreover have "length (take i ys @ drop j ys) < length ys" using ij(1,2) by simp
    ultimately show ?thesis using less.hyps [of "take i ys @ drop j ys"] by (metis order_trans)
  qed blast
qed

lemma range_sums_equivalent:
  assumes "0 < d"
  shows "(\<lambda>s. s mod d) ` (\<Union>k\<le>min n (d + n mod d). sums_of k A) = (\<lambda>s. s mod d) ` (\<Union>k\<le>n. sums_of k A)"
proof (rule equalityI)
  show "(\<lambda>s. s mod d) ` (\<Union>k\<le>min n (d + n mod d). sums_of k A) \<subseteq> (\<lambda>s. s mod d) ` (\<Union>k\<le>n. sums_of k A)"
    by (intro image_mono UN_mono) auto
  show "(\<lambda>s. s mod d) ` (\<Union>k\<le>n. sums_of k A) \<subseteq> (\<lambda>s. s mod d) ` (\<Union>k\<le>min n (d + n mod d). sums_of k A)"
  proof
  fix s assume "s \<in> (\<lambda>s. s mod d) ` (\<Union>k\<le>n. sums_of k A)"
  then obtain ys where ys: "s = sum_list ys mod d" "length ys \<le> n" "set ys \<subseteq> A" by (auto simp: sums_of_def)
  obtain zs where zs: "length zs < d" "set zs \<subseteq> set ys" "sum_list zs mod d = s" using short_sum [OF assms] ys(1) by metis
  have "\<exists>xs. length xs \<le> min n (d + n mod d) \<and> set xs \<subseteq> A \<and> sum_list xs mod d = s"
  proof (cases "length ys \<le> d + n mod d")
    case True
    then show ?thesis using ys by auto
  next
    case False
    then show ?thesis using zs ys(2,3) by (intro exI [of _ zs]) auto
  qed
  then show "s \<in> (\<lambda>s. s mod d) ` (\<Union>k\<le>min n (d + n mod d). sums_of k A)" by (force simp: sums_of_def)
  qed
qed

section \<open>The set of lengths\<close>

fun lengths :: "Operator \<Rightarrow> nat set" where
  "lengths (Leaf values) = set values"
| "lengths (Padding child alignment) = (\<lambda>l. (l + (alignment - 1)) div alignment * alignment) ` lengths child"
| "lengths (Concatenate children) = sum_list ` listset (map lengths children)"
| "lengths (Repeat child n) = sums_of n (lengths child)"
| "lengths (RangeRepeat child n) = (\<Union>k\<le>n. sums_of k (lengths child))"
| "lengths (Union children) = (\<Union>c\<in>set children. lengths c)"

fun shortest :: "Operator \<Rightarrow> nat" where
  "shortest (Leaf values) = Min (set values)"
| "shortest (Padding child alignment) = (shortest child + (alignment - 1)) div alignment * alignment"
| "shortest (Concatenate children) = sum_list (map shortest children)"
| "shortest (Repeat child n) = shortest child * n"
| "shortest (RangeRepeat child n) = 0"
| "shortest (Union children) = Min (set (map shortest children))"

fun longest :: "Operator \<Rightarrow> nat" where
  "longest (Leaf values) = Max (set values)"
| "longest (Padding child alignment) = (longest child + (alignment - 1)) div alignment * alignment"
| "longest (Concatenate children) = sum_list (map longest children)"
| "longest (Repeat child n) = longest child * n"
| "longest (RangeRepeat child n) = longest child * n"
| "longest (Union children) = Max (set (map longest children))"

text \<open>What the constructors of \<^verbatim>\<open>BitLengthSet\<close> guarantee, with paddings other than zero, and that no calculation exceeds 64 bits.\<close>

fun op_wf :: "Operator \<Rightarrow> bool" where
  "op_wf (Leaf values) \<longleftrightarrow> values \<noteq> [] \<and> sorted values \<and> distinct values"
| "op_wf (Padding child alignment) \<longleftrightarrow> 0 < alignment \<and> op_wf child"
| "op_wf (Concatenate children) \<longleftrightarrow> children \<noteq> [] \<and> list_all op_wf children"
| "op_wf (Repeat child n) \<longleftrightarrow> op_wf child"
| "op_wf (RangeRepeat child n) \<longleftrightarrow> op_wf child"
| "op_wf (Union children) \<longleftrightarrow> children \<noteq> [] \<and> list_all op_wf children"

fun op_fits :: "Operator \<Rightarrow> bool" where
  "op_fits (Leaf values) \<longleftrightarrow> list_all (\<lambda>v. v < 2 ^ 64) values"
| "op_fits (Padding child alignment) \<longleftrightarrow> op_fits child \<and> longest child + alignment \<le> 2 ^ 64"
| "op_fits (Concatenate children) \<longleftrightarrow> list_all op_fits children \<and> sum_list (map longest children) < 2 ^ 64"
| "op_fits (Repeat child n) \<longleftrightarrow> op_fits child \<and> longest child * n < 2 ^ 64"
| "op_fits (RangeRepeat child n) \<longleftrightarrow> op_fits child \<and> longest child * n < 2 ^ 64"
| "op_fits (Union children) \<longleftrightarrow> list_all op_fits children"

lemma listset_iff: "ys \<in> listset As \<longleftrightarrow> list_all2 (\<in>) ys As"
  by (induction As arbitrary: ys) (auto simp: set_Cons_def list_all2_Cons2)

lemma listset_choice: "(\<And>c. c \<in> set cs \<Longrightarrow> g c \<in> f c) \<Longrightarrow> sum_list (map g cs) \<in> sum_list ` listset (map f cs)"
  by (rule imageI) (auto simp: listset_iff list_all2_map1 list_all2_map2 list_all2_same)

lemma listset_le:
  "list_all2 (\<in>) ys (map f cs) \<Longrightarrow> (\<And>c l. c \<in> set cs \<Longrightarrow> l \<in> f c \<Longrightarrow> l \<le> g c) \<Longrightarrow> sum_list ys \<le> sum_list (map g cs :: nat list)"
  by (induction cs arbitrary: ys) (auto simp: list_all2_Cons2 intro!: add_mono)

lemma listset_ge:
  "list_all2 (\<in>) ys (map f cs) \<Longrightarrow> (\<And>c l. c \<in> set cs \<Longrightarrow> l \<in> f c \<Longrightarrow> g c \<le> l) \<Longrightarrow> sum_list (map g cs :: nat list) \<le> sum_list ys"
  by (induction cs arbitrary: ys) (auto simp: list_all2_Cons2 intro!: add_mono)

lemma longest_greatest: "op_wf op \<Longrightarrow> longest op \<in> lengths op \<and> (\<forall>l \<in> lengths op. l \<le> longest op)"
proof (induction op)
  case (Padding child alignment)
  then show ?case by (auto intro!: div_le_mono diff_le_mono)
next
  case (Concatenate children)
  then have "\<And>c. c \<in> set children \<Longrightarrow> longest c \<in> lengths c \<and> (\<forall>l \<in> lengths c. l \<le> longest c)" by (auto simp: list_all_iff)
  then show ?case using listset_choice [of children longest lengths] listset_le [of _ lengths children longest]
    by (auto simp: listset_iff)
next
  case (Repeat child n)
  then show ?case by (auto intro: sums_of_replicate sums_of_le)
next
  case (RangeRepeat child n)
  then have "s \<le> longest child * n" if "s \<in> sums_of k (lengths child)" "k \<le> n" for s k
    using sums_of_le [OF that(1), of "longest child"] that(2) by (auto intro: order_trans mult_le_mono)
  then show ?case using RangeRepeat by (auto intro: sums_of_replicate)
next
  case (Union children)
  then have ne: "children \<noteq> []" and IH: "\<And>c. c \<in> set children \<Longrightarrow> longest c \<in> lengths c \<and> (\<forall>l \<in> lengths c. l \<le> longest c)"
    by (auto simp: list_all_iff)
  have "Max (longest ` set children) \<in> longest ` set children" by (rule Max_in) (use ne in simp_all)
  then obtain c where c: "c \<in> set children" "Max (longest ` set children) = longest c" by blast
  have "longest y \<le> longest c" if "y \<in> set children" for y
    unfolding c(2) [symmetric] using that by (intro Max_ge) simp_all
  then have "l \<le> longest c" if "y \<in> set children" "l \<in> lengths y" for y l using IH [OF that(1)] that by (blast intro: order_trans)
  then show ?case using IH [OF c(1)] c by auto
qed auto

lemma shortest_least: "op_wf op \<Longrightarrow> shortest op \<in> lengths op \<and> (\<forall>l \<in> lengths op. shortest op \<le> l)"
proof (induction op)
  case (Padding child alignment)
  then show ?case by (auto intro!: div_le_mono diff_le_mono)
next
  case (Concatenate children)
  then have "\<And>c. c \<in> set children \<Longrightarrow> shortest c \<in> lengths c \<and> (\<forall>l \<in> lengths c. shortest c \<le> l)" by (auto simp: list_all_iff)
  then show ?case using listset_choice [of children shortest lengths] listset_ge [of _ lengths children shortest]
    by (auto simp: listset_iff)
next
  case (Repeat child n)
  then show ?case by (auto intro: sums_of_replicate sums_of_ge)
next
  case (RangeRepeat child n)
  have "0 \<in> sums_of 0 (lengths child)" by (rule sums_ofI [of "[]"]) auto
  then show ?case by auto
next
  case (Union children)
  then have ne: "children \<noteq> []" and IH: "\<And>c. c \<in> set children \<Longrightarrow> shortest c \<in> lengths c \<and> (\<forall>l \<in> lengths c. shortest c \<le> l)"
    by (auto simp: list_all_iff)
  have "Min (shortest ` set children) \<in> shortest ` set children" by (rule Min_in) (use ne in simp_all)
  then obtain c where c: "c \<in> set children" "Min (shortest ` set children) = shortest c" by blast
  have "shortest c \<le> shortest y" if "y \<in> set children" for y
    unfolding c(2) [symmetric] using that by (intro Min_le) simp_all
  then have "shortest c \<le> l" if "y \<in> set children" "l \<in> lengths y" for y l using IH [OF that(1)] that by (blast intro: order_trans)
  then show ?case using IH [OF c(1)] c by auto
qed auto

lemma lengths_le: "op_wf op \<Longrightarrow> l \<in> lengths op \<Longrightarrow> l \<le> longest op"
  using longest_greatest by blast

lemma shortest_le_longest: "op_wf op \<Longrightarrow> shortest op \<le> longest op"
  using longest_greatest shortest_least by blast

lemma lengths_nonempty: "op_wf op \<Longrightarrow> lengths op \<noteq> {}"
  using longest_greatest by blast

lemma longest_fits: "op_wf op \<Longrightarrow> op_fits op \<Longrightarrow> longest op < 2 ^ 64"
proof (induction op)
  case (Padding child alignment)
  have "(longest child + (alignment - 1)) div alignment * alignment \<le> longest child + (alignment - 1)" by simp
  moreover have "0 < alignment" "longest child + alignment \<le> 2 ^ 64" using Padding.prems by simp_all
  ultimately have "(longest child + (alignment - 1)) div alignment * alignment < 2 ^ 64" by linarith
  then show ?case by simp
qed (auto simp: list_all_iff)

section \<open>The calculations\<close>

text \<open>The documented behaviour of the iterators: all choices of \<open>k\<close> elements with repetition, in some order, and all choices of one element of each list.\<close>

definition itertools_law :: "itertools \<Rightarrow> bool" where
  "itertools_law it \<longleftrightarrow>
     (\<forall>k xs. xs \<noteq> [] \<longrightarrow> mset ` set (it_combinations it k xs) = {M. size M = k \<and> set_mset M \<subseteq> set xs}) \<and>
     (\<forall>xss. xss \<noteq> [] \<longrightarrow> set (it_product it xss) = listset (map set xss)) \<and>
     (\<forall>a b. 0 < a \<longrightarrow> 0 < b \<longrightarrow> lcm a b < 2 ^ 64 \<longrightarrow> it_lcm it a b = Some (lcm a b))"

lemma combinations_sums:
  assumes "itertools_law it" and "xs \<noteq> []"
  shows "sum_list ` set (it_combinations it k xs) = sums_of k (set xs)"
proof -
  have "mset ` set (it_combinations it k xs) = {M. size M = k \<and> set_mset M \<subseteq> set xs}"
    using assms by (simp add: itertools_law_def)
  then have "sum_mset ` mset ` set (it_combinations it k xs) = sum_mset ` {M. size M = k \<and> set_mset M \<subseteq> set xs}" by simp
  moreover have "sum_mset ` {M. size M = k \<and> set_mset M \<subseteq> set xs} = sums_of k (set xs)"
  proof (intro equalityI subsetI)
    fix s assume "s \<in> sum_mset ` {M. size M = k \<and> set_mset M \<subseteq> set xs}"
    then obtain M where M: "s = sum_mset M" "size M = k" "set_mset M \<subseteq> set xs" by auto
    obtain ys where "mset ys = M" using ex_mset by blast
    with M show "s \<in> sums_of k (set xs)" by (auto intro!: sums_ofI [of ys] simp: sum_mset_sum_list)
  next
    fix s assume "s \<in> sums_of k (set xs)"
    then obtain ys where "s = sum_list ys" "length ys = k" "set ys \<subseteq> set xs" by (auto simp: sums_of_def)
    then show "s \<in> sum_mset ` {M. size M = k \<and> set_mset M \<subseteq> set xs}"
      by (intro image_eqI [of _ _ "mset ys"]) (auto simp: sum_mset_sum_list)
  qed
  ultimately show ?thesis by (simp add: image_image sum_mset_sum_list)
qed

lemma product_sums: "itertools_law it \<Longrightarrow> xss \<noteq> [] \<Longrightarrow> set (it_product it xss) = listset (map set xss)"
  by (simp add: itertools_law_def)

lemma try_map_Some: "(\<And>x. x \<in> set xs \<Longrightarrow> f x = Some (g x)) \<Longrightarrow> try_map f xs = Some (map g xs)"
  by (induction xs) auto

lemma u64_result_fits [simp]: "n < 2 ^ 64 \<Longrightarrow> u64_result dbg n = Some n"
  by (simp add: u64_result_def)

lemma u64_sum_fits: "acc + sum_list xs < 2 ^ 64 \<Longrightarrow> u64_sum dbg acc xs = Some (acc + sum_list xs)"
  by (induction xs arbitrary: acc) (auto simp: add.assoc)

lemma align_up_fits: "0 < a \<Longrightarrow> v + a \<le> 2 ^ 64 \<Longrightarrow> align_up dbg v a = Some ((v + (a - 1)) div a * a)"
proof -
  assume "0 < a" and "v + a \<le> 2 ^ 64"
  then have "v + (a - 1) < 2 ^ 64" by linarith
  then have "u64_result dbg (v + (a - 1)) = Some (v + (a - 1))" by (rule u64_result_fits)
  then show "align_up dbg v a = Some ((v + (a - 1)) div a * a)" using \<open>0 < a\<close> unfolding align_up_def by simp
qed

lemma btree_collect_set [simp]: "set (btree_collect xs) = set xs" "sorted (btree_collect xs)" "distinct (btree_collect xs)"
  by (simp_all add: btree_collect_def)

lemma set_max_Max: "vs \<noteq> [] \<Longrightarrow> sorted vs \<Longrightarrow> set_max vs = Some (Max (set vs))"
proof (induction vs rule: rev_induct)
  case (snoc v vs)
  then have "Max (set (vs @ [v])) = v" by (intro Max_eqI) (auto simp: sorted_append)
  then show ?case by (simp add: set_max_def)
qed simp

lemma set_min_Min: "vs \<noteq> [] \<Longrightarrow> sorted vs \<Longrightarrow> set_min vs = Some (Min (set vs))"
proof (cases vs)
  case (Cons v ws)
  assume "sorted vs"
  with Cons have "Min (set vs) = v" by (intro Min_eqI) auto
  then show ?thesis using Cons by (simp add: set_min_def)
qed simp

lemma op_max_longest: "op_wf op \<Longrightarrow> op_fits op \<Longrightarrow> op_max dbg op = Some (longest op)"
proof (induction op)
  case (Leaf vs)
  then have "set_max vs = Some (Max (set vs))" by (simp add: set_max_Max)
  then show ?case by simp
next
  case (Padding child alignment)
  then show ?case by (simp add: align_up_fits)
next
  case (Concatenate children)
  then have "try_map (op_max dbg) children = Some (map longest children)" by (intro try_map_Some) (auto simp: list_all_iff)
  then show ?case using Concatenate.prems u64_sum_fits [of 0 "map longest children"] by simp
next
  case (Union children)
  then have "try_map (op_max dbg) children = Some (map longest children)" by (intro try_map_Some) (auto simp: list_all_iff)
  then show ?case using Union.prems by simp
qed simp_all

lemma op_min_shortest: "op_wf op \<Longrightarrow> op_fits op \<Longrightarrow> op_min dbg op = Some (shortest op)"
proof (induction op)
  case (Leaf vs)
  then show ?case by (simp add: set_min_Min)
next
  case (Padding child alignment)
  then have "shortest child + alignment \<le> 2 ^ 64" using shortest_le_longest [of child] by simp
  then show ?case using Padding by (simp add: align_up_fits)
next
  case (Concatenate children)
  then have "try_map (op_min dbg) children = Some (map shortest children)" by (intro try_map_Some) (auto simp: list_all_iff)
  moreover have "sum_list (map shortest children) \<le> sum_list (map longest children)"
    using Concatenate.prems(1) by (intro sum_list_mono) (auto simp: list_all_iff shortest_le_longest)
  ultimately show ?case using Concatenate.prems u64_sum_fits [of 0 "map shortest children"] by simp
next
  case (Repeat child n)
  then have "shortest child * n < 2 ^ 64" using shortest_le_longest [of child] by (auto intro: le_less_trans mult_le_mono1)
  then show ?case using Repeat by simp
next
  case (Union children)
  then have "try_map (op_min dbg) children = Some (map shortest children)" by (intro try_map_Some) (auto simp: list_all_iff)
  then show ?case using Union.prems by simp
qed simp_all

text \<open>The ascending list of a set of lengths.\<close>

definition lists_set :: "nat set \<Rightarrow> nat list option \<Rightarrow> bool" where
  "lists_set A r \<longleftrightarrow> (\<exists>xs. r = Some xs \<and> set xs = A \<and> sorted xs \<and> distinct xs)"

lemma lists_setI: "set xs = A \<Longrightarrow> lists_set A (Some (btree_collect xs))"
  by (simp add: lists_set_def)

lemma lists_set_all:
  assumes "\<And>c. c \<in> set cs \<Longrightarrow> lists_set (A c) (f c)"
  obtains e where "try_map f cs = Some (map e cs)" and "\<forall>c \<in> set cs. set (e c) = A c"
proof -
  have *: "f c = Some (the (f c)) \<and> set (the (f c)) = A c" if c: "c \<in> set cs" for c
  proof -
    obtain xs where "f c = Some xs" "set xs = A c" using assms [OF c] unfolding lists_set_def by blast
    then show ?thesis by simp
  qed
  have "try_map f cs = Some (map (\<lambda>c. the (f c)) cs)" by (rule try_map_Some) (use * in blast)
  then show ?thesis by (rule that) (use * in blast)
qed

lemma sums_fit: "(\<And>s. s \<in> sum_list ` set yss \<Longrightarrow> s < 2 ^ 64) \<Longrightarrow> try_map (u64_sum dbg 0) yss = Some (map sum_list yss)"
proof (rule try_map_Some)
  fix ys assume "\<And>s. s \<in> sum_list ` set yss \<Longrightarrow> s < 2 ^ 64" and "ys \<in> set yss"
  then have "0 + sum_list ys < 2 ^ 64" by simp
  from u64_sum_fits [OF this] show "u64_sum dbg 0 ys = Some (sum_list ys)" by simp
qed

lemma lengths_fit: "op_wf op \<Longrightarrow> op_fits op \<Longrightarrow> l \<in> lengths op \<Longrightarrow> l < 2 ^ 64"
  using lengths_le longest_fits le_less_trans by blast

lemma listset_cong: "\<forall>c \<in> set cs. set (e c) = A c \<Longrightarrow> listset (map set (map e cs)) = listset (map A cs)"
proof -
  assume "\<forall>c \<in> set cs. set (e c) = A c"
  then have "map set (map e cs) = map A cs" by simp
  then show "listset (map set (map e cs)) = listset (map A cs)" by (simp only:)
qed

lemma concatenate_expand:
  assumes "itertools_law it" and "op_wf (Concatenate children)" and "op_fits (Concatenate children)"
    and "\<And>c. c \<in> set children \<Longrightarrow> lists_set (lengths c) (op_expand dbg it c)"
  shows "lists_set (lengths (Concatenate children)) (op_expand dbg it (Concatenate children))"
proof -
  obtain e where e: "try_map (op_expand dbg it) children = Some (map e children)" "\<forall>c \<in> set children. set (e c) = lengths c"
    using assms(4) by (rule lists_set_all)
  have p: "set (it_product it (map e children)) = listset (map lengths children)"
    using product_sums [OF assms(1), of "map e children"] assms(2) listset_cong [of children e lengths, OF e(2)] by simp
  then have "try_map (u64_sum dbg 0) (it_product it (map e children)) = Some (map sum_list (it_product it (map e children)))"
    using lengths_fit [OF assms(2,3)] by (intro sums_fit) simp
  then show ?thesis using e(1) p lists_setI [of "map sum_list (it_product it (map e children))"] by simp
qed

lemma range_repeat_expand:
  assumes "itertools_law it" and "op_wf (RangeRepeat child n)" and "op_fits (RangeRepeat child n)"
    and "lists_set (lengths child) (op_expand dbg it child)"
  shows "lists_set (lengths (RangeRepeat child n)) (op_expand dbg it (RangeRepeat child n))"
proof -
  obtain xs where xs: "op_expand dbg it child = Some xs" "set xs = lengths child" using assms(4) by (auto simp: lists_set_def)
  then have "xs \<noteq> []" using lengths_nonempty [of child] assms(2) by auto
  note c = combinations_sums [OF assms(1) this, unfolded xs(2)]
  have "try_map (u64_sum dbg 0) (it_combinations it k xs) = Some (map sum_list (it_combinations it k xs))" if "k \<in> set [0..<n + 1]" for k
  proof (rule sums_fit)
    fix s assume "s \<in> sum_list ` set (it_combinations it k xs)"
    then have "s \<in> lengths (RangeRepeat child n)" using that unfolding c by auto
    then show "s < 2 ^ 64" by (rule lengths_fit [OF assms(2,3)])
  qed
  then have "try_map (\<lambda>k. try_map (u64_sum dbg 0) (it_combinations it k xs)) [0..<n + 1]
      = Some (map (\<lambda>k. map sum_list (it_combinations it k xs)) [0..<n + 1])"
    by (rule try_map_Some)
  moreover have "set (concat (map (\<lambda>k. map sum_list (it_combinations it k xs)) [0..<n + 1])) = lengths (RangeRepeat child n)"
  proof -
    have "set (concat (map (\<lambda>k. map sum_list (it_combinations it k xs)) [0..<n + 1])) = (\<Union>k\<le>n. sum_list ` set (it_combinations it k xs))"
      by (simp add: atLeast0LessThan lessThan_Suc_atMost image_image del: upt_Suc)
    then show ?thesis by (simp add: c del: upt_Suc)
  qed
  ultimately show ?thesis using xs(1) lists_setI [of "concat (map (\<lambda>k. map sum_list (it_combinations it k xs)) [0..<n + 1])"] by simp
qed

lemma op_expand_exact:
  assumes "itertools_law it" and "op_wf op" and "op_fits op"
  shows "lists_set (lengths op) (op_expand dbg it op)"
  using assms(2,3)
proof (induction op)
  case (Leaf vs)
  then show ?case by (simp add: lists_set_def)
next
  case (Padding child alignment)
  then obtain xs where xs: "op_expand dbg it child = Some xs" "set xs = lengths child" by (auto simp: lists_set_def)
  have "align_up dbg l alignment = Some ((l + (alignment - 1)) div alignment * alignment)" if "l \<in> set xs" for l
    using Padding.prems lengths_le [of child l] that xs(2) by (intro align_up_fits) auto
  then have "try_map (\<lambda>l. align_up dbg l alignment) xs = Some (map (\<lambda>l. (l + (alignment - 1)) div alignment * alignment) xs)"
    by (rule try_map_Some)
  then show ?case using xs lists_setI [of "map (\<lambda>l. (l + (alignment - 1)) div alignment * alignment) xs"] by simp
next
  case (Concatenate children)
  then show ?case by (intro concatenate_expand [OF assms(1)]) (simp_all add: list_all_iff)
next
  case (Repeat child n)
  then obtain xs where xs: "op_expand dbg it child = Some xs" "set xs = lengths child" by (auto simp: lists_set_def)
  then have "xs \<noteq> []" using lengths_nonempty [of child] Repeat.prems(1) by auto
  note c = combinations_sums [OF assms(1) this, of n, unfolded xs(2)]
  then have "try_map (u64_sum dbg 0) (it_combinations it n xs) = Some (map sum_list (it_combinations it n xs))"
    using lengths_fit [OF Repeat.prems] by (intro sums_fit) simp
  then show ?case using xs(1) c lists_setI [of "map sum_list (it_combinations it n xs)"] by simp
next
  case (RangeRepeat child n)
  then show ?case by (intro range_repeat_expand [OF assms(1)]) simp_all
next
  case (Union children)
  have "lists_set (lengths c) (op_expand dbg it c)" if "c \<in> set children" for c
    using that Union by (auto simp: list_all_iff)
  then obtain e where e: "try_map (op_expand dbg it) children = Some (map e children)" "\<forall>c \<in> set children. set (e c) = lengths c"
    by (rule lists_set_all)
  then show ?case using lists_setI [of "concat (map e children)"] by simp
qed

section \<open>Remainders\<close>

text \<open>Every padding divides the divisor or is a multiple of it; alignments are \<^verbatim>\<open>u32\<close>.\<close>

fun commensurable :: "nat \<Rightarrow> Operator \<Rightarrow> bool" where
  "commensurable d (Leaf vs) \<longleftrightarrow> True"
| "commensurable d (Padding child a) \<longleftrightarrow> (a dvd d \<or> d dvd a) \<and> a < 2 ^ 32 \<and> commensurable d child"
| "commensurable d (Concatenate children) \<longleftrightarrow> length children < 2 ^ 32 \<and> list_all (commensurable d) children"
| "commensurable d (Repeat child n) \<longleftrightarrow> commensurable d child"
| "commensurable d (RangeRepeat child n) \<longleftrightarrow> commensurable d child"
| "commensurable d (Union children) \<longleftrightarrow> list_all (commensurable d) children"

lemma align_mod:
  fixes a d l :: nat
  assumes "0 < a" and "a dvd d \<or> d dvd a"
  shows "((l mod d + (a - 1)) div a * a) mod d = ((l + (a - 1)) div a * a) mod d"
  using assms(2)
proof
  assume "d dvd a"
  then have "d dvd x * a" for x by simp
  then show ?thesis by (metis dvd_imp_mod_0)
next
  assume "a dvd d"
  then obtain q where d: "d = a * q" by blast
  have "l + (a - 1) = (l mod d + (a - 1)) + a * (q * (l div d))" using div_mult_mod_eq [of l d] by (simp add: d algebra_simps)
  then have "(l + (a - 1)) div a = ((l mod d + (a - 1)) + a * (q * (l div d))) div a" by (rule arg_cong)
  also have "\<dots> = (l mod d + (a - 1)) div a + q * (l div d)" using assms(1) by (subst div_mult_self2) simp_all
  finally have "(l + (a - 1)) div a = (l mod d + (a - 1)) div a + q * (l div d)" .
  then have "(l + (a - 1)) div a * a = (l mod d + (a - 1)) div a * a + d * (l div d)" by (simp add: d algebra_simps)
  then show ?thesis by simp
qed

lemma listset_mod:
  fixes d :: nat
  shows "(\<lambda>ys. sum_list ys mod d) ` listset (map (\<lambda>c. (\<lambda>l. l mod d) ` f c) cs) = (\<lambda>s. s mod d) ` sum_list ` listset (map f cs)"
proof (intro equalityI subsetI)
  have "\<exists>zs. list_all2 (\<in>) zs (map f cs) \<and> ys = map (\<lambda>l. l mod d) zs"
    if "list_all2 (\<in>) ys (map (\<lambda>c. (\<lambda>l. l mod d) ` f c) cs)" for ys using that
  proof (induction cs arbitrary: ys)
    case (Cons c cs)
    then obtain y ys' where ys: "ys = y # ys'" "y \<in> (\<lambda>l. l mod d) ` f c" "list_all2 (\<in>) ys' (map (\<lambda>c. (\<lambda>l. l mod d) ` f c) cs)"
      by (auto simp: list_all2_Cons2)
    obtain zs where "list_all2 (\<in>) zs (map f cs)" "ys' = map (\<lambda>l. l mod d) zs" using Cons.IH [OF ys(3)] by blast
    moreover obtain z where "z \<in> f c" "y = z mod d" using ys(2) by blast
    ultimately show ?case using ys(1) by (intro exI [of _ "z # zs"]) simp
  qed simp
  moreover fix s assume "s \<in> (\<lambda>ys. sum_list ys mod d) ` listset (map (\<lambda>c. (\<lambda>l. l mod d) ` f c) cs)"
  ultimately obtain zs where "list_all2 (\<in>) zs (map f cs)" "s = sum_list (map (\<lambda>l. l mod d) zs) mod d" by (force simp: listset_iff)
  then show "s \<in> (\<lambda>s. s mod d) ` sum_list ` listset (map f cs)"
    by (intro image_eqI [of _ _ "sum_list zs"] imageI) (simp_all add: sum_list_mod listset_iff)
next
  fix s assume "s \<in> (\<lambda>s. s mod d) ` sum_list ` listset (map f cs)"
  then obtain zs where zs: "list_all2 (\<in>) zs (map f cs)" "s = sum_list zs mod d" by (auto simp: listset_iff)
  have "list_all2 (\<in>) (map (\<lambda>l. l mod d) zs) (map (\<lambda>c. (\<lambda>l. l mod d) ` f c) cs)"
    using zs(1) unfolding list_all2_map1 list_all2_map2 by (rule list_all2_mono) simp
  then show "s \<in> (\<lambda>ys. sum_list ys mod d) ` listset (map (\<lambda>c. (\<lambda>l. l mod d) ` f c) cs)"
    using zs(2) by (intro image_eqI [of _ _ "map (\<lambda>l. l mod d) zs"]) (simp_all add: sum_list_mod listset_iff)
qed

lemma sums_rem_fits:
  assumes "0 < d" and "\<And>s. s \<in> sum_list ` set yss \<Longrightarrow> s < 2 ^ 64"
  shows "sums_rem dbg d yss = Some (map (\<lambda>ys. sum_list ys mod d) yss)"
  unfolding sums_rem_def
proof (rule try_map_Some)
  fix ys assume "ys \<in> set yss"
  then have "0 + sum_list ys < 2 ^ 64" using assms(2) by simp
  from u64_sum_fits [OF this, of dbg] show "do { s \<leftarrow> u64_sum dbg 0 ys; u64_rem s d } = Some (sum_list ys mod d)"
    using assms(1) by (simp add: u64_rem_def)
qed

lemma equivalent_count_fits:
  assumes "0 < d" and "d < 2 ^ 31"
  shows "equivalent_count dbg n d = Some (min n (d + n mod d))" and "min n (d + n mod d) \<le> 2 * d"
proof -
  have m: "n mod d < d" using assms(1) by simp
  then have "d + n mod d < 2 ^ 64" using assms(2) by simp
  then have "u64_result dbg (d + n mod d) = Some (d + n mod d)" by (rule u64_result_fits)
  moreover have "n mod d = min n (d + n mod d) mod d" by (cases "n \<le> d + n mod d") (simp_all add: min_def)
  ultimately show "equivalent_count dbg n d = Some (min n (d + n mod d))"
    using assms(1) unfolding equivalent_count_def u64_rem_def Let_def by simp
  show "min n (d + n mod d) \<le> 2 * d" using m by simp
qed

lemma small_sums:
  assumes "s \<in> sums_of k ((\<lambda>l. l mod d) ` A)" and "k \<le> 2 * d" and "0 < d" and "d < 2 ^ 31"
  shows "s < 2 ^ 64"
proof -
  have "s \<le> d * k" using assms(1) by (rule sums_of_le) (use assms(3) in \<open>auto simp: less_imp_le\<close>)
  also have "\<dots> \<le> 2 ^ 31 * 2 ^ 32" using assms(2,4) by (intro mult_le_mono) simp_all
  finally show ?thesis by simp
qed

lemma padding_modulo:
  assumes "itertools_law it" and "0 < d" and "d < 2 ^ 31" and "op_wf (Padding child a)" and "op_fits (Padding child a)"
    and "commensurable d (Padding child a)" and "lists_set ((\<lambda>l. l mod d) ` lengths child) (op_modulo dbg it d child)"
  shows "lists_set ((\<lambda>l. l mod d) ` lengths (Padding child a)) (op_modulo dbg it d (Padding child a))"
proof -
  let ?align = "\<lambda>l. (l + (a - 1)) div a * a"
  obtain xs where xs: "op_modulo dbg it d child = Some xs" "set xs = (\<lambda>l. l mod d) ` lengths child" using assms(7) by (auto simp: lists_set_def)
  have "lcm a d \<in> {a, d}" using assms(6) by auto
  then have "lcm a d < 2 ^ 64" "d \<le> lcm a d" using assms(2,3,4,6) by (auto simp: dvd_imp_le)
  then have lcm: "it_lcm it a d = Some (lcm a d)" using assms(1,2,4) by (simp add: itertools_law_def)
  have "(if dbg \<and> \<not> (v \<le> longest (Padding child a) \<and> v < lcm a d) then None else do { x \<leftarrow> align_up dbg v a; u64_rem x d })
      = Some (?align v mod d)" if "v \<in> set xs" for v
  proof -
    obtain l where l: "l \<in> lengths child" "v = l mod d" using \<open>v \<in> set xs\<close> xs(2) by blast
    have "v \<le> l" using l(2) by simp
    also have "l \<le> longest child" using lengths_le l(1) assms(4) by simp
    also have "longest child \<le> longest (Padding child a)"
    proof -
      have "longest child + (a - 1) = longest (Padding child a) + (longest child + (a - 1)) mod a" by simp
      moreover have "(longest child + (a - 1)) mod a \<le> a - 1" using assms(4) by (simp add: less_Suc_eq_le [symmetric])
      ultimately show ?thesis by linarith
    qed
    finally have "v \<le> longest (Padding child a)" .
    moreover have v: "v < d" using l(2) assms(2) by simp
    then have "v < lcm a d" using \<open>d \<le> lcm a d\<close> by (rule less_le_trans)
    moreover have "align_up dbg v a = Some (?align v)" using v assms(3,4,6) by (intro align_up_fits) simp_all
    ultimately show ?thesis using assms(2) by (simp add: u64_rem_def)
  qed
  then have "try_map (\<lambda>v. if dbg \<and> \<not> (v \<le> longest (Padding child a) \<and> v < lcm a d) then None
      else do { x \<leftarrow> align_up dbg v a; u64_rem x d }) xs = Some (map (\<lambda>v. ?align v mod d) xs)" by (rule try_map_Some)
  then have "op_modulo dbg it d (Padding child a) = Some (btree_collect (map (\<lambda>v. ?align v mod d) xs))"
    using op_max_longest [OF assms(4,5), of dbg] xs(1) unfolding op_modulo.simps lcm by (simp only: Option.bind.bind_lunit)
  moreover have "set (map (\<lambda>v. ?align v mod d) xs) = (\<lambda>l. l mod d) ` lengths (Padding child a)"
  proof -
    have "?align (l mod d) mod d = ?align l mod d" for l using assms(4,6) by (intro align_mod) simp_all
    then show ?thesis by (simp only: set_map xs(2) image_image lengths.simps)
  qed
  ultimately show ?thesis using lists_setI [of "map (\<lambda>v. ?align v mod d) xs"] by simp
qed

lemma concatenate_modulo:
  assumes "itertools_law it" and "0 < d" and "d < 2 ^ 31" and "op_wf (Concatenate children)" and "commensurable d (Concatenate children)"
    and "\<And>c. c \<in> set children \<Longrightarrow> lists_set ((\<lambda>l. l mod d) ` lengths c) (op_modulo dbg it d c)"
  shows "lists_set ((\<lambda>l. l mod d) ` lengths (Concatenate children)) (op_modulo dbg it d (Concatenate children))"
proof -
  obtain e where e: "try_map (op_modulo dbg it d) children = Some (map e children)"
      "\<forall>c \<in> set children. set (e c) = (\<lambda>l. l mod d) ` lengths c" using assms(6) by (rule lists_set_all)
  have p: "set (it_product it (map e children)) = listset (map (\<lambda>c. (\<lambda>l. l mod d) ` lengths c) children)"
    using product_sums [OF assms(1), of "map e children"] assms(4) listset_cong [OF e(2)] by simp
  have "s < 2 ^ 64" if "s \<in> sum_list ` set (it_product it (map e children))" for s
  proof -
    obtain ys where "s = sum_list ys" "list_all2 (\<in>) ys (map (\<lambda>c. (\<lambda>l. l mod d) ` lengths c) children)"
      using \<open>s \<in> _\<close> unfolding p listset_iff image_iff by (auto simp: listset_iff)
    then have "s \<le> sum_list (map (\<lambda>_. d) children)" by (auto intro!: listset_le simp: less_imp_le assms(2))
    also have "\<dots> = length children * d" by (simp add: sum_list_triv)
    also have "\<dots> \<le> 2 ^ 32 * 2 ^ 31" using assms(5) assms(3) by (intro mult_le_mono) simp_all
    finally show ?thesis by simp
  qed
  then have "sums_rem dbg d (it_product it (map e children)) = Some (map (\<lambda>ys. sum_list ys mod d) (it_product it (map e children)))"
    by (rule sums_rem_fits [OF assms(2)])
  moreover have "set (map (\<lambda>ys. sum_list ys mod d) (it_product it (map e children))) = (\<lambda>l. l mod d) ` lengths (Concatenate children)"
    unfolding set_map p by (simp only: listset_mod lengths.simps)
  ultimately show ?thesis using e(1) lists_setI [of "map (\<lambda>ys. sum_list ys mod d) (it_product it (map e children))"] by simp
qed

lemma repeat_modulo:
  assumes "itertools_law it" and "0 < d" and "d < 2 ^ 31" and "op_wf child"
    and "lists_set ((\<lambda>l. l mod d) ` lengths child) (op_modulo dbg it d child)"
  shows "lists_set ((\<lambda>l. l mod d) ` lengths (Repeat child n)) (op_modulo dbg it d (Repeat child n))"
proof -
  let ?n = "min n (d + n mod d)"
  obtain xs where xs: "op_modulo dbg it d child = Some xs" "set xs = (\<lambda>l. l mod d) ` lengths child" using assms(5) by (auto simp: lists_set_def)
  have ne: "lengths child \<noteq> {}" using lengths_nonempty assms(4) by simp
  then have "xs \<noteq> []" using xs(2) by auto
  note c = combinations_sums [OF assms(1) this, of ?n, unfolded xs(2)]
  have "sums_rem dbg d (it_combinations it ?n xs) = Some (map (\<lambda>ys. sum_list ys mod d) (it_combinations it ?n xs))"
    by (rule sums_rem_fits [OF assms(2)]) (unfold c, erule small_sums [OF _ equivalent_count_fits(2) [OF assms(2,3)] assms(2,3)])
  moreover have "set (map (\<lambda>ys. sum_list ys mod d) (it_combinations it ?n xs)) = (\<lambda>l. l mod d) ` lengths (Repeat child n)"
  proof -
    have "set (map (\<lambda>ys. sum_list ys mod d) (it_combinations it ?n xs)) = (\<lambda>s. s mod d) ` sum_list ` set (it_combinations it ?n xs)"
      by (simp add: image_image)
    then show ?thesis unfolding c by (simp only: sums_of_mod sums_of_equivalent [OF assms(2) ne] lengths.simps)
  qed
  ultimately show ?thesis
    using xs(1) equivalent_count_fits(1) [OF assms(2,3)] lists_setI [of "map (\<lambda>ys. sum_list ys mod d) (it_combinations it ?n xs)"] by simp
qed

lemma range_repeat_modulo:
  assumes "itertools_law it" and "0 < d" and "d < 2 ^ 31" and "op_wf child"
    and "lists_set ((\<lambda>l. l mod d) ` lengths child) (op_modulo dbg it d child)"
  shows "lists_set ((\<lambda>l. l mod d) ` lengths (RangeRepeat child n)) (op_modulo dbg it d (RangeRepeat child n))"
proof -
  let ?n = "min n (d + n mod d)"
  obtain xs where xs: "op_modulo dbg it d child = Some xs" "set xs = (\<lambda>l. l mod d) ` lengths child" using assms(5) by (auto simp: lists_set_def)
  have "xs \<noteq> []" using lengths_nonempty [of child] assms(4) xs(2) by auto
  note c = combinations_sums [OF assms(1) this, unfolded xs(2)]
  have "sums_rem dbg d (it_combinations it k xs) = Some (map (\<lambda>ys. sum_list ys mod d) (it_combinations it k xs))"
    if "k \<in> set [0..<?n + 1]" for k
  proof (rule sums_rem_fits [OF assms(2)], unfold c)
    have "k < ?n + 1" using that by (simp only: set_upt atLeastLessThan_iff)
    then have "k \<le> 2 * d" using equivalent_count_fits(2) [OF assms(2,3), of n] by linarith
    then show "s < 2 ^ 64" if "s \<in> sums_of k ((\<lambda>l. l mod d) ` lengths child)" for s by (rule small_sums [OF that _ assms(2,3)])
  qed
  then have "try_map (\<lambda>k. sums_rem dbg d (it_combinations it k xs)) [0..<?n + 1]
      = Some (map (\<lambda>k. map (\<lambda>ys. sum_list ys mod d) (it_combinations it k xs)) [0..<?n + 1])" by (rule try_map_Some)
  moreover have "set (concat (map (\<lambda>k. map (\<lambda>ys. sum_list ys mod d) (it_combinations it k xs)) [0..<?n + 1]))
      = (\<lambda>l. l mod d) ` lengths (RangeRepeat child n)"
  proof -
    have "set (concat (map (\<lambda>k. map (\<lambda>ys. sum_list ys mod d) (it_combinations it k xs)) [0..<?n + 1]))
        = (\<Union>k\<le>?n. (\<lambda>s. s mod d) ` sum_list ` set (it_combinations it k xs))"
      by (simp add: atLeast0LessThan lessThan_Suc_atMost image_image del: upt_Suc)
    also have "\<dots> = (\<lambda>s. s mod d) ` (\<Union>k\<le>?n. sums_of k (lengths child))" unfolding c by (simp only: sums_of_mod image_UN)
    finally show ?thesis by (simp only: range_sums_equivalent [OF assms(2)] lengths.simps)
  qed
  ultimately show ?thesis
    using xs(1) equivalent_count_fits(1) [OF assms(2,3)]
      lists_setI [of "concat (map (\<lambda>k. map (\<lambda>ys. sum_list ys mod d) (it_combinations it k xs)) [0..<?n + 1])"] by simp
qed

lemma op_modulo_exact:
  assumes "itertools_law it" and "0 < d" and "d < 2 ^ 31" and "op_wf op" and "op_fits op" and "commensurable d op"
  shows "lists_set ((\<lambda>l. l mod d) ` lengths op) (op_modulo dbg it d op)"
  using assms(4-6)
proof (induction op)
  case (Leaf vs)
  have "try_map (\<lambda>l. u64_rem l d) vs = Some (map (\<lambda>l. l mod d) vs)" using assms(2) by (intro try_map_Some) (simp add: u64_rem_def)
  then show ?case using lists_setI [of "map (\<lambda>l. l mod d) vs"] by simp
next
  case (Padding child a)
  then show ?case by (intro padding_modulo [OF assms(1-3)]) simp_all
next
  case (Concatenate children)
  then show ?case by (intro concatenate_modulo [OF assms(1-3)]) (simp_all add: list_all_iff)
next
  case (Repeat child n)
  then show ?case by (intro repeat_modulo [OF assms(1-3)]) simp_all
next
  case (RangeRepeat child n)
  then show ?case by (intro range_repeat_modulo [OF assms(1-3)]) simp_all
next
  case (Union children)
  have "lists_set ((\<lambda>l. l mod d) ` lengths c) (op_modulo dbg it d c)" if "c \<in> set children" for c
    using that Union by (simp add: list_all_iff)
  then obtain e where e: "try_map (op_modulo dbg it d) children = Some (map e children)"
      "\<forall>c \<in> set children. set (e c) = (\<lambda>l. l mod d) ` lengths c" by (rule lists_set_all)
  then show ?case using lists_setI [of "concat (map e children)"] by (simp add: image_UN)
qed

section \<open>Bit length sets as sets\<close>

lemma lists_set_eq: "lists_set A r \<Longrightarrow> r = Some (sorted_list_of_set A)"
  by (auto simp: lists_set_def sorted_list_of_set_sort_remdups sorted_sort_id distinct_remdups_id)

lemma lists_set_finite: "lists_set A r \<Longrightarrow> finite A"
  by (auto simp: lists_set_def)

lemma structural_equal_eq: "structural_equal a b \<Longrightarrow> a = b"
proof (induction a b rule: structural_equal.induct)
  case (3 xs ys)
  then have "list_all2 (=) xs ys" by (auto simp: list_all2_conv_all_nth)
  then show ?case by (simp add: list.rel_eq)
next
  case (6 xs ys)
  then have "list_all2 (=) xs ys" by (auto simp: list_all2_conv_all_nth)
  then show ?case by (simp add: list.rel_eq)
qed auto

lemma bls_eq_exact:
  assumes "itertools_law it" and "op_wf a" and "op_fits a" and "op_wf b" and "op_fits b"
  shows "bls_eq dbg it \<lparr>bls_operator = a\<rparr> \<lparr>bls_operator = b\<rparr> = Some (lengths a = lengths b)"
proof -
  note a = op_expand_exact [OF assms(1-3), of dbg] and b = op_expand_exact [OF assms(1,4,5), of dbg]
  have "sorted_list_of_set (lengths a) = sorted_list_of_set (lengths b) \<longleftrightarrow> lengths a = lengths b"
    using lists_set_finite [OF a] lists_set_finite [OF b] by (metis sorted_list_of_set.set_sorted_key_list_of_set)
  then show ?thesis
    using lists_set_eq [OF a] lists_set_eq [OF b] structural_equal_eq [of a b] by (auto simp: bls_eq_def)
qed

lemma btree_cmp_Equal [simp]: "btree_cmp xs ys = Equal \<longleftrightarrow> xs = ys"
  by (induction xs ys rule: btree_cmp.induct) auto

lemma bls_cmp_exact:
  assumes "itertools_law it" and "op_wf a" and "op_fits a" and "op_wf b" and "op_fits b"
  shows "bls_cmp dbg it \<lparr>bls_operator = a\<rparr> \<lparr>bls_operator = b\<rparr>
    = Some (btree_cmp (sorted_list_of_set (lengths a)) (sorted_list_of_set (lengths b)))"
  using lists_set_eq [OF op_expand_exact [OF assms(1-3)]] lists_set_eq [OF op_expand_exact [OF assms(1,4,5)]]
  by (simp add: bls_cmp_def)

lemma leaf_min_max:
  assumes "finite A" and "A \<noteq> {}"
  shows "op_min dbg (Leaf (sorted_list_of_set A)) = Some (Min A)" and "op_max dbg (Leaf (sorted_list_of_set A)) = Some (Max A)"
  using assms by (simp_all add: set_min_Min set_max_Max)

lemma is_aligned_exact:
  assumes "itertools_law it" and "0 < d" and "d < 2 ^ 31" and "op_wf op" and "op_fits op" and "commensurable d op"
  shows "bls_is_aligned dbg it d \<lparr>bls_operator = op\<rparr> = Some (\<forall>l \<in> lengths op. d dvd l)"
proof -
  let ?A = "(\<lambda>l. l mod d) ` lengths op"
  note m = op_modulo_exact [OF assms, of dbg]
  have fin: "finite ?A" "?A \<noteq> {}" using lists_set_finite [OF m] lengths_nonempty [OF assms(4)] by auto
  have rem: "bls_rem dbg it \<lparr>bls_operator = op\<rparr> d = Some \<lparr>bls_operator = Leaf (sorted_list_of_set ?A)\<rparr>"
    using lists_set_eq [OF m] fin by (simp add: bls_rem_def)
  have "bls_is_aligned dbg it d \<lparr>bls_operator = op\<rparr> = Some (Min ?A = Max ?A \<and> Min ?A = 0)"
    unfolding bls_is_aligned_def rem by (simp add: bls_is_fixed_size_def leaf_min_max [OF fin] del: op_min.simps op_max.simps)
  moreover have "Min ?A = Max ?A \<and> Min ?A = 0 \<longleftrightarrow> (\<forall>l \<in> lengths op. d dvd l)"
  proof
    assume "Min ?A = Max ?A \<and> Min ?A = 0"
    then have "l mod d \<le> 0" if "l \<in> lengths op" for l using Max_ge [OF fin(1), of "l mod d"] that by simp
    then show "\<forall>l \<in> lengths op. d dvd l" by (auto simp: dvd_eq_mod_eq_0)
  next
    assume "\<forall>l \<in> lengths op. d dvd l"
    then have "?A = {0}" using lengths_nonempty [OF assms(4)] by (auto simp: dvd_eq_mod_eq_0 image_iff)
    then show "Min ?A = Max ?A \<and> Min ?A = 0" by simp
  qed
  ultimately show ?thesis by simp
qed

text \<open>The constructors make well-formed operators, and describe the sets that they are documented to describe.\<close>

lemma constructors_wf:
  "op_wf (bls_operator (bls_single l))"
  "bls_from_lengths vs = Some s \<Longrightarrow> op_wf (bls_operator s)"
  "op_wf (bls_operator s) \<Longrightarrow> 0 < alignment \<Longrightarrow> op_wf (bls_operator (bls_pad_to_alignment alignment s))"
  "op_wf (bls_operator s) \<Longrightarrow> op_wf (bls_operator (bls_repeat n s)) \<and> op_wf (bls_operator (bls_repeat_range n s))"
  "list_all (\<lambda>s. op_wf (bls_operator s)) (s # others) \<Longrightarrow>
     op_wf (bls_operator (bls_concatenate others s)) \<and> op_wf (bls_operator (bls_unite others s))"
  by (auto simp: bls_single_def bls_from_lengths_def btree_collect_def bls_pad_to_alignment_def bls_repeat_def bls_repeat_range_def
    bls_concatenate_def bls_extend_def bls_unite_def list_all_iff Let_def split: if_splits)

lemma constructors_lengths:
  "lengths (bls_operator (bls_single l)) = {l}"
  "bls_from_lengths vs = Some s \<Longrightarrow> lengths (bls_operator s) = set vs"
  "lengths (bls_operator (bls_concatenate others s)) =
     sum_list ` listset (map (lengths \<circ> bls_operator) (s # others))"
  "lengths (bls_operator (bls_unite others s)) = (\<Union>s' \<in> set (s # others). lengths (bls_operator s'))"
  by (auto simp: bls_single_def bls_from_lengths_def btree_collect_def bls_concatenate_def bls_extend_def bls_unite_def
    Let_def comp_def split: if_splits)

text \<open>Iterators with the documented behaviour.\<close>

definition list_itertools :: itertools where
  "list_itertools = \<lparr>it_combinations = (\<lambda>k xs. filter sorted (List.n_lists k xs)), it_product = product_lists, it_lcm = (\<lambda>a b. Some (lcm a b))\<rparr>"

lemma list_itertools_law: "itertools_law list_itertools"
proof -
  have "mset ` set (filter sorted (List.n_lists k xs)) = {M. size M = k \<and> set_mset M \<subseteq> set xs}" for k and xs :: "nat list"
  proof (intro equalityI subsetI)
    fix M assume "M \<in> {M. size M = k \<and> set_mset M \<subseteq> set xs}"
    then show "M \<in> mset ` set (filter sorted (List.n_lists k xs))"
      by (intro image_eqI [of _ _ "sorted_list_of_multiset M"]) (auto simp: set_n_lists simp flip: size_mset)
  qed (auto simp: set_n_lists)
  moreover have "set (product_lists xss) = listset (map set xss)" for xss :: "nat list list"
    by (auto simp: product_lists_set listset_iff list_all2_map2)
  ultimately show ?thesis by (simp add: itertools_law_def list_itertools_def)
qed

lemma try_map_None: "x \<in> set xs \<Longrightarrow> f x = None \<Longrightarrow> try_map f xs = None"
  by (induction xs) (auto split: bind_splits)

section \<open>Properties\<close>

text \<open>
  C13: What a bit length set calculates from its operators is exact. For operators that the constructors make, with paddings other than zero
  and lengths that fit into 64 bits, the minimum and the maximum are those of the described set of lengths, the expansion
  lists this set in ascending order, two bit length sets are equal if and only if they describe the same lengths,
  comparing them is lexicographic on the ascending lengths, and nothing panics.
\<close>

theorem bit_length_set_exact:
  assumes "itertools_law it" and "op_wf a" and "op_fits a" and "op_wf b" and "op_fits b"
  shows "op_min dbg a = Some (Min (lengths a)) \<and> op_max dbg a = Some (Max (lengths a)) \<and>
    op_expand dbg it a = Some (sorted_list_of_set (lengths a)) \<and>
    bls_eq dbg it \<lparr>bls_operator = a\<rparr> \<lparr>bls_operator = b\<rparr> = Some (lengths a = lengths b) \<and>
    bls_cmp dbg it \<lparr>bls_operator = a\<rparr> \<lparr>bls_operator = b\<rparr>
      = Some (btree_cmp (sorted_list_of_set (lengths a)) (sorted_list_of_set (lengths b)))"
proof -
  note e = op_expand_exact [OF assms(1-3), of dbg]
  have "Min (lengths a) = shortest a" "Max (lengths a) = longest a"
    using shortest_least [OF assms(2)] longest_greatest [OF assms(2)] lists_set_finite [OF e] by (auto intro!: Min_eqI Max_eqI)
  then show ?thesis
    using op_min_shortest [OF assms(2,3)] op_max_longest [OF assms(2,3)] lists_set_eq [OF e] bls_eq_exact [OF assms] bls_cmp_exact [OF assms] by simp
qed

text \<open>The lengths of a list of up to three numbers of one or two bytes, and of a padded flag.\<close>

definition example_operator :: Operator where
  "example_operator = Concatenate [RangeRepeat (Leaf [8, 16]) 3, Padding (Leaf [1]) 8]"

theorem bit_length_set_exact_witness:
  "op_min True example_operator = Some (Min (lengths example_operator)) \<and> op_max True example_operator = Some (Max (lengths example_operator)) \<and>
   op_expand True list_itertools example_operator = Some (sorted_list_of_set (lengths example_operator)) \<and>
   bls_eq True list_itertools \<lparr>bls_operator = example_operator\<rparr> \<lparr>bls_operator = Repeat (Leaf [8]) 2\<rparr>
     = Some (lengths example_operator = lengths (Repeat (Leaf [8]) 2)) \<and>
   bls_cmp True list_itertools \<lparr>bls_operator = example_operator\<rparr> \<lparr>bls_operator = Repeat (Leaf [8]) 2\<rparr>
     = Some (btree_cmp (sorted_list_of_set (lengths example_operator)) (sorted_list_of_set (lengths (Repeat (Leaf [8]) 2))))"
  by (rule bit_length_set_exact [OF list_itertools_law]) (simp_all add: example_operator_def)

text \<open>
  C12: Remainders are calculated without expanding the set, and exactly. If every padding divides the divisor or is a multiple of it,
  the calculated remainders are those of the described lengths, although repetitions are cut to fewer than twice the divisor. So
  a bit length set is reported as aligned if and only if the alignment divides each of its lengths. Divisors below
  2 to the power of 31 do not overflow, and no debug assertion fails.
\<close>

theorem bit_length_modulo_exact:
  assumes "itertools_law it" and "0 < d" and "d < 2 ^ 31" and "op_wf op" and "op_fits op" and "commensurable d op"
  shows "op_modulo dbg it d op = Some (sorted_list_of_set ((\<lambda>l. l mod d) ` lengths op)) \<and>
    bls_is_aligned dbg it d \<lparr>bls_operator = op\<rparr> = Some (\<forall>l \<in> lengths op. d dvd l)"
  using lists_set_eq [OF op_modulo_exact [OF assms]] is_aligned_exact [OF assms] by simp

theorem bit_length_modulo_exact_witness:
  "op_modulo True list_itertools 8 example_operator = Some (sorted_list_of_set ((\<lambda>l. l mod 8) ` lengths example_operator)) \<and>
   bls_is_aligned True list_itertools 8 \<lparr>bls_operator = example_operator\<rparr> = Some (list_all (\<lambda>l. 8 dvd l) (sorted_list_of_set (lengths example_operator)))"
proof -
  have "op_wf example_operator" "op_fits example_operator" "commensurable 8 example_operator" by (simp_all add: example_operator_def)
  note exact = bit_length_modulo_exact [OF list_itertools_law _ _ this, of True]
  have "finite (lengths example_operator)"
    using lists_set_finite [OF op_expand_exact [OF list_itertools_law \<open>op_wf example_operator\<close> \<open>op_fits example_operator\<close>]] .
  then show ?thesis using exact by (simp add: list_all_iff)
qed

text \<open>The least multiple of \<open>a\<close> from \<open>d\<close> on is no multiple of \<open>d\<close>, unless one of them divides the other.\<close>

lemma align_not_dvd:
  fixes a d :: nat
  assumes "0 < a" and "\<not> a dvd d" and "\<not> d dvd a"
  shows "\<not> d dvd (d + (a - 1)) div a * a"
proof (cases "d < a")
  case True
  have "0 < d" using assms(2) by (cases d) auto
  with True have "(d + (a - 1)) div a = 1" by (simp add: div_nat_eqI)
  then show ?thesis using assms(3) by simp
next
  case False
  then have "a < d" using assms(2) by (cases "a = d") auto
  let ?l = "(d + (a - 1)) div a * a"
  have split: "d + (a - 1) = ?l + (d + (a - 1)) mod a" by simp
  have "(d + (a - 1)) mod a \<le> a - 1" using assms(1) by (simp add: less_Suc_eq_le [symmetric])
  then have "d \<le> ?l" "?l \<le> d + (a - 1)" using split by linarith+
  moreover have "?l \<noteq> d" using assms(2) by (metis dvd_triv_right)
  ultimately have "d < ?l" "?l < d + d" using \<open>a < d\<close> by linarith+
  show ?thesis
  proof
    assume "d dvd ?l"
    then obtain q where q: "?l = d * q" by (rule dvdE)
    then have "1 < q" using \<open>d < ?l\<close> by (cases "q = 0 \<or> q = 1") auto
    then have "d * 2 \<le> ?l" unfolding q by (intro mult_le_mono) simp_all
    then show False using \<open>?l < d + d\<close> by simp
  qed
qed

lemma padded_divisor:
  assumes "itertools_law it" and "0 < a" and "a < 2 ^ 32" and "0 < d" and "d < 2 ^ 32"
  defines "l \<equiv> (d + (a - 1)) div a * a"
  shows "op_expand dbg it (Padding (Leaf [d]) a) = Some [l]" and "op_min dbg (Padding (Leaf [d]) a) = Some l"
    and "op_max dbg (Padding (Leaf [d]) a) = Some l" and "op_modulo dbg it d (Padding (Leaf [d]) a) = Some [0]"
proof -
  have "lcm a d \<le> a * d" using assms(2,4) by (simp add: lcm_nat_def)
  also have "\<dots> < 2 ^ 32 * 2 ^ 32" using assms(2-5) by (intro mult_strict_mono) simp_all
  finally have "lcm a d < 2 ^ 64" by simp
  then have lcm: "it_lcm it a d = Some (lcm a d)" using assms(1,2,4) by (simp add: itertools_law_def)
  have "d + (a - 1) < 2 ^ 64" "0 + (a - 1) < (2 :: nat) ^ 64" using assms(3,5) by simp_all
  then have up: "align_up dbg d a = Some l" "align_up dbg 0 a = Some 0" using assms(2) by (simp_all add: align_up_def u64_result_def l_def)
  show "op_expand dbg it (Padding (Leaf [d]) a) = Some [l]" "op_min dbg (Padding (Leaf [d]) a) = Some l"
    and m: "op_max dbg (Padding (Leaf [d]) a) = Some l"
    by (simp_all add: set_min_def set_max_def up btree_collect_def)
  show "op_modulo dbg it d (Padding (Leaf [d]) a) = Some [0]"
    unfolding op_modulo.simps m lcm using assms(2,4) by (simp add: u64_rem_def up(2) btree_collect_def lcm_pos_nat)
qed

text \<open>
  C40: The condition of the previous property is needed. For every padding and every divisor below 2 to the power of 32 of which neither
  divides the other, there is a bit length set with wrong remainders, because the remainder of the unpadded length is padded: the length
  equal to the divisor, padded. Its only length is no multiple of the divisor, but the set is reported as aligned to the divisor, and the
  numerical validation of the library panics on it if it gets as far as this divisor.
\<close>

theorem padding_modulo_wrong:
  assumes "itertools_law it" and "0 < a" and "a < 2 ^ 32" and "d < 2 ^ 32" and "\<not> a dvd d" and "\<not> d dvd a"
  shows "bls_is_aligned dbg it d (bls_pad_to_alignment a (bls_single d)) = Some True \<and>
    (\<exists>l. op_expand dbg it (bls_operator (bls_pad_to_alignment a (bls_single d))) = Some [l] \<and> \<not> d dvd l) \<and>
    (d \<le> 64 \<longrightarrow> validate_numerically dbg it (bls_operator (bls_pad_to_alignment a (bls_single d))) = None)"
proof -
  let ?op = "Padding (Leaf [d]) a"
  have d: "0 < d" using assms(5) by (cases d) auto
  obtain l where p: "op_expand dbg it ?op = Some [l]" "op_min dbg ?op = Some l" "op_max dbg ?op = Some l" "op_modulo dbg it d ?op = Some [0]"
    and l: "\<not> d dvd l"
    using padded_divisor [OF assms(1-3) d assms(4)] align_not_dvd [OF assms(2,5,6)] by blast
  have "bls_is_aligned dbg it d \<lparr>bls_operator = ?op\<rparr> = Some True"
    by (simp add: bls_is_aligned_def bls_rem_def p(4) bls_is_fixed_size_def set_min_def set_max_def del: op_modulo.simps)
  moreover have "validate_numerically dbg it ?op = None" if "d \<le> 64"
  proof -
    have "d \<in> set [1..<65]" using that d by (simp only: set_upt atLeastLessThan_iff) linarith
    moreover have "[0] \<noteq> btree_collect (map (\<lambda>v. v mod d) [l])" using l by (simp add: btree_collect_def dvd_eq_mod_eq_0)
    then have "do { r \<leftarrow> op_modulo dbg it d ?op; if r \<noteq> btree_collect (map (\<lambda>v. v mod d) [l]) then None else Some () } = None"
      unfolding p(4) by simp
    ultimately have "try_map (\<lambda>i. do { r \<leftarrow> op_modulo dbg it i ?op; if r \<noteq> btree_collect (map (\<lambda>v. v mod i) [l]) then None else Some () }) [1..<65] = None"
      by (rule try_map_None)
    then show ?thesis
      by (simp only: validate_numerically_def p set_min_def set_max_def Option.bind.simps list.case list.distinct last.simps
          simp_thms if_True if_False)
  qed
  ultimately show ?thesis using p(1) l by (simp add: bls_pad_to_alignment_def bls_single_def del: op_expand.simps)
qed

theorem padding_modulo_wrong_witness:
  "bls_is_aligned True list_itertools 3 (bls_pad_to_alignment 4 (bls_single 3)) = Some True \<and>
   op_expand True list_itertools (bls_operator (bls_pad_to_alignment 4 (bls_single 3))) = Some [4] \<and>
   validate_numerically True list_itertools (bls_operator (bls_pad_to_alignment 4 (bls_single 3))) = None"
proof -
  have side: "0 < (4 :: nat)" "4 < (2 :: nat) ^ 32" "3 < (2 :: nat) ^ 32" "3 \<le> (64 :: nat)" by simp_all
  have "\<not> 4 dvd (3 :: nat)" "\<not> 3 dvd (4 :: nat)" by presburger+
  note wrong = padding_modulo_wrong [OF list_itertools_law side(1-3) this, of True]
  show ?thesis
  proof (intro conjI)
    show "op_expand True list_itertools (bls_operator (bls_pad_to_alignment 4 (bls_single 3))) = Some [4]"
      by (simp add: bls_pad_to_alignment_def bls_single_def align_up_def u64_result_def btree_collect_def)
  qed (use wrong side(4) in blast)+
qed

end
