(* ===== verification/Spec2Isabelle.thy ===== *)
theory Spec2Isabelle
  imports Core_Time Core_Subscription Can_Sessions Can_Redundant Can_Filter Data_Register Ser_RoundTrip Reg_Handler Pnp_Client Udp_Delivery Bls_Exact
begin

text \<open>
  Verification of canadensis, an implementation of Cyphal (UAVCAN version 1) in Rust for embedded
  nodes. The paths below are relative to the source tree of the repository.

  \<^bold>\<open>The program.\<close> A node sends and receives \<^emph>\<open>transfers\<close>: a header (message on a subject, or request or
  response of a service) and a payload. The core crate defines headers, identifiers, time and subscriptions. A transport
  crate turns a transfer into what its medium carries and back: the CAN transport into
  frames of at most 8 or 64 bytes, which queue drivers order by priority, filters select in hardware and redundant
  interfaces duplicate; the serial transport into one byte-stuffed frame on a line; the UDP transport into datagrams. Payloads are
  data types described in a schema language; generated code writes and reads them with the bit cursors of the encoding crate.
  The node crate puts publishers, requesters and handlers on top of any transport; nodes announce themselves with heartbeats and a list of
  their ports, serve registers, and can ask for a node identifier.

  \<^bold>\<open>Theories and sources.\<close>
  \<^item> \<^verbatim>\<open>Prelude\<close>: error types, words, little-endian bytes and list operations of the standard library that all
    components share.
  \<^item> \<^verbatim>\<open>Core_Time\<close>: \<^verbatim>\<open>canadensis_core/src/time.rs\<close>, \<^verbatim>\<open>time/u48.rs\<close>; the trait \<^verbatim>\<open>Instant\<close> is the locale
    \<^verbatim>\<open>instant\<close>, interpreted for the three widths of clock.
  \<^item> \<^verbatim>\<open>Core_Ids\<close>, \<^verbatim>\<open>Core_Transfer\<close>: \<^verbatim>\<open>canadensis_core/src/lib.rs\<close>, \<^verbatim>\<open>transfer.rs\<close>, \<^verbatim>\<open>error.rs\<close>.
  \<^item> \<^verbatim>\<open>Core_Subscription\<close>: \<^verbatim>\<open>canadensis_core/src/subscription.rs\<close>; one kind of port is the locale
    \<^verbatim>\<open>port_subscriptions\<close>, interpreted for messages, requests and responses.
  \<^item> \<^verbatim>\<open>Core_Session\<close>: \<^verbatim>\<open>canadensis_core/src/session.rs\<close>; the trait \<^verbatim>\<open>SessionTracker\<close> is the locale \<^verbatim>\<open>session_tracker\<close>, with the three trackers as
    its instances.
  \<^item> \<^verbatim>\<open>Can_Types\<close>, \<^verbatim>\<open>Can_Crc\<close>, \<^verbatim>\<open>Can_Stats\<close>, \<^verbatim>\<open>Can_Id\<close>: \<^verbatim>\<open>canadensis_can/src/data.rs\<close>, \<^verbatim>\<open>types.rs\<close>, \<^verbatim>\<open>crc.rs\<close>, \<^verbatim>\<open>lib.rs\<close> and
    the identifier and tail byte functions of \<^verbatim>\<open>tx.rs\<close> and \<^verbatim>\<open>rx.rs\<close>.
  \<^item> \<^verbatim>\<open>Can_Tx\<close>, \<^verbatim>\<open>Can_Rx\<close>: the transmitter (\<^verbatim>\<open>tx.rs\<close>, \<^verbatim>\<open>tx/breakdown.rs\<close>) and the receiver (\<^verbatim>\<open>rx.rs\<close>, \<^verbatim>\<open>rx/\<close>) of
    \<^verbatim>\<open>canadensis_can/src\<close>; \<^verbatim>\<open>Can_RoundTrip\<close> composes them; \<^verbatim>\<open>Can_Sessions\<close> is about the sessions of the receiver over time and
    their memory.
  \<^item> \<^verbatim>\<open>Can_Queue\<close>: \<^verbatim>\<open>canadensis_can/src/queue/\<close>; the trait \<^verbatim>\<open>FrameQueue\<close> is a locale, interpreted for both queues.
  \<^item> \<^verbatim>\<open>Can_Redundant\<close>: \<^verbatim>\<open>canadensis_can/src/redundant/\<close>.
  \<^item> \<^verbatim>\<open>Can_Filter\<close>: \<^verbatim>\<open>canadensis_filter_config/src/lib.rs\<close> and the filters of \<^verbatim>\<open>canadensis_can/src/driver.rs\<close>.
  \<^item> \<^verbatim>\<open>Enc_Write\<close>, \<^verbatim>\<open>Enc_Read\<close>, \<^verbatim>\<open>Enc_Bits\<close>, \<^verbatim>\<open>Enc_DataType\<close>: \<^verbatim>\<open>canadensis_encoding/src\<close> (cursors, bit arrays, the traits of a
    data type); \<^verbatim>\<open>Enc_RoundTrip\<close> relates the two cursors. The contract of a serializable type is the
    locale \<^verbatim>\<open>data_type\<close>, interpreted for every modelled type.
  \<^item> \<^verbatim>\<open>Data_Node\<close>, \<^verbatim>\<open>Data_Register\<close>: the types of \<^verbatim>\<open>canadensis_data_types/src/generated.rs\<close> that nodes exchange.
  \<^item> \<^verbatim>\<open>Ser_Cobs\<close>, \<^verbatim>\<open>Ser_Header\<close>, \<^verbatim>\<open>Ser_Tx\<close>, \<^verbatim>\<open>Ser_Rx\<close>: \<^verbatim>\<open>canadensis_serial/src\<close>; \<^verbatim>\<open>Ser_RoundTrip\<close> composes them.
  \<^item> \<^verbatim>\<open>Udp_Address\<close>, \<^verbatim>\<open>Udp_Tx\<close>, \<^verbatim>\<open>Udp_Rx\<close>: \<^verbatim>\<open>canadensis_udp/src\<close> (addresses and ports; headers, breakdown and transmitter; reassembly,
    subscriptions and receiver); \<^verbatim>\<open>Udp_Delivery\<close> composes them.
  \<^item> \<^verbatim>\<open>Node_Core\<close>, \<^verbatim>\<open>Node_Basic\<close>: \<^verbatim>\<open>canadensis/src\<close> without registers, over an arbitrary transport, whose traits are the records
    of operations in \<^verbatim>\<open>node_env\<close>; \<^verbatim>\<open>Node_Ports\<close> has the step relation of a basic node and its invariant.
  \<^item> \<^verbatim>\<open>Reg_Types\<close>, \<^verbatim>\<open>Reg_Handler\<close>: \<^verbatim>\<open>canadensis/src/register.rs\<close>, \<^verbatim>\<open>register/basic.rs\<close> and the code that \<^verbatim>\<open>canadensis_derive_register_block\<close> generates;
    the contracts of register types and of registers are the locales \<^verbatim>\<open>register_type\<close> and \<^verbatim>\<open>lawful_register\<close>.
  \<^item> \<^verbatim>\<open>Pnp_Client\<close>: \<^verbatim>\<open>canadensis_pnp_client/src/lib.rs\<close>.
  \<^item> \<^verbatim>\<open>Bls_Operator\<close>: \<^verbatim>\<open>canadensis_bit_length_set/src\<close>, the sets of possible lengths of a data type that the code generator calculates with;
    \<^verbatim>\<open>Bls_Exact\<close> relates the calculations to the described sets of numbers.

  \<^bold>\<open>Correspondence.\<close> A struct is a record, an enum a datatype, a method on \<^verbatim>\<open>&mut self\<close> a function that returns the
  updated record. A panic is \<open>None\<close>, \<^verbatim>\<open>Result\<close> is a sum type with \<open>Inl\<close> the error, \<^verbatim>\<open>nb::Error\<close> is \<^typ>\<open>'e nb_error\<close>. Fixed-width
  integers are words; \<^verbatim>\<open>usize\<close> is \<open>nat\<close>. The flag \<open>dbg\<close> selects builds in which arithmetic overflow panics. Types that are
  generic over an instant take its operations as arguments. Drivers, sockets, allocation outcomes, clocks, third-party
  containers (\<^verbatim>\<open>heapless\<close>, \<^verbatim>\<open>TryHashMap\<close>), checksums (\<^verbatim>\<open>crc_any\<close>) and iterators (\<^verbatim>\<open>itertools\<close>) are arguments, with their documented behaviour as
  named predicates such as \<^const>\<open>hvec_law\<close>, \<^const>\<open>byte_deque_law\<close> and \<^const>\<open>hash_map_law\<close>, each with a concrete instance.

  \<^bold>\<open>What is shown.\<close> For CAN: a transfer broken into frames, in any number, is reassembled to itself; the transmitter
  refines a list of frames; the receiver never panics and its loop returns, recovers from interrupted transfers, and reports exactly the failed allocations; identifiers round-trip and the parser is total;
  the frame queue is a stable priority queue, also when the driver displaces frames; a transfer is queued whole or not at all; filters
  never block a subscribed frame; the deduplicator implements a specification over the history. For serial: byte stuffing and headers
  round-trip, a pushed transfer is delivered, and the receiver resynchronises after any noise. For UDP: addresses round-trip, the transmitter
  refines a list of packets, and exactly the transfers that one or two frames carry are delivered. For nodes: after any sequence of calls
  the published list of ports names exactly the ports opened through the node's own operations; register requests are served and registers are discovered; the answer to a request for a node
  identifier is recognised. For the encoding: every
  write appends exactly its bits or panics, every field sequence and every modelled type is read back as it was written. For the core:
  durations and comparisons of instants are characterised across an overflow of the clock, subscriptions and sessions behave as maps. For bit length sets: minimum, maximum, expansion and
  comparison are exact, and remainders are exact if every padding divides the divisor or is a multiple of it, and only then in general. The error
  properties prove the defects that the modelling found.

  \<^bold>\<open>Bounds.\<close> No theorem bounds payloads, queues or buffers beyond the limits of the code. Loops over drivers are
  \<^verbatim>\<open>partial_function\<close>s on \<open>option\<close>; that they return is proved, for a CAN receiver under the hypothesis that the driver
  delivers finitely many frames, for a queue under a measure that the driver lowers, for the serial
  transmitter and the cleaning of sessions outright.

  \<^bold>\<open>Not modelled.\<close> Text output (\<^verbatim>\<open>Debug\<close>, logging) and \<^verbatim>\<open>std\<close> clocks; the crates that only bind hardware or
  operating system interfaces (\<^verbatim>\<open>canadensis_bxcan\<close>, \<^verbatim>\<open>canadensis_linux\<close>); the compile-time tools (\<^verbatim>\<open>canadensis_dsdl_parser\<close>, \<^verbatim>\<open>canadensis_dsdl_frontend\<close>,
  \<^verbatim>\<open>canadensis_codegen_rust\<close>, \<^verbatim>\<open>canadensis_macro\<close>, \<^verbatim>\<open>canadensis_write_crc\<close>), which produce the code
  modelled here from text by third-party parsers; and the generated types that no code of the repository uses.
\<close>

end
